(* ===== verification/Prelude.thy ===== *)
theory Prelude
  imports Main "HOL-Library.Word"
begin

text \<open>
  Shared vocabulary of the development: the machine integers of the Rust code, bytes and byte
  strings, the outcome of a fallible call, little-endian encodings, list slices, decimal rendering
  and UTF-8 validation, together with the generic lemmas every component uses.

  Rust's \<open>String\<close> and \<open>str\<close> are modelled by their UTF-8 bytes (that is how Rust stores
  them), so \<open>as_bytes\<close>, \<open>into_bytes\<close> and \<open>len\<close> are the identity and the length. A
  \<open>usize\<close> is a \<^typ>\<open>nat\<close>: it only counts bytes held in memory, on a 64-bit target.
\<close>

unbundle bit_operations_syntax

section \<open>Machine integers and bytes\<close>

type_synonym u8 = "8 word"
type_synonym u16 = "16 word"
type_synonym u32 = "32 word"
type_synonym u64 = "64 word"
type_synonym i64 = int
type_synonym bytes = "u8 list"

named_theorems codec_simps \<open>lengths and inverses of the fixed-width encodings\<close>

named_theorems slice_simps \<open>evaluation of slices of concatenations\<close>

lemma u8_unat_less: "unat (b :: u8) < 256"
  using unsigned_less [of b, where 'a = nat] by simp

lemma unat_less_u16: "unat (w :: u16) < 65536"
  using unsigned_less [of w, where 'a = nat] by simp

lemma unat_less_u32: "unat (w :: u32) < 4294967296"
  using unsigned_less [of w, where 'a = nat] by simp

lemma unat_less_u64: "unat (w :: u64) < 18446744073709551616"
  using unsigned_less [of w, where 'a = nat] by simp

lemma unat_ucast_u8 [simp]: "unat (ucast (b :: u8) :: u32) = unat b"
  using u8_unat_less [of b] by (simp add: unsigned_ucast_eq take_bit_eq_mod)

text \<open>A byte-string literal \<open>b"..."\<close> of the source.\<close>

definition ascii :: "string \<Rightarrow> bytes" where
  "ascii s = map of_char s"

lemma ascii_Nil [simp]: "ascii [] = []"
  by (simp add: ascii_def)

lemma ascii_Cons [simp]: "ascii (c # cs) = of_char c # ascii cs"
  by (simp add: ascii_def)

lemma length_ascii [simp]: "length (ascii s) = length s"
  by (simp add: ascii_def)

lemma inj_of_char_u8: "inj (of_char :: char \<Rightarrow> u8)"
proof (rule injI)
  fix x y :: char
  assume "(of_char x :: u8) = of_char y"
  then have "(word_of_nat (of_char x) :: u8) = word_of_nat (of_char y)"
    by (simp only: of_nat_of_char)
  moreover have "(of_char x :: nat) < 256" "(of_char y :: nat) < 256"
    by simp_all
  ultimately have "(of_char x :: nat) = of_char y"
    by (simp add: word_of_nat_eq_iff take_bit_eq_mod)
  then show "x = y" by simp
qed

lemma ascii_inject [simp]: "ascii s = ascii t \<longleftrightarrow> s = t"
  by (simp add: ascii_def inj_map_eq_map [OF inj_of_char_u8])

section \<open>Outcomes of fallible calls\<close>

text \<open>
  \<open>Ok\<close> and \<open>Err\<close> are Rust's \<open>Result\<close>; \<open>Panic\<close> is a call that panics (a failed
  \<open>expect\<close>, a slice index out of range, \<open>clamp\<close> with crossed bounds), which no caller in
  this repository catches.
\<close>

datatype ('a, 'e) outcome = Ok 'a | Err 'e | Panic

fun bind_outcome :: "('a, 'e) outcome \<Rightarrow> ('a \<Rightarrow> ('b, 'e) outcome) \<Rightarrow> ('b, 'e) outcome" where
  "bind_outcome (Ok a) f = f a"
| "bind_outcome (Err e) f = Err e"
| "bind_outcome Panic f = Panic"

fun map_err :: "('e \<Rightarrow> 'f) \<Rightarrow> ('a, 'e) outcome \<Rightarrow> ('a, 'f) outcome" where
  "map_err g (Ok a) = Ok a"
| "map_err g (Err e) = Err (g e)"
| "map_err g Panic = Panic"

fun ok_or :: "'e \<Rightarrow> 'a option \<Rightarrow> ('a, 'e) outcome" where
  "ok_or e (Some a) = Ok a"
| "ok_or e None = Err e"

lemma bind_outcome_cong [fundef_cong]:
  "m = m' \<Longrightarrow> (\<And>a. m' = Ok a \<Longrightarrow> f a = f' a) \<Longrightarrow> bind_outcome m f = bind_outcome m' f'"
  by (cases m') auto

lemma bind_outcome_eq_Ok [simp]:
  "bind_outcome m f = Ok b \<longleftrightarrow> (\<exists>a. m = Ok a \<and> f a = Ok b)"
  by (cases m) auto

lemma bind_outcome_assoc: "bind_outcome (bind_outcome m f) g = bind_outcome m (\<lambda>a. bind_outcome (f a) g)"
  by (cases m) auto

lemma map_err_eq_Ok [simp]: "map_err g m = Ok a \<longleftrightarrow> m = Ok a"
  by (cases m) auto

lemma ok_or_eq_Ok [simp]: "ok_or e m = Ok a \<longleftrightarrow> m = Some a"
  by (cases m) auto

section \<open>Slices\<close>

text \<open>
  \<open>slice i j xs\<close> is \<open>&xs[i..j]\<close>. It is only used under the guard
  \<open>i \<le> j \<and> j \<le> length xs\<close> that the code has established; where the code has not, the model
  tests it and panics (\<open>try_slice\<close>).
\<close>

definition slice :: "nat \<Rightarrow> nat \<Rightarrow> 'a list \<Rightarrow> 'a list" where
  "slice i j xs = take (j - i) (drop i xs)"

definition try_slice :: "nat \<Rightarrow> nat \<Rightarrow> 'a list \<Rightarrow> ('a list, 'e) outcome" where
  "try_slice i j xs = (if i \<le> j \<and> j \<le> length xs then Ok (slice i j xs) else Panic)"

lemma length_slice [simp]: "length (slice i j xs) = min (j - i) (length xs - i)"
  by (simp add: slice_def)

lemma slice_append_left [slice_simps]:
  "j \<le> length xs \<Longrightarrow> slice i j (xs @ ys) = slice i j xs"
  by (simp add: slice_def)

lemma slice_append_right [slice_simps]:
  "length xs \<le> i \<Longrightarrow> slice i j (xs @ ys) = slice (i - length xs) (j - length xs) ys"
  by (simp add: slice_def)

lemma slice_zero: "slice 0 j xs = take j xs"
  by (simp add: slice_def)

lemma slice_full [slice_simps]: "length xs \<le> j \<Longrightarrow> slice 0 j xs = xs"
  by (simp add: slice_def)

lemma slice_exact [slice_simps]:
  "length xs = i \<Longrightarrow> length ys = j - i \<Longrightarrow> slice i j (xs @ ys @ zs) = ys"
  by (simp add: slice_def)

lemma append_split:
  assumes "xs @ rest = bs @ tail" and "length bs \<le> length xs"
  obtains ys where "xs = bs @ ys" "tail = ys @ rest"
  using assms by (auto simp: append_eq_append_conv2)

section \<open>Little-endian integers\<close>

fun le_nat :: "nat \<Rightarrow> nat \<Rightarrow> bytes" where
  "le_nat 0 v = []"
| "le_nat (Suc n) v = word_of_nat v # le_nat n (v div 256)"

fun nat_le :: "bytes \<Rightarrow> nat" where
  "nat_le [] = 0"
| "nat_le (b # bs) = unat b + 256 * nat_le bs"

lemma length_le_nat [simp, codec_simps]: "length (le_nat n v) = n"
  by (induction n arbitrary: v) auto

lemma nat_le_le_nat [codec_simps]: "nat_le (le_nat n v) = v mod 256 ^ n"
proof (induction n arbitrary: v)
  case 0
  then show ?case by simp
next
  case (Suc n)
  have "v mod (256 * 256 ^ n) = 256 * (v div 256 mod 256 ^ n) + v mod 256"
    by (rule mod_mult2_eq)
  with Suc show ?case by (simp add: unat_of_nat)
qed

lemma nat_le_bound: "nat_le bs < 256 ^ length bs"
proof (induction bs)
  case Nil
  then show ?case by simp
next
  case (Cons b bs)
  have "unat b < 256" by (rule u8_unat_less)
  with Cons show ?case by simp
qed

lemma le_nat_nat_le [codec_simps]: "le_nat (length bs) (nat_le bs) = bs"
proof (induction bs)
  case Nil
  then show ?case by simp
next
  case (Cons b bs)
  have b: "unat b < 256" by (rule u8_unat_less)
  then have "(unat b + 256 * nat_le bs) div 256 = nat_le bs" by simp
  moreover have "(word_of_nat (unat b + 256 * nat_le bs) :: u8) = b"
  proof -
    have "(word_of_nat (unat b + 256 * nat_le bs) :: u8) = word_of_nat (unat b) + 256 * word_of_nat (nat_le bs)"
      by simp
    also have "(256 :: u8) * word_of_nat (nat_le bs) = 0 * word_of_nat (nat_le bs)"
      by (rule arg_cong [where f = "\<lambda>c. c * _"]) simp
    finally show ?thesis by simp
  qed
  ultimately show ?case using Cons by simp
qed

definition to_le16 :: "u16 \<Rightarrow> bytes" where
  "to_le16 w = le_nat 2 (unat w)"

definition to_le32 :: "u32 \<Rightarrow> bytes" where
  "to_le32 w = le_nat 4 (unat w)"

definition to_le64 :: "u64 \<Rightarrow> bytes" where
  "to_le64 w = le_nat 8 (unat w)"

definition from_le32 :: "bytes \<Rightarrow> u32" where
  "from_le32 bs = word_of_nat (nat_le bs)"

definition from_le64 :: "bytes \<Rightarrow> u64" where
  "from_le64 bs = word_of_nat (nat_le bs)"

lemma length_to_le16 [simp, codec_simps]: "length (to_le16 w) = 2"
  by (simp add: to_le16_def)

lemma length_to_le32 [simp, codec_simps]: "length (to_le32 w) = 4"
  by (simp add: to_le32_def)

lemma length_to_le64 [simp, codec_simps]: "length (to_le64 w) = 8"
  by (simp add: to_le64_def)

lemma from_to_le32 [simp, codec_simps]: "from_le32 (to_le32 w) = w"
  using unat_less_u32 [of w] by (simp add: from_le32_def to_le32_def nat_le_le_nat)

lemma from_to_le64 [simp, codec_simps]: "from_le64 (to_le64 w) = w"
  using unat_less_u64 [of w] by (simp add: from_le64_def to_le64_def nat_le_le_nat)

lemma to_from_le32 [codec_simps]: "length bs = 4 \<Longrightarrow> to_le32 (from_le32 bs) = bs"
  using nat_le_bound [of bs] le_nat_nat_le [of bs]
  by (simp add: from_le32_def to_le32_def unat_of_nat)

lemma to_from_le64 [codec_simps]: "length bs = 8 \<Longrightarrow> to_le64 (from_le64 bs) = bs"
  using nat_le_bound [of bs] le_nat_nat_le [of bs]
  by (simp add: from_le64_def to_le64_def unat_of_nat)

lemma to_le32_inject [simp]: "to_le32 v = to_le32 w \<longleftrightarrow> v = w"
  by (metis from_to_le32)

lemma u32_of_nat_roundtrip [simp]: "n < 2 ^ 32 \<Longrightarrow> unat (word_of_nat n :: u32) = n"
  by (simp add: unat_of_nat)

text \<open>\<open>u32::try_from(n)\<close> on a \<open>usize\<close>.\<close>

definition try_u32 :: "nat \<Rightarrow> u32 option" where
  "try_u32 n = (if n < 2 ^ 32 then Some (word_of_nat n) else None)"

lemma try_u32_Some [simp]: "try_u32 n = Some w \<longleftrightarrow> n < 2 ^ 32 \<and> w = word_of_nat n"
  by (auto simp: try_u32_def)

lemma try_u32_None [simp]: "try_u32 n = None \<longleftrightarrow> 2 ^ 32 \<le> n"
  by (auto simp: try_u32_def)

text \<open>A two's-complement reading of 64 bits: \<open>i64::from_le_bytes\<close>.\<close>

definition i64_from_le :: "bytes \<Rightarrow> i64" where
  "i64_from_le bs = sint (from_le64 bs)"

end
