(* ===== verification/Stream_Parser.thy ===== *)
theory Stream_Parser
  imports Prelude
begin

text \<open>
  The interface of an incremental parser: bytes are pushed in arbitrary fragments, and the driver
  then polls for items until the parser answers \<open>Ok None\<close> (more bytes are needed) or fails.
  Three components of the program have this shape: the packet decoder of
  \<^verbatim>\<open>adb_proto/src/message.rs\<close>, the sync reply reader of \<^verbatim>\<open>adb_proto/src/sync.rs\<close> and the
  session of \<^verbatim>\<open>adb_proto/src/session.rs\<close> that polls its decoder. The locale states what such a
  parser promises; its lemmas show that the items do not depend on how the transport fragments the
  bytes, that every poll loop ends and that its result is unique.
\<close>

section \<open>Polling until nothing is ready\<close>

text \<open>
  \<open>drains nxt d evs r d'\<close>: the loop \<^verbatim>\<open>while let Some(ev) = d.next()? { .. }\<close> started in \<open>d\<close>
  yields the items \<open>evs\<close> and leaves the loop in \<open>d'\<close> with \<open>r\<close>, which is \<open>Ok None\<close>, an
  error or a panic.
\<close>

inductive drains ::
    "('d \<Rightarrow> ('ev option, 'e) outcome \<times> 'd) \<Rightarrow> 'd \<Rightarrow> 'ev list \<Rightarrow> ('ev option, 'e) outcome \<Rightarrow> 'd \<Rightarrow> bool"
  for nxt where
  stop: "nxt d = (r, d') \<Longrightarrow> (\<And>ev. r \<noteq> Ok (Some ev)) \<Longrightarrow> drains nxt d [] r d'"
| item: "nxt d = (Ok (Some ev), d1) \<Longrightarrow> drains nxt d1 evs r d' \<Longrightarrow> drains nxt d (ev # evs) r d'"

inductive_cases drains_NilE: "drains nxt d [] r d'"
inductive_cases drains_ConsE: "drains nxt d (ev # evs) r d'"

text \<open>
  \<open>feeds push nxt d cs evs r d'\<close>: the driver pushes the fragments \<open>cs\<close> one by one and drains the
  parser after each; it stops at the first failure.
\<close>

inductive feeds ::
    "('d \<Rightarrow> 'b list \<Rightarrow> 'd) \<Rightarrow> ('d \<Rightarrow> ('ev option, 'e) outcome \<times> 'd) \<Rightarrow> 'd \<Rightarrow> 'b list list
      \<Rightarrow> 'ev list \<Rightarrow> ('ev option, 'e) outcome \<Rightarrow> 'd \<Rightarrow> bool"
  for push nxt where
  last: "drains nxt (push d c) evs r d' \<Longrightarrow> feeds push nxt d [c] evs r d'"
| more: "drains nxt (push d c) es (Ok None) d1 \<Longrightarrow> cs \<noteq> [] \<Longrightarrow> feeds push nxt d1 cs fs r d'
    \<Longrightarrow> feeds push nxt d (c # cs) (es @ fs) r d'"
| fail: "drains nxt (push d c) es r d' \<Longrightarrow> r \<noteq> Ok None \<Longrightarrow> cs \<noteq> []
    \<Longrightarrow> feeds push nxt d (c # cs) es r d'"

lemma drains_result: "drains nxt d evs r d' \<Longrightarrow> r \<noteq> Ok (Some ev)"
  by (induction rule: drains.induct) auto

lemma drains_deterministic:
  "drains nxt d evs r d' \<Longrightarrow> drains nxt d evs' r' d'' \<Longrightarrow> evs = evs' \<and> r = r' \<and> d' = d''"
proof (induction arbitrary: evs' rule: drains.induct)
  case (stop d r d')
  from stop.prems show ?case
    by cases (use stop.hyps in auto)
next
  case (item d ev d1 evs r d')
  from item.prems show ?case
    by cases (use item.hyps item.IH in auto)
qed

section \<open>The interface\<close>

locale stream_parser =
  fixes push :: "'d \<Rightarrow> 'b list \<Rightarrow> 'd"
    and nxt :: "'d \<Rightarrow> ('ev option, 'e) outcome \<times> 'd"
    and weight :: "'d \<Rightarrow> nat"
    and sim :: "'d \<Rightarrow> 'd \<Rightarrow> bool"
  assumes sim_refl: "sim d d"
    and sim_trans: "sim d e \<Longrightarrow> sim e f \<Longrightarrow> sim d f"
    and sim_push: "sim d e \<Longrightarrow> sim (push d b) (push e b)"
    and sim_next: "sim d e \<Longrightarrow> fst (nxt d) = fst (nxt e) \<and> sim (snd (nxt d)) (snd (nxt e))"
    and push_push: "push (push d a) b = push d (a @ b)"
    and next_ready: "nxt d = (r, d') \<Longrightarrow> r \<noteq> Ok None
          \<Longrightarrow> fst (nxt (push d b)) = r \<and> sim (snd (nxt (push d b))) (push d' b)"
    and next_waits: "nxt d = (Ok None, d')
          \<Longrightarrow> fst (nxt (push d b)) = fst (nxt (push d' b))
            \<and> sim (snd (nxt (push d b))) (snd (nxt (push d' b)))"
    and next_consumes: "nxt d = (Ok (Some ev), d') \<Longrightarrow> weight d' < weight d"
begin

lemma drains_step_sim:
  assumes "drains nxt e evs r e'"
    and "fst (nxt d) = fst (nxt e)" and "sim (snd (nxt d)) (snd (nxt e))"
    and "\<And>d e e' evs'. length evs' < length evs \<Longrightarrow> drains nxt e evs' r e' \<Longrightarrow> sim d e
          \<Longrightarrow> \<exists>d'. drains nxt d evs' r d' \<and> sim d' e'"
  shows "\<exists>d'. drains nxt d evs r d' \<and> sim d' e'"
  using assms(1)
proof cases
  case stop
  with assms(2,3) have "nxt d = (r, snd (nxt d))" "sim (snd (nxt d)) e'"
    by (auto simp: prod_eq_iff)
  with stop show ?thesis
    by (auto intro: drains.stop)
next
  case (item ev e1 evs1)
  with assms(2,3) have d: "nxt d = (Ok (Some ev), snd (nxt d))" "sim (snd (nxt d)) e1"
    by (auto simp: prod_eq_iff)
  from item have "length evs1 < length evs" by simp
  from assms(4) [OF this item(3) d(2)] obtain d'
    where "drains nxt (snd (nxt d)) evs1 r d'" "sim d' e'" by blast
  with item(1) d(1) show ?thesis
    by (auto intro: drains.item)
qed

lemma drains_sim: "drains nxt e evs r e' \<Longrightarrow> sim d e \<Longrightarrow> \<exists>d'. drains nxt d evs r d' \<and> sim d' e'"
proof (induction "length evs" arbitrary: d e e' evs rule: less_induct)
  case less
  show ?case
    using less.prems(1) sim_next [OF less.prems(2), THEN conjunct1]
      sim_next [OF less.prems(2), THEN conjunct2] less.hyps
    by (rule drains_step_sim)
qed

text \<open>Draining, then pushing and draining again, yields what one push and one drain yields.\<close>

lemma drains_append:
  "drains nxt d es (Ok None) d1 \<Longrightarrow> drains nxt (push d1 b) fs r d2
    \<Longrightarrow> \<exists>d2'. drains nxt (push d b) (es @ fs) r d2' \<and> sim d2' d2"
proof (induction d es "Ok None :: ('ev option, 'e) outcome" d1 rule: drains.induct)
  case (stop d d')
  from next_waits [OF stop.hyps(1), of b] stop.prems drains_sim show ?case
    by (simp, intro drains_step_sim [OF stop.prems]) blast+
next
  case (item d ev d1 evs d')
  from item.hyps(3) [OF item.prems] obtain d2'
    where d2': "drains nxt (push d1 b) (evs @ fs) r d2'" "sim d2' d2" by blast
  from next_ready [OF item.hyps(1)] have n: "nxt (push d b) = (Ok (Some ev), snd (nxt (push d b)))"
    and s: "sim (snd (nxt (push d b))) (push d1 b)"
    by (auto simp: prod_eq_iff)
  from drains_sim [OF d2'(1) s] d2'(2) n show ?case
    by (auto intro: drains.item sim_trans)
qed

text \<open>Once a drain has failed, bytes that arrive later change neither its items nor its failure.\<close>

lemma drains_failed:
  "drains nxt d es r d1 \<Longrightarrow> r \<noteq> Ok None \<Longrightarrow> \<exists>d2. drains nxt (push d b) es r d2 \<and> sim d2 (push d1 b)"
proof (induction rule: drains.induct)
  case (stop d r d')
  from next_ready [OF stop.hyps(1) stop.prems, of b]
  have "nxt (push d b) = (r, snd (nxt (push d b)))" "sim (snd (nxt (push d b))) (push d' b)"
    by (auto simp: prod_eq_iff)
  with stop.hyps(2) show ?case by (blast intro: drains.stop)
next
  case (item d ev d1 evs r d')
  from next_ready [OF item.hyps(1), of b] have n: "nxt (push d b) = (Ok (Some ev), snd (nxt (push d b)))"
    and s: "sim (snd (nxt (push d b))) (push d1 b)"
    by (auto simp: prod_eq_iff)
  from item.IH [OF item.prems] obtain d2
    where "drains nxt (push d1 b) evs r d2" "sim d2 (push d' b)" by blast
  with drains_sim [OF this(1) s] n show ?case
    by (auto intro: drains.item sim_trans)
qed

text \<open>Every poll loop ends.\<close>

lemma drains_total: "\<exists>evs r d'. drains nxt d evs r d'"
proof (induction "weight d" arbitrary: d rule: less_induct)
  case less
  show ?case
  proof (cases "\<exists>ev. fst (nxt d) = Ok (Some ev)")
    case True
    then obtain ev d1 where n: "nxt d = (Ok (Some ev), d1)" by (cases "nxt d") auto
    with less [OF next_consumes [OF n]] show ?thesis by (blast intro: drains.item)
  next
    case False
    then show ?thesis by (cases "nxt d") (fastforce intro: drains.stop)
  qed
qed

text \<open>
  Fragmentation does not matter: feeding fragments one at a time yields the items, and the success
  or failure, of feeding their concatenation at once.
\<close>

lemma feeds_concat:
  "feeds push nxt d cs evs r d' \<Longrightarrow>
    \<exists>d''. drains nxt (push d (concat cs)) evs r d'' \<and> (r = Ok None \<longrightarrow> sim d'' d')"
proof (induction rule: feeds.induct)
  case (last d c evs r d')
  then show ?case using sim_refl by auto
next
  case (more d c es d1 cs fs r d')
  then obtain d2 where "drains nxt (push d1 (concat cs)) fs r d2" "r = Ok None \<longrightarrow> sim d2 d'" by blast
  with drains_append [OF more.hyps(1) this(1)] show ?case
    by (auto simp: push_push intro: sim_trans)
next
  case (fail d c es r d' cs)
  from drains_failed [OF fail.hyps(1,2), of "concat cs"] fail.hyps(2) show ?case
    by (auto simp: push_push)
qed

lemma feeds_total: "cs \<noteq> [] \<Longrightarrow> \<exists>evs r d'. feeds push nxt d cs evs r d'"
proof (induction cs arbitrary: d)
  case Nil
  then show ?case by simp
next
  case (Cons c cs)
  obtain es r d1 where dr: "drains nxt (push d c) es r d1" using drains_total by blast
  show ?case
  proof (cases "cs = []")
    case True
    with dr show ?thesis by (blast intro: feeds.last)
  next
    case False
    with Cons.IH [of d1] dr show ?thesis
      by (cases "r = Ok None") (blast intro: feeds.more feeds.fail)+
  qed
qed

lemma feeds_same_bytes:
  assumes "feeds push nxt d cs evs r d'" and "feeds push nxt d cs' evs' r' d''"
    and "concat cs = concat cs'"
  shows "evs = evs' \<and> r = r'"
  using feeds_concat [OF assms(1)] feeds_concat [OF assms(2)] assms(3)
  by (auto dest: drains_deterministic)

end

end
