(* ===== verification/Rust_Text.thy ===== *)
theory Rust_Text
  imports Prelude
begin

text \<open>
  The parts of Rust's \<^verbatim>\<open>core::str\<close> and \<^verbatim>\<open>core::fmt\<close> the program uses, on strings held as
  their UTF-8 bytes: UTF-8 validation and lossy decoding, splitting and trimming, and the
  rendering and parsing of unsigned integers. Searching for an ASCII pattern byte by byte agrees
  with Rust's search by characters, because no ASCII byte occurs inside a longer UTF-8 sequence.
\<close>

section \<open>UTF-8\<close>

definition utf8_cont :: "u8 \<Rightarrow> bool" where
  "utf8_cont c \<longleftrightarrow> 0x80 \<le> c \<and> c \<le> 0xBF"

definition utf8_width :: "u8 \<Rightarrow> nat" where
  "utf8_width b =
     (if b < 0x80 then 1 else if b < 0xC2 then 0 else if b < 0xE0 then 2
      else if b < 0xF0 then 3 else if b < 0xF5 then 4 else 0)"

definition utf8_second :: "u8 \<Rightarrow> u8 \<Rightarrow> bool" where
  "utf8_second b c =
     (if b = 0xE0 then 0xA0 \<le> c \<and> c \<le> 0xBF
      else if b = 0xED then 0x80 \<le> c \<and> c \<le> 0x9F
      else if b = 0xF0 then 0x90 \<le> c \<and> c \<le> 0xBF
      else if b = 0xF4 then 0x80 \<le> c \<and> c \<le> 0x8F
      else utf8_cont c)"

definition byte_at :: "nat \<Rightarrow> bytes \<Rightarrow> u8" where
  "byte_at i bs = (if i < length bs then bs ! i else 0)"

text \<open>
  The next item of the input that starts with byte \<open>b\<close>: how many bytes it takes and whether they
  are one well-formed character. An ill-formed item is a maximal prefix of a well-formed one.
\<close>

definition utf8_step :: "u8 \<Rightarrow> bytes \<Rightarrow> nat \<times> bool" where
  "utf8_step b rest =
     (if utf8_width b = 1 then (1, True)
      else if utf8_width b = 0 then (1, False)
      else if \<not> utf8_second b (byte_at 0 rest) then (1, False)
      else if utf8_width b = 2 then (2, True)
      else if \<not> utf8_cont (byte_at 1 rest) then (2, False)
      else if utf8_width b = 3 then (3, True)
      else if \<not> utf8_cont (byte_at 2 rest) then (3, False)
      else (4, True))"

lemma utf8_step_pos: "utf8_step b rest = (n, ok) \<Longrightarrow> 0 < n"
  by (auto simp: utf8_step_def split: if_splits)

lemma utf8_step_shrinks:
  "(n, ok) = utf8_step b rest \<Longrightarrow> (drop n (b # rest), b # rest) \<in> measure length"
  using utf8_step_pos [of b rest n ok] by simp

text \<open>\<open>String::from_utf8_lossy\<close>: each ill-formed item becomes U+FFFD.\<close>

function utf8_lossy :: "bytes \<Rightarrow> bytes" where
  "utf8_lossy [] = []"
| "utf8_lossy (b # rest) =
     (case utf8_step b rest of
        (n, ok) \<Rightarrow> (if ok then take n (b # rest) else [0xEF, 0xBF, 0xBD]) @ utf8_lossy (drop n (b # rest)))"
  by pat_completeness auto
termination
  by (relation "measure length") (simp, simp only: utf8_step_shrinks)

text \<open>Whether \<open>str::from_utf8\<close> accepts the bytes.\<close>

function utf8_valid :: "bytes \<Rightarrow> bool" where
  "utf8_valid [] = True"
| "utf8_valid (b # rest) =
     (case utf8_step b rest of (n, ok) \<Rightarrow> ok \<and> utf8_valid (drop n (b # rest)))"
  by pat_completeness auto
termination
  by (relation "measure length") (simp, simp only: utf8_step_shrinks)

lemma utf8_lossy_valid: "utf8_valid bs \<Longrightarrow> utf8_lossy bs = bs"
  by (induction bs rule: utf8_valid.induct) (auto split: prod.splits)

lemma utf8_step_ascii: "b < 0x80 \<Longrightarrow> utf8_step b rest = (1, True)"
  by (simp add: utf8_step_def utf8_width_def)

lemma utf8_valid_ascii: "\<forall>b\<in>set bs. b < 0x80 \<Longrightarrow> utf8_valid bs"
  by (induction bs) (auto simp: utf8_step_ascii)

lemma utf8_lossy_ascii [simp]: "\<forall>b\<in>set bs. b < 0x80 \<Longrightarrow> utf8_lossy bs = bs"
  by (simp add: utf8_lossy_valid utf8_valid_ascii)

lemma byte_at_second: "utf8_second b (byte_at i rest) \<Longrightarrow> i < length rest"
  by (rule ccontr) (simp add: byte_at_def utf8_second_def utf8_cont_def split: if_splits)

lemma byte_at_cont: "utf8_cont (byte_at i rest) \<Longrightarrow> i < length rest"
  by (rule ccontr) (simp add: byte_at_def utf8_cont_def)

lemma byte_at_take:
  "i < k \<Longrightarrow> i < length rest \<Longrightarrow> byte_at i (take k rest @ ys) = byte_at i rest"
  by (auto simp: byte_at_def nth_append min_def)

lemma utf8_second_take:
  "utf8_second b (byte_at i rest) \<Longrightarrow> i < k \<Longrightarrow> utf8_second b (byte_at i (take k rest @ ys))"
  by (simp add: byte_at_take byte_at_second)

lemma utf8_cont_take:
  "utf8_cont (byte_at i rest) \<Longrightarrow> i < k \<Longrightarrow> utf8_cont (byte_at i (take k rest @ ys))"
  by (simp add: byte_at_take byte_at_cont)

lemma utf8_step_prefix:
  assumes "utf8_step b rest = (n, True)"
  shows "n \<le> Suc (length rest)" and "utf8_step b (take (n - 1) rest @ ys) = (n, True)"
  using assms
  by (auto simp: utf8_step_def utf8_second_take utf8_cont_take Suc_le_eq split: if_splits
      dest: byte_at_second byte_at_cont)

lemma utf8_valid_lossy: "utf8_valid (utf8_lossy bs)"
proof (induction bs rule: utf8_lossy.induct)
  case 1
  then show ?case by simp
next
  case (2 b rest)
  obtain n ok where st: "utf8_step b rest = (n, ok)" by fastforce
  show ?case
  proof (cases ok)
    case False
    have "utf8_step 0xEF (0xBF # 0xBD # ys) = (3, True)" for ys
      by (simp add: utf8_step_def utf8_width_def utf8_second_def utf8_cont_def byte_at_def)
    with False st 2 show ?thesis by simp
  next
    case True
    from utf8_step_pos [OF st] obtain m where m: "n = Suc m" by (cases n) auto
    from utf8_step_prefix [of b rest n] st True m
    have "m \<le> length rest" and "utf8_step b (take m rest @ ys) = (n, True)" for ys by auto
    with True st 2 m show ?thesis by simp
  qed
qed

section \<open>Searching, splitting, trimming\<close>

definition starts_with :: "bytes \<Rightarrow> bytes \<Rightarrow> bool" where
  "starts_with p s \<longleftrightarrow> take (length p) s = p"

definition ends_with :: "bytes \<Rightarrow> bytes \<Rightarrow> bool" where
  "ends_with p s \<longleftrightarrow> starts_with (rev p) (rev s)"

definition strip_prefix :: "bytes \<Rightarrow> bytes \<Rightarrow> bytes option" where
  "strip_prefix p s = (if starts_with p s then Some (drop (length p) s) else None)"

lemma strip_prefix_append [simp]: "strip_prefix p (p @ s) = Some s"
  by (simp add: strip_prefix_def starts_with_def)

lemma strip_prefix_Some: "strip_prefix p s = Some t \<longleftrightarrow> s = p @ t"
  by (auto simp: strip_prefix_def starts_with_def) (metis append_take_drop_id)

text \<open>\<open>trim_end_matches(c)\<close> for one character.\<close>

definition trim_end :: "u8 \<Rightarrow> bytes \<Rightarrow> bytes" where
  "trim_end c s = rev (dropWhile (\<lambda>x. x = c) (rev s))"

lemma trim_end_snoc [simp]: "trim_end c (s @ [c]) = trim_end c s"
  by (simp add: trim_end_def)

lemma trim_end_clean: "c \<notin> set s \<Longrightarrow> trim_end c s = s"
  by (cases s rule: rev_cases) (auto simp: trim_end_def)

lemma set_trim_end: "set (trim_end c s) \<subseteq> set s"
  by (auto simp: trim_end_def dest: set_dropWhileD)

text \<open>\<open>split_once(p)\<close>: the text before and after the first occurrence.\<close>

fun split_once :: "bytes \<Rightarrow> bytes \<Rightarrow> (bytes \<times> bytes) option" where
  "split_once p [] = (if p = [] then Some ([], []) else None)"
| "split_once p (x # xs) =
     (if starts_with p (x # xs) then Some ([], drop (length p) (x # xs))
      else map_option (\<lambda>(a, b). (x # a, b)) (split_once p xs))"

lemma split_once_Some: "split_once p s = Some (a, b) \<Longrightarrow> s = a @ p @ b"
  by (induction s arbitrary: a b)
    (auto simp: starts_with_def split: if_splits, metis append_take_drop_id drop_Suc_Cons take_Suc_Cons)

lemma split_once_char: "c \<notin> set a \<Longrightarrow> split_once [c] (a @ c # b) = Some (a, b)"
  by (induction a) (auto simp: starts_with_def)

text \<open>\<open>split(c)\<close>: the pieces between the occurrences of \<open>c\<close>; there is always at least one.\<close>

fun split_on :: "u8 \<Rightarrow> bytes \<Rightarrow> bytes list" where
  "split_on c [] = [[]]"
| "split_on c (x # xs) =
     (if x = c then [] # split_on c xs
      else (case split_on c xs of [] \<Rightarrow> [[x]] | p # ps \<Rightarrow> (x # p) # ps))"

fun join :: "bytes \<Rightarrow> bytes list \<Rightarrow> bytes" where
  "join sep [] = []"
| "join sep [p] = p"
| "join sep (p # ps) = p @ sep @ join sep ps"

lemma split_on_nonempty [simp]: "split_on c s \<noteq> []"
  by (induction s) (auto split: list.splits)

lemma split_on_clean: "c \<notin> set s \<Longrightarrow> split_on c s = [s]"
  by (induction s) auto

lemma split_on_append: "c \<notin> set p \<Longrightarrow> split_on c (p @ c # s) = p # split_on c s"
  by (induction p) auto

lemma split_on_join:
  "ps \<noteq> [] \<Longrightarrow> \<forall>p\<in>set ps. c \<notin> set p \<Longrightarrow> split_on c (join [c] ps) = ps"
  by (induction "[c]" ps rule: join.induct) (auto simp: split_on_clean split_on_append)

lemma split_on_parts: "p \<in> set (split_on c s) \<Longrightarrow> c \<notin> set p"
  by (induction s arbitrary: p) (auto split: if_splits list.splits)

section \<open>Case, white space and lines\<close>

definition ascii_lower :: "u8 \<Rightarrow> u8" where
  "ascii_lower b = (if 65 \<le> b \<and> b \<le> 90 then b + 32 else b)"

text \<open>The UTF-8 encodings of the characters with the property \<open>White_Space\<close>.\<close>

definition white_spaces :: "bytes list" where
  "white_spaces =
     [[9], [10], [11], [12], [13], [32], [0xC2, 0x85], [0xC2, 0xA0], [0xE1, 0x9A, 0x80],
      [0xE2, 0x80, 0x80], [0xE2, 0x80, 0x81], [0xE2, 0x80, 0x82], [0xE2, 0x80, 0x83], [0xE2, 0x80, 0x84],
      [0xE2, 0x80, 0x85], [0xE2, 0x80, 0x86], [0xE2, 0x80, 0x87], [0xE2, 0x80, 0x88], [0xE2, 0x80, 0x89],
      [0xE2, 0x80, 0x8A], [0xE2, 0x80, 0xA8], [0xE2, 0x80, 0xA9], [0xE2, 0x80, 0xAF], [0xE2, 0x81, 0x9F],
      [0xE3, 0x80, 0x80]]"

definition leading_space :: "bytes \<Rightarrow> nat" where
  "leading_space s = (case List.find (\<lambda>w. starts_with w s) white_spaces of None \<Rightarrow> 0 | Some w \<Rightarrow> length w)"

definition trailing_space :: "bytes \<Rightarrow> nat" where
  "trailing_space s = (case List.find (\<lambda>w. ends_with w s) white_spaces of None \<Rightarrow> 0 | Some w \<Rightarrow> length w)"

function trim_start_space :: "bytes \<Rightarrow> bytes" where
  "trim_start_space s =
     (if s = [] \<or> leading_space s = 0 then s else trim_start_space (drop (leading_space s) s))"
  by pat_completeness auto
termination by (relation "measure length") auto

function trim_end_space :: "bytes \<Rightarrow> bytes" where
  "trim_end_space s =
     (if s = [] \<or> trailing_space s = 0 then s else trim_end_space (take (length s - trailing_space s) s))"
  by pat_completeness auto
termination by (relation "measure length") auto

declare trim_start_space.simps [simp del] trim_end_space.simps [simp del]

text \<open>\<open>trim()\<close>, and the iterators \<open>lines()\<close> and \<open>split_whitespace()\<close> on a string.\<close>

definition trim :: "bytes \<Rightarrow> bytes" where
  "trim s = trim_end_space (trim_start_space s)"

fun drop_last_empty :: "bytes list \<Rightarrow> bytes list" where
  "drop_last_empty [] = []"
| "drop_last_empty [l] = (if l = [] then [] else [l])"
| "drop_last_empty (l # ls) = l # drop_last_empty ls"

definition chomp_cr :: "bytes \<Rightarrow> bytes" where
  "chomp_cr l = (if l \<noteq> [] \<and> last l = 13 then butlast l else l)"

text \<open>A carriage return is part of the line ending only in front of a line feed.\<close>

definition str_lines :: "bytes \<Rightarrow> bytes list" where
  "str_lines s =
     (let ls = split_on 10 s in drop_last_empty (map chomp_cr (butlast ls) @ [last ls]))"

section \<open>Unsigned integers as text\<close>

definition digit_char :: "nat \<Rightarrow> u8" where
  "digit_char d = (if d < 10 then word_of_nat (48 + d) else word_of_nat (87 + d))"

definition digit_value :: "nat \<Rightarrow> u8 \<Rightarrow> nat option" where
  "digit_value radix c =
     (let n = unat c;
          d = (if 48 \<le> n \<and> n \<le> 57 then n - 48
               else if 97 \<le> n \<and> n \<le> 122 then n - 87
               else if 65 \<le> n \<and> n \<le> 90 then n - 55 else radix)
      in if d < radix then Some d else None)"

text \<open>\<open>{}\<close> for \<open>radix = 10\<close> and \<open>{:x}\<close> for \<open>radix = 16\<close>.\<close>

fun show_radix :: "nat \<Rightarrow> nat \<Rightarrow> bytes" where
  "show_radix r n =
     (if r < 2 \<or> n < r then [digit_char n] else show_radix r (n div r) @ [digit_char (n mod r)])"

declare show_radix.simps [simp del]

abbreviation show_nat :: "nat \<Rightarrow> bytes" where
  "show_nat \<equiv> show_radix 10"

text \<open>\<open>{:04x}\<close>: at least four hexadecimal digits.\<close>

definition show_hex4 :: "nat \<Rightarrow> bytes" where
  "show_hex4 n = replicate (4 - length (show_radix 16 n)) 48 @ show_radix 16 n"

text \<open>
  \<open>from_str_radix\<close> on an unsigned type of \<open>bits\<close> bits (and \<open>parse\<close>, which is radix 10): an
  optional plus sign, then at least one digit, and no overflow.
\<close>

fun parse_digits :: "nat \<Rightarrow> nat \<Rightarrow> nat \<Rightarrow> bytes \<Rightarrow> nat option" where
  "parse_digits r limit acc [] = Some acc"
| "parse_digits r limit acc (c # cs) =
     (case digit_value r c of None \<Rightarrow> None
      | Some d \<Rightarrow> if acc * r + d < limit then parse_digits r limit (acc * r + d) cs else None)"

definition parse_uint :: "nat \<Rightarrow> nat \<Rightarrow> bytes \<Rightarrow> nat option" where
  "parse_uint r bits s =
     (case s of [] \<Rightarrow> None
      | c # cs \<Rightarrow>
          if c = 43 then (if cs = [] then None else parse_digits r (2 ^ bits) 0 cs)
          else parse_digits r (2 ^ bits) 0 s)"

lemma parse_digits_append:
  "parse_digits r limit acc (xs @ ys) =
     (case parse_digits r limit acc xs of None \<Rightarrow> None | Some a \<Rightarrow> parse_digits r limit a ys)"
  by (induction xs arbitrary: acc) (auto split: option.splits)

lemma unat_digit_char: "d < 36 \<Longrightarrow> unat (digit_char d) = (if d < 10 then 48 + d else 87 + d)"
  by (simp add: digit_char_def unat_of_nat del: of_nat_add)

lemma digit_value_char: "2 \<le> r \<Longrightarrow> r \<le> 36 \<Longrightarrow> d < r \<Longrightarrow> digit_value r (digit_char d) = Some d"
  by (cases "d < 10") (simp_all add: digit_value_def unat_digit_char)

lemma parse_digits_bound: "parse_digits r limit acc s = Some n \<Longrightarrow> acc < limit \<Longrightarrow> n < limit"
  by (induction s arbitrary: acc) (auto split: option.splits if_splits)

lemma parse_uint_bound: "parse_uint r bits s = Some n \<Longrightarrow> n < 2 ^ bits"
  using parse_digits_bound [of r "2 ^ bits" 0 "tl s" n] parse_digits_bound [of r "2 ^ bits" 0 s n]
  by (auto simp: parse_uint_def simp del: parse_digits.simps split: list.splits if_splits)

lemma parse_show_radix:
  assumes "2 \<le> r" "r \<le> 36" "n < limit"
  shows "parse_digits r limit 0 (show_radix r n) = Some n"
  using assms
proof (induction r n rule: show_radix.induct)
  case (1 r n)
  show ?case
  proof (cases "n < r")
    case True
    with 1 show ?thesis by (simp add: show_radix.simps digit_value_char)
  next
    case False
    have "n div r \<le> n" by simp
    with 1 False have "parse_digits r limit 0 (show_radix r (n div r)) = Some (n div r)" by simp
    moreover have "show_radix r n = show_radix r (n div r) @ [digit_char (n mod r)]"
      using 1 False by (simp add: show_radix.simps [of r n])
    moreover have "n div r * r + n mod r = n" by (rule div_mult_mod_eq)
    ultimately show ?thesis using 1 by (simp add: parse_digits_append digit_value_char)
  qed
qed

lemma digit_char_not_plus: "d < 36 \<Longrightarrow> digit_char d \<noteq> 43"
proof
  assume "d < 36" and "digit_char d = 43"
  then have "unat (digit_char d) = 43" by simp
  with \<open>d < 36\<close> show False by (simp add: unat_digit_char split: if_splits)
qed

lemma show_radix_hd: "2 \<le> r \<Longrightarrow> r \<le> 36 \<Longrightarrow> \<exists>c cs. show_radix r n = c # cs \<and> c \<noteq> 43"
proof (induction r n rule: show_radix.induct)
  case (1 r n)
  then show ?case
    by (cases "n < r") (auto simp: show_radix.simps [of r n] digit_char_not_plus)
qed

lemma parse_uint_show:
  "2 \<le> r \<Longrightarrow> r \<le> 36 \<Longrightarrow> n < 2 ^ bits \<Longrightarrow> parse_uint r bits (show_radix r n) = Some n"
  using show_radix_hd [of r n] parse_show_radix [of r n "2 ^ bits"]
  by (auto simp: parse_uint_def)

end
