(* ===== verification/Proto_Message.thy ===== *)
theory Proto_Message
  imports Stream_Parser Rust_Text
begin

text \<open>
  \<^verbatim>\<open>adb_proto/src/message.rs\<close> and \<^verbatim>\<open>adb_proto/src/error.rs\<close>: the ADB packet, its 24-byte
  header, the byte-sum checksum and the incremental \<open>PacketDecoder\<close>. The decoder is an
  interpretation of the \<open>stream_parser\<close> interface, so its packets do not depend on the
  fragmentation of the input.
\<close>

section \<open>Errors\<close>

text \<open>
  The text of a \<open>Protocol\<close> error is held as bytes, except for the one message that prints a
  string with Rust's \<open>{:?}\<close>: there the printed string is kept, not its escaped form.
\<close>

datatype protocol_text = Text bytes | Unexpected_Sync_Reply bytes

datatype proto_error =
    BadMagic
  | PayloadTooLarge u32 u32  \<comment> \<open>the advertised length and the maximum\<close>
  | BadChecksum
  | UnknownCommand u32
  | Protocol protocol_text
  | Key bytes

section \<open>Commands\<close>

definition HEADER_LEN :: nat where
  "HEADER_LEN = 24"

datatype command = Cnxn | Clse | Auth | Open | Wrte | Okay | Stls

fun command_code :: "command \<Rightarrow> u32" where
  "command_code Cnxn = 0x4E584E43"
| "command_code Clse = 0x45534C43"
| "command_code Auth = 0x48545541"
| "command_code Open = 0x4E45504F"
| "command_code Wrte = 0x45545257"
| "command_code Okay = 0x59414B4F"
| "command_code Stls = 0x534C5453"

definition command_try_from :: "u32 \<Rightarrow> (command, proto_error) outcome" where
  "command_try_from v =
     (if v = 0x4E584E43 then Ok Cnxn
      else if v = 0x45534C43 then Ok Clse
      else if v = 0x48545541 then Ok Auth
      else if v = 0x4E45504F then Ok Open
      else if v = 0x45545257 then Ok Wrte
      else if v = 0x59414B4F then Ok Okay
      else if v = 0x534C5453 then Ok Stls
      else Err (UnknownCommand v))"

definition magic :: "command \<Rightarrow> u32" where
  "magic c = command_code c XOR 0xFFFFFFFF"

lemma command_try_from_code [simp]: "command_try_from (command_code c) = Ok c"
  by (cases c) (simp_all add: command_try_from_def)

lemma command_try_from_Ok: "command_try_from v = Ok c \<longleftrightarrow> v = command_code c"
proof
  show "command_try_from v = Ok c \<Longrightarrow> v = command_code c"
    by (auto simp: command_try_from_def split: if_splits)
qed simp

lemma command_try_from_Err:
  "command_try_from v = Err e \<longleftrightarrow> e = UnknownCommand v \<and> v \<notin> range command_code"
proof -
  have "command_try_from v \<noteq> Panic" by (simp add: command_try_from_def)
  moreover have "command_try_from v = Err e' \<Longrightarrow> e' = UnknownCommand v" for e'
    by (simp add: command_try_from_def split: if_splits)
  ultimately show ?thesis
    by (cases "command_try_from v") (auto simp: command_try_from_Ok)
qed

lemma command_try_from_not_Panic [simp]: "command_try_from v \<noteq> Panic"
  by (simp add: command_try_from_def)

section \<open>Packets\<close>

record packet =
  p_command :: command
  p_arg0 :: u32
  p_arg1 :: u32
  p_payload :: bytes

definition checksum :: "bytes \<Rightarrow> u32" where
  "checksum data = fold (\<lambda>b acc. acc + ucast b) data 0"

definition packet_new :: "command \<Rightarrow> u32 \<Rightarrow> u32 \<Rightarrow> bytes \<Rightarrow> packet" where
  "packet_new c a0 a1 pl = \<lparr>p_command = c, p_arg0 = a0, p_arg1 = a1, p_payload = pl\<rparr>"

lemma packet_new_sel [simp]:
  "p_command (packet_new c a0 a1 pl) = c" "p_arg0 (packet_new c a0 a1 pl) = a0"
  "p_arg1 (packet_new c a0 a1 pl) = a1" "p_payload (packet_new c a0 a1 pl) = pl"
  by (simp_all add: packet_new_def)

definition encode_header :: "packet \<Rightarrow> (bytes, proto_error) outcome" where
  "encode_header p =
     (case try_u32 (length (p_payload p)) of
        None \<Rightarrow> Panic
      | Some len \<Rightarrow>
          Ok (concat (map to_le32
                [command_code (p_command p), p_arg0 p, p_arg1 p, len,
                 checksum (p_payload p), magic (p_command p)])))"

text \<open>The bytes of a whole packet: USB and TCP drivers send the header and then the payload.\<close>

definition wire :: "packet \<Rightarrow> bytes" where
  "wire p = (case encode_header p of Ok h \<Rightarrow> h @ p_payload p | _ \<Rightarrow> [])"

lemma fold_checksum_shift:
  "fold (\<lambda>b acc. acc + ucast b) data (a :: u32) = a + fold (\<lambda>b acc. acc + ucast b) data 0"
  by (induction data arbitrary: a) (simp, metis (no_types, lifting) add.assoc add.left_neutral fold_simps(2))

lemma checksum_Nil [simp]: "checksum [] = 0"
  by (simp add: checksum_def)

lemma checksum_Cons [simp]: "checksum (b # bs) = ucast b + checksum bs"
  using fold_checksum_shift [of bs "ucast b"] by (simp add: checksum_def)

lemma checksum_append [simp]: "checksum (xs @ ys) = checksum xs + checksum ys"
  by (induction xs) (auto simp: add.assoc)

text \<open>Below 16 MiB the wrapping sum is the exact sum of the bytes.\<close>

lemma checksum_exact:
  "length data \<le> 2 ^ 24 \<Longrightarrow> unat (checksum data) = sum_list (map unat data)
     \<and> sum_list (map unat data) \<le> 255 * length data"
proof (induction data)
  case Nil
  then show ?case by simp
next
  case (Cons b bs)
  then have IH: "unat (checksum bs) = sum_list (map unat bs)" "sum_list (map unat bs) \<le> 255 * length bs"
    by auto
  have b: "unat b < 256" by (rule u8_unat_less)
  with IH Cons.prems have "unat (ucast b + checksum bs) = unat b + unat (checksum bs)"
    by (subst unat_add_lem [THEN iffD1]) auto
  with IH b show ?case by simp
qed

text \<open>The checksum detects a change of any one byte.\<close>

lemma ucast_u8_u32_inject: "(ucast (a :: u8) :: u32) = ucast b \<longleftrightarrow> a = b"
proof
  assume "(ucast a :: u32) = ucast b"
  then have "unat (ucast a :: u32) = unat (ucast b :: u32)" by simp
  then show "a = b" by (simp add: word_unat_eq_iff)
qed simp

lemma checksum_single_byte:
  assumes "i < length data" and "v \<noteq> data ! i"
  shows "checksum (data[i := v]) \<noteq> checksum data"
proof -
  have "data = take i data @ data ! i # drop (Suc i) data"
    using assms(1) by (simp add: id_take_nth_drop)
  then have "checksum data = checksum (take i data) + (ucast (data ! i) + checksum (drop (Suc i) data))"
    by (metis checksum_Cons checksum_append)
  moreover have "data[i := v] = take i data @ v # drop (Suc i) data"
    using assms(1) by (rule upd_conv_take_nth_drop)
  ultimately show ?thesis
    using assms(2) by (simp add: ucast_u8_u32_inject)
qed

lemma encode_header_Ok:
  "length (p_payload p) < 2 ^ 32 \<Longrightarrow>
     encode_header p = Ok (to_le32 (command_code (p_command p)) @ to_le32 (p_arg0 p) @ to_le32 (p_arg1 p)
        @ to_le32 (word_of_nat (length (p_payload p))) @ to_le32 (checksum (p_payload p))
        @ to_le32 (magic (p_command p)))"
  by (simp add: encode_header_def try_u32_def)

lemma encode_header_length: "encode_header p = Ok h \<Longrightarrow> length h = HEADER_LEN"
  by (auto simp: encode_header_def HEADER_LEN_def split: option.splits)

section \<open>The incremental decoder\<close>

record pending_header =
  h_command :: command
  h_arg0 :: u32
  h_arg1 :: u32
  h_len :: nat
  h_checksum :: u32

record packet_decoder =
  d_buf :: bytes
  d_header :: "pending_header option"
  d_max_payload :: u32
  d_verify_checksum :: bool

definition decoder_new :: "u32 \<Rightarrow> packet_decoder" where
  "decoder_new max_payload =
     \<lparr>d_buf = [], d_header = None, d_max_payload = max_payload, d_verify_checksum = True\<rparr>"

definition set_max_payload :: "u32 \<Rightarrow> packet_decoder \<Rightarrow> packet_decoder" where
  "set_max_payload m d = d\<lparr>d_max_payload := m\<rparr>"

definition set_verify_checksum :: "bool \<Rightarrow> packet_decoder \<Rightarrow> packet_decoder" where
  "set_verify_checksum v d = d\<lparr>d_verify_checksum := v\<rparr>"

definition decoder_push :: "packet_decoder \<Rightarrow> bytes \<Rightarrow> packet_decoder" where
  "decoder_push d bs = d\<lparr>d_buf := d_buf d @ bs\<rparr>"

definition header_word :: "bytes \<Rightarrow> nat \<Rightarrow> u32" where
  "header_word buf i = from_le32 (slice (i * 4) (i * 4 + 4) buf)"

text \<open>
  The first half of \<open>next_packet\<close>: make sure a header is pending. \<open>Ok None\<close> is the early
  return that waits for more bytes. The decoder is unchanged when this half fails.
\<close>

definition read_header :: "packet_decoder \<Rightarrow> (packet_decoder option, proto_error) outcome" where
  "read_header d =
     (if d_header d \<noteq> None then Ok (Some d)
      else if length (d_buf d) < HEADER_LEN then Ok None
      else
        bind_outcome (command_try_from (header_word (d_buf d) 0)) (\<lambda>cmd.
          if header_word (d_buf d) 5 \<noteq> magic cmd then Err BadMagic
          else if d_max_payload d < header_word (d_buf d) 3
          then Err (PayloadTooLarge (header_word (d_buf d) 3) (d_max_payload d))
          else Ok (Some (d\<lparr>d_header := Some \<lparr>h_command = cmd,
                                            h_arg0 = header_word (d_buf d) 1,
                                            h_arg1 = header_word (d_buf d) 2,
                                            h_len = unat (header_word (d_buf d) 3),
                                            h_checksum = header_word (d_buf d) 4\<rparr>,
                           d_buf := drop HEADER_LEN (d_buf d)\<rparr>))))"

text \<open>The second half, entered with a pending header (its \<open>expect\<close> is the \<open>None\<close> branch).\<close>

definition take_payload :: "packet_decoder \<Rightarrow> (packet option, proto_error) outcome \<times> packet_decoder" where
  "take_payload d =
     (case d_header d of
        None \<Rightarrow> (Panic, d)
      | Some h \<Rightarrow>
          if length (d_buf d) < h_len h then (Ok None, d)
          else
            let payload = take (h_len h) (d_buf d);
                d' = d\<lparr>d_buf := drop (h_len h) (d_buf d), d_header := None\<rparr>
            in if d_verify_checksum d \<and> checksum payload \<noteq> h_checksum h then (Err BadChecksum, d')
               else (Ok (Some (packet_new (h_command h) (h_arg0 h) (h_arg1 h) payload)), d'))"

definition next_packet :: "packet_decoder \<Rightarrow> (packet option, proto_error) outcome \<times> packet_decoder" where
  "next_packet d =
     (case read_header d of
        Err e \<Rightarrow> (Err e, d)
      | Panic \<Rightarrow> (Panic, d)
      | Ok None \<Rightarrow> (Ok None, d)
      | Ok (Some d') \<Rightarrow> take_payload d')"

subsection \<open>One poll\<close>

lemma decoder_push_sel [simp]:
  "d_buf (decoder_push d bs) = d_buf d @ bs" "d_header (decoder_push d bs) = d_header d"
  "d_max_payload (decoder_push d bs) = d_max_payload d"
  "d_verify_checksum (decoder_push d bs) = d_verify_checksum d"
  by (simp_all add: decoder_push_def)

lemma decoder_push_push [simp]: "decoder_push (decoder_push d a) b = decoder_push d (a @ b)"
  by (simp add: decoder_push_def)

lemma header_word_append [simp]:
  "i * 4 + 4 \<le> length buf \<Longrightarrow> header_word (buf @ bs) i = header_word buf i"
  by (simp add: header_word_def slice_append_left)

lemma read_header_waits:
  "read_header d = Ok None \<longleftrightarrow> d_header d = None \<and> length (d_buf d) < HEADER_LEN"
  by (auto simp: read_header_def split: if_splits)

lemma read_header_push:
  "read_header d \<noteq> Ok None \<Longrightarrow>
     read_header (decoder_push d bs) =
       (case read_header d of Ok (Some d') \<Rightarrow> Ok (Some (decoder_push d' bs)) | r \<Rightarrow> r)"
proof (cases "d_header d = None")
  case True
  assume "read_header d \<noteq> Ok None"
  with True have "24 \<le> length (d_buf d)" by (simp add: read_header_waits HEADER_LEN_def)
  with True show ?thesis
    by (cases "command_try_from (header_word (d_buf d) 0)")
      (simp_all add: read_header_def HEADER_LEN_def decoder_push_def)
qed (auto simp: read_header_def)

lemma read_header_not_Panic: "read_header d \<noteq> Panic"
  by (cases "command_try_from (header_word (d_buf d) 0)") (auto simp: read_header_def)

lemma read_header_pending: "read_header d = Ok (Some d') \<Longrightarrow> d_header d' \<noteq> None"
  by (auto simp: read_header_def split: if_splits)

lemma read_header_idem: "read_header d = Ok (Some d') \<Longrightarrow> read_header d' = Ok (Some d')"
  using read_header_pending [of d d'] by (auto simp: read_header_def)

lemma take_payload_push:
  assumes "d_header d = Some h" and "h_len h \<le> length (d_buf d)"
  shows "take_payload (decoder_push d bs) = (fst (take_payload d), decoder_push (snd (take_payload d)) bs)"
  using assms by (simp add: take_payload_def Let_def decoder_push_def)

lemma next_packet_never_panics: "fst (next_packet d) \<noteq> Panic"
  using read_header_not_Panic [of d] read_header_pending [of d]
  by (auto simp: next_packet_def take_payload_def Let_def split: outcome.splits option.splits)

text \<open>What a poll does, by cases: it waits for a header, rejects it, waits for the payload or delivers.\<close>

lemma next_packet_push_ready:
  assumes "next_packet d = (r, d')" and "r \<noteq> Ok None"
  shows "next_packet (decoder_push d bs) = (r, decoder_push d' bs)"
proof (cases "read_header d")
  case Panic
  then show ?thesis by (simp add: read_header_not_Panic)
next
  case (Err e)
  then show ?thesis using assms read_header_push [of d bs] by (simp add: next_packet_def)
next
  case (Ok m)
  with assms obtain d1 where m: "m = Some d1" by (cases m) (auto simp: next_packet_def)
  obtain h where h: "d_header d1 = Some h" using read_header_pending Ok m by blast
  from Ok m assms have tp: "take_payload d1 = (r, d')" by (simp add: next_packet_def)
  with h assms(2) have "h_len h \<le> length (d_buf d1)"
    by (auto simp: take_payload_def split: if_splits)
  from take_payload_push [OF h this, of bs] tp Ok m read_header_push [of d bs] show ?thesis
    by (simp add: next_packet_def)
qed

lemma next_packet_push_waits:
  assumes "next_packet d = (Ok None, d')"
  shows "next_packet (decoder_push d bs) = next_packet (decoder_push d' bs)"
proof (cases "read_header d = Ok None")
  case True
  with assms show ?thesis by (simp add: next_packet_def)
next
  case False
  then obtain d1 where rd: "read_header d = Ok (Some d1)"
    using assms read_header_not_Panic [of d]
    by (auto simp: next_packet_def split: outcome.splits option.splits)
  with assms have "take_payload d1 = (Ok None, d')" by (simp add: next_packet_def)
  then have "d' = d1"
    by (auto simp: take_payload_def Let_def split: option.splits if_splits)
  moreover have "read_header d1 = Ok (Some d1)" using rd by (rule read_header_idem)
  ultimately show ?thesis
    using read_header_push [of d bs] read_header_push [of d1 bs] rd by (simp add: next_packet_def)
qed

text \<open>Each delivered packet consumes its header or its pending header, so a poll loop ends.\<close>

definition decoder_weight :: "packet_decoder \<Rightarrow> nat" where
  "decoder_weight d = 2 * length (d_buf d) + (if d_header d = None then 0 else 1)"

lemma read_header_weight: "read_header d = Ok (Some d') \<Longrightarrow> decoder_weight d' \<le> decoder_weight d"
  by (auto simp: read_header_def decoder_weight_def HEADER_LEN_def split: if_splits)

lemma next_packet_weight:
  assumes "next_packet d = (r, d')" and "r \<noteq> Ok None" and "\<And>e. read_header d \<noteq> Err e"
  shows "decoder_weight d' < decoder_weight d"
proof -
  obtain d1 where rd: "read_header d = Ok (Some d1)"
    using assms read_header_not_Panic [of d]
    by (auto simp: next_packet_def split: outcome.splits option.splits)
  with assms have "take_payload d1 = (r, d')" by (simp add: next_packet_def)
  with assms(2) read_header_pending [OF rd] have "decoder_weight d' < decoder_weight d1"
    by (auto simp: take_payload_def decoder_weight_def Let_def split: option.splits if_splits)
  with read_header_weight [OF rd] show ?thesis by simp
qed

interpretation decoder: stream_parser decoder_push next_packet decoder_weight "(=)"
proof (unfold_locales, goal_cases)
  case (8 d ev d')
  then have "read_header d \<noteq> Err e" for e by (auto simp: next_packet_def)
  with 8 show ?case by (intro next_packet_weight) auto
qed (auto simp: next_packet_push_ready next_packet_push_waits)

subsection \<open>Encoding and decoding are inverse\<close>

lemma wire_eq:
  "length (p_payload p) < 2 ^ 32 \<Longrightarrow>
     wire p = to_le32 (command_code (p_command p)) @ to_le32 (p_arg0 p) @ to_le32 (p_arg1 p)
        @ to_le32 (word_of_nat (length (p_payload p))) @ to_le32 (checksum (p_payload p))
        @ to_le32 (magic (p_command p)) @ p_payload p"
  by (simp add: wire_def encode_header_Ok)

definition header_bytes :: "u32 \<Rightarrow> u32 \<Rightarrow> u32 \<Rightarrow> u32 \<Rightarrow> u32 \<Rightarrow> u32 \<Rightarrow> bytes" where
  "header_bytes c a0 a1 len crc m =
     to_le32 c @ to_le32 a0 @ to_le32 a1 @ to_le32 len @ to_le32 crc @ to_le32 m"

lemma length_header_bytes [simp]: "length (header_bytes c a0 a1 len crc m) = HEADER_LEN"
  by (simp add: header_bytes_def HEADER_LEN_def)

lemma header_word_bytes [simp]:
  "header_word (header_bytes c a0 a1 len crc m @ rest) 0 = c"
  "header_word (header_bytes c a0 a1 len crc m @ rest) (Suc 0) = a0"
  "header_word (header_bytes c a0 a1 len crc m @ rest) 2 = a1"
  "header_word (header_bytes c a0 a1 len crc m @ rest) 3 = len"
  "header_word (header_bytes c a0 a1 len crc m @ rest) 4 = crc"
  "header_word (header_bytes c a0 a1 len crc m @ rest) 5 = m"
  by (simp_all add: header_word_def header_bytes_def slice_append_left slice_append_right slice_full)

lemma slice_split4: "i + 4 \<le> length xs \<Longrightarrow> drop i xs = slice i (i + 4) xs @ drop (i + 4) xs"
  using append_take_drop_id [of 4 "drop i xs"] by (simp add: slice_def add.commute)

lemma to_le32_header_word:
  "i * 4 + 4 \<le> length buf \<Longrightarrow> to_le32 (header_word buf i) = slice (i * 4) (i * 4 + 4) buf"
  by (simp add: header_word_def to_from_le32)

text \<open>Twenty-four bytes are the header of the six words they hold.\<close>

lemma header_bytes_of_buf:
  assumes "HEADER_LEN \<le> length buf"
  shows "buf = header_bytes (header_word buf 0) (header_word buf (Suc 0)) (header_word buf 2)
     (header_word buf 3) (header_word buf 4) (header_word buf 5) @ drop HEADER_LEN buf"
proof -
  have 24: "24 \<le> length buf" using assms by (simp add: HEADER_LEN_def)
  have w: "to_le32 (header_word buf i) = slice (i * 4) (i * 4 + 4) buf" if "i \<le> 5" for i
    using that 24 by (intro to_le32_header_word) simp
  have "buf = slice 0 4 buf @ slice 4 8 buf @ slice 8 12 buf @ slice 12 16 buf @ slice 16 20 buf
     @ slice 20 24 buf @ drop 24 buf"
    using 24 slice_split4 [of 0 buf] slice_split4 [of 4 buf] slice_split4 [of 8 buf]
      slice_split4 [of 12 buf] slice_split4 [of 16 buf] slice_split4 [of 20 buf]
    by simp
  then show ?thesis
    using w [of 0] w [of 1] w [of 2] w [of 3] w [of 4] w [of 5]
    by (simp add: header_bytes_def HEADER_LEN_def)
qed

lemma wire_header_bytes:
  "length (p_payload p) < 2 ^ 32 \<Longrightarrow>
     wire p = header_bytes (command_code (p_command p)) (p_arg0 p) (p_arg1 p)
        (word_of_nat (length (p_payload p))) (checksum (p_payload p)) (magic (p_command p)) @ p_payload p"
  by (simp add: wire_eq header_bytes_def)

text \<open>A poll of a decoder that holds a whole packet delivers it and keeps what follows.\<close>

lemma read_header_buf:
  assumes "d_header d = None" and "d_buf d = header_bytes (command_code c) a0 a1 len crc (magic c) @ rest"
    and "len \<le> d_max_payload d"
  shows "read_header d = Ok (Some (d\<lparr>d_header := Some \<lparr>h_command = c, h_arg0 = a0, h_arg1 = a1,
           h_len = unat len, h_checksum = crc\<rparr>, d_buf := rest\<rparr>))"
  using assms by (simp add: read_header_def linorder_not_less [symmetric])

lemma next_packet_wire:
  assumes "d_header d = None" and "d_buf d = wire p @ rest"
    and len: "length (p_payload p) \<le> unat (d_max_payload d)"
  shows "next_packet d = (Ok (Some p), d\<lparr>d_buf := rest\<rparr>)"
proof -
  have l32: "length (p_payload p) < 2 ^ 32"
    using len unat_less_u32 [of "d_max_payload d"] by simp
  then have u: "unat (word_of_nat (length (p_payload p)) :: u32) = length (p_payload p)"
    by (rule u32_of_nat_roundtrip)
  with len have "(word_of_nat (length (p_payload p)) :: u32) \<le> d_max_payload d"
    by (simp add: word_le_nat_alt)
  with assms l32 u show ?thesis
    by (simp add: wire_header_bytes read_header_buf next_packet_def take_payload_def packet_new_def)
qed

text \<open>The bytes a decoder holds, its pending header included.\<close>

definition held_bytes :: "packet_decoder \<Rightarrow> bytes" where
  "held_bytes d =
     (case d_header d of
        None \<Rightarrow> d_buf d
      | Some h \<Rightarrow> header_bytes (command_code (h_command h)) (h_arg0 h) (h_arg1 h)
                    (word_of_nat (h_len h)) (h_checksum h) (magic (h_command h)) @ d_buf d)"

definition decoder_ok :: "packet_decoder \<Rightarrow> bool" where
  "decoder_ok d \<longleftrightarrow> (\<forall>h. d_header d = Some h \<longrightarrow> h_len h \<le> unat (d_max_payload d))"

lemma decoder_ok_new [simp]: "decoder_ok (decoder_new m)"
  by (simp add: decoder_ok_def decoder_new_def)

lemma decoder_ok_push [simp]: "decoder_ok (decoder_push d bs) = decoder_ok d"
  by (simp add: decoder_ok_def)

lemma held_bytes_push [simp]: "held_bytes (decoder_push d bs) = held_bytes d @ bs"
  by (simp add: held_bytes_def split: option.splits)

lemma read_header_held:
  assumes "read_header d = Ok (Some d')" and "decoder_ok d"
  shows "held_bytes d' = held_bytes d \<and> decoder_ok d' \<and> d_max_payload d' = d_max_payload d
    \<and> d_verify_checksum d' = d_verify_checksum d"
proof (cases "d_header d")
  case (Some h)
  with assms show ?thesis by (auto simp: read_header_def)
next
  case None
  with assms have 24: "HEADER_LEN \<le> length (d_buf d)"
    by (auto simp: read_header_def split: if_splits)
  with None assms header_bytes_of_buf [OF 24] show ?thesis
    by (auto simp: read_header_def held_bytes_def decoder_ok_def command_try_from_Ok word_le_nat_alt
        word_less_nat_alt split: if_splits)
qed

lemma take_payload_held:
  assumes "take_payload d = (Ok (Some p), d')" and "decoder_ok d"
  shows "decoder_ok d'" and "d_max_payload d' = d_max_payload d"
    and "d_verify_checksum d' = d_verify_checksum d"
    and "length (p_payload p) \<le> unat (d_max_payload d)"
    and "d_verify_checksum d \<Longrightarrow> held_bytes d = wire p @ held_bytes d'"
proof -
  obtain h where h: "d_header d = Some h" "h_len h \<le> length (d_buf d)"
    using assms(1) by (auto simp: take_payload_def Let_def split: option.splits if_splits)
  have b: "h_len h < 2 ^ 32"
    using assms(2) h unat_less_u32 [of "d_max_payload d"] by (auto simp: decoder_ok_def)
  show "decoder_ok d'" "d_max_payload d' = d_max_payload d"
    "d_verify_checksum d' = d_verify_checksum d" "length (p_payload p) \<le> unat (d_max_payload d)"
    using assms h by (auto simp: take_payload_def Let_def decoder_ok_def split: if_splits)
  show "held_bytes d = wire p @ held_bytes d'" if "d_verify_checksum d"
    using assms h b that
    by (auto simp: take_payload_def Let_def held_bytes_def wire_header_bytes min_absorb2 split: if_splits)
qed

lemma next_packet_cases:
  assumes "next_packet d = (Ok m, d')"
  obtains "m = None" "d' = d"
  | "m = None" "read_header d = Ok (Some d')"
  | p d1 where "m = Some p" "read_header d = Ok (Some d1)" "take_payload d1 = (Ok (Some p), d')"
  using assms that
  by (auto simp: next_packet_def take_payload_def Let_def split: outcome.splits option.splits if_splits)

lemma next_packet_held:
  assumes "next_packet d = (Ok m, d')" and "decoder_ok d"
  shows "decoder_ok d' \<and> d_max_payload d' = d_max_payload d
    \<and> d_verify_checksum d' = d_verify_checksum d
    \<and> (\<forall>p. m = Some p \<longrightarrow> length (p_payload p) \<le> unat (d_max_payload d))
    \<and> (d_verify_checksum d \<longrightarrow>
      held_bytes d = (case m of Some p \<Rightarrow> wire p | None \<Rightarrow> []) @ held_bytes d')"
  using assms(1)
proof (cases rule: next_packet_cases)
  case 1
  with assms(2) show ?thesis by simp
next
  case 2
  with read_header_held [OF 2(2) assms(2)] show ?thesis by simp
next
  case (3 p d1)
  note rd = read_header_held [OF 3(2) assms(2)]
  then have "decoder_ok d1" by simp
  from take_payload_held [OF 3(3) this] rd 3(1) show ?thesis by auto
qed

lemma drains_held:
  "drains next_packet d evs r d' \<Longrightarrow> decoder_ok d \<Longrightarrow>
     (\<forall>p\<in>set evs. length (p_payload p) \<le> unat (d_max_payload d))
     \<and> (r = Ok None \<longrightarrow> decoder_ok d' \<and> d_max_payload d' = d_max_payload d
          \<and> d_verify_checksum d' = d_verify_checksum d
          \<and> (d_verify_checksum d \<longrightarrow> held_bytes d = concat (map wire evs) @ held_bytes d'))"
proof (induction rule: drains.induct)
  case (stop d r d')
  then show ?case using next_packet_held [of d None d'] by auto
next
  case (item d p d1 evs r d')
  with next_packet_held [OF item.hyps(1) item.prems] show ?case by auto
qed

lemma drains_wires:
  "d_header d = None \<Longrightarrow> d_buf d = concat (map wire ps)
    \<Longrightarrow> \<forall>p\<in>set ps. length (p_payload p) \<le> unat (d_max_payload d)
    \<Longrightarrow> drains next_packet d ps (Ok None) (d\<lparr>d_buf := []\<rparr>)"
proof (induction ps arbitrary: d)
  case Nil
  then have "next_packet d = (Ok None, d\<lparr>d_buf := []\<rparr>)"
    by (simp add: next_packet_def read_header_def HEADER_LEN_def)
  then show ?case by (auto intro: drains.stop)
next
  case (Cons p ps)
  then have "next_packet d = (Ok (Some p), d\<lparr>d_buf := concat (map wire ps)\<rparr>)"
    by (intro next_packet_wire) auto
  moreover have "drains next_packet (d\<lparr>d_buf := concat (map wire ps)\<rparr>) ps (Ok None) (d\<lparr>d_buf := []\<rparr>)"
    using Cons.IH [of "d\<lparr>d_buf := concat (map wire ps)\<rparr>"] Cons.prems by simp
  ultimately show ?case by (rule drains.item)
qed

section \<open>Properties\<close>

text \<open>
  C3: the decoder is exact. However the driver fragments its input, the packets it delivers
  re-encode to exactly the bytes consumed, in order, followed by the bytes still held for the next
  packet, and no delivered payload exceeds the maximum the decoder was created with.
\<close>

theorem decoding_is_exact:
  assumes "feeds decoder_push next_packet (decoder_new m) cs evs (Ok None) d'"
  shows "concat cs = concat (map wire evs) @ held_bytes d'
     \<and> (\<forall>p\<in>set evs. length (p_payload p) \<le> unat m)"
proof -
  from decoder.feeds_concat [OF assms]
  have "drains next_packet (decoder_push (decoder_new m) (concat cs)) evs (Ok None) d'" by auto
  moreover have "held_bytes (decoder_new m) = []" "d_verify_checksum (decoder_new m)"
    "d_max_payload (decoder_new m) = m"
    by (simp_all add: decoder_new_def held_bytes_def)
  ultimately show ?thesis
    using drains_held [of "decoder_push (decoder_new m) (concat cs)" evs "Ok None" d'] by simp
qed

theorem decoding_is_exact_witness:
  "\<exists>d'. feeds decoder_push next_packet (decoder_new 4096) [wire (packet_new Okay 1 2 []) @ [7]]
        [packet_new Okay 1 2 []] (Ok None) d'
      \<and> wire (packet_new Okay 1 2 []) @ [7] = wire (packet_new Okay 1 2 []) @ held_bytes d'"
proof -
  let ?d = "decoder_push (decoder_new 4096) (wire (packet_new Okay 1 2 []) @ [7])"
  have "next_packet ?d = (Ok (Some (packet_new Okay 1 2 [])), ?d\<lparr>d_buf := [7]\<rparr>)"
    by (rule next_packet_wire) (simp_all add: decoder_new_def)
  moreover have "next_packet (?d\<lparr>d_buf := [7]\<rparr>) = (Ok None, ?d\<lparr>d_buf := [7]\<rparr>)"
    by (simp add: next_packet_def read_header_def HEADER_LEN_def decoder_new_def)
  ultimately have "drains next_packet ?d [packet_new Okay 1 2 []] (Ok None) (?d\<lparr>d_buf := [7]\<rparr>)"
    by (auto intro: drains.intros)
  then have f: "feeds decoder_push next_packet (decoder_new 4096) [wire (packet_new Okay 1 2 []) @ [7]]
      [packet_new Okay 1 2 []] (Ok None) (?d\<lparr>d_buf := [7]\<rparr>)"
    by (rule feeds.last)
  with decoding_is_exact [OF f] show ?thesis by auto
qed

text \<open>
  C4: encoding followed by decoding is the identity under every fragmentation. The encodings of
  packets whose payloads fit the maximum, cut into fragments at arbitrary places, are delivered
  unchanged, in order and without an error.
\<close>

theorem packets_survive_fragmentation:
  assumes "\<forall>p\<in>set ps. length (p_payload p) \<le> unat m"
    and "cs \<noteq> []" and "concat cs = concat (map wire ps)"
  shows "\<exists>d'. feeds decoder_push next_packet (decoder_new m) cs ps (Ok None) d'"
proof -
  let ?d = "decoder_push (decoder_new m) (concat cs)"
  from assms have "drains next_packet ?d ps (Ok None) (?d\<lparr>d_buf := []\<rparr>)"
    by (intro drains_wires) (auto simp: decoder_new_def)
  moreover obtain evs r d' where f: "feeds decoder_push next_packet (decoder_new m) cs evs r d'"
    using decoder.feeds_total [OF assms(2)] by blast
  moreover obtain d'' where "drains next_packet ?d evs r d''"
    using decoder.feeds_concat [OF f] by blast
  ultimately have "evs = ps \<and> r = Ok None" by (blast dest: drains_deterministic)
  with f show ?thesis by blast
qed

theorem packets_survive_fragmentation_witness:
  "\<exists>d'. feeds decoder_push next_packet (decoder_new 4096)
     (map (\<lambda>b. [b]) (wire (packet_new Wrte 1 2 [104, 105]))) [packet_new Wrte 1 2 [104, 105]] (Ok None) d'"
proof -
  have "wire (packet_new Wrte 1 2 [104, 105]) \<noteq> []"
    by (simp add: wire_eq)
  then show ?thesis
    by (intro packets_survive_fragmentation) simp_all
qed

text \<open>
  A header whose magic is not the complement of its command is refused before anything is
  consumed, whatever its other fields and the bytes after it are.
\<close>

theorem bad_magic_refused:
  assumes "d_header d = None" and "HEADER_LEN \<le> length (d_buf d)"
    and "header_word (d_buf d) 0 XOR header_word (d_buf d) 5 \<noteq> 0xFFFFFFFF"
  shows "next_packet d = (Err BadMagic, d) \<or> next_packet d = (Err (UnknownCommand (header_word (d_buf d) 0)), d)"
proof (cases "command_try_from (header_word (d_buf d) 0)")
  case (Ok c)
  then have w: "header_word (d_buf d) 0 = command_code c" by (simp add: command_try_from_Ok)
  have "header_word (d_buf d) 5 \<noteq> magic c"
  proof
    assume "header_word (d_buf d) 5 = magic c"
    then have "header_word (d_buf d) 0 XOR header_word (d_buf d) 5 = 0xFFFFFFFF"
      by (simp add: w magic_def xor.assoc [symmetric])
    with assms(3) show False by simp
  qed
  with Ok assms show ?thesis by (simp add: next_packet_def read_header_def)
next
  case (Err e)
  then have "e = UnknownCommand (header_word (d_buf d) 0)" by (simp add: command_try_from_Err)
  with Err assms show ?thesis by (simp add: next_packet_def read_header_def)
qed simp

theorem bad_magic_refused_witness:
  "next_packet ((decoder_new 4096)\<lparr>d_buf := replicate 24 0\<rparr>)
      = (Err (UnknownCommand 0), (decoder_new 4096)\<lparr>d_buf := replicate 24 0\<rparr>)"
proof -
  let ?d = "(decoder_new 4096)\<lparr>d_buf := replicate 24 0\<rparr>"
  have w: "header_word (replicate 24 0) 0 = 0" "header_word (replicate 24 0) 5 = 0"
    by (simp_all add: header_word_def slice_def from_le32_def numeral_eq_Suc)
  have "command_try_from 0 = Err (UnknownCommand 0)" by (simp add: command_try_from_def)
  then have "next_packet ?d \<noteq> (Err BadMagic, ?d)"
    by (simp add: next_packet_def read_header_def decoder_new_def HEADER_LEN_def w)
  with bad_magic_refused [of ?d] show ?thesis
    by (simp add: decoder_new_def HEADER_LEN_def w)
qed

text \<open>
  An advertised payload larger than the maximum is refused as soon as the header is complete,
  before any of the payload has arrived, and nothing is consumed.
\<close>

theorem oversized_payload_refused_early:
  assumes "d_header d = None" and "d_buf d = header_bytes (command_code c) a0 a1 len crc (magic c) @ rest"
    and "d_max_payload d < len"
  shows "next_packet d = (Err (PayloadTooLarge len (d_max_payload d)), d)"
  using assms by (simp add: next_packet_def read_header_def)

theorem oversized_payload_refused_early_witness:
  "next_packet ((decoder_new 16)\<lparr>d_buf := header_bytes (command_code Wrte) 1 2 32 0 (magic Wrte)\<rparr>)
     = (Err (PayloadTooLarge 32 16), (decoder_new 16)\<lparr>d_buf := header_bytes (command_code Wrte) 1 2 32 0 (magic Wrte)\<rparr>)"
  using oversized_payload_refused_early [of "(decoder_new 16)\<lparr>d_buf := header_bytes (command_code Wrte) 1 2 32 0 (magic Wrte)\<rparr>"
      Wrte 1 2 32 0 "[]"]
  by (simp add: decoder_new_def)

text \<open>
  A payload in which any single byte was changed in transit is never delivered: the poll that
  would have delivered the packet reports a checksum mismatch.
\<close>

theorem corrupted_payload_byte_detected:
  assumes "d_header d = None" and "d_verify_checksum d"
    and "length (p_payload p) \<le> unat (d_max_payload d)"
    and "i < length (p_payload p)" and "v \<noteq> p_payload p ! i"
    and "d_buf d = take HEADER_LEN (wire p) @ (p_payload p)[i := v] @ rest"
  shows "fst (next_packet d) = Err BadChecksum"
proof -
  have l32: "length (p_payload p) < 2 ^ 32"
    using assms(3) unat_less_u32 [of "d_max_payload d"] by simp
  then have u: "unat (word_of_nat (length (p_payload p)) :: u32) = length (p_payload p)"
    by (rule u32_of_nat_roundtrip)
  with assms(3) have "(word_of_nat (length (p_payload p)) :: u32) \<le> d_max_payload d"
    by (simp add: word_le_nat_alt)
  with assms l32 u show ?thesis
    by (simp add: wire_header_bytes read_header_buf next_packet_def take_payload_def
        checksum_single_byte)
qed

theorem corrupted_payload_byte_detected_witness:
  "fst (next_packet ((decoder_new 16)\<lparr>d_buf := take HEADER_LEN (wire (packet_new Wrte 1 2 [65, 66])) @ [65, 67]\<rparr>))
     = Err BadChecksum"
  using corrupted_payload_byte_detected
    [of "(decoder_new 16)\<lparr>d_buf := take HEADER_LEN (wire (packet_new Wrte 1 2 [65, 66])) @ [65, 67]\<rparr>"
      "packet_new Wrte 1 2 [65, 66]" 1 67 "[]"]
  by (simp add: decoder_new_def)

text \<open>Polling the decoder never panics, in any state.\<close>

theorem decoder_never_panics: "fst (next_packet d) \<noteq> Panic"
  by (rule next_packet_never_panics)

end
