(* ===== verification/Proto_Session.thy ===== *)
theory Proto_Session
  imports Proto_Message
begin

text \<open>
  \<^verbatim>\<open>adb_proto/src/session.rs\<close>: the connection handshake and stream multiplexing as a pure state
  machine. Every public method of \<open>Session\<close> is a definition here; a method that changes the session
  returns the new one, together with its outcome where it can fail. The signing key is seen through
  the two operations the session calls (\<^verbatim>\<open>adb_proto/src/auth.rs\<close>), as a record of functions. The
  session that polls its decoder is the third interpretation of the \<open>stream_parser\<close> interface.
\<close>

section \<open>Data\<close>

definition AUTH_TOKEN :: u32 where
  "AUTH_TOKEN = 1"

definition AUTH_SIGNATURE :: u32 where
  "AUTH_SIGNATURE = 2"

definition AUTH_RSAPUBLICKEY :: u32 where
  "AUTH_RSAPUBLICKEY = 3"

definition VERSION_SKIP_CHECKSUM :: u32 where
  "VERSION_SKIP_CHECKSUM = 0x01000001"

record session_config =
  cfg_version :: u32
  cfg_max_payload :: u32
  cfg_system_identity :: bytes
  cfg_key_comment :: bytes

definition default_config :: session_config where
  "default_config = \<lparr>cfg_version = 0x01000000, cfg_max_payload = 1024 * 1024,
     cfg_system_identity = ascii ''host::adb_proto'', cfg_key_comment = ascii ''adb_proto''\<rparr>"

record device_banner =
  b_product :: "bytes option"
  b_model :: "bytes option"
  b_device :: "bytes option"
  b_features :: "bytes list"

definition default_banner :: device_banner where
  "default_banner = \<lparr>b_product = None, b_model = None, b_device = None, b_features = []\<rparr>"

definition banner_property :: "bytes \<times> bytes \<Rightarrow> device_banner \<Rightarrow> device_banner" where
  "banner_property kv out =
     (case kv of (key, value) \<Rightarrow>
        if key = ascii ''ro.product.name'' then out\<lparr>b_product := Some value\<rparr>
        else if key = ascii ''ro.product.model'' then out\<lparr>b_model := Some value\<rparr>
        else if key = ascii ''ro.product.device'' then out\<lparr>b_device := Some value\<rparr>
        else if key = ascii ''features'' then out\<lparr>b_features := split_on 44 value\<rparr>
        else out)"

definition banner_parse :: "bytes \<Rightarrow> device_banner" where
  "banner_parse banner =
     (let props = (case split_once (ascii ''::'') (trim_end 0 banner) of
                     Some (_, props) \<Rightarrow> props | None \<Rightarrow> [])
      in fold banner_property (List.map_filter (split_once [61]) (split_on 59 props)) default_banner)"

datatype event =
    AwaitingUserApproval
  | Connected device_banner
  | StreamOpened u32
  | StreamData u32 bytes
  | StreamClosed u32

datatype session_state = S_Idle | S_Handshaking | S_Connected

record stream =
  s_remote_id :: "u32 option"
  s_outbox :: bytes
  s_write_in_flight :: bool

definition default_stream :: stream where
  "default_stream = \<lparr>s_remote_id = None, s_outbox = [], s_write_in_flight = False\<rparr>"

record adb_key =
  key_sign_token :: "bytes \<Rightarrow> (bytes, proto_error) outcome"
  key_android_public_key :: "bytes \<Rightarrow> (bytes, proto_error) outcome"

record session =
  config :: session_config
  key :: adb_key
  state :: session_state
  decoder :: packet_decoder
  transmit :: "packet list"
  events :: "event list"
  send_public_key_next :: bool
  peer_max_payload :: nat
  streams :: "u32 \<rightharpoonup> stream"
  next_local_id :: u32

section \<open>Operations of the driver\<close>

definition session_new :: "session_config \<Rightarrow> adb_key \<Rightarrow> session" where
  "session_new cfg k =
     \<lparr>config = cfg, key = k, state = S_Idle, decoder = decoder_new (cfg_max_payload cfg),
      transmit = [], events = [], send_public_key_next = False, peer_max_payload = 4096,
      streams = Map.empty, next_local_id = 1\<rparr>"

definition send :: "packet \<Rightarrow> session \<Rightarrow> session" where
  "send p s = s\<lparr>transmit := transmit s @ [p]\<rparr>"

definition emit :: "event \<Rightarrow> session \<Rightarrow> session" where
  "emit e s = s\<lparr>events := events s @ [e]\<rparr>"

definition start :: "session \<Rightarrow> session" where
  "start s =
     (send (packet_new Cnxn (cfg_version (config s)) (cfg_max_payload (config s))
              (cfg_system_identity (config s) @ [0])) s)\<lparr>state := S_Handshaking\<rparr>"

definition is_connected :: "session \<Rightarrow> bool" where
  "is_connected s \<longleftrightarrow> state s = S_Connected"

definition poll_transmit :: "session \<Rightarrow> packet option \<times> session" where
  "poll_transmit s = (case transmit s of [] \<Rightarrow> (None, s) | p # ps \<Rightarrow> (Some p, s\<lparr>transmit := ps\<rparr>))"

definition poll_event :: "session \<Rightarrow> event option \<times> session" where
  "poll_event s = (case events s of [] \<Rightarrow> (None, s) | e # es \<Rightarrow> (Some e, s\<lparr>events := es\<rparr>))"

definition require_connected :: "session \<Rightarrow> (unit, proto_error) outcome" where
  "require_connected s =
     (if is_connected s then Ok () else Err (Protocol (Text (ascii ''device is not connected''))))"

text \<open>
  \<open>next_local_id += 1\<close> wraps: the release profile disables overflow checks
  (\<^verbatim>\<open>Cargo.toml\<close>: \<open>debug-assertions = false\<close>).
\<close>

definition open_stream :: "bytes \<Rightarrow> session \<Rightarrow> (u32, proto_error) outcome \<times> session" where
  "open_stream service s =
     (case require_connected s of
        Ok _ \<Rightarrow>
          let local_id = next_local_id s;
              s1 = s\<lparr>next_local_id := local_id + 1\<rparr>;
              s2 = send (packet_new Open local_id 0 (service @ [0])) s1
          in (Ok local_id, s2\<lparr>streams := (streams s2)(local_id \<mapsto> default_stream)\<rparr>)
      | Err e \<Rightarrow> (Err e, s)
      | Panic \<Rightarrow> (Panic, s))"

definition flush :: "u32 \<Rightarrow> session \<Rightarrow> session" where
  "flush local_id s =
     (case streams s local_id of
        None \<Rightarrow> s
      | Some st \<Rightarrow>
          (case s_remote_id st of
             None \<Rightarrow> s
           | Some remote_id \<Rightarrow>
               if s_write_in_flight st \<or> s_outbox st = [] then s
               else
                 let len = min (length (s_outbox st)) (peer_max_payload s);
                     chunk = take len (s_outbox st);
                     st' = st\<lparr>s_outbox := drop len (s_outbox st), s_write_in_flight := True\<rparr>
                 in send (packet_new Wrte local_id remote_id chunk)
                      (s\<lparr>streams := (streams s)(local_id \<mapsto> st')\<rparr>)))"

definition write_stream :: "u32 \<Rightarrow> bytes \<Rightarrow> session \<Rightarrow> (unit, proto_error) outcome \<times> session" where
  "write_stream local_id data s =
     (case streams s local_id of
        None \<Rightarrow> (Err (Protocol (Text (ascii ''stream '' @ show_nat (unat local_id) @ ascii '' is not open''))), s)
      | Some st \<Rightarrow>
          (Ok (), flush local_id
             (s\<lparr>streams := (streams s)(local_id \<mapsto> st\<lparr>s_outbox := s_outbox st @ data\<rparr>)\<rparr>)))"

definition pending_write_len :: "u32 \<Rightarrow> session \<Rightarrow> nat" where
  "pending_write_len local_id s =
     (case streams s local_id of None \<Rightarrow> 0 | Some st \<Rightarrow> length (s_outbox st))"

definition ack :: "u32 \<Rightarrow> session \<Rightarrow> session" where
  "ack local_id s =
     (case Option.bind (streams s local_id) s_remote_id of
        None \<Rightarrow> s
      | Some remote_id \<Rightarrow> send (packet_new Okay local_id remote_id []) s)"

definition close :: "u32 \<Rightarrow> session \<Rightarrow> session" where
  "close local_id s =
     (case streams s local_id of
        None \<Rightarrow> s
      | Some st \<Rightarrow>
          send (packet_new Clse local_id (case s_remote_id st of Some r \<Rightarrow> r | None \<Rightarrow> 0) [])
            (s\<lparr>streams := (streams s)(local_id := None)\<rparr>))"

section \<open>Handling input\<close>

definition on_okay :: "u32 \<Rightarrow> u32 \<Rightarrow> session \<Rightarrow> session" where
  "on_okay remote_id local_id s =
     (case streams s local_id of
        None \<Rightarrow> s
      | Some st \<Rightarrow>
          flush local_id
            (if s_remote_id st = None
             then emit (StreamOpened local_id)
                    (s\<lparr>streams := (streams s)(local_id \<mapsto> st\<lparr>s_remote_id := Some remote_id\<rparr>)\<rparr>)
             else s\<lparr>streams := (streams s)(local_id \<mapsto> st\<lparr>s_write_in_flight := False\<rparr>)\<rparr>))"

definition on_write :: "u32 \<Rightarrow> u32 \<Rightarrow> bytes \<Rightarrow> session \<Rightarrow> session" where
  "on_write remote_id local_id data s =
     (if streams s local_id \<noteq> None then emit (StreamData local_id data) s
      else send (packet_new Clse 0 remote_id []) s)"

fun command_debug :: "command \<Rightarrow> bytes" where
  "command_debug Cnxn = ascii ''Cnxn''"
| "command_debug Clse = ascii ''Clse''"
| "command_debug Auth = ascii ''Auth''"
| "command_debug Open = ascii ''Open''"
| "command_debug Wrte = ascii ''Wrte''"
| "command_debug Okay = ascii ''Okay''"
| "command_debug Stls = ascii ''Stls''"

fun state_debug :: "session_state \<Rightarrow> bytes" where
  "state_debug S_Idle = ascii ''Idle''"
| "state_debug S_Handshaking = ascii ''Handshaking''"
| "state_debug S_Connected = ascii ''Connected''"

text \<open>\<open>u32::clamp\<close> panics when its bounds are crossed.\<close>

definition clamp_u32 :: "u32 \<Rightarrow> u32 \<Rightarrow> u32 \<Rightarrow> (u32, proto_error) outcome" where
  "clamp_u32 v lo hi = (if hi < lo then Panic else Ok (max lo (min hi v)))"

definition on_connected :: "packet \<Rightarrow> session \<Rightarrow> (unit, proto_error) outcome \<times> session" where
  "on_connected p s =
     (let negotiated = min (p_arg0 p) (cfg_version (config s));
          s1 = s\<lparr>decoder := set_verify_checksum (negotiated < VERSION_SKIP_CHECKSUM) (decoder s)\<rparr>
      in case clamp_u32 (p_arg1 p) 1 (cfg_max_payload (config s)) of
           Ok peer_max \<Rightarrow>
             (Ok (), emit (Connected (banner_parse (utf8_lossy (p_payload p))))
                (s1\<lparr>peer_max_payload := unat peer_max, state := S_Connected\<rparr>))
         | Err e \<Rightarrow> (Err e, s1)
         | Panic \<Rightarrow> (Panic, s1))"

definition on_auth_token :: "packet \<Rightarrow> session \<Rightarrow> (unit, proto_error) outcome \<times> session" where
  "on_auth_token p s =
     (let done = (\<lambda>s. (Ok (), s\<lparr>send_public_key_next := \<not> send_public_key_next s\<rparr>))
      in if send_public_key_next s then
           (case key_android_public_key (key s) (cfg_key_comment (config s)) of
              Ok k \<Rightarrow> done (emit AwaitingUserApproval (send (packet_new Auth AUTH_RSAPUBLICKEY 0 k) s))
            | Err e \<Rightarrow> (Err e, s)
            | Panic \<Rightarrow> (Panic, s))
         else
           (case key_sign_token (key s) (p_payload p) of
              Ok signature \<Rightarrow> done (send (packet_new Auth AUTH_SIGNATURE 0 signature) s)
            | Err e \<Rightarrow> (Err e, s)
            | Panic \<Rightarrow> (Panic, s)))"

definition on_close :: "u32 \<Rightarrow> session \<Rightarrow> session" where
  "on_close local_id s =
     (if streams s local_id \<noteq> None
      then emit (StreamClosed local_id) (s\<lparr>streams := (streams s)(local_id := None)\<rparr>)
      else s)"

definition unexpected :: "packet \<Rightarrow> session \<Rightarrow> (unit, proto_error) outcome \<times> session" where
  "unexpected p s =
     (Err (Protocol (Text (ascii ''unexpected '' @ command_debug (p_command p)
                           @ ascii '' while '' @ state_debug (state s)))), s)"

definition handle_packet :: "packet \<Rightarrow> session \<Rightarrow> (unit, proto_error) outcome \<times> session" where
  "handle_packet p s =
     (case (state s, p_command p) of
        (S_Handshaking, Cnxn) \<Rightarrow> on_connected p s
      | (S_Handshaking, Auth) \<Rightarrow> if p_arg0 p = AUTH_TOKEN then on_auth_token p s else unexpected p s
      | (S_Handshaking, Stls) \<Rightarrow>
          (Err (Protocol (Text (ascii ''TLS is not supported on this transport''))), s)
      | (S_Connected, Okay) \<Rightarrow> (Ok (), on_okay (p_arg0 p) (p_arg1 p) s)
      | (S_Connected, Wrte) \<Rightarrow> (Ok (), on_write (p_arg0 p) (p_arg1 p) (p_payload p) s)
      | (S_Connected, Clse) \<Rightarrow> (Ok (), on_close (p_arg1 p) s)
      | _ \<Rightarrow> unexpected p s)"

text \<open>
  One turn of the loop of \<open>handle_input\<close>: poll the decoder and handle the packet it delivers, if
  it delivers one.
\<close>

definition session_next :: "session \<Rightarrow> (packet option, proto_error) outcome \<times> session" where
  "session_next s =
     (case next_packet (decoder s) of
        (Ok None, d) \<Rightarrow> (Ok None, s\<lparr>decoder := d\<rparr>)
      | (Ok (Some p), d) \<Rightarrow>
          (case handle_packet p (s\<lparr>decoder := d\<rparr>) of
             (Ok _, s') \<Rightarrow> (Ok (Some p), s')
           | (Err e, s') \<Rightarrow> (Err e, s')
           | (Panic, s') \<Rightarrow> (Panic, s'))
      | (Err e, d) \<Rightarrow> (Err e, s\<lparr>decoder := d\<rparr>)
      | (Panic, d) \<Rightarrow> (Panic, s\<lparr>decoder := d\<rparr>))"

definition session_push :: "session \<Rightarrow> bytes \<Rightarrow> session" where
  "session_push s bs = s\<lparr>decoder := decoder_push (decoder s) bs\<rparr>"

text \<open>Only the decoder's checksum flag and nothing else of it is touched by handling a packet.\<close>

lemma send_sel [simp]:
  "config (send p s) = config s" "key (send p s) = key s" "state (send p s) = state s"
  "decoder (send p s) = decoder s" "transmit (send p s) = transmit s @ [p]" "events (send p s) = events s"
  "send_public_key_next (send p s) = send_public_key_next s"
  "peer_max_payload (send p s) = peer_max_payload s" "streams (send p s) = streams s"
  "next_local_id (send p s) = next_local_id s"
  by (simp_all add: send_def)

lemma emit_sel [simp]:
  "config (emit e s) = config s" "key (emit e s) = key s" "state (emit e s) = state s"
  "decoder (emit e s) = decoder s" "transmit (emit e s) = transmit s" "events (emit e s) = events s @ [e]"
  "send_public_key_next (emit e s) = send_public_key_next s"
  "peer_max_payload (emit e s) = peer_max_payload s" "streams (emit e s) = streams s"
  "next_local_id (emit e s) = next_local_id s"
  by (simp_all add: emit_def)

definition session_weight :: "session \<Rightarrow> nat" where
  "session_weight s = decoder_weight (decoder s)"

lemma flush_frame [simp]:
  "config (flush i s) = config s" "key (flush i s) = key s" "state (flush i s) = state s"
  "decoder (flush i s) = decoder s" "events (flush i s) = events s"
  "send_public_key_next (flush i s) = send_public_key_next s"
  "peer_max_payload (flush i s) = peer_max_payload s" "next_local_id (flush i s) = next_local_id s"
  by (simp_all add: flush_def Let_def split: option.splits)

lemma flush_other: "j \<noteq> i \<Longrightarrow> streams (flush i s) j = streams s j"
  by (simp add: flush_def Let_def split: option.splits)

lemma flush_opens_nothing: "streams (flush i s) j = None \<longleftrightarrow> streams s j = None"
  by (auto simp: flush_def Let_def split: option.splits)

lemma on_okay_frame [simp]:
  "config (on_okay r i s) = config s" "key (on_okay r i s) = key s" "state (on_okay r i s) = state s"
  "decoder (on_okay r i s) = decoder s"
  "send_public_key_next (on_okay r i s) = send_public_key_next s"
  "peer_max_payload (on_okay r i s) = peer_max_payload s" "next_local_id (on_okay r i s) = next_local_id s"
  by (simp_all add: on_okay_def split: option.splits)

lemma on_write_frame [simp]:
  "config (on_write r i d s) = config s" "key (on_write r i d s) = key s" "state (on_write r i d s) = state s"
  "decoder (on_write r i d s) = decoder s" "streams (on_write r i d s) = streams s"
  "send_public_key_next (on_write r i d s) = send_public_key_next s"
  "peer_max_payload (on_write r i d s) = peer_max_payload s" "next_local_id (on_write r i d s) = next_local_id s"
  by (simp_all add: on_write_def)

lemma on_close_frame [simp]:
  "config (on_close i s) = config s" "key (on_close i s) = key s" "state (on_close i s) = state s"
  "decoder (on_close i s) = decoder s" "transmit (on_close i s) = transmit s"
  "send_public_key_next (on_close i s) = send_public_key_next s"
  "peer_max_payload (on_close i s) = peer_max_payload s" "next_local_id (on_close i s) = next_local_id s"
  by (simp_all add: on_close_def)

text \<open>Which handler runs, by the state of the session and the command of the packet.\<close>

lemma handle_packet_alternatives:
  "state s = S_Handshaking \<and> p_command p = Cnxn \<and> handle_packet p s = on_connected p s
   \<or> state s = S_Handshaking \<and> p_command p = Auth \<and> p_arg0 p = AUTH_TOKEN
       \<and> handle_packet p s = on_auth_token p s
   \<or> state s = S_Connected \<and> p_command p = Okay
       \<and> handle_packet p s = (Ok (), on_okay (p_arg0 p) (p_arg1 p) s)
   \<or> state s = S_Connected \<and> p_command p = Wrte
       \<and> handle_packet p s = (Ok (), on_write (p_arg0 p) (p_arg1 p) (p_payload p) s)
   \<or> state s = S_Connected \<and> p_command p = Clse \<and> handle_packet p s = (Ok (), on_close (p_arg1 p) s)
   \<or> (\<exists>e. handle_packet p s = (Err e, s))"
  by (cases "state s"; cases "p_command p") (simp_all add: handle_packet_def unexpected_def)

lemma handle_packet_cases:
  obtains "state s = S_Handshaking" "p_command p = Cnxn" "handle_packet p s = on_connected p s"
  | "state s = S_Handshaking" "p_command p = Auth" "p_arg0 p = AUTH_TOKEN" "handle_packet p s = on_auth_token p s"
  | "state s = S_Connected" "p_command p = Okay" "handle_packet p s = (Ok (), on_okay (p_arg0 p) (p_arg1 p) s)"
  | "state s = S_Connected" "p_command p = Wrte"
    "handle_packet p s = (Ok (), on_write (p_arg0 p) (p_arg1 p) (p_payload p) s)"
  | "state s = S_Connected" "p_command p = Clse" "handle_packet p s = (Ok (), on_close (p_arg1 p) s)"
  | e where "handle_packet p s = (Err e, s)"
  using handle_packet_alternatives [of s p] by blast

lemma session_push_sel [simp]:
  "config (session_push s b) = config s" "key (session_push s b) = key s" "state (session_push s b) = state s"
  "decoder (session_push s b) = decoder_push (decoder s) b" "transmit (session_push s b) = transmit s"
  "events (session_push s b) = events s"
  "send_public_key_next (session_push s b) = send_public_key_next s"
  "peer_max_payload (session_push s b) = peer_max_payload s" "streams (session_push s b) = streams s"
  "next_local_id (session_push s b) = next_local_id s"
  by (simp_all add: session_push_def)

text \<open>Bytes that arrive while a packet is handled wait in the decoder.\<close>

lemma on_okay_decoder: "on_okay r i (s\<lparr>decoder := d\<rparr>) = (on_okay r i s)\<lparr>decoder := d\<rparr>"
  by (simp add: on_okay_def flush_def Let_def send_def emit_def split: option.splits)

lemma handler_push:
  "on_okay r i (session_push s b) = session_push (on_okay r i s) b"
  "on_write r i d (session_push s b) = session_push (on_write r i d s) b"
  "on_close i (session_push s b) = session_push (on_close i s) b"
  by (simp_all add: session_push_def on_okay_decoder)
    (simp_all add: on_write_def on_close_def send_def emit_def)

lemma on_connected_push:
  "on_connected p (session_push s b) = (fst (on_connected p s), session_push (snd (on_connected p s)) b)"
  by (simp add: on_connected_def Let_def session_push_def emit_def set_verify_checksum_def decoder_push_def
      split: outcome.splits)

lemma on_auth_token_push:
  "on_auth_token p (session_push s b) = (fst (on_auth_token p s), session_push (snd (on_auth_token p s)) b)"
  by (simp add: on_auth_token_def Let_def session_push_def emit_def send_def split: outcome.splits)

lemma handle_packet_push:
  "handle_packet p (session_push s b) = (fst (handle_packet p s), session_push (snd (handle_packet p s)) b)"
  by (simp add: handle_packet_def on_connected_push on_auth_token_push handler_push unexpected_def
      split: session_state.splits command.splits)

lemma handle_packet_weight: "session_weight (snd (handle_packet p s)) = session_weight s"
proof -
  have "session_weight (snd (on_connected p s)) = session_weight s"
    by (simp add: on_connected_def Let_def session_weight_def decoder_weight_def set_verify_checksum_def
        split: outcome.splits)
  moreover have "session_weight (snd (on_auth_token p s)) = session_weight s"
    by (simp add: on_auth_token_def Let_def session_weight_def split: outcome.splits)
  ultimately show ?thesis
    by (cases rule: handle_packet_cases [of s p]) (simp_all add: session_weight_def)
qed

interpretation session: stream_parser session_push session_next session_weight "(=)"
proof (unfold_locales, goal_cases)
  case (5 s a b)
  then show ?case by (simp add: session_push_def)
next
  case (6 s r s' b)
  show ?case
  proof (cases "next_packet (decoder s)")
    case (Pair res d)
    with 6 have "res \<noteq> Ok None" by (auto simp: session_next_def)
    from next_packet_push_ready [OF Pair this, of b]
    have n: "next_packet (decoder (session_push s b)) = (res, decoder_push d b)" by simp
    have h: "handle_packet p (session_push s b\<lparr>decoder := decoder_push d b\<rparr>)
        = (fst (handle_packet p (s\<lparr>decoder := d\<rparr>)), session_push (snd (handle_packet p (s\<lparr>decoder := d\<rparr>))) b)" for p
      using handle_packet_push [of p "s\<lparr>decoder := d\<rparr>" b] by (simp add: session_push_def)
    have p: "session_push s b\<lparr>decoder := decoder_push d b\<rparr> = session_push (s\<lparr>decoder := d\<rparr>) b"
      by (simp add: session_push_def)
    show ?thesis
    proof (cases "\<exists>q. res = Ok (Some q)")
      case True
      then obtain q where q: "res = Ok (Some q)" ..
      obtain res2 s2 where hp: "handle_packet q (s\<lparr>decoder := d\<rparr>) = (res2, s2)" by fastforce
      have "session_next s = (case res2 of Ok _ \<Rightarrow> Ok (Some q) | Err e \<Rightarrow> Err e | Panic \<Rightarrow> Panic, s2)"
        by (simp add: session_next_def Pair q hp split: outcome.split)
      moreover have "session_next (session_push s b)
          = (case res2 of Ok _ \<Rightarrow> Ok (Some q) | Err e \<Rightarrow> Err e | Panic \<Rightarrow> Panic, session_push s2 b)"
        unfolding session_next_def n q prod.case outcome.case option.case h hp
        by (simp split: outcome.split)
      ultimately show ?thesis using 6(1) by simp
    next
      case False
      with \<open>res \<noteq> Ok None\<close> have res: "(\<exists>e. res = Err e) \<or> res = Panic"
        by (cases res) auto
      then have "session_next s = (res, s\<lparr>decoder := d\<rparr>)"
        by (auto simp: session_next_def Pair)
      moreover have "session_next (session_push s b) = (res, session_push (s\<lparr>decoder := d\<rparr>) b)"
        unfolding session_next_def n p [symmetric] using res by auto
      ultimately show ?thesis using 6(1) by simp
    qed
  qed
next
  case (7 s s' b)
  then obtain d where d: "next_packet (decoder s) = (Ok None, d)" "s' = s\<lparr>decoder := d\<rparr>"
    by (auto simp: session_next_def split: outcome.splits option.splits prod.splits)
  have "session_next (s\<lparr>decoder := d1\<rparr>) = session_next (s\<lparr>decoder := d2\<rparr>)"
    if "next_packet d1 = next_packet d2" for d1 d2
    using that by (simp add: session_next_def split: outcome.split option.split prod.split)
  from this [OF next_packet_push_waits [OF d(1), of b]] d(2) show ?case
    by (simp add: session_push_def)
next
  case (8 s p s')
  then obtain d where "next_packet (decoder s) = (Ok (Some p), d)"
    and h: "handle_packet p (s\<lparr>decoder := d\<rparr>) = (Ok (), s')"
    by (auto simp: session_next_def split: outcome.splits option.splits prod.splits)
  then have "decoder_weight d < decoder_weight (decoder s)"
    using decoder.next_consumes by blast
  with handle_packet_weight [of p "s\<lparr>decoder := d\<rparr>"] h show ?case
    by (simp add: session_weight_def)
qed auto

text \<open>The loop of \<open>handle_input\<close>; every turn consumes input.\<close>

function session_loop :: "session \<Rightarrow> (unit, proto_error) outcome \<times> session" where
  "session_loop s =
     (case session_next s of
        (Ok (Some p), s') \<Rightarrow> session_loop s'
      | (Ok None, s') \<Rightarrow> (Ok (), s')
      | (Err e, s') \<Rightarrow> (Err e, s')
      | (Panic, s') \<Rightarrow> (Panic, s'))"
  by pat_completeness auto
termination
  by (relation "measure session_weight") (auto dest: session.next_consumes [OF sym])

declare session_loop.simps [simp del]

definition handle_input :: "bytes \<Rightarrow> session \<Rightarrow> (unit, proto_error) outcome \<times> session" where
  "handle_input bs s = session_loop (session_push s bs)"

text \<open>What one turn of the loop does to the session: it drops decoder bytes, or handles one packet.\<close>

lemma session_next_cases:
  assumes "session_next s = (r, s')" and "r \<noteq> Panic"
  obtains d where "s' = s\<lparr>decoder := d\<rparr>" "\<And>p. r \<noteq> Ok (Some p)"
  | p d where "r = Ok (Some p)" "handle_packet p (s\<lparr>decoder := d\<rparr>) = (Ok (), s')"
proof -
  obtain res d where n: "next_packet (decoder s) = (res, d)" by fastforce
  have err: "s2 = s\<lparr>decoder := d\<rparr>" if "handle_packet p (s\<lparr>decoder := d\<rparr>) = (Err e, s2)" for p e s2
    using handle_packet_cases [of "s\<lparr>decoder := d\<rparr>" p] that
    by cases (auto simp: on_connected_def on_auth_token_def Let_def clamp_u32_def
        split: outcome.splits if_splits)
  show thesis
  proof (cases "\<exists>p. res = Ok (Some p)")
    case False
    then have "s' = s\<lparr>decoder := d\<rparr> \<and> (\<forall>p. r \<noteq> Ok (Some p))"
      using assms n by (auto simp: session_next_def split: outcome.splits option.splits)
    then show thesis using that(1) by blast
  next
    case True
    then obtain p where p: "res = Ok (Some p)" ..
    obtain r2 s2 where h: "handle_packet p (s\<lparr>decoder := d\<rparr>) = (r2, s2)" by fastforce
    show thesis
    proof (cases r2)
      case (Ok u)
      with assms n p h that(2) show thesis by (auto simp: session_next_def)
    next
      case (Err e)
      with assms n p h err [of p e s2] that(1) show thesis by (auto simp: session_next_def)
    next
      case Panic
      with assms n p h show thesis by (auto simp: session_next_def)
    qed
  qed
qed

section \<open>Reading in fragments\<close>

text \<open>A driver that hands the session the results of successive reads, until one fails.\<close>

fun handle_inputs :: "bytes list \<Rightarrow> session \<Rightarrow> (unit, proto_error) outcome \<times> session" where
  "handle_inputs [] s = (Ok (), s)"
| "handle_inputs (c # cs) s =
     (case handle_input c s of
        (Ok _, s') \<Rightarrow> handle_inputs cs s'
      | (Err e, s') \<Rightarrow> (Err e, s')
      | (Panic, s') \<Rightarrow> (Panic, s'))"

fun loop_result :: "('a option, 'e) outcome \<Rightarrow> (unit, 'e) outcome" where
  "loop_result (Ok _) = Ok ()"
| "loop_result (Err e) = Err e"
| "loop_result Panic = Panic"

lemma session_loop_drains:
  "\<exists>ps r. drains session_next s ps r (snd (session_loop s)) \<and> fst (session_loop s) = loop_result r"
proof (induction s rule: session_loop.induct)
  case (1 s)
  obtain r s' where n: "session_next s = (r, s')" by fastforce
  show ?case
  proof (cases "\<exists>p. r = Ok (Some p)")
    case True
    then obtain p where p: "r = Ok (Some p)" ..
    from 1 [of r s' "Some p" p] n p obtain ps r'
      where "drains session_next s' ps r' (snd (session_loop s'))" "fst (session_loop s') = loop_result r'"
      by auto
    moreover have "session_loop s = session_loop s'"
      using n p by (simp add: session_loop.simps [of s])
    ultimately show ?thesis using n p by (metis drains.item [where nxt = session_next])
  next
    case False
    then have "drains session_next s [] r s'" using n by (auto intro: drains.stop)
    moreover have "session_loop s = (loop_result r, s')"
      using n False by (cases r) (auto simp: session_loop.simps [of s] split: option.splits)
    ultimately show ?thesis by auto
  qed
qed

lemma drains_session_loop:
  assumes "drains session_next s ps r s'"
  shows "session_loop s = (loop_result r, s')"
  using session_loop_drains [of s] drains_deterministic [OF assms] by (auto simp: prod_eq_iff)

lemma loop_result_Ok: "(\<And>p. r \<noteq> Ok (Some p)) \<Longrightarrow> loop_result r = Ok () \<longleftrightarrow> r = Ok None"
proof (cases r)
  case (Ok q)
  assume "\<And>p. r \<noteq> Ok (Some p)"
  with Ok show ?thesis by (cases q) auto
qed auto

lemma handle_inputs_feeds:
  "cs \<noteq> [] \<Longrightarrow> \<exists>ps r. feeds session_push session_next s cs ps r (snd (handle_inputs cs s))
      \<and> fst (handle_inputs cs s) = loop_result r \<and> (\<forall>p. r \<noteq> Ok (Some p))"
proof (induction cs arbitrary: s)
  case Nil
  then show ?case by simp
next
  case (Cons c cs)
  obtain ps r s1 where d: "drains session_next (session_push s c) ps r s1"
    and l: "handle_input c s = (loop_result r, s1)"
    using session_loop_drains [of "session_push s c"] unfolding handle_input_def by (metis prod.collapse)
  have r: "\<forall>p. r \<noteq> Ok (Some p)" using drains_result [OF d] by blast
  show ?case
  proof (cases "cs = []")
    case True
    with l have "handle_inputs (c # cs) s = (loop_result r, s1)" by (cases r) simp_all
    with d r True show ?thesis 
      by (metis feeds.last [where push = session_push and nxt = session_next] fst_conv snd_conv)
  next
    case False
    show ?thesis
    proof (cases "r = Ok None")
      case True
      with l have "handle_inputs (c # cs) s = handle_inputs cs s1" by simp
      moreover from Cons.IH [OF False, of s1] obtain ps' r'
        where "feeds session_push session_next s1 cs ps' r' (snd (handle_inputs cs s1))"
          "fst (handle_inputs cs s1) = loop_result r'" "\<forall>p. r' \<noteq> Ok (Some p)" by blast
      ultimately show ?thesis using d True False
        by (metis feeds.more [where push = session_push and nxt = session_next])
    next
      case F: False
      with r loop_result_Ok [of r] have "loop_result r \<noteq> Ok ()" by blast
      with l have "handle_inputs (c # cs) s = (loop_result r, s1)"
        by (simp split: outcome.split)
      with d F False r show ?thesis
        by (metis feeds.fail [where push = session_push and nxt = session_next] fst_conv snd_conv)
    qed
  qed
qed

text \<open>
  C5: the session does not depend on how the transport fragments the bytes it reads: handing it the
  fragments one by one ends with the same result as handing it all of them in one call, and, when
  no call fails, with the same session (events, queued packets, streams, decoder).
\<close>

theorem session_ignores_fragmentation:
  assumes "cs \<noteq> []"
  shows "fst (handle_inputs cs s) = fst (handle_input (concat cs) s)
    \<and> (fst (handle_inputs cs s) = Ok () \<longrightarrow> snd (handle_inputs cs s) = snd (handle_input (concat cs) s))"
proof -
  obtain ps r where f: "feeds session_push session_next s cs ps r (snd (handle_inputs cs s))"
    and r: "fst (handle_inputs cs s) = loop_result r" "\<forall>p. r \<noteq> Ok (Some p)"
    using handle_inputs_feeds [OF assms] by blast
  from session.feeds_concat [OF f] obtain s2
    where d: "drains session_next (session_push s (concat cs)) ps r s2"
      and s2: "r = Ok None \<longrightarrow> s2 = snd (handle_inputs cs s)" by blast
  from drains_session_loop [OF d] r s2 loop_result_Ok [of r] show ?thesis
    by (simp add: handle_input_def)
qed

theorem session_ignores_fragmentation_witness:
  "fst (handle_inputs [[1], [2, 3]] (session_new default_config \<lparr>key_sign_token = Ok, key_android_public_key = Ok\<rparr>))
    = fst (handle_input [1, 2, 3] (session_new default_config \<lparr>key_sign_token = Ok, key_android_public_key = Ok\<rparr>))"
  using session_ignores_fragmentation [of "[[1], [2, 3]]"] by simp

section \<open>The device banner\<close>

definition banner_pair :: "bytes \<times> bytes \<Rightarrow> bytes" where
  "banner_pair kv = fst kv @ 61 # snd kv"

definition banner_text :: "(bytes \<times> bytes) list \<Rightarrow> nat \<Rightarrow> bytes" where
  "banner_text kvs n = ascii ''device::'' @ join [59] (map banner_pair kvs) @ replicate n 0"

definition banner_clean :: "bytes \<Rightarrow> bool" where
  "banner_clean s \<longleftrightarrow> 59 \<notin> set s \<and> 0 \<notin> set s"

lemma trim_end_replicate: "c \<notin> set s \<Longrightarrow> trim_end c (s @ replicate n c) = s"
proof (induction n)
  case 0
  then show ?case by (simp add: trim_end_clean)
next
  case (Suc n)
  have "s @ replicate (Suc n) c = (s @ replicate n c) @ [c]"
    by (simp flip: replicate_append_same)
  with Suc show ?case using trim_end_snoc [of c "s @ replicate n c"] by (simp del: replicate_Suc)
qed

lemma set_join: "set (join sep ps) \<subseteq> set sep \<union> (\<Union>p \<in> set ps. set p)"
  by (induction sep ps rule: join.induct) auto

lemma split_once_device: "split_once (ascii ''::'') (ascii ''device::'' @ s) = Some (ascii ''device'', s)"
  by (simp add: starts_with_def)

lemma banner_parse_text:
  assumes "kvs \<noteq> []" and "\<forall>(k, v) \<in> set kvs. banner_clean k \<and> 61 \<notin> set k \<and> banner_clean v"
  shows "banner_parse (banner_text kvs n) = fold banner_property kvs default_banner"
proof -
  have "0 \<notin> set (join [59] (map banner_pair kvs))"
  proof
    assume "0 \<in> set (join [59] (map banner_pair kvs))"
    then obtain kv where kv: "kv \<in> set kvs" "0 \<in> set (banner_pair kv)"
      using set_join [of "[59]" "map banner_pair kvs"] by auto
    with assms(2) show False by (cases kv) (auto simp: banner_pair_def banner_clean_def)
  qed
  then have "trim_end 0 (banner_text kvs n) = ascii ''device::'' @ join [59] (map banner_pair kvs)"
    unfolding banner_text_def append_assoc [symmetric] by (intro trim_end_replicate) simp
  moreover have "split_on 59 (join [59] (map banner_pair kvs)) = map banner_pair kvs"
    using assms by (intro split_on_join) (auto simp: banner_pair_def banner_clean_def)
  moreover have "List.map_filter (split_once [61]) (map banner_pair kvs) = kvs"
    using assms(2)
    by (induction kvs) (auto simp: banner_pair_def split_once_char map_filter_simps)
  ultimately show ?thesis
    by (simp add: banner_parse_def split_once_device del: ascii_Cons)
qed

text \<open>
  The banner in the form a device announces it, with any number of NULs at its end, is parsed
  into its product, model, device and feature list, also when a value contains an equals sign.
\<close>

theorem banner_roundtrip:
  assumes "banner_clean product" "banner_clean model" "banner_clean device"
    and "features \<noteq> []" "\<forall>f \<in> set features. banner_clean f \<and> 44 \<notin> set f"
  shows "banner_parse (banner_text [(ascii ''ro.product.name'', product), (ascii ''ro.product.model'', model),
      (ascii ''ro.product.device'', device), (ascii ''features'', join [44] features)] n)
    = \<lparr>b_product = Some product, b_model = Some model, b_device = Some device, b_features = features\<rparr>"
proof -
  have "banner_clean (join [44] features)"
    using set_join [of "[44]" features] assms(5) by (auto simp: banner_clean_def)
  moreover have "banner_clean (ascii ''ro.product.name'')" "banner_clean (ascii ''ro.product.model'')"
    "banner_clean (ascii ''ro.product.device'')" "banner_clean (ascii ''features'')"
    by (simp_all add: banner_clean_def)
  moreover have "61 \<notin> set (ascii ''ro.product.name'')" "61 \<notin> set (ascii ''ro.product.model'')"
    "61 \<notin> set (ascii ''ro.product.device'')" "61 \<notin> set (ascii ''features'')"
    by simp_all
  moreover have "split_on 44 (join [44] features) = features"
    using assms(4,5) by (intro split_on_join) auto
  ultimately show ?thesis
    using assms(1-3)
    by (subst banner_parse_text) (simp_all add: banner_property_def default_banner_def del: ascii_Cons)
qed

theorem banner_roundtrip_witness:
  "b_model (banner_parse (banner_text [(ascii ''ro.product.name'', [112]), (ascii ''ro.product.model'', [61, 56]),
      (ascii ''ro.product.device'', [115]), (ascii ''features'', [97, 44, 98])] 1)) = Some [61, 56]"
  using banner_roundtrip [of "[112]" "[61, 56]" "[115]" "[[97], [98]]" 1]
  by (simp add: banner_clean_def del: ascii_Cons)

end
