(* ===== verification/Session_Runs.thy ===== *)
theory Session_Runs
  imports Proto_Session
begin

text \<open>
  Whole runs of a session of \<^verbatim>\<open>adb_proto/src/session.rs\<close>: \<open>run\<close> is the step relation of a driver
  that calls the public methods in any order, with a history of what it wrote, opened, sent and
  received. The invariants of the reachable sessions, proved by rule induction, show that every
  stream delivers exactly the bytes written to it, in order and in chunks the peer accepts, with
  one WRTE in flight at a time, that local ids are fresh until the counter wraps, and that the
  answers to AUTH tokens alternate.
\<close>

section \<open>Runs\<close>

record history =
  h_sent :: "packet list"
  h_seen :: "event list"
  h_written :: "u32 \<Rightarrow> bytes"
  h_okays :: "u32 \<Rightarrow> nat"
  h_opens :: nat

definition no_history :: history where
  "no_history = \<lparr>h_sent = [], h_seen = [], h_written = (\<lambda>_. []), h_okays = (\<lambda>_. 0), h_opens = 0\<rparr>"

text \<open>The history notes each OKAY that a turn of the input loop handled.\<close>

fun note_packet :: "(packet option, proto_error) outcome \<Rightarrow> history \<Rightarrow> history" where
  "note_packet (Ok (Some p)) h =
     (if p_command p = Okay then h\<lparr>h_okays := (h_okays h)(p_arg1 p := Suc (h_okays h (p_arg1 p)))\<rparr> else h)"
| "note_packet _ h = h"

text \<open>
  \<open>turn\<close> is one turn of the loop of \<open>handle_input\<close> and \<open>bytes\<close> the push before it; a run may
  stop the loop after any turn, so it covers every prefix of a call.
\<close>

inductive run :: "session_config \<Rightarrow> adb_key \<Rightarrow> session \<Rightarrow> history \<Rightarrow> bool" for cfg k where
  new: "run cfg k (session_new cfg k) no_history"
| starts: "run cfg k s h \<Longrightarrow> run cfg k (start s) h"
| bytes: "run cfg k s h \<Longrightarrow> run cfg k (session_push s bs) h"
| turn: "run cfg k s h \<Longrightarrow> session_next s = (r, s') \<Longrightarrow> r \<noteq> Panic \<Longrightarrow> run cfg k s' (note_packet r h)"
| opens: "run cfg k s h \<Longrightarrow> open_stream svc s = (Ok i, s')
    \<Longrightarrow> run cfg k s' (h\<lparr>h_opens := Suc (h_opens h), h_okays := (h_okays h)(i := 0)\<rparr>)"
| writes: "run cfg k s h \<Longrightarrow> write_stream i data s = (Ok (), s')
    \<Longrightarrow> run cfg k s' (h\<lparr>h_written := (h_written h)(i := h_written h i @ data)\<rparr>)"
| acks: "run cfg k s h \<Longrightarrow> run cfg k (ack i s) h"
| closes: "run cfg k s h \<Longrightarrow> run cfg k (close i s) h"
| transmits: "run cfg k s h \<Longrightarrow> poll_transmit s = (Some p, s') \<Longrightarrow> run cfg k s' (h\<lparr>h_sent := h_sent h @ [p]\<rparr>)"
| shows_event: "run cfg k s h \<Longrightarrow> poll_event s = (Some e, s') \<Longrightarrow> run cfg k s' (h\<lparr>h_seen := h_seen h @ [e]\<rparr>)"

text \<open>Everything the session has ever queued for the device, and for its user.\<close>

definition traffic :: "session \<Rightarrow> history \<Rightarrow> packet list" where
  "traffic s h = h_sent h @ transmit s"

definition announced :: "session \<Rightarrow> history \<Rightarrow> event list" where
  "announced s h = h_seen h @ events s"

definition wrte_payloads :: "u32 \<Rightarrow> packet list \<Rightarrow> bytes list" where
  "wrte_payloads i ps = map p_payload (filter (\<lambda>p. p_command p = Wrte \<and> p_arg0 p = i) ps)"

lemma wrte_payloads_append [simp]: "wrte_payloads i (ps @ qs) = wrte_payloads i ps @ wrte_payloads i qs"
  by (simp add: wrte_payloads_def)

lemma wrte_payloads_control:
  "\<forall>p \<in> set ps. p_command p \<noteq> Wrte \<Longrightarrow> wrte_payloads i ps = []"
  by (auto simp: wrte_payloads_def filter_empty_conv)

lemma poll_transmit_Some:
  assumes "poll_transmit s = (Some p, s')"
  shows "transmit s = p # transmit s'" "streams s' = streams s" "next_local_id s' = next_local_id s"
    "events s' = events s" "state s' = state s" "peer_max_payload s' = peer_max_payload s"
    "send_public_key_next s' = send_public_key_next s" "config s' = config s" "key s' = key s"
  using assms by (auto simp: poll_transmit_def split: list.splits)

lemma poll_event_Some:
  assumes "poll_event s = (Some e, s')"
  shows "events s = e # events s'" "streams s' = streams s" "next_local_id s' = next_local_id s"
    "transmit s' = transmit s" "state s' = state s" "peer_max_payload s' = peer_max_payload s"
    "send_public_key_next s' = send_public_key_next s" "config s' = config s" "key s' = key s"
  using assms by (auto simp: poll_event_def split: list.splits)

lemma open_stream_Ok:
  assumes "open_stream svc s = (Ok i, s')"
  shows "state s = S_Connected" "i = next_local_id s"
    "s' = (send (packet_new Open i 0 (svc @ [0])) (s\<lparr>next_local_id := i + 1\<rparr>))
            \<lparr>streams := (streams s)(i \<mapsto> default_stream)\<rparr>"
  using assms
  by (auto simp: open_stream_def require_connected_def is_connected_def Let_def split: if_splits)

lemma write_stream_Ok:
  assumes "write_stream i data s = (Ok (), s')"
  obtains st where "streams s i = Some st"
    "s' = flush i (s\<lparr>streams := (streams s)(i \<mapsto> st\<lparr>s_outbox := s_outbox st @ data\<rparr>)\<rparr>)"
  using assms by (auto simp: write_stream_def split: option.splits)

text \<open>What a flush does: nothing, or it moves one chunk from the outbox into a WRTE.\<close>

lemma flush_cases:
  obtains "flush i s = s"
      "\<And>st r. streams s i = Some st \<Longrightarrow> s_remote_id st = Some r \<Longrightarrow> s_write_in_flight st \<or> s_outbox st = []"
  | st r chunk rest where
      "streams s i = Some st" "s_remote_id st = Some r" "\<not> s_write_in_flight st"
      "s_outbox st = chunk @ rest" "s_outbox st \<noteq> []"
      "chunk = take (peer_max_payload s) (s_outbox st)"
      "flush i s = send (packet_new Wrte i r chunk)
         (s\<lparr>streams := (streams s)(i \<mapsto> st\<lparr>s_outbox := rest, s_write_in_flight := True\<rparr>)\<rparr>)"
proof (cases "\<exists>st r. streams s i = Some st \<and> s_remote_id st = Some r \<and> \<not> s_write_in_flight st \<and> s_outbox st \<noteq> []")
  case False
  then have "flush i s = s"
    by (auto simp: flush_def split: option.splits)
  with False show ?thesis using that(1) by blast
next
  case True
  then obtain st r where st: "streams s i = Some st" "s_remote_id st = Some r"
    "\<not> s_write_in_flight st" "s_outbox st \<noteq> []" by blast
  let ?len = "min (length (s_outbox st)) (peer_max_payload s)"
  have "flush i s = send (packet_new Wrte i r (take ?len (s_outbox st)))
         (s\<lparr>streams := (streams s)(i \<mapsto> st\<lparr>s_outbox := drop ?len (s_outbox st), s_write_in_flight := True\<rparr>)\<rparr>)"
    using st by (simp add: flush_def Let_def)
  moreover have "take ?len (s_outbox st) = take (peer_max_payload s) (s_outbox st)"
    by (simp add: min_def)
  moreover have "s_outbox st = take ?len (s_outbox st) @ drop ?len (s_outbox st)"
    by (rule append_take_drop_id [symmetric])
  ultimately show ?thesis
    using that(2) [OF st(1-3)] st(4) by metis
qed

section \<open>Delivery\<close>

text \<open>
  What holds of a stream whose WRTEs so far carried \<open>sent\<close>, to which \<open>written\<close> was written and
  which has received \<open>n\<close> OKAYs: before (\<open>stream_pending\<close>) and after (\<open>stream_ok\<close>) its flush.
\<close>

definition stream_pending :: "bytes list \<Rightarrow> bytes \<Rightarrow> nat \<Rightarrow> stream \<Rightarrow> bool" where
  "stream_pending sent written n st \<longleftrightarrow>
     concat sent @ s_outbox st = written
     \<and> (s_remote_id st = None \<longrightarrow> sent = [] \<and> \<not> s_write_in_flight st)
     \<and> (s_remote_id st \<noteq> None \<and> \<not> s_write_in_flight st \<longrightarrow> length sent < n)
     \<and> (s_write_in_flight st \<longrightarrow> length sent \<le> n)"

definition stream_ok :: "bytes list \<Rightarrow> bytes \<Rightarrow> nat \<Rightarrow> stream \<Rightarrow> bool" where
  "stream_ok sent written n st \<longleftrightarrow>
     stream_pending sent written n st
     \<and> (s_remote_id st \<noteq> None \<and> \<not> s_write_in_flight st \<longrightarrow> s_outbox st = [])"

text \<open>Local ids handed out so far are \<open>1, \<dots>, h_opens\<close>, while the counter has not wrapped.\<close>

definition issued :: "history \<Rightarrow> u32 \<Rightarrow> bool" where
  "issued h i \<longleftrightarrow> i \<noteq> 0 \<and> unat i \<le> h_opens h"

definition streams_ok :: "session \<Rightarrow> packet list \<Rightarrow> history \<Rightarrow> bool" where
  "streams_ok s ps h \<longleftrightarrow>
     (\<forall>i st. streams s i = Some st \<longrightarrow>
        issued h i \<and> stream_ok (wrte_payloads i ps) (h_written h i) (h_okays h i) st)"

definition ids_ok :: "session \<Rightarrow> packet list \<Rightarrow> history \<Rightarrow> bool" where
  "ids_ok s ps h \<longleftrightarrow>
     next_local_id s = of_nat (Suc (h_opens h))
     \<and> (\<forall>p \<in> set ps. p_command p \<in> {Open, Wrte} \<longrightarrow> issued h (p_arg0 p))
     \<and> (\<forall>i. h_written h i \<noteq> [] \<longrightarrow> issued h i)
     \<and> distinct (map p_arg0 (filter (\<lambda>p. p_command p = Open) ps))"

definition control :: "packet \<Rightarrow> bool" where
  "control p \<longleftrightarrow> p_command p \<noteq> Wrte \<and> p_command p \<noteq> Open"

text \<open>A step that only queues control packets and may drop streams.\<close>

lemma streams_ok_control:
  assumes "streams_ok s ps h" and "\<And>i st. streams s' i = Some st \<Longrightarrow> streams s i = Some st"
    and "\<forall>p \<in> set qs. control p"
  shows "streams_ok s' (ps @ qs) h"
  using assms wrte_payloads_control [of qs] by (auto simp: streams_ok_def control_def)

lemma ids_ok_control:
  assumes "ids_ok s ps h" and "next_local_id s' = next_local_id s" and "\<forall>p \<in> set qs. control p"
  shows "ids_ok s' (ps @ qs) h"
proof -
  have "filter (\<lambda>p. p_command p = Open) qs = []"
    using assms(3) by (auto simp: filter_empty_conv control_def)
  with assms show ?thesis by (auto simp: ids_ok_def control_def)
qed

text \<open>A flush turns the pending state of its stream into a good one and leaves the others alone.\<close>

lemma flush_streams_ok:
  assumes "\<And>j st. j \<noteq> i \<Longrightarrow> streams s j = Some st \<Longrightarrow>
      issued h j \<and> stream_ok (wrte_payloads j ps) (h_written h j) (h_okays h j) st"
    and "\<And>st. streams s i = Some st \<Longrightarrow>
      issued h i \<and> stream_pending (wrte_payloads i ps) (h_written h i) (h_okays h i) st"
    and "ps = h_sent h @ transmit s"
  shows "streams_ok (flush i s) (h_sent h @ transmit (flush i s)) h"
proof (cases rule: flush_cases [of i s])
  case 1
  then have "stream_ok (wrte_payloads i ps) (h_written h i) (h_okays h i) st" if "streams s i = Some st" for st
    using assms(2) [OF that] that by (auto simp: stream_ok_def)
  with 1(1) assms show ?thesis
    unfolding streams_ok_def by (metis (no_types, lifting))
next
  case (2 st r chunk rest)
  have w: "wrte_payloads j (h_sent h @ transmit (flush i s)) = wrte_payloads j ps @ (if j = i then [chunk] else [])" for j
    by (simp add: 2(7) assms(3) wrte_payloads_def)
  show ?thesis
    unfolding streams_ok_def
  proof (intro allI impI)
    fix j st'
    assume j: "streams (flush i s) j = Some st'"
    show "issued h j \<and> stream_ok (wrte_payloads j (h_sent h @ transmit (flush i s))) (h_written h j) (h_okays h j) st'"
    proof (cases "j = i")
      case True
      with 2(7) j have "st' = st\<lparr>s_outbox := rest, s_write_in_flight := True\<rparr>" by simp
      from assms(2) [OF 2(1)] have "issued h i"
        and p: "stream_pending (wrte_payloads i ps) (h_written h i) (h_okays h i) st" by auto
      moreover have "stream_ok (wrte_payloads i ps @ [chunk]) (h_written h i) (h_okays h i) st'"
        using p 2(2-4) unfolding \<open>st' = _\<close> by (simp add: stream_ok_def stream_pending_def)
      ultimately show ?thesis unfolding True w by simp
    next
      case False
      with j have "streams s j = Some st'" by (simp add: flush_other)
      from assms(1) [OF False this] False show ?thesis unfolding w by simp
    qed
  qed
qed

lemma flush_ids_ok:
  assumes "ids_ok s (h_sent h @ transmit s) h" and "streams s i \<noteq> None \<Longrightarrow> issued h i"
  shows "ids_ok (flush i s) (h_sent h @ transmit (flush i s)) h"
proof (cases rule: flush_cases [of i s])
  case 1
  then show ?thesis using assms by simp
next
  case (2 st r chunk rest)
  with assms show ?thesis by (auto simp: ids_ok_def)
qed

lemma issued_mono: "issued h i \<Longrightarrow> h_opens h \<le> h_opens h' \<Longrightarrow> issued h' i"
  by (auto simp: issued_def)

lemma issued_cong: "h_opens h = h_opens h' \<Longrightarrow> issued h = issued h'"
  by (auto simp: issued_def)

lemma on_okay_streams_ok:
  assumes ok: "streams_ok s (h_sent h @ transmit s) h"
    and h': "h' = h\<lparr>h_okays := (h_okays h)(i := Suc (h_okays h i))\<rparr>"
  shows "streams_ok (on_okay r i s) (h_sent h' @ transmit (on_okay r i s)) h'"
proof (cases "streams s i")
  case None
  with ok show ?thesis by (auto simp: on_okay_def streams_ok_def h' issued_def)
next
  case (Some st)
  define st' where "st' = (if s_remote_id st = None then st\<lparr>s_remote_id := Some r\<rparr>
                           else st\<lparr>s_write_in_flight := False\<rparr>)"
  define s1 where "s1 = (if s_remote_id st = None then emit (StreamOpened i) (s\<lparr>streams := (streams s)(i \<mapsto> st')\<rparr>)
                         else s\<lparr>streams := (streams s)(i \<mapsto> st')\<rparr>)"
  have sel: "streams s1 = (streams s)(i \<mapsto> st')" "transmit s1 = transmit s"
    by (simp_all add: s1_def)
  have flush: "on_okay r i s = flush i s1"
    using Some by (simp add: on_okay_def s1_def st'_def)
  let ?ps = "h_sent h @ transmit s"
  have old: "issued h j \<and> stream_ok (wrte_payloads j ?ps) (h_written h j) (h_okays h j) st2"
    if "streams s j = Some st2" for j st2
    using ok that by (auto simp: streams_ok_def)
  have st: "issued h i" "stream_pending (wrte_payloads i ?ps) (h_written h i) (h_okays h i) st"
    using old [OF Some] by (simp_all add: stream_ok_def)
  then have new: "stream_pending (wrte_payloads i ?ps) (h_written h i) (Suc (h_okays h i)) st'"
    by (auto simp: stream_pending_def st'_def)
  show ?thesis
    unfolding flush
  proof (rule flush_streams_ok [where ps = ?ps])
    fix j st2
    assume j: "j \<noteq> i" "streams s1 j = Some st2"
    then have "streams s j = Some st2" by (simp add: sel)
    from old [OF this] j(1) show "issued h' j \<and> stream_ok (wrte_payloads j ?ps) (h_written h' j) (h_okays h' j) st2"
      by (simp add: h' issued_def)
  next
    fix st2
    assume "streams s1 i = Some st2"
    then have "st2 = st'" by (simp add: sel)
    with st new show "issued h' i \<and> stream_pending (wrte_payloads i ?ps) (h_written h' i) (h_okays h' i) st2"
      by (simp add: h' issued_def)
  qed (simp add: h' sel)
qed

lemma on_okay_ids_ok:
  assumes "ids_ok s (h_sent h @ transmit s) h" and "streams s i \<noteq> None \<Longrightarrow> issued h i"
  shows "ids_ok (on_okay r i s) (h_sent h @ transmit (on_okay r i s)) h"
proof (cases "streams s i")
  case None
  with assms show ?thesis by (simp add: on_okay_def)
next
  case (Some st)
  have "ids_ok (flush i s1) (h_sent h @ transmit (flush i s1)) h"
    if "transmit s1 = transmit s" "next_local_id s1 = next_local_id s" for s1
    using assms Some that by (intro flush_ids_ok) (auto simp: ids_ok_def)
  with Some show ?thesis by (simp add: on_okay_def)
qed

definition control_step :: "session \<Rightarrow> session \<Rightarrow> bool" where
  "control_step s s' \<longleftrightarrow>
     (\<exists>qs. transmit s' = transmit s @ qs \<and> (\<forall>q \<in> set qs. control q))
     \<and> (\<forall>i. streams s' i = None \<or> streams s' i = streams s i)
     \<and> next_local_id s' = next_local_id s"

lemma control_step_ok:
  assumes "control_step s s'" and "streams_ok s (h_sent h @ transmit s) h \<and> ids_ok s (h_sent h @ transmit s) h"
  shows "streams_ok s' (h_sent h @ transmit s') h \<and> ids_ok s' (h_sent h @ transmit s') h"
proof -
  from assms(1) obtain qs where qs: "transmit s' = transmit s @ qs" "\<forall>q \<in> set qs. control q"
    and n: "next_local_id s' = next_local_id s" by (auto simp: control_step_def)
  have "streams s i = Some st" if "streams s' i = Some st" for i st
    using assms(1) that unfolding control_step_def by (metis option.distinct(1))
  from streams_ok_control [OF _ this qs(2)] ids_ok_control [OF _ n qs(2)] assms(2) qs(1)
  show ?thesis by (metis append_assoc)
qed

lemma control_step_start: "control_step s (start s)"
  by (simp add: control_step_def start_def control_def)

lemma control_step_ack: "control_step s (ack i s)"
  by (simp add: control_step_def ack_def control_def split: option.split)

lemma control_step_close: "control_step s (close i s)"
  by (simp add: control_step_def close_def control_def split: option.split)

text \<open>A packet that is no OKAY queues control packets only, and opens no stream.\<close>

lemma handle_packet_control:
  assumes "handle_packet p s = (Ok (), s')" and "p_command p \<noteq> Okay"
  shows "control_step s s'"
proof (cases rule: handle_packet_cases [of s p])
  case 1
  with assms show ?thesis
    by (auto simp: control_step_def on_connected_def Let_def split: outcome.splits)
next
  case 2
  with assms show ?thesis
    by (auto simp: control_step_def on_auth_token_def Let_def control_def split: outcome.splits if_splits)
next
  case 4
  with assms have "s' = on_write (p_arg0 p) (p_arg1 p) (p_payload p) s" by simp
  then show ?thesis by (simp add: control_step_def on_write_def control_def)
next
  case 5
  with assms have "s' = on_close (p_arg1 p) s" by simp
  then show ?thesis by (simp add: control_step_def on_close_def)
qed (use assms in auto)

lemma delivery_run:
  "run cfg k s h \<Longrightarrow> h_opens h < 2 ^ 32 \<Longrightarrow>
    streams_ok s (h_sent h @ transmit s) h \<and> ids_ok s (h_sent h @ transmit s) h"
proof (induction rule: run.induct)
  case new
  show ?case
    by (simp add: streams_ok_def ids_ok_def session_new_def no_history_def)
next
  case (starts s h)
  with control_step_ok [OF control_step_start] show ?case by blast
next
  case (bytes s h bs)
  then show ?case by (simp add: streams_ok_def ids_ok_def)
next
  case (turn s h r s')
  let ?ps = "h_sent h @ transmit s"
  have ops: "h_opens (note_packet r h) = h_opens h" "h_sent (note_packet r h) = h_sent h"
    by (cases "(r, h)" rule: note_packet.cases; simp)+
  with turn have ok: "streams_ok s ?ps h" "ids_ok s ?ps h" by simp_all
  from turn(2,3) show ?case
  proof (cases rule: session_next_cases)
    case (1 d)
    then have "note_packet r h = h"
      by (cases "(r, h)" rule: note_packet.cases) auto
    with 1 ok show ?thesis by (simp add: streams_ok_def ids_ok_def)
  next
    case (2 p d)
    let ?s = "s\<lparr>decoder := d\<rparr>"
    have okd: "streams_ok ?s (h_sent h @ transmit ?s) h" "ids_ok ?s (h_sent h @ transmit ?s) h"
      using ok by (simp_all add: streams_ok_def ids_ok_def)
    show ?thesis
    proof (cases "p_command p = Okay")
      case True
      from 2(2) have s': "s' = on_okay (p_arg0 p) (p_arg1 p) ?s"
        by (cases rule: handle_packet_cases [of ?s p]) (simp_all add: True)
      define h' where "h' = h\<lparr>h_okays := (h_okays h)(p_arg1 p := Suc (h_okays h (p_arg1 p)))\<rparr>"
      have h': "note_packet r h = h'" by (simp add: 2(1) True h'_def)
      have "streams ?s (p_arg1 p) \<noteq> None \<Longrightarrow> issued h (p_arg1 p)"
        using okd(1) by (auto simp: streams_ok_def)
      from on_okay_ids_ok [OF okd(2) this, of "p_arg0 p"]
        on_okay_streams_ok [OF okd(1) h'_def, of "p_arg0 p"]
      show ?thesis
        unfolding h' s' by (simp add: ids_ok_def h'_def issued_def)
    next
      case False
      have "note_packet r h = h" by (simp add: 2(1) False)
      with control_step_ok [OF handle_packet_control [OF 2(2) False]] okd show ?thesis by simp
    qed
  qed
next
  case (opens s h svc i s')
  let ?h = "h\<lparr>h_opens := Suc (h_opens h), h_okays := (h_okays h)(i := 0)\<rparr>"
  let ?ps = "h_sent h @ transmit s"
  from opens have ok: "streams_ok s ?ps h" "ids_ok s ?ps h" and lt: "Suc (h_opens h) < 2 ^ 32" by simp_all
  note o = open_stream_Ok [OF opens(2)]
  have ui: "unat i = Suc (h_opens h)"
  proof -
    have "i = of_nat (Suc (h_opens h))" using o(2) ok(2) by (simp only: ids_ok_def)
    then show ?thesis using lt by (simp only: unat_of_nat) simp
  qed
  then have fresh: "\<not> issued h i" and new: "issued ?h i"
    by (auto simp: issued_def)
  have mono: "issued ?h j" if "issued h j" for j
    using that by (rule issued_mono) simp
  have empty: "wrte_payloads i ?ps = []" "h_written h i = []"
    using fresh ok(2) by (auto simp: wrte_payloads_def ids_ok_def filter_empty_conv)
  have no_open: "i \<notin> p_arg0 ` {p \<in> set ?ps. p_command p = Open}"
    using fresh ok(2) by (auto simp: ids_ok_def)
  have w: "wrte_payloads j [packet_new Open i 0 b] = []" for j b
    by (simp add: wrte_payloads_def)
  have "streams_ok s' (?ps @ [packet_new Open i 0 (svc @ [0])]) ?h"
    unfolding streams_ok_def
  proof (intro allI impI)
    fix j st
    assume j: "streams s' j = Some st"
    show "issued ?h j \<and> stream_ok (wrte_payloads j (?ps @ [packet_new Open i 0 (svc @ [0])])) (h_written ?h j) (h_okays ?h j) st"
    proof (cases "j = i")
      case True
      with j o(3) have "st = default_stream" by simp
      with True new empty w show ?thesis
        by (simp add: stream_ok_def stream_pending_def default_stream_def)
    next
      case False
      with j o(3) have "streams s j = Some st" by simp
      with ok(1) have "issued h j" "stream_ok (wrte_payloads j ?ps) (h_written h j) (h_okays h j) st"
        by (auto simp: streams_ok_def)
      with False w mono show ?thesis by simp
    qed
  qed
  moreover have "ids_ok s' (?ps @ [packet_new Open i 0 (svc @ [0])]) ?h"
    using ok(2) o new mono no_open by (auto simp: ids_ok_def)
  ultimately show ?case using o(3) by simp
next
  case (writes s h i data s')
  let ?h = "h\<lparr>h_written := (h_written h)(i := h_written h i @ data)\<rparr>"
  let ?ps = "h_sent h @ transmit s"
  from writes have ok: "streams_ok s ?ps h" "ids_ok s ?ps h" by simp_all
  from write_stream_Ok [OF writes(2)] obtain st where st: "streams s i = Some st"
    and s': "s' = flush i (s\<lparr>streams := (streams s)(i \<mapsto> st\<lparr>s_outbox := s_outbox st @ data\<rparr>)\<rparr>)" by blast
  define s1 where "s1 = s\<lparr>streams := (streams s)(i \<mapsto> st\<lparr>s_outbox := s_outbox st @ data\<rparr>)\<rparr>"
  have old: "issued h j \<and> stream_ok (wrte_payloads j ?ps) (h_written h j) (h_okays h j) st2"
    if "streams s j = Some st2" for j st2
    using ok(1) that by (auto simp: streams_ok_def)
  have iss: "issued ?h = issued h" by (rule issued_cong) simp
  have pend: "stream_pending (wrte_payloads i ?ps) (h_written h i @ data) (h_okays h i)
      (st\<lparr>s_outbox := s_outbox st @ data\<rparr>)"
    using old [OF st] by (auto simp: stream_ok_def stream_pending_def)
  have "streams_ok (flush i s1) (h_sent ?h @ transmit (flush i s1)) ?h"
  proof (rule flush_streams_ok [where ps = ?ps])
    fix j st2
    assume j: "j \<noteq> i" "streams s1 j = Some st2"
    then have "streams s j = Some st2" by (simp add: s1_def)
    from old [OF this] j(1) show "issued ?h j \<and> stream_ok (wrte_payloads j ?ps) (h_written ?h j) (h_okays ?h j) st2"
      by (simp add: iss)
  next
    fix st2
    assume "streams s1 i = Some st2"
    then have "st2 = st\<lparr>s_outbox := s_outbox st @ data\<rparr>" by (simp add: s1_def)
    with pend old [OF st] show "issued ?h i \<and> stream_pending (wrte_payloads i ?ps) (h_written ?h i) (h_okays ?h i) st2"
      by (simp add: iss)
  qed (simp add: s1_def)
  moreover have "ids_ok (flush i s1) (h_sent ?h @ transmit (flush i s1)) ?h"
    using ok(2) old [OF st] by (intro flush_ids_ok) (auto simp: ids_ok_def iss s1_def)
  ultimately show ?case by (simp add: s' s1_def)
next
  case (acks s h i)
  with control_step_ok [OF control_step_ack] show ?case by blast
next
  case (closes s h i)
  with control_step_ok [OF control_step_close] show ?case by blast
next
  case (transmits s h p s')
  from poll_transmit_Some [OF transmits(2)] transmits show ?case
    by (simp add: streams_ok_def ids_ok_def issued_def)
next
  case (shows_event s h e s')
  from poll_event_Some [OF shows_event(2)] shows_event show ?case
    by (simp add: streams_ok_def ids_ok_def issued_def)
qed

section \<open>Chunk sizes\<close>

definition chunk_fits :: "session_config \<Rightarrow> packet \<Rightarrow> bool" where
  "chunk_fits cfg p \<longleftrightarrow>
     p_command p = Wrte \<longrightarrow> 0 < length (p_payload p) \<and> length (p_payload p) \<le> unat (cfg_max_payload cfg)"

definition peer_ok :: "session_config \<Rightarrow> session \<Rightarrow> bool" where
  "peer_ok cfg s \<longleftrightarrow> config s = cfg
     \<and> (state s = S_Connected \<or> streams s \<noteq> Map.empty \<longrightarrow>
          0 < peer_max_payload s \<and> peer_max_payload s \<le> unat (cfg_max_payload cfg))
     \<and> (\<forall>p \<in> set (transmit s). chunk_fits cfg p)"

lemma chunk_fits_control [simp]: "c \<noteq> Wrte \<Longrightarrow> chunk_fits cfg (packet_new c a b d)"
  by (simp add: chunk_fits_def)

lemma flush_peer_ok:
  assumes "peer_ok cfg s"
  shows "peer_ok cfg (flush i s)"
proof (cases rule: flush_cases [of i s])
  case (2 st r chunk rest)
  then have "0 < peer_max_payload s" "peer_max_payload s \<le> unat (cfg_max_payload cfg)"
    using assms by (auto simp: peer_ok_def)
  with 2 have "chunk_fits cfg (packet_new Wrte i r chunk)"
    by (simp add: chunk_fits_def)
  with 2 assms \<open>0 < _\<close> \<open>_ \<le> _\<close> show ?thesis by (auto simp: peer_ok_def)
qed (use assms in simp)

lemma on_okay_peer_ok: "peer_ok cfg s \<Longrightarrow> peer_ok cfg (on_okay r i s)"
proof (cases "streams s i")
  case (Some st)
  assume ok: "peer_ok cfg s"
  have "peer_ok cfg (flush i s1)"
    if "config s1 = config s" "transmit s1 = transmit s" "peer_max_payload s1 = peer_max_payload s" for s1
    using ok Some that by (intro flush_peer_ok) (auto simp: peer_ok_def)
  with Some show ?thesis by (simp add: on_okay_def)
qed (simp add: on_okay_def)

lemma on_connected_peer:
  assumes "on_connected p s = (Ok (), s')"
  shows "0 < peer_max_payload s'" "peer_max_payload s' \<le> unat (cfg_max_payload (config s))"
    "state s' = S_Connected" "config s' = config s" "transmit s' = transmit s" "streams s' = streams s"
proof -
  have c: "1 \<le> max 1 (min hi v)" "max 1 (min hi v) \<le> hi" if "\<not> hi < 1" for hi v :: u32
    using that unfolding linorder_not_less by simp_all
  from assms have "\<not> cfg_max_payload (config s) < 1"
    by (auto simp: on_connected_def clamp_u32_def Let_def split: if_splits)
  with assms have s': "s' = emit (Connected (banner_parse (utf8_lossy (p_payload p))))
      (s\<lparr>decoder := set_verify_checksum (min (p_arg0 p) (cfg_version (config s)) < VERSION_SKIP_CHECKSUM) (decoder s),
         peer_max_payload := unat (max 1 (min (cfg_max_payload (config s)) (p_arg1 p))), state := S_Connected\<rparr>)"
    by (simp add: on_connected_def clamp_u32_def Let_def)
  show "0 < peer_max_payload s'" "peer_max_payload s' \<le> unat (cfg_max_payload (config s))"
    using c [OF \<open>\<not> _ < 1\<close>, of "p_arg1 p"] unfolding s'
    by (simp_all add: word_le_nat_alt)
  show "state s' = S_Connected" "config s' = config s" "transmit s' = transmit s" "streams s' = streams s"
    by (simp_all add: s')
qed

lemma handle_packet_peer_ok:
  assumes "handle_packet p s = (Ok (), s')" and "peer_ok cfg s"
  shows "peer_ok cfg s'"
proof (cases rule: handle_packet_cases [of s p])
  case 1
  with assms on_connected_peer [of p s s'] show ?thesis by (auto simp: peer_ok_def)
next
  case 2
  with assms show ?thesis
    by (auto simp: peer_ok_def on_auth_token_def Let_def split: outcome.splits if_splits)
next
  case 3
  with assms on_okay_peer_ok show ?thesis by auto
next
  case 4
  with assms have "s' = on_write (p_arg0 p) (p_arg1 p) (p_payload p) s" by simp
  then show ?thesis using assms(2) by (simp add: peer_ok_def on_write_def)
next
  case 5
  with assms have "s' = on_close (p_arg1 p) s" by simp
  then show ?thesis using assms(2) by (auto simp: peer_ok_def on_close_def)
qed (use assms in auto)

lemma sizes_run:
  "run cfg k s h \<Longrightarrow> peer_ok cfg s \<and> (\<forall>p \<in> set (h_sent h). chunk_fits cfg p)"
proof (induction rule: run.induct)
  case (turn s h r s')
  have "h_sent (note_packet r h) = h_sent h"
    by (cases "(r, h)" rule: note_packet.cases; simp)
  moreover from turn(2,3) turn.IH have "peer_ok cfg s'"
  proof (cases rule: session_next_cases)
    case (1 d)
    with turn.IH show ?thesis by (simp add: peer_ok_def)
  next
    case (2 p d)
    from turn.IH have "peer_ok cfg (s\<lparr>decoder := d\<rparr>)" by (simp add: peer_ok_def)
    with 2 handle_packet_peer_ok show ?thesis by blast
  qed
  ultimately show ?case using turn.IH by simp
next
  case (opens s h svc i s')
  with open_stream_Ok [OF opens(2)] show ?case by (auto simp: peer_ok_def)
next
  case (writes s h i data s')
  from write_stream_Ok [OF writes(2)] obtain st where "streams s i = Some st"
    and s': "s' = flush i (s\<lparr>streams := (streams s)(i \<mapsto> st\<lparr>s_outbox := s_outbox st @ data\<rparr>)\<rparr>)" by blast
  with writes have "peer_ok cfg (s\<lparr>streams := (streams s)(i \<mapsto> st\<lparr>s_outbox := s_outbox st @ data\<rparr>)\<rparr>)"
    by (auto simp: peer_ok_def)
  from flush_peer_ok [OF this] writes s' show ?case by simp
next
  case (closes s h i)
  then show ?case by (auto simp: peer_ok_def close_def split: option.split)
next
  case (transmits s h p s')
  with poll_transmit_Some [OF transmits(2)] show ?case by (auto simp: peer_ok_def)
next
  case (shows_event s h e s')
  with poll_event_Some [OF shows_event(2)] show ?case by (auto simp: peer_ok_def)
qed (auto simp: peer_ok_def session_new_def no_history_def start_def ack_def split: option.split)

section \<open>Authentication\<close>

definition auth_kinds :: "packet list \<Rightarrow> u32 list" where
  "auth_kinds ps = map p_arg0 (filter (\<lambda>p. p_command p = Auth) ps)"

definition alternation :: "nat \<Rightarrow> u32 list" where
  "alternation n = map (\<lambda>j. if even j then AUTH_SIGNATURE else AUTH_RSAPUBLICKEY) [0..<n]"

definition approvals :: "event list \<Rightarrow> nat" where
  "approvals es = length (filter (\<lambda>e. e = AwaitingUserApproval) es)"

definition auth_ok :: "bool \<Rightarrow> packet list \<Rightarrow> event list \<Rightarrow> bool" where
  "auth_ok flag ps es \<longleftrightarrow>
     (\<exists>n. auth_kinds ps = alternation n \<and> flag = odd n \<and> approvals es = n div 2)"

lemma auth_kinds_append [simp]: "auth_kinds (ps @ qs) = auth_kinds ps @ auth_kinds qs"
  by (simp add: auth_kinds_def)

lemma auth_kinds_new [simp]: "auth_kinds [packet_new c a b d] = (if c = Auth then [a] else [])"
  by (simp add: auth_kinds_def)

lemma approvals_append [simp]: "approvals (es @ fs) = approvals es + approvals fs"
  by (simp add: approvals_def)

lemma approvals_simps [simp]: "approvals [] = 0" "approvals (e # es) = (if e = AwaitingUserApproval then 1 else 0) + approvals es"
  by (simp_all add: approvals_def)

lemma flush_auth: "\<exists>qs. transmit (flush i s) = transmit s @ qs \<and> auth_kinds qs = []"
  by (cases rule: flush_cases [of i s]) (auto simp: auth_kinds_def)

lemma on_okay_auth:
  "auth_ok f (hs @ transmit s) (es @ events s) \<Longrightarrow> auth_ok f (hs @ transmit (on_okay r i s)) (es @ events (on_okay r i s))"
proof (cases "streams s i")
  case (Some st)
  assume ok: "auth_ok f (hs @ transmit s) (es @ events s)"
  have "auth_ok f (hs @ transmit (flush i s1)) (es @ events (flush i s1))"
    if "transmit s1 = transmit s" "approvals (events s1) = approvals (events s)" for s1
    using flush_auth [of i s1] ok that by (auto simp: auth_ok_def)
  with Some show ?thesis by (simp add: on_okay_def)
qed (simp add: on_okay_def)

lemma on_auth_token_auth:
  assumes "on_auth_token p s = (Ok (), s')"
    and "auth_ok (send_public_key_next s) (hs @ transmit s) (es @ events s)"
  shows "auth_ok (send_public_key_next s') (hs @ transmit s') (es @ events s')"
proof -
  from assms(2) obtain n where n: "auth_kinds (hs @ transmit s) = alternation n"
    "send_public_key_next s = odd n" "approvals (es @ events s) = n div 2" by (auto simp: auth_ok_def)
  show ?thesis
    unfolding auth_ok_def
    by (rule exI [of _ "Suc n"])
      (use assms(1) n in \<open>auto simp: on_auth_token_def Let_def alternation_def split: outcome.splits if_splits\<close>)
qed

lemma handle_packet_auth:
  assumes "handle_packet p s = (Ok (), s')"
    and "auth_ok (send_public_key_next s) (hs @ transmit s) (es @ events s)"
  shows "auth_ok (send_public_key_next s') (hs @ transmit s') (es @ events s')"
proof (cases rule: handle_packet_cases [of s p])
  case 1
  with assms show ?thesis
    by (auto simp: on_connected_def Let_def auth_ok_def split: outcome.splits)
next
  case 2
  with assms on_auth_token_auth show ?thesis by auto
next
  case 3
  with assms on_okay_auth show ?thesis by auto
next
  case 4
  with assms have "s' = on_write (p_arg0 p) (p_arg1 p) (p_payload p) s" by simp
  then show ?thesis using assms(2) by (simp add: on_write_def auth_ok_def)
next
  case 5
  with assms have "s' = on_close (p_arg1 p) s" by simp
  then show ?thesis using assms(2) by (simp add: on_close_def auth_ok_def)
qed (use assms in auto)

lemma auth_run:
  "run cfg k s h \<Longrightarrow> auth_ok (send_public_key_next s) (h_sent h @ transmit s) (h_seen h @ events s)"
proof (induction rule: run.induct)
  case new
  show ?case
    by (auto simp: auth_ok_def session_new_def no_history_def auth_kinds_def alternation_def)
next
  case (turn s h r s')
  have "h_sent (note_packet r h) = h_sent h" "h_seen (note_packet r h) = h_seen h"
    by (cases "(r, h)" rule: note_packet.cases; simp)+
  moreover from turn(2,3) turn.IH
  have "auth_ok (send_public_key_next s') (h_sent h @ transmit s') (h_seen h @ events s')"
  proof (cases rule: session_next_cases)
    case (2 p d)
    with handle_packet_auth [OF 2(2), of "h_sent h" "h_seen h"] turn.IH show ?thesis by simp
  qed simp
  ultimately show ?case by simp
next
  case (opens s h svc i s')
  with open_stream_Ok [OF opens(2)] show ?case by (auto simp: auth_ok_def)
next
  case (writes s h i data s')
  from write_stream_Ok [OF writes(2)] obtain s1 where
    s': "s' = flush i s1" "transmit s1 = transmit s" "events s1 = events s"
      "send_public_key_next s1 = send_public_key_next s" by (metis session.select_convs session.surjective session.update_convs(9))
  with writes flush_auth [of i s1] show ?case by (auto simp: auth_ok_def)
next
  case (transmits s h p s')
  with poll_transmit_Some [OF transmits(2)] show ?case by simp
next
  case (shows_event s h e s')
  with poll_event_Some [OF shows_event(2)] show ?case by simp
qed (auto simp: auth_ok_def start_def ack_def close_def split: option.split)

section \<open>A concrete run\<close>

text \<open>
  A session that connects to a device accepting four bytes per packet, opens a stream, sees it
  accepted and writes six bytes to it; the witnesses below evaluate the properties on it.
\<close>

lemma session_next_wire:
  assumes "d_header (decoder s) = None" and "d_buf (decoder s) = []"
    and "length (p_payload p) \<le> unat (d_max_payload (decoder s))"
    and "handle_packet p s = (Ok (), s')"
  shows "session_next (session_push s (wire p)) = (Ok (Some p), s')"
proof -
  have "next_packet (decoder_push (decoder s) (wire p)) = (Ok (Some p), (decoder_push (decoder s) (wire p))\<lparr>d_buf := []\<rparr>)"
    using assms by (intro next_packet_wire) (simp_all add: decoder_push_def)
  moreover have "(decoder_push (decoder s) (wire p))\<lparr>d_buf := []\<rparr> = decoder s"
    using assms(2) by (simp add: decoder_push_def)
  ultimately have n: "next_packet (decoder_push (decoder s) (wire p)) = (Ok (Some p), decoder s)"
    by simp
  have s: "(session_push s (wire p))\<lparr>decoder := decoder s\<rparr> = s"
    by (simp add: session_push_def)
  show ?thesis
    unfolding session_next_def session_push_sel n
    by (simp only: prod.case outcome.case option.case s assms(4))
qed

definition demo_key :: adb_key where
  "demo_key = \<lparr>key_sign_token = Ok, key_android_public_key = Ok\<rparr>"

definition demo_cnxn :: packet where
  "demo_cnxn = packet_new Cnxn 0x01000001 4 (ascii ''device::'')"

definition demo_started :: session where
  "demo_started = start (session_new default_config demo_key)"

definition demo_connected :: session where
  "demo_connected = snd (handle_packet demo_cnxn demo_started)"

definition demo_opening :: session where
  "demo_opening = snd (open_stream (ascii ''sync:'') demo_connected)"

definition demo_open :: session where
  "demo_open = snd (handle_packet (packet_new Okay 77 1 []) demo_opening)"

definition demo_writing :: session where
  "demo_writing = snd (write_stream 1 [1, 2, 3, 4, 5, 6] demo_open)"

definition demo_history :: history where
  "demo_history = \<lparr>h_sent = [], h_seen = [], h_written = (\<lambda>_. [])(1 := [1, 2, 3, 4, 5, 6]),
     h_okays = (\<lambda>_. 0)(1 := 1), h_opens = 1\<rparr>"

lemmas demo_defs =
  demo_key_def demo_cnxn_def demo_started_def start_def send_def session_new_def default_config_def
  decoder_new_def

lemma demo_connected_eq:
  "handle_packet demo_cnxn demo_started = (Ok (), demo_connected)"
  "demo_connected = demo_started\<lparr>decoder := (decoder demo_started)\<lparr>d_verify_checksum := True\<rparr>,
     events := [Connected (banner_parse (utf8_lossy (ascii ''device::'')))],
     peer_max_payload := 4, state := S_Connected\<rparr>"
proof -
  have "handle_packet demo_cnxn demo_started = (Ok (), demo_started\<lparr>decoder := (decoder demo_started)\<lparr>d_verify_checksum := True\<rparr>,
     events := [Connected (banner_parse (utf8_lossy (ascii ''device::'')))],
     peer_max_payload := 4, state := S_Connected\<rparr>)"
    by (simp add: demo_defs handle_packet_def on_connected_def Let_def clamp_u32_def emit_def
        set_verify_checksum_def VERSION_SKIP_CHECKSUM_def min_def max_def del: ascii_Cons)
  then show "handle_packet demo_cnxn demo_started = (Ok (), demo_connected)"
    "demo_connected = demo_started\<lparr>decoder := (decoder demo_started)\<lparr>d_verify_checksum := True\<rparr>,
     events := [Connected (banner_parse (utf8_lossy (ascii ''device::'')))],
     peer_max_payload := 4, state := S_Connected\<rparr>"
    unfolding demo_connected_def by (simp_all del: ascii_Cons)
qed

lemma demo_connected_sel:
  "state demo_connected = S_Connected" "next_local_id demo_connected = 1"
  "streams demo_connected = Map.empty" "peer_max_payload demo_connected = 4"
  "d_header (decoder demo_connected) = None" "d_buf (decoder demo_connected) = []"
  "d_max_payload (decoder demo_connected) = 1048576"
  "transmit demo_connected = transmit demo_started"
  by (simp_all add: demo_connected_eq(2) demo_defs del: ascii_Cons)

lemma demo_opening_eq:
  "open_stream (ascii ''sync:'') demo_connected = (Ok 1, demo_opening)"
  "state demo_opening = S_Connected" "streams demo_opening = [1 \<mapsto> default_stream]"
  "peer_max_payload demo_opening = 4" "decoder demo_opening = decoder demo_connected"
  "transmit demo_opening = transmit demo_started @ [packet_new Open 1 0 (ascii ''sync:'' @ [0])]"
  by (simp_all add: demo_opening_def open_stream_def require_connected_def is_connected_def
      demo_connected_sel Let_def del: ascii_Cons)

lemma demo_open_eq:
  "handle_packet (packet_new Okay 77 1 []) demo_opening = (Ok (), demo_open)"
  "streams demo_open = [1 \<mapsto> default_stream\<lparr>s_remote_id := Some 77\<rparr>]"
  "peer_max_payload demo_open = 4" "transmit demo_open = transmit demo_opening"
  by (simp_all add: demo_open_def handle_packet_def demo_opening_eq on_okay_def flush_def
      default_stream_def)

lemma demo_writing_eq:
  "write_stream 1 [1, 2, 3, 4, 5, 6] demo_open = (Ok (), demo_writing)"
  "streams demo_writing = [1 \<mapsto> \<lparr>s_remote_id = Some 77, s_outbox = [5, 6], s_write_in_flight = True\<rparr>]"
  "transmit demo_writing = transmit demo_opening @ [packet_new Wrte 1 77 [1, 2, 3, 4]]"
  by (simp_all add: demo_writing_def write_stream_def demo_open_eq flush_def Let_def default_stream_def)

lemma demo_run_connected: "run default_config demo_key demo_connected no_history"
proof -
  have "run default_config demo_key demo_started no_history"
    unfolding demo_started_def by (intro run.intros)
  then have "run default_config demo_key (session_push demo_started (wire demo_cnxn)) no_history"
    by (rule run.bytes)
  moreover have "session_next (session_push demo_started (wire demo_cnxn)) = (Ok (Some demo_cnxn), demo_connected)"
    by (rule session_next_wire) (simp_all only: demo_connected_eq(1), simp_all add: demo_defs)
  ultimately show ?thesis
    using run.turn by (fastforce simp: demo_cnxn_def)
qed

lemma demo_run: "run default_config demo_key demo_writing demo_history"
proof -
  have "run default_config demo_key demo_opening (no_history\<lparr>h_opens := 1\<rparr>)"
    using run.opens [OF demo_run_connected demo_opening_eq(1)]
    by (simp add: no_history_def fun_upd_idem)
  then have "run default_config demo_key (session_push demo_opening (wire (packet_new Okay 77 1 []))) (no_history\<lparr>h_opens := 1\<rparr>)"
    by (rule run.bytes)
  moreover have "session_next (session_push demo_opening (wire (packet_new Okay 77 1 [])))
      = (Ok (Some (packet_new Okay 77 1 [])), demo_open)"
    by (rule session_next_wire) (simp_all add: demo_open_eq(1) demo_opening_eq(5) demo_connected_sel)
  ultimately have "run default_config demo_key demo_open
      (note_packet (Ok (Some (packet_new Okay 77 1 []))) (no_history\<lparr>h_opens := 1\<rparr>))"
    by (rule run.turn) simp
  from run.writes [OF this demo_writing_eq(1)] show ?thesis
    by (simp add: no_history_def demo_history_def)
qed

section \<open>Properties\<close>

text \<open>
  C1: the bytes of the WRTE packets a session has queued for an open stream, followed by the
  bytes still in its outbox, are exactly the bytes the driver wrote to it, in order: nothing is
  lost, duplicated or mixed between streams, whatever the order of calls and packets.
\<close>

theorem streams_deliver_writes:
  assumes "run cfg k s h" and "h_opens h < 2 ^ 32" and "streams s i = Some st"
  shows "concat (wrte_payloads i (traffic s h)) @ s_outbox st = h_written h i"
  using delivery_run [OF assms(1,2)] assms(3)
  by (auto simp: streams_ok_def stream_ok_def stream_pending_def traffic_def)

theorem streams_deliver_writes_witness:
  "concat (wrte_payloads 1 (traffic demo_writing demo_history)) @ [5, 6] = h_written demo_history 1"
  using streams_deliver_writes [OF demo_run, of 1] by (simp add: demo_writing_eq demo_history_def)

text \<open>
  C2: a stream never has more WRTE packets queued than it received OKAYs, sends none before the
  device accepted it, and keeps nothing back: once it is accepted and no write is in flight, its
  outbox is empty, so that everything written has been queued for the device.
\<close>

theorem one_write_in_flight:
  assumes "run cfg k s h" and "h_opens h < 2 ^ 32" and "streams s i = Some st"
  shows "length (wrte_payloads i (traffic s h)) \<le> h_okays h i
    \<and> (s_remote_id st = None \<longrightarrow> wrte_payloads i (traffic s h) = [])
    \<and> (s_remote_id st \<noteq> None \<and> \<not> s_write_in_flight st \<longrightarrow>
         s_outbox st = [] \<and> length (wrte_payloads i (traffic s h)) < h_okays h i)"
proof -
  have "stream_ok (wrte_payloads i (traffic s h)) (h_written h i) (h_okays h i) st"
    using delivery_run [OF assms(1,2)] assms(3) by (simp add: streams_ok_def traffic_def)
  then show ?thesis
    by (cases "s_write_in_flight st") (auto simp: stream_ok_def stream_pending_def)
qed

theorem one_write_in_flight_witness:
  "length (wrte_payloads 1 (traffic demo_writing demo_history)) \<le> 1"
  using one_write_in_flight [OF demo_run, of 1] by (simp add: demo_writing_eq demo_history_def)

text \<open>
  Until the 32-bit counter wraps, every stream the driver opens gets a non-zero local id that no
  stream is using and that no OPEN or WRTE packet of the session ever carried.
\<close>

theorem stream_ids_are_fresh:
  assumes "run cfg k s h" and "h_opens h < 2 ^ 32 - 1" and "open_stream svc s = (Ok i, s')"
  shows "i \<noteq> 0 \<and> streams s i = None
    \<and> (\<forall>p \<in> set (traffic s h). p_command p \<in> {Open, Wrte} \<longrightarrow> p_arg0 p \<noteq> i)"
proof -
  from assms(2) have "h_opens h < 2 ^ 32" by simp
  note ok = delivery_run [OF assms(1) this]
  have "i = of_nat (Suc (h_opens h))"
    using ok open_stream_Ok(2) [OF assms(3)] by (simp only: ids_ok_def)
  then have "unat i = Suc (h_opens h)"
    using assms(2) by (simp only: unat_of_nat) simp
  then have "i \<noteq> 0" "\<not> issued h i" by (auto simp: issued_def)
  with ok show ?thesis
    by (fastforce simp: streams_ok_def ids_ok_def traffic_def)
qed

theorem stream_ids_are_fresh_witness: "(1 :: u32) \<noteq> 0 \<and> streams demo_connected 1 = None"
  using stream_ids_are_fresh [OF demo_run_connected _ demo_opening_eq(1)] by (simp add: no_history_def)

text \<open>
  Every WRTE packet a session queues carries at least one byte and at most the maximum payload
  of its configuration.
\<close>

theorem chunks_fit:
  assumes "run cfg k s h" and "p \<in> set (traffic s h)" and "p_command p = Wrte"
  shows "0 < length (p_payload p) \<and> length (p_payload p) \<le> unat (cfg_max_payload cfg)"
  using sizes_run [OF assms(1)] assms(2,3) by (auto simp: traffic_def peer_ok_def chunk_fits_def)

theorem chunks_fit_witness: "length [1, 2, 3, 4 :: u8] \<le> unat (cfg_max_payload default_config)"
  using chunks_fit [OF demo_run, of "packet_new Wrte 1 77 [1, 2, 3, 4]"]
  by (simp add: traffic_def demo_writing_eq)

text \<open>
  The answers to the device's AUTH tokens alternate: a signature first, then the public key,
  then a signature again, and so on; the user is told to approve the key once per public key sent.
\<close>

theorem auth_replies_alternate:
  assumes "run cfg k s h"
  shows "\<exists>n. auth_kinds (traffic s h) = alternation n \<and> approvals (announced s h) = n div 2"
  using auth_run [OF assms] by (auto simp: auth_ok_def traffic_def announced_def)

theorem auth_replies_alternate_witness:
  "\<exists>n. auth_kinds (traffic demo_writing demo_history) = alternation n
     \<and> approvals (announced demo_writing demo_history) = n div 2"
  by (rule auth_replies_alternate [OF demo_run])

section \<open>Isolation, panics and the wrap of the id counter\<close>

text \<open>The stream an event is about.\<close>

fun event_stream :: "event \<Rightarrow> u32 option" where
  "event_stream AwaitingUserApproval = None"
| "event_stream (Connected b) = None"
| "event_stream (StreamOpened i) = Some i"
| "event_stream (StreamData i d) = Some i"
| "event_stream (StreamClosed i) = Some i"

definition only_about :: "u32 \<Rightarrow> session \<Rightarrow> session \<Rightarrow> bool" where
  "only_about i s s' \<longleftrightarrow>
     (\<forall>j. j \<noteq> i \<longrightarrow> streams s' j = streams s j)
     \<and> (\<exists>es. events s' = events s @ es \<and> (\<forall>e \<in> set es. event_stream e \<in> {None, Some i}))
     \<and> (\<exists>ps. transmit s' = transmit s @ ps \<and> (\<forall>q \<in> set ps. p_command q = Wrte \<longrightarrow> p_arg0 q = i))"

definition no_stream_effect :: "session \<Rightarrow> session \<Rightarrow> bool" where
  "no_stream_effect s s' \<longleftrightarrow>
     streams s' = streams s
     \<and> (\<exists>es. events s' = events s @ es \<and> (\<forall>e \<in> set es. event_stream e = None))
     \<and> (\<exists>ps. transmit s' = transmit s @ ps \<and> (\<forall>q \<in> set ps. p_command q = Auth))"

lemma flush_only_about: "only_about i s (flush i s)"
  by (cases rule: flush_cases [of i s]) (auto simp: only_about_def)

lemma only_about_trans: "only_about i s s1 \<Longrightarrow> only_about i s1 s2 \<Longrightarrow> only_about i s s2"
  unfolding only_about_def by fastforce

lemma on_okay_only_about: "only_about i s (on_okay r i s)"
proof (cases "streams s i")
  case None
  then show ?thesis by (simp add: on_okay_def only_about_def)
next
  case (Some st)
  have "only_about i s (emit (StreamOpened i) (s\<lparr>streams := (streams s)(i \<mapsto> st')\<rparr>))"
    "only_about i s (s\<lparr>streams := (streams s)(i \<mapsto> st')\<rparr>)" for st'
    by (simp_all add: only_about_def)
  from this [THEN only_about_trans, OF flush_only_about] Some show ?thesis
    by (simp add: on_okay_def)
qed

lemma on_connected_no_stream_effect: "no_stream_effect s (snd (on_connected p s))"
  by (simp add: no_stream_effect_def on_connected_def Let_def split: outcome.split)

lemma on_auth_token_no_stream_effect: "no_stream_effect s (snd (on_auth_token p s))"
  by (simp add: no_stream_effect_def on_auth_token_def Let_def split: outcome.split)

lemma no_stream_effect_refl: "no_stream_effect s s"
  by (simp add: no_stream_effect_def)

lemma no_stream_effect_only_about: "no_stream_effect s s' \<Longrightarrow> only_about i s s'"
  unfolding no_stream_effect_def only_about_def by fastforce

text \<open>
  A packet acts on the stream its second argument names and on no other: the other streams keep
  their outbox, their remote id and their flow-control state, no event is announced for them and no
  data of theirs is sent.
\<close>

theorem streams_are_isolated: "only_about (p_arg1 p) s (snd (handle_packet p s))"
proof (cases rule: handle_packet_cases [of s p])
  case 3
  then show ?thesis using on_okay_only_about by simp
next
  case 4
  then show ?thesis by (simp add: on_write_def only_about_def)
next
  case 5
  then show ?thesis by (simp add: on_close_def only_about_def)
qed (simp_all add: no_stream_effect_only_about on_connected_no_stream_effect
    on_auth_token_no_stream_effect no_stream_effect_refl)

text \<open>
  Before the handshake has completed no stream can be opened, and no packet of the device opens,
  changes or closes a stream, announces anything about one or makes the session send stream packets.
\<close>

theorem handshake_gates_streams:
  assumes "state s \<noteq> S_Connected"
  shows "fst (open_stream svc s) = Err (Protocol (Text (ascii ''device is not connected'')))
    \<and> snd (open_stream svc s) = s \<and> no_stream_effect s (snd (handle_packet p s))"
proof -
  have "no_stream_effect s (snd (handle_packet p s))"
    by (cases rule: handle_packet_cases [of s p])
      (use assms in \<open>simp_all add: on_connected_no_stream_effect on_auth_token_no_stream_effect
         no_stream_effect_refl\<close>)
  with assms show ?thesis
    by (simp add: open_stream_def require_connected_def is_connected_def)
qed

theorem handshake_gates_streams_witness:
  "no_stream_effect demo_started (snd (handle_packet (packet_new Wrte 1 1 [120]) demo_started))"
  using handshake_gates_streams [of demo_started "[]" "packet_new Wrte 1 1 [120]"]
  by (simp add: demo_defs)

lemma handle_packet_total:
  assumes "cfg_max_payload (config s) \<noteq> 0"
    and "\<And>t. key_sign_token (key s) t \<noteq> Panic" and "\<And>c. key_android_public_key (key s) c \<noteq> Panic"
  shows "fst (handle_packet p s) \<noteq> Panic \<and> config (snd (handle_packet p s)) = config s
    \<and> key (snd (handle_packet p s)) = key s"
proof -
  have "fst (on_connected p s) \<noteq> Panic" "config (snd (on_connected p s)) = config s"
    "key (snd (on_connected p s)) = key s"
    using assms(1) by (simp_all add: on_connected_def clamp_u32_def Let_def)
  moreover have "fst (on_auth_token p s) \<noteq> Panic" "config (snd (on_auth_token p s)) = config s"
    "key (snd (on_auth_token p s)) = key s"
    using assms(2) [of "p_payload p"] assms(3) [of "cfg_key_comment (config s)"]
    by (auto simp: on_auth_token_def Let_def split: outcome.split)
  ultimately show ?thesis
    by (cases rule: handle_packet_cases [of s p]) simp_all
qed

lemma session_next_total:
  assumes "cfg_max_payload (config s) \<noteq> 0"
    and "\<And>t. key_sign_token (key s) t \<noteq> Panic" and "\<And>c. key_android_public_key (key s) c \<noteq> Panic"
    and "session_next s = (r, s')"
  shows "r \<noteq> Panic \<and> config s' = config s \<and> key s' = key s"
proof -
  obtain res d where n: "next_packet (decoder s) = (res, d)" by fastforce
  with next_packet_never_panics [of "decoder s"] have res: "res \<noteq> Panic" by auto
  show ?thesis
  proof (cases "\<exists>p. res = Ok (Some p)")
    case True
    then obtain p where p: "res = Ok (Some p)" ..
    obtain r2 s2 where h: "handle_packet p (s\<lparr>decoder := d\<rparr>) = (r2, s2)" by fastforce
    with handle_packet_total [of "s\<lparr>decoder := d\<rparr>" p] assms(1-3)
    have "r2 \<noteq> Panic" "config s2 = config s" "key s2 = key s" by auto
    with assms(4) n p h show ?thesis by (cases r2) (auto simp: session_next_def)
  next
    case False
    with assms(4) n res show ?thesis
      by (cases res) (auto simp: session_next_def split: option.splits)
  qed
qed

lemma session_loop_total:
  assumes "cfg_max_payload (config s) \<noteq> 0"
    and "\<And>t. key_sign_token (key s) t \<noteq> Panic" and "\<And>c. key_android_public_key (key s) c \<noteq> Panic"
  shows "fst (session_loop s) \<noteq> Panic"
  using assms
proof (induction s rule: session_loop.induct)
  case (1 s)
  obtain r s' where n: "session_next s = (r, s')" by fastforce
  note t = session_next_total [OF 1(2-4) n]
  show ?case
  proof (cases "\<exists>p. r = Ok (Some p)")
    case True
    then obtain p where p: "r = Ok (Some p)" ..
    have "fst (session_loop s') \<noteq> Panic"
      by (rule 1(1) [OF n [symmetric] p refl]) (use t 1(2-4) in simp_all)
    with n p show ?thesis by (simp add: session_loop.simps [of s])
  next
    case False
    with n t show ?thesis
      by (cases r) (auto simp: session_loop.simps [of s] split: option.splits)
  qed
qed

text \<open>
  \<open>handle_input\<close> never panics when the configured maximum payload is not zero and the key's
  operations do not panic, whatever the device sends; \<open>clamp\<close> is the only call that could.
\<close>

theorem session_never_panics:
  assumes "cfg_max_payload (config s) \<noteq> 0"
    and "\<And>t. key_sign_token (key s) t \<noteq> Panic" and "\<And>c. key_android_public_key (key s) c \<noteq> Panic"
  shows "fst (handle_input bs s) \<noteq> Panic"
  unfolding handle_input_def using assms by (intro session_loop_total) simp_all

theorem session_never_panics_witness: "fst (handle_input (wire demo_cnxn) demo_started) \<noteq> Panic"
  by (rule session_never_panics) (simp_all add: demo_defs)

lemma zero_max_payload_panics:
  assumes "state s = S_Handshaking" and "cfg_max_payload (config s) = 0" and "p_command p = Cnxn"
  shows "fst (handle_packet p s) = Panic"
  using assms by (simp add: handle_packet_def on_connected_def clamp_u32_def Let_def)

text \<open>
  The counter of local ids is neither checked nor compared with the streams in use: after
  \<open>2 ^ 32 - 1\<close> opens it hands out the id 0, which the protocol reserves, and then the id 1 again
  while the first stream is still open, whose outbox and remote id the new entry overwrites.
\<close>

definition opened_again :: "bytes \<Rightarrow> nat \<Rightarrow> session \<Rightarrow> session" where
  "opened_again svc n s = ((\<lambda>s. snd (open_stream svc s)) ^^ n) s"

lemma open_stream_connected:
  assumes "state s = S_Connected"
  shows "fst (open_stream svc s) = Ok (next_local_id s)"
    "state (snd (open_stream svc s)) = S_Connected"
    "next_local_id (snd (open_stream svc s)) = next_local_id s + 1"
    "streams (snd (open_stream svc s)) = (streams s)(next_local_id s \<mapsto> default_stream)"
  using assms by (simp_all add: open_stream_def require_connected_def is_connected_def Let_def)

lemma opened_again_state:
  "state s = S_Connected \<Longrightarrow> state (opened_again svc n s) = S_Connected
    \<and> next_local_id (opened_again svc n s) = next_local_id s + of_nat n
    \<and> dom (streams s) \<subseteq> dom (streams (opened_again svc n s))"
  by (induction n) (auto simp: opened_again_def open_stream_connected algebra_simps)

theorem local_ids_wrap:
  assumes "state s = S_Connected" and "next_local_id s = 2" and "streams s 1 = Some st"
  shows "fst (open_stream svc (opened_again svc 4294967294 s)) = Ok 0
    \<and> fst (open_stream svc (opened_again svc 4294967295 s)) = Ok 1
    \<and> streams (opened_again svc 4294967295 s) 1 \<noteq> None
    \<and> streams (snd (open_stream svc (opened_again svc 4294967295 s))) 1 = Some default_stream"
proof -
  note o = opened_again_state [OF assms(1), of svc]
  have st: "state (opened_again svc n s) = S_Connected" for n using o by blast
  have id: "next_local_id (opened_again svc 4294967294 s) = 0"
    "next_local_id (opened_again svc 4294967295 s) = 1"
    using o [of 4294967294] o [of 4294967295] assms(2) by simp_all
  have "1 \<in> dom (streams (opened_again svc n s))" for n
    using o assms(3) by blast
  then show ?thesis
    using open_stream_connected [OF st, of svc 4294967294] open_stream_connected [OF st, of svc 4294967295]
    by (auto simp: id)
qed

theorem local_ids_wrap_witness:
  "fst (open_stream [] (opened_again [] 4294967295 demo_opening)) = Ok 1"
  using local_ids_wrap [of demo_opening default_stream "[]"]
  by (simp add: demo_opening_eq demo_connected_sel demo_opening_def open_stream_connected)

end
