(* ===== verification/Proto_Sync.thy ===== *)
theory Proto_Sync
  imports Proto_Message
begin

text \<open>
  \<^verbatim>\<open>adb_proto/src/sync.rs\<close>: the frames of the \<open>sync:\<close> file-transfer service and the
  incremental reader of its replies. The reader is the second interpretation of the
  \<open>stream_parser\<close> interface; two reader states are similar when they differ at most in bytes
  that a completed reader will never look at again.
\<close>

section \<open>Requests\<close>

definition MAX_DATA_CHUNK :: nat where
  "MAX_DATA_CHUNK = 64 * 1024"

definition STAT_V2_LEN :: nat where
  "STAT_V2_LEN = 72"

definition DENT_V2_LEN :: nat where
  "DENT_V2_LEN = STAT_V2_LEN + 4"

definition frame :: "string \<Rightarrow> u32 \<Rightarrow> bytes \<Rightarrow> bytes" where
  "frame frame_id arg body = ascii frame_id @ to_le32 arg @ body"

definition len_u32 :: "nat \<Rightarrow> (u32, proto_error) outcome" where
  "len_u32 n = (case try_u32 n of Some w \<Rightarrow> Ok w | None \<Rightarrow> Panic)"

definition send_request :: "bytes \<Rightarrow> u32 \<Rightarrow> (bytes, proto_error) outcome" where
  "send_request remote_path mode =
     (let spec = remote_path @ ascii '','' @ show_nat (unat mode)
      in bind_outcome (len_u32 (length spec)) (\<lambda>n. Ok (frame ''SEND'' n spec)))"

definition path_request :: "string \<Rightarrow> bytes \<Rightarrow> (bytes, proto_error) outcome" where
  "path_request frame_id path = bind_outcome (len_u32 (length path)) (\<lambda>n. Ok (frame frame_id n path))"

definition stat_request :: "bytes \<Rightarrow> (bytes, proto_error) outcome" where
  "stat_request path = path_request ''STAT'' path"

definition list_request :: "bytes \<Rightarrow> (bytes, proto_error) outcome" where
  "list_request path = path_request ''LIST'' path"

definition recv_request :: "bytes \<Rightarrow> (bytes, proto_error) outcome" where
  "recv_request path = path_request ''RECV'' path"

definition stat2_request :: "bytes \<Rightarrow> (bytes, proto_error) outcome" where
  "stat2_request path = path_request ''STA2'' path"

definition list2_request :: "bytes \<Rightarrow> (bytes, proto_error) outcome" where
  "list2_request path = path_request ''LIS2'' path"

text \<open>\<open>slice::chunks(n)\<close> for \<open>n > 0\<close>.\<close>

function chunks :: "nat \<Rightarrow> 'a list \<Rightarrow> 'a list list" where
  "chunks n xs = (if n = 0 \<or> xs = [] then [] else take n xs # chunks n (drop n xs))"
  by pat_completeness auto
termination
  by (relation "measure (\<lambda>(n, xs). length xs)") auto

declare chunks.simps [simp del]

definition data_frame :: "bytes \<Rightarrow> (bytes, proto_error) outcome" where
  "data_frame chunk = bind_outcome (len_u32 (length chunk)) (\<lambda>n. Ok (frame ''DATA'' n chunk))"

fun collect_frames :: "(bytes, proto_error) outcome list \<Rightarrow> (bytes list, proto_error) outcome" where
  "collect_frames [] = Ok []"
| "collect_frames (f # fs) = bind_outcome f (\<lambda>b. bind_outcome (collect_frames fs) (\<lambda>bs. Ok (b # bs)))"

definition data_frames :: "bytes \<Rightarrow> (bytes list, proto_error) outcome" where
  "data_frames bs = collect_frames (map data_frame (chunks MAX_DATA_CHUNK bs))"

definition done_frame :: "u32 \<Rightarrow> bytes" where
  "done_frame mtime = frame ''DONE'' mtime []"

definition quit_frame :: "bytes" where
  "quit_frame = frame ''QUIT'' 0 []"

lemma length_frame [simp]: "length (frame i a b) = length i + 4 + length b"
  by (simp add: frame_def)

lemma chunks_Nil [simp]: "chunks n [] = []"
  by (simp add: chunks.simps)

lemma concat_chunks: "0 < n \<Longrightarrow> concat (chunks n xs) = xs"
  by (induction n xs rule: chunks.induct) (subst chunks.simps, auto)

lemma chunks_sizes: "c \<in> set (chunks n xs) \<Longrightarrow> 0 < length c \<and> length c \<le> n"
proof (induction n xs rule: chunks.induct)
  case (1 n xs)
  then show ?case by (subst (asm) chunks.simps) (auto split: if_splits)
qed

lemma len_u32_small [simp]: "n < 2 ^ 32 \<Longrightarrow> len_u32 n = Ok (word_of_nat n)"
  by (simp add: len_u32_def try_u32_def)

lemma collect_frames_data:
  "\<forall>c\<in>set cs. length c < 2 ^ 32 \<Longrightarrow>
     collect_frames (map data_frame cs) = Ok (map (\<lambda>c. frame ''DATA'' (word_of_nat (length c)) c) cs)"
  by (induction cs) (auto simp: data_frame_def)

lemma data_frames_Ok:
  "data_frames bs = Ok (map (\<lambda>c. frame ''DATA'' (word_of_nat (length c)) c) (chunks MAX_DATA_CHUNK bs))"
  unfolding data_frames_def
  by (rule collect_frames_data) (auto simp: MAX_DATA_CHUNK_def dest: chunks_sizes)

section \<open>The reply reader\<close>

datatype sync_kind = K_Stat | K_List | K_Recv | K_Stat2 | K_List2

datatype sync_event =
    Ev_Stat (ev_mode: u32) (ev_size: u64) (ev_mtime: i64) (ev_error: u32)
  | Ev_Dent (ev_mode: u32) (ev_size: u64) (ev_mtime: i64) (ev_error: u32) (ev_name: bytes)
  | Ev_Data bytes
  | Ev_Done
  | Ev_Fail bytes

record sync_reader =
  r_kind :: sync_kind
  r_bytes :: bytes
  r_complete :: bool

definition reader_new :: "sync_kind \<Rightarrow> sync_reader" where
  "reader_new k = \<lparr>r_kind = k, r_bytes = [], r_complete = False\<rparr>"

definition reader_push :: "sync_reader \<Rightarrow> bytes \<Rightarrow> sync_reader" where
  "reader_push r bs = (if r_complete r then r else r\<lparr>r_bytes := r_bytes r @ bs\<rparr>)"

definition le_word :: "nat \<Rightarrow> bytes \<Rightarrow> u32" where
  "le_word i bs = from_le32 (slice i (i + 4) bs)"

definition protocol_error :: "string \<Rightarrow> proto_error" where
  "protocol_error msg = Protocol (Text (ascii msg))"

definition stat_v2 :: "bytes \<Rightarrow> bytes option \<Rightarrow> sync_event" where
  "stat_v2 bs name =
     (let error = le_word 4 bs;
          mode = le_word 24 bs;
          size = from_le64 (slice 40 48 bs);
          mtime = i64_from_le (slice 56 64 bs)
      in case name of Some n \<Rightarrow> Ev_Dent mode size mtime error n | None \<Rightarrow> Ev_Stat mode size mtime error)"

text \<open>
  The arms of \<open>next_event\<close>, one per reply identifier: the length of the reply, its event and
  whether it ends the exchange. \<open>Ok None\<close> is the early return that waits for more bytes.
\<close>

type_synonym sync_arm = "((nat \<times> sync_event \<times> bool) option, proto_error) outcome"

definition stat_arm :: "bytes \<Rightarrow> sync_arm" where
  "stat_arm bs =
     (if length bs < 16 then Ok None
      else Ok (Some (16, Ev_Stat (le_word 4 bs) (ucast (le_word 8 bs)) (uint (le_word 12 bs)) 0, True)))"

definition stat2_arm :: "bytes \<Rightarrow> sync_arm" where
  "stat2_arm bs =
     (if length bs < STAT_V2_LEN then Ok None else Ok (Some (STAT_V2_LEN, stat_v2 bs None, True)))"

definition dent_arm :: "bytes \<Rightarrow> sync_arm" where
  "dent_arm bs =
     (if length bs < 20 then Ok None
      else let name_len = unat (le_word 16 bs) in
        if 1024 < name_len then Err (protocol_error ''directory entry name exceeds 1024 bytes'')
        else if length bs < 20 + name_len then Ok None
        else Ok (Some (20 + name_len,
               Ev_Dent (le_word 4 bs) (ucast (le_word 8 bs)) (uint (le_word 12 bs)) 0
                 (utf8_lossy (slice 20 (20 + name_len) bs)), False)))"

definition dent2_arm :: "bytes \<Rightarrow> sync_arm" where
  "dent2_arm bs =
     (if length bs < DENT_V2_LEN then Ok None
      else let name_len = unat (le_word STAT_V2_LEN bs) in
        if 1024 < name_len then Err (protocol_error ''directory entry name exceeds 1024 bytes'')
        else if length bs < DENT_V2_LEN + name_len then Ok None
        else Ok (Some (DENT_V2_LEN + name_len,
               stat_v2 bs (Some (utf8_lossy (slice DENT_V2_LEN (DENT_V2_LEN + name_len) bs))), False)))"

definition data_arm :: "bytes \<Rightarrow> sync_arm" where
  "data_arm bs =
     (if length bs < 8 then Ok None
      else let size = unat (le_word 4 bs) in
        if MAX_DATA_CHUNK < size then Err (protocol_error ''DATA exceeds 64 KiB'')
        else if length bs < 8 + size then Ok None
        else Ok (Some (8 + size, Ev_Data (slice 8 (8 + size) bs), False)))"

definition done_arm :: "sync_kind \<Rightarrow> bytes \<Rightarrow> sync_arm" where
  "done_arm kind bs =
     (let len = (case kind of K_List \<Rightarrow> 20 | K_List2 \<Rightarrow> DENT_V2_LEN | _ \<Rightarrow> 8) in
        if length bs < len then Ok None else Ok (Some (len, Ev_Done, True)))"

definition fail_arm :: "bytes \<Rightarrow> sync_arm" where
  "fail_arm bs =
     (if length bs < 8 then Ok None
      else let size = unat (le_word 4 bs) in
        if 4096 < size then Err (protocol_error ''FAIL message exceeds 4096 bytes'')
        else if length bs < 8 + size then Ok None
        else Ok (Some (8 + size, Ev_Fail (utf8_lossy (slice 8 (8 + size) bs)), True)))"

definition sync_reply :: "sync_kind \<Rightarrow> bytes \<Rightarrow> sync_arm" where
  "sync_reply kind bs =
    (let reply_id = take 4 bs in
     if reply_id = ascii ''STAT'' \<and> kind = K_Stat then stat_arm bs
     else if reply_id = ascii ''STA2'' \<and> kind = K_Stat2 then stat2_arm bs
     else if reply_id = ascii ''DENT'' \<and> kind = K_List then dent_arm bs
     else if reply_id = ascii ''DNT2'' \<and> kind = K_List2 then dent2_arm bs
     else if reply_id = ascii ''DATA'' \<and> kind = K_Recv then data_arm bs
     else if reply_id = ascii ''DONE'' \<and> kind \<noteq> K_Stat \<and> kind \<noteq> K_Stat2 then done_arm kind bs
     else if reply_id = ascii ''FAIL'' then fail_arm bs
     else Err (Protocol (Unexpected_Sync_Reply (utf8_lossy reply_id))))"

lemmas arm_defs = stat_arm_def stat2_arm_def dent_arm_def dent2_arm_def data_arm_def done_arm_def
  fail_arm_def DENT_V2_LEN_def STAT_V2_LEN_def

definition next_event :: "sync_reader \<Rightarrow> (sync_event option, proto_error) outcome \<times> sync_reader" where
  "next_event r =
     (if r_complete r \<or> length (r_bytes r) < 4 then (Ok None, r)
      else case sync_reply (r_kind r) (r_bytes r) of
        Ok None \<Rightarrow> (Ok None, r)
      | Ok (Some (len, event, terminal)) \<Rightarrow>
          (Ok (Some event), r\<lparr>r_bytes := drop len (r_bytes r), r_complete := terminal\<rparr>)
      | Err e \<Rightarrow> (Err e, r)
      | Panic \<Rightarrow> (Panic, r))"

text \<open>The reply to an upload's \<open>DONE\<close>: how many bytes it takes, or why the upload failed.\<close>

definition parse_status :: "bytes \<Rightarrow> (nat option, proto_error) outcome" where
  "parse_status bs =
     (if length bs < 8 then Ok None
      else let arg = unat (le_word 4 bs) in
        if take 4 bs = ascii ''OKAY'' then Ok (Some 8)
        else if take 4 bs = ascii ''FAIL'' then
          (if length bs < 8 + arg then Ok None
           else Err (Protocol (Text (ascii ''file transfer failed: '' @ utf8_lossy (slice 8 (8 + arg) bs)))))
        else Err (Protocol (Unexpected_Sync_Reply (utf8_lossy (take 4 bs)))))"

section \<open>One reply\<close>

lemma le_word_append: "i + 4 \<le> length bs \<Longrightarrow> le_word i (bs @ ys) = le_word i bs"
  by (simp add: le_word_def slice_append_left)

lemma stat_v2_append: "STAT_V2_LEN \<le> length bs \<Longrightarrow> stat_v2 (bs @ ys) n = stat_v2 bs n"
  by (simp add: le_word_append stat_v2_def STAT_V2_LEN_def slice_append_left)

text \<open>An arm that has decided does not change its mind when more bytes arrive.\<close>

lemma arm_append:
  "stat_arm bs \<noteq> Ok None \<Longrightarrow> stat_arm (bs @ ys) = stat_arm bs"
  "stat2_arm bs \<noteq> Ok None \<Longrightarrow> stat2_arm (bs @ ys) = stat2_arm bs"
  "dent_arm bs \<noteq> Ok None \<Longrightarrow> dent_arm (bs @ ys) = dent_arm bs"
  "dent2_arm bs \<noteq> Ok None \<Longrightarrow> dent2_arm (bs @ ys) = dent2_arm bs"
  "data_arm bs \<noteq> Ok None \<Longrightarrow> data_arm (bs @ ys) = data_arm bs"
  "done_arm k bs \<noteq> Ok None \<Longrightarrow> done_arm k (bs @ ys) = done_arm k bs"
  "fail_arm bs \<noteq> Ok None \<Longrightarrow> fail_arm (bs @ ys) = fail_arm bs"
  by (simp_all add: arm_defs Let_def le_word_append slice_append_left stat_v2_append
      split: if_splits sync_kind.splits)

lemma arm_consumes:
  "stat_arm bs = Ok (Some (n, ev, t)) \<Longrightarrow> 8 \<le> n \<and> n \<le> length bs"
  "stat2_arm bs = Ok (Some (n, ev, t)) \<Longrightarrow> 8 \<le> n \<and> n \<le> length bs"
  "dent_arm bs = Ok (Some (n, ev, t)) \<Longrightarrow> 8 \<le> n \<and> n \<le> length bs"
  "dent2_arm bs = Ok (Some (n, ev, t)) \<Longrightarrow> 8 \<le> n \<and> n \<le> length bs"
  "data_arm bs = Ok (Some (n, ev, t)) \<Longrightarrow> 8 \<le> n \<and> n \<le> length bs"
  "done_arm k bs = Ok (Some (n, ev, t)) \<Longrightarrow> 8 \<le> n \<and> n \<le> length bs"
  "fail_arm bs = Ok (Some (n, ev, t)) \<Longrightarrow> 8 \<le> n \<and> n \<le> length bs"
  by (auto simp: arm_defs Let_def split: if_splits sync_kind.splits)

lemma arm_not_Panic:
  "stat_arm bs \<noteq> Panic" "stat2_arm bs \<noteq> Panic" "dent_arm bs \<noteq> Panic" "dent2_arm bs \<noteq> Panic"
  "data_arm bs \<noteq> Panic" "done_arm k bs \<noteq> Panic" "fail_arm bs \<noteq> Panic"
  by (simp_all add: arm_defs Let_def)

lemma sync_reply_append:
  assumes "4 \<le> length bs" and "sync_reply k bs \<noteq> Ok None"
  shows "sync_reply k (bs @ ys) = sync_reply k bs"
  using assms arm_append(1-5,7) [of bs ys] arm_append(6) [of k bs ys]
  by (auto simp: sync_reply_def Let_def simp del: ascii_Cons split: if_split_asm)

lemma sync_reply_consumes:
  "sync_reply k bs = Ok (Some (n, ev, t)) \<Longrightarrow> 8 \<le> n \<and> n \<le> length bs"
  by (simp add: sync_reply_def Let_def del: ascii_Cons split: if_split_asm; drule arm_consumes; simp)

lemma sync_reply_not_Panic: "sync_reply k bs \<noteq> Panic"
  by (simp add: sync_reply_def Let_def arm_not_Panic del: ascii_Cons)

section \<open>The reader as a stream parser\<close>

definition reader_sim :: "sync_reader \<Rightarrow> sync_reader \<Rightarrow> bool" where
  "reader_sim r s \<longleftrightarrow> r_kind r = r_kind s \<and> r_complete r = r_complete s
     \<and> (\<not> r_complete r \<longrightarrow> r_bytes r = r_bytes s)"

definition reader_weight :: "sync_reader \<Rightarrow> nat" where
  "reader_weight r = (if r_complete r then 0 else Suc (length (r_bytes r)))"

lemma next_event_waits: "next_event r = (Ok None, r') \<Longrightarrow> r' = r"
  by (auto simp: next_event_def split: if_splits outcome.splits option.splits)

lemma next_event_complete: "r_complete r \<Longrightarrow> next_event r = (Ok None, r) \<and> reader_push r bs = r"
  by (simp add: next_event_def reader_push_def)

lemma next_event_push:
  assumes "next_event r = (res, r')" and "res \<noteq> Ok None"
  shows "fst (next_event (reader_push r bs)) = res
    \<and> reader_sim (snd (next_event (reader_push r bs))) (reader_push r' bs)"
proof -
  from assms have nc: "\<not> r_complete r" and len: "4 \<le> length (r_bytes r)"
    and rep: "sync_reply (r_kind r) (r_bytes r) \<noteq> Ok None"
    by (auto simp: next_event_def split: if_splits)
  note app = sync_reply_append [OF len rep, of bs]
  from assms nc len app show ?thesis
    by (auto simp: next_event_def reader_push_def reader_sim_def dest: sync_reply_consumes
        split: outcome.splits option.splits)
qed

interpretation sync: stream_parser reader_push next_event reader_weight reader_sim
proof (unfold_locales, goal_cases)
  case (4 d e)
  then show ?case
    by (auto simp: reader_sim_def next_event_def split: outcome.splits option.splits)
next
  case (6 d r d' b)
  then show ?case by (rule next_event_push)
next
  case (7 d d' b)
  then show ?case by (auto simp: reader_sim_def dest: next_event_waits)
next
  case (8 d ev d')
  then show ?case
    by (auto simp: next_event_def reader_weight_def dest!: sync_reply_consumes
        split: if_splits outcome.splits option.splits prod.splits)
qed (auto simp: reader_sim_def reader_push_def)

section \<open>Replies as the device sends them\<close>

lemma frame_sel [simp]:
  assumes "length i = 4"
  shows "take 4 (frame i n body) = ascii i"
    and "le_word 4 (frame i n body @ rest) = n"
    and "slice 8 (8 + length body) (frame i n body @ rest) = body"
  using assms by (simp_all add: frame_def le_word_def slice_append_left slice_append_right slice_full)

text \<open>
  A sequence of replies that each decode to one event, followed by a terminal one, is drained to
  exactly these events.
\<close>

lemma next_event_reply:
  assumes "sync_reply k (enc @ rest) = Ok (Some (length enc, ev, t))" and "4 \<le> length enc"
  shows "next_event \<lparr>r_kind = k, r_bytes = enc @ rest, r_complete = False\<rparr>
    = (Ok (Some ev), \<lparr>r_kind = k, r_bytes = rest, r_complete = t\<rparr>)"
  using assms by (simp add: next_event_def)

lemma drains_replies:
  assumes "\<And>x rest. x \<in> set xs \<Longrightarrow> sync_reply k (enc x @ rest) = Ok (Some (length (enc x), ev x, False))"
    and "\<And>x. x \<in> set xs \<Longrightarrow> 4 \<le> length (enc x)"
    and "sync_reply k last_reply = Ok (Some (length last_reply, last_ev, True))" and "4 \<le> length last_reply"
  shows "drains next_event \<lparr>r_kind = k, r_bytes = concat (map enc xs) @ last_reply, r_complete = False\<rparr>
    (map ev xs @ [last_ev]) (Ok None) \<lparr>r_kind = k, r_bytes = [], r_complete = True\<rparr>"
  using assms
proof (induction xs)
  case Nil
  then show ?case
    using next_event_reply [of k last_reply "[]" last_ev True]
      next_event_complete [of "\<lparr>r_kind = k, r_bytes = [], r_complete = True\<rparr>"]
    by (auto intro!: drains.item drains.stop)
next
  case (Cons x xs)
  then show ?case
    using next_event_reply [of k "enc x" "concat (map enc xs) @ last_reply" "ev x" False]
    by (auto intro: drains.item)
qed

lemma feeds_replies:
  assumes "\<And>x rest. x \<in> set xs \<Longrightarrow> sync_reply k (enc x @ rest) = Ok (Some (length (enc x), ev x, False))"
    and "\<And>x. x \<in> set xs \<Longrightarrow> 4 \<le> length (enc x)"
    and "sync_reply k last_reply = Ok (Some (length last_reply, last_ev, True))" and "4 \<le> length last_reply"
    and "cs \<noteq> []" and "concat cs = concat (map enc xs) @ last_reply"
  shows "\<exists>r'. feeds reader_push next_event (reader_new k) cs (map ev xs @ [last_ev]) (Ok None) r'"
proof -
  obtain evs r r' where f: "feeds reader_push next_event (reader_new k) cs evs r r'"
    using sync.feeds_total [OF assms(5)] by blast
  then obtain r'' where "drains next_event (reader_push (reader_new k) (concat cs)) evs r r''"
    using sync.feeds_concat by blast
  moreover have "reader_push (reader_new k) (concat cs)
      = \<lparr>r_kind = k, r_bytes = concat (map enc xs) @ last_reply, r_complete = False\<rparr>"
    by (simp add: reader_push_def reader_new_def assms(6))
  ultimately have d: "drains next_event \<lparr>r_kind = k, r_bytes = concat (map enc xs) @ last_reply,
      r_complete = False\<rparr> evs r r''" by simp
  have "evs = map ev xs @ [last_ev] \<and> r = Ok None"
    using drains_deterministic [OF d drains_replies [OF assms(1-4)]] by simp
  with f show ?thesis by blast
qed

lemma sync_reply_data:
  assumes "length c \<le> MAX_DATA_CHUNK"
  shows "sync_reply K_Recv (frame ''DATA'' (word_of_nat (length c)) c @ rest)
    = Ok (Some (8 + length c, Ev_Data c, False))"
proof -
  have "unat (word_of_nat (length c) :: u32) = length c"
    using assms by (intro u32_of_nat_roundtrip) (simp add: MAX_DATA_CHUNK_def)
  with assms show ?thesis by (simp add: sync_reply_def Let_def data_arm_def del: ascii_Cons)
qed

lemma sync_reply_done: "sync_reply K_Recv (done_frame m) = Ok (Some (8, Ev_Done, True))"
  using frame_sel(1) [of "''DONE''" m "[]"]
  by (simp add: done_frame_def sync_reply_def done_arm_def Let_def del: ascii_Cons)

text \<open>AOSP's \<open>sync_dent_v2\<close>: the fixed part of 76 bytes, then the name.\<close>

record dent_v2 =
  e_error :: u32
  e_dev :: u64
  e_ino :: u64
  e_mode :: u32
  e_nlink :: u32
  e_uid :: u32
  e_gid :: u32
  e_size :: u64
  e_atime :: u64
  e_mtime :: u64
  e_ctime :: u64
  e_name :: bytes

definition dent_v2_bytes :: "dent_v2 \<Rightarrow> bytes" where
  "dent_v2_bytes e = ascii ''DNT2'' @ to_le32 (e_error e) @ to_le64 (e_dev e) @ to_le64 (e_ino e)
     @ to_le32 (e_mode e) @ to_le32 (e_nlink e) @ to_le32 (e_uid e) @ to_le32 (e_gid e)
     @ to_le64 (e_size e) @ to_le64 (e_atime e) @ to_le64 (e_mtime e) @ to_le64 (e_ctime e)
     @ to_le32 (word_of_nat (length (e_name e))) @ e_name e"

lemma length_dent_v2_bytes [simp]: "length (dent_v2_bytes e) = 76 + length (e_name e)"
  by (simp add: dent_v2_bytes_def)

lemma dent_v2_fields:
  "take 4 (dent_v2_bytes e) = ascii ''DNT2''"
  "le_word 4 (dent_v2_bytes e @ rest) = e_error e"
  "le_word 24 (dent_v2_bytes e @ rest) = e_mode e"
  "slice 40 48 (dent_v2_bytes e @ rest) = to_le64 (e_size e)"
  "slice 56 64 (dent_v2_bytes e @ rest) = to_le64 (e_mtime e)"
  "le_word 72 (dent_v2_bytes e @ rest) = word_of_nat (length (e_name e))"
  "slice 76 (76 + length (e_name e)) (dent_v2_bytes e @ rest) = e_name e"
  by (simp_all add: dent_v2_bytes_def le_word_def slice_append_left slice_append_right slice_full
      del: ascii_Cons)

lemma sync_reply_dent_v2:
  assumes "length (e_name e) \<le> 1024"
  shows "sync_reply K_List2 (dent_v2_bytes e @ rest) = Ok (Some (76 + length (e_name e),
     Ev_Dent (e_mode e) (e_size e) (sint (e_mtime e)) (e_error e) (utf8_lossy (e_name e)), False))"
proof -
  have "unat (word_of_nat (length (e_name e)) :: u32) = length (e_name e)"
    using assms by (intro u32_of_nat_roundtrip) simp
  with assms show ?thesis
    by (simp add: sync_reply_def Let_def dent2_arm_def STAT_V2_LEN_def DENT_V2_LEN_def stat_v2_def
        dent_v2_fields i64_from_le_def del: ascii_Cons)
qed

text \<open>The end of a v2 listing is a whole zeroed entry that carries \<open>DONE\<close>.\<close>

definition done_v2_bytes :: bytes where
  "done_v2_bytes = ascii ''DONE'' @ replicate 72 0"

lemma sync_reply_done_v2:
  "sync_reply K_List2 done_v2_bytes = Ok (Some (length done_v2_bytes, Ev_Done, True))"
  by (simp add: done_v2_bytes_def sync_reply_def done_arm_def Let_def DENT_V2_LEN_def STAT_V2_LEN_def
      del: ascii_Cons)

lemma digit_char_not_comma: "d < 36 \<Longrightarrow> digit_char d \<noteq> 44"
  using unat_digit_char [of d] by (auto split: if_splits)

lemma show_radix_no_comma: "2 \<le> r \<Longrightarrow> r \<le> 36 \<Longrightarrow> 44 \<notin> set (show_radix r n)"
proof (induction r n rule: show_radix.induct)
  case (1 r n)
  then have "n mod r < r" "r \<le> 36" by simp_all
  then have "n mod r < 36" by (rule less_le_trans)
  with 1 show ?case
    by (subst show_radix.simps) (auto simp: digit_char_not_comma [THEN not_sym])
qed

lemma comma_split_unique:
  assumes "a @ c # x = b @ c # y" and "c \<notin> set x" and "c \<notin> set y"
  shows "a = b \<and> x = y"
proof -
  have t: "takeWhile (\<lambda>z. z \<noteq> c) (rev (u @ c # v)) = rev v" if "c \<notin> set v" for u v
    using that by (simp add: takeWhile_tail takeWhile_eq_all_conv) blast
  from t [OF assms(2), of a] t [OF assms(3), of b] assms(1) have "x = y" by simp
  with assms(1) show ?thesis by simp
qed

lemma show_nat_inject: "show_nat m = show_nat n \<Longrightarrow> m = n"
  using parse_show_radix [of 10 m "Suc (max m n)"] parse_show_radix [of 10 n "Suc (max m n)"]
  by (simp add: max_def split: if_splits)

section \<open>Properties\<close>

text \<open>
  C6: a file survives a transfer. The \<open>DATA\<close> frames the crate builds for a file, followed by
  \<open>DONE\<close> and cut into fragments at arbitrary places, are read back by the crate's own reader as
  \<open>DATA\<close> events whose payloads concatenate to the file, each at most 64 KiB, and one final
  \<open>DONE\<close>.
\<close>

theorem transfer_roundtrip:
  assumes "data_frames file = Ok fs" and "cs \<noteq> []" and "concat cs = concat fs @ done_frame mtime"
  shows "\<exists>ds r'. feeds reader_push next_event (reader_new K_Recv) cs (map Ev_Data ds @ [Ev_Done]) (Ok None) r'
     \<and> concat ds = file \<and> (\<forall>d\<in>set ds. length d \<le> MAX_DATA_CHUNK)"
proof -
  let ?ds = "chunks MAX_DATA_CHUNK file" and ?enc = "\<lambda>c. frame ''DATA'' (word_of_nat (length c)) c"
  have small: "length c \<le> MAX_DATA_CHUNK" if "c \<in> set ?ds" for c
    using that by (simp add: chunks_sizes)
  have "fs = map ?enc ?ds" using assms(1) by (simp add: data_frames_Ok)
  then have "concat cs = concat (map ?enc ?ds) @ done_frame mtime" using assms(3) by simp
  moreover have "length (done_frame mtime) = 8" by (simp add: done_frame_def)
  ultimately have "\<exists>r'. feeds reader_push next_event (reader_new K_Recv) cs (map Ev_Data ?ds @ [Ev_Done]) (Ok None) r'"
    using assms(2) small
    by (intro feeds_replies [where enc = ?enc and last_reply = "done_frame mtime"])
      (simp_all add: sync_reply_data sync_reply_done)
  moreover have "concat ?ds = file" by (simp add: concat_chunks MAX_DATA_CHUNK_def)
  ultimately show ?thesis using small by blast
qed

theorem transfer_roundtrip_witness:
  "\<exists>ds r'. feeds reader_push next_event (reader_new K_Recv)
        [take 3 (frame ''DATA'' 2 [1, 2]), drop 3 (frame ''DATA'' 2 [1, 2]) @ done_frame 5]
        (map Ev_Data ds @ [Ev_Done]) (Ok None) r'
     \<and> concat ds = [1, 2] \<and> (\<forall>d\<in>set ds. length d \<le> MAX_DATA_CHUNK)"
proof -
  have "chunks MAX_DATA_CHUNK [1 :: u8, 2] = [[1, 2]]"
    by (simp add: MAX_DATA_CHUNK_def chunks.simps)
  then have "data_frames [1, 2] = Ok [frame ''DATA'' 2 [1, 2]]"
    by (simp add: data_frames_Ok)
  then show ?thesis by (rule transfer_roundtrip [where mtime = 5]) simp_all
qed

text \<open>
  A v2 directory listing is read back exactly. The entries an AOSP device sends, with 64-bit
  sizes and modification times and with per-entry errors, followed by its long \<open>DONE\<close> record and
  fragmented arbitrarily, are delivered in order with every field intact.
\<close>

theorem listing_v2_roundtrip:
  assumes "\<forall>e\<in>set es. length (e_name e) \<le> 1024 \<and> utf8_valid (e_name e)"
    and "cs \<noteq> []" and "concat cs = concat (map dent_v2_bytes es) @ done_v2_bytes"
  shows "\<exists>r'. feeds reader_push next_event (reader_new K_List2) cs
     (map (\<lambda>e. Ev_Dent (e_mode e) (e_size e) (sint (e_mtime e)) (e_error e) (e_name e)) es @ [Ev_Done])
     (Ok None) r'"
  using assms
  by (intro feeds_replies [where enc = dent_v2_bytes and last_reply = done_v2_bytes])
    (simp_all add: sync_reply_dent_v2 sync_reply_done_v2 utf8_lossy_valid, simp add: done_v2_bytes_def)

definition sample_dent :: dent_v2 where
  "sample_dent = \<lparr>e_error = 13, e_dev = 1, e_ino = 2, e_mode = 0x81A4, e_nlink = 1, e_uid = 0, e_gid = 0,
     e_size = 6442450944, e_atime = 7, e_mtime = 0xFFFFFFFFFFFFFFFF, e_ctime = 9, e_name = ascii ''a.b''\<rparr>"

theorem listing_v2_roundtrip_witness:
  "\<exists>r'. feeds reader_push next_event (reader_new K_List2) [dent_v2_bytes sample_dent, done_v2_bytes]
     [Ev_Dent 0x81A4 6442450944 (-1) 13 (ascii ''a.b''), Ev_Done] (Ok None) r'"
proof -
  have v: "utf8_valid [97, 46, 98]" by (rule utf8_valid_ascii) simp
  show ?thesis
    using listing_v2_roundtrip [of "[sample_dent]" "[dent_v2_bytes sample_dent, done_v2_bytes]"] v
    by (simp add: sample_dent_def del: utf8_valid.simps)
qed

text \<open>
  One poll of the reader never panics, delivers at most 64 KiB of data at a time, and consumes
  exactly the reply it delivered: at least eight bytes, taken from the front of the buffer.
\<close>

theorem reader_poll_bounds:
  "fst (next_event r) \<noteq> Panic
   \<and> (case next_event r of
        (Ok (Some ev), r') \<Rightarrow>
          (\<exists>n. 8 \<le> n \<and> n \<le> length (r_bytes r) \<and> r_bytes r' = drop n (r_bytes r))
          \<and> (\<forall>d. ev = Ev_Data d \<longrightarrow> length d \<le> MAX_DATA_CHUNK)
      | (_, r') \<Rightarrow> r' = r)"
proof -
  have "length d \<le> MAX_DATA_CHUNK" if "sync_reply k bs = Ok (Some (n, Ev_Data d, t))" for k bs n d t
    using that
    by (auto simp: sync_reply_def Let_def arm_defs stat_v2_def simp del: ascii_Cons
        split: if_split_asm sync_kind.splits)
  then show ?thesis
    using sync_reply_not_Panic [of "r_kind r" "r_bytes r"]
    by (auto simp: next_event_def dest: sync_reply_consumes split: outcome.splits option.splits)
qed

theorem reader_poll_bounds_witness:
  "fst (next_event (reader_push (reader_new K_Recv) (ascii ''DATA'' @ [1, 0, 0, 0, 9]))) \<noteq> Panic"
  using reader_poll_bounds [of "reader_push (reader_new K_Recv) (ascii ''DATA'' @ [1, 0, 0, 0, 9])"] by blast

text \<open>
  A reader that has delivered a terminal event (\<open>STAT\<close>, \<open>DONE\<close> or \<open>FAIL\<close>) is finished:
  whatever is pushed afterwards, it delivers nothing more and reports no error.
\<close>

theorem reader_finishes:
  assumes "next_event r = (Ok (Some ev), r')"
    and "ev = Ev_Done \<or> (\<exists>m. ev = Ev_Fail m) \<or> (\<exists>m s t e. ev = Ev_Stat m s t e)"
  shows "next_event (reader_push r' bs) = (Ok None, r')"
proof -
  have "t" if "sync_reply k b = Ok (Some (n, ev, t))" for k b n t
    using that assms(2)
    by (auto simp: sync_reply_def Let_def arm_defs stat_v2_def simp del: ascii_Cons
        split: if_split_asm sync_kind.splits)
  with assms(1) have "r_complete r'"
    by (auto simp: next_event_def split: if_split_asm outcome.splits option.splits prod.splits)
  then show ?thesis by (simp add: next_event_complete)
qed

theorem reader_finishes_witness:
  "next_event (reader_push \<lparr>r_kind = K_Recv, r_bytes = [], r_complete = True\<rparr> [1, 2, 3])
     = (Ok None, \<lparr>r_kind = K_Recv, r_bytes = [], r_complete = True\<rparr>)"
proof -
  have "next_event \<lparr>r_kind = K_Recv, r_bytes = done_frame 0, r_complete = False\<rparr>
    = (Ok (Some Ev_Done), \<lparr>r_kind = K_Recv, r_bytes = [], r_complete = True\<rparr>)"
    using next_event_reply [of K_Recv "done_frame 0" "[]" Ev_Done True] sync_reply_done [of 0]
    by (simp add: done_frame_def)
  from reader_finishes [OF this] show ?thesis by simp
qed

text \<open>
  An upload request names its file unambiguously: two requests that encode to the same bytes
  have the same remote path and the same mode, even when the path itself contains commas.
\<close>

theorem send_request_injective:
  assumes "send_request p m = Ok bs" and "send_request q n = Ok bs"
  shows "p = q \<and> m = n"
proof -
  have drop8: "drop 8 (frame ''SEND'' k body) = body" for k body
    by (simp add: frame_def)
  from assms have "p @ 44 # show_nat (unat m) = q @ 44 # show_nat (unat n)"
    using drop8 by (auto simp: send_request_def Let_def) metis
  from comma_split_unique [OF this] show_radix_no_comma
  have "p = q" and "show_nat (unat m) = show_nat (unat n)" by auto
  with show_nat_inject show ?thesis by (auto simp: word_unat_eq_iff)
qed

theorem send_request_injective_witness:
  "\<exists>bs. send_request (ascii ''/a,b'') 33188 = Ok bs \<and> ascii ''/a,b'' = ascii ''/a,b'' \<and> (33188 :: u32) = 33188"
proof -
  obtain bs where "send_request (ascii ''/a,b'') 33188 = Ok bs"
    by (simp add: send_request_def Let_def show_radix.simps)
  with send_request_injective [OF this this] show ?thesis by blast
qed

text \<open>
  The verdict on an upload is stable: once \<open>parse_status\<close> has decided on a prefix of the
  reply, more bytes never change the decision, and a success never consumes more than it was given.
\<close>

theorem parse_status_stable:
  assumes "parse_status bs \<noteq> Ok None"
  shows "parse_status (bs @ ys) = parse_status bs \<and> (\<forall>n. parse_status bs = Ok (Some n) \<longrightarrow> n \<le> length bs)"
  using assms
  by (auto simp: parse_status_def Let_def le_word_append slice_append_left simp del: ascii_Cons
      split: if_split_asm)

theorem parse_status_stable_witness:
  "parse_status (frame ''OKAY'' 0 [] @ [1, 2, 3]) = parse_status (frame ''OKAY'' 0 [])"
proof -
  have "parse_status (frame ''OKAY'' 0 []) \<noteq> Ok None"
    using frame_sel(1) [of "''OKAY''" 0 "[]"]
    by (simp add: parse_status_def Let_def del: ascii_Cons)
  from parse_status_stable [OF this] show ?thesis by blast
qed

text \<open>
  The comment on \<open>parse_status\<close> asks for \<open>OKAY\<close> \<^emph>\<open>with a zero argument\<close>; the code accepts any
  argument. It also has no bound on the length a \<open>FAIL\<close> reply announces, where the reader has one.
\<close>

lemma parse_status_okay_any_argument: "parse_status (frame ''OKAY'' n [] @ rest) = Ok (Some 8)"
  using frame_sel(1) [of "''OKAY''" n "[]"]
  by (simp add: parse_status_def Let_def del: ascii_Cons)

lemma parse_status_fail_unbounded:
  "8 \<le> length (frame ''FAIL'' n body) \<Longrightarrow> length body < unat n \<Longrightarrow> parse_status (frame ''FAIL'' n body) = Ok None"
  using frame_sel(1) [of "''FAIL''" n body] frame_sel(2) [of "''FAIL''" n body "[]"]
  by (simp add: parse_status_def Let_def del: ascii_Cons)

end
