(* ===== verification/Rust_IO.thy ===== *)
theory Rust_IO
  imports Rust_Text
begin

text \<open>
  What the blocking code of \<open>adb_client\<close> is written against: the crate's error type
  (\<^verbatim>\<open>adb_client/src/error.rs\<close>), fallible operations on a state, and the part of \<open>std::io\<close>
  it uses. A \<open>Read\<close> is a function that yields at most the requested number of bytes; the
  \<open>byte_reader\<close> interface states its contract, and \<open>read_exact\<close> is \<open>std\<close>'s loop over any such
  reader. The peer is a script of read results, so a theorem about every script is a theorem about
  every peer, every fragmentation and every failure.
\<close>

section \<open>Errors\<close>

datatype io_kind =
  TimedOut | WouldBlock | Interrupted | UnexpectedEof | InvalidData | NotFound | AlreadyExists
  | NotConnected | ConnectionReset | OtherKind

text \<open>
  The constructors of \<open>RustADBError\<close>. Those that wrap an error of a library carry no payload, and
  \<open>io_text\<close> is what an I/O error says: nothing (an error of the operating system), a message, or
  the text of another error of the crate.
\<close>

datatype rust_error =
    IOError io_kind io_text
  | ADBShellV2ParseError bytes
  | ADBRequestFailed bytes
  | UnknownResponseType bytes
  | WrongResponseReceived bytes bytes
  | UnknownDeviceState bytes
  | Utf8StrError
  | Utf8FromBytesError
  | AddrParseError
  | RegexError
  | RegexParsingError
  | ParseIntError
  | ConversionError
  | IntegerConversionError
  | ADBShellNotSupported
  | DeviceNotFound bytes
  | ADBDeviceNotPaired
  | RemountError bytes
  | FramebufferImageError
  | FramebufferConversionError
  | UnimplementedFramebufferImageVersion u32
  | NoHomeDirectory
  | UsbError
  | DeviceBusy
  | USBDeviceNotFound u16 u16
  | USBNoDescriptorFound
  | InvalidIntegrity u32 u32
  | Base64DecodeError
  | Base64EncodeError
  | RSAError
  | TryFromSliceError
  | WrongFileExtension bytes
  | RsaPkcs8Error
  | CertificateGenerationError
  | TLSError
  | PemCertError
  | PoisonError
  | UpgradeError bytes
  | MDNSError
  | SendError
  | UnknownTransport bytes
  | UnknownFileMode u32
  | ParseDateError
  | StatResponseError bytes
and io_text = Os_Error | Message bytes | Wrapping rust_error

text \<open>
  The \<open>Display\<close> of an error. The wording of the operating system and of the libraries is left out,
  so that their errors display as the empty text.
\<close>

primrec error_text :: "rust_error \<Rightarrow> bytes"
  and io_text_display :: "io_text \<Rightarrow> bytes" where
  "error_text (IOError k t) = io_text_display t"
| "error_text (ADBShellV2ParseError m) = ascii ''ADB shell v2 parsing error: '' @ m"
| "error_text (ADBRequestFailed m) = ascii ''ADB request failed - '' @ m"
| "error_text (UnknownResponseType m) = ascii ''Unknown response type '' @ m"
| "error_text (WrongResponseReceived a b) = ascii ''wrong response: received '' @ b @ ascii '', expected '' @ a"
| "error_text (UnknownDeviceState m) = ascii ''Unknown device state '' @ m"
| "error_text RegexParsingError = ascii ''Regex parsing error: missing field''"
| "error_text ConversionError = ascii ''Conversion error''"
| "error_text ADBShellNotSupported = ascii ''Remote ADB server does not support shell feature''"
| "error_text (DeviceNotFound m) = ascii ''Device not found: '' @ m"
| "error_text ADBDeviceNotPaired = ascii ''Device not paired before attempting to connect''"
| "error_text (RemountError m) = ascii ''Cannot remount filesystem: '' @ m"
| "error_text FramebufferConversionError = ascii ''Cannot convert framebuffer into image''"
| "error_text (UnimplementedFramebufferImageVersion v) =
     ascii ''Unimplemented framebuffer image version: '' @ show_nat (unat v)"
| "error_text NoHomeDirectory = ascii ''Cannot get home directory''"
| "error_text UsbError = ascii ''USB Error: ''"
| "error_text DeviceBusy = ascii ''Device is busy. Is ADB server running?''"
| "error_text (USBDeviceNotFound v p) =
     ascii ''USB Device not found: '' @ show_nat (unat v) @ ascii '' '' @ show_nat (unat p)"
| "error_text USBNoDescriptorFound = ascii ''No USB descriptor found''"
| "error_text (InvalidIntegrity e g) =
     ascii ''Invalid integrity. Expected CRC32 '' @ show_nat (unat e) @ ascii '', got '' @ show_nat (unat g)"
| "error_text (WrongFileExtension m) = ascii ''wrong file extension: '' @ m"
| "error_text RsaPkcs8Error = ascii ''error with pkcs8: ''"
| "error_text PoisonError = ascii ''mutex was poisoned''"
| "error_text (UpgradeError m) = ascii ''upgrade error: '' @ m"
| "error_text SendError = ascii ''error sending data to channel''"
| "error_text (UnknownTransport m) = ascii ''unknown transport: '' @ m"
| "error_text (UnknownFileMode v) = ascii ''Unknown file mode '' @ show_nat (unat v)"
| "error_text (StatResponseError m) = ascii ''stat response error: '' @ m"
| "error_text Utf8StrError = []"
| "error_text Utf8FromBytesError = []"
| "error_text AddrParseError = []"
| "error_text RegexError = []"
| "error_text ParseIntError = []"
| "error_text IntegerConversionError = []"
| "error_text FramebufferImageError = []"
| "error_text Base64DecodeError = []"
| "error_text Base64EncodeError = []"
| "error_text RSAError = []"
| "error_text TryFromSliceError = []"
| "error_text CertificateGenerationError = []"
| "error_text TLSError = []"
| "error_text PemCertError = []"
| "error_text MDNSError = []"
| "error_text ParseDateError = []"
| "io_text_display Os_Error = []"
| "io_text_display (Message m) = m"
| "io_text_display (Wrapping e) = error_text e"

type_synonym 'a result = "('a, rust_error) outcome"

definition request_failed :: "string \<Rightarrow> rust_error" where
  "request_failed msg = ADBRequestFailed (ascii msg)"

definition u32_try_from :: "nat \<Rightarrow> u32 result" where
  "u32_try_from n = ok_or IntegerConversionError (try_u32 n)"

lemma u32_try_from_small [simp]: "n < 2 ^ 32 \<Longrightarrow> u32_try_from n = Ok (word_of_nat n)"
  by (simp add: u32_try_from_def)

lemma ok_or_not_Panic [simp]: "ok_or e m \<noteq> Panic"
  by (cases m) simp_all

lemma u32_try_from_not_Panic [simp]: "u32_try_from n \<noteq> Panic"
  unfolding u32_try_from_def by (rule ok_or_not_Panic)

section \<open>Fallible operations on a state\<close>

type_synonym ('s, 'a) io = "'s \<Rightarrow> 'a result \<times> 's"

definition bind_io :: "('s, 'a) io \<Rightarrow> ('a \<Rightarrow> ('s, 'b) io) \<Rightarrow> ('s, 'b) io" where
  "bind_io m f = (\<lambda>s. case m s of
      (Ok a, s') \<Rightarrow> f a s'
    | (Err e, s') \<Rightarrow> (Err e, s')
    | (Panic, s') \<Rightarrow> (Panic, s'))"

definition lift :: "'a result \<Rightarrow> ('s, 'a) io" where
  "lift r = (\<lambda>s. (r, s))"

definition seq_io :: "('s, 'a) io \<Rightarrow> ('s, 'b) io \<Rightarrow> ('s, 'b) io" where
  "seq_io m k = bind_io m (\<lambda>_. k)"

text \<open>\<open>let _ = op;\<close> runs an operation and drops its result.\<close>

definition ignore :: "('s, 'a) io \<Rightarrow> ('s, unit) io" where
  "ignore m = (\<lambda>s. case m s of (Panic, s') \<Rightarrow> (Panic, s') | (_, s') \<Rightarrow> (Ok (), s'))"

lemma bind_io_Ok: "m s = (Ok a, s') \<Longrightarrow> bind_io m f s = f a s'"
  by (simp add: bind_io_def)

lemma bind_io_Err: "m s = (Err e, s') \<Longrightarrow> bind_io m f s = (Err e, s')"
  by (simp add: bind_io_def)

lemma lift_apply [simp]: "lift r s = (r, s)"
  by (simp add: lift_def)

lemma bind_lift_Ok [simp]: "bind_io (lift (Ok a)) f = f a"
  by (simp add: bind_io_def lift_def)

lemma bind_lift_Err [simp]: "bind_io (lift (Err e)) f = lift (Err e)"
  by (simp add: bind_io_def lift_def)

lemma bind_io_OkD:
  assumes "bind_io m f s = (Ok b, s')"
  obtains a s1 where "m s = (Ok a, s1)" "f a s1 = (Ok b, s')"
  using assms by (auto simp: bind_io_def split: prod.splits outcome.splits)

lemma seq_io_OkD:
  assumes "seq_io m k s = (Ok b, s')"
  obtains a s1 where "m s = (Ok a, s1)" "k s1 = (Ok b, s')"
  using assms unfolding seq_io_def by (rule bind_io_OkD)

lemma seq_io_Ok: "m s = (Ok a, s') \<Longrightarrow> seq_io m k s = k s'"
  by (simp add: seq_io_def bind_io_Ok)

lemma bind_io_cong [fundef_cong]:
  "s = s' \<Longrightarrow> m s' = m' s' \<Longrightarrow> (\<And>a s1. m' s' = (Ok a, s1) \<Longrightarrow> f a s1 = f' a s1)
    \<Longrightarrow> bind_io m f s = bind_io m' f' s'"
  by (auto simp: bind_io_def split: prod.splits outcome.splits)

lemma seq_io_cong [fundef_cong]:
  "s = s' \<Longrightarrow> m s' = m' s' \<Longrightarrow> (\<And>a s1. m' s' = (Ok a, s1) \<Longrightarrow> k s1 = k' s1)
    \<Longrightarrow> seq_io m k s = seq_io m' k' s'"
  unfolding seq_io_def by (rule bind_io_cong)

section \<open>Readers\<close>

text \<open>
  \<open>read_exact\<close> of \<^verbatim>\<open>std\<close>: it reads until the buffer is full, retries an interrupted read and
  fails when the reader is at its end. A reader may be interrupted for ever, so the loop is a partial
  function; \<open>None\<close> is a loop that does not end.
\<close>

type_synonym 's reader = "nat \<Rightarrow> ('s, bytes) io"

partial_function (option) read_exact :: "'s reader \<Rightarrow> nat \<Rightarrow> 's \<Rightarrow> (bytes result \<times> 's) option" where
  "read_exact rd n s =
     (if n = 0 then Some (Ok [], s)
      else case rd n s of
        (Ok bs, s') \<Rightarrow>
          if bs = [] then Some (Err (IOError UnexpectedEof (Message (ascii ''failed to fill whole buffer''))), s')
          else Option.bind (read_exact rd (n - length bs) s')
                 (\<lambda>(r, s2). Some (case r of Ok more \<Rightarrow> Ok (bs @ more) | Err e \<Rightarrow> Err e | Panic \<Rightarrow> Panic, s2))
      | (Err e, s') \<Rightarrow>
          if (case e of IOError Interrupted _ \<Rightarrow> True | _ \<Rightarrow> False) then read_exact rd n s' else Some (Err e, s')
      | (Panic, s') \<Rightarrow> Some (Panic, s'))"

text \<open>
  The contract of a reader whose remaining content is \<open>content s\<close>: a read yields the next bytes of
  the content, at most as many as were asked for, at least one while there are any, and none once
  there are none left.
\<close>

locale byte_reader =
  fixes rd :: "'s reader"
    and content :: "'s \<Rightarrow> bytes"
    and good :: "'s \<Rightarrow> bool"
  assumes rd_ok: "good s \<Longrightarrow> 0 < n \<Longrightarrow> content s \<noteq> [] \<Longrightarrow>
      \<exists>bs s'. rd n s = (Ok bs, s') \<and> bs \<noteq> [] \<and> length bs \<le> n \<and> content s = bs @ content s' \<and> good s'"
begin

lemma read_exact_content:
  assumes "good s" and "content s = xs @ rest"
  shows "\<exists>s'. read_exact rd (length xs) s = Some (Ok xs, s') \<and> content s' = rest \<and> good s'"
  using assms
proof (induction "length xs" arbitrary: xs s rule: less_induct)
  case less
  show ?case
  proof (cases "xs = []")
    case True
    with less.prems show ?thesis by (simp add: read_exact.simps)
  next
    case False
    with less.prems rd_ok [of s "length xs"] obtain bs s1
      where rd: "rd (length xs) s = (Ok bs, s1)" "bs \<noteq> []" "length bs \<le> length xs"
        "content s = bs @ content s1" "good s1" by auto
    define ys where "ys = drop (length bs) xs"
    from rd(4) less.prems(2) rd(3) have xs: "xs = bs @ ys"
      unfolding ys_def by (metis append_eq_append_conv_if append_take_drop_id)
    with rd(4) less.prems(2) have c: "content s1 = ys @ rest" by simp
    from xs rd(2) have "length ys < length xs" by simp
    from less.hyps [OF this rd(5) c] obtain s'
      where "read_exact rd (length ys) s1 = Some (Ok ys, s')" "content s' = rest" "good s'" by blast
    moreover have "length xs - length bs = length ys" using xs by simp
    ultimately show ?thesis
      using rd(1,2) xs False by (subst read_exact.simps) simp
  qed
qed

end

text \<open>
  A reader that also says when it is at its end: a read then yields nothing, or fails for good, and the
  reader stays at its end.
\<close>

definition ends :: "bytes result \<Rightarrow> bool" where
  "ends r \<longleftrightarrow> r = Ok [] \<or> (\<exists>e. r = Err e \<and> \<not> (case e of IOError Interrupted _ \<Rightarrow> True | _ \<Rightarrow> False))"

locale ending_reader = byte_reader +
  assumes rd_end: "good s \<Longrightarrow> 0 < n \<Longrightarrow> content s = [] \<Longrightarrow> ends (fst (rd n s))"
    and rd_stays: "good s \<Longrightarrow> 0 < n \<Longrightarrow> content s = [] \<Longrightarrow>
      content (snd (rd n s)) = [] \<and> good (snd (rd n s))"
begin

lemma read_exact_short:
  assumes "good s" and "length (content s) < n"
  shows "\<exists>e s'. read_exact rd n s = Some (Err e, s')"
  using assms
proof (induction n arbitrary: s rule: less_induct)
  case (less n)
  obtain r s1 where r: "rd n s = (r, s1)" by fastforce
  show ?case
  proof (cases "content s = []")
    case True
    with rd_end [OF less.prems(1), of n] less.prems(2) r have "ends r" by simp
    with r less.prems(2) show ?thesis
      by (subst read_exact.simps) (auto simp: ends_def)
  next
    case False
    with rd_ok [OF less.prems(1), of n] less.prems(2) r obtain bs
      where rd: "r = Ok bs" "bs \<noteq> []" "length bs \<le> n" "content s = bs @ content s1" "good s1" by auto
    then have "n - length bs < n" "length (content s1) < n - length bs"
      using less.prems(2) by auto
    from less.IH [OF this(1) rd(5) this(2)] obtain e s2
      where "read_exact rd (n - length bs) s1 = Some (Err e, s2)" by blast
    with r rd less.prems(2) show ?thesis by (subst read_exact.simps) auto
  qed
qed

end

section \<open>Scripted byte streams\<close>

text \<open>
  A socket or file is the list of what its reads will find: a chunk of bytes, from which a read
  takes at most what fits its buffer, or an error. At the end of the list the stream is at its end.
\<close>

datatype read_result = Chunk bytes | Failing io_kind

type_synonym source = "read_result list"

fun read_source :: "source reader" where
  "read_source n [] = (Ok [], [])"
| "read_source n (Chunk bs # src) =
     (if length bs \<le> n then (Ok bs, src) else (Ok (take n bs), Chunk (drop n bs) # src))"
| "read_source n (Failing k # src) = (Err (IOError k Os_Error), src)"

text \<open>The bytes a source still holds; a well-behaved source has no empty chunks and no failures.\<close>

fun source_bytes :: "source \<Rightarrow> bytes" where
  "source_bytes [] = []"
| "source_bytes (Chunk bs # src) = bs @ source_bytes src"
| "source_bytes (Failing k # src) = []"

definition flowing :: "source \<Rightarrow> bool" where
  "flowing src \<longleftrightarrow> (\<forall>r \<in> set src. case r of Chunk bs \<Rightarrow> bs \<noteq> [] | Failing _ \<Rightarrow> False)"

lemma read_source_flowing:
  assumes "flowing src" and "0 < n" and "source_bytes src \<noteq> []"
  shows "\<exists>bs src'. read_source n src = (Ok bs, src') \<and> bs \<noteq> [] \<and> length bs \<le> n
    \<and> source_bytes src = bs @ source_bytes src' \<and> flowing src'"
proof (cases src)
  case Nil
  with assms show ?thesis by simp
next
  case (Cons r rest)
  with assms(1) obtain bs where r: "r = Chunk bs" "bs \<noteq> []" and fl: "flowing rest"
    by (cases r) (auto simp: flowing_def)
  with assms(2) Cons show ?thesis by (auto simp: flowing_def)
qed

lemma flowing_end: "flowing src \<Longrightarrow> source_bytes src = [] \<Longrightarrow> src = []"
  by (cases src rule: source_bytes.cases) (auto simp: flowing_def)

interpretation source: ending_reader read_source source_bytes flowing
proof unfold_locales
  fix src :: source and n :: nat
  assume "flowing src" "source_bytes src = []"
  then have "src = []" by (rule flowing_end)
  then show "ends (fst (read_source n src))"
    "source_bytes (snd (read_source n src)) = [] \<and> flowing (snd (read_source n src))"
    by (simp_all add: ends_def flowing_def)
qed (rule read_source_flowing)

end
