(* ===== verification/Transport_Message.thy ===== *)
theory Transport_Message
  imports Rust_IO
begin

text \<open>
  The packets of \<open>adb_client\<close>: \<^verbatim>\<open>message_devices/message_commands.rs\<close> (commands and sync
  subcommands), \<^verbatim>\<open>message_devices/adb_transport_message.rs\<close> (header and message) and the framing of
  the two transports, \<^verbatim>\<open>tcp/tcp_transport.rs\<close> and \<^verbatim>\<open>usb/usb_transport.rs\<close>, over scripted byte
  streams. \<open>size_of::<ADBTransportMessageHeader>()\<close> is the size of six 32-bit fields, 24.
\<close>

section \<open>Commands\<close>

datatype message_command = MC_Cnxn | MC_Clse | MC_Auth | MC_Open | MC_Write | MC_Okay | MC_Stls

fun message_command_code :: "message_command \<Rightarrow> u32" where
  "message_command_code MC_Cnxn = 0x4E584E43"
| "message_command_code MC_Clse = 0x45534C43"
| "message_command_code MC_Auth = 0x48545541"
| "message_command_code MC_Open = 0x4E45504F"
| "message_command_code MC_Write = 0x45545257"
| "message_command_code MC_Okay = 0x59414B4F"
| "message_command_code MC_Stls = 0x534C5453"

text \<open>The conversion the derive of \<open>TryFromPrimitive\<close> generates.\<close>

definition message_command_try_from :: "u32 \<Rightarrow> message_command option" where
  "message_command_try_from v =
     (if v = 0x4E584E43 then Some MC_Cnxn
      else if v = 0x45534C43 then Some MC_Clse
      else if v = 0x48545541 then Some MC_Auth
      else if v = 0x4E45504F then Some MC_Open
      else if v = 0x45545257 then Some MC_Write
      else if v = 0x59414B4F then Some MC_Okay
      else if v = 0x534C5453 then Some MC_Stls
      else None)"

definition message_command_encode :: "message_command \<Rightarrow> bytes" where
  "message_command_encode c = to_le32 (message_command_code c)"

fun message_command_text :: "message_command \<Rightarrow> bytes" where
  "message_command_text MC_Cnxn = ascii ''CNXN''"
| "message_command_text MC_Clse = ascii ''CLSE''"
| "message_command_text MC_Auth = ascii ''AUTH''"
| "message_command_text MC_Open = ascii ''OPEN''"
| "message_command_text MC_Write = ascii ''WRTE''"
| "message_command_text MC_Okay = ascii ''OKAY''"
| "message_command_text MC_Stls = ascii ''STLS''"

datatype message_subcommand =
  SC_Stat | SC_Send | SC_Recv | SC_Quit | SC_Fail | SC_Done | SC_Data | SC_List

fun subcommand_code :: "message_subcommand \<Rightarrow> u32" where
  "subcommand_code SC_Stat = 0x54415453"
| "subcommand_code SC_Send = 0x444E4553"
| "subcommand_code SC_Recv = 0x56434552"
| "subcommand_code SC_Quit = 0x54495551"
| "subcommand_code SC_Fail = 0x4C494146"
| "subcommand_code SC_Done = 0x454E4F44"
| "subcommand_code SC_Data = 0x41544144"
| "subcommand_code SC_List = 0x5453494C"

definition subcommand_try_from :: "u32 \<Rightarrow> message_subcommand option" where
  "subcommand_try_from v =
     (if v = 0x54415453 then Some SC_Stat
      else if v = 0x444E4553 then Some SC_Send
      else if v = 0x56434552 then Some SC_Recv
      else if v = 0x54495551 then Some SC_Quit
      else if v = 0x4C494146 then Some SC_Fail
      else if v = 0x454E4F44 then Some SC_Done
      else if v = 0x41544144 then Some SC_Data
      else if v = 0x5453494C then Some SC_List
      else None)"

definition subcommand_encode :: "message_subcommand \<Rightarrow> bytes" where
  "subcommand_encode c = to_le32 (subcommand_code c)"

record subcommand_with_arg =
  sa_subcommand :: message_subcommand
  sa_arg :: u32

definition with_arg :: "message_subcommand \<Rightarrow> u32 \<Rightarrow> subcommand_with_arg" where
  "with_arg c a = \<lparr>sa_subcommand = c, sa_arg = a\<rparr>"

definition with_arg_encode :: "subcommand_with_arg \<Rightarrow> bytes" where
  "with_arg_encode s = to_le32 (subcommand_code (sa_subcommand s)) @ to_le32 (sa_arg s)"

definition with_arg_decode :: "bytes \<Rightarrow> subcommand_with_arg result" where
  "with_arg_decode data =
     (if length data < 8 then Err ConversionError
      else bind_outcome (ok_or ConversionError (subcommand_try_from (from_le32 (slice 0 4 data))))
             (\<lambda>c. Ok \<lparr>sa_subcommand = c, sa_arg = from_le32 (slice 4 8 data)\<rparr>))"

lemma message_command_try_from_code [simp]: "message_command_try_from (message_command_code c) = Some c"
  by (cases c) (simp_all add: message_command_try_from_def)

lemma message_command_try_from_Some:
  "message_command_try_from v = Some c \<longleftrightarrow> v = message_command_code c"
  by (auto simp: message_command_try_from_def split: if_splits) (cases c; simp)+

lemma subcommand_try_from_code [simp]: "subcommand_try_from (subcommand_code c) = Some c"
  by (cases c) (simp_all add: subcommand_try_from_def)

lemma subcommand_try_from_Some: "subcommand_try_from v = Some c \<longleftrightarrow> v = subcommand_code c"
  by (auto simp: subcommand_try_from_def split: if_splits) (cases c; simp)+

lemma length_with_arg_encode [simp]: "length (with_arg_encode s) = 8"
  by (simp add: with_arg_encode_def)

lemma with_arg_decode_encode: "with_arg_decode (with_arg_encode s @ rest) = Ok s"
  by (simp add: with_arg_decode_def with_arg_encode_def slice_append_left slice_append_right slice_full)

section \<open>Headers and messages\<close>

definition MAX_ADB_MESSAGE_PAYLOAD :: u32 where
  "MAX_ADB_MESSAGE_PAYLOAD = 1024 * 1024"

definition AUTH_TOKEN :: u32 where
  "AUTH_TOKEN = 1"

definition AUTH_SIGNATURE :: u32 where
  "AUTH_SIGNATURE = 2"

definition AUTH_RSAPUBLICKEY :: u32 where
  "AUTH_RSAPUBLICKEY = 3"

record message_header =
  mh_command :: message_command
  mh_arg0 :: u32
  mh_arg1 :: u32
  mh_data_length :: u32
  mh_data_crc32 :: u32
  mh_magic :: u32

record transport_message =
  tm_header :: message_header
  tm_payload :: bytes

text \<open>The \<open>sum\<close> of the source wraps in the release profile, which disables overflow checks.\<close>

definition compute_crc32 :: "bytes \<Rightarrow> u32" where
  "compute_crc32 data = sum_list (map ucast data)"

definition compute_magic :: "message_command \<Rightarrow> u32" where
  "compute_magic c = message_command_code c XOR 0xFFFFFFFF"

definition header_try_new :: "message_command \<Rightarrow> u32 \<Rightarrow> u32 \<Rightarrow> bytes \<Rightarrow> message_header result" where
  "header_try_new c a0 a1 data =
     bind_outcome (u32_try_from (length data)) (\<lambda>n.
       Ok \<lparr>mh_command = c, mh_arg0 = a0, mh_arg1 = a1, mh_data_length = n,
           mh_data_crc32 = compute_crc32 data, mh_magic = compute_magic c\<rparr>)"

definition validate_before_payload :: "message_header \<Rightarrow> unit result" where
  "validate_before_payload h =
     (if mh_magic h \<noteq> compute_magic (mh_command h) then Err (request_failed ''invalid ADB message magic'')
      else if MAX_ADB_MESSAGE_PAYLOAD < mh_data_length h then
        Err (ADBRequestFailed (ascii ''ADB message payload exceeds '' @ show_nat (unat MAX_ADB_MESSAGE_PAYLOAD)
               @ ascii '' bytes: '' @ show_nat (unat (mh_data_length h))))
      else Ok ())"

definition header_encode :: "message_header \<Rightarrow> bytes" where
  "header_encode h =
     message_command_encode (mh_command h) @ to_le32 (mh_arg0 h) @ to_le32 (mh_arg1 h)
     @ to_le32 (mh_data_length h) @ to_le32 (mh_data_crc32 h) @ to_le32 (mh_magic h)"

definition header_decode :: "bytes \<Rightarrow> message_header result" where
  "header_decode data =
     (if length data \<noteq> 24 then Err ConversionError
      else bind_outcome (ok_or ConversionError (message_command_try_from (from_le32 (slice 0 4 data)))) (\<lambda>c.
        Ok \<lparr>mh_command = c, mh_arg0 = from_le32 (slice 4 8 data), mh_arg1 = from_le32 (slice 8 12 data),
            mh_data_length = from_le32 (slice 12 16 data), mh_data_crc32 = from_le32 (slice 16 20 data),
            mh_magic = from_le32 (slice 20 24 data)\<rparr>))"

definition message_try_new :: "message_command \<Rightarrow> u32 \<Rightarrow> u32 \<Rightarrow> bytes \<Rightarrow> transport_message result" where
  "message_try_new c a0 a1 data =
     bind_outcome (header_try_new c a0 a1 data) (\<lambda>h. Ok \<lparr>tm_header = h, tm_payload = data\<rparr>)"

definition from_header_and_payload :: "message_header \<Rightarrow> bytes \<Rightarrow> transport_message" where
  "from_header_and_payload h payload = \<lparr>tm_header = h, tm_payload = payload\<rparr>"

definition check_message_integrity :: "transport_message \<Rightarrow> bool" where
  "check_message_integrity m \<longleftrightarrow>
     compute_magic (mh_command (tm_header m)) = mh_magic (tm_header m)
     \<and> compute_crc32 (tm_payload m) = mh_data_crc32 (tm_header m)"

definition assert_command :: "message_command \<Rightarrow> transport_message \<Rightarrow> unit result" where
  "assert_command expected m =
     (let our = mh_command (tm_header m)
      in if expected = our then Ok ()
         else Err (WrongResponseReceived (message_command_text our) (message_command_text expected)))"

abbreviation msg_command :: "transport_message \<Rightarrow> message_command" where
  "msg_command m \<equiv> mh_command (tm_header m)"

abbreviation msg_arg0 :: "transport_message \<Rightarrow> u32" where
  "msg_arg0 m \<equiv> mh_arg0 (tm_header m)"

abbreviation msg_arg1 :: "transport_message \<Rightarrow> u32" where
  "msg_arg1 m \<equiv> mh_arg1 (tm_header m)"

text \<open>The message \<open>message_try_new\<close> builds.\<close>

definition message_new :: "message_command \<Rightarrow> u32 \<Rightarrow> u32 \<Rightarrow> bytes \<Rightarrow> transport_message" where
  "message_new c a0 a1 data =
     \<lparr>tm_header = \<lparr>mh_command = c, mh_arg0 = a0, mh_arg1 = a1, mh_data_length = word_of_nat (length data),
        mh_data_crc32 = compute_crc32 data, mh_magic = compute_magic c\<rparr>, tm_payload = data\<rparr>"

lemma message_try_new_Ok [simp]:
  "length data < 2 ^ 32 \<Longrightarrow> message_try_new c a0 a1 data = Ok (message_new c a0 a1 data)"
  by (simp add: message_try_new_def header_try_new_def message_new_def)

lemma message_try_new_OkD: "message_try_new c a0 a1 data = Ok m \<Longrightarrow> m = message_new c a0 a1 data"
  by (auto simp: message_try_new_def header_try_new_def message_new_def u32_try_from_def)

lemma message_new_sel [simp]:
  "msg_command (message_new c a0 a1 data) = c" "msg_arg0 (message_new c a0 a1 data) = a0"
  "msg_arg1 (message_new c a0 a1 data) = a1" "tm_payload (message_new c a0 a1 data) = data"
  by (simp_all add: message_new_def)

lemma message_new_integrity [simp]: "check_message_integrity (message_new c a0 a1 data)"
  by (simp add: check_message_integrity_def message_new_def)

lemma length_header_encode [simp]: "length (header_encode h) = 24"
  by (simp add: header_encode_def message_command_encode_def)

lemma header_decode_encode [simp]: "header_decode (header_encode h) = Ok h"
  by (simp add: header_decode_def header_encode_def message_command_encode_def
      slice_append_left slice_append_right slice_full)

lemma slices_of_24:
  assumes "length data = 24"
  shows "data = slice 0 4 data @ slice 4 8 data @ slice 8 12 data @ slice 12 16 data
    @ slice 16 20 data @ slice 20 24 data"
proof -
  have s: "drop i data = slice i (i + 4) data @ drop (i + 4) data" for i
    using append_take_drop_id [of 4 "drop i data"] by (simp add: slice_def add.commute)
  show ?thesis
    using s [of 0] s [of 4] s [of 8] s [of 12] s [of 16] s [of 20] assms by simp
qed

lemma header_encode_decode: "header_decode data = Ok h \<Longrightarrow> header_encode h = data"
proof -
  assume d: "header_decode data = Ok h"
  then have len: "length data = 24" by (simp add: header_decode_def split: if_splits)
  with d have h: "h = \<lparr>mh_command = mh_command h, mh_arg0 = from_le32 (slice 4 8 data), mh_arg1 = from_le32 (slice 8 12 data),
            mh_data_length = from_le32 (slice 12 16 data), mh_data_crc32 = from_le32 (slice 16 20 data),
            mh_magic = from_le32 (slice 20 24 data)\<rparr>"
    and c: "from_le32 (slice 0 4 data) = message_command_code (mh_command h)"
    by (auto simp: header_decode_def message_command_try_from_Some)
  have "to_le32 (from_le32 (slice i (i + 4) data)) = slice i (i + 4) data" if "i \<le> 20" for i
    using that len by (intro to_from_le32) simp
  from this [of 0] this [of 4] this [of 8] this [of 12] this [of 16] this [of 20]
  have "slice 0 4 data = to_le32 (message_command_code (mh_command h))"
    "slice 4 8 data = to_le32 (mh_arg0 h)" "slice 8 12 data = to_le32 (mh_arg1 h)"
    "slice 12 16 data = to_le32 (mh_data_length h)" "slice 16 20 data = to_le32 (mh_data_crc32 h)"
    "slice 20 24 data = to_le32 (mh_magic h)"
    using c by (subst h; simp)+
  with slices_of_24 [OF len] show "header_encode h = data"
    by (simp add: header_encode_def message_command_encode_def)
qed

end
