(* ===== verification/Message_Transport.thy ===== *)
theory Message_Transport
  imports Transport_Message
begin

text \<open>
  The framing of the two transports of \<open>adb_client\<close>: \<^verbatim>\<open>tcp/tcp_transport.rs\<close> and
  \<^verbatim>\<open>usb/usb_transport.rs\<close> read a header, validate it, read the payload and check its integrity.
  A TCP (or TLS) connection is a scripted byte stream, a USB pipe a script of bulk transfers. Setting
  timeouts, taking the connection's mutex and the TLS library are left out: TLS is the function that
  upgrades a connection, a parameter.
\<close>

section \<open>Sinks\<close>

text \<open>
  What the writes of a connection will do: accept everything, or write a prefix and fail. At the end
  of the script every write is accepted.
\<close>

datatype write_result = Accept | Refuse nat io_kind

record sink =
  sk_script :: "write_result list"
  sk_out :: bytes

definition write_all :: "bytes \<Rightarrow> (sink, unit) io" where
  "write_all bs k =
     (case sk_script k of
        [] \<Rightarrow> (Ok (), k\<lparr>sk_out := sk_out k @ bs\<rparr>)
      | Accept # rest \<Rightarrow> (Ok (), \<lparr>sk_script = rest, sk_out = sk_out k @ bs\<rparr>)
      | Refuse n kind # rest \<Rightarrow> (Err (IOError kind Os_Error), \<lparr>sk_script = rest, sk_out = sk_out k @ take n bs\<rparr>))"

section \<open>TCP and TLS\<close>

record connection =
  cn_tls :: bool
  cn_source :: source
  cn_sink :: sink

record tcp_transport =
  current_connection :: "connection option"

definition not_connected :: rust_error where
  "not_connected = IOError NotConnected (Message (ascii ''not connected''))"

text \<open>A dialled connection is plain TCP until it is upgraded.\<close>

definition tcp_connect :: "connection result \<Rightarrow> (tcp_transport, unit) io" where
  "tcp_connect dialled t =
     (case dialled of
        Ok c \<Rightarrow> (Ok (), t\<lparr>current_connection := Some (c\<lparr>cn_tls := False\<rparr>)\<rparr>)
      | Err e \<Rightarrow> (Err e, t)
      | Panic \<Rightarrow> (Panic, t))"

text \<open>
  \<open>read_message_with_timeout\<close> on the stream of an open connection. Only the first read is subject to
  the caller's timeout; every later failure is turned into \<open>ADBRequestFailed\<close>.
\<close>

definition incomplete :: "string \<Rightarrow> 'a result \<Rightarrow> 'a result" where
  "incomplete part r = map_err (\<lambda>e. ADBRequestFailed (ascii part @ error_text e)) r"

definition read_payload ::
    "(nat \<Rightarrow> 's \<Rightarrow> (bytes result \<times> 's) option) \<Rightarrow> message_header \<Rightarrow> 's
      \<Rightarrow> (transport_message result \<times> 's) option" where
  "read_payload rd h s =
     (case validate_before_payload h of
        Err e \<Rightarrow> Some (Err e, s)
      | Panic \<Rightarrow> Some (Panic, s)
      | Ok _ \<Rightarrow>
          Option.bind (if mh_data_length h = 0 then Some (Ok [], s) else rd (unat (mh_data_length h)) s)
            (\<lambda>(r, s'). Some (bind_outcome r (\<lambda>payload.
               let m = from_header_and_payload h payload
               in if check_message_integrity m then Ok m
                  else Err (InvalidIntegrity (compute_crc32 (tm_payload m)) (mh_data_crc32 (tm_header m)))), s')))"

definition tcp_read :: "source \<Rightarrow> (transport_message result \<times> source) option" where
  "tcp_read src =
     (case read_source 24 src of
        (Err e, src1) \<Rightarrow> Some (Err e, src1)
      | (Panic, src1) \<Rightarrow> Some (Panic, src1)
      | (Ok first, src1) \<Rightarrow>
          if first = [] then
            Some (Err (IOError UnexpectedEof (Message (ascii ''wireless ADB transport closed''))), src1)
          else
            Option.bind (if length first < 24 then read_exact read_source (24 - length first) src1
                         else Some (Ok [], src1))
              (\<lambda>(r, src2).
                 case incomplete ''incomplete wireless ADB packet header: '' r of
                   Ok rest2 \<Rightarrow>
                     (case header_decode (first @ rest2) of
                        Ok h \<Rightarrow>
                          read_payload (\<lambda>n s. map_option (\<lambda>(r, s'). (incomplete ''incomplete wireless ADB packet payload: '' r, s'))
                                          (read_exact read_source n s)) h src2
                      | Err e \<Rightarrow> Some (Err e, src2)
                      | Panic \<Rightarrow> Some (Panic, src2))
                 | Err e \<Rightarrow> Some (Err e, src2)
                 | Panic \<Rightarrow> Some (Panic, src2)))"

definition tcp_read_message :: "tcp_transport \<Rightarrow> (transport_message result \<times> tcp_transport) option" where
  "tcp_read_message t =
     (case current_connection t of
        None \<Rightarrow> Some (Err not_connected, t)
      | Some c \<Rightarrow>
          map_option (\<lambda>(r, src). (r, t\<lparr>current_connection := Some (c\<lparr>cn_source := src\<rparr>)\<rparr>))
            (tcp_read (cn_source c)))"

definition write_header_payload :: "transport_message \<Rightarrow> (sink, unit) io" where
  "write_header_payload m =
     seq_io (write_all (header_encode (tm_header m)))
       (if tm_payload m = [] then lift (Ok ()) else write_all (tm_payload m))"

definition tcp_write_message :: "transport_message \<Rightarrow> (tcp_transport, unit) io" where
  "tcp_write_message m t =
     (case current_connection t of
        None \<Rightarrow> (Err not_connected, t)
      | Some c \<Rightarrow>
          (case write_header_payload m (cn_sink c) of
             (r, k) \<Rightarrow> (r, t\<lparr>current_connection := Some (c\<lparr>cn_sink := k\<rparr>)\<rparr>)))"

text \<open>\<open>upgrade_connection\<close>, given the connection the TLS library makes of a plain one.\<close>

definition upgrade_connection ::
    "(connection \<Rightarrow> connection result) \<Rightarrow> tcp_transport \<Rightarrow> (unit result \<times> tcp_transport) option" where
  "upgrade_connection tls t =
     (case current_connection t of
        None \<Rightarrow> Some (Err (UpgradeError (ascii ''cannot upgrade a non-existing connection...'')), t)
      | Some c \<Rightarrow>
          if cn_tls c then Some (Err (UpgradeError (ascii ''cannot upgrade a TLS connection...'')), t)
          else (case tls c of
              Err e \<Rightarrow> Some (Err e, t)
            | Panic \<Rightarrow> Some (Panic, t)
            | Ok c' \<Rightarrow>
                Option.bind (tcp_read_message (t\<lparr>current_connection := Some (c'\<lparr>cn_tls := True\<rparr>)\<rparr>))
                  (\<lambda>(r, t'). Some (bind_outcome r (\<lambda>m.
                     case msg_command m of
                       MC_Cnxn \<Rightarrow> if utf8_valid (tm_payload m) then Ok () else Err Utf8FromBytesError
                     | c \<Rightarrow> Err (ADBRequestFailed (ascii ''Wrong command received '' @ message_command_text c))), t'))))"

section \<open>USB\<close>

text \<open>What a bulk read returns: data, at most as much as was asked for, or an IOKit status.\<close>

datatype usb_read = Usb_Data bytes | Usb_Status u32

definition show_hex8 :: "u32 \<Rightarrow> bytes" where
  "show_hex8 w = ascii ''0x'' @ replicate (8 - length (show_radix 16 (unat w))) 48 @ show_radix 16 (unat w)"

definition iokit_error :: "string \<Rightarrow> u32 \<Rightarrow> rust_error" where
  "iokit_error operation status =
     (if status = 0xE00002D6 \<or> status = 0xE0004051 then
        IOError TimedOut (Message (ascii ''macOS IOKit USB '' @ ascii operation @ ascii '' timed out''))
      else ADBRequestFailed (ascii ''macOS IOKit USB '' @ ascii operation @ ascii '' failed ('' @ show_hex8 status @ ascii '')''))"

text \<open>\<open>read_exact\<close> of the USB transport: bulk reads until the buffer is full.\<close>

fun usb_read_exact :: "nat \<Rightarrow> usb_read list \<Rightarrow> bytes result \<times> usb_read list" where
  "usb_read_exact n [] =
     (if n = 0 then (Ok [], [])
      else (Err (IOError UnexpectedEof (Message (ascii ''ADB USB interface returned no data''))), []))"
| "usb_read_exact n (Usb_Status st # script) =
     (if n = 0 then (Ok [], Usb_Status st # script) else (Err (iokit_error ''read'' st), script))"
| "usb_read_exact n (Usb_Data bs # script) =
     (if n = 0 then (Ok [], Usb_Data bs # script)
      else if bs = [] then
        (Err (IOError UnexpectedEof (Message (ascii ''ADB USB interface returned no data''))), script)
      else if n < length bs then (Ok (take n bs), Usb_Data (drop n bs) # script)
      else case usb_read_exact (n - length bs) script of
          (Ok rest2, script') \<Rightarrow> (Ok (bs @ rest2), script')
        | (Err e, script') \<Rightarrow> (Err e, script')
        | (Panic, script') \<Rightarrow> (Panic, script'))"

definition usb_read_message :: "usb_read list \<Rightarrow> (transport_message result \<times> usb_read list) option" where
  "usb_read_message script =
     (case usb_read_exact 24 script of
        (Err e, script1) \<Rightarrow> Some (Err e, script1)
      | (Panic, script1) \<Rightarrow> Some (Panic, script1)
      | (Ok data, script1) \<Rightarrow>
          (case header_decode data of
             Err e \<Rightarrow> Some (Err e, script1)
           | Panic \<Rightarrow> Some (Panic, script1)
           | Ok h \<Rightarrow> read_payload (\<lambda>n s. case usb_read_exact n s of (r, s') \<Rightarrow>
                       Some (incomplete ''incomplete USB packet: '' r, s')) h script1))"

text \<open>The bytes the transfers of a script still hold, as long as none of them fails or is empty.\<close>

fun usb_bytes :: "usb_read list \<Rightarrow> bytes" where
  "usb_bytes (Usb_Data bs # script) = bs @ usb_bytes script"
| "usb_bytes _ = []"

definition usb_flowing :: "usb_read list \<Rightarrow> bool" where
  "usb_flowing script \<longleftrightarrow> (\<forall>r \<in> set script. case r of Usb_Data bs \<Rightarrow> bs \<noteq> [] | Usb_Status _ \<Rightarrow> False)"

section \<open>Reading what was written\<close>

text \<open>The bytes of a message on either transport.\<close>

definition message_bytes :: "transport_message \<Rightarrow> bytes" where
  "message_bytes m = header_encode (tm_header m) @ tm_payload m"

text \<open>A message either transport accepts.\<close>

definition sound_message :: "transport_message \<Rightarrow> bool" where
  "sound_message m \<longleftrightarrow> check_message_integrity m
     \<and> mh_data_length (tm_header m) \<le> MAX_ADB_MESSAGE_PAYLOAD
     \<and> length (tm_payload m) = unat (mh_data_length (tm_header m))"

lemma sound_message_new:
  assumes "length data \<le> 1048576"
  shows "sound_message (message_new c a0 a1 data)"
proof -
  have l: "length data < 2 ^ 32" using assms by simp
  then have u: "unat (word_of_nat (length data) :: u32) = length data" by (rule u32_of_nat_roundtrip)
  with assms have "(word_of_nat (length data) :: u32) \<le> MAX_ADB_MESSAGE_PAYLOAD"
    by (simp add: word_le_nat_alt MAX_ADB_MESSAGE_PAYLOAD_def)
  with u show ?thesis by (simp add: sound_message_def) (simp add: message_new_def)
qed

lemma sound_message_validates: "sound_message m \<Longrightarrow> validate_before_payload (tm_header m) = Ok ()"
  by (simp add: sound_message_def check_message_integrity_def validate_before_payload_def
      linorder_not_less [symmetric])

lemma from_header_and_payload_sel [simp]: "from_header_and_payload (tm_header m) (tm_payload m) = m"
  by (simp add: from_header_and_payload_def)

lemma read_payload_sound:
  assumes "sound_message m"
    and "rd (length (tm_payload m)) s = Some (Ok (tm_payload m), s')"
    and "tm_payload m = [] \<Longrightarrow> s' = s"
  shows "read_payload rd (tm_header m) s = Some (Ok m, s')"
proof -
  have len: "length (tm_payload m) = unat (mh_data_length (tm_header m))"
    and ok: "check_message_integrity m" using assms(1) by (simp_all add: sound_message_def)
  from len have "mh_data_length (tm_header m) = 0 \<longleftrightarrow> tm_payload m = []"
    by (metis length_0_conv unat_eq_zero)
  with assms len ok from_header_and_payload_sel [of m] show ?thesis
    by (auto simp: read_payload_def sound_message_validates Let_def simp del: from_header_and_payload_sel)
qed

lemma usb_read_exact_flowing:
  "usb_flowing script \<Longrightarrow> usb_bytes script = xs @ rest \<Longrightarrow>
    \<exists>script'. usb_read_exact (length xs) script = (Ok xs, script') \<and> usb_bytes script' = rest \<and> usb_flowing script'"
proof (induction script arbitrary: xs)
  case Nil
  then show ?case by (auto simp: usb_flowing_def)
next
  case (Cons r script)
  then obtain bs where r: "r = Usb_Data bs" "bs \<noteq> []" and fl: "usb_flowing script"
    by (cases r) (auto simp: usb_flowing_def)
  show ?case
  proof (cases "xs = []")
    case True
    with Cons.prems r show ?thesis by simp
  next
    case False
    show ?thesis
    proof (cases "length xs < length bs")
      case True
      with Cons.prems r have "take (length xs) bs = xs" "drop (length xs) bs @ usb_bytes script = rest"
        by (auto simp: append_eq_append_conv_if)
      with True False r fl show ?thesis by (auto simp: usb_flowing_def)
    next
      case F: False
      from Cons.prems(2) r F obtain ys where xs: "xs = bs @ ys" "usb_bytes script = ys @ rest"
        by (auto elim: append_split [of xs rest bs, OF sym])
      from Cons.IH [OF fl xs(2)] obtain script'
        where "usb_read_exact (length ys) script = (Ok ys, script')" "usb_bytes script' = rest" "usb_flowing script'"
        by blast
      with xs(1) r show ?thesis by auto
    qed
  qed
qed

text \<open>The first read of the TCP transport and the \<open>read_exact\<close> behind it yield the whole header.\<close>

lemma tcp_header:
  assumes "flowing src" and "source_bytes src = hdr @ rest" and "length hdr = 24"
  obtains first src1 rest2 src2 where
    "read_source 24 src = (Ok first, src1)" "first \<noteq> []" "first @ rest2 = hdr"
    "(if length first < 24 then read_exact read_source (24 - length first) src1 else Some (Ok [], src1))
       = Some (Ok rest2, src2)"
    "source_bytes src2 = rest" "flowing src2"
proof -
  from assms read_source_flowing [of src 24] obtain first src1
    where f: "read_source 24 src = (Ok first, src1)" "first \<noteq> []" "length first \<le> 24"
      "source_bytes src = first @ source_bytes src1" "flowing src1" by fastforce
  from f(3,4) assms(2,3) obtain rest2 where m: "first @ rest2 = hdr" "source_bytes src1 = rest2 @ rest"
    by (metis append_split)
  show thesis
  proof (cases "length first < 24")
    case True
    from source.read_exact_content [OF f(5) m(2)] obtain src2
      where "read_exact read_source (length rest2) src1 = Some (Ok rest2, src2)"
        "source_bytes src2 = rest" "flowing src2" by blast
    moreover have "length rest2 = 24 - length first" using m(1) assms(3) by auto
    ultimately show thesis using that [OF f(1,2) m(1)] True by simp
  next
    case False
    with m assms(3) f(3) have "rest2 = []" by auto
    with that [OF f(1,2) m(1)] False m(2) f(5) show thesis by simp
  qed
qed

lemma usb_read_back:
  assumes "sound_message m" and fl: "usb_flowing script" and sb: "usb_bytes script = message_bytes m @ rest"
  shows "\<exists>script'. usb_read_message script = Some (Ok m, script') \<and> usb_bytes script' = rest \<and> usb_flowing script'"
proof -
  from usb_read_exact_flowing [OF fl, of "header_encode (tm_header m)" "tm_payload m @ rest"] sb obtain s1
    where h: "usb_read_exact 24 script = (Ok (header_encode (tm_header m)), s1)"
      "usb_bytes s1 = tm_payload m @ rest" "usb_flowing s1"
    by (auto simp: message_bytes_def)
  from usb_read_exact_flowing [OF h(3,2)] obtain s2
    where p: "usb_read_exact (length (tm_payload m)) s1 = (Ok (tm_payload m), s2)"
      "usb_bytes s2 = rest" "usb_flowing s2" by blast
  have e: "tm_payload m = [] \<Longrightarrow> s2 = s1"
    using p(1) by (cases s1 rule: usb_bytes.cases) (auto split: if_splits)
  have "usb_read_message script = Some (Ok m, s2)"
    using h(1) read_payload_sound [OF assms(1), where s = s1 and s' = s2] p(1) e
    by (simp add: usb_read_message_def incomplete_def)
  with p show ?thesis by blast
qed

text \<open>
  A packet written by either transport is read back by both, however the network or the bulk
  transfers cut its bytes, and the bytes behind it are left for the next read.
\<close>

theorem transports_read_back:
  assumes "sound_message m"
  shows "(flowing src \<and> source_bytes src = message_bytes m @ rest \<longrightarrow>
      (\<exists>src'. tcp_read src = Some (Ok m, src') \<and> source_bytes src' = rest \<and> flowing src'))
    \<and> (usb_flowing script \<and> usb_bytes script = message_bytes m @ rest \<longrightarrow>
      (\<exists>script'. usb_read_message script = Some (Ok m, script') \<and> usb_bytes script' = rest \<and> usb_flowing script'))"
proof (intro conjI impI; elim conjE)
  assume fl: "flowing src" and sb: "source_bytes src = message_bytes m @ rest"
  have "source_bytes src = header_encode (tm_header m) @ (tm_payload m @ rest)"
    using sb by (simp add: message_bytes_def)
  from tcp_header [OF fl this length_header_encode] obtain first src1 rest2 src2
    where t: "read_source 24 src = (Ok first, src1)" "first \<noteq> []" "first @ rest2 = header_encode (tm_header m)"
      "(if length first < 24 then read_exact read_source (24 - length first) src1 else Some (Ok [], src1))
         = Some (Ok rest2, src2)"
      "source_bytes src2 = tm_payload m @ rest" "flowing src2" by blast
  from source.read_exact_content [OF t(6,5)] obtain src3
    where p: "read_exact read_source (length (tm_payload m)) src2 = Some (Ok (tm_payload m), src3)"
      "source_bytes src3 = rest" "flowing src3" by blast
  have e: "tm_payload m = [] \<Longrightarrow> src3 = src2"
    using p(1) by (simp add: read_exact.simps)
  have "tcp_read src = Some (Ok m, src3)"
    unfolding tcp_read_def t(1) prod.case outcome.case t(4)
    using t(2,3) read_payload_sound [OF assms, where s = src2 and s' = src3] p(1) e
    by (simp add: incomplete_def)
  with p show "\<exists>src'. tcp_read src = Some (Ok m, src') \<and> source_bytes src' = rest \<and> flowing src'" by blast
qed (rule usb_read_back [OF assms])

theorem transports_read_back_witness:
  "tcp_read [Chunk (take 5 (message_bytes (message_new MC_Write 1 2 [104, 105]))),
      Chunk (drop 5 (message_bytes (message_new MC_Write 1 2 [104, 105])))]
    = Some (Ok (message_new MC_Write 1 2 [104, 105]), [])"
proof -
  let ?m = "message_new MC_Write 1 2 [104, 105]"
  let ?src = "[Chunk (take 5 (message_bytes ?m)), Chunk (drop 5 (message_bytes ?m))]"
  have len: "length (message_bytes ?m) = 26" by (simp add: message_bytes_def)
  have "take 5 (message_bytes ?m) \<noteq> []" "drop 5 (message_bytes ?m) \<noteq> []"
    using len by auto
  then have fl: "flowing ?src" by (simp add: flowing_def)
  have sb: "source_bytes ?src = message_bytes ?m @ []" by simp
  have "sound_message ?m" by (rule sound_message_new) simp
  from transports_read_back [OF this, of ?src "[]"] fl sb obtain src'
    where "tcp_read ?src = Some (Ok ?m, src')" "source_bytes src' = []" "flowing src'" by blast
  moreover from this(2,3) have "src' = []"
    by (cases src' rule: source_bytes.cases) (auto simp: flowing_def)
  ultimately show ?thesis by simp
qed

section \<open>Reading ends, and what it accepts is sound\<close>

lemma read_exact_length:
  assumes "\<And>n s bs s'. rd n s = (Ok bs, s') \<Longrightarrow> length bs \<le> n"
    and "read_exact rd n s = Some (Ok bs, s')"
  shows "length bs = n"
proof -
  have "(\<forall>n s bs s'. rd n s = (Ok bs, s') \<longrightarrow> length bs \<le> n) \<longrightarrow> (\<forall>bs. fst y = Ok bs \<longrightarrow> length bs = n)"
    if "read_exact rd n s = Some y" for rd :: "'s reader" and n s y
  proof (rule read_exact.raw_induct [OF _ that], goal_cases)
    case (1 f rd n s y)
    show ?case
    proof (intro impI allI)
      fix bs
      assume bound: "\<forall>n s bs s'. rd n s = (Ok bs, s') \<longrightarrow> length bs \<le> n" and y: "fst y = Ok bs"
      obtain r s1 where rd: "rd n s = (r, s1)" by fastforce
      show "length bs = n"
      proof (cases "n = 0")
        case True
        with 1(2) y show ?thesis by auto
      next
        case False
        show ?thesis
        proof (cases r)
          case (Ok b1)
          with rd bound have le: "length b1 \<le> n" by blast
          from 1(2) y False rd Ok have "b1 \<noteq> []" by auto
          with 1(2) False rd Ok obtain r2 s2 where g: "f rd (n - length b1) s1 = Some (r2, s2)"
            and "y = (case r2 of Ok b2 \<Rightarrow> Ok (b1 @ b2) | Err e \<Rightarrow> Err e | Panic \<Rightarrow> Panic, s2)"
            by (auto simp: bind_eq_Some_conv)
          with y obtain b2 where f: "f rd (n - length b1) s1 = Some (r2, s2)" "r2 = Ok b2" "bs = b1 @ b2"
            by (cases r2) auto
          from 1(1) [OF f(1)] bound f(2) have "length b2 = n - length b1" by simp
          with f(3) le show ?thesis by simp
        next
          case (Err e)
          have "y \<noteq> (Err e, s1)" using y by auto
          with 1(2) False rd Err have "f rd n s1 = Some y"
            by (auto split: if_splits)
          from 1(1) [OF this] bound y show ?thesis by blast
        next
          case Panic
          with 1(2) y False rd show ?thesis by auto
        qed
      qed
    qed
  qed
  from this [OF assms(2)] assms(1) show ?thesis by simp
qed

lemma read_source_bound: "read_source n src = (Ok bs, src') \<Longrightarrow> length bs \<le> n"
  by (cases "(n, src)" rule: read_source.cases) (auto split: if_splits)

lemma read_exact_source_total: "\<exists>r src'. read_exact read_source n src = Some (r, src')"
proof (induction "n + length src" arbitrary: n src rule: less_induct)
  case less
  show ?case
  proof (cases "n = 0")
    case True
    then show ?thesis by (simp add: read_exact.simps)
  next
    case False
    obtain r s1 where rd: "read_source n src = (r, s1)" by fastforce
    show ?thesis
    proof (cases r)
      case (Ok bs)
      show ?thesis
      proof (cases "bs = []")
        case True
        with rd Ok False show ?thesis by (simp add: read_exact.simps)
      next
        case F: False
        then have "n - length bs + length s1 < n + length src"
          using rd Ok False by (cases "(n, src)" rule: read_source.cases) (auto split: if_splits)
        from less [OF this] obtain r2 s2 where "read_exact read_source (n - length bs) s1 = Some (r2, s2)" by blast
        with rd Ok False F show ?thesis by (simp add: read_exact.simps [of _ n src])
      qed
    next
      case (Err e)
      then have "length s1 < length src"
        using rd by (cases "(n, src)" rule: read_source.cases) (auto split: if_splits)
      then have "n + length s1 < n + length src" by simp
      from less [OF this] rd Err False show ?thesis
        by (auto simp: read_exact.simps [of _ n src])
    next
      case Panic
      with rd False show ?thesis by (simp add: read_exact.simps)
    qed
  qed
qed

lemma read_payload_Ok:
  assumes "read_payload rd h s = Some (Ok m, s')"
    and "\<And>n bs s s'. rd n s = Some (Ok bs, s') \<Longrightarrow> length bs = n"
  shows "sound_message m"
proof -
  from assms(1) have v: "validate_before_payload h = Ok ()"
    by (auto simp: read_payload_def split: outcome.splits)
  then have h: "mh_magic h = compute_magic (mh_command h)" "mh_data_length h \<le> MAX_ADB_MESSAGE_PAYLOAD"
    by (auto simp: validate_before_payload_def linorder_not_less split: if_splits)
  from assms(1) v obtain payload where
    p: "(if mh_data_length h = 0 then Some (Ok [], s) else rd (unat (mh_data_length h)) s) = Some (Ok payload, s')"
    and m: "m = from_header_and_payload h payload" "check_message_integrity m"
    by (auto simp: read_payload_def Let_def bind_eq_Some_conv split: if_splits outcome.splits)
  have "length payload = unat (mh_data_length h)"
    using p assms(2) by (auto split: if_splits)
  with h m show ?thesis
    by (simp add: sound_message_def from_header_and_payload_def)
qed

text \<open>The payload read of the TCP transport returns, what it delivers is sound, and its failures are no failures of a read.\<close>

lemma tcp_payload_sound:
  defines "rd \<equiv> \<lambda>n s. map_option (\<lambda>(r, s'). (incomplete ''incomplete wireless ADB packet payload: '' r, s'))
                   (read_exact read_source n s)"
  shows "\<exists>r src'. read_payload rd h src = Some (r, src') \<and> (\<forall>m. r = Ok m \<longrightarrow> sound_message m) \<and> (\<forall>k e. r \<noteq> Err (IOError k e))"
proof -
  have "length bs = n" if "rd n s = Some (Ok bs, s')" for n bs s s'
    using that read_exact_length [OF read_source_bound] by (auto simp: rd_def incomplete_def split: prod.splits)
  then have sound: "sound_message m" if "read_payload rd h src = Some (Ok m, src')" for m src'
    using read_payload_Ok [of rd h src m src'] that by blast
  show ?thesis
  proof (cases "validate_before_payload h")
    case (Ok u)
    obtain r3 src3 where "read_exact read_source (unat (mh_data_length h)) src = Some (r3, src3)"
      using read_exact_source_total by blast
    with Ok sound show ?thesis
      by (cases r3) (auto simp: read_payload_def rd_def incomplete_def Let_def)
  qed (auto simp: read_payload_def validate_before_payload_def request_failed_def split: if_splits)
qed

lemma header_decode_failure: "header_decode data = Err e \<Longrightarrow> e = ConversionError"
  by (cases "message_command_try_from (from_le32 (slice 0 4 data))") (auto simp: header_decode_def split: if_splits)

text \<open>Once the first bytes of a header have come, no failure of a read is passed on as it is.\<close>

lemma tcp_read_begun:
  assumes "read_source 24 src = (Ok first, src1)" and "first \<noteq> []"
  shows "\<exists>r src'. tcp_read src = Some (r, src') \<and> (\<forall>m. r = Ok m \<longrightarrow> sound_message m) \<and> (\<forall>k e. r \<noteq> Err (IOError k e))"
proof -
  obtain r2 src2 where g: "(if length first < 24 then read_exact read_source (24 - length first) src1
                     else Some (Ok [], src1)) = Some (r2, src2)"
    using read_exact_source_total [of "24 - length first" src1] by fastforce
  note t = tcp_read_def [of src, unfolded assms(1) prod.case outcome.case g option.case]
  show ?thesis
  proof (cases "incomplete ''incomplete wireless ADB packet header: '' r2")
    case i: (Ok rest2)
    show ?thesis
    proof (cases "header_decode (first @ rest2)")
      case (Ok h)
      with tcp_payload_sound [of h src2] i assms(2) show ?thesis by (simp add: t)
    next
      case (Err e)
      with header_decode_failure [OF Err] i assms(2) show ?thesis by (simp add: t)
    qed (use i assms(2) in \<open>simp add: t\<close>)
  next
    case (Err e)
    moreover from Err have "\<exists>b. e = ADBRequestFailed b" by (cases r2) (auto simp: incomplete_def)
    ultimately show ?thesis using assms(2) by (auto simp: t)
  qed (use assms(2) in \<open>simp add: t\<close>)
qed



text \<open>
  The USB transport reports a timeout between two transfers of one header as the idle timeout of a
  poll, although it has consumed, and drops, the first part of the header.
\<close>

lemma usb_partial_header_lost:
  assumes "length part = 8"
  shows "usb_read_message (Usb_Data part # Usb_Status 0xE00002D6 # script)
    = Some (Err (IOError TimedOut (Message (ascii ''macOS IOKit USB read timed out''))), script)"
  using assms by (auto simp: usb_read_message_def iokit_error_def)

text \<open>
  The header codec of \<open>adb_client\<close> is exact: twenty-four bytes decode to a header if and only if
  they are the encoding of that header.
\<close>

theorem header_codec_exact: "header_decode data = Ok h \<longleftrightarrow> data = header_encode h"
  using header_encode_decode by auto

end
