(* ===== verification/Link.thy ===== *)
theory Link
  imports Message_Transport
begin

text \<open>
  The connection to a device as the code above the transports sees it: \<open>ADBMessageTransport\<close>
  (\<^verbatim>\<open>message_devices/adb_message_transport.rs\<close>) with whole messages. What the device and the
  network will do is a script: the outcomes of the coming reads and writes. Clones of a transport
  share their connection, so that one link serves a device and all of its sessions.
\<close>

record link =
  ln_incoming :: "transport_message result list"
  ln_outcomes :: "unit result list"
  ln_closed :: rust_error
  ln_sent :: "transport_message list"

text \<open>\<open>read_message\<close> and \<open>read_message_with_timeout\<close>; at the end of the script the link is closed.\<close>

definition receive :: "(link, transport_message) io" where
  "receive l =
     (case ln_incoming l of
        [] \<Rightarrow> (Err (ln_closed l), l)
      | r # rs \<Rightarrow> (r, l\<lparr>ln_incoming := rs\<rparr>))"

text \<open>\<open>write_message\<close>; at the end of the script writes succeed.\<close>

definition transmit_message :: "transport_message \<Rightarrow> (link, unit) io" where
  "transmit_message m l =
     (case ln_outcomes l of
        [] \<Rightarrow> (Ok (), l\<lparr>ln_sent := ln_sent l @ [m]\<rparr>)
      | Ok _ # rs \<Rightarrow> (Ok (), l\<lparr>ln_outcomes := rs, ln_sent := ln_sent l @ [m]\<rparr>)
      | Err e # rs \<Rightarrow> (Err e, l\<lparr>ln_outcomes := rs\<rparr>)
      | Panic # rs \<Rightarrow> (Panic, l\<lparr>ln_outcomes := rs\<rparr>))"

text \<open>The frequent \<open>write_message(ADBTransportMessage::try_new(..)?)?\<close>.\<close>

definition transmit_new :: "message_command \<Rightarrow> u32 \<Rightarrow> u32 \<Rightarrow> bytes \<Rightarrow> (link, unit) io" where
  "transmit_new c a0 a1 data = bind_io (lift (message_try_new c a0 a1 data)) transmit_message"

definition expect_command :: "message_command \<Rightarrow> transport_message \<Rightarrow> (link, transport_message) io" where
  "expect_command c m = seq_io (lift (assert_command c m)) (lift (Ok m))"

text \<open>What was received is written before what was sent.\<close>

lemma link_update_order [simp]:
  "l\<lparr>ln_sent := x, ln_incoming := y\<rparr> = l\<lparr>ln_incoming := y, ln_sent := x\<rparr>"
  by simp

lemma receive_Cons [simp]: "ln_incoming l = r # rs \<Longrightarrow> receive l = (r, l\<lparr>ln_incoming := rs\<rparr>)"
  by (simp add: receive_def)

lemma receive_Nil [simp]: "ln_incoming l = [] \<Longrightarrow> receive l = (Err (ln_closed l), l)"
  by (simp add: receive_def)

lemma transmit_new_Ok [simp]:
  "ln_outcomes l = [] \<Longrightarrow> length data < 2 ^ 32 \<Longrightarrow>
     transmit_new c a0 a1 data l = (Ok (), l\<lparr>ln_sent := ln_sent l @ [message_new c a0 a1 data]\<rparr>)"
  by (simp add: transmit_new_def transmit_message_def)

lemma transmit_message_Ok [simp]:
  "ln_outcomes l = [] \<Longrightarrow> transmit_message m l = (Ok (), l\<lparr>ln_sent := ln_sent l @ [m]\<rparr>)"
  by (simp add: transmit_message_def)

text \<open>Every read shortens the script, and no operation lengthens it.\<close>

lemma receive_incoming: "receive l = (Ok m, l') \<Longrightarrow> length (ln_incoming l') < length (ln_incoming l)"
  by (auto simp: receive_def split: list.splits)

lemma receive_frame:
  "receive l = (r, l') \<Longrightarrow> ln_sent l' = ln_sent l \<and> ln_outcomes l' = ln_outcomes l \<and> ln_closed l' = ln_closed l"
  by (auto simp: receive_def split: list.splits)

lemma transmit_message_frame:
  "transmit_message m l = (r, l') \<Longrightarrow> ln_incoming l' = ln_incoming l \<and> ln_closed l' = ln_closed l"
  by (auto simp: transmit_message_def split: list.splits outcome.splits)

lemma transmit_new_frame:
  "transmit_new c a0 a1 data l = (r, l') \<Longrightarrow> ln_incoming l' = ln_incoming l \<and> ln_closed l' = ln_closed l"
  by (auto simp: transmit_new_def bind_io_def split: prod.splits outcome.splits dest: transmit_message_frame)

lemma transmit_message_sent:
  "transmit_message m l = (r, l') \<Longrightarrow> ln_sent l' = ln_sent l @ (if r = Ok () then [m] else [])"
  by (auto simp: transmit_message_def split: list.splits outcome.splits)

lemma transmit_new_OkD:
  "transmit_new c a0 a1 data l = (Ok (), l') \<Longrightarrow> ln_sent l' = ln_sent l @ [message_new c a0 a1 data]"
proof -
  assume "transmit_new c a0 a1 data l = (Ok (), l')"
  then obtain m where m: "message_try_new c a0 a1 data = Ok m" "transmit_message m l = (Ok (), l')"
    by (auto simp: transmit_new_def elim!: bind_io_OkD)
  from transmit_message_sent [OF m(2)] message_try_new_OkD [OF m(1)] show ?thesis by simp
qed

end
