(* ===== verification/Message_Session.thy ===== *)
theory Message_Session
  imports Link
begin

text \<open>
  \<^verbatim>\<open>message_devices/adb_session.rs\<close>: a session between a device handle and one service of \<open>adbd\<close>,
  the reader that turns its WRTE payloads into a byte stream, and the sync transfers over it. The
  file a transfer reads and the output it writes are any \<open>Read\<close> and \<open>Write\<close>.
\<close>

section \<open>Sessions\<close>

record adb_session =
  as_local_id :: u32
  as_remote_id :: u32

definition SESSION_BUFFER_SIZE :: nat where
  "SESSION_BUFFER_SIZE = 65535"

definition MAX_SYNC_ERROR_LENGTH :: nat where
  "MAX_SYNC_ERROR_LENGTH = 1024 * 1024"

definition recv_and_reply_okay :: "adb_session \<Rightarrow> (link, transport_message) io" where
  "recv_and_reply_okay a =
     bind_io receive (\<lambda>m.
       seq_io (transmit_new MC_Okay (as_local_id a) (as_remote_id a) []) (lift (Ok m)))"

definition send_and_expect_okay :: "transport_message \<Rightarrow> (link, transport_message) io" where
  "send_and_expect_okay m = seq_io (transmit_message m) (bind_io receive (expect_command MC_Okay))"

text \<open>\<open>send_and_expect_okay(ADBTransportMessage::try_new(Write, local_id, remote_id, payload)?)\<close>.\<close>

definition write_and_expect_okay :: "adb_session \<Rightarrow> bytes \<Rightarrow> (link, transport_message) io" where
  "write_and_expect_okay a payload =
     bind_io (lift (message_try_new MC_Write (as_local_id a) (as_remote_id a) payload)) send_and_expect_okay"

section \<open>The payload reader\<close>

record payload_reader =
  pr_link :: link
  pr_payload :: bytes
  pr_offset :: nat

definition payload_reader_new :: "link \<Rightarrow> payload_reader" where
  "payload_reader_new l = \<lparr>pr_link = l, pr_payload = [], pr_offset = 0\<rparr>"

text \<open>
  The refill of \<open>read\<close>: its \<open>while\<close> runs at most once, because an empty payload is an error and
  any other leaves the offset in front of bytes.
\<close>

definition refill :: "adb_session \<Rightarrow> (payload_reader, unit) io" where
  "refill a r =
     (case recv_and_reply_okay a (pr_link r) of
        (Err e, l) \<Rightarrow> (Err (IOError OtherKind (Wrapping e)), r\<lparr>pr_link := l\<rparr>)
      | (Panic, l) \<Rightarrow> (Panic, r\<lparr>pr_link := l\<rparr>)
      | (Ok m, l) \<Rightarrow>
          (case assert_command MC_Write m of
             Err e \<Rightarrow> (Err (IOError InvalidData (Wrapping e)), r\<lparr>pr_link := l\<rparr>)
           | Panic \<Rightarrow> (Panic, r\<lparr>pr_link := l\<rparr>)
           | Ok _ \<Rightarrow>
               (if tm_payload m = [] then Err (IOError InvalidData (Message (ascii ''empty ADB sync payload''))) else Ok (),
                \<lparr>pr_link = l, pr_payload = tm_payload m, pr_offset = 0\<rparr>)))"

definition payload_read :: "adb_session \<Rightarrow> payload_reader reader" where
  "payload_read a n r =
     (if n = 0 then (Ok [], r)
      else seq_io (if pr_offset r = length (pr_payload r) then refill a else lift (Ok ()))
        (\<lambda>r. let count = min n (length (pr_payload r) - pr_offset r)
             in (Ok (slice (pr_offset r) (pr_offset r + count) (pr_payload r)),
                 r\<lparr>pr_offset := pr_offset r + count\<rparr>)) r)"

text \<open>The bytes still to come, when the device sends nothing but WRTE packets with a payload.\<close>

definition writes_only :: "transport_message result list \<Rightarrow> bool" where
  "writes_only rs \<longleftrightarrow> (\<forall>r \<in> set rs. \<exists>m. r = Ok m \<and> msg_command m = MC_Write \<and> tm_payload m \<noteq> [])"

fun payloads :: "transport_message result list \<Rightarrow> bytes" where
  "payloads [] = []"
| "payloads (Ok m # rs) = tm_payload m @ payloads rs"
| "payloads (Err e # rs) = []"
| "payloads (Panic # rs) = []"

definition reader_content :: "payload_reader \<Rightarrow> bytes" where
  "reader_content r = drop (pr_offset r) (pr_payload r) @ payloads (ln_incoming (pr_link r))"

definition reader_good :: "payload_reader \<Rightarrow> bool" where
  "reader_good r \<longleftrightarrow> pr_offset r \<le> length (pr_payload r) \<and> writes_only (ln_incoming (pr_link r))
     \<and> ln_outcomes (pr_link r) = []"

lemma assert_command_Ok [simp]: "assert_command c m = Ok () \<longleftrightarrow> msg_command m = c"
  by (auto simp: assert_command_def Let_def)

lemma payload_read_good:
  assumes good: "reader_good r" and n: "0 < n" and c: "reader_content r \<noteq> []"
  shows "\<exists>bs r'. payload_read a n r = (Ok bs, r') \<and> bs \<noteq> [] \<and> length bs \<le> n
    \<and> reader_content r = bs @ reader_content r' \<and> reader_good r'"
proof (cases "pr_offset r = length (pr_payload r)")
  case False
  let ?count = "min n (length (pr_payload r) - pr_offset r)"
  from False good have lt: "pr_offset r < length (pr_payload r)" by (simp add: reader_good_def)
  have "payload_read a n r = (Ok (take ?count (drop (pr_offset r) (pr_payload r))), r\<lparr>pr_offset := pr_offset r + ?count\<rparr>)"
    using n False by (simp add: payload_read_def seq_io_def slice_def Let_def)
  moreover have "take ?count (drop (pr_offset r) (pr_payload r)) \<noteq> []" using lt n by simp
  moreover have "reader_content r = take ?count (drop (pr_offset r) (pr_payload r))
      @ reader_content (r\<lparr>pr_offset := pr_offset r + ?count\<rparr>)"
    by (simp add: reader_content_def append_assoc [symmetric] del: append_assoc)
      (metis add.commute append_take_drop_id drop_drop)
  ultimately show ?thesis using good n lt by (auto simp: reader_good_def)
next
  case True
  then have c': "payloads (ln_incoming (pr_link r)) \<noteq> []" using c by (simp add: reader_content_def)
  then obtain x rs where inc: "ln_incoming (pr_link r) = x # rs" by (cases "ln_incoming (pr_link r)") auto
  with good obtain m where m: "x = Ok m" "msg_command m = MC_Write" "tm_payload m \<noteq> []" "writes_only rs"
    by (auto simp: reader_good_def writes_only_def)
  let ?l = "(pr_link r)\<lparr>ln_incoming := rs, ln_sent := ln_sent (pr_link r) @ [message_new MC_Okay (as_local_id a) (as_remote_id a) []]\<rparr>"
  let ?r = "\<lparr>pr_link = ?l, pr_payload = tm_payload m, pr_offset = 0\<rparr>"
  let ?count = "min n (length (tm_payload m))"
  have "recv_and_reply_okay a (pr_link r) = (Ok m, ?l)"
    using inc m(1) good by (simp add: recv_and_reply_okay_def bind_io_def seq_io_def reader_good_def)
  then have "refill a r = (Ok (), ?r)"
    using m by (simp add: refill_def assert_command_def)
  then have "payload_read a n r = (Ok (take ?count (tm_payload m)), ?r\<lparr>pr_offset := ?count\<rparr>)"
    using n True by (simp add: payload_read_def seq_io_def bind_io_def slice_def Let_def)
  moreover have "take ?count (tm_payload m) \<noteq> []" using m(3) n by simp
  moreover have "reader_content r = take ?count (tm_payload m) @ reader_content (?r\<lparr>pr_offset := ?count\<rparr>)"
    using True inc m(1) by (simp add: reader_content_def append_assoc [symmetric] del: append_assoc)
  moreover have "reader_good (?r\<lparr>pr_offset := ?count\<rparr>)"
    using good m(4) by (simp add: reader_good_def)
  ultimately show ?thesis by auto
qed

lemma payload_read_end:
  assumes "reader_good r" and "0 < n" and "reader_content r = []"
  shows "ends (fst (payload_read a n r))"
    and "reader_content (snd (payload_read a n r)) = [] \<and> reader_good (snd (payload_read a n r))"
proof -
  from assms have off: "pr_offset r = length (pr_payload r)" and p: "payloads (ln_incoming (pr_link r)) = []"
    by (auto simp: reader_content_def reader_good_def)
  have "ln_incoming (pr_link r) = []"
  proof (cases "ln_incoming (pr_link r)")
    case (Cons x rs)
    with assms(1) p show ?thesis by (auto simp: reader_good_def writes_only_def)
  qed simp
  then have "recv_and_reply_okay a (pr_link r) = (Err (ln_closed (pr_link r)), pr_link r)"
    by (simp add: recv_and_reply_okay_def bind_io_def)
  with off assms(2) have "payload_read a n r = (Err (IOError OtherKind (Wrapping (ln_closed (pr_link r)))), r)"
    by (simp add: payload_read_def seq_io_def bind_io_def refill_def)
  with assms show "ends (fst (payload_read a n r))"
    "reader_content (snd (payload_read a n r)) = [] \<and> reader_good (snd (payload_read a n r))"
    by (simp_all add: ends_def)
qed

interpretation payload: ending_reader "payload_read a" reader_content reader_good for a
  by unfold_locales (rule payload_read_good payload_read_end(1) payload_read_end(2); assumption)+

section \<open>Receiving a file\<close>

text \<open>\<open>io::copy\<close> of at most \<open>limit\<close> bytes (\<open>take(limit)\<close>), through a buffer of 8 KiB.\<close>

partial_function (option) copy_take ::
    "'s reader \<Rightarrow> nat \<Rightarrow> nat \<Rightarrow> 's \<Rightarrow> sink \<Rightarrow> (nat result \<times> 's \<times> sink) option" where
  "copy_take rd limit copied s k =
     (if limit = 0 then Some (Ok copied, s, k)
      else case rd (min limit 8192) s of
        (Ok bs, s') \<Rightarrow>
          if bs = [] then Some (Ok copied, s', k)
          else (case write_all bs k of
              (Ok _, k') \<Rightarrow> copy_take rd (limit - length bs) (copied + length bs) s' k'
            | (Err e, k') \<Rightarrow> Some (Err e, s', k')
            | (Panic, k') \<Rightarrow> Some (Panic, s', k'))
      | (Err e, s') \<Rightarrow>
          if (case e of IOError Interrupted _ \<Rightarrow> True | _ \<Rightarrow> False) then copy_take rd limit copied s' k
          else Some (Err e, s', k)
      | (Panic, s') \<Rightarrow> Some (Panic, s', k))"

fun subcommand_debug :: "message_subcommand \<Rightarrow> bytes" where
  "subcommand_debug SC_Stat = ascii ''Stat''"
| "subcommand_debug SC_Send = ascii ''Send''"
| "subcommand_debug SC_Recv = ascii ''Recv''"
| "subcommand_debug SC_Quit = ascii ''Quit''"
| "subcommand_debug SC_Fail = ascii ''Fail''"
| "subcommand_debug SC_Done = ascii ''Done''"
| "subcommand_debug SC_Data = ascii ''Data''"
| "subcommand_debug SC_List = ascii ''List''"

partial_function (option) copy_sync_file :: "'s reader \<Rightarrow> 's \<Rightarrow> sink \<Rightarrow> (unit result \<times> 's \<times> sink) option" where
  "copy_sync_file rd s k =
     Option.bind (read_exact rd 8 s) (\<lambda>(r, s1).
       case r of
         Err e \<Rightarrow> Some (Err e, s1, k)
       | Panic \<Rightarrow> Some (Panic, s1, k)
       | Ok header \<Rightarrow>
           (case subcommand_try_from (from_le32 (take 4 header)) of
              Some SC_Data \<Rightarrow>
                Option.bind (copy_take rd (unat (from_le32 (drop 4 header))) 0 s1 k) (\<lambda>(r2, s2, k2).
                  case r2 of
                    Err e \<Rightarrow> Some (Err e, s2, k2)
                  | Panic \<Rightarrow> Some (Panic, s2, k2)
                  | Ok copied \<Rightarrow>
                      if copied \<noteq> unat (from_le32 (drop 4 header)) then
                        Some (Err (IOError UnexpectedEof (Message (ascii ''truncated ADB sync DATA payload''))), s2, k2)
                      else copy_sync_file rd s2 k2)
            | Some SC_Done \<Rightarrow> Some (Ok (), s1, k)
            | Some SC_Fail \<Rightarrow>
                if MAX_SYNC_ERROR_LENGTH < unat (from_le32 (drop 4 header)) then
                  Some (Err (ADBRequestFailed (ascii ''ADB sync error exceeds '' @ show_nat MAX_SYNC_ERROR_LENGTH @ ascii '' bytes'')), s1, k)
                else
                  Option.bind (read_exact rd (unat (from_le32 (drop 4 header))) s1) (\<lambda>(r2, s2).
                    Some (bind_outcome r2 (\<lambda>message. Err (ADBRequestFailed (utf8_lossy message))), s2, k))
            | Some other \<Rightarrow>
                Some (Err (UnknownResponseType (ascii ''unexpected ADB sync response '' @ subcommand_debug other)), s1, k)
            | None \<Rightarrow>
                Some (Err (UnknownResponseType (ascii ''unknown ADB sync response '' @ show_hex8 (from_le32 (take 4 header)))), s1, k)))"

definition recv_file :: "adb_session \<Rightarrow> link \<Rightarrow> sink \<Rightarrow> (unit result \<times> payload_reader \<times> sink) option" where
  "recv_file a l k = copy_sync_file (payload_read a) (payload_reader_new l) k"

text \<open>The stream of a download: one DATA frame per chunk, then DONE.\<close>

definition data_bytes :: "bytes \<Rightarrow> bytes" where
  "data_bytes chunk = with_arg_encode (with_arg SC_Data (word_of_nat (length chunk))) @ chunk"

definition download_bytes :: "bytes list \<Rightarrow> u32 \<Rightarrow> bytes" where
  "download_bytes chunks mtime = concat (map data_bytes chunks) @ with_arg_encode (with_arg SC_Done mtime)"

lemma with_arg_encode_parts:
  "subcommand_try_from (from_le32 (take 4 (with_arg_encode (with_arg c n)))) = Some c"
  "from_le32 (drop 4 (with_arg_encode (with_arg c n))) = n"
  by (simp_all add: with_arg_encode_def with_arg_def)

lemma write_all_accepting [simp]: "sk_script k = [] \<Longrightarrow> write_all bs k = (Ok (), k\<lparr>sk_out := sk_out k @ bs\<rparr>)"
  by (simp add: write_all_def)

context byte_reader
begin

lemma copy_take_content:
  assumes "good s" and "content s = xs @ rest" and "sk_script k = []"
  shows "\<exists>s'. copy_take rd (length xs) copied s k = Some (Ok (copied + length xs), s', k\<lparr>sk_out := sk_out k @ xs\<rparr>)
    \<and> content s' = rest \<and> good s'"
  using assms
proof (induction "length xs" arbitrary: xs s k copied rule: less_induct)
  case less
  show ?case
  proof (cases "xs = []")
    case True
    with less.prems show ?thesis by (simp add: copy_take.simps)
  next
    case False
    with less.prems rd_ok [of s "min (length xs) 8192"] obtain bs s1
      where rd: "rd (min (length xs) 8192) s = (Ok bs, s1)" "bs \<noteq> []" "length bs \<le> length xs"
        "content s = bs @ content s1" "good s1" by auto
    from less.prems(2) rd(3,4) obtain ys where ys: "xs = bs @ ys" "content s1 = ys @ rest"
      by (metis append_split)
    let ?k = "k\<lparr>sk_out := sk_out k @ bs\<rparr>"
    from ys rd(2) have "length ys < length xs" by simp
    from less.hyps [OF this rd(5) ys(2), of ?k "copied + length bs"] less.prems(3) obtain s'
      where "copy_take rd (length ys) (copied + length bs) s1 ?k
          = Some (Ok (copied + length bs + length ys), s', ?k\<lparr>sk_out := sk_out ?k @ ys\<rparr>)"
        "content s' = rest" "good s'" by auto
    with rd(1,2) ys(1) False less.prems(3) show ?thesis
      by (subst copy_take.simps) simp
  qed
qed

lemma copy_sync_file_content:
  assumes "good s" and "content s = download_bytes chunks mtime @ rest" and "sk_script k = []"
    and "\<forall>c \<in> set chunks. length c < 2 ^ 32"
  shows "\<exists>s'. copy_sync_file rd s k = Some (Ok (), s', k\<lparr>sk_out := sk_out k @ concat chunks\<rparr>)
    \<and> content s' = rest \<and> good s'"
  using assms
proof (induction chunks arbitrary: s k)
  case Nil
  let ?h = "with_arg_encode (with_arg SC_Done mtime)"
  from Nil.prems read_exact_content [of s ?h rest] obtain s'
    where "read_exact rd 8 s = Some (Ok ?h, s')" "content s' = rest" "good s'"
    by (auto simp: download_bytes_def)
  then show ?case
    by (subst copy_sync_file.simps) (simp add: with_arg_encode_parts)
next
  case (Cons c cs)
  let ?h = "with_arg_encode (with_arg SC_Data (word_of_nat (length c)))"
  let ?k = "k\<lparr>sk_out := sk_out k @ c\<rparr>"
  have "content s = ?h @ (c @ download_bytes cs mtime @ rest)"
    using Cons.prems(2) by (simp add: download_bytes_def data_bytes_def)
  from read_exact_content [OF Cons.prems(1) this] obtain s1
    where h: "read_exact rd 8 s = Some (Ok ?h, s1)" "content s1 = c @ download_bytes cs mtime @ rest" "good s1"
    by auto
  from copy_take_content [OF h(3,2) Cons.prems(3), of 0] obtain s2
    where t: "copy_take rd (length c) 0 s1 k = Some (Ok (length c), s2, ?k)"
      "content s2 = download_bytes cs mtime @ rest" "good s2" by auto
  have "sk_script ?k = []" using Cons.prems(3) by simp
  from Cons.IH [OF t(3,2) this] Cons.prems(4) obtain s'
    where "copy_sync_file rd s2 ?k = Some (Ok (), s', ?k\<lparr>sk_out := sk_out ?k @ concat cs\<rparr>)"
      "content s' = rest" "good s'" by auto
  with h t Cons.prems(4) show ?case
    by (subst copy_sync_file.simps) (simp add: with_arg_encode_parts)
qed

end

context ending_reader
begin

lemma copy_take_short:
  assumes "good s" and "length (content s) < n" and "sk_script k = []"
  shows "\<exists>r s' k'. copy_take rd n copied s k = Some (r, s', k') \<and> (r = Ok (copied + length (content s)) \<or> (\<exists>e. r = Err e))"
  using assms
proof (induction n arbitrary: s k copied rule: less_induct)
  case (less n)
  obtain r s1 where r: "rd (min n 8192) s = (r, s1)" by fastforce
  show ?case
  proof (cases "content s = []")
    case True
    with rd_end [OF less.prems(1), of "min n 8192"] less.prems(2) r have "ends r" by simp
    with r less.prems(2) True show ?thesis
      by (subst copy_take.simps) (auto simp: ends_def)
  next
    case False
    with rd_ok [OF less.prems(1), of "min n 8192"] less.prems(2) r obtain bs
      where rd: "r = Ok bs" "bs \<noteq> []" "length bs \<le> n" "content s = bs @ content s1" "good s1" by auto
    let ?k = "k\<lparr>sk_out := sk_out k @ bs\<rparr>"
    from rd have "n - length bs < n" "length (content s1) < n - length bs"
      using less.prems(2) by auto
    moreover have "sk_script ?k = []" using less.prems(3) by simp
    ultimately have "\<exists>r s' k'. copy_take rd (n - length bs) (copied + length bs) s1 ?k = Some (r, s', k')
        \<and> (r = Ok (copied + length bs + length (content s1)) \<or> (\<exists>e. r = Err e))"
      using less.IH rd(5) by blast
    with r rd less.prems(2,3) show ?thesis
      by (subst copy_take.simps) (auto simp: add.assoc)
  qed
qed

lemma copy_sync_file_truncated:
  assumes "good s" and "content s = take n (download_bytes chunks mtime)"
    and "n < length (download_bytes chunks mtime)" and "sk_script k = []"
    and "\<forall>c \<in> set chunks. length c < 2 ^ 32"
  shows "\<exists>e s' k'. copy_sync_file rd s k = Some (Err e, s', k')"
  using assms
proof (induction chunks arbitrary: s k n)
  case Nil
  then have "length (content s) < 8" by (simp add: download_bytes_def)
  from read_exact_short [OF Nil.prems(1) this] show ?case
    by (subst copy_sync_file.simps) auto
next
  case (Cons c cs)
  let ?h = "with_arg_encode (with_arg SC_Data (word_of_nat (length c)))"
  have d: "download_bytes (c # cs) mtime = ?h @ c @ download_bytes cs mtime"
    by (simp add: download_bytes_def data_bytes_def)
  show ?case
  proof (cases "n < 8")
    case True
    with Cons.prems(2) have "length (content s) < 8" by simp
    from read_exact_short [OF Cons.prems(1) this] show ?thesis
      by (subst copy_sync_file.simps) auto
  next
    case False
    then have "content s = ?h @ take (n - 8) (c @ download_bytes cs mtime)"
      using Cons.prems(2) d by simp
    from read_exact_content [OF Cons.prems(1) this] obtain s1
      where h: "read_exact rd 8 s = Some (Ok ?h, s1)" "content s1 = take (n - 8) (c @ download_bytes cs mtime)" "good s1"
      by auto
    have len: "unat (from_le32 (drop 4 ?h)) = length c"
      using Cons.prems(5) by (simp add: with_arg_encode_parts)
    show ?thesis
    proof (cases "n - 8 < length c")
      case True
      with h(2) have "length (content s1) < length c" by simp
      from copy_take_short [OF h(3) this Cons.prems(4), of 0] obtain r s2 k2
        where "copy_take rd (length c) 0 s1 k = Some (r, s2, k2)" "r = Ok (length (content s1)) \<or> (\<exists>e. r = Err e)"
        by auto
      with h(1) len \<open>length (content s1) < length c\<close> show ?thesis
        by (subst copy_sync_file.simps) (auto simp: with_arg_encode_parts)
    next
      case F: False
      then have "content s1 = c @ take (n - 8 - length c) (download_bytes cs mtime)"
        using h(2) by simp
      from copy_take_content [OF h(3) this Cons.prems(4), of 0] obtain s2
        where t: "copy_take rd (length c) 0 s1 k = Some (Ok (length c), s2, k\<lparr>sk_out := sk_out k @ c\<rparr>)"
          "content s2 = take (n - 8 - length c) (download_bytes cs mtime)" "good s2" by auto
      have "n - 8 - length c < length (download_bytes cs mtime)" "sk_script (k\<lparr>sk_out := sk_out k @ c\<rparr>) = []"
        "\<forall>c \<in> set cs. length c < 2 ^ 32"
        using Cons.prems(3-5) d F False by auto
      from Cons.IH [OF t(3,2) this] obtain e s' k'
        where "copy_sync_file rd s2 (k\<lparr>sk_out := sk_out k @ c\<rparr>) = Some (Err e, s', k')" by blast
      with h(1) t(1) len show ?thesis
        by (subst copy_sync_file.simps) (simp add: with_arg_encode_parts)
    qed
  qed
qed

end

text \<open>
  C8: a download over a session writes exactly the file, however the sync stream is cut into DATA
  frames and the frames into WRTE packets; and when the device closes the connection before the last
  byte of the stream, the download fails instead of leaving a shorter file for a complete one.
\<close>

theorem recv_file_exact:
  assumes "writes_only (ln_incoming l)" and "ln_outcomes l = []" and "sk_script k = []"
    and "\<forall>c \<in> set chunks. length c < 2 ^ 32"
  shows "(payloads (ln_incoming l) = download_bytes chunks mtime @ rest \<longrightarrow>
        (\<exists>r. recv_file a l k = Some (Ok (), r, k\<lparr>sk_out := sk_out k @ concat chunks\<rparr>)))
    \<and> (payloads (ln_incoming l) = take n (download_bytes chunks mtime) \<and> n < length (download_bytes chunks mtime) \<longrightarrow>
        (\<exists>e r k'. recv_file a l k = Some (Err e, r, k')))"
proof -
  have g: "reader_good (payload_reader_new l)"
    using assms(1,2) by (simp add: reader_good_def payload_reader_new_def)
  have c: "reader_content (payload_reader_new l) = payloads (ln_incoming l)"
    by (simp add: reader_content_def payload_reader_new_def)
  show ?thesis
    using payload.copy_sync_file_content [OF g _ assms(3,4)]
      payload.copy_sync_file_truncated [OF g _ _ assms(3,4)]
    by (auto simp: recv_file_def c) blast
qed

text \<open>The download of a two-byte file whose DATA header arrives in two packets, and its first 5 bytes.\<close>

theorem recv_file_exact_witness:
  "let s = \<lparr>as_local_id = 7, as_remote_id = 9\<rparr>;
       d = download_bytes [[1, 2]] 0;
       l = (\<lambda>rs. \<lparr>ln_incoming = rs, ln_outcomes = [], ln_closed = TLSError, ln_sent = []\<rparr>);
       w = (\<lambda>b. Ok (message_new MC_Write 9 7 b));
       k = \<lparr>sk_script = [], sk_out = []\<rparr>
   in (\<exists>r. recv_file s (l [w (take 3 d), w (drop 3 d)]) k = Some (Ok (), r, k\<lparr>sk_out := [1, 2]\<rparr>))
    \<and> (\<exists>e r k'. recv_file s (l [w (take 5 d)]) k = Some (Err e, r, k'))"
proof -
  let ?d = "download_bytes [[1, 2]] 0"
  have len: "length ?d = 18" by (simp add: download_bytes_def data_bytes_def)
  have "?d \<noteq> []" by (rule notI) (use len in simp)
  then have ne: "take 3 ?d \<noteq> []" "drop 3 ?d \<noteq> []" "take 5 ?d \<noteq> []"
    using len by simp_all
  show ?thesis
    using recv_file_exact [of "\<lparr>ln_incoming = [Ok (message_new MC_Write 9 7 (take 3 ?d)), Ok (message_new MC_Write 9 7 (drop 3 ?d))],
          ln_outcomes = [], ln_closed = TLSError, ln_sent = []\<rparr>" "\<lparr>sk_script = [], sk_out = []\<rparr>" "[[1, 2]]" 0 "[]"
          "\<lparr>as_local_id = 7, as_remote_id = 9\<rparr>" 0]
      recv_file_exact [of "\<lparr>ln_incoming = [Ok (message_new MC_Write 9 7 (take 5 ?d))],
          ln_outcomes = [], ln_closed = TLSError, ln_sent = []\<rparr>" "\<lparr>sk_script = [], sk_out = []\<rparr>" "[[1, 2]]" 0 "[]"
          "\<lparr>as_local_id = 7, as_remote_id = 9\<rparr>" 5] ne len
    by (simp add: writes_only_def Let_def)
qed

section \<open>Sending a file\<close>

definition push_data :: "adb_session \<Rightarrow> bytes \<Rightarrow> (link, transport_message) io" where
  "push_data a bs =
     bind_io (lift (u32_try_from (length bs))) (\<lambda>n.
       write_and_expect_okay a (with_arg_encode (with_arg SC_Data n) @ bs))"

definition push_done :: "adb_session \<Rightarrow> (link, unit) io" where
  "push_done a =
     seq_io (write_and_expect_okay a (with_arg_encode (with_arg SC_Done 0)))
       (bind_io receive (\<lambda>received.
          if msg_command received = MC_Write then lift (Ok ())
          else lift (Err (ADBRequestFailed (ascii ''Wrong command received '' @ message_command_text (msg_command received))))))"

partial_function (option) push_loop ::
    "adb_session \<Rightarrow> 's reader \<Rightarrow> 's \<Rightarrow> link \<Rightarrow> (unit result \<times> 's \<times> link) option" where
  "push_loop a rd s l =
     (case rd SESSION_BUFFER_SIZE s of
        (Ok bs, s') \<Rightarrow>
          if bs = [] then (case push_done a l of (r, l') \<Rightarrow> Some (r, s', l'))
          else (case push_data a bs l of
              (Ok _, l') \<Rightarrow> push_loop a rd s' l'
            | (Err e, l') \<Rightarrow> Some (Err e, s', l')
            | (Panic, l') \<Rightarrow> Some (Panic, s', l'))
      | (Err e, s') \<Rightarrow> Some (Err e, s', l)
      | (Panic, s') \<Rightarrow> Some (Panic, s', l))"

text \<open>The first read is sent whatever it yields, so that an empty file is sent as an empty DATA frame.\<close>

definition push_file :: "adb_session \<Rightarrow> 's reader \<Rightarrow> 's \<Rightarrow> link \<Rightarrow> (unit result \<times> 's \<times> link) option" where
  "push_file a rd s l =
     (case rd SESSION_BUFFER_SIZE s of
        (Ok bs, s') \<Rightarrow>
          (case push_data a bs l of
              (Ok _, l') \<Rightarrow> push_loop a rd s' l'
            | (Err e, l') \<Rightarrow> Some (Err e, s', l')
            | (Panic, l') \<Rightarrow> Some (Panic, s', l'))
      | (Err e, s') \<Rightarrow> Some (Err e, s', l)
      | (Panic, s') \<Rightarrow> Some (Panic, s', l))"

text \<open>
  \<open>acknowledged a bs m l l'\<close>: the payload \<open>bs\<close> was sent as one WRTE of the session and the next
  message, \<open>m\<close>, was its OKAY.
\<close>

definition acknowledged :: "adb_session \<Rightarrow> bytes \<Rightarrow> transport_message \<Rightarrow> link \<Rightarrow> link \<Rightarrow> bool" where
  "acknowledged a bs m l l' \<longleftrightarrow>
     msg_command m = MC_Okay \<and> ln_incoming l = Ok m # ln_incoming l'
     \<and> ln_sent l' = ln_sent l @ [message_new MC_Write (as_local_id a) (as_remote_id a) bs]"

lemma receive_OkD: "receive l = (Ok m, l') \<Longrightarrow> ln_incoming l = Ok m # ln_incoming l' \<and> ln_sent l' = ln_sent l"
  by (auto simp: receive_def split: list.splits)

lemma expect_command_OkD: "expect_command c m l = (Ok m', l') \<Longrightarrow> m' = m \<and> l' = l \<and> msg_command m = c"
  by (auto simp: expect_command_def elim!: seq_io_OkD)

lemma write_and_expect_okay_OkD:
  assumes "write_and_expect_okay a bs l = (Ok m, l')"
  shows "acknowledged a bs m l l'"
proof -
  from assms obtain t l1 l2 where
    "message_try_new MC_Write (as_local_id a) (as_remote_id a) bs = Ok t"
    and t: "transmit_message t l = (Ok (), l1)" and r: "receive l1 = (Ok m, l2)" "msg_command m = MC_Okay" "l' = l2"
    by (auto simp: write_and_expect_okay_def send_and_expect_okay_def
        elim!: bind_io_OkD seq_io_OkD dest!: expect_command_OkD)
  then have "t = message_new MC_Write (as_local_id a) (as_remote_id a) bs" by (simp add: message_try_new_OkD)
  with r transmit_message_frame [OF t] transmit_message_sent [OF t] receive_OkD [OF r(1)] show ?thesis
    by (simp add: acknowledged_def)
qed

lemma push_data_small: "length bs < 2 ^ 32 \<Longrightarrow> push_data a bs = write_and_expect_okay a (data_bytes bs)"
  by (simp add: push_data_def data_bytes_def)

lemma push_data_OkD:
  "push_data a bs l = (Ok m, l') \<Longrightarrow> length bs < 2 ^ 32 \<and> acknowledged a (data_bytes bs) m l l'"
  by (auto simp: push_data_def u32_try_from_def data_bytes_def elim!: bind_io_OkD
      dest: write_and_expect_okay_OkD)

lemma push_done_OkD:
  assumes "push_done a l = (Ok (), l')"
  obtains m v l1 where "acknowledged a (with_arg_encode (with_arg SC_Done 0)) m l l1"
    "ln_incoming l1 = Ok v # ln_incoming l'" "ln_sent l' = ln_sent l1" "msg_command v = MC_Write"
  using assms
  by (auto simp: push_done_def split: if_splits elim!: bind_io_OkD seq_io_OkD
      dest!: write_and_expect_okay_OkD receive_OkD)

lemma expect_command_Ok [simp]: "msg_command m = c \<Longrightarrow> expect_command c m l = (Ok m, l)"
  by (simp add: expect_command_def seq_io_def bind_io_def assert_command_def)

lemma write_and_expect_okay_run:
  assumes "ln_outcomes l = []" and "ln_incoming l = Ok m # rs" and "msg_command m = MC_Okay" and "length bs < 2 ^ 32"
  shows "write_and_expect_okay a bs l = (Ok m, l\<lparr>ln_incoming := rs,
    ln_sent := ln_sent l @ [message_new MC_Write (as_local_id a) (as_remote_id a) bs]\<rparr>)"
  using assms
  by (simp add: write_and_expect_okay_def send_and_expect_okay_def seq_io_def bind_io_def)

text \<open>What a successful upload of \<open>file\<close> did on the link.\<close>

definition uploaded :: "adb_session \<Rightarrow> bytes list \<Rightarrow> link \<Rightarrow> link \<Rightarrow> bool" where
  "uploaded a chunks l l' \<longleftrightarrow>
     (\<exists>acks verdict.
        ln_sent l' = ln_sent l @ map (message_new MC_Write (as_local_id a) (as_remote_id a))
          (map data_bytes chunks @ [with_arg_encode (with_arg SC_Done 0)])
      \<and> ln_incoming l = map Ok acks @ Ok verdict # ln_incoming l'
      \<and> length acks = length chunks + 1 \<and> (\<forall>m \<in> set acks. msg_command m = MC_Okay)
      \<and> msg_command verdict = MC_Write)"

lemma uploaded_Nil: "push_done a l = (Ok (), l') \<Longrightarrow> uploaded a [] l l'"
  unfolding uploaded_def
  by (elim push_done_OkD, rule exI [where x = "[_]"]) (auto simp: acknowledged_def)

lemma uploaded_Cons: "acknowledged a (data_bytes c) m l l1 \<Longrightarrow> uploaded a cs l1 l' \<Longrightarrow> uploaded a (c # cs) l l'"
  unfolding uploaded_def acknowledged_def
  by (elim exE conjE, rule_tac x = "m # acks" in exI) auto

context ending_reader
begin

lemma push_loop_uploads:
  assumes "good s"
  shows "\<exists>r s' l'. push_loop a rd s l = Some (r, s', l')
    \<and> (r = Ok () \<longrightarrow> (\<exists>chunks. concat chunks = content s
        \<and> (\<forall>c \<in> set chunks. c \<noteq> [] \<and> length c \<le> SESSION_BUFFER_SIZE) \<and> uploaded a chunks l l'))"
  using assms
proof (induction "length (content s)" arbitrary: s l rule: less_induct)
  case less
  obtain r s1 where r: "rd SESSION_BUFFER_SIZE s = (r, s1)" by fastforce
  have pos: "0 < SESSION_BUFFER_SIZE" by (simp add: SESSION_BUFFER_SIZE_def)
  show ?case
  proof (cases "content s = []")
    case True
    obtain d l1 where d: "push_done a l = (d, l1)" by fastforce
    from rd_end [OF less.prems pos True] r have "ends r" by simp
    with r d True show ?thesis
      by (subst push_loop.simps)
        (auto simp: ends_def intro!: exI [of _ "[]"] dest: uploaded_Nil)
  next
    case False
    with rd_ok [OF less.prems pos] r obtain bs
      where rd: "r = Ok bs" "bs \<noteq> []" "length bs \<le> SESSION_BUFFER_SIZE" "content s = bs @ content s1" "good s1"
      by auto
    obtain q l1 where q: "push_data a bs l = (q, l1)" by fastforce
    show ?thesis
    proof (cases q)
      case (Ok m)
      from rd(2,4) have "length (content s1) < length (content s)" by simp
      from less.hyps [OF this rd(5), of l1] obtain w s' l'
        where w: "push_loop a rd s1 l1 = Some (w, s', l')"
          "w = Ok () \<longrightarrow> (\<exists>chunks. concat chunks = content s1
              \<and> (\<forall>c \<in> set chunks. c \<noteq> [] \<and> length c \<le> SESSION_BUFFER_SIZE) \<and> uploaded a chunks l1 l')" by blast
      have "acknowledged a (data_bytes bs) m l l1" using q Ok push_data_OkD by blast
      with w(2) rd(2-4) have "w = Ok () \<longrightarrow> (\<exists>chunks. concat chunks = content s
              \<and> (\<forall>c \<in> set chunks. c \<noteq> [] \<and> length c \<le> SESSION_BUFFER_SIZE) \<and> uploaded a chunks l l')"
        by (metis (no_types, lifting) concat.simps(2) set_ConsD uploaded_Cons)
      with w(1) r rd(1,2) q Ok show ?thesis by (subst push_loop.simps) simp
    qed (use r rd(1,2) q in \<open>subst push_loop.simps; simp\<close>)+
  qed
qed

lemma push_file_uploads:
  assumes "good s"
  shows "\<exists>r s' l'. push_file a rd s l = Some (r, s', l')
    \<and> (r = Ok () \<longrightarrow> (\<exists>chunks. concat chunks = content s
        \<and> (\<forall>c \<in> set chunks. length c \<le> SESSION_BUFFER_SIZE) \<and> [] \<notin> set (tl chunks) \<and> uploaded a chunks l l'))"
proof -
  obtain r s1 where r: "rd SESSION_BUFFER_SIZE s = (r, s1)" by fastforce
  have pos: "0 < SESSION_BUFFER_SIZE" by (simp add: SESSION_BUFFER_SIZE_def)
  show ?thesis
  proof (cases r)
    case (Ok bs)
    obtain q l1 where q: "push_data a bs l = (q, l1)" by fastforce
    show ?thesis
    proof (cases q)
      case (Ok m)
      have bs: "content s = bs @ content s1 \<and> good s1 \<and> length bs \<le> SESSION_BUFFER_SIZE"
        using rd_ok [OF assms pos] rd_end [OF assms pos] rd_stays [OF assms pos] r \<open>r = Ok bs\<close>
        by (cases "content s = []") (auto simp: ends_def)
      then obtain w s' l' where w: "push_loop a rd s1 l1 = Some (w, s', l')"
          "w = Ok () \<longrightarrow> (\<exists>chunks. concat chunks = content s1
              \<and> (\<forall>c \<in> set chunks. c \<noteq> [] \<and> length c \<le> SESSION_BUFFER_SIZE) \<and> uploaded a chunks l1 l')"
        using push_loop_uploads by blast
      have "acknowledged a (data_bytes bs) m l l1" using q Ok push_data_OkD by blast
      with w(2) bs have "w = Ok () \<longrightarrow> (\<exists>chunks. concat chunks = content s
              \<and> (\<forall>c \<in> set chunks. length c \<le> SESSION_BUFFER_SIZE) \<and> [] \<notin> set (tl chunks) \<and> uploaded a chunks l l')"
        by (metis (no_types, lifting) concat.simps(2) list.sel(3) set_ConsD uploaded_Cons)
      with w(1) r \<open>r = Ok bs\<close> q Ok show ?thesis by (simp add: push_file_def)
    qed (use r \<open>r = Ok bs\<close> q in \<open>simp add: push_file_def\<close>)+
  qed (use r in \<open>simp add: push_file_def\<close>)+
qed

end

text \<open>
  C9: an upload always returns, and when it reports success the file was cut into chunks of at
  most 65535 bytes, none of them empty but perhaps the first; the WRTEs sent are one DATA frame per
  chunk and then DONE, each acknowledged with an OKAY before the next was sent, and the device's
  last word was a WRTE.
\<close>

theorem push_file_exact:
  assumes "flowing src"
  shows "\<exists>r src' l'. push_file a read_source src l = Some (r, src', l')
    \<and> (r = Ok () \<longrightarrow> (\<exists>chunks. concat chunks = source_bytes src
        \<and> (\<forall>c \<in> set chunks. length c \<le> 65535) \<and> [] \<notin> set (tl chunks) \<and> uploaded a chunks l l'))"
  using source.push_file_uploads [OF assms, of a l] by (simp add: SESSION_BUFFER_SIZE_def)

theorem push_file_exact_witness:
  "\<exists>r src' l'. push_file \<lparr>as_local_id = 7, as_remote_id = 9\<rparr> read_source [Chunk [1, 2, 3]]
       \<lparr>ln_incoming = [], ln_outcomes = [], ln_closed = TLSError, ln_sent = []\<rparr> = Some (r, src', l')"
proof -
  have "flowing [Chunk [1, 2, 3]]" by (simp add: flowing_def)
  from push_file_exact [OF this] show ?thesis by blast
qed

text \<open>
  The last WRTE is where \<open>adbd\<close> puts its verdict, and the upload never reads it: whatever the
  device answers, a refusal for one, is a success.
\<close>

lemma push_file_ignores_verdict:
  assumes "msg_command verdict = MC_Write" and "\<forall>m \<in> {ack1, ack2}. msg_command m = MC_Okay"
  shows "\<exists>l'. push_file a read_source [Chunk [1]]
      \<lparr>ln_incoming = [Ok ack1, Ok ack2, Ok verdict], ln_outcomes = [], ln_closed = TLSError, ln_sent = []\<rparr>
    = Some (Ok (), [], l')"
proof -
  let ?l = "\<lparr>ln_incoming = [Ok ack1, Ok ack2, Ok verdict], ln_outcomes = [], ln_closed = TLSError, ln_sent = []\<rparr>"
  have "push_data a [1] = write_and_expect_okay a (data_bytes [1])" by (rule push_data_small) simp
  moreover have "length (data_bytes [1]) < 2 ^ 32" by (simp add: data_bytes_def)
  ultimately obtain l1 where d: "push_data a [1] ?l = (Ok ack1, l1)" "ln_outcomes l1 = []"
      "ln_incoming l1 = [Ok ack2, Ok verdict]"
    using assms(2) write_and_expect_okay_run [of ?l ack1 "[Ok ack2, Ok verdict]" "data_bytes [1]" a] by simp
  let ?done = "with_arg_encode (with_arg SC_Done 0)"
  have "write_and_expect_okay a ?done l1 = (Ok ack2, l1\<lparr>ln_incoming := [Ok verdict],
      ln_sent := ln_sent l1 @ [message_new MC_Write (as_local_id a) (as_remote_id a) ?done]\<rparr>)"
    using d(2,3) assms(2) by (intro write_and_expect_okay_run) simp_all
  then obtain l2 where "push_done a l1 = (Ok (), l2)"
    using assms(1) by (simp add: push_done_def bind_io_def seq_io_def)
  then have "push_loop a read_source [] l1 = Some (Ok (), [], l2)"
    by (subst push_loop.simps) simp
  with d(1) show ?thesis by (simp add: push_file_def SESSION_BUFFER_SIZE_def)
qed

end
