(* ===== verification/Client_Models.thy ===== *)
theory Client_Models
  imports Rust_IO
begin

text \<open>
  The values the commands of \<open>adb_client\<close> exchange: \<^verbatim>\<open>adb_client/src/models\<close> (the service names of
  device and host commands, statuses, \<open>stat\<close> and list entries, framebuffer headers, remount reports)
  and the small models of \<^verbatim>\<open>adb_client/src/server/models\<close>. Regular expressions are the library's: the
  groups they capture are a parameter.
\<close>

section \<open>Service names\<close>

datatype reboot_type = System | Bootloader | Recovery | Sideload | SideloadAutoReboot | Fastboot

fun reboot_type_text :: "reboot_type \<Rightarrow> bytes" where
  "reboot_type_text System = ascii ''''"
| "reboot_type_text Bootloader = ascii ''bootloader''"
| "reboot_type_text Recovery = ascii ''recovery''"
| "reboot_type_text Sideload = ascii ''sideload''"
| "reboot_type_text SideloadAutoReboot = ascii ''sideload-auto-reboot''"
| "reboot_type_text Fastboot = ascii ''fastboot''"

datatype sync_command = Sync_List | Sync_Recv | Sync_Send | Sync_Stat

fun sync_command_text :: "sync_command \<Rightarrow> bytes" where
  "sync_command_text Sync_List = ascii ''LIST''"
| "sync_command_text Sync_Recv = ascii ''RECV''"
| "sync_command_text Sync_Send = ascii ''SEND''"
| "sync_command_text Sync_Stat = ascii ''STAT''"

datatype local_command =
    ShellCommand bytes "bytes list"
  | Shell
  | Exec bytes
  | Sync
  | Reboot reboot_type
  | Forward bytes bytes
  | ForwardRemove bytes
  | ForwardRemoveAll
  | Reverse bytes bytes
  | ReverseRemove bytes
  | ReverseRemoveAll
  | Reconnect
  | Remount
  | DisableVerity
  | EnableVerity
  | Uninstall bytes "bytes option"
  | Install u64 "bytes option" "bytes list"
  | AbbExec "bytes list"
  | TcpIp u16
  | Usb
  | Root
  | FrameBuffer

fun user_argument :: "bytes option \<Rightarrow> bytes" where
  "user_argument None = []"
| "user_argument (Some user) = ascii '' --user '' @ user"

text \<open>The service name of a command; \<open>term\<close> is the environment's \<open>TERM\<close>.\<close>

primrec local_command_text :: "bytes option \<Rightarrow> local_command \<Rightarrow> bytes" where
  "local_command_text term Sync = ascii ''sync:''"
| "local_command_text term (ShellCommand command args) =
     (if args = [] then ascii ''shell:'' @ command
      else ascii ''shell,'' @ join (ascii '','') args @ ascii '',raw:'' @ command)"
| "local_command_text term Shell =
     (case term of
        Some t \<Rightarrow> ascii ''shell,TERM='' @ t @ ascii '',raw:''
      | None \<Rightarrow> ascii ''shell,raw:'')"
| "local_command_text term (Exec command) = ascii ''exec:'' @ command"
| "local_command_text term (Reboot t) = ascii ''reboot:'' @ reboot_type_text t"
| "local_command_text term (Uninstall package user) =
     ascii ''exec:cmd package '' @ [39] @ ascii ''uninstall'' @ [39] @ user_argument user @ ascii '' '' @ package"
| "local_command_text term (Install bytes_count user flags) =
     ascii ''exec:cmd package '' @ [39] @ ascii ''install'' @ [39] @ user_argument user
     @ concat (map (\<lambda>flag. ascii '' '' @ flag) flags) @ ascii '' -S '' @ show_nat (unat bytes_count)"
| "local_command_text term (AbbExec arguments) = ascii ''abb_exec:'' @ join [0] arguments"
| "local_command_text term (Forward remote near) = ascii ''host:forward:'' @ near @ ascii '';'' @ remote"
| "local_command_text term (ForwardRemove near) = ascii ''host:killforward:'' @ near"
| "local_command_text term ForwardRemoveAll = ascii ''host:killforward-all''"
| "local_command_text term (Reverse remote near) = ascii ''reverse:forward:'' @ remote @ ascii '';'' @ near"
| "local_command_text term (ReverseRemove remote) = ascii ''reverse:killforward:'' @ remote"
| "local_command_text term ReverseRemoveAll = ascii ''reverse:killforward-all''"
| "local_command_text term Reconnect = ascii ''reconnect''"
| "local_command_text term Remount = ascii ''remount:''"
| "local_command_text term DisableVerity = ascii ''disable-verity:''"
| "local_command_text term EnableVerity = ascii ''enable-verity:''"
| "local_command_text term (TcpIp port) = ascii ''tcpip:'' @ show_nat (unat port)"
| "local_command_text term Usb = ascii ''usb:''"
| "local_command_text term Root = ascii ''root:''"
| "local_command_text term FrameBuffer = ascii ''framebuffer:''"

datatype wait_transport = Wait_Usb | Wait_Local | Wait_Any

fun wait_transport_text :: "wait_transport \<Rightarrow> bytes" where
  "wait_transport_text Wait_Usb = ascii ''usb''"
| "wait_transport_text Wait_Local = ascii ''local''"
| "wait_transport_text Wait_Any = ascii ''any''"

definition wait_transport_from_str :: "bytes \<Rightarrow> wait_transport result" where
  "wait_transport_from_str s =
     (if s = ascii ''usb'' then Ok Wait_Usb
      else if s = ascii ''local'' then Ok Wait_Local
      else if s = ascii ''any'' then Ok Wait_Any
      else Err (UnknownTransport s))"

datatype wait_state = Wait_Device | Wait_Recovery | Wait_Sideload | Wait_Bootloader

fun wait_state_text :: "wait_state \<Rightarrow> bytes" where
  "wait_state_text Wait_Device = ascii ''device''"
| "wait_state_text Wait_Recovery = ascii ''recovery''"
| "wait_state_text Wait_Sideload = ascii ''sideload''"
| "wait_state_text Wait_Bootloader = ascii ''bootloader''"

text \<open>\<open>SocketAddrV4\<close> of \<open>std::net\<close> and its \<open>Display\<close>.\<close>

record socket_addr =
  sa_octets :: "u8 \<times> u8 \<times> u8 \<times> u8"
  sa_port :: u16

definition socket_addr_text :: "socket_addr \<Rightarrow> bytes" where
  "socket_addr_text a =
     (case sa_octets a of (o1, o2, o3, o4) \<Rightarrow>
        join (ascii ''.'') (map (\<lambda>b. show_nat (unat b)) [o1, o2, o3, o4]))
     @ ascii '':'' @ show_nat (unat (sa_port a))"

datatype host_command =
    Version
  | Kill
  | Devices
  | DevicesLong
  | TrackDevices
  | HostFeatures
  | Connect socket_addr
  | Disconnect socket_addr
  | Pair socket_addr bytes
  | TransportAny
  | TransportSerial bytes
  | TransportId u32
  | MDNSCheck
  | MDNSServices
  | ServerStatus
  | ReconnectOffline
  | WaitForDevice wait_state wait_transport

primrec host_command_text :: "host_command \<Rightarrow> bytes" where
  "host_command_text Version = ascii ''host:version''"
| "host_command_text Kill = ascii ''host:kill''"
| "host_command_text Devices = ascii ''host:devices''"
| "host_command_text DevicesLong = ascii ''host:devices-l''"
| "host_command_text TrackDevices = ascii ''host:track-devices''"
| "host_command_text TransportAny = ascii ''host:transport-any''"
| "host_command_text (TransportSerial serial) = ascii ''host:transport:'' @ serial"
| "host_command_text (TransportId n) = ascii ''host:transport-id:'' @ show_nat (unat n)"
| "host_command_text (Connect addr) = ascii ''host:connect:'' @ socket_addr_text addr"
| "host_command_text (Disconnect addr) = ascii ''host:disconnect:'' @ socket_addr_text addr"
| "host_command_text (Pair addr code) = ascii ''host:pair:'' @ code @ ascii '':'' @ socket_addr_text addr"
| "host_command_text MDNSCheck = ascii ''host:mdns:check''"
| "host_command_text MDNSServices = ascii ''host:mdns:services''"
| "host_command_text ServerStatus = ascii ''host:server-status''"
| "host_command_text ReconnectOffline = ascii ''host:reconnect-offline''"
| "host_command_text (WaitForDevice st tr) =
     ascii ''host:wait-for-'' @ wait_transport_text tr @ ascii ''-'' @ wait_state_text st"
| "host_command_text HostFeatures = ascii ''host:features''"

datatype adb_command = Host host_command | Local local_command

primrec adb_command_text :: "bytes option \<Rightarrow> adb_command \<Rightarrow> bytes" where
  "adb_command_text term (Host c) = host_command_text c"
| "adb_command_text term (Local c) = local_command_text term c"

section \<open>Statuses and features\<close>

datatype request_status = Status_Okay | Status_Fail

definition request_status_from_str :: "bytes \<Rightarrow> request_status result" where
  "request_status_from_str s =
     (let lowercased = map ascii_lower s
      in if lowercased = ascii ''okay'' then Ok Status_Okay
         else if lowercased = ascii ''fail'' then Ok Status_Fail
         else Err (UnknownResponseType lowercased))"

datatype host_feature = ShellV2 | Cmd

text \<open>\<open>HostFeatures::try_from\<close>; its error is only ever dropped.\<close>

definition host_feature_try_from :: "bytes \<Rightarrow> host_feature option" where
  "host_feature_try_from value =
     (if value = ascii ''shell_v2'' then Some ShellV2
      else if value = ascii ''cmd'' then Some Cmd
      else None)"

datatype device_state =
    Offline | Device | NoDevice | Authorizing | Unauthorized | Connecting | NoPerm | Detached
  | State_Bootloader | State_Host | State_Recovery | State_Sideload | Rescue

primrec device_state_text :: "device_state \<Rightarrow> bytes" where
  "device_state_text Offline = ascii ''offline''"
| "device_state_text Device = ascii ''device''"
| "device_state_text NoDevice = ascii ''no device''"
| "device_state_text Authorizing = ascii ''authorizing''"
| "device_state_text Unauthorized = ascii ''unauthorized''"
| "device_state_text Connecting = ascii ''connecting''"
| "device_state_text NoPerm = ascii ''noperm''"
| "device_state_text Detached = ascii ''detached''"
| "device_state_text State_Bootloader = ascii ''bootloader''"
| "device_state_text State_Host = ascii ''host''"
| "device_state_text State_Recovery = ascii ''recovery''"
| "device_state_text State_Sideload = ascii ''sideload''"
| "device_state_text Rescue = ascii ''rescue''"

definition device_state_from_str :: "bytes \<Rightarrow> device_state result" where
  "device_state_from_str s =
     (let lowercased = map ascii_lower s
      in if lowercased = ascii ''offline'' then Ok Offline
         else if lowercased = ascii ''device'' then Ok Device
         else if lowercased = ascii ''no device'' then Ok NoDevice
         else if lowercased = ascii ''authorizing'' then Ok Authorizing
         else if lowercased = ascii ''unauthorized'' then Ok Unauthorized
         else if lowercased = ascii ''connecting'' then Ok Connecting
         else if lowercased = ascii ''noperm'' then Ok NoPerm
         else if lowercased = ascii ''detached'' then Ok Detached
         else if lowercased = ascii ''bootloader'' then Ok State_Bootloader
         else if lowercased = ascii ''host'' then Ok State_Host
         else if lowercased = ascii ''recovery'' then Ok State_Recovery
         else if lowercased = ascii ''sideload'' then Ok State_Sideload
         else if lowercased = ascii ''rescue'' then Ok Rescue
         else Err (UnknownDeviceState lowercased))"

record adb_version =
  av_major :: u32
  av_minor :: u32
  av_revision :: u32

definition adb_version_new :: "u32 \<Rightarrow> u32 \<Rightarrow> adb_version" where
  "adb_version_new minor revision = \<lparr>av_major = 1, av_minor = minor, av_revision = revision\<rparr>"

definition hex_field :: "bytes \<Rightarrow> u32 result" where
  "hex_field bs =
     (if \<not> utf8_valid bs then Err Utf8StrError
      else map_err (\<lambda>_. ParseIntError) (ok_or () (map_option word_of_nat (parse_uint 16 32 bs))))"

text \<open>The slices of the version panic when the server sends fewer than four bytes.\<close>

definition adb_version_try_from :: "bytes \<Rightarrow> adb_version result" where
  "adb_version_try_from value =
     bind_outcome (try_slice 0 2 value) (\<lambda>a. bind_outcome (hex_field a) (\<lambda>minor.
     bind_outcome (try_slice 2 4 value) (\<lambda>b. bind_outcome (hex_field b) (\<lambda>revision.
       Ok (adb_version_new minor revision)))))"

section \<open>Entries\<close>

record stat_response =
  sr_file_perm :: u32
  sr_file_size :: u32
  sr_mod_time :: u32

definition stat_response_decode :: "bytes \<Rightarrow> stat_response result" where
  "stat_response_decode data =
     (if length data \<noteq> 12 then Err ConversionError
      else Ok \<lparr>sr_file_perm = from_le32 (slice 0 4 data), sr_file_size = from_le32 (slice 4 8 data),
               sr_mod_time = from_le32 (slice 8 12 data)\<rparr>)"

record list_item =
  li_name :: bytes
  li_time :: u32
  li_permissions :: u32
  li_size :: u32

datatype list_item_type =
    Fifo list_item | CharacterDevice list_item | Directory list_item | BlockDevice list_item
  | File list_item | Symlink list_item | Socket list_item | Other list_item

definition from_mode_and_entry :: "u32 \<Rightarrow> list_item \<Rightarrow> list_item_type" where
  "from_mode_and_entry mode entry =
     (let kind = drop_bit 13 mode AND 7
      in if kind = 0 then Fifo entry
         else if kind = 1 then CharacterDevice entry
         else if kind = 2 then Directory entry
         else if kind = 3 then BlockDevice entry
         else if kind = 4 then File entry
         else if kind = 5 then Symlink entry
         else if kind = 6 then Socket entry
         else Other entry)"

section \<open>Framebuffer headers\<close>

record framebuffer_info_v1 =
  f1_bpp :: u32
  f1_size :: u32
  f1_width :: u32
  f1_height :: u32
  f1_red_offset :: u32
  f1_red_length :: u32
  f1_blue_offset :: u32
  f1_blue_length :: u32
  f1_green_offset :: u32
  f1_green_length :: u32
  f1_alpha_offset :: u32
  f1_alpha_length :: u32

record framebuffer_info_v2 =
  f2_bpp :: u32
  f2_color_space :: u32
  f2_size :: u32
  f2_width :: u32
  f2_height :: u32
  f2_red_offset :: u32
  f2_red_length :: u32
  f2_blue_offset :: u32
  f2_blue_length :: u32
  f2_green_offset :: u32
  f2_green_length :: u32
  f2_alpha_offset :: u32
  f2_alpha_length :: u32

text \<open>The conversions from 48 and 52 bytes: the words in the order of the fields.\<close>

definition framebuffer_info_v1 :: "bytes \<Rightarrow> framebuffer_info_v1" where
  "framebuffer_info_v1 v =
     (let w = (\<lambda>i. from_le32 (slice (4 * i) (4 * i + 4) v))
      in \<lparr>f1_bpp = w 0,
          f1_size = w 1,
          f1_width = w 2,
          f1_height = w 3,
          f1_red_offset = w 4,
          f1_red_length = w 5,
          f1_blue_offset = w 6,
          f1_blue_length = w 7,
          f1_green_offset = w 8,
          f1_green_length = w 9,
          f1_alpha_offset = w 10,
          f1_alpha_length = w 11\<rparr>)"

definition framebuffer_info_v2 :: "bytes \<Rightarrow> framebuffer_info_v2" where
  "framebuffer_info_v2 v =
     (let w = (\<lambda>i. from_le32 (slice (4 * i) (4 * i + 4) v))
      in \<lparr>f2_bpp = w 0,
          f2_color_space = w 1,
          f2_size = w 2,
          f2_width = w 3,
          f2_height = w 4,
          f2_red_offset = w 5,
          f2_red_length = w 6,
          f2_blue_offset = w 7,
          f2_blue_length = w 8,
          f2_green_offset = w 9,
          f2_green_length = w 10,
          f2_alpha_offset = w 11,
          f2_alpha_length = w 12\<rparr>)"

section \<open>Remount reports\<close>

record remount_info =
  ri_path :: bytes
  ri_mode :: bytes

text \<open>\<open>captures\<close> are the groups \<open>path\<close> and \<open>mode\<close> of the regular expression of the source.\<close>

definition remount_info_from_str :: "(bytes \<Rightarrow> (bytes \<times> bytes) option) \<Rightarrow> bytes \<Rightarrow> remount_info result" where
  "remount_info_from_str captures s =
     (case captures s of
        None \<Rightarrow> Err (RemountError s)
      | Some (path, mode) \<Rightarrow> Ok \<lparr>ri_path = path, ri_mode = mode\<rparr>)"

fun remount_lines :: "(bytes \<Rightarrow> (bytes \<times> bytes) option) \<Rightarrow> bytes list \<Rightarrow> remount_info list result" where
  "remount_lines captures [] = Ok []"
| "remount_lines captures (line # rest) =
     (if starts_with (ascii ''Using'') line then
        bind_outcome (remount_info_from_str captures line) (\<lambda>i.
          bind_outcome (remount_lines captures rest) (\<lambda>is. Ok (i # is)))
      else remount_lines captures rest)"

definition remount_from_str_response :: "(bytes \<Rightarrow> (bytes \<times> bytes) option) \<Rightarrow> bytes \<Rightarrow> remount_info list result" where
  "remount_from_str_response captures s =
     (if \<not> ends_with (ascii ''remount succeeded'') s then Err (RemountError s)
      else remount_lines captures (str_lines s))"

section \<open>Properties\<close>

lemma device_state_from_text: "device_state_from_str (device_state_text st) = Ok st"
  by (cases st) (simp_all add: device_state_from_str_def ascii_lower_def Let_def word_le_nat_alt)

lemma wait_transport_from_text: "wait_transport_from_str (wait_transport_text t) = Ok t"
  by (cases t) (simp_all add: wait_transport_from_str_def)

lemma adb_version_short_panics: "length value < 2 \<Longrightarrow> adb_version_try_from value = Panic"
  by (simp add: adb_version_try_from_def try_slice_def)

text \<open>The arguments of \<open>abb_exec\<close> reach the device as they were given.\<close>

lemma abb_exec_arguments:
  assumes "arguments \<noteq> []" and "\<forall>a \<in> set arguments. 0 \<notin> set a"
  shows "split_on 0 (drop (length (ascii ''abb_exec:'')) (local_command_text term (AbbExec arguments))) = arguments"
  using assms by (simp add: split_on_join)

end
