(* ===== verification/Message_Device.thy ===== *)
theory Message_Device
  imports Message_Session Client_Models
begin

text \<open>
  \<^verbatim>\<open>message_devices/adb_message_device.rs\<close> and \<^verbatim>\<open>message_devices/commands\<close>: connecting and
  authenticating to a device, opening services, and the commands over them. Dialling and upgrading
  the connection, the RSA key and the random stream id are parameters.
\<close>

section \<open>Connecting\<close>

text \<open>
  The handshake answers at most eight messages. \<open>sign\<close> is \<open>private_key.sign\<close> and \<open>public_key\<close> the
  encoded public key. The device's banner is decoded inside a \<open>log::info!\<close>, whose arguments are only
  evaluated (and can only fail) when the level is enabled, which is \<open>info\<close>.
\<close>

primrec auth_rounds ::
    "bool \<Rightarrow> (bytes \<Rightarrow> bytes result) \<Rightarrow> bytes result \<Rightarrow> nat \<Rightarrow> bool \<Rightarrow> transport_message \<Rightarrow> (link, unit) io" where
  "auth_rounds info sign public_key 0 send_public_key response =
     lift (Err (request_failed ''Android device did not finish RSA authorization''))"
| "auth_rounds info sign public_key (Suc n) send_public_key response =
     (case msg_command response of
        MC_Cnxn \<Rightarrow> lift (if info \<and> \<not> utf8_valid (tm_payload response) then Err Utf8FromBytesError else Ok ())
      | MC_Auth \<Rightarrow>
          if msg_arg0 response = AUTH_TOKEN then
            bind_io (lift (if send_public_key then bind_outcome public_key (\<lambda>k. Ok (AUTH_RSAPUBLICKEY, k @ [0]))
                           else bind_outcome (sign (tm_payload response)) (\<lambda>s. Ok (AUTH_SIGNATURE, s))))
              (\<lambda>(auth_type, payload).
                 seq_io (transmit_new MC_Auth auth_type 0 payload)
                   (bind_io receive (auth_rounds info sign public_key n (\<not> send_public_key))))
          else lift (Err (ADBRequestFailed (ascii ''Received AUTH message with type != 1 (''
                  @ show_nat (unat (msg_arg0 response)) @ ascii '')'')))
      | command \<Rightarrow> lift (Err (WrongResponseReceived (ascii ''Expected CNXN or AUTH command'') (message_command_text command))))"

definition auth_handshake ::
    "bool \<Rightarrow> (bytes \<Rightarrow> bytes result) \<Rightarrow> bytes result \<Rightarrow> transport_message \<Rightarrow> (link, unit) io" where
  "auth_handshake info sign public_key message =
     (if msg_command message \<noteq> MC_Auth then lift (Ok ())
      else if msg_arg0 message \<noteq> AUTH_TOKEN then
        lift (Err (ADBRequestFailed (ascii ''Received AUTH message with type != 1 (''
                @ show_nat (unat (msg_arg0 message)) @ ascii '')'')))
      else auth_rounds info sign public_key 8 False message)"

text \<open>\<open>dial\<close> and \<open>upgrade\<close> are \<open>connect\<close> and \<open>upgrade_connection\<close> of the transport.\<close>

definition device_connect ::
    "bool \<Rightarrow> (link, unit) io \<Rightarrow> (link, unit) io \<Rightarrow> (bytes \<Rightarrow> bytes result) \<Rightarrow> bytes result \<Rightarrow> (link, unit) io" where
  "device_connect info dial upgrade sign public_key =
     seq_io dial (seq_io (transmit_new MC_Cnxn 0x01000000 1048576 (ascii ''host::adb_client'' @ [0]))
       (bind_io receive (\<lambda>message.
          case msg_command message of
            MC_Stls \<Rightarrow> seq_io (transmit_new MC_Stls 1 0 []) upgrade
          | MC_Cnxn \<Rightarrow> lift (Ok ())
          | MC_Auth \<Rightarrow> auth_handshake info sign public_key message
          | c \<Rightarrow> lift (Err (WrongResponseReceived (ascii ''Expected CNXN, STLS or AUTH command'') (message_command_text c))))))"

section \<open>Opening services\<close>

text \<open>The name of a service as it is sent: with a terminating NUL.\<close>

definition destination :: "bytes option \<Rightarrow> local_command \<Rightarrow> bytes" where
  "destination term cmd =
     (let text = local_command_text term cmd in if ends_with [0] text then text else text @ [0])"

definition open_answer :: "u32 \<Rightarrow> transport_message \<Rightarrow> adb_session result" where
  "open_answer local_id response =
     (if msg_command response \<noteq> MC_Okay then
        Err (ADBRequestFailed (ascii ''Open session failed: got ''
               @ message_command_text (msg_command response) @ ascii '' in response instead of OKAY''))
      else if msg_arg1 response \<noteq> local_id then
        Err (ADBRequestFailed (ascii ''Open session failed: responses used ''
               @ show_nat (unat (msg_arg1 response)) @ ascii '' for our local_id instead of ''
               @ show_nat (unat local_id)))
      else Ok \<lparr>as_local_id = local_id, as_remote_id = msg_arg0 response\<rparr>)"

definition open_session :: "u32 \<Rightarrow> bytes option \<Rightarrow> local_command \<Rightarrow> (link, adb_session) io" where
  "open_session local_id term cmd =
     seq_io (transmit_new MC_Open local_id 0 (destination term cmd))
       (bind_io receive (\<lambda>response. lift (open_answer local_id response)))"

text \<open>
  Dropping a session reads and discards messages until a read fails (times out after 20 ms). A
  session lives until the end of the block that opened it.
\<close>

fun drain :: "transport_message result list \<Rightarrow> transport_message result list" where
  "drain [] = []"
| "drain (Ok _ # rs) = drain rs"
| "drain (Err _ # rs) = rs"
| "drain (Panic # rs) = rs"

definition session_drop :: "link \<Rightarrow> link" where
  "session_drop l = l\<lparr>ln_incoming := drain (ln_incoming l)\<rparr>"

definition scoped :: "(link, 'a) io \<Rightarrow> (link, 'a) io" where
  "scoped body l = (case body l of (r, l') \<Rightarrow> (r, session_drop l'))"

definition with_session :: "u32 \<Rightarrow> bytes option \<Rightarrow> local_command \<Rightarrow> (adb_session \<Rightarrow> (link, 'a) io) \<Rightarrow> (link, 'a) io" where
  "with_session local_id term cmd body = bind_io (open_session local_id term cmd) (\<lambda>a. scoped (body a))"

text \<open>A statement \<open>self.open_session(..)?;\<close> drops the session at its semicolon.\<close>

definition open_and_drop :: "u32 \<Rightarrow> bytes option \<Rightarrow> local_command \<Rightarrow> (link, unit) io" where
  "open_and_drop local_id term cmd = with_session local_id term cmd (\<lambda>_. lift (Ok ()))"

definition end_transaction :: "adb_session \<Rightarrow> (link, unit) io" where
  "end_transaction a =
     seq_io (write_and_expect_okay a (with_arg_encode (with_arg SC_Quit 0))) (seq_io receive (lift (Ok ())))"

definition read_and_assert :: "message_command \<Rightarrow> (link, unit) io" where
  "read_and_assert c = bind_io receive (\<lambda>m. lift (assert_command c m))"

section \<open>Commands that only report success\<close>

definition device_reboot :: "u32 \<Rightarrow> bytes option \<Rightarrow> reboot_type \<Rightarrow> (link, unit) io" where
  "device_reboot local_id term t =
     seq_io (open_and_drop local_id term (Reboot t)) (read_and_assert MC_Okay)"

definition device_root :: "u32 \<Rightarrow> bytes option \<Rightarrow> (link, unit) io" where
  "device_root local_id term = seq_io (open_and_drop local_id term Root) (read_and_assert MC_Okay)"

definition device_enable_verity :: "u32 \<Rightarrow> bytes option \<Rightarrow> (link, unit) io" where
  "device_enable_verity local_id term = seq_io (open_and_drop local_id term EnableVerity) (read_and_assert MC_Okay)"

definition device_disable_verity :: "u32 \<Rightarrow> bytes option \<Rightarrow> (link, unit) io" where
  "device_disable_verity local_id term = seq_io (open_and_drop local_id term DisableVerity) (read_and_assert MC_Okay)"

text \<open>The status text of an installation or removal.\<close>

definition success_or_error :: "bytes \<Rightarrow> unit result" where
  "success_or_error status =
     (if status = ascii ''Success'' @ [10] then Ok ()
      else if utf8_valid status then Err (ADBRequestFailed status) else Err Utf8FromBytesError)"

definition device_uninstall :: "u32 \<Rightarrow> bytes option \<Rightarrow> bytes \<Rightarrow> bytes option \<Rightarrow> (link, unit) io" where
  "device_uninstall local_id term package user =
     seq_io (open_and_drop local_id term (Uninstall package user))
       (bind_io receive (\<lambda>m. lift (success_or_error (tm_payload m))))"

section \<open>Reverse rules\<close>

definition reverse_forward :: "u32 \<Rightarrow> bytes option \<Rightarrow> bytes \<Rightarrow> bytes \<Rightarrow> (link, unit) io" where
  "reverse_forward local_id term remote near =
     with_session local_id term (Reverse remote near) (\<lambda>a.
       bind_io (bind_io receive (expect_command MC_Write)) (\<lambda>answer.
       seq_io (transmit_new MC_Okay (as_local_id a) (as_remote_id a) [])
         (if \<not> starts_with (ascii ''OKAY'') (tm_payload answer) then
            lift (Err (ADBRequestFailed (ascii ''reverse registration failed: '' @ utf8_lossy (tm_payload answer))))
          else seq_io (bind_io receive (expect_command MC_Clse))
                 (transmit_new MC_Clse (as_local_id a) (as_remote_id a) []))))"

definition remove_reverse_forward :: "u32 \<Rightarrow> bytes option \<Rightarrow> bytes \<Rightarrow> (link, unit) io" where
  "remove_reverse_forward local_id term remote = open_and_drop local_id term (ReverseRemove remote)"

section \<open>The authentication handshake\<close>

definition auth_answer :: "(bytes \<Rightarrow> bytes) \<Rightarrow> bytes \<Rightarrow> bool \<Rightarrow> transport_message \<Rightarrow> transport_message" where
  "auth_answer sg key send_public_key token =
     (if send_public_key then message_new MC_Auth AUTH_RSAPUBLICKEY 0 (key @ [0])
      else message_new MC_Auth AUTH_SIGNATURE 0 (sg (tm_payload token)))"

fun auth_answers :: "(bytes \<Rightarrow> bytes) \<Rightarrow> bytes \<Rightarrow> bool \<Rightarrow> transport_message list \<Rightarrow> transport_message list" where
  "auth_answers sg key b [] = []"
| "auth_answers sg key b (t # ts) = auth_answer sg key b t # auth_answers sg key (\<not> b) ts"

definition is_token :: "transport_message \<Rightarrow> bool" where
  "is_token m \<longleftrightarrow> msg_command m = MC_Auth \<and> msg_arg0 m = AUTH_TOKEN"

text \<open>A key that can sign every token, with replies that fit a message.\<close>

definition usable_key :: "(bytes \<Rightarrow> bytes) \<Rightarrow> bytes \<Rightarrow> bool" where
  "usable_key sg key \<longleftrightarrow> length key < 2 ^ 32 - 1 \<and> (\<forall>t. length (sg t) < 2 ^ 32)"

lemma auth_round:
  assumes "usable_key sg key" and "is_token t" and "ln_outcomes l = []" and "ln_incoming l = Ok r # rs"
  shows "auth_rounds info (\<lambda>p. Ok (sg p)) (Ok key) (Suc n) b t l
    = auth_rounds info (\<lambda>p. Ok (sg p)) (Ok key) n (\<not> b) r
        (l\<lparr>ln_incoming := rs, ln_sent := ln_sent l @ [auth_answer sg key b t]\<rparr>)"
proof -
  have "length (key @ [0]) < 2 ^ 32" "length (sg (tm_payload t)) < 2 ^ 32"
    using assms(1) by (auto simp: usable_key_def)
  with assms(2-4) show ?thesis
    by (cases b) (simp_all add: is_token_def bind_io_def seq_io_def auth_answer_def)
qed

lemma auth_rounds_confirmed:
  assumes "usable_key sg key" and "\<forall>t \<in> set ts. is_token t" and "length ts < n"
    and "msg_command c = MC_Cnxn" and "utf8_valid (tm_payload c)"
    and "ln_outcomes l = []" and "ln_incoming l = map Ok (tl (ts @ [c])) @ rest"
  shows "auth_rounds info (\<lambda>p. Ok (sg p)) (Ok key) n b (hd (ts @ [c])) l
    = (Ok (), l\<lparr>ln_incoming := rest, ln_sent := ln_sent l @ auth_answers sg key b ts\<rparr>)"
  using assms
proof (induction ts arbitrary: n b l)
  case Nil
  then obtain k where "n = Suc k" by (cases n) auto
  with Nil show ?case by simp
next
  case (Cons t ts)
  then obtain k where n: "n = Suc k" "length ts < k" by (cases n) auto
  let ?l = "l\<lparr>ln_incoming := map Ok (tl (ts @ [c])) @ rest, ln_sent := ln_sent l @ [auth_answer sg key b t]\<rparr>"
  have "ln_incoming l = Ok (hd (ts @ [c])) # (map Ok (tl (ts @ [c])) @ rest)"
    using Cons.prems(7) by (cases ts) simp_all
  moreover have "is_token t" using Cons.prems(2) by simp
  ultimately have "auth_rounds info (\<lambda>p. Ok (sg p)) (Ok key) n b t l
      = auth_rounds info (\<lambda>p. Ok (sg p)) (Ok key) k (\<not> b) (hd (ts @ [c])) ?l"
    using auth_round [OF Cons.prems(1) _ Cons.prems(6)] n(1) by simp
  moreover have "auth_rounds info (\<lambda>p. Ok (sg p)) (Ok key) k (\<not> b) (hd (ts @ [c])) ?l
      = (Ok (), ?l\<lparr>ln_incoming := rest, ln_sent := ln_sent ?l @ auth_answers sg key (\<not> b) ts\<rparr>)"
    using Cons.prems n by (intro Cons.IH) simp_all
  ultimately show ?case by simp
qed

lemma auth_rounds_exhausted:
  assumes "usable_key sg key" and "\<forall>t \<in> set ts. is_token t"
    and "ln_outcomes l = []" and "ln_incoming l = map Ok (tl (ts @ [c])) @ rest"
  shows "auth_rounds info (\<lambda>p. Ok (sg p)) (Ok key) (length ts) b (hd (ts @ [c])) l
    = (Err (request_failed ''Android device did not finish RSA authorization''),
       l\<lparr>ln_incoming := rest, ln_sent := ln_sent l @ auth_answers sg key b ts\<rparr>)"
  using assms
proof (induction ts arbitrary: b l)
  case (Cons t ts)
  let ?l = "l\<lparr>ln_incoming := map Ok (tl (ts @ [c])) @ rest, ln_sent := ln_sent l @ [auth_answer sg key b t]\<rparr>"
  have "ln_incoming l = Ok (hd (ts @ [c])) # (map Ok (tl (ts @ [c])) @ rest)"
    using Cons.prems(4) by (cases ts) simp_all
  moreover have "is_token t" using Cons.prems(2) by simp
  ultimately have "auth_rounds info (\<lambda>p. Ok (sg p)) (Ok key) (length (t # ts)) b t l
      = auth_rounds info (\<lambda>p. Ok (sg p)) (Ok key) (length ts) (\<not> b) (hd (ts @ [c])) ?l"
    using auth_round [OF Cons.prems(1) _ Cons.prems(3)] by simp
  moreover have "auth_rounds info (\<lambda>p. Ok (sg p)) (Ok key) (length ts) (\<not> b) (hd (ts @ [c])) ?l
      = (Err (request_failed ''Android device did not finish RSA authorization''),
         ?l\<lparr>ln_incoming := rest, ln_sent := ln_sent ?l @ auth_answers sg key (\<not> b) ts\<rparr>)"
    using Cons.prems by (intro Cons.IH) simp_all
  ultimately show ?case by simp
qed simp

text \<open>
  C14: a device that asks for authentication gets alternating answers, a signature of the token
  and the public key, one for each of its tokens, and is accepted as soon as it confirms the
  connection, which it has to do before its ninth message: a confirmation that comes as the answer to
  the eighth reply is read and thrown away, and the handshake fails.
\<close>

theorem auth_handshake_outcome:
  assumes "usable_key sg key" and "\<forall>m \<in> set (t # ts). is_token m" and "length ts < 8"
    and "msg_command c = MC_Cnxn" and "utf8_valid (tm_payload c)"
    and "ln_outcomes l = []" and "ln_incoming l = map Ok ts @ Ok c # rest"
  shows "auth_handshake info (\<lambda>p. Ok (sg p)) (Ok key) t l
    = (if length ts < 7 then Ok () else Err (request_failed ''Android device did not finish RSA authorization''),
       l\<lparr>ln_incoming := rest, ln_sent := ln_sent l @ auth_answers sg key False (t # ts)\<rparr>)"
proof -
  have t: "msg_command t = MC_Auth" "msg_arg0 t = AUTH_TOKEN" using assms(2) by (simp_all add: is_token_def)
  have inc: "ln_incoming l = map Ok (tl ((t # ts) @ [c])) @ rest" using assms(7) by simp
  show ?thesis
  proof (cases "length ts < 7")
    case True
    then have "length (t # ts) < 8" by simp
    from auth_rounds_confirmed [OF assms(1,2) this assms(4-6) inc] t True show ?thesis
      by (simp add: auth_handshake_def)
  next
    case False
    with assms(3) have len: "length (t # ts) = 8" by simp
    have "auth_rounds info (\<lambda>p. Ok (sg p)) (Ok key) 8 False (hd ((t # ts) @ [c])) l
      = (Err (request_failed ''Android device did not finish RSA authorization''),
         l\<lparr>ln_incoming := rest, ln_sent := ln_sent l @ auth_answers sg key False (t # ts)\<rparr>)"
      using auth_rounds_exhausted [OF assms(1,2,6) inc, of info False] unfolding len .
    with t False show ?thesis by (simp add: auth_handshake_def)
  qed
qed

text \<open>One token, answered with a signature, and the confirmation.\<close>

theorem auth_handshake_outcome_witness:
  "auth_handshake True (\<lambda>p. Ok [9]) (Ok [7]) (message_new MC_Auth AUTH_TOKEN 0 [5])
       \<lparr>ln_incoming = [Ok (message_new MC_Cnxn 0 0 [65])], ln_outcomes = [], ln_closed = TLSError, ln_sent = []\<rparr>
     = (Ok (), \<lparr>ln_incoming = [], ln_outcomes = [], ln_closed = TLSError,
                ln_sent = [message_new MC_Auth AUTH_SIGNATURE 0 [9]]\<rparr>)"
proof -
  have "usable_key (\<lambda>_. [9]) [7]" by (simp add: usable_key_def)
  moreover have "utf8_valid (tm_payload (message_new MC_Cnxn 0 0 [65]))" by (simp add: utf8_step_def utf8_width_def)
  ultimately show ?thesis
    using auth_handshake_outcome [of "\<lambda>_. [9]" "[7]" "message_new MC_Auth AUTH_TOKEN 0 [5]" "[]"
        "message_new MC_Cnxn 0 0 [65]" "\<lparr>ln_incoming = [Ok (message_new MC_Cnxn 0 0 [65])], ln_outcomes = [],
           ln_closed = TLSError, ln_sent = []\<rparr>" "[]" True]
    by (simp add: is_token_def auth_answer_def)
qed

section \<open>Opening\<close>

lemma bind_receive_OkD:
  assumes "bind_io receive f l = (Ok b, l')"
  obtains m l1 where "receive l = (Ok m, l1)" "ln_incoming l = Ok m # ln_incoming l1" "ln_sent l1 = ln_sent l"
    "f m l1 = (Ok b, l')"
  using assms by (elim bind_io_OkD) (auto dest: receive_OkD)

lemma seq_transmit_OkD:
  assumes "seq_io (transmit_new c a0 a1 data) k l = (Ok b, l')"
  obtains l1 where "ln_incoming l1 = ln_incoming l" "ln_sent l1 = ln_sent l @ [message_new c a0 a1 data]"
    "k l1 = (Ok b, l')"
  using assms by (elim seq_io_OkD) (auto dest: transmit_new_frame transmit_new_OkD)

lemma open_session_OkD:
  assumes "open_session local_id term cmd l = (Ok a, l')"
  obtains r where "ln_incoming l = Ok r # ln_incoming l'" "msg_command r = MC_Okay" "msg_arg1 r = local_id"
    "a = \<lparr>as_local_id = local_id, as_remote_id = msg_arg0 r\<rparr>"
    "ln_sent l' = ln_sent l @ [message_new MC_Open local_id 0 (destination term cmd)]"
proof -
  from assms obtain l1 where s: "ln_incoming l1 = ln_incoming l"
      "ln_sent l1 = ln_sent l @ [message_new MC_Open local_id 0 (destination term cmd)]"
    and b: "bind_io receive (\<lambda>response. lift (open_answer local_id response)) l1 = (Ok a, l')"
    unfolding open_session_def by (rule seq_transmit_OkD)
  from b obtain r l2 where "ln_incoming l1 = Ok r # ln_incoming l2" "ln_sent l2 = ln_sent l1"
      "open_answer local_id r = Ok a" "l2 = l'"
    by (elim bind_receive_OkD) simp
  moreover from this(3) have "msg_command r = MC_Okay" "msg_arg1 r = local_id"
    "a = \<lparr>as_local_id = local_id, as_remote_id = msg_arg0 r\<rparr>"
    by (auto simp: open_answer_def split: if_splits)
  ultimately show thesis using that s by simp
qed

lemma open_session_run:
  assumes "ln_outcomes l = []" and "ln_incoming l = Ok r # rs" and "msg_command r = MC_Okay"
    and "msg_arg1 r = local_id" and "length (destination term cmd) < 2 ^ 32"
  shows "open_session local_id term cmd l
    = (Ok \<lparr>as_local_id = local_id, as_remote_id = msg_arg0 r\<rparr>,
       l\<lparr>ln_incoming := rs, ln_sent := ln_sent l @ [message_new MC_Open local_id 0 (destination term cmd)]\<rparr>)"
  using assms by (simp add: open_session_def open_answer_def seq_io_def bind_io_def)

lemma destination_ends: "\<exists>text. destination term cmd = text @ [0]"
  by (auto simp: destination_def Let_def ends_with_def starts_with_def)
    (metis append_butlast_last_id append_is_Nil_conv hd_rev list.sel(1) list.simps(3) rev.simps(1) take_Suc take_eq_Nil
      zero_neq_one)

section \<open>What dropping a session loses\<close>

lemma drain_prompt: "drain (map Ok ms) = []"
  by (induction ms) simp_all

lemma scoped_apply [simp]: "body l = (r, l') \<Longrightarrow> scoped body l = (r, session_drop l')"
  by (simp add: scoped_def)

lemma open_and_drop_prompt:
  assumes "ln_outcomes l = []" and "ln_incoming l = Ok okay # map Ok answers"
    and "msg_command okay = MC_Okay" and "msg_arg1 okay = local_id"
    and "length (destination term cmd) < 2 ^ 32"
  shows "open_and_drop local_id term cmd l
    = (Ok (), l\<lparr>ln_incoming := [], ln_sent := ln_sent l @ [message_new MC_Open local_id 0 (destination term cmd)]\<rparr>)"
  using open_session_run [OF assms]
  by (simp add: open_and_drop_def with_session_def bind_io_def scoped_def session_drop_def drain_prompt)

text \<open>
  \<open>self.open_session(..)?;\<close> drops the session before its service has answered, and dropping reads
  whatever the device has already sent. When the device answers without a pause the answer is lost: an
  uninstallation that succeeded is reported as the error of a read on a silent connection.
\<close>

theorem uninstall_loses_success:
  assumes "ln_outcomes l = []" and "ln_incoming l = [Ok okay, Ok status]"
    and "msg_command okay = MC_Okay" and "msg_arg1 okay = local_id"
    and "tm_payload status = ascii ''Success'' @ [10]"
    and "length (destination term (Uninstall package user)) < 2 ^ 32"
  shows "fst (device_uninstall local_id term package user l) = Err (ln_closed l)"
proof -
  have "ln_incoming l = Ok okay # map Ok [status]" using assms(2) by simp
  from open_and_drop_prompt [OF assms(1) this assms(3,4,6)] show ?thesis
    by (simp add: device_uninstall_def seq_io_def bind_io_def)
qed

theorem uninstall_loses_success_witness:
  "fst (device_uninstall 5 None [97] None \<lparr>ln_incoming = [Ok (message_new MC_Okay 9 5 []),
       Ok (message_new MC_Write 9 5 (ascii ''Success'' @ [10]))], ln_outcomes = [], ln_closed = TLSError, ln_sent = []\<rparr>)
     = Err TLSError"
proof -
  have "length (destination None (Uninstall [97] None)) < 2 ^ 32"
    by (simp add: destination_def Let_def)
  then show ?thesis
    using uninstall_loses_success [of "\<lparr>ln_incoming = [Ok (message_new MC_Okay 9 5 []),
       Ok (message_new MC_Write 9 5 (ascii ''Success'' @ [10]))], ln_outcomes = [], ln_closed = TLSError, ln_sent = []\<rparr>"
       "message_new MC_Okay 9 5 []" "message_new MC_Write 9 5 (ascii ''Success'' @ [10])" 5 None "[97]" None]
    by simp
qed

section \<open>Reverse rules\<close>

text \<open>
  Registering a reverse rule succeeds only when the device accepted the stream, answered \<open>OKAY\<close>
  in a WRTE and closed the stream; the host then has sent the OPEN of the rule, acknowledged the
  answer and confirmed the close, all on the stream the device named.
\<close>

theorem reverse_forward_sound:
  assumes "reverse_forward local_id term remote near l = (Ok (), l')"
  shows "\<exists>r w c rest. ln_incoming l = Ok r # Ok w # Ok c # rest \<and> ln_incoming l' = drain rest
    \<and> msg_command r = MC_Okay \<and> msg_arg1 r = local_id
    \<and> msg_command w = MC_Write \<and> starts_with (ascii ''OKAY'') (tm_payload w) \<and> msg_command c = MC_Clse
    \<and> ln_sent l' = ln_sent l @ [message_new MC_Open local_id 0 (destination term (Reverse remote near)),
        message_new MC_Okay local_id (msg_arg0 r) [], message_new MC_Clse local_id (msg_arg0 r) []]"
proof -
  from assms obtain a l1 l2 where o: "open_session local_id term (Reverse remote near) l = (Ok a, l1)"
    and b: "bind_io (bind_io receive (expect_command MC_Write)) (\<lambda>answer.
       seq_io (transmit_new MC_Okay (as_local_id a) (as_remote_id a) [])
         (if \<not> starts_with (ascii ''OKAY'') (tm_payload answer) then
            lift (Err (ADBRequestFailed (ascii ''reverse registration failed: '' @ utf8_lossy (tm_payload answer))))
          else seq_io (bind_io receive (expect_command MC_Clse))
                 (transmit_new MC_Clse (as_local_id a) (as_remote_id a) []))) l1 = (Ok (), l2)"
    and l': "l' = session_drop l2"
    by (auto simp: reverse_forward_def with_session_def scoped_def elim!: bind_io_OkD split: prod.splits)
  from o obtain r where r: "ln_incoming l = Ok r # ln_incoming l1" "msg_command r = MC_Okay" "msg_arg1 r = local_id"
    "a = \<lparr>as_local_id = local_id, as_remote_id = msg_arg0 r\<rparr>"
    "ln_sent l1 = ln_sent l @ [message_new MC_Open local_id 0 (destination term (Reverse remote near))]"
    by (rule open_session_OkD)
  from b obtain w l3 where w: "ln_incoming l1 = Ok w # ln_incoming l3" "ln_sent l3 = ln_sent l1"
    "msg_command w = MC_Write"
    and b: "seq_io (transmit_new MC_Okay (as_local_id a) (as_remote_id a) [])
         (if \<not> starts_with (ascii ''OKAY'') (tm_payload w) then
            lift (Err (ADBRequestFailed (ascii ''reverse registration failed: '' @ utf8_lossy (tm_payload w))))
          else seq_io (bind_io receive (expect_command MC_Clse))
                 (transmit_new MC_Clse (as_local_id a) (as_remote_id a) [])) l3 = (Ok (), l2)"
    by (elim bind_io_OkD) (auto dest!: expect_command_OkD receive_OkD)
  from b obtain l4 where l4: "ln_incoming l4 = ln_incoming l3"
    "ln_sent l4 = ln_sent l3 @ [message_new MC_Okay (as_local_id a) (as_remote_id a) []]"
    "starts_with (ascii ''OKAY'') (tm_payload w)"
    and b: "seq_io (bind_io receive (expect_command MC_Clse))
                 (transmit_new MC_Clse (as_local_id a) (as_remote_id a) []) l4 = (Ok (), l2)"
    by (elim seq_transmit_OkD) (auto split: if_splits)
  from b obtain c l5 where c: "ln_incoming l4 = Ok c # ln_incoming l5" "ln_sent l5 = ln_sent l4" "msg_command c = MC_Clse"
    "transmit_new MC_Clse (as_local_id a) (as_remote_id a) [] l5 = (Ok (), l2)"
    by (elim seq_io_OkD bind_io_OkD) (auto dest!: expect_command_OkD receive_OkD)
  have "ln_incoming l = Ok r # Ok w # Ok c # ln_incoming l5" using r(1) w(1) l4(1) c(1) by simp
  moreover have "ln_incoming l' = drain (ln_incoming l5)" using transmit_new_frame [OF c(4)] l' by (simp add: session_drop_def)
  moreover have "ln_sent l' = ln_sent l @ [message_new MC_Open local_id 0 (destination term (Reverse remote near)),
        message_new MC_Okay local_id (msg_arg0 r) [], message_new MC_Clse local_id (msg_arg0 r) []]"
    using transmit_new_OkD [OF c(4)] c(2) l4(2) w(2) r(4,5) l' by (simp add: session_drop_def)
  ultimately show ?thesis using r(2,3) w(3) l4(3) c(3) by blast
qed

theorem reverse_forward_sound_witness:
  "\<exists>l'. reverse_forward 5 None [97] [98] \<lparr>ln_incoming = [Ok (message_new MC_Okay 9 5 []),
       Ok (message_new MC_Write 9 5 (ascii ''OKAY'')), Ok (message_new MC_Clse 9 5 [])],
       ln_outcomes = [], ln_closed = TLSError, ln_sent = []\<rparr> = (Ok (), l')
     \<and> ln_sent l' = [message_new MC_Open 5 0 (destination None (Reverse [97] [98])),
        message_new MC_Okay 5 9 [], message_new MC_Clse 5 9 []]"
proof -
  let ?l = "\<lparr>ln_incoming = [Ok (message_new MC_Okay 9 5 []),
       Ok (message_new MC_Write 9 5 (ascii ''OKAY'')), Ok (message_new MC_Clse 9 5 [])],
       ln_outcomes = [], ln_closed = TLSError, ln_sent = []\<rparr>"
  have "length (destination None (Reverse [97] [98])) < 2 ^ 32" by (simp add: destination_def Let_def)
  then have "fst (reverse_forward 5 None [97] [98] ?l) = Ok ()"
    by (simp add: reverse_forward_def with_session_def open_session_def open_answer_def scoped_def
        seq_io_def bind_io_def starts_with_def)
  then obtain l' where "reverse_forward 5 None [97] [98] ?l = (Ok (), l')" by (metis prod.collapse)
  with reverse_forward_sound [OF this] show ?thesis by auto
qed

text \<open>The text of the error of \<open>assert_command\<close> names the two commands the wrong way round.\<close>

lemma assert_command_text_swapped:
  assumes "msg_command m \<noteq> expected"
  shows "\<exists>e. assert_command expected m = Err e
    \<and> error_text e = ascii ''wrong response: received '' @ message_command_text expected
        @ ascii '', expected '' @ message_command_text (msg_command m)"
  using assms by (auto simp: assert_command_def Let_def)

end
