(* ===== verification/Device_Commands.thy ===== *)
theory Device_Commands
  imports Message_Device
begin

text \<open>
  The commands of \<^verbatim>\<open>message_devices/commands\<close> that exchange data: shell output, files, directory
  listings, packages, framebuffer and remount. Files and outputs are any reader and a sink.
\<close>

section \<open>Running a shell command\<close>

text \<open>
  Messages of the device are acknowledged and written to the output until it closes the stream. The
  script gets shorter with every message, so the loop ends.
\<close>

definition write_output :: "bytes \<Rightarrow> sink option \<Rightarrow> unit result \<times> sink option" where
  "write_output bs out =
     (case out of
        None \<Rightarrow> (Ok (), None)
      | Some k \<Rightarrow> (case write_all bs k of (r, k') \<Rightarrow> (r, Some k')))"

lemma recv_and_reply_okay_shorter:
  "recv_and_reply_okay a l = (Ok m, l') \<Longrightarrow> length (ln_incoming l') < length (ln_incoming l)"
  unfolding recv_and_reply_okay_def
  by (elim bind_receive_OkD seq_transmit_OkD) simp

function shell_loop :: "adb_session \<Rightarrow> sink option \<Rightarrow> link \<Rightarrow> unit result \<times> sink option \<times> link" where
  "shell_loop a out l =
     (case recv_and_reply_okay a l of
        (Err e, l') \<Rightarrow> (Err e, out, l')
      | (Panic, l') \<Rightarrow> (Panic, out, l')
      | (Ok m, l') \<Rightarrow>
          if msg_command m = MC_Clse then (Ok (), out, l')
          else (case write_output (tm_payload m) out of
              (Ok _, out') \<Rightarrow> shell_loop a out' l'
            | (Err e, out') \<Rightarrow> (Err e, out', l')
            | (Panic, out') \<Rightarrow> (Panic, out', l')))"
  by pat_completeness auto
termination
  by (relation "measure (\<lambda>(a, out, l). length (ln_incoming l))") (auto dest: recv_and_reply_okay_shorter [OF sym])

declare shell_loop.simps [simp del]

definition shell_command ::
    "u32 \<Rightarrow> bytes option \<Rightarrow> bytes \<Rightarrow> sink option \<Rightarrow> link \<Rightarrow> unit result \<times> sink option \<times> link" where
  "shell_command local_id term command out l =
     (case open_session local_id term (ShellCommand command []) l of
        (Err e, l') \<Rightarrow> (Err e, out, l')
      | (Panic, l') \<Rightarrow> (Panic, out, l')
      | (Ok a, l') \<Rightarrow> (case shell_loop a out l' of (r, out', l2) \<Rightarrow> (r, out', session_drop l2)))"

text \<open>
  The two halves of an interactive session: the thread that reads from the device, and the writer the
  local input is copied to. The writer does not wait for the device.
\<close>

function interactive_reader :: "adb_session \<Rightarrow> sink \<Rightarrow> link \<Rightarrow> unit result \<times> sink \<times> link" where
  "interactive_reader a k l =
     (case recv_and_reply_okay a l of
        (Err e, l') \<Rightarrow> (Err e, k, l')
      | (Panic, l') \<Rightarrow> (Panic, k, l')
      | (Ok m, l') \<Rightarrow>
          (case msg_command m of
             MC_Write \<Rightarrow>
               (case write_all (tm_payload m) k of
                  (Ok _, k') \<Rightarrow> interactive_reader a k' l'
                | (Err e, k') \<Rightarrow> (Err e, k', l')
                | (Panic, k') \<Rightarrow> (Panic, k', l'))
           | MC_Okay \<Rightarrow> interactive_reader a k l'
           | _ \<Rightarrow> (Err ADBShellNotSupported, k, l')))"
  by pat_completeness auto
termination
  by (relation "measure (\<lambda>(a, k, l). length (ln_incoming l))") (auto dest: recv_and_reply_okay_shorter [OF sym])

declare interactive_reader.simps [simp del]

definition shell_message_write :: "adb_session \<Rightarrow> bytes \<Rightarrow> (link, nat) io" where
  "shell_message_write a buf l =
     (case message_try_new MC_Write (as_local_id a) (as_remote_id a) buf of
        Err e \<Rightarrow> (Err (IOError OtherKind (Wrapping e)), l)
      | Panic \<Rightarrow> (Panic, l)
      | Ok m \<Rightarrow> (case transmit_message m l of
            (r, l') \<Rightarrow> (bind_outcome (map_err (\<lambda>e. IOError InvalidData (Wrapping e)) r) (\<lambda>_. Ok (length buf)), l')))"

section \<open>Files\<close>

definition stat_with_explicit_ids :: "adb_session \<Rightarrow> bytes \<Rightarrow> (link, stat_response) io" where
  "stat_with_explicit_ids a path =
     bind_io (lift (u32_try_from (length path))) (\<lambda>n.
     seq_io (write_and_expect_okay a (with_arg_encode (with_arg SC_Stat n)))
     (seq_io (write_and_expect_okay a path)
     (bind_io receive (\<lambda>response.
        let payload = tm_payload response
        in if length payload \<noteq> 16 \<or> take 4 payload \<noteq> subcommand_encode SC_Stat then
             lift (Err (StatResponseError (ascii ''invalid legacy STAT payload'')))
           else lift (stat_response_decode (drop 4 payload))))))"

definition device_stat :: "u32 \<Rightarrow> bytes option \<Rightarrow> bytes \<Rightarrow> (link, stat_response) io" where
  "device_stat local_id term path =
     with_session local_id term Sync (\<lambda>a.
       bind_io (stat_with_explicit_ids a path) (\<lambda>response.
         seq_io (end_transaction a) (lift (Ok response))))"

text \<open>The negotiation of a download, up to where the file arrives.\<close>

definition request_file :: "adb_session \<Rightarrow> bytes \<Rightarrow> (link, unit) io" where
  "request_file a source =
     bind_io (stat_with_explicit_ids a source) (\<lambda>response.
       if sr_file_perm response = 0 then
         lift (Err (UnknownResponseType (ascii ''mode is 0: source file does not exist'')))
       else
         seq_io (transmit_new MC_Okay (as_local_id a) (as_remote_id a) [])
           (bind_io (lift (u32_try_from (length source))) (\<lambda>n.
              seq_io (write_and_expect_okay a (with_arg_encode (with_arg SC_Recv n)))
                (seq_io (write_and_expect_okay a source) (lift (Ok ()))))))"

definition device_pull ::
    "u32 \<Rightarrow> bytes option \<Rightarrow> bytes \<Rightarrow> link \<Rightarrow> sink \<Rightarrow> (unit result \<times> link \<times> sink) option" where
  "device_pull local_id term source l k =
     (case open_session local_id term Sync l of
        (Err e, l1) \<Rightarrow> Some (Err e, l1, k)
      | (Panic, l1) \<Rightarrow> Some (Panic, l1, k)
      | (Ok a, l1) \<Rightarrow>
          (case request_file a source l1 of
             (Err e, l2) \<Rightarrow> Some (Err e, session_drop l2, k)
           | (Panic, l2) \<Rightarrow> Some (Panic, session_drop l2, k)
           | (Ok _, l2) \<Rightarrow>
               Option.bind (recv_file a l2 k) (\<lambda>(r, reader, k').
                 case r of
                   Ok _ \<Rightarrow> (case end_transaction a (pr_link reader) of (r', l3) \<Rightarrow> Some (r', session_drop l3, k'))
                 | Err e \<Rightarrow> Some (Err e, session_drop (pr_link reader), k')
                 | Panic \<Rightarrow> Some (Panic, session_drop (pr_link reader), k'))))"

definition request_send :: "adb_session \<Rightarrow> bytes \<Rightarrow> (link, unit) io" where
  "request_send a path =
     (let path_header = path @ ascii '',0777''
      in bind_io (lift (u32_try_from (length path_header))) (\<lambda>n.
           seq_io (write_and_expect_okay a (with_arg_encode (with_arg SC_Send n) @ path_header)) (lift (Ok ()))))"

definition device_push ::
    "u32 \<Rightarrow> bytes option \<Rightarrow> 's reader \<Rightarrow> 's \<Rightarrow> bytes \<Rightarrow> link \<Rightarrow> (unit result \<times> 's \<times> link) option" where
  "device_push local_id term rd s path l =
     (case open_session local_id term Sync l of
        (Err e, l1) \<Rightarrow> Some (Err e, s, l1)
      | (Panic, l1) \<Rightarrow> Some (Panic, s, l1)
      | (Ok a, l1) \<Rightarrow>
          (case request_send a path l1 of
             (Err e, l2) \<Rightarrow> Some (Err e, s, session_drop l2)
           | (Panic, l2) \<Rightarrow> Some (Panic, s, session_drop l2)
           | (Ok _, l2) \<Rightarrow>
               Option.bind (push_file a rd s l2) (\<lambda>(r, s', l3).
                 case r of
                   Ok _ \<Rightarrow> (case end_transaction a l3 of (r', l4) \<Rightarrow> Some (r', s', session_drop l4))
                 | Err e \<Rightarrow> Some (Err e, s', session_drop l3)
                 | Panic \<Rightarrow> Some (Panic, s', session_drop l3))))"

section \<open>Packages\<close>

text \<open>
  \<open>io::copy\<close> through the buffer of 8 KiB into a writer that takes every byte it is given;
  \<open>write\<close> is that writer's \<open>write\<close> on the link.
\<close>

partial_function (option) io_copy ::
    "'s reader \<Rightarrow> (bytes \<Rightarrow> (link, nat) io) \<Rightarrow> 's \<Rightarrow> link \<Rightarrow> (unit result \<times> 's \<times> link) option" where
  "io_copy rd write s l =
     (case rd 8192 s of
        (Ok bs, s') \<Rightarrow>
          if bs = [] then Some (Ok (), s', l)
          else (case write bs l of
              (Ok _, l') \<Rightarrow> io_copy rd write s' l'
            | (Err e, l') \<Rightarrow> Some (Err e, s', l')
            | (Panic, l') \<Rightarrow> Some (Panic, s', l'))
      | (Err e, s') \<Rightarrow>
          if (case e of IOError Interrupted _ \<Rightarrow> True | _ \<Rightarrow> False) then io_copy rd write s' l
          else Some (Err e, s', l)
      | (Panic, s') \<Rightarrow> Some (Panic, s', l))"

definition message_write :: "adb_session \<Rightarrow> bytes \<Rightarrow> (link, nat) io" where
  "message_write a buf l =
     (case write_and_expect_okay a buf l of
        (r, l') \<Rightarrow> (bind_outcome (map_err (\<lambda>e. IOError OtherKind (Wrapping e)) r) (\<lambda>_. Ok (length buf)), l'))"

text \<open>The extension of the file's name, if it has one.\<close>

definition check_extension_is_apk :: "bytes option \<Rightarrow> unit result" where
  "check_extension_is_apk extension =
     (case extension of
        Some e \<Rightarrow> if e = ascii ''apk'' then Ok () else Err (WrongFileExtension (utf8_lossy e @ ascii '' is not an APK file''))
      | None \<Rightarrow> Ok ())"

text \<open>
  An installation, of an opened file of which \<open>file_size\<close> is the size in its metadata.
\<close>

definition device_install ::
    "u32 \<Rightarrow> bytes option \<Rightarrow> bytes option \<Rightarrow> u64 result \<Rightarrow> bytes option \<Rightarrow> 's reader \<Rightarrow> 's \<Rightarrow> link
      \<Rightarrow> (unit result \<times> link) option" where
  "device_install local_id term extension file_size user rd s l =
     (case bind_outcome (check_extension_is_apk extension) (\<lambda>_. file_size) of
        Err e \<Rightarrow> Some (Err e, l)
      | Panic \<Rightarrow> Some (Panic, l)
      | Ok n \<Rightarrow>
          (case open_session local_id term (Install n user []) l of
             (Err e, l1) \<Rightarrow> Some (Err e, l1)
           | (Panic, l1) \<Rightarrow> Some (Panic, l1)
           | (Ok a, l1) \<Rightarrow>
               Option.bind (io_copy rd (message_write a) s l1) (\<lambda>(r, s', l2).
                 Some (scoped (seq_io (lift r) (bind_io receive (\<lambda>status.
                   seq_io (lift (success_or_error (tm_payload status))) (read_and_assert MC_Clse)))) l2))))"

section \<open>Directory listings\<close>

text \<open>The position in the payload last received, and the link.\<close>

record cursor =
  cu_link :: link
  cu_index :: nat
  cu_payload :: bytes

text \<open>
  \<open>read_bytes_from_transport\<close>: the rest of the payload and, if that is not enough, the start of the
  next one, which must hold all that is missing: a slice past its end panics.
\<close>

definition read_bytes_from_transport :: "adb_session \<Rightarrow> nat \<Rightarrow> (cursor, bytes) io" where
  "read_bytes_from_transport a n c =
     (if cu_index c + n \<le> length (cu_payload c) then
        (Ok (slice (cu_index c) (cu_index c + n) (cu_payload c)), c\<lparr>cu_index := cu_index c + n\<rparr>)
      else
        let existing = drop (cu_index c) (cu_payload c);
            missing = n - length existing
        in (case seq_io (transmit_new MC_Okay (as_local_id a) (as_remote_id a) []) receive (cu_link c) of
              (Err e, l) \<Rightarrow> (Err e, c\<lparr>cu_link := l\<rparr>)
            | (Panic, l) \<Rightarrow> (Panic, c\<lparr>cu_link := l\<rparr>)
            | (Ok m, l) \<Rightarrow>
                (bind_outcome (try_slice 0 missing (tm_payload m)) (\<lambda>bs. Ok (existing @ bs)),
                 \<lparr>cu_link = l, cu_index = missing, cu_payload = tm_payload m\<rparr>)))"

definition list_entry :: "u32 \<Rightarrow> u32 \<Rightarrow> u32 \<Rightarrow> bytes \<Rightarrow> list_item_type" where
  "list_entry mode file_size time name =
     from_mode_and_entry mode \<lparr>li_name = name, li_time = time, li_permissions = mode AND 0x1FF, li_size = file_size\<rparr>"

text \<open>An entry after its status word: sixteen bytes of numbers, then the name.\<close>

definition read_entry :: "adb_session \<Rightarrow> (cursor, list_item_type) io" where
  "read_entry a =
     bind_io (read_bytes_from_transport a 16) (\<lambda>metadata.
       let mode = from_le32 (slice 0 4 metadata); file_size = from_le32 (slice 4 8 metadata);
           time = from_le32 (slice 8 12 metadata); name_len = from_le32 (slice 12 16 metadata)
       in bind_io (read_bytes_from_transport a (unat name_len)) (\<lambda>name.
            lift (if utf8_valid name then Ok (list_entry mode file_size time name) else Err Utf8FromBytesError)))"

text \<open>Any other status word is logged and the loop reads on.\<close>

partial_function (option) list_loop ::
    "adb_session \<Rightarrow> list_item_type list \<Rightarrow> cursor \<Rightarrow> (list_item_type list result \<times> cursor) option" where
  "list_loop a items c =
     (case read_bytes_from_transport a 4 c of
        (Err e, c') \<Rightarrow> Some (Err e, c')
      | (Panic, c') \<Rightarrow> Some (Panic, c')
      | (Ok status, c') \<Rightarrow>
          if \<not> utf8_valid status then Some (Err Utf8StrError, c')
          else if status = ascii ''DENT'' then
            (case read_entry a c' of
               (Ok item, c2) \<Rightarrow> list_loop a (items @ [item]) c2
             | (Err e, c2) \<Rightarrow> Some (Err e, c2)
             | (Panic, c2) \<Rightarrow> Some (Panic, c2))
          else if status = ascii ''DONE'' then Some (Ok items, c')
          else list_loop a items c')"

definition handle_list :: "adb_session \<Rightarrow> bytes \<Rightarrow> link \<Rightarrow> (list_item_type list result \<times> link) option" where
  "handle_list a path l =
     (case bind_io (lift (u32_try_from (length path))) (\<lambda>n.
             seq_io (write_and_expect_okay a (subcommand_encode SC_List @ to_le32 n @ path)) receive) l of
        (Err e, l') \<Rightarrow> Some (Err e, l')
      | (Panic, l') \<Rightarrow> Some (Panic, l')
      | (Ok m, l') \<Rightarrow>
          map_option (\<lambda>(r, c). (r, cu_link c))
            (list_loop a [] \<lparr>cu_link = l', cu_index = 0, cu_payload = tm_payload m\<rparr>))"

text \<open>The transaction is ended whatever the listing gave.\<close>

definition device_list ::
    "u32 \<Rightarrow> bytes option \<Rightarrow> bytes \<Rightarrow> link \<Rightarrow> (list_item_type list result \<times> link) option" where
  "device_list local_id term path l =
     (case open_session local_id term Sync l of
        (Err e, l1) \<Rightarrow> Some (Err e, l1)
      | (Panic, l1) \<Rightarrow> Some (Panic, l1)
      | (Ok a, l1) \<Rightarrow>
          Option.bind (handle_list a path l1) (\<lambda>(output, l2).
            Some (case output of
                Panic \<Rightarrow> (Panic, session_drop l2)
              | _ \<Rightarrow> scoped (seq_io (end_transaction a) (lift output)) l2)))"

section \<open>Remounting\<close>

text \<open>\<open>read_message\<close> until something else than a WRTE arrives; every payload is a line of the report.\<close>

function remount_report :: "link \<Rightarrow> bytes list \<Rightarrow> bytes list result \<times> link" where
  "remount_report l lines =
     (case receive l of
        (Err e, l') \<Rightarrow> (Err e, l')
      | (Panic, l') \<Rightarrow> (Panic, l')
      | (Ok m, l') \<Rightarrow>
          if msg_command m \<noteq> MC_Write then (Ok lines, l')
          else remount_report l' (lines @ [trim (utf8_lossy (tm_payload m))]))"
  by pat_completeness auto
termination
  by (relation "measure (\<lambda>(l, lines). length (ln_incoming l))") (auto dest: receive_incoming [OF sym])

declare remount_report.simps [simp del]

definition device_remount ::
    "u32 \<Rightarrow> bytes option \<Rightarrow> (bytes \<Rightarrow> (bytes \<times> bytes) option) \<Rightarrow> (link, remount_info list) io" where
  "device_remount local_id term captures =
     seq_io (open_and_drop local_id term Remount)
       (seq_io (read_and_assert MC_Okay)
          (bind_io (\<lambda>l. remount_report l []) (\<lambda>lines.
             lift (remount_from_str_response captures (join [10] lines)))))"

section \<open>Framebuffer\<close>

text \<open>\<open>read_exact\<close> on a cursor over a payload.\<close>

definition cursor_read :: "nat \<Rightarrow> bytes \<Rightarrow> (bytes \<times> bytes) result" where
  "cursor_read n bs =
     (if length bs < n then Err (IOError UnexpectedEof (Message (ascii ''failed to fill whole buffer'')))
      else Ok (take n bs, drop n bs))"

function framebuffer_loop :: "adb_session \<Rightarrow> u32 \<Rightarrow> bytes \<Rightarrow> link \<Rightarrow> bytes result \<times> link" where
  "framebuffer_loop a wanted data l =
     (case u32_try_from (length data) of
        Err e \<Rightarrow> (Err e, l)
      | Panic \<Rightarrow> (Panic, l)
      | Ok n \<Rightarrow>
          if n = wanted then (Ok data, l)
          else (case recv_and_reply_okay a l of
              (Ok m, l') \<Rightarrow> framebuffer_loop a wanted (data @ tm_payload m) l'
            | (Err e, l') \<Rightarrow> (Err e, l')
            | (Panic, l') \<Rightarrow> (Panic, l')))"
  by pat_completeness auto
termination
  by (relation "measure (\<lambda>(a, wanted, data, l). length (ln_incoming l))")
    (auto dest: recv_and_reply_okay_shorter [OF sym])

declare framebuffer_loop.simps [simp del]

text \<open>Size, width and height of the image, and the pixels the first packet already holds.\<close>

definition framebuffer_header :: "bytes \<Rightarrow> (u32 \<times> u32 \<times> u32 \<times> bytes) result" where
  "framebuffer_header payload =
     bind_outcome (cursor_read 4 payload) (\<lambda>(v, rest1).
       let version = from_le32 v
       in if version = 1 then
            bind_outcome (cursor_read 48 rest1) (\<lambda>(b, data).
              let info = framebuffer_info_v1 b in Ok (f1_size info, f1_width info, f1_height info, data))
          else if version = 2 then
            bind_outcome (cursor_read 52 rest1) (\<lambda>(b, data).
              let info = framebuffer_info_v2 b in Ok (f2_size info, f2_width info, f2_height info, data))
          else Err (UnimplementedFramebufferImageVersion version))"

text \<open>\<open>from_vec\<close> is \<open>ImageBuffer::from_vec\<close>: an image of the given width and height, if the data suffices.\<close>

definition device_framebuffer ::
    "(u32 \<Rightarrow> u32 \<Rightarrow> bytes \<Rightarrow> 'image option) \<Rightarrow> u32 \<Rightarrow> bytes option \<Rightarrow> (link, 'image) io" where
  "device_framebuffer from_vec local_id term =
     with_session local_id term FrameBuffer (\<lambda>a.
       bind_io (recv_and_reply_okay a) (\<lambda>response.
       bind_io (lift (framebuffer_header (tm_payload response))) (\<lambda>(total_bytes, width, height, data).
       bind_io (framebuffer_loop a total_bytes data) (\<lambda>pixels.
       bind_io (lift (ok_or FramebufferConversionError (from_vec width height pixels))) (\<lambda>image.
       seq_io (read_and_assert MC_Clse) (lift (Ok image)))))))"

section \<open>Output of a command\<close>

lemma recv_and_reply_okay_run:
  assumes "ln_outcomes l = []" and "ln_incoming l = Ok m # rs"
  shows "recv_and_reply_okay a l = (Ok m, l\<lparr>ln_incoming := rs,
    ln_sent := ln_sent l @ [message_new MC_Okay (as_local_id a) (as_remote_id a) []]\<rparr>)"
  using assms by (simp add: recv_and_reply_okay_def bind_io_def seq_io_def)

lemma shell_loop_run:
  assumes "ln_outcomes l = []" and "ln_incoming l = map Ok ms @ Ok close # rest" and "sk_script k = []"
    and "\<forall>m \<in> set ms. msg_command m \<noteq> MC_Clse" and "msg_command close = MC_Clse"
  shows "shell_loop a (Some k) l
    = (Ok (), Some (k\<lparr>sk_out := sk_out k @ concat (map tm_payload ms)\<rparr>),
       l\<lparr>ln_incoming := rest, ln_sent := ln_sent l
          @ replicate (length ms + 1) (message_new MC_Okay (as_local_id a) (as_remote_id a) [])\<rparr>)"
  using assms
proof (induction ms arbitrary: l k)
  case Nil
  then show ?case by (subst shell_loop.simps) (simp add: recv_and_reply_okay_run)
next
  case (Cons m ms)
  let ?okay = "message_new MC_Okay (as_local_id a) (as_remote_id a) []"
  let ?l = "l\<lparr>ln_incoming := map Ok ms @ Ok close # rest, ln_sent := ln_sent l @ [?okay]\<rparr>"
  let ?k = "k\<lparr>sk_out := sk_out k @ tm_payload m\<rparr>"
  have "recv_and_reply_okay a l = (Ok m, ?l)"
    using Cons.prems by (intro recv_and_reply_okay_run) simp_all
  moreover have "shell_loop a (Some ?k) ?l
    = (Ok (), Some (?k\<lparr>sk_out := sk_out ?k @ concat (map tm_payload ms)\<rparr>),
       ?l\<lparr>ln_incoming := rest, ln_sent := ln_sent ?l @ replicate (length ms + 1) ?okay\<rparr>)"
    using Cons.prems by (intro Cons.IH) simp_all
  ultimately show ?case
    using Cons.prems(3,4) by (subst shell_loop.simps) (simp add: write_output_def)
qed

text \<open>
  Running a command writes to the output exactly the payloads the device sent before it closed
  the stream, in order, and acknowledges every message.
\<close>

theorem shell_output_complete:
  assumes "ln_outcomes l = []" and "sk_script k = []"
    and "ln_incoming l = Ok okay # map Ok ms @ Ok close # rest"
    and "msg_command okay = MC_Okay" and "msg_arg1 okay = local_id"
    and "\<forall>m \<in> set ms. msg_command m \<noteq> MC_Clse" and "msg_command close = MC_Clse"
    and "length (destination term (ShellCommand command [])) < 2 ^ 32"
  shows "shell_command local_id term command (Some k) l
    = (Ok (), Some (k\<lparr>sk_out := sk_out k @ concat (map tm_payload ms)\<rparr>),
       l\<lparr>ln_incoming := drain rest,
         ln_sent := ln_sent l @ message_new MC_Open local_id 0 (destination term (ShellCommand command []))
           # replicate (length ms + 1) (message_new MC_Okay local_id (msg_arg0 okay) [])\<rparr>)"
proof -
  let ?l = "l\<lparr>ln_incoming := map Ok ms @ Ok close # rest,
    ln_sent := ln_sent l @ [message_new MC_Open local_id 0 (destination term (ShellCommand command []))]\<rparr>"
  let ?a = "\<lparr>as_local_id = local_id, as_remote_id = msg_arg0 okay\<rparr>"
  have "open_session local_id term (ShellCommand command []) l = (Ok ?a, ?l)"
    using assms by (intro open_session_run) simp_all
  moreover have "shell_loop ?a (Some k) ?l
    = (Ok (), Some (k\<lparr>sk_out := sk_out k @ concat (map tm_payload ms)\<rparr>),
       ?l\<lparr>ln_incoming := rest, ln_sent := ln_sent ?l
          @ replicate (length ms + 1) (message_new MC_Okay (as_local_id ?a) (as_remote_id ?a) [])\<rparr>)"
    using assms by (intro shell_loop_run) simp_all
  ultimately show ?thesis by (simp add: shell_command_def session_drop_def)
qed

theorem shell_output_complete_witness:
  "shell_command 5 None [108] (Some \<lparr>sk_script = [], sk_out = []\<rparr>)
     \<lparr>ln_incoming = [Ok (message_new MC_Okay 9 5 []), Ok (message_new MC_Write 9 5 [1]),
        Ok (message_new MC_Write 9 5 [2]), Ok (message_new MC_Clse 9 5 [])],
      ln_outcomes = [], ln_closed = TLSError, ln_sent = []\<rparr>
   = (Ok (), Some \<lparr>sk_script = [], sk_out = [1, 2]\<rparr>,
      \<lparr>ln_incoming = [], ln_outcomes = [], ln_closed = TLSError,
       ln_sent = message_new MC_Open 5 0 (destination None (ShellCommand [108] []))
         # replicate 3 (message_new MC_Okay 5 9 [])\<rparr>)"
proof -
  have "length (destination None (ShellCommand [108] [])) < 2 ^ 32" by (simp add: destination_def Let_def)
  from shell_output_complete [OF _ _ _ _ _ _ _ this, of
      "\<lparr>ln_incoming = [Ok (message_new MC_Okay 9 5 []), Ok (message_new MC_Write 9 5 [1]),
        Ok (message_new MC_Write 9 5 [2]), Ok (message_new MC_Clse 9 5 [])],
      ln_outcomes = [], ln_closed = TLSError, ln_sent = []\<rparr>"
      "\<lparr>sk_script = [], sk_out = []\<rparr>" "message_new MC_Okay 9 5 []"
      "[message_new MC_Write 9 5 [1], message_new MC_Write 9 5 [2]]" "message_new MC_Clse 9 5 []" "[]" 5]
  show ?thesis by (simp add: numeral_3_eq_3)
qed

section \<open>Listings are read back\<close>

definition entry_bytes :: "u32 \<times> u32 \<times> u32 \<times> bytes \<Rightarrow> bytes" where
  "entry_bytes e = (case e of (mode, file_size, time, name) \<Rightarrow>
     ascii ''DENT'' @ to_le32 mode @ to_le32 file_size @ to_le32 time @ to_le32 (word_of_nat (length name)) @ name)"

definition listing_bytes :: "(u32 \<times> u32 \<times> u32 \<times> bytes) list \<Rightarrow> bytes" where
  "listing_bytes es = concat (map entry_bytes es) @ ascii ''DONE''"

text \<open>The bytes in front of a cursor, and packets of which every one holds at least \<open>w\<close> bytes.\<close>

definition roomy :: "nat \<Rightarrow> transport_message result list \<Rightarrow> bool" where
  "roomy w rs \<longleftrightarrow> (\<forall>r \<in> set rs. \<exists>m. r = Ok m \<and> w \<le> length (tm_payload m))"

definition cursor_content :: "cursor \<Rightarrow> bytes" where
  "cursor_content c = drop (cu_index c) (cu_payload c) @ payloads (ln_incoming (cu_link c))"

definition cursor_good :: "nat \<Rightarrow> cursor \<Rightarrow> bool" where
  "cursor_good w c \<longleftrightarrow> cu_index c \<le> length (cu_payload c) \<and> ln_outcomes (cu_link c) = []
     \<and> roomy w (ln_incoming (cu_link c))"

lemma read_bytes_content:
  assumes g: "cursor_good w c" and c: "cursor_content c = xs @ rest" and n: "length xs \<le> w"
  shows "\<exists>c'. read_bytes_from_transport a (length xs) c = (Ok xs, c') \<and> cursor_content c' = rest \<and> cursor_good w c'"
proof (cases "cu_index c + length xs \<le> length (cu_payload c)")
  case True
  have "take (length xs) (drop (cu_index c) (cu_payload c)) = xs"
    using arg_cong [OF c [unfolded cursor_content_def], of "take (length xs)"] True by simp
  moreover have "drop (cu_index c + length xs) (cu_payload c) @ payloads (ln_incoming (cu_link c)) = rest"
    using arg_cong [OF c [unfolded cursor_content_def], of "drop (length xs)"] True
    by (simp add: add.commute)
  ultimately show ?thesis
    using g True by (simp add: read_bytes_from_transport_def slice_def cursor_content_def cursor_good_def)
next
  case False
  let ?old = "drop (cu_index c) (cu_payload c)"
  have short: "length ?old < length xs" using False g unfolding cursor_good_def length_drop by arith
  have "ln_incoming (cu_link c) \<noteq> []"
    using short arg_cong [OF c [unfolded cursor_content_def], of length] by auto
  then obtain m rs where inc: "ln_incoming (cu_link c) = Ok m # rs" and w: "w \<le> length (tm_payload m)" and r: "roomy w rs"
    using g by (cases "ln_incoming (cu_link c)") (auto simp: cursor_good_def roomy_def)
  let ?k = "length xs - length ?old"
  have k: "?k \<le> length (tm_payload m)" using w n by simp
  have "?old @ tm_payload m @ payloads rs = xs @ rest" using c inc by (simp add: cursor_content_def)
  then have xs: "xs = ?old @ take ?k (tm_payload m)" and rest: "rest = drop ?k (tm_payload m) @ payloads rs"
    using short k by (auto simp: append_eq_append_conv_if split: if_splits)
  have "seq_io (transmit_new MC_Okay (as_local_id a) (as_remote_id a) []) receive (cu_link c)
    = (Ok m, (cu_link c)\<lparr>ln_incoming := rs, ln_sent := ln_sent (cu_link c)
        @ [message_new MC_Okay (as_local_id a) (as_remote_id a) []]\<rparr>)"
    using g inc by (simp add: seq_io_def bind_io_def cursor_good_def)
  then show ?thesis
    using False k xs rest r g
    by (simp add: read_bytes_from_transport_def Let_def try_slice_def slice_def cursor_content_def cursor_good_def)
qed

lemma read_entry_content:
  assumes "cursor_good w c" and "16 \<le> w" and "length name \<le> w" and "length name < 2 ^ 32" and "utf8_valid name"
    and "ascii ''DENT'' @ cursor_content c = entry_bytes (mode, file_size, time, name) @ rest"
  shows "\<exists>c'. read_entry a c = (Ok (list_entry mode file_size time name), c') \<and> cursor_content c' = rest \<and> cursor_good w c'"
proof -
  let ?meta = "to_le32 mode @ to_le32 file_size @ to_le32 time @ to_le32 (word_of_nat (length name))"
  have "cursor_content c = ?meta @ (name @ rest)" using assms(6) by (simp add: entry_bytes_def)
  from read_bytes_content [OF assms(1) this] assms(2) obtain c1
    where "read_bytes_from_transport a 16 c = (Ok ?meta, c1)" "cursor_content c1 = name @ rest" "cursor_good w c1"
    by auto
  moreover from read_bytes_content [OF this(3,2) assms(3)] obtain c2
    where "read_bytes_from_transport a (length name) c1 = (Ok name, c2)" "cursor_content c2 = rest" "cursor_good w c2"
    by blast
  ultimately show ?thesis
    using assms(4,5)
    by (simp add: read_entry_def bind_io_def Let_def slice_append_left slice_append_right slice_full)
qed

lemma list_loop_content:
  assumes "cursor_good w c" and "16 \<le> w"
    and "\<forall>(mode, file_size, time, name) \<in> set es. length name \<le> w \<and> length name < 2 ^ 32 \<and> utf8_valid name"
    and "cursor_content c = listing_bytes es @ rest"
  shows "\<exists>c'. list_loop a items c
    = Some (Ok (items @ map (\<lambda>(mode, file_size, time, name). list_entry mode file_size time name) es), c')"
  using assms
proof (induction es arbitrary: items c)
  case Nil
  have d: "cursor_content c = ascii ''DONE'' @ rest" using Nil.prems(4) by (simp add: listing_bytes_def)
  have four: "length (ascii ''DONE'') = 4" by simp
  from read_bytes_content [OF Nil.prems(1) d, of a, unfolded four] Nil.prems(2) obtain c1
    where "read_bytes_from_transport a 4 c = (Ok (ascii ''DONE''), c1)" by auto
  then show ?case
    by (subst list_loop.simps) (simp add: utf8_step_def utf8_width_def)
next
  case (Cons e es)
  obtain mode file_size time name where e: "e = (mode, file_size, time, name)" by (cases e) auto
  have "cursor_content c = ascii ''DENT'' @ (drop 4 (entry_bytes e) @ listing_bytes es @ rest)"
    using Cons.prems(4) by (simp add: listing_bytes_def e entry_bytes_def)
  moreover have four: "length (ascii ''DENT'') = 4" by simp
  ultimately obtain c1
    where s: "read_bytes_from_transport a 4 c = (Ok (ascii ''DENT''), c1)"
      "cursor_content c1 = drop 4 (entry_bytes e) @ listing_bytes es @ rest" "cursor_good w c1"
    using read_bytes_content [OF Cons.prems(1), of "ascii ''DENT''" _ a, unfolded four] Cons.prems(2) by fastforce
  have "ascii ''DENT'' @ cursor_content c1 = entry_bytes (mode, file_size, time, name) @ (listing_bytes es @ rest)"
    using s(2) by (simp add: e entry_bytes_def)
  from read_entry_content [OF s(3) Cons.prems(2) _ _ _ this, of a] Cons.prems(3) obtain c2
    where r: "read_entry a c1 = (Ok (list_entry mode file_size time name), c2)"
      "cursor_content c2 = listing_bytes es @ rest" "cursor_good w c2" by (auto simp: e)
  from Cons.IH [OF r(3) Cons.prems(2) _ r(2), of "items @ [list_entry mode file_size time name]"] Cons.prems(3)
  obtain c' where "list_loop a (items @ [list_entry mode file_size time name]) c2
      = Some (Ok ((items @ [list_entry mode file_size time name])
          @ map (\<lambda>(mode, file_size, time, name). list_entry mode file_size time name) es), c')" by auto
  with s(1) r(1) show ?case
    by (subst list_loop.simps) (simp add: utf8_step_def utf8_width_def e)
qed

lemma handle_list_start:
  assumes "ln_outcomes l = []" and "ln_incoming l = Ok ack # Ok first # rs" and "msg_command ack = MC_Okay"
    and "length path < 2 ^ 32 - 8"
  shows "handle_list a path l = map_option (\<lambda>(r, c). (r, cu_link c))
    (list_loop a [] \<lparr>cu_link = l\<lparr>ln_incoming := rs, ln_sent := ln_sent l
        @ [message_new MC_Write (as_local_id a) (as_remote_id a)
             (subcommand_encode SC_List @ to_le32 (word_of_nat (length path)) @ path)]\<rparr>,
       cu_index = 0, cu_payload = tm_payload first\<rparr>)"
proof -
  let ?bs = "subcommand_encode SC_List @ to_le32 (word_of_nat (length path)) @ path"
  have "length ?bs < 2 ^ 32" using assms(4) by (simp add: subcommand_encode_def)
  with assms(1-3) have "write_and_expect_okay a ?bs l = (Ok ack, l\<lparr>ln_incoming := Ok first # rs,
      ln_sent := ln_sent l @ [message_new MC_Write (as_local_id a) (as_remote_id a) ?bs]\<rparr>)"
    by (intro write_and_expect_okay_run) simp_all
  with assms(4) show ?thesis by (simp add: handle_list_def bind_io_def seq_io_def)
qed

text \<open>
  A directory listing is read back entry by entry, wherever the packets cut it, as long as no
  packet after the first is shorter than the longest field.
\<close>

theorem handle_list_exact:
  assumes "ln_outcomes l = []" and "ln_incoming l = Ok ack # Ok first # rs" and "msg_command ack = MC_Okay"
    and "length path < 2 ^ 32 - 8" and "roomy w rs" and "16 \<le> w"
    and "\<forall>(mode, file_size, time, name) \<in> set es. length name \<le> w \<and> length name < 2 ^ 32 \<and> utf8_valid name"
    and "tm_payload first @ payloads rs = listing_bytes es @ rest"
  shows "\<exists>l'. handle_list a path l
    = Some (Ok (map (\<lambda>(mode, file_size, time, name). list_entry mode file_size time name) es), l')"
proof -
  let ?c = "\<lparr>cu_link = l\<lparr>ln_incoming := rs, ln_sent := ln_sent l
        @ [message_new MC_Write (as_local_id a) (as_remote_id a)
             (subcommand_encode SC_List @ to_le32 (word_of_nat (length path)) @ path)]\<rparr>,
       cu_index = 0, cu_payload = tm_payload first\<rparr>"
  have "cursor_good w ?c" using assms(1,5) by (simp add: cursor_good_def)
  moreover have "cursor_content ?c = listing_bytes es @ rest" using assms(8) by (simp add: cursor_content_def)
  ultimately obtain c' where "list_loop a [] ?c
      = Some (Ok ([] @ map (\<lambda>(mode, file_size, time, name). list_entry mode file_size time name) es), c')"
    using list_loop_content [OF _ assms(6,7)] by blast
  with handle_list_start [OF assms(1-4)] show ?thesis by simp
qed

text \<open>A directory with the regular file \<open>a\<close>, cut inside the numbers of its entry.\<close>

theorem handle_list_exact_witness:
  "let d = listing_bytes [(0x81A4, 7, 0, [97])];
       m = (\<lambda>bs. Ok (message_new MC_Write 9 5 bs));
       l = \<lparr>ln_incoming = [Ok (message_new MC_Okay 9 5 []), m (take 6 d), m (drop 6 d)],
            ln_outcomes = [], ln_closed = TLSError, ln_sent = []\<rparr>
   in \<exists>l'. handle_list \<lparr>as_local_id = 5, as_remote_id = 9\<rparr> [47] l = Some (Ok [list_entry 0x81A4 7 0 [97]], l')"
proof -
  let ?d = "listing_bytes [(0x81A4, 7, 0, [97])]"
  have "length ?d = 25" by (simp add: listing_bytes_def entry_bytes_def)
  then have "roomy 16 [Ok (message_new MC_Write 9 5 (drop 6 ?d))]" by (simp add: roomy_def)
  moreover have "utf8_valid [97]" by (simp add: utf8_step_def utf8_width_def)
  ultimately show ?thesis
    unfolding Let_def
    using handle_list_exact [of "\<lparr>ln_incoming = [Ok (message_new MC_Okay 9 5 []), Ok (message_new MC_Write 9 5 (take 6 ?d)),
          Ok (message_new MC_Write 9 5 (drop 6 ?d))], ln_outcomes = [], ln_closed = TLSError, ln_sent = []\<rparr>"
        "message_new MC_Okay 9 5 []" "message_new MC_Write 9 5 (take 6 ?d)" "[Ok (message_new MC_Write 9 5 (drop 6 ?d))]"
        "[47]" 16 "[(0x81A4, 7, 0, [97])]" "[]" "\<lparr>as_local_id = 5, as_remote_id = 9\<rparr>"]
    by simp
qed

text \<open>A field that needs more than the next packet holds panics: the slice ends past the payload.\<close>

lemma list_field_over_three_packets_panics:
  assumes "ln_outcomes (cu_link c) = []" and "ln_incoming (cu_link c) = Ok m # rs"
    and "cu_index c \<le> length (cu_payload c)"
    and "length (cu_payload c) - cu_index c + length (tm_payload m) < n"
  shows "fst (read_bytes_from_transport a n c) = Panic"
  using assms by (simp add: read_bytes_from_transport_def Let_def seq_io_def bind_io_def try_slice_def) arith

end
