(* ===== verification/Dispatcher.thy ===== *)
theory Dispatcher
  imports Link "HOL-Library.AList"
begin

text \<open>
  \<^verbatim>\<open>message_devices/transport_dispatcher.rs\<close>: the thread that owns the only reader of a transport,
  serves the commands of every service and routes each packet to the session it names. Channels are
  numbered in the order they are created and hold every message ever sent into them; hash maps are
  association lists. Other threads put commands into the queue at any moment, which the step
  relation at the end of the theory makes explicit.
\<close>

section \<open>State\<close>

definition READ_POLL_INTERVAL :: nat where
  "READ_POLL_INTERVAL = 8"

definition BULK_READ_POLL_INTERVAL :: nat where
  "BULK_READ_POLL_INTERVAL = 1"

definition read_poll_interval :: "bool \<Rightarrow> nat" where
  "read_poll_interval bulk_transfer_active =
     (if bulk_transfer_active then BULK_READ_POLL_INTERVAL else READ_POLL_INTERVAL)"

type_synonym channel = nat

datatype dispatcher_command =
    Write_Packet transport_message
  | Register
  | Unregister u32
  | Route bytes "bytes option"
  | Routes
  | Shutdown

text \<open>What the completion channel of a command receives.\<close>

datatype dispatcher_reply =
    Written "unit result"
  | Registered "(u32 \<times> channel) result"
  | Unregistered
  | Routed
  | Route_List "(bytes \<times> bytes) list"
  | Stopped

record dispatcher =
  dp_transport :: link
  dp_routes :: "(bytes \<times> bytes) list"
  dp_sessions :: "(u32 \<times> channel) list"
  dp_next_local_id :: u32
  dp_connectors :: "u16 \<Rightarrow> (u32 \<times> channel \<times> u32) list"
  dp_channels :: "channel \<Rightarrow> transport_message list"
  dp_next_channel :: channel
  dp_running :: bool

definition dispatcher_start :: "link \<Rightarrow> dispatcher" where
  "dispatcher_start transport =
     \<lparr>dp_transport = transport, dp_routes = [], dp_sessions = [], dp_next_local_id = 1,
      dp_connectors = (\<lambda>_. []), dp_channels = (\<lambda>_. []), dp_next_channel = 0, dp_running = True\<rparr>"

section \<open>Stream ids\<close>

text \<open>The counter after an allocation: zero is skipped when it wraps.\<close>

definition advance_id :: "u32 \<Rightarrow> u32" where
  "advance_id n = max (n + 1) 1"

fun allocate_loop :: "nat \<Rightarrow> (u32 \<times> channel) list \<Rightarrow> u32 \<Rightarrow> u32 option \<times> u32" where
  "allocate_loop n sessions next_local_id =
     (if n = 0 then (None, next_local_id)
      else let candidate = next_local_id; next_local_id = advance_id next_local_id
           in if candidate \<noteq> 0 \<and> map_of sessions candidate = None then (Some candidate, next_local_id)
              else allocate_loop (n - 1) sessions next_local_id)"

declare allocate_loop.simps [simp del]

text \<open>\<open>for _ in 1..u32::MAX\<close>.\<close>

definition allocate_local_id :: "(u32 \<times> channel) list \<Rightarrow> u32 \<Rightarrow> u32 option \<times> u32" where
  "allocate_local_id sessions next_local_id = allocate_loop (2 ^ 32 - 2) sessions next_local_id"

text \<open>A session under a new id, with a new channel.\<close>

definition new_session :: "dispatcher \<Rightarrow> (u32 \<times> channel) option \<times> dispatcher" where
  "new_session d =
     (case allocate_local_id (dp_sessions d) (dp_next_local_id d) of
        (None, n) \<Rightarrow> (None, d\<lparr>dp_next_local_id := n\<rparr>)
      | (Some local_id, n) \<Rightarrow>
          (Some (local_id, dp_next_channel d),
           d\<lparr>dp_next_local_id := n, dp_sessions := AList.update local_id (dp_next_channel d) (dp_sessions d),
             dp_next_channel := dp_next_channel d + 1\<rparr>))"

section \<open>Commands\<close>

fun handle_command :: "dispatcher_command \<Rightarrow> dispatcher \<Rightarrow> dispatcher_reply \<times> dispatcher" where
  "handle_command (Write_Packet m) d =
     (case transmit_message m (dp_transport d) of (r, t) \<Rightarrow> (Written r, d\<lparr>dp_transport := t\<rparr>))"
| "handle_command Register d =
     (case new_session d of
        (None, d') \<Rightarrow> (Registered (Err (request_failed ''no ADB session IDs are available'')), d')
      | (Some s, d') \<Rightarrow> (Registered (Ok s), d'))"
| "handle_command (Unregister local_id) d =
     (Unregistered, d\<lparr>dp_sessions := AList.delete local_id (dp_sessions d)\<rparr>)"
| "handle_command (Route remote (Some near)) d = (Routed, d\<lparr>dp_routes := AList.update remote near (dp_routes d)\<rparr>)"
| "handle_command (Route remote None) d = (Routed, d\<lparr>dp_routes := AList.delete remote (dp_routes d)\<rparr>)"
| "handle_command Routes d = (Route_List (dp_routes d), d)"
| "handle_command Shutdown d = (Stopped, d\<lparr>dp_running := False\<rparr>)"

section \<open>Packets\<close>

definition deliver :: "channel \<Rightarrow> transport_message \<Rightarrow> dispatcher \<Rightarrow> dispatcher" where
  "deliver c m d = d\<lparr>dp_channels := (dp_channels d)(c := dp_channels d c @ [m])\<rparr>"

text \<open>
  The listener a device may reach: the value of the route the destination names, or the destination
  itself when it is the value of a route.
\<close>

definition route_for :: "bytes \<Rightarrow> (bytes \<times> bytes) list \<Rightarrow> bytes option" where
  "route_for destination routes =
     (case map_of routes destination of
        Some near \<Rightarrow> Some near
      | None \<Rightarrow> List.find (\<lambda>near. near = destination) (map snd routes))"

definition tcp_port :: "bytes \<Rightarrow> u16 option" where
  "tcp_port near =
     Option.bind (strip_prefix (ascii ''tcp:'') near) (\<lambda>s. map_option word_of_nat (parse_uint 10 16 s))"

definition handle_open :: "transport_message \<Rightarrow> dispatcher \<Rightarrow> dispatcher" where
  "handle_open packet d =
     (case route_for (trim_end 0 (utf8_lossy (tm_payload packet))) (dp_routes d) of
        Some near \<Rightarrow>
          (case tcp_port near of
             Some port \<Rightarrow>
               (case new_session d of
                  (None, d') \<Rightarrow> d'
                | (Some (local_id, c), d') \<Rightarrow>
                    d'\<lparr>dp_connectors := (dp_connectors d')(port := dp_connectors d' port @ [(local_id, c, msg_arg0 packet)])\<rparr>)
           | None \<Rightarrow> d)
      | None \<Rightarrow>
          d\<lparr>dp_transport := snd (transmit_message (message_new MC_Clse 0 (msg_arg0 packet) []) (dp_transport d))\<rparr>)"

definition dispatch_packet :: "transport_message \<Rightarrow> dispatcher \<Rightarrow> dispatcher" where
  "dispatch_packet packet d =
     (if msg_command packet = MC_Open then handle_open packet d
      else case map_of (dp_sessions d) (msg_arg1 packet) of
          Some c \<Rightarrow> deliver c packet d
        | None \<Rightarrow> d)"

text \<open>A fatal error wakes every session with a CLSE and ends the thread.\<close>

definition wake_sessions :: "dispatcher \<Rightarrow> dispatcher" where
  "wake_sessions d =
     (fold (\<lambda>(local_id, c). deliver c (message_new MC_Clse 0 local_id [])) (dp_sessions d) d)
       \<lparr>dp_sessions := [], dp_running := False\<rparr>"

definition is_idle :: "rust_error \<Rightarrow> bool" where
  "is_idle e = (case e of IOError k _ \<Rightarrow> k \<in> {TimedOut, WouldBlock, Interrupted} | _ \<Rightarrow> False)"

definition poll_transport :: "dispatcher \<Rightarrow> dispatcher" where
  "poll_transport d =
     (case receive (dp_transport d) of
        (Ok packet, t) \<Rightarrow> dispatch_packet packet (d\<lparr>dp_transport := t\<rparr>)
      | (Err e, t) \<Rightarrow> if is_idle e then d\<lparr>dp_transport := t\<rparr> else wake_sessions (d\<lparr>dp_transport := t\<rparr>)
      | (Panic, t) \<Rightarrow> d\<lparr>dp_transport := t, dp_running := False\<rparr>)"

section \<open>Allocation\<close>

lemma advance_nonzero [simp]: "advance_id n \<noteq> 0"
proof
  assume "advance_id n = 0"
  moreover have "1 \<le> advance_id n" unfolding advance_id_def by (rule max.cobounded2)
  ultimately show False by (simp add: word_le_nat_alt)
qed

text \<open>The position of a non-zero id in the cycle the counter runs through.\<close>

definition position :: "u32 \<Rightarrow> nat" where
  "position n = unat n - 1"

lemma position_less: "n \<noteq> 0 \<Longrightarrow> position n < 2 ^ 32 - 1"
  using unat_less_u32 [of n] by (simp add: position_def unat_eq_zero)

lemma position_inject: "m \<noteq> 0 \<Longrightarrow> n \<noteq> 0 \<Longrightarrow> position m = position n \<Longrightarrow> m = n"
proof -
  assume "m \<noteq> 0" "n \<noteq> 0" "position m = position n"
  then have "unat m = unat n" using unat_gt_0 [of m] unat_gt_0 [of n] by (simp add: position_def)
  then show "m = n" by (simp add: word_unat_eq_iff)
qed

lemma unat_plus_one_u32: "unat (n + 1 :: u32) = (unat n + 1) mod 2 ^ 32"
proof -
  have "n + 1 = word_of_nat (unat n + 1)" by simp
  then show ?thesis by (simp only: unat_of_nat) simp
qed

lemma position_advance: "n \<noteq> 0 \<Longrightarrow> position (advance_id n) = (position n + 1) mod (2 ^ 32 - 1)"
proof (cases "unat n + 1 = 2 ^ 32")
  case True
  then have "unat (n + 1) = 0" unfolding unat_plus_one_u32 by simp
  then have "n + 1 = 0" by (simp add: unat_eq_zero)
  then have "advance_id n = 1" by (simp add: advance_id_def max_def word_le_nat_alt)
  with True show ?thesis by (simp add: position_def)
next
  case False
  assume n: "n \<noteq> 0"
  have lt: "unat n + 1 < 2 ^ 32" using False unat_less_u32 [of n] by simp
  then have u: "unat (n + 1) = unat n + 1" unfolding unat_plus_one_u32 by simp
  then have "1 \<le> n + 1" by (simp only: word_le_nat_alt) simp
  then have a: "advance_id n = n + 1" by (simp add: advance_id_def max_def)
  have "0 < unat n" using n by (simp add: unat_gt_0)
  with u lt a show ?thesis by (simp add: position_def)
qed

lemma allocate_loop_Some:
  "allocate_loop n sessions k = (Some i, k') \<Longrightarrow> i \<noteq> 0 \<and> map_of sessions i = None \<and> k' \<noteq> 0"
  by (induction n sessions k rule: allocate_loop.induct)
    (subst (asm) (2) allocate_loop.simps, auto simp: Let_def split: if_splits)

lemma allocate_loop_next: "k \<noteq> 0 \<Longrightarrow> snd (allocate_loop n sessions k) \<noteq> 0"
  by (induction n sessions k rule: allocate_loop.induct) (subst allocate_loop.simps, simp add: Let_def)

lemma allocate_first:
  "k \<noteq> 0 \<Longrightarrow> map_of sessions k = None \<Longrightarrow> allocate_local_id sessions k = (Some k, advance_id k)"
  unfolding allocate_local_id_def by (subst allocate_loop.simps) (simp add: Let_def)

text \<open>When nothing was found, the next \<open>n\<close> ids of the cycle are all in use.\<close>

lemma allocate_loop_None:
  assumes "allocate_loop n sessions k = (None, k')" and "k \<noteq> 0" and "i < n"
  shows "\<exists>w. w \<noteq> 0 \<and> position w = (position k + i) mod (2 ^ 32 - 1) \<and> w \<in> set (map fst sessions)"
  using assms
proof (induction n sessions k arbitrary: i rule: allocate_loop.induct)
  case (1 n sessions k)
  then have used: "map_of sessions k \<noteq> None"
    and rec: "allocate_loop (n - 1) sessions (advance_id k) = (None, k')"
    by (subst (asm) (2) allocate_loop.simps, simp add: Let_def split: if_splits)+
  show ?case
  proof (cases i)
    case 0
    have "k \<in> set (map fst sessions)" using used by (simp add: map_of_eq_None_iff)
    with 0 "1.prems"(2) position_less [of k] show ?thesis by auto
  next
    case (Suc j)
    with "1.prems" have "j < n - 1" "n \<noteq> 0" by auto
    from "1.IH" [OF this(2) refl refl _ rec advance_nonzero this(1)] used "1.prems"(2) obtain w
      where "w \<noteq> 0" "position w = (position (advance_id k) + j) mod (2 ^ 32 - 1)" "w \<in> set (map fst sessions)"
      by blast
    with Suc "1.prems"(2) show ?thesis by (auto simp: position_advance mod_simps)
  qed
qed

text \<open>
  An allocated id is not zero and not in use, and as long as fewer than \<open>2 ^ 32 - 2\<close> sessions
  are open there is one: the search cannot give up while an id is free.
\<close>

theorem allocate_local_id_fresh:
  assumes "next_local_id \<noteq> 0"
  shows "(\<forall>i n. allocate_local_id sessions next_local_id = (Some i, n) \<longrightarrow> i \<noteq> 0 \<and> map_of sessions i = None \<and> n \<noteq> 0)
    \<and> (length sessions < 2 ^ 32 - 2 \<longrightarrow> (\<exists>i n. allocate_local_id sessions next_local_id = (Some i, n)))"
proof (intro conjI allI impI)
  fix i n
  assume "allocate_local_id sessions next_local_id = (Some i, n)"
  then show "i \<noteq> 0" "map_of sessions i = None" "n \<noteq> 0"
    unfolding allocate_local_id_def by (blast dest: allocate_loop_Some)+
next
  assume few: "length sessions < 2 ^ 32 - 2"
  show "\<exists>i n. allocate_local_id sessions next_local_id = (Some i, n)"
  proof (rule ccontr)
    assume "\<not> ?thesis"
    then obtain k' where none: "allocate_loop (2 ^ 32 - 2) sessions next_local_id = (None, k')"
      by (cases "allocate_local_id sessions next_local_id") (auto simp: allocate_local_id_def)
    let ?f = "\<lambda>i. (position next_local_id + i) mod (2 ^ 32 - 1)"
    have "?f ` {..<2 ^ 32 - 2} \<subseteq> position ` set (map fst sessions)"
      using allocate_loop_None [OF none assms] by (force simp: image_iff)
    moreover have "inj_on ?f {..<2 ^ 32 - 2}"
    proof (rule inj_onI)
      fix i j :: nat
      assume ij: "i \<in> {..<2 ^ 32 - 2}" "j \<in> {..<2 ^ 32 - 2}" "?f i = ?f j"
      have less: "b - a = 0" if "a \<le> b" "b < 2 ^ 32 - 2" "?f a = ?f b" for a b :: nat
      proof -
        from that have "2 ^ 32 - 1 dvd b - a"
          using mod_eq_dvd_iff_nat [of "position next_local_id + a" "position next_local_id + b" "2 ^ 32 - 1"] by simp
        moreover have "b - a < 2 ^ 32 - 1" using that by simp
        ultimately show ?thesis using nat_dvd_not_less by blast
      qed
      show "i = j" using less [of i j] less [of j i] ij by (cases "i \<le> j") simp_all
    qed
    ultimately have "card {..<(2 ^ 32 - 2 :: nat)} \<le> card (position ` set (map fst sessions))"
      by (metis card_image card_mono finite_imageI List.finite_set)
    also have "\<dots> \<le> length (map fst sessions)"
      by (meson card_image_le card_length le_trans List.finite_set)
    finally show False using few by simp
  qed
qed

theorem allocate_local_id_fresh_witness:
  "\<exists>i n. allocate_local_id [(1, 0)] 1 = (Some i, n) \<and> i \<noteq> 0 \<and> i \<noteq> 1 \<and> n \<noteq> 0"
proof -
  from allocate_local_id_fresh [of 1 "[(1, 0)]"] obtain i n
    where a: "allocate_local_id [(1, 0)] 1 = (Some i, n)" by auto
  with allocate_local_id_fresh [of 1 "[(1, 0)]"] have "i \<noteq> 0" "map_of [(1, 0)] i = None" "n \<noteq> 0" by auto
  with a show ?thesis by (cases "i = 1") auto
qed

end
