(* ===== verification/Dispatcher_Runs.thy ===== *)
theory Dispatcher_Runs
  imports Dispatcher
begin

text \<open>
  The runs of the dispatcher: its thread alternates between serving the commands in its queue and
  one poll of the transport, while any other thread may submit a command at any moment. Every
  reachable state satisfies the invariants below, from which the properties follow.
\<close>

section \<open>The step relation\<close>

text \<open>
  \<open>sy_polling\<close> says that the queue was found empty and the thread is about to read. The log holds
  the packets read so far, and \<open>sy_born\<close> how many there were when a channel was created: both only
  record what happened.
\<close>

record system =
  sy_dispatcher :: dispatcher
  sy_queue :: "dispatcher_command list"
  sy_polling :: bool
  sy_log :: "transport_message list"
  sy_born :: "channel \<Rightarrow> nat"

definition system_start :: "link \<Rightarrow> system" where
  "system_start transport =
     \<lparr>sy_dispatcher = dispatcher_start transport, sy_queue = [], sy_polling = False, sy_log = [], sy_born = (\<lambda>_. 0)\<rparr>"

definition births :: "dispatcher \<Rightarrow> transport_message list \<Rightarrow> (channel \<Rightarrow> nat) \<Rightarrow> channel \<Rightarrow> nat" where
  "births d log born c = (if c < dp_next_channel d then born c else length log)"

definition submit :: "dispatcher_command \<Rightarrow> system \<Rightarrow> system" where
  "submit c s = s\<lparr>sy_queue := sy_queue s @ [c]\<rparr>"

definition serve :: "dispatcher_command \<Rightarrow> dispatcher_command list \<Rightarrow> system \<Rightarrow> system" where
  "serve c rest s =
     s\<lparr>sy_dispatcher := snd (handle_command c (sy_dispatcher s)), sy_queue := rest,
       sy_born := births (sy_dispatcher s) (sy_log s) (sy_born s)\<rparr>"

definition packets_read :: "dispatcher \<Rightarrow> transport_message list" where
  "packets_read d = (case receive (dp_transport d) of (Ok m, _) \<Rightarrow> [m] | _ \<Rightarrow> [])"

definition poll :: "system \<Rightarrow> system" where
  "poll s =
     (let log = sy_log s @ packets_read (sy_dispatcher s)
      in s\<lparr>sy_dispatcher := poll_transport (sy_dispatcher s), sy_polling := False, sy_log := log,
           sy_born := births (sy_dispatcher s) log (sy_born s)\<rparr>)"

inductive dispatcher_step :: "system \<Rightarrow> system \<Rightarrow> bool" where
  submit: "dp_running (sy_dispatcher s) \<Longrightarrow> dispatcher_step s (submit c s)"
| serve: "dp_running (sy_dispatcher s) \<Longrightarrow> \<not> sy_polling s \<Longrightarrow> sy_queue s = c # rest
    \<Longrightarrow> dispatcher_step s (serve c rest s)"
| settle: "dp_running (sy_dispatcher s) \<Longrightarrow> \<not> sy_polling s \<Longrightarrow> sy_queue s = []
    \<Longrightarrow> dispatcher_step s (s\<lparr>sy_polling := True\<rparr>)"
| poll: "dp_running (sy_dispatcher s) \<Longrightarrow> sy_polling s \<Longrightarrow> dispatcher_step s (poll s)"

inductive dispatcher_run :: "link \<Rightarrow> system \<Rightarrow> bool" for transport where
  start: "dispatcher_run transport (system_start transport)"
| step: "dispatcher_run transport s \<Longrightarrow> dispatcher_step s s' \<Longrightarrow> dispatcher_run transport s'"

inductive_cases dispatcher_stepE: "dispatcher_step s s'"

section \<open>The invariant\<close>

definition addressed :: "u32 \<Rightarrow> transport_message \<Rightarrow> bool" where
  "addressed local_id m \<longleftrightarrow> msg_command m \<noteq> MC_Open \<and> msg_arg1 m = local_id"

definition sessions_wf :: "dispatcher \<Rightarrow> bool" where
  "sessions_wf d \<longleftrightarrow>
     distinct (map fst (dp_sessions d)) \<and> distinct (map snd (dp_sessions d)) \<and> 0 \<notin> set (map fst (dp_sessions d))
     \<and> (\<forall>c \<in> set (map snd (dp_sessions d)). c < dp_next_channel d)
     \<and> (\<forall>c \<ge> dp_next_channel d. dp_channels d c = []) \<and> dp_next_local_id d \<noteq> 0"

definition delivered :: "transport_message list \<Rightarrow> (channel \<Rightarrow> nat) \<Rightarrow> dispatcher \<Rightarrow> bool" where
  "delivered log born d \<longleftrightarrow>
     (\<forall>(local_id, c) \<in> set (dp_sessions d). born c \<le> length log
        \<and> dp_channels d c = filter (addressed local_id) (drop (born c) log))"

lemma update_new_key: "k \<notin> fst ` set al \<Longrightarrow> AList.update k v al = al @ [(k, v)]"
  by (induction al) auto

lemma delivered_births: "sessions_wf d \<Longrightarrow> delivered log born d \<Longrightarrow> delivered log (births d log born) d"
  by (force simp: sessions_wf_def delivered_def births_def)

lemma delivered_irrelevant:
  "delivered log born d \<Longrightarrow> \<forall>(i, c) \<in> set (dp_sessions d). \<not> addressed i m \<Longrightarrow> delivered (log @ [m]) born d"
  by (fastforce simp: delivered_def)

text \<open>Only sessions, channels and the counters matter.\<close>

lemma sessions_wf_frame:
  "dp_sessions d' = dp_sessions d \<Longrightarrow> dp_next_channel d' = dp_next_channel d \<Longrightarrow> dp_channels d' = dp_channels d
    \<Longrightarrow> dp_next_local_id d' = dp_next_local_id d \<Longrightarrow> sessions_wf d' = sessions_wf d"
  by (simp add: sessions_wf_def)

lemma delivered_frame:
  "dp_sessions d' = dp_sessions d \<Longrightarrow> dp_channels d' = dp_channels d \<Longrightarrow> delivered log born d' = delivered log born d"
  by (simp add: delivered_def)

lemma births_frame: "dp_next_channel d' = dp_next_channel d \<Longrightarrow> births d' = births d"
  by (simp add: births_def fun_eq_iff)

lemma new_session_cases:
  assumes "new_session d = (r, d')" and "sessions_wf d"
  obtains (full) n where "r = None" "n \<noteq> 0" "d' = d\<lparr>dp_next_local_id := n\<rparr>"
  | (created) i n where "r = Some (i, dp_next_channel d)" "i \<noteq> 0" "i \<notin> fst ` set (dp_sessions d)" "n \<noteq> 0"
      "d' = d\<lparr>dp_next_local_id := n, dp_sessions := dp_sessions d @ [(i, dp_next_channel d)],
              dp_next_channel := dp_next_channel d + 1\<rparr>"
proof -
  obtain q n where a: "allocate_local_id (dp_sessions d) (dp_next_local_id d) = (q, n)" by fastforce
  have n: "n \<noteq> 0"
    using a assms(2) allocate_loop_next [of "dp_next_local_id d" "2 ^ 32 - 2" "dp_sessions d"]
    by (simp add: allocate_local_id_def sessions_wf_def)
  show thesis
  proof (cases q)
    case None
    with a n assms(1) full show thesis by (simp add: new_session_def)
  next
    case (Some i)
    with a have "i \<noteq> 0" "map_of (dp_sessions d) i = None"
      unfolding allocate_local_id_def by (blast dest: allocate_loop_Some)+
    with Some a n assms(1) created [of i n] show thesis
      by (simp add: new_session_def map_of_eq_None_iff update_new_key)
  qed
qed

lemma new_session_wf:
  assumes "sessions_wf d" and "delivered log born d" and "new_session d = (r, d')"
  shows "sessions_wf d' \<and> delivered log (births d log born) d'"
  using assms(3,1)
proof (cases rule: new_session_cases)
  case (full n)
  with assms(1,2) delivered_births [OF assms(1,2)] show ?thesis
    by (simp add: sessions_wf_def delivered_def)
next
  case (created i n)
  have "dp_next_channel d \<notin> set (map snd (dp_sessions d))" using assms(1) by (auto simp: sessions_wf_def)
  with created assms(1) have "sessions_wf d'" by (auto simp: sessions_wf_def)
  moreover have "delivered log (births d log born) d'"
    using delivered_births [OF assms(1,2)] created(5) assms(1)
    by (auto simp: delivered_def births_def sessions_wf_def)
  ultimately show ?thesis ..
qed

lemma handle_command_wf:
  assumes "sessions_wf d" and "delivered log born d"
  shows "sessions_wf (snd (handle_command c d)) \<and> delivered log (births d log born) (snd (handle_command c d))"
proof (cases c)
  case Register
  obtain r d' where "new_session d = (r, d')" by fastforce
  with new_session_wf [OF assms this] Register show ?thesis by (cases r) auto
next
  case (Unregister i)
  with assms(1) delivered_births [OF assms] show ?thesis
    by (auto simp: sessions_wf_def delivered_def AList.delete_eq distinct_map_filter)
next
  case (Route remote near)
  with assms delivered_births [OF assms] show ?thesis
    by (cases near) (simp_all add: sessions_wf_def delivered_def)
qed (use assms delivered_births [OF assms] in \<open>auto simp: sessions_wf_def delivered_def split: prod.splits\<close>)

lemma handle_open_wf:
  assumes "sessions_wf d" and "delivered log born d"
  shows "sessions_wf (handle_open m d) \<and> delivered log (births d log born) (handle_open m d)"
proof -
  obtain r d' where n: "new_session d = (r, d')" by fastforce
  from new_session_wf [OF assms n] n assms delivered_births [OF assms] show ?thesis
    by (auto simp: handle_open_def sessions_wf_def delivered_def split: option.splits)
qed

lemma dispatch_packet_wf:
  assumes wf: "sessions_wf d" and del: "delivered log born d"
  shows "sessions_wf (dispatch_packet m d) \<and> delivered (log @ [m]) (births d (log @ [m]) born) (dispatch_packet m d)"
proof (cases "msg_command m = MC_Open")
  case True
  then have "delivered (log @ [m]) born d"
    using del by (intro delivered_irrelevant) (auto simp: addressed_def)
  from handle_open_wf [OF wf this] True show ?thesis by (simp add: dispatch_packet_def)
next
  case False
  show ?thesis
  proof (cases "map_of (dp_sessions d) (msg_arg1 m)")
    case None
    then have "delivered (log @ [m]) born d"
      using del by (intro delivered_irrelevant) (auto simp: addressed_def map_of_eq_None_iff image_iff)
    with False None wf delivered_births [OF wf this] show ?thesis by (simp add: dispatch_packet_def)
  next
    case (Some c)
    have e: "dispatch_packet m d = deliver c m d" using False Some by (simp add: dispatch_packet_def)
    have "c < dp_next_channel d" using map_of_SomeD [OF Some] wf by (force simp: sessions_wf_def)
    then have "sessions_wf (deliver c m d)" using wf by (auto simp: deliver_def sessions_wf_def)
    moreover have "delivered (log @ [m]) born (deliver c m d)"
      unfolding delivered_def
    proof (safe)
      fix i c'
      assume ic: "(i, c') \<in> set (dp_sessions (deliver c m d))"
      then have in': "(i, c') \<in> set (dp_sessions d)" by (simp add: deliver_def)
      with del show "born c' \<le> length (log @ [m])" by (fastforce simp: delivered_def)
      from in' del have b: "born c' \<le> length log" "dp_channels d c' = filter (addressed i) (drop (born c') log)"
        by (auto simp: delivered_def)
      have "c' = c \<longleftrightarrow> i = msg_arg1 m"
      proof
        assume "c' = c"
        with in' map_of_SomeD [OF Some] wf show "i = msg_arg1 m"
          by (force simp: sessions_wf_def distinct_map inj_on_def)
      next
        assume "i = msg_arg1 m"
        with in' Some wf show "c' = c" by (auto simp: sessions_wf_def)
      qed
      with b False show "dp_channels (deliver c m d) c' = filter (addressed i) (drop (born c') (log @ [m]))"
        by (auto simp: deliver_def addressed_def)
    qed
    ultimately show ?thesis
      using delivered_births [of "deliver c m d" "log @ [m]" born] births_frame [of "deliver c m d" d]
      by (simp add: e deliver_def)
  qed
qed

text \<open>Waking delivers one CLSE to every session, in channels that are otherwise left alone.\<close>

lemma wake_fold:
  assumes "distinct (map snd xs)"
  shows "dp_channels (fold (\<lambda>(i, c). deliver c (message_new MC_Clse 0 i [])) xs d)
    = (\<lambda>c. dp_channels d c @ (case map_of (map prod.swap xs) c of Some i \<Rightarrow> [message_new MC_Clse 0 i []] | None \<Rightarrow> []))"
  using assms
proof (induction xs arbitrary: d)
  case (Cons x xs)
  obtain i c where x: "x = (i, c)" by fastforce
  with Cons.prems have "map_of (map prod.swap xs) c = None" by (force simp: map_of_eq_None_iff)
  with Cons x show ?case by (auto simp: deliver_def fun_eq_iff)
qed simp

lemma wake_fold_frame:
  "dp_next_channel (fold (\<lambda>(i, c). deliver c (m i)) xs d) = dp_next_channel d
    \<and> dp_next_local_id (fold (\<lambda>(i, c). deliver c (m i)) xs d) = dp_next_local_id d
    \<and> dp_transport (fold (\<lambda>(i, c). deliver c (m i)) xs d) = dp_transport d"
  by (induction xs arbitrary: d) (auto simp: deliver_def)

lemma wake_sessions_channels:
  assumes "sessions_wf d"
  shows "\<forall>(i, c) \<in> set (dp_sessions d). dp_channels (wake_sessions d) c = dp_channels d c @ [message_new MC_Clse 0 i []]"
proof safe
  fix i c
  assume ic: "(i, c) \<in> set (dp_sessions d)"
  have "distinct (map fst (map prod.swap (dp_sessions d)))"
    using assms by (simp add: sessions_wf_def comp_def prod.case_eq_if fst_swap)
  moreover have "(c, i) \<in> set (map prod.swap (dp_sessions d))" using ic by force
  ultimately have "map_of (map prod.swap (dp_sessions d)) c = Some i" by simp
  with assms show "dp_channels (wake_sessions d) c = dp_channels d c @ [message_new MC_Clse 0 i []]"
    by (simp add: wake_sessions_def wake_fold sessions_wf_def)
qed

lemma wake_sessions_wf:
  assumes "sessions_wf d"
  shows "sessions_wf (wake_sessions d)"
proof -
  have "map_of (map prod.swap (dp_sessions d)) c = None" if "dp_next_channel d \<le> c" for c
    using that assms by (force simp: sessions_wf_def map_of_eq_None_iff)
  with assms show ?thesis
    by (simp add: wake_sessions_def sessions_wf_def wake_fold wake_fold_frame)
qed

lemma poll_transport_wf:
  assumes "sessions_wf d" and "delivered log born d"
  shows "sessions_wf (poll_transport d)
    \<and> delivered (log @ packets_read d) (births d (log @ packets_read d) born) (poll_transport d)"
proof -
  obtain r t where r: "receive (dp_transport d) = (r, t)" by fastforce
  let ?d = "d\<lparr>dp_transport := t\<rparr>"
  have wf: "sessions_wf ?d" "delivered log born ?d"
    using assms by (simp_all add: sessions_wf_def delivered_def)
  show ?thesis
  proof (cases r)
    case (Ok m)
    have "births ?d (log @ [m]) born = births d (log @ [m]) born" by (simp add: births_def fun_eq_iff)
    with Ok dispatch_packet_wf [OF wf, of m] r show ?thesis
      by (simp add: poll_transport_def packets_read_def)
  next
    case (Err e)
    then show ?thesis
      using r wf wake_sessions_wf [OF wf(1)] delivered_births [OF assms]
      by (auto simp: poll_transport_def packets_read_def delivered_def wake_sessions_def)
  next
    case Panic
    with r assms delivered_births [OF assms] show ?thesis
      by (auto simp: poll_transport_def packets_read_def delivered_def sessions_wf_def)
  qed
qed

lemma dispatcher_run_wf:
  "dispatcher_run transport s
    \<Longrightarrow> sessions_wf (sy_dispatcher s) \<and> delivered (sy_log s) (sy_born s) (sy_dispatcher s)"
proof (induction rule: dispatcher_run.induct)
  case start
  show ?case by (simp add: system_start_def dispatcher_start_def sessions_wf_def delivered_def)
next
  case (step s s')
  then have wf: "sessions_wf (sy_dispatcher s)" "delivered (sy_log s) (sy_born s) (sy_dispatcher s)" by simp_all
  from step.hyps(2) show ?case
  proof cases
    case (serve c rest)
    with handle_command_wf [OF wf] show ?thesis by (simp add: serve_def)
  next
    case poll
    with poll_transport_wf [OF wf] show ?thesis by (simp add: poll_def Let_def)
  qed (use wf in \<open>simp_all add: submit_def\<close>)
qed

section \<open>The packets on the wire\<close>

fun wire_packets :: "transport_message result list \<Rightarrow> transport_message list" where
  "wire_packets [] = []"
| "wire_packets (Ok m # rs) = m # wire_packets rs"
| "wire_packets (_ # rs) = wire_packets rs"

lemma handle_command_incoming: "ln_incoming (dp_transport (snd (handle_command c d))) = ln_incoming (dp_transport d)"
  by (cases "(c, d)" rule: handle_command.cases)
    (auto simp: new_session_def split: prod.splits option.splits dest: transmit_message_frame)

lemma transmit_message_incoming [simp]: "ln_incoming (snd (transmit_message m l)) = ln_incoming l"
  by (metis prod.collapse transmit_message_frame)

lemma dispatch_packet_incoming: "ln_incoming (dp_transport (dispatch_packet m d)) = ln_incoming (dp_transport d)"
  by (auto simp: dispatch_packet_def handle_open_def new_session_def deliver_def split: prod.splits option.splits)

lemma poll_transport_incoming:
  "wire_packets (ln_incoming (dp_transport d)) = packets_read d @ wire_packets (ln_incoming (dp_transport (poll_transport d)))"
  by (cases "ln_incoming (dp_transport d)"; cases "hd (ln_incoming (dp_transport d))")
    (auto simp: packets_read_def poll_transport_def dispatch_packet_incoming wake_sessions_def wake_fold_frame)

lemma dispatcher_run_log:
  "dispatcher_run transport s
    \<Longrightarrow> wire_packets (ln_incoming transport) = sy_log s @ wire_packets (ln_incoming (dp_transport (sy_dispatcher s)))"
proof (induction rule: dispatcher_run.induct)
  case (step s s')
  from step.hyps(2) show ?case
    by cases (use step.IH in \<open>simp_all add: submit_def serve_def poll_def Let_def handle_command_incoming
        poll_transport_incoming [symmetric]\<close>)
qed (simp add: system_start_def dispatcher_start_def)

section \<open>Properties\<close>


text \<open>
  C35: whatever the other threads submit and whenever they do, a session receives exactly the packets
  addressed to it that were read since it was registered, in the order of the wire, and no packet of
  the wire is skipped or read twice.
\<close>

theorem packets_reach_their_session:
  assumes "dispatcher_run transport s" and "(i, c) \<in> set (dp_sessions (sy_dispatcher s))"
  shows "dp_channels (sy_dispatcher s) c = filter (addressed i) (drop (sy_born s c) (sy_log s))
    \<and> wire_packets (ln_incoming transport)
      = sy_log s @ wire_packets (ln_incoming (dp_transport (sy_dispatcher s)))"
  using dispatcher_run_wf [OF assms(1)] dispatcher_run_log [OF assms(1)] assms(2)
  by (auto simp: delivered_def)

text \<open>A run in which a session is registered and one packet for it is read.\<close>

definition example_link :: link where
  "example_link = \<lparr>ln_incoming = [Ok (message_new MC_Write 9 1 [7])], ln_outcomes = [], ln_closed = TLSError, ln_sent = []\<rparr>"

definition example_served :: system where
  "example_served = serve Register [] (submit Register (system_start example_link))"

definition example_polled :: system where
  "example_polled = poll (example_served\<lparr>sy_polling := True\<rparr>)"

lemma example_started:
  "dp_running (sy_dispatcher (system_start l))" "\<not> sy_polling (system_start l)" "sy_queue (system_start l) = []"
  by (simp_all add: system_start_def dispatcher_start_def)

lemma example_served_state:
  "dp_running (sy_dispatcher example_served)" "\<not> sy_polling example_served" "sy_queue example_served = []"
  "dp_sessions (sy_dispatcher example_served) = [(1, 0)]" "dp_transport (sy_dispatcher example_served) = example_link"
  "sy_born example_served 0 = 0" "sy_log example_served = []" "dp_next_channel (sy_dispatcher example_served) = 1"
  by (simp_all add: example_served_def serve_def submit_def system_start_def dispatcher_start_def
      new_session_def allocate_first births_def)

lemma example_run: "dispatcher_run example_link example_polled"
proof -
  have "dispatcher_run example_link (submit Register (system_start example_link))"
    by (intro dispatcher_run.step [OF dispatcher_run.start] dispatcher_step.submit example_started)
  then have "dispatcher_run example_link example_served"
    unfolding example_served_def
    by (rule dispatcher_run.step) (rule dispatcher_step.serve; simp add: submit_def example_started)
  then have "dispatcher_run example_link (example_served\<lparr>sy_polling := True\<rparr>)"
    by (rule dispatcher_run.step) (rule dispatcher_step.settle; simp add: example_served_state)
  then show ?thesis
    unfolding example_polled_def
    by (rule dispatcher_run.step) (rule dispatcher_step.poll; simp add: example_served_state)
qed

lemma example_state:
  "dp_sessions (sy_dispatcher example_polled) = [(1, 0)]" "sy_born example_polled 0 = 0"
  "sy_log example_polled = [message_new MC_Write 9 1 [7]]"
  using example_served_state
  by (simp_all add: example_polled_def poll_def poll_transport_def dispatch_packet_def deliver_def packets_read_def
      births_def example_link_def Let_def)


theorem packets_reach_their_session_witness:
  "dp_channels (sy_dispatcher example_polled) 0 = [message_new MC_Write 9 1 [7]]"
  using packets_reach_their_session [OF example_run, of 1 0] example_state by (simp add: addressed_def)

text \<open>
  The abstract view: every open session is a mailbox of its own. It is opened empty under an unused
  id, closed, and receives the packets that carry its id; nothing else happens to it.
\<close>

type_synonym mailboxes = "u32 \<rightharpoonup> transport_message list"

definition mailboxes :: "dispatcher \<Rightarrow> mailboxes" where
  "mailboxes d = (\<lambda>i. map_option (dp_channels d) (map_of (dp_sessions d) i))"

inductive mailbox_event :: "mailboxes \<Rightarrow> mailboxes \<Rightarrow> bool" where
  quiet: "mailbox_event mb mb"
| opened: "i \<noteq> 0 \<Longrightarrow> mb i = None \<Longrightarrow> mailbox_event mb (mb(i \<mapsto> []))"
| closed: "mailbox_event mb (mb(i := None))"
| arrived: "msg_command m \<noteq> MC_Open \<Longrightarrow> mb (msg_arg1 m) = Some q
    \<Longrightarrow> mailbox_event mb (mb(msg_arg1 m \<mapsto> q @ [m]))"
| down: "mailbox_event mb (\<lambda>_. None)"

lemma new_session_event:
  assumes "new_session d = (r, d')" and "sessions_wf d"
  shows "mailbox_event (mailboxes d) (mailboxes d')"
  using assms
proof (cases rule: new_session_cases)
  case (full n)
  then have "mailboxes d' = mailboxes d" by (simp add: mailboxes_def)
  then show ?thesis by (simp add: mailbox_event.quiet)
next
  case (created i n)
  then have none: "map_of (dp_sessions d) i = None" by (simp add: map_of_eq_None_iff)
  have "dp_channels d (dp_next_channel d) = []" using assms(2) by (simp add: sessions_wf_def)
  with created none have "mailboxes d' = (mailboxes d)(i \<mapsto> [])"
    by (auto simp: mailboxes_def map_add_def fun_eq_iff split: option.splits)
  moreover have "mailboxes d i = None" using none by (simp add: mailboxes_def)
  ultimately show ?thesis using created(2) by (simp add: mailbox_event.opened)
qed

lemma handle_command_event:
  assumes "sessions_wf d"
  shows "mailbox_event (mailboxes d) (mailboxes (snd (handle_command c d)))"
proof (cases c)
  case Register
  obtain r d' where "new_session d = (r, d')" by fastforce
  with new_session_event [OF this assms] Register show ?thesis by (cases r) auto
next
  case (Unregister i)
  have "mailboxes (snd (handle_command c d)) = (mailboxes d)(i := None)"
    using Unregister by (auto simp: mailboxes_def delete_conv fun_eq_iff)
  then show ?thesis by (simp add: mailbox_event.closed)
next
  case (Route remote near)
  then have "mailboxes (snd (handle_command c d)) = mailboxes d" by (cases near) (simp_all add: mailboxes_def)
  then show ?thesis by (simp add: mailbox_event.quiet)
next
  case (Write_Packet m)
  then have "mailboxes (snd (handle_command c d)) = mailboxes d" by (simp add: mailboxes_def split: prod.splits)
  then show ?thesis by (simp add: mailbox_event.quiet)
next
  case Shutdown
  then have "mailboxes (snd (handle_command c d)) = mailboxes d" by (simp add: mailboxes_def)
  then show ?thesis by (simp add: mailbox_event.quiet)
qed (simp add: mailbox_event.quiet)

lemma dispatch_packet_event:
  assumes "sessions_wf d"
  shows "mailbox_event (mailboxes d) (mailboxes (dispatch_packet m d))"
proof (cases "msg_command m = MC_Open")
  case True
  obtain r d' where n: "new_session d = (r, d')" by fastforce
  have "mailboxes (dispatch_packet m d) \<in> {mailboxes d, mailboxes d'}"
    using True n by (auto simp: dispatch_packet_def handle_open_def mailboxes_def split: option.splits)
  with new_session_event [OF n assms] show ?thesis by (auto simp: mailbox_event.quiet)
next
  case False
  show ?thesis
  proof (cases "map_of (dp_sessions d) (msg_arg1 m)")
    case None
    with False show ?thesis by (simp add: dispatch_packet_def mailbox_event.quiet)
  next
    case (Some c)
    have other: "map_of (dp_sessions d) i \<noteq> Some c" if "i \<noteq> msg_arg1 m" for i
    proof
      assume "map_of (dp_sessions d) i = Some c"
      then have "(i, c) \<in> set (dp_sessions d)" by (rule map_of_SomeD)
      with map_of_SomeD [OF Some] assms that show False
        by (force simp: sessions_wf_def distinct_map inj_on_def)
    qed
    have e: "dispatch_packet m d = deliver c m d" using False Some by (simp add: dispatch_packet_def)
    have "mailboxes (dispatch_packet m d) i = ((mailboxes d)(msg_arg1 m \<mapsto> dp_channels d c @ [m])) i" for i
    proof (cases "i = msg_arg1 m")
      case True
      with Some e show ?thesis by (simp add: mailboxes_def deliver_def)
    next
      case F: False
      with other [OF F] e show ?thesis
        by (cases "map_of (dp_sessions d) i") (auto simp: mailboxes_def deliver_def)
    qed
    then have "mailboxes (dispatch_packet m d) = (mailboxes d)(msg_arg1 m \<mapsto> dp_channels d c @ [m])" by (rule ext)
    moreover have "mailboxes d (msg_arg1 m) = Some (dp_channels d c)" using Some by (simp add: mailboxes_def)
    ultimately show ?thesis using False by (simp add: mailbox_event.arrived)
  qed
qed

lemma poll_transport_event:
  assumes "sessions_wf d"
  shows "mailbox_event (mailboxes d) (mailboxes (poll_transport d))"
proof -
  obtain r t where r: "receive (dp_transport d) = (r, t)" by fastforce
  let ?d = "d\<lparr>dp_transport := t\<rparr>"
  have wf: "sessions_wf ?d" and mb: "mailboxes ?d = mailboxes d"
    using assms by (simp_all add: sessions_wf_def mailboxes_def)
  have woken: "mailboxes (wake_sessions ?d) = (\<lambda>_. None)" by (simp add: mailboxes_def wake_sessions_def)
  show ?thesis
  proof (cases r)
    case (Ok m)
    with r mb dispatch_packet_event [OF wf, of m] show ?thesis by (simp add: poll_transport_def)
  next
    case (Err e)
    with r mb woken show ?thesis
      by (simp add: poll_transport_def mailbox_event.quiet mailbox_event.down)
  next
    case Panic
    with r show ?thesis by (simp add: poll_transport_def mailboxes_def mailbox_event.quiet)
  qed
qed



text \<open>
  C37: no caller is left waiting when the transport fails: the poll that sees the failure puts a CLSE
  for every open session into its channel, behind everything delivered before, and the thread ends.
\<close>

theorem transport_failure_wakes_everyone:
  assumes "dispatcher_run transport s" and "dp_running (sy_dispatcher s)" and "sy_polling s"
    and "fst (receive (dp_transport (sy_dispatcher s))) = Err e" and "\<not> is_idle e"
  shows "dispatcher_step s (poll s) \<and> \<not> dp_running (sy_dispatcher (poll s))
    \<and> (\<forall>(i, c) \<in> set (dp_sessions (sy_dispatcher s)).
         dp_channels (sy_dispatcher (poll s)) c = dp_channels (sy_dispatcher s) c @ [message_new MC_Clse 0 i []])"
proof -
  let ?d = "sy_dispatcher s"
  obtain t where r: "receive (dp_transport ?d) = (Err e, t)"
    using assms(4) by (cases "receive (dp_transport ?d)") auto
  have wf: "sessions_wf (?d\<lparr>dp_transport := t\<rparr>)"
    using dispatcher_run_wf [OF assms(1)] by (simp add: sessions_wf_def)
  have "sy_dispatcher (poll s) = wake_sessions (?d\<lparr>dp_transport := t\<rparr>)"
    using r assms(5) by (simp add: poll_def Let_def poll_transport_def)
  with wake_sessions_channels [OF wf] dispatcher_step.poll [OF assms(2,3)] show ?thesis
    by (simp add: wake_sessions_def)
qed

theorem transport_failure_wakes_everyone_witness:
  "let t = \<lparr>ln_incoming = [], ln_outcomes = [], ln_closed = TLSError, ln_sent = []\<rparr>;
       s = (system_start t)\<lparr>sy_polling := True\<rparr>
   in dispatcher_step s (poll s) \<and> \<not> dp_running (sy_dispatcher (poll s))"
proof -
  let ?t = "\<lparr>ln_incoming = [], ln_outcomes = [], ln_closed = TLSError, ln_sent = []\<rparr>"
  let ?s = "(system_start ?t)\<lparr>sy_polling := True\<rparr>"
  have "dispatcher_run ?t ?s"
    by (rule dispatcher_run.step [OF dispatcher_run.start], rule dispatcher_step.settle)
      (simp_all add: system_start_def dispatcher_start_def)
  from transport_failure_wakes_everyone [OF this, of TLSError] show ?thesis
    by (simp add: system_start_def dispatcher_start_def is_idle_def)
qed

lemma route_for_Some:
  assumes "route_for dest routes = Some near"
  shows "\<exists>(remote, near') \<in> set routes. near' = near \<and> dest \<in> {remote, near}"
proof (cases "map_of routes dest")
  case None
  with assms have "List.find (\<lambda>near. near = dest) (map snd routes) = Some near" by (simp add: route_for_def)
  then have "near \<in> set (map snd routes)" "near = dest" by (auto simp: find_Some_iff)
  then show ?thesis by force
next
  case (Some x)
  with assms have "map_of routes dest = Some near" by (simp add: route_for_def)
  then have "(dest, near) \<in> set routes" by (rule map_of_SomeD)
  then show ?thesis by force
qed

text \<open>
  A device can only reach listeners it was given: its OPEN is queued for a local port only when a
  route leads there whose endpoint or listener the OPEN names, and one that names no route is
  answered with a CLSE and changes nothing else.
\<close>

theorem device_opens_need_a_route:
  assumes "msg_command m = MC_Open"
  shows "(dp_connectors (dispatch_packet m d) port \<noteq> dp_connectors d port \<longrightarrow>
       (\<exists>(remote, near) \<in> set (dp_routes d). tcp_port near = Some port
          \<and> trim_end 0 (utf8_lossy (tm_payload m)) \<in> {remote, near}))
    \<and> (trim_end 0 (utf8_lossy (tm_payload m)) \<notin> fst ` set (dp_routes d) \<union> snd ` set (dp_routes d) \<longrightarrow>
       dispatch_packet m d = d\<lparr>dp_transport :=
         snd (transmit_message (message_new MC_Clse 0 (msg_arg0 m) []) (dp_transport d))\<rparr>)"
proof -
  let ?dest = "trim_end 0 (utf8_lossy (tm_payload m))"
  have e: "dispatch_packet m d = handle_open m d" using assms by (simp add: dispatch_packet_def)
  have c: "dp_connectors (snd (new_session d)) = dp_connectors d"
    by (auto simp: new_session_def split: prod.splits option.splits)
  have "\<exists>(remote, near) \<in> set (dp_routes d). tcp_port near = Some port \<and> ?dest \<in> {remote, near}"
    if change: "dp_connectors (handle_open m d) port \<noteq> dp_connectors d port"
  proof -
    obtain near where near: "route_for ?dest (dp_routes d) = Some near" "tcp_port near = Some port"
      using change c by (auto simp: handle_open_def split: option.splits prod.splits if_splits)
    from route_for_Some [OF near(1)] near(2) show ?thesis by auto
  qed
  moreover have "route_for ?dest (dp_routes d) = None" if "?dest \<notin> fst ` set (dp_routes d) \<union> snd ` set (dp_routes d)"
    using that by (cases "route_for ?dest (dp_routes d)") (force dest: route_for_Some)+
  ultimately show ?thesis unfolding e by (simp add: handle_open_def)
qed

theorem device_opens_need_a_route_witness:
  "dispatch_packet (message_new MC_Open 9 0 (ascii ''tcp:1'')) (dispatcher_start example_link)
     = (dispatcher_start example_link)\<lparr>dp_transport :=
         snd (transmit_message (message_new MC_Clse 0 9 []) example_link)\<rparr>"
  using device_opens_need_a_route [of "message_new MC_Open 9 0 (ascii ''tcp:1'')" "dispatcher_start example_link"]
  by (simp add: dispatcher_start_def)

text \<open>An OPEN whose route does not lead to a TCP listener gets no answer at all.\<close>

lemma open_of_other_route_unanswered:
  assumes "msg_command m = MC_Open" and "route_for (trim_end 0 (utf8_lossy (tm_payload m))) (dp_routes d) = Some near"
    and "tcp_port near = None"
  shows "dispatch_packet m d = d"
  using assms by (simp add: dispatch_packet_def handle_open_def)

end
