(* ===== verification/Copying.thy ===== *)
theory Copying
  imports Link
begin

text \<open>
  What the threads that copy between a stream of the device and a local socket have in common
  (\<open>relay\<close> of \<^verbatim>\<open>transport_dispatcher.rs\<close> and \<open>forward_connection\<close> of \<^verbatim>\<open>dispatched_device.rs\<close>): each
  round looks at one outcome of the session's channel, unless the socket has ended it first, and may send one WRTE, of which at most one may
  be without its OKAY. The contract is stated on an account of the copying, and both threads inherit
  its consequences.
\<close>

section \<open>The channel of a session\<close>

datatype inbox_event = Packet transport_message | Quiet | Disconnected

fun inbox_packets :: "inbox_event list \<Rightarrow> transport_message list" where
  "inbox_packets [] = []"
| "inbox_packets (Packet m # evs) = m # inbox_packets evs"
| "inbox_packets (_ # evs) = inbox_packets evs"

lemma inbox_packets_Cons: "inbox_packets (ev # evs) = inbox_packets [ev] @ inbox_packets evs"
  by (cases ev) simp_all

definition writes_of :: "transport_message list \<Rightarrow> transport_message list" where
  "writes_of ms = filter (\<lambda>m. msg_command m = MC_Write) ms"

definition okays_of :: "transport_message list \<Rightarrow> transport_message list" where
  "okays_of ms = filter (\<lambda>m. msg_command m = MC_Okay) ms"

lemma writes_of_append [simp]: "writes_of (xs @ ys) = writes_of xs @ writes_of ys"
  by (simp add: writes_of_def)

lemma okays_of_append [simp]: "okays_of (xs @ ys) = okays_of xs @ okays_of ys"
  by (simp add: okays_of_def)

lemma writes_of_simps [simp]:
  "writes_of [] = []" "writes_of (m # ms) = (if msg_command m = MC_Write then m # writes_of ms else writes_of ms)"
  by (simp_all add: writes_of_def)

lemma okays_of_simps [simp]:
  "okays_of [] = []" "okays_of (m # ms) = (if msg_command m = MC_Okay then m # okays_of ms else okays_of ms)"
  by (simp_all add: okays_of_def)

text \<open>Everything a socket will deliver, whatever time-outs and failures come in between.\<close>

fun socket_bytes :: "source \<Rightarrow> bytes" where
  "socket_bytes [] = []"
| "socket_bytes (Chunk bs # src) = bs @ socket_bytes src"
| "socket_bytes (Failing k # src) = socket_bytes src"

lemma read_source_socket_bytes:
  "read_source n src = (r, src') \<Longrightarrow> socket_bytes src = (case r of Ok bs \<Rightarrow> bs | _ \<Rightarrow> []) @ socket_bytes src'"
  by (cases "(n, src)" rule: read_source.cases) (auto split: if_splits)

section \<open>Accounts\<close>

text \<open>
  The WRTEs sent and the number of OKAYs sent, the bytes the socket will still deliver and those it
  was given, and whether a WRTE is waiting for its OKAY.
\<close>

record account =
  ac_writes :: "transport_message list"
  ac_okays :: nat
  ac_source :: bytes
  ac_output :: bytes
  ac_pending :: bool

definition flight :: "account \<Rightarrow> nat" where
  "flight a = (if ac_pending a then 1 else 0)"

lemma flight_le: "flight a \<le> 1"
  by (simp add: flight_def)

text \<open>Two accounts between which exactly the packets \<open>ms\<close> were received and nothing was lost.\<close>

definition in_step :: "transport_message list \<Rightarrow> account \<Rightarrow> account \<Rightarrow> bool" where
  "in_step ms a a' \<longleftrightarrow>
     (\<exists>ws. ac_writes a' = ac_writes a @ ws
        \<and> ac_source a = concat (map tm_payload ws) @ ac_source a'
        \<and> ac_output a' = ac_output a @ concat (map tm_payload (writes_of ms))
        \<and> ac_okays a' = ac_okays a + length (writes_of ms)
        \<and> length ws + flight a \<le> flight a' + length (okays_of ms))"

lemma in_step_refl [simp]: "in_step [] a a"
  by (simp add: in_step_def)

lemma in_step_trans: "in_step ms a b \<Longrightarrow> in_step ms' b c \<Longrightarrow> in_step (ms @ ms') a c"
  unfolding in_step_def by (elim exE conjE, rule_tac x = "ws @ wsa" in exI) auto

section \<open>The contract\<close>

locale copier =
  fixes turn :: "inbox_event \<Rightarrow> ('s, bool) io"
    and loop :: "inbox_event list \<Rightarrow> ('s, unit) io"
    and account :: "'s \<Rightarrow> account"
  assumes turn_in_step: "turn ev s = (Ok on, s') \<Longrightarrow>
      in_step (inbox_packets [ev]) (account s) (account s') \<or> (\<not> on \<and> in_step [] (account s) (account s'))"
    and turn_flight: "turn ev s = (q, s') \<Longrightarrow>
      length (ac_writes (account s')) + flight (account s)
        \<le> length (ac_writes (account s)) + flight (account s') + length (okays_of (inbox_packets [ev]))"
    and loop_Nil: "loop [] s = (q0, s') \<Longrightarrow> s' = s"
    and loop_Cons: "loop (ev # evs) s = (q0, s') \<Longrightarrow> \<exists>p s1. turn ev s = (p, s1)
      \<and> (if p = Ok True then loop evs s1 = (q0, s') else s' = s1 \<and> (q0 = Ok () \<longrightarrow> p = Ok False))"
begin

lemma copies:
  "loop evs s = (Ok (), s') \<Longrightarrow>
     \<exists>es rest. evs = es @ rest \<and> in_step (inbox_packets es) (account s) (account s')"
proof (induction evs arbitrary: s)
  case Nil
  then have "s' = s" by (rule loop_Nil)
  then show ?case by simp
next
  case (Cons ev evs)
  from loop_Cons [OF Cons.prems] obtain p s1 where t: "turn ev s = (p, s1)"
    and rest: "if p = Ok True then loop evs s1 = (Ok (), s') else s' = s1 \<and> p = Ok False" by auto
  show ?case
  proof (cases "p = Ok True")
    case True
    with rest Cons.IH [of s1] obtain es rest'
      where e: "evs = es @ rest'" "in_step (inbox_packets es) (account s1) (account s')" by auto
    from turn_in_step [OF t [unfolded True]] have "in_step (inbox_packets [ev]) (account s) (account s1)" by simp
    from this e(2) have "in_step (inbox_packets (ev # es)) (account s) (account s')"
      unfolding inbox_packets_Cons [of ev es] by (rule in_step_trans)
    with e(1) show ?thesis by (intro exI [of _ "ev # es"] exI [of _ rest']) simp
  next
    case False
    with rest t have "turn ev s = (Ok False, s')" by simp
    from turn_in_step [OF this] show ?thesis
    proof
      assume "in_step (inbox_packets [ev]) (account s) (account s')"
      then show ?thesis by (intro exI [of _ "[ev]"] exI [of _ evs]) simp
    next
      assume "\<not> False \<and> in_step [] (account s) (account s')"
      then show ?thesis by (intro exI [of _ "[]"] exI [of _ "ev # evs"]) simp
    qed
  qed
qed

lemma one_in_flight:
  "loop evs s = (q, s') \<Longrightarrow> length (ac_writes (account s')) + flight (account s)
    \<le> length (ac_writes (account s)) + length (okays_of (inbox_packets evs)) + 1"
proof (induction evs arbitrary: s)
  case Nil
  then have "s' = s" by (rule loop_Nil)
  then show ?case using flight_le [of "account s"] by simp
next
  case (Cons ev evs)
  from loop_Cons [OF Cons.prems] obtain p s1 where t: "turn ev s = (p, s1)"
    and rest: "if p = Ok True then loop evs s1 = (q, s') else s' = s1" by (auto split: if_splits)
  note f = turn_flight [OF t]
  show ?case
  proof (cases "p = Ok True")
    case True
    with rest Cons.IH [of s1] f show ?thesis
      unfolding inbox_packets_Cons [of ev evs] by simp
  next
    case False
    with rest f flight_le [of "account s1"] show ?thesis
      unfolding inbox_packets_Cons [of ev evs] by simp
  qed
qed

end

end
