(* ===== verification/Relay.thy ===== *)
theory Relay
  imports Dispatcher_Runs Copying
begin

text \<open>
  The data plane of reverse forwarding in \<^verbatim>\<open>transport_dispatcher.rs\<close>: the connector thread of a port,
  which connects in the order of the device's OPENs, and the relay thread of a stream, which copies
  between its session and a local socket with at most one unacknowledged WRTE. A relay sees a script:
  what its session receives, what its socket reads, and the results of its sends.
\<close>

section \<open>The connector\<close>

text \<open>What handling one OPEN leads to: a relay, or commands for the dispatcher.\<close>

datatype connector_effect =
    Start_Relay u32 channel u32
  | Command dispatcher_command

definition connect_reverse :: "(u32 \<times> channel \<times> u32) \<Rightarrow> unit result \<Rightarrow> connector_effect list" where
  "connect_reverse open dialled =
     (case open of (local_id, c, remote_id) \<Rightarrow>
        (case dialled of
           Ok _ \<Rightarrow> [Start_Relay local_id c remote_id]
         | _ \<Rightarrow> [Command (Write_Packet (message_new MC_Clse 0 remote_id [])), Command (Unregister local_id)]))"

definition ordered_reverse_connector ::
    "(u32 \<times> channel \<times> u32) list \<Rightarrow> unit result list \<Rightarrow> connector_effect list" where
  "ordered_reverse_connector opens dialled = concat (map2 connect_reverse opens dialled)"

fun started :: "connector_effect list \<Rightarrow> (u32 \<times> channel \<times> u32) list" where
  "started [] = []"
| "started (Start_Relay i c r # es) = (i, c, r) # started es"
| "started (Command _ # es) = started es"

lemma started_append: "started (xs @ ys) = started xs @ started ys"
  by (induction xs rule: started.induct) simp_all

text \<open>The relays of a port start in the order of their OPENs, skipping those that could not connect.\<close>

lemma connector_order:
  "length opens = length dialled \<Longrightarrow>
     started (ordered_reverse_connector opens dialled) = map fst (filter (\<lambda>(p, r). \<exists>u. r = Ok u) (zip opens dialled))"
  unfolding ordered_reverse_connector_def
  by (induction opens dialled rule: list_induct2)
    (auto simp: started_append connect_reverse_def split: outcome.splits)

section \<open>The relay\<close>

definition RELAY_BUFFER :: nat where
  "RELAY_BUFFER = 64 * 1024"

record relay =
  rl_local_id :: u32
  rl_remote_id :: u32
  rl_pending_write :: bool
  rl_source :: source
  rl_sink :: sink
  rl_outcomes :: "unit result list"
  rl_sent :: "transport_message list"

definition relay_send :: "message_command \<Rightarrow> bytes \<Rightarrow> (relay, unit) io" where
  "relay_send c payload r =
     (case message_try_new c (rl_local_id r) (rl_remote_id r) payload of
        Err e \<Rightarrow> (Err e, r)
      | Panic \<Rightarrow> (Panic, r)
      | Ok m \<Rightarrow>
          (case rl_outcomes r of
             [] \<Rightarrow> (Ok (), r\<lparr>rl_sent := rl_sent r @ [m]\<rparr>)
           | Ok _ # rs \<Rightarrow> (Ok (), r\<lparr>rl_outcomes := rs, rl_sent := rl_sent r @ [m]\<rparr>)
           | Err e # rs \<Rightarrow> (Err e, r\<lparr>rl_outcomes := rs\<rparr>)
           | Panic # rs \<Rightarrow> (Panic, r\<lparr>rl_outcomes := rs\<rparr>)))"

definition relay_write_socket :: "bytes \<Rightarrow> (relay, unit) io" where
  "relay_write_socket bs r = (case write_all bs (rl_sink r) of (q, k) \<Rightarrow> (q, r\<lparr>rl_sink := k\<rparr>))"

text \<open>Both halves of a round say whether the loop goes on (\<open>return Ok(())\<close> otherwise).\<close>

definition relay_packet :: "inbox_event \<Rightarrow> (relay, bool) io" where
  "relay_packet ev =
     (case ev of
        Packet m \<Rightarrow>
          (case msg_command m of
             MC_Write \<Rightarrow> seq_io (relay_write_socket (tm_payload m)) (seq_io (relay_send MC_Okay []) (lift (Ok True)))
           | MC_Okay \<Rightarrow> (\<lambda>r. (Ok True, r\<lparr>rl_pending_write := False\<rparr>))
           | MC_Clse \<Rightarrow> lift (Ok False)
           | _ \<Rightarrow> lift (Err (request_failed ''unexpected relay packet'')))
      | Quiet \<Rightarrow> lift (Ok True)
      | Disconnected \<Rightarrow> lift (Ok False))"

definition relay_socket :: "(relay, bool) io" where
  "relay_socket r =
     (if rl_pending_write r then (Ok True, r)
      else case read_source RELAY_BUFFER (rl_source r) of
          (Ok bs, src) \<Rightarrow>
            if bs = [] then (Ok False, r\<lparr>rl_source := src\<rparr>)
            else seq_io (relay_send MC_Write bs) (\<lambda>r. (Ok True, r\<lparr>rl_pending_write := True\<rparr>)) (r\<lparr>rl_source := src\<rparr>)
        | (Err e, src) \<Rightarrow>
            if (case e of IOError k _ \<Rightarrow> k \<in> {WouldBlock, TimedOut} | _ \<Rightarrow> False) then (Ok True, r\<lparr>rl_source := src\<rparr>)
            else (Err e, r\<lparr>rl_source := src\<rparr>)
        | (Panic, src) \<Rightarrow> (Panic, r\<lparr>rl_source := src\<rparr>))"

definition relay_round :: "inbox_event \<Rightarrow> (relay, bool) io" where
  "relay_round ev = bind_io (relay_packet ev) (\<lambda>on. if on then relay_socket else lift (Ok False))"

text \<open>At the end of the script the dispatcher has stopped.\<close>

fun relay_loop :: "inbox_event list \<Rightarrow> (relay, unit) io" where
  "relay_loop [] = lift (Ok ())"
| "relay_loop (ev # evs) = bind_io (relay_round ev) (\<lambda>on. if on then relay_loop evs else lift (Ok ()))"

definition relay_run :: "inbox_event list \<Rightarrow> (relay, unit) io" where
  "relay_run evs =
     seq_io (relay_send MC_Okay [])
       (\<lambda>r. case relay_loop evs (r\<lparr>rl_pending_write := False\<rparr>) of (result, r') \<Rightarrow> (result, snd (ignore (relay_send MC_Clse []) r')))"

section \<open>The account of a relay\<close>

definition relay_account :: "relay \<Rightarrow> account" where
  "relay_account r = \<lparr>ac_writes = writes_of (rl_sent r), ac_okays = length (okays_of (rl_sent r)),
     ac_source = socket_bytes (rl_source r), ac_output = sk_out (rl_sink r), ac_pending = rl_pending_write r\<rparr>"

lemma relay_send_cases:
  assumes "relay_send c payload r = (q, r')"
  shows "rl_pending_write r' = rl_pending_write r \<and> rl_source r' = rl_source r \<and> rl_sink r' = rl_sink r
    \<and> rl_local_id r' = rl_local_id r \<and> rl_remote_id r' = rl_remote_id r
    \<and> rl_sent r' = rl_sent r @ (if q = Ok () then [message_new c (rl_local_id r) (rl_remote_id r) payload] else [])"
  using assms by (auto simp: relay_send_def split: outcome.splits list.splits dest: message_try_new_OkD)

lemma relay_write_socket_cases:
  assumes "relay_write_socket bs r = (q, r')"
  shows "rl_pending_write r' = rl_pending_write r \<and> rl_source r' = rl_source r \<and> rl_sent r' = rl_sent r
    \<and> rl_local_id r' = rl_local_id r \<and> rl_remote_id r' = rl_remote_id r
    \<and> (q = Ok () \<longrightarrow> sk_out (rl_sink r') = sk_out (rl_sink r) @ bs)"
  using assms
  by (auto simp: relay_write_socket_def write_all_def split: prod.splits list.splits write_result.splits)

lemma relay_packet_in_step:
  assumes "relay_packet ev r = (Ok on, r')"
  shows "in_step (inbox_packets [ev]) (relay_account r) (relay_account r')"
proof (cases ev)
  case (Packet m)
  show ?thesis
  proof (cases "msg_command m")
    case MC_Write
    with assms Packet obtain r1 where w: "relay_write_socket (tm_payload m) r = (Ok (), r1)"
      and s: "relay_send MC_Okay [] r1 = (Ok (), r')"
      by (auto simp: relay_packet_def elim!: seq_io_OkD)
    from relay_write_socket_cases [OF w] relay_send_cases [OF s] Packet MC_Write show ?thesis
      by (simp add: in_step_def flight_def relay_account_def)
  qed (use assms Packet in \<open>auto simp: relay_packet_def in_step_def flight_def relay_account_def\<close>)
qed (use assms in \<open>auto simp: relay_packet_def in_step_def flight_def\<close>)

lemma relay_socket_in_step:
  assumes "relay_socket r = (Ok on, r')"
  shows "in_step [] (relay_account r) (relay_account r')"
proof (cases "rl_pending_write r")
  case True
  with assms show ?thesis by (auto simp: relay_socket_def)
next
  case False
  obtain q src where q: "read_source RELAY_BUFFER (rl_source r) = (q, src)" by fastforce
  show ?thesis
  proof (cases q)
    case (Ok bs)
    show ?thesis
    proof (cases "bs = []")
      case True
      with assms False q Ok read_source_socket_bytes [OF q] show ?thesis
        by (auto simp: relay_socket_def in_step_def flight_def relay_account_def)
    next
      case ne: False
      with assms False q Ok obtain r1 where
        s: "relay_send MC_Write bs (r\<lparr>rl_source := src\<rparr>) = (Ok (), r1)" and r': "r' = r1\<lparr>rl_pending_write := True\<rparr>"
        by (auto simp: relay_socket_def elim!: seq_io_OkD)
      from relay_send_cases [OF s] r' q Ok False read_source_socket_bytes [OF q] show ?thesis
        by (simp add: in_step_def flight_def relay_account_def)
    qed
  qed (use assms False q read_source_socket_bytes [OF q] in
      \<open>auto simp: relay_socket_def in_step_def flight_def relay_account_def split: if_splits\<close>)
qed

lemma relay_round_in_step:
  assumes "relay_round ev r = (Ok on, r')"
  shows "in_step (inbox_packets [ev]) (relay_account r) (relay_account r')"
proof -
  from assms obtain on1 r1 where p: "relay_packet ev r = (Ok on1, r1)"
    and k: "(if on1 then relay_socket else lift (Ok False)) r1 = (Ok on, r')"
    unfolding relay_round_def by (rule bind_io_OkD)
  show ?thesis
  proof (cases on1)
    case True
    with k have "relay_socket r1 = (Ok on, r')" by simp
    from in_step_trans [OF relay_packet_in_step [OF p] relay_socket_in_step [OF this]] show ?thesis by simp
  next
    case False
    with k relay_packet_in_step [OF p] show ?thesis by simp
  qed
qed

lemma relay_packet_flight:
  "relay_packet ev r = (q, r') \<Longrightarrow>
     writes_of (rl_sent r') = writes_of (rl_sent r)
     \<and> flight (relay_account r) \<le> flight (relay_account r') + length (okays_of (inbox_packets [ev]))"
  by (cases q; cases ev)
    (auto simp: relay_packet_def flight_def relay_account_def seq_io_def bind_io_def
      split: message_command.splits prod.splits outcome.splits dest!: relay_send_cases relay_write_socket_cases)

lemma relay_socket_flight:
  "relay_socket r = (q, r') \<Longrightarrow> length (writes_of (rl_sent r')) + flight (relay_account r)
     \<le> length (writes_of (rl_sent r)) + flight (relay_account r')"
  by (auto simp: relay_socket_def flight_def relay_account_def seq_io_def bind_io_def
      split: if_splits prod.splits outcome.splits dest!: relay_send_cases)

lemma relay_round_flight:
  assumes "relay_round ev r = (q, r')"
  shows "length (writes_of (rl_sent r')) + flight (relay_account r)
    \<le> length (writes_of (rl_sent r)) + flight (relay_account r') + length (okays_of (inbox_packets [ev]))"
proof -
  obtain q1 r1 where p: "relay_packet ev r = (q1, r1)" by fastforce
  obtain q2 r2 where s: "relay_socket r1 = (q2, r2)" by fastforce
  have "r' = r1 \<or> r' = r2"
    using assms p s by (auto simp: relay_round_def bind_io_def split: outcome.splits if_splits)
  with relay_packet_flight [OF p] relay_socket_flight [OF s] show ?thesis by auto
qed

interpretation relay: copier relay_round relay_loop relay_account
proof unfold_locales
  fix ev r q r'
  assume "relay_round ev r = (q, r')"
  from relay_round_flight [OF this] show "length (ac_writes (relay_account r')) + flight (relay_account r)
      \<le> length (ac_writes (relay_account r)) + flight (relay_account r') + length (okays_of (inbox_packets [ev]))"
    by (simp add: relay_account_def)
next
  fix ev evs r q r'
  obtain p r1 where p: "relay_round ev r = (p, r1)" by fastforce
  assume "relay_loop (ev # evs) r = (q, r')"
  with p show "\<exists>p r1. relay_round ev r = (p, r1)
      \<and> (if p = Ok True then relay_loop evs r1 = (q, r') else r' = r1 \<and> (q = Ok () \<longrightarrow> p = Ok False))"
    by (cases p) (auto simp: bind_io_def split: if_splits)
qed (auto intro: relay_round_in_step)

text \<open>
  A relay that ends without an error has sent the device exactly the bytes it read from the local
  socket, in order; it has written to the socket exactly the
  payloads of the WRTEs it received up to the end, and has acknowledged each of them.
\<close>

theorem relay_copies_both_ways:
  assumes "relay_loop evs r = (Ok (), r')"
  shows "\<exists>es rest ws. evs = es @ rest \<and> writes_of (rl_sent r') = writes_of (rl_sent r) @ ws
    \<and> socket_bytes (rl_source r) = concat (map tm_payload ws) @ socket_bytes (rl_source r')
    \<and> sk_out (rl_sink r') = sk_out (rl_sink r) @ concat (map tm_payload (writes_of (inbox_packets es)))
    \<and> length (okays_of (rl_sent r')) = length (okays_of (rl_sent r)) + length (writes_of (inbox_packets es))"
  using relay.copies [OF assms] by (auto simp: in_step_def relay_account_def)

text \<open>A device that writes one byte, a socket that has one to send, and the end of the stream.\<close>

theorem relay_copies_both_ways_witness:
  "let r = \<lparr>rl_local_id = 1, rl_remote_id = 9, rl_pending_write = False, rl_source = [Chunk [5]],
            rl_sink = \<lparr>sk_script = [], sk_out = []\<rparr>, rl_outcomes = [], rl_sent = []\<rparr>
   in \<exists>r'. relay_loop [Packet (message_new MC_Write 9 1 [7]), Packet (message_new MC_Clse 9 1 [])] r = (Ok (), r')
        \<and> socket_bytes (rl_source r') = [] \<and> length (okays_of (rl_sent r')) = 1"
proof -
  let ?r = "\<lparr>rl_local_id = 1, rl_remote_id = 9, rl_pending_write = False, rl_source = [Chunk [5]],
            rl_sink = \<lparr>sk_script = [], sk_out = []\<rparr>, rl_outcomes = [], rl_sent = []\<rparr>"
  let ?evs = "[Packet (message_new MC_Write 9 1 [7]), Packet (message_new MC_Clse 9 1 [])]"
  let ?r' = "\<lparr>rl_local_id = 1, rl_remote_id = 9, rl_pending_write = True, rl_source = [],
            rl_sink = \<lparr>sk_script = [], sk_out = [7]\<rparr>, rl_outcomes = [],
            rl_sent = [message_new MC_Okay 1 9 [], message_new MC_Write 1 9 [5]]\<rparr>"
  have run: "relay_loop ?evs ?r = (Ok (), ?r')"
    by (simp add: relay_round_def relay_packet_def relay_socket_def relay_send_def relay_write_socket_def seq_io_def bind_io_def
        write_all_def RELAY_BUFFER_def)
  from relay_copies_both_ways [OF this] show ?thesis
    unfolding Let_def run by auto
qed

text \<open>
  A relay has at most one WRTE without an OKAY: at every moment, however the relay ends, the
  WRTEs it has sent are at most one more than the OKAYs it has received.
\<close>

theorem relay_one_write_in_flight:
  assumes "relay_loop evs r = (q, r')"
  shows "length (writes_of (rl_sent r')) + (if rl_pending_write r then 1 else 0)
    \<le> length (writes_of (rl_sent r)) + length (okays_of (inbox_packets evs)) + 1"
  using relay.one_in_flight [OF assms] by (simp add: relay_account_def flight_def split: if_splits)

theorem relay_one_write_in_flight_witness:
  "let r = \<lparr>rl_local_id = 1, rl_remote_id = 9, rl_pending_write = False, rl_source = [Chunk [5], Chunk [6]],
            rl_sink = \<lparr>sk_script = [], sk_out = []\<rparr>, rl_outcomes = [], rl_sent = []\<rparr>
   in length (writes_of (rl_sent (snd (relay_loop [Quiet, Quiet, Quiet] r)))) \<le> 1"
  using relay_one_write_in_flight [of "[Quiet, Quiet, Quiet]" "\<lparr>rl_local_id = 1, rl_remote_id = 9,
      rl_pending_write = False, rl_source = [Chunk [5], Chunk [6]], rl_sink = \<lparr>sk_script = [], sk_out = []\<rparr>,
      rl_outcomes = [], rl_sent = []\<rparr>", OF prod.collapse [symmetric]]
  by (simp only: Let_def inbox_packets.simps okays_of_simps writes_of_simps relay.simps if_False list.size)

end
