(* ===== verification/Reverse_Relay.thy ===== *)
theory Reverse_Relay
  imports Message_Device Relay
begin

text \<open>
  \<^verbatim>\<open>message_devices/reverse_relay.rs\<close>: the relay that owns a transport and bridges the streams a
  device opens to one local TCP port. The threads that read the local sockets put events into a
  channel; every turn of the loop sees the events that have arrived by then. Random ids and the
  outcomes of connecting are numbered.
\<close>

datatype local_event = Data u32 bytes | Closed u32

record reverse_relay =
  rr_link :: link
  rr_local :: bytes
  rr_local_port :: u16
  rr_sockets :: "(u32 \<times> u32 \<times> sink) list"
  rr_accepted_stream :: bool
  rr_dial :: "nat \<Rightarrow> sink result"
  rr_random :: "nat \<Rightarrow> u32"
  rr_opens :: nat

definition is_idle_poll_error :: "rust_error \<Rightarrow> bool" where
  "is_idle_poll_error e = (case e of IOError k _ \<Rightarrow> k \<in> {TimedOut, WouldBlock} | _ \<Rightarrow> False)"

definition is_expected_reverse_destination :: "bytes \<Rightarrow> bytes \<Rightarrow> bool" where
  "is_expected_reverse_destination dest near \<longleftrightarrow> dest = near"

definition reverse_relay_new ::
    "link \<Rightarrow> bytes \<Rightarrow> (nat \<Rightarrow> sink result) \<Rightarrow> (nat \<Rightarrow> u32) \<Rightarrow> reverse_relay result" where
  "reverse_relay_new transport near dial random =
     bind_outcome (ok_or (ADBRequestFailed (ascii ''reverse relay needs tcp:<port>, got '' @ near))
         (strip_prefix (ascii ''tcp:'') near)) (\<lambda>port.
     bind_outcome (ok_or (ADBRequestFailed (ascii ''invalid reverse TCP port: '')) (parse_uint 10 16 port)) (\<lambda>n.
       Ok \<lparr>rr_link = transport, rr_local = near, rr_local_port = word_of_nat n, rr_sockets = [],
           rr_accepted_stream = False, rr_dial = dial, rr_random = random, rr_opens = 0\<rparr>))"

text \<open>Writing a message to the transport of the relay.\<close>

definition rr_transmit :: "message_command \<Rightarrow> u32 \<Rightarrow> u32 \<Rightarrow> bytes \<Rightarrow> (reverse_relay, unit) io" where
  "rr_transmit c a0 a1 payload r =
     (case transmit_new c a0 a1 payload (rr_link r) of (q, l) \<Rightarrow> (q, r\<lparr>rr_link := l\<rparr>))"

definition flush_local_event :: "local_event \<Rightarrow> (reverse_relay, unit) io" where
  "flush_local_event ev r =
     (case ev of
        Data local_id payload \<Rightarrow>
          (case map_of (rr_sockets r) local_id of
             None \<Rightarrow> (Ok (), r)
           | Some (remote_id, _) \<Rightarrow> rr_transmit MC_Write local_id remote_id payload r)
      | Closed local_id \<Rightarrow>
          (case map_of (rr_sockets r) local_id of
             None \<Rightarrow> (Ok (), r)
           | Some (remote_id, _) \<Rightarrow>
               rr_transmit MC_Clse local_id remote_id [] (r\<lparr>rr_sockets := AList.delete local_id (rr_sockets r)\<rparr>)))"

fun flush_local_events :: "local_event list \<Rightarrow> (reverse_relay, unit) io" where
  "flush_local_events [] = lift (Ok ())"
| "flush_local_events (ev # evs) = seq_io (flush_local_event ev) (flush_local_events evs)"

text \<open>\<open>rng.random()\<close> may yield any id, zero and the id of a live stream among them.\<close>

definition accept_device_open :: "transport_message \<Rightarrow> (reverse_relay, unit) io" where
  "accept_device_open m r =
     (let dest = trim_end 0 (utf8_lossy (tm_payload m))
      in if \<not> is_expected_reverse_destination dest (rr_local r) then
           (Err (ADBRequestFailed (ascii ''device requested reverse destination '' @ dest @ ascii '', expected '' @ rr_local r)), r)
         else (case rr_dial r (rr_opens r) of
             Err e \<Rightarrow>
               (Err (ADBRequestFailed (ascii ''reverse relay could not connect to 127.0.0.1:''
                  @ show_nat (unat (rr_local_port r)) @ ascii '': '' @ error_text e)), r\<lparr>rr_opens := rr_opens r + 1\<rparr>)
           | Panic \<Rightarrow> (Panic, r)
           | Ok stream \<Rightarrow>
               (let local_id = rr_random r (rr_opens r)
                in seq_io (rr_transmit MC_Okay local_id (msg_arg0 m) [])
                     (\<lambda>r. (Ok (), r\<lparr>rr_sockets := AList.update local_id (msg_arg0 m, stream) (rr_sockets r),
                                     rr_accepted_stream := True\<rparr>)) (r\<lparr>rr_opens := rr_opens r + 1\<rparr>))))"

definition write_to_local :: "transport_message \<Rightarrow> (reverse_relay, unit) io" where
  "write_to_local m r =
     (case map_of (rr_sockets r) (msg_arg1 m) of
        None \<Rightarrow> (Err (request_failed ''write for unknown reverse stream''), r)
      | Some (expected_remote, stream) \<Rightarrow>
          if expected_remote \<noteq> msg_arg0 m then (Err (request_failed ''reverse stream id mismatch''), r)
          else (case write_all (tm_payload m) stream of
              (Ok _, stream') \<Rightarrow>
                rr_transmit MC_Okay (msg_arg1 m) (msg_arg0 m) []
                  (r\<lparr>rr_sockets := AList.update (msg_arg1 m) (expected_remote, stream') (rr_sockets r)\<rparr>)
            | (Err e, stream') \<Rightarrow>
                (Err e, r\<lparr>rr_sockets := AList.update (msg_arg1 m) (expected_remote, stream') (rr_sockets r)\<rparr>)
            | (Panic, stream') \<Rightarrow> (Panic, r)))"

definition close_device_stream :: "transport_message \<Rightarrow> (reverse_relay, unit) io" where
  "close_device_stream m r =
     rr_transmit MC_Clse (msg_arg1 m) (msg_arg0 m) [] (r\<lparr>rr_sockets := AList.delete (msg_arg1 m) (rr_sockets r)\<rparr>)"

definition handle_device_message :: "transport_message \<Rightarrow> (reverse_relay, unit) io" where
  "handle_device_message m =
     (case msg_command m of
        MC_Open \<Rightarrow> accept_device_open m
      | MC_Write \<Rightarrow> write_to_local m
      | MC_Clse \<Rightarrow> close_device_stream m
      | MC_Okay \<Rightarrow> lift (Ok ())
      | c \<Rightarrow> lift (Err (ADBRequestFailed (ascii ''unexpected '' @ message_command_text c @ ascii '' while serving reverse relay''))))"

text \<open>The loop ends once a stream was accepted and none is left. \<open>Ok True\<close> goes on.\<close>

definition all_streams_closed :: "reverse_relay \<Rightarrow> bool" where
  "all_streams_closed r \<longleftrightarrow> rr_accepted_stream r \<and> rr_sockets r = []"

definition relay_turn :: "local_event list \<Rightarrow> (reverse_relay, bool) io" where
  "relay_turn evs =
     seq_io (flush_local_events evs)
       (\<lambda>r. if all_streams_closed r then (Ok False, r)
            else (case receive (rr_link r) of
                (Ok m, l) \<Rightarrow>
                  seq_io (handle_device_message m) (\<lambda>r. (Ok (\<not> all_streams_closed r), r)) (r\<lparr>rr_link := l\<rparr>)
              | (Err e, l) \<Rightarrow>
                  if is_idle_poll_error e then (Ok True, r\<lparr>rr_link := l\<rparr>) else (Err e, r\<lparr>rr_link := l\<rparr>)
              | (Panic, l) \<Rightarrow> (Panic, r\<lparr>rr_link := l\<rparr>)))"

text \<open>\<open>turns\<close> are the events each turn finds; \<open>None\<close> is a relay still running after all of them.\<close>

fun relay_turns :: "local_event list list \<Rightarrow> reverse_relay \<Rightarrow> unit result option \<times> reverse_relay" where
  "relay_turns [] r = (None, r)"
| "relay_turns (evs # turns) r =
     (case relay_turn evs r of
        (Ok True, r') \<Rightarrow> relay_turns turns r'
      | (Ok False, r') \<Rightarrow> (Some (Ok ()), r')
      | (Err e, r') \<Rightarrow> (Some (Err e), r')
      | (Panic, r') \<Rightarrow> (Some Panic, r'))"

text \<open>A thread that reads a local socket: its events, in order.\<close>

definition MAX_ADB_PAYLOAD :: nat where
  "MAX_ADB_PAYLOAD = 64 * 1024"

function local_reader :: "u32 \<Rightarrow> source \<Rightarrow> local_event list" where
  "local_reader local_id src =
     (case read_source MAX_ADB_PAYLOAD src of
        (Ok bs, src') \<Rightarrow> if bs = [] then [Closed local_id] else Data local_id bs # local_reader local_id src'
      | (_, src') \<Rightarrow> [Closed local_id])"
  by pat_completeness auto

lemma read_source_smaller:
  "read_source n src = (Ok bs, src') \<Longrightarrow> bs \<noteq> [] \<Longrightarrow> 0 < n \<Longrightarrow>
     length (source_bytes src') < length (source_bytes src)"
  by (cases "(n, src)" rule: read_source.cases) (auto split: if_splits)

termination local_reader
  by (relation "measure (\<lambda>(_, src). length (source_bytes src))")
    (auto dest: read_source_smaller [OF sym] simp: MAX_ADB_PAYLOAD_def)

declare local_reader.simps [simp del]

section \<open>Properties\<close>

text \<open>The local readers pass on everything a socket sends before it ends.\<close>

fun event_bytes :: "local_event list \<Rightarrow> bytes" where
  "event_bytes [] = []"
| "event_bytes (Data _ bs # evs) = bs @ event_bytes evs"
| "event_bytes (Closed _ # evs) = event_bytes evs"

lemma local_reader_bytes: "flowing src \<Longrightarrow> event_bytes (local_reader i src) = source_bytes src"
proof (induction i src rule: local_reader.induct)
  case (1 i src)
  show ?case
  proof (cases "source_bytes src = []")
    case True
    with 1 have "src = []" by (simp add: flowing_end)
    then show ?thesis by (simp add: local_reader.simps)
  next
    case False
    with read_source_flowing [OF "1.prems", of MAX_ADB_PAYLOAD] obtain bs src'
      where r: "read_source MAX_ADB_PAYLOAD src = (Ok bs, src')" "bs \<noteq> []" "source_bytes src = bs @ source_bytes src'" "flowing src'"
      by (auto simp: MAX_ADB_PAYLOAD_def)
    with "1.IH" [OF r(1) [symmetric] refl r(2)] show ?thesis by (subst local_reader.simps) simp
  qed
qed

lemma rr_transmit_frame:
  "rr_transmit c a0 a1 payload r = (q, r') \<Longrightarrow>
     rr_sockets r' = rr_sockets r \<and> rr_local r' = rr_local r \<and> rr_accepted_stream r' = rr_accepted_stream r
     \<and> (q = Ok () \<longrightarrow> ln_sent (rr_link r') = ln_sent (rr_link r) @ [message_new c a0 a1 payload])"
  by (auto simp: rr_transmit_def split: prod.splits dest: transmit_new_OkD)

text \<open>
  A WRTE of the device goes to the one local socket whose two ids it carries: that socket gets the
  payload and the device an OKAY, every other socket is untouched, and a WRTE with other ids is an
  error that writes nothing.
\<close>

theorem device_writes_are_isolated:
  assumes "msg_command m = MC_Write" and "handle_device_message m r = (q, r')"
  shows "(q = Ok () \<longrightarrow> (\<exists>k. map_of (rr_sockets r) (msg_arg1 m) = Some (msg_arg0 m, k)
        \<and> (\<exists>k'. map_of (rr_sockets r') (msg_arg1 m) = Some (msg_arg0 m, k') \<and> sk_out k' = sk_out k @ tm_payload m)
        \<and> ln_sent (rr_link r') = ln_sent (rr_link r) @ [message_new MC_Okay (msg_arg1 m) (msg_arg0 m) []]))
    \<and> (\<forall>i. i \<noteq> msg_arg1 m \<longrightarrow> map_of (rr_sockets r') i = map_of (rr_sockets r) i)
    \<and> ((\<nexists>k. map_of (rr_sockets r) (msg_arg1 m) = Some (msg_arg0 m, k)) \<longrightarrow> (\<exists>e. q = Err e) \<and> r' = r)"
proof -
  have h: "write_to_local m r = (q, r')" using assms by (simp add: handle_device_message_def)
  show ?thesis
  proof (cases "map_of (rr_sockets r) (msg_arg1 m)")
    case None
    with h show ?thesis by (auto simp: write_to_local_def)
  next
    case (Some v)
    obtain remote k where v: "v = (remote, k)" by fastforce
    show ?thesis
    proof (cases "remote = msg_arg0 m")
      case False
      with h Some v show ?thesis by (auto simp: write_to_local_def)
    next
      case True
      obtain w k' where w: "write_all (tm_payload m) k = (w, k')" by fastforce
      have out: "w = Ok () \<longrightarrow> sk_out k' = sk_out k @ tm_payload m"
        using w by (auto simp: write_all_def split: list.splits write_result.splits)
      show ?thesis
        using h Some v True w out
        by (cases w) (auto simp: write_to_local_def update_conv' dest!: rr_transmit_frame)
    qed
  qed
qed

theorem device_writes_are_isolated_witness:
  "let k = \<lparr>sk_script = [], sk_out = []\<rparr>;
       r = \<lparr>rr_link = example_link, rr_local = ascii ''tcp:1'', rr_local_port = 1, rr_sockets = [(5, 9, k)],
            rr_accepted_stream = True, rr_dial = (\<lambda>_. Ok k), rr_random = (\<lambda>_. 5), rr_opens = 1\<rparr>
   in \<exists>e. handle_device_message (message_new MC_Write 8 5 [1]) r = (Err e, r)"
proof -
  let ?k = "\<lparr>sk_script = [], sk_out = []\<rparr>"
  let ?r = "\<lparr>rr_link = example_link, rr_local = ascii ''tcp:1'', rr_local_port = 1, rr_sockets = [(5, 9, ?k)],
            rr_accepted_stream = True, rr_dial = (\<lambda>_. Ok ?k), rr_random = (\<lambda>_. 5), rr_opens = 1\<rparr>"
  obtain q r' where h: "handle_device_message (message_new MC_Write 8 5 [1]) ?r = (q, r')" by fastforce
  have "(\<exists>e. q = Err e) \<and> r' = ?r"
    using device_writes_are_isolated [OF _ h] by simp
  with h show ?thesis by (simp add: Let_def)
qed

text \<open>
  Data of a local socket is sent as it comes: two events of one socket are two WRTEs in a row, with no
  OKAY of the device between them.
\<close>

lemma flush_sends_without_waiting:
  assumes "map_of (rr_sockets r) i = Some (remote, k)" and "ln_outcomes (rr_link r) = []"
    and "length a < 2 ^ 32" and "length b < 2 ^ 32"
  shows "\<exists>r'. flush_local_events [Data i a, Data i b] r = (Ok (), r')
    \<and> ln_sent (rr_link r') = ln_sent (rr_link r) @ [message_new MC_Write i remote a, message_new MC_Write i remote b]"
  using assms by (simp add: flush_local_event_def rr_transmit_def seq_io_def bind_io_def)

text \<open>A random id that is already in use replaces the live stream that has it.\<close>

lemma colliding_id_replaces_stream:
  assumes "trim_end 0 (utf8_lossy (tm_payload m)) = rr_local r" and "rr_dial r (rr_opens r) = Ok stream"
    and "map_of (rr_sockets r) (rr_random r (rr_opens r)) = Some old" and "ln_outcomes (rr_link r) = []"
  shows "\<exists>r'. accept_device_open m r = (Ok (), r')
    \<and> map_of (rr_sockets r') (rr_random r (rr_opens r)) = Some (msg_arg0 m, stream)"
  using assms
  by (simp add: accept_device_open_def is_expected_reverse_destination_def Let_def seq_io_def bind_io_def
      rr_transmit_def update_conv')

end
