(* ===== verification/Dispatched_Service.thy ===== *)
theory Dispatched_Service
  imports Device_Commands Relay
begin

text \<open>
  The services of \<^verbatim>\<open>message_devices/dispatched_device.rs\<close>: what runs over one session of the packet
  dispatcher once it has been opened. The link stands for that session: the packets the dispatcher
  will put into its channel, the outcomes of its writes, and the error once the dispatcher has
  stopped.
\<close>

section \<open>Primitives\<close>

definition acknowledge :: "adb_session \<Rightarrow> (link, unit) io" where
  "acknowledge a = transmit_new MC_Okay (as_local_id a) (as_remote_id a) []"

definition close_ack :: "adb_session \<Rightarrow> (link, unit) io" where
  "close_ack a = transmit_new MC_Clse (as_local_id a) (as_remote_id a) []"

definition send_expect_okay :: "adb_session \<Rightarrow> bytes \<Rightarrow> (link, unit) io" where
  "send_expect_okay a payload =
     seq_io (transmit_new MC_Write (as_local_id a) (as_remote_id a) payload)
       (bind_io receive (\<lambda>response.
          lift (if msg_command response \<noteq> MC_Okay then Err (request_failed ''ADB service did not acknowledge write'')
                else Ok ())))"

text \<open>The loop of \<open>read_bytes\<close>: every WRTE is acknowledged as it is buffered.\<close>

lemma acknowledge_frame: "acknowledge a l = (q, l') \<Longrightarrow> ln_incoming l' = ln_incoming l \<and> ln_closed l' = ln_closed l"
  unfolding acknowledge_def by (rule transmit_new_frame)

function fill_buffer :: "adb_session \<Rightarrow> nat \<Rightarrow> bytes \<Rightarrow> link \<Rightarrow> unit result \<times> bytes \<times> link" where
  "fill_buffer a n buffered l =
     (if n \<le> length buffered then (Ok (), buffered, l)
      else case receive l of
          (Err e, l') \<Rightarrow> (Err e, buffered, l')
        | (Panic, l') \<Rightarrow> (Panic, buffered, l')
        | (Ok m, l') \<Rightarrow>
            (case msg_command m of
               MC_Write \<Rightarrow>
                 (case acknowledge a l' of
                    (Ok _, l2) \<Rightarrow> fill_buffer a n (buffered @ tm_payload m) l2
                  | (Err e, l2) \<Rightarrow> (Err e, buffered @ tm_payload m, l2)
                  | (Panic, l2) \<Rightarrow> (Panic, buffered @ tm_payload m, l2))
             | MC_Okay \<Rightarrow> fill_buffer a n buffered l'
             | MC_Clse \<Rightarrow>
                 (Err (request_failed ''device closed service before completion''), buffered, snd (ignore (close_ack a) l'))
             | _ \<Rightarrow> (Err (request_failed ''unexpected service packet''), buffered, l')))"
  by pat_completeness auto
termination
  by (relation "measure (\<lambda>(a, n, b, l). length (ln_incoming l))")
    (auto dest!: receive_incoming [OF sym] acknowledge_frame [OF sym])

declare fill_buffer.simps [simp del]

type_synonym buffered_link = "bytes \<times> link"

definition read_bytes :: "adb_session \<Rightarrow> nat \<Rightarrow> (buffered_link, bytes) io" where
  "read_bytes a n s =
     (case fill_buffer a n (fst s) (snd s) of
        (Ok _, buffered, l) \<Rightarrow> (Ok (take n buffered), drop n buffered, l)
      | (Err e, s') \<Rightarrow> (Err e, s')
      | (Panic, s') \<Rightarrow> (Panic, s'))"

section \<open>Reading exactly\<close>

text \<open>The bytes a session will still deliver: the WRTE payloads up to anything that ends the reading.\<close>

fun service_bytes :: "transport_message result list \<Rightarrow> bytes" where
  "service_bytes [] = []"
| "service_bytes (Ok m # rs) =
     (case msg_command m of
        MC_Write \<Rightarrow> tm_payload m @ service_bytes rs
      | MC_Okay \<Rightarrow> service_bytes rs
      | _ \<Rightarrow> [])"
| "service_bytes (Err e # rs) = []"
| "service_bytes (Panic # rs) = []"

definition service_content :: "buffered_link \<Rightarrow> bytes" where
  "service_content s = fst s @ service_bytes (ln_incoming (snd s))"

text \<open>
  A reader that fills its request or fails: it yields exactly the next bytes of its content, and has
  to yield them when they are there.
\<close>

locale exact_reader =
  fixes rd :: "nat \<Rightarrow> ('s, bytes) io"
    and content :: "'s \<Rightarrow> bytes"
    and good :: "'s \<Rightarrow> bool"
  assumes rd_exact: "good s \<Longrightarrow> n \<le> length (content s) \<Longrightarrow> \<exists>xs s'. rd n s = (Ok xs, s') \<and> good s'"
    and rd_sound: "rd n s = (Ok xs, s') \<Longrightarrow> length xs = n \<and> content s = xs @ content s'"
begin

lemma read_append:
  assumes "good s" and "content s = xs @ rest" and "length xs = n"
  obtains s' where "rd n s = (Ok xs, s')" "content s' = rest" "good s'"
proof -
  have "n \<le> length (content s)" using assms(3) unfolding assms(2) by simp
  from rd_exact [OF assms(1) this] obtain ys s' where r: "rd n s = (Ok ys, s')" "good s'" by blast
  from rd_sound [OF r(1)] have "length ys = length xs" "xs @ rest = ys @ content s'"
    using assms(3) unfolding assms(2) by simp_all
  then have "ys = xs" "content s' = rest" by simp_all
  with r that show thesis by blast
qed

lemma read_length: "rd n s = (Ok xs, s') \<Longrightarrow> length (content s) = n + length (content s')"
  by (drule rd_sound) (metis length_append)

lemma read_shorter: "rd n s = (Ok xs, s') \<Longrightarrow> 0 < n \<Longrightarrow> length (content s') < length (content s)"
  by (drule read_length) linarith

lemma read_no_longer: "rd n s = (Ok xs, s') \<Longrightarrow> length (content s') \<le> length (content s)"
  by (drule read_length) linarith

end

lemma fill_buffer_sound:
  "fill_buffer a n b l = (Ok (), b', l') \<Longrightarrow>
     n \<le> length b' \<and> b @ service_bytes (ln_incoming l) = b' @ service_bytes (ln_incoming l')"
proof (induction a n b l rule: fill_buffer.induct)
  case (1 a n b l)
  show ?case
  proof (cases "n \<le> length b")
    case True
    with "1.prems" show ?thesis by (subst (asm) fill_buffer.simps) simp
  next
    case False
    obtain q l1 where q: "receive l = (q, l1)" by fastforce
    with "1.prems" False obtain m where m: "q = Ok m"
      by (subst (asm) fill_buffer.simps) (cases q; simp)
    with receive_OkD q have inc: "ln_incoming l = Ok m # ln_incoming l1" by blast
    consider "msg_command m = MC_Write" | "msg_command m = MC_Okay"
      using "1.prems" False q m by (subst (asm) fill_buffer.simps) (cases "msg_command m"; simp)
    then show ?thesis
    proof cases
      case 1
      obtain k l2 where k: "acknowledge a l1 = (k, l2)" by fastforce
      have rec: "k = Ok () \<and> fill_buffer a n (b @ tm_payload m) l2 = (Ok (), b', l')"
        using "1.prems" False q m 1 k by (subst (asm) fill_buffer.simps) (cases k; simp)
      with "1.IH"(1) [OF False q [symmetric] m 1 k [symmetric]] inc 1 acknowledge_frame [OF k] show ?thesis
        by simp
    next
      case 2
      then have "fill_buffer a n b l1 = (Ok (), b', l')"
        using "1.prems" False q m by (subst (asm) fill_buffer.simps) simp
      with "1.IH"(2) [OF False q [symmetric] m 2] inc 2 show ?thesis by simp
    qed
  qed
qed

lemma fill_buffer_exact:
  "ln_outcomes l = [] \<Longrightarrow> n \<le> length (b @ service_bytes (ln_incoming l)) \<Longrightarrow>
     \<exists>b' l'. fill_buffer a n b l = (Ok (), b', l') \<and> ln_outcomes l' = []"
proof (induction a n b l rule: fill_buffer.induct)
  case (1 a n b l)
  show ?case
  proof (cases "n \<le> length b")
    case True
    with "1.prems" show ?thesis by (subst fill_buffer.simps) simp
  next
    case False
    with "1.prems"(2) have ne: "service_bytes (ln_incoming l) \<noteq> []" by auto
    then obtain m rs where inc: "ln_incoming l = Ok m # rs" and c: "msg_command m = MC_Write \<or> msg_command m = MC_Okay"
      by (cases "ln_incoming l" rule: service_bytes.cases) (auto split: message_command.splits)
    let ?l1 = "l\<lparr>ln_incoming := rs\<rparr>"
    have q: "receive l = (Ok m, ?l1)" using inc by simp
    from c show ?thesis
    proof
      assume w: "msg_command m = MC_Write"
      let ?l2 = "?l1\<lparr>ln_sent := ln_sent l @ [message_new MC_Okay (as_local_id a) (as_remote_id a) []]\<rparr>"
      have k: "acknowledge a ?l1 = (Ok (), ?l2)" using "1.prems"(1) by (simp add: acknowledge_def)
      from "1.IH"(1) [OF False q [symmetric] refl w k [symmetric] refl] "1.prems" inc w
      obtain b' l' where "fill_buffer a n (b @ tm_payload m) ?l2 = (Ok (), b', l') \<and> ln_outcomes l' = []" by auto
      with False q w k show ?thesis by (subst fill_buffer.simps) simp
    next
      assume o: "msg_command m = MC_Okay"
      from "1.IH"(2) [OF False q [symmetric] refl o] "1.prems" inc o
      obtain b' l' where "fill_buffer a n b ?l1 = (Ok (), b', l') \<and> ln_outcomes l' = []" by auto
      with False q o show ?thesis by (subst fill_buffer.simps) simp
    qed
  qed
qed

interpretation service: exact_reader "read_bytes a" service_content "\<lambda>s. ln_outcomes (snd s) = []" for a
proof unfold_locales
  fix s :: buffered_link and n
  assume "ln_outcomes (snd s) = []" "n \<le> length (service_content s)"
  then obtain b' l' where "fill_buffer a n (fst s) (snd s) = (Ok (), b', l')" "ln_outcomes l' = []"
    using fill_buffer_exact [of "snd s" n "fst s" a] by (auto simp: service_content_def)
  then show "\<exists>xs s'. read_bytes a n s = (Ok xs, s') \<and> ln_outcomes (snd s') = []"
    by (simp add: read_bytes_def)
next
  fix s s' :: buffered_link and n xs
  assume "read_bytes a n s = (Ok xs, s')"
  then obtain b where "fill_buffer a n (fst s) (snd s) = (Ok (), b, snd s')" "xs = take n b" "fst s' = drop n b"
    by (auto simp: read_bytes_def split: prod.splits outcome.splits)
  with fill_buffer_sound [of a n "fst s" "snd s" b "snd s'"] show "length xs = n \<and> service_content s = xs @ service_content s'"
    by (simp add: service_content_def min_def append_assoc [symmetric] del: append_assoc)
qed

section \<open>Shell protocol v2\<close>

definition SHELL_PACKET_LIMIT :: nat where
  "SHELL_PACKET_LIMIT = 1024 * 1024"

definition STDERR_LIMIT :: nat where
  "STDERR_LIMIT = 64 * 1024"

text \<open>What is kept of the diagnostics: the first 64 KiB.\<close>

definition keep_errors :: "bytes \<Rightarrow> bytes \<Rightarrow> bytes" where
  "keep_errors errors data =
     (if length errors < STDERR_LIMIT then errors @ take (STDERR_LIMIT - length errors) data else errors)"

definition exit_verdict :: "u8 \<Rightarrow> bytes \<Rightarrow> unit result" where
  "exit_verdict code errors =
     (if code = 0 then Ok ()
      else Err (ADBRequestFailed (ascii ''remote command exited '' @ show_nat (unat code) @ ascii '': '' @ utf8_lossy errors)))"

text \<open>The end of a command: the exit packet is checked, the stream closed and the code reported.\<close>

definition exit_packet :: "adb_session \<Rightarrow> bytes \<Rightarrow> bytes \<Rightarrow> (link, unit) io" where
  "exit_packet a errors data =
     (if length data \<noteq> 1 then
        lift (Err (ADBShellV2ParseError (ascii ''exit packet has '' @ show_nat (length data) @ ascii '' bytes instead of 1'')))
      else seq_io (close_ack a) (lift (exit_verdict (hd data) errors)))"

function shell_v2_loop ::
    "adb_session \<Rightarrow> sink option \<Rightarrow> bytes \<Rightarrow> buffered_link \<Rightarrow> unit result \<times> sink option \<times> buffered_link" where
  "shell_v2_loop a out errors s =
     (case read_bytes a 5 s of
        (Err e, s1) \<Rightarrow> (Err e, out, s1)
      | (Panic, s1) \<Rightarrow> (Panic, out, s1)
      | (Ok header, s1) \<Rightarrow>
          if SHELL_PACKET_LIMIT < nat_le (slice 1 5 header) then (Err (request_failed ''oversized shell packet''), out, s1)
          else (case read_bytes a (nat_le (slice 1 5 header)) s1 of
              (Err e, s2) \<Rightarrow> (Err e, out, s2)
            | (Panic, s2) \<Rightarrow> (Panic, out, s2)
            | (Ok data, s2) \<Rightarrow>
                if hd header = 1 then
                  (case write_output data out of
                     (Ok _, out') \<Rightarrow> shell_v2_loop a out' errors s2
                   | (Err e, out') \<Rightarrow> (Err e, out', s2)
                   | (Panic, out') \<Rightarrow> (Panic, out', s2))
                else if hd header = 2 then shell_v2_loop a out (keep_errors errors data) s2
                else if hd header = 3 then
                  (case exit_packet a errors data (snd s2) of (r, l) \<Rightarrow> (r, out, fst s2, l))
                else (Err (request_failed ''invalid shell packet''), out, s2)))"
  by pat_completeness auto
termination
proof (relation "measure (\<lambda>(a, out, errors, s). length (service_content s))", goal_cases)
  case (2 a out errors s r s1 header r2 s2 data)
  from 2(1,2) have "read_bytes a 5 s = (Ok header, s1)" by simp
  from service.read_shorter [OF this] have "length (service_content s1) < length (service_content s)" by simp
  moreover from 2 have "read_bytes a (nat_le (slice 1 5 header)) s1 = (Ok data, s2)" by simp
  from service.read_no_longer [OF this] have "length (service_content s2) \<le> length (service_content s1)" .
  ultimately show ?case by simp
next
  case (3 a out errors s r s1 header r2 s2 data)
  from 3(1,2) have "read_bytes a 5 s = (Ok header, s1)" by simp
  from service.read_shorter [OF this] have "length (service_content s1) < length (service_content s)" by simp
  moreover from 3 have "read_bytes a (nat_le (slice 1 5 header)) s1 = (Ok data, s2)" by simp
  from service.read_no_longer [OF this] have "length (service_content s2) \<le> length (service_content s1)" .
  ultimately show ?case by simp
qed simp

declare shell_v2_loop.simps [simp del]

section \<open>Downloads\<close>

definition SYNC_PACKET_LIMIT :: nat where
  "SYNC_PACKET_LIMIT = 64 * 1024"

function pull_loop :: "adb_session \<Rightarrow> sink \<Rightarrow> buffered_link \<Rightarrow> unit result \<times> sink \<times> buffered_link" where
  "pull_loop a out s =
     (case read_bytes a 8 s of
        (Err e, s1) \<Rightarrow> (Err e, out, s1)
      | (Panic, s1) \<Rightarrow> (Panic, out, s1)
      | (Ok header, s1) \<Rightarrow>
          if take 4 header = ascii ''DONE'' then (Ok (), out, s1)
          else if take 4 header = ascii ''DATA'' \<and> nat_le (slice 4 8 header) \<le> SYNC_PACKET_LIMIT then
            (case read_bytes a (nat_le (slice 4 8 header)) s1 of
               (Err e, s2) \<Rightarrow> (Err e, out, s2)
             | (Panic, s2) \<Rightarrow> (Panic, out, s2)
             | (Ok data, s2) \<Rightarrow>
                 (case write_all data out of
                    (Ok _, out') \<Rightarrow> pull_loop a out' s2
                  | (Err e, out') \<Rightarrow> (Err e, out', s2)
                  | (Panic, out') \<Rightarrow> (Panic, out', s2)))
          else if take 4 header = ascii ''FAIL'' \<and> nat_le (slice 4 8 header) \<le> SYNC_PACKET_LIMIT then
            (case read_bytes a (nat_le (slice 4 8 header)) s1 of
               (Err e, s2) \<Rightarrow> (Err e, out, s2)
             | (Panic, s2) \<Rightarrow> (Panic, out, s2)
             | (Ok data, s2) \<Rightarrow> (Err (ADBRequestFailed (utf8_lossy data)), out, s2))
          else (Err (request_failed ''invalid sync download packet''), out, s1))"
  by pat_completeness auto
termination
proof (relation "measure (\<lambda>(a, out, s). length (service_content s))", goal_cases)
  case (2 a out s r s1 header r2 s2 data)
  from 2(1,2) have "read_bytes a 8 s = (Ok header, s1)" by simp
  from service.read_shorter [OF this] have "length (service_content s1) < length (service_content s)" by simp
  moreover from 2 have "read_bytes a (nat_le (slice 4 8 header)) s1 = (Ok data, s2)" by simp
  from service.read_no_longer [OF this] have "length (service_content s2) \<le> length (service_content s1)" .
  ultimately show ?case by simp
qed simp

declare pull_loop.simps [simp del]

text \<open>Everything \<open>pull\<close> does once the sync service is open; the stream is closed in any case.\<close>

definition service_pull :: "adb_session \<Rightarrow> bytes \<Rightarrow> sink \<Rightarrow> link \<Rightarrow> unit result \<times> sink \<times> link" where
  "service_pull a path out l =
     (case bind_io (lift (u32_try_from (length path)))
             (\<lambda>n. send_expect_okay a (ascii ''RECV'' @ to_le32 n @ path)) l of
        (Err e, l1) \<Rightarrow> (Err e, out, l1)
      | (Panic, l1) \<Rightarrow> (Panic, out, l1)
      | (Ok _, l1) \<Rightarrow>
          (case pull_loop a out ([], l1) of
             (Panic, out', s) \<Rightarrow> (Panic, out', snd s)
           | (result, out', s) \<Rightarrow> (result, out', snd (ignore (close_ack a) (snd s)))))"

section \<open>Uploads\<close>

definition CHUNK_SIZE :: nat where
  "CHUNK_SIZE = 65535"

definition service_push_data :: "adb_session \<Rightarrow> bytes \<Rightarrow> (link, unit) io" where
  "service_push_data a bs =
     bind_io (lift (u32_try_from (length bs))) (\<lambda>n. send_expect_okay a (with_arg_encode (with_arg SC_Data n) @ bs))"

partial_function (option) service_push_loop ::
    "adb_session \<Rightarrow> 's reader \<Rightarrow> 's \<Rightarrow> link \<Rightarrow> (unit result \<times> 's \<times> link) option" where
  "service_push_loop a rd s l =
     (case rd CHUNK_SIZE s of
        (Ok bs, s') \<Rightarrow>
          if bs = [] then Some (Ok (), s', l)
          else (case service_push_data a bs l of
              (Ok _, l') \<Rightarrow> service_push_loop a rd s' l'
            | (Err e, l') \<Rightarrow> Some (Err e, s', l')
            | (Panic, l') \<Rightarrow> Some (Panic, s', l'))
      | (Err e, s') \<Rightarrow> Some (Err e, s', l)
      | (Panic, s') \<Rightarrow> Some (Panic, s', l))"

text \<open>DONE, and the result that follows its OKAY.\<close>

definition push_result :: "adb_session \<Rightarrow> (link, unit) io" where
  "push_result a =
     seq_io (send_expect_okay a (with_arg_encode (with_arg SC_Done 0)))
       (bind_io receive (\<lambda>result.
          if msg_command result \<noteq> MC_Write then lift (Err (request_failed ''sync push did not return a result packet''))
          else seq_io (acknowledge a) (seq_io (close_ack a)
            (lift (if starts_with (ascii ''OKAY'') (tm_payload result) then Ok ()
                   else Err (ADBRequestFailed (ascii ''sync push failed: '' @ utf8_lossy (tm_payload result))))))))"

definition push_begin :: "adb_session \<Rightarrow> bytes \<Rightarrow> (link, unit) io" where
  "push_begin a path =
     bind_io (lift (u32_try_from (length (path @ ascii '',0777''))))
       (\<lambda>n. send_expect_okay a (with_arg_encode (with_arg SC_Send n) @ path @ ascii '',0777''))"

definition service_push :: "adb_session \<Rightarrow> 's reader \<Rightarrow> 's \<Rightarrow> bytes \<Rightarrow> link \<Rightarrow> (unit result \<times> 's \<times> link) option" where
  "service_push a rd s path l =
     (case push_begin a path l of
        (Err e, l') \<Rightarrow> Some (Err e, s, l')
      | (Panic, l') \<Rightarrow> Some (Panic, s, l')
      | (Ok _, l') \<Rightarrow>
          (case service_push_loop a rd s l' of
             Some (Ok _, s', l2) \<Rightarrow> (case push_result a l2 of (r, l3) \<Rightarrow> Some (r, s', l3))
           | other \<Rightarrow> other))"

section \<open>Draining a service\<close>

function drain_to :: "adb_session \<Rightarrow> sink option \<Rightarrow> link \<Rightarrow> unit result \<times> sink option \<times> link" where
  "drain_to a out l =
     (case receive l of
        (Err e, l') \<Rightarrow> (Err e, out, l')
      | (Panic, l') \<Rightarrow> (Panic, out, l')
      | (Ok m, l') \<Rightarrow>
          (case msg_command m of
             MC_Write \<Rightarrow>
               (case write_output (tm_payload m) out of
                  (Err e, out') \<Rightarrow> (Err e, out', l')
                | (Panic, out') \<Rightarrow> (Panic, out', l')
                | (Ok _, out') \<Rightarrow>
                    (case acknowledge a l' of
                       (Ok _, l2) \<Rightarrow> drain_to a out' l2
                     | (Err e, l2) \<Rightarrow> (Err e, out', l2)
                     | (Panic, l2) \<Rightarrow> (Panic, out', l2)))
           | MC_Clse \<Rightarrow> (case close_ack a l' of (r, l2) \<Rightarrow> (r, out, l2))
           | MC_Okay \<Rightarrow> drain_to a out l'
           | c \<Rightarrow> (Err (ADBRequestFailed (ascii ''unexpected '' @ message_command_text c
                          @ ascii '' in dispatched shell session'')), out, l')))"
  by pat_completeness auto
termination
  by (relation "measure (\<lambda>(a, out, l). length (ln_incoming l))")
    (auto dest!: receive_incoming [OF sym] acknowledge_frame [OF sym])

declare drain_to.simps [simp del]

end
