(* ===== verification/Dispatched_Transfers.thy ===== *)
theory Dispatched_Transfers
  imports Dispatched_Service
begin

text \<open>
  What the services of \<^verbatim>\<open>dispatched_device.rs\<close> make of the bytes of the device: the output and the
  exit code of a shell v2 command, a download and an upload, for every way of cutting the protocol's
  packets into WRTEs.
\<close>

section \<open>Headers\<close>

context exact_reader
begin

lemma read_frame:
  assumes "good s" and "content s = h @ data @ rest" and "length h = m" and "length data = n"
  obtains s1 s2 where "rd m s = (Ok h, s1)" "rd n s1 = (Ok data, s2)" "content s2 = rest" "good s2"
proof -
  from assms(1,2,3) obtain s1 where s1: "rd m s = (Ok h, s1)" "content s1 = data @ rest" "good s1"
    by (rule read_append)
  from s1(3,2) assms(4) obtain s2 where "rd n s1 = (Ok data, s2)" "content s2 = rest" "good s2"
    by (rule read_append)
  with s1(1) that show thesis by blast
qed

end

lemma nat_le_to_le32 [simp]: "nat_le (to_le32 w) = unat w"
  using unat_less_u32 [of w] by (simp add: to_le32_def nat_le_le_nat)

lemma to_le32_nat_le: "length bs = 4 \<Longrightarrow> to_le32 (word_of_nat (nat_le bs)) = bs"
  using to_from_le32 [of bs] by (simp add: from_le32_def)

lemma le_nat_4:
  "le_nat 4 v = [word_of_nat v, word_of_nat (v div 256), word_of_nat (v div 256 div 256), word_of_nat (v div 256 div 256 div 256)]"
proof -
  have "(4 :: nat) = Suc (Suc (Suc (Suc 0)))" by simp
  then show ?thesis by (simp only: le_nat.simps)
qed

lemma subcommand_names:
  "to_le32 (subcommand_code SC_Data) = ascii ''DATA''" "to_le32 (subcommand_code SC_Done) = ascii ''DONE''"
  "to_le32 (subcommand_code SC_Send) = ascii ''SEND''"
  unfolding to_le32_def le_nat_4 by simp_all

lemma data_header: "with_arg_encode (with_arg SC_Data n) = ascii ''DATA'' @ to_le32 n"
  and done_header: "with_arg_encode (with_arg SC_Done n) = ascii ''DONE'' @ to_le32 n"
  and send_header: "with_arg_encode (with_arg SC_Send n) = ascii ''SEND'' @ to_le32 n"
  by (simp_all only: with_arg_encode_def with_arg_def subcommand_names subcommand_with_arg.simps)

section \<open>Shell protocol v2\<close>

datatype shell_packet = Stdout bytes | Stderr bytes

fun shell_packet_bytes :: "shell_packet \<Rightarrow> bytes" where
  "shell_packet_bytes (Stdout bs) = 1 # to_le32 (word_of_nat (length bs)) @ bs"
| "shell_packet_bytes (Stderr bs) = 2 # to_le32 (word_of_nat (length bs)) @ bs"

definition exit_packet_bytes :: "u8 \<Rightarrow> bytes" where
  "exit_packet_bytes code = 3 # to_le32 1 @ [code]"

fun packet_data :: "shell_packet \<Rightarrow> bytes" where
  "packet_data (Stdout bs) = bs"
| "packet_data (Stderr bs) = bs"

fun stdout_of :: "shell_packet list \<Rightarrow> bytes" where
  "stdout_of [] = []"
| "stdout_of (Stdout bs # ps) = bs @ stdout_of ps"
| "stdout_of (Stderr bs # ps) = stdout_of ps"

fun stderr_of :: "shell_packet list \<Rightarrow> bytes" where
  "stderr_of [] = []"
| "stderr_of (Stdout bs # ps) = stderr_of ps"
| "stderr_of (Stderr bs # ps) = bs @ stderr_of ps"

definition command_output :: "shell_packet list \<Rightarrow> u8 \<Rightarrow> bytes" where
  "command_output ps code = concat (map shell_packet_bytes ps) @ exit_packet_bytes code"

lemma keep_errors_again:
  "keep_errors (take STDERR_LIMIT errors) bs = take STDERR_LIMIT (errors @ bs)"
  by (auto simp: keep_errors_def)

lemma shell_frame:
  assumes "service_content s = i # to_le32 (word_of_nat (length data)) @ data @ rest"
    and "ln_outcomes (snd s) = []" and "length data \<le> SHELL_PACKET_LIMIT"
  obtains s1 s2 where "read_bytes a 5 s = (Ok (i # to_le32 (word_of_nat (length data))), s1)"
    "nat_le (slice 1 5 (i # to_le32 (word_of_nat (length data)))) = length data"
    "read_bytes a (length data) s1 = (Ok data, s2)" "service_content s2 = rest" "ln_outcomes (snd s2) = []"
proof -
  let ?h = "i # to_le32 (word_of_nat (length data))"
  have n: "nat_le (slice 1 5 ?h) = length data"
    using assms(3) by (simp add: slice_def SHELL_PACKET_LIMIT_def unat_of_nat)
  have c: "service_content s = ?h @ data @ rest" "length ?h = 5" using assms(1) by simp_all
  from service.read_frame [OF assms(2) c(1) c(2) refl, of a] n that show thesis by blast
qed

lemma shell_v2_complete:
  assumes "service_content s = command_output ps code @ rest" and "ln_outcomes (snd s) = []"
    and "sk_script k = []" and "\<forall>p \<in> set ps. length (packet_data p) \<le> SHELL_PACKET_LIMIT"
  shows "\<exists>s'. shell_v2_loop a (Some k) (take STDERR_LIMIT errors) s
    = (exit_verdict code (take STDERR_LIMIT (errors @ stderr_of ps)), Some (k\<lparr>sk_out := sk_out k @ stdout_of ps\<rparr>), s')"
  using assms
proof (induction ps arbitrary: s k errors)
  case Nil
  have c: "service_content s = 3 # to_le32 (word_of_nat (length [code])) @ [code] @ rest"
    using Nil.prems(1) by (simp add: command_output_def exit_packet_bytes_def)
  have "length [code] \<le> SHELL_PACKET_LIMIT" by (simp add: SHELL_PACKET_LIMIT_def)
  from shell_frame [OF c Nil.prems(2) this, of a] obtain s1 s2 where
    r: "read_bytes a 5 s = (Ok (3 # to_le32 (word_of_nat (length [code]))), s1)"
      "nat_le (slice 1 5 (3 # to_le32 (word_of_nat (length [code])))) = length [code]"
      "read_bytes a (length [code]) s1 = (Ok [code], s2)" "ln_outcomes (snd s2) = []"
    by blast
  then show ?case
    by (subst shell_v2_loop.simps)
      (simp add: SHELL_PACKET_LIMIT_def exit_packet_def seq_io_def bind_io_def close_ack_def)
next
  case (Cons p ps)
  have len: "length (packet_data p) \<le> SHELL_PACKET_LIMIT" using Cons.prems(4) by simp
  show ?case
  proof (cases p)
    case (Stdout bs)
    have c: "service_content s = 1 # to_le32 (word_of_nat (length bs)) @ bs @ command_output ps code @ rest"
      using Cons.prems(1) Stdout by (simp add: command_output_def)
    from shell_frame [OF c Cons.prems(2), of a] len Stdout obtain s1 s2 where
      r: "read_bytes a 5 s = (Ok (1 # to_le32 (word_of_nat (length bs))), s1)"
        "nat_le (slice 1 5 (1 # to_le32 (word_of_nat (length bs)))) = length bs"
        "read_bytes a (length bs) s1 = (Ok bs, s2)" "service_content s2 = command_output ps code @ rest"
        "ln_outcomes (snd s2) = []"
      by (metis packet_data.simps)
    from Cons.IH [OF r(4,5), of "k\<lparr>sk_out := sk_out k @ bs\<rparr>" errors] Cons.prems(3,4) obtain s'
      where "shell_v2_loop a (Some (k\<lparr>sk_out := sk_out k @ bs\<rparr>)) (take STDERR_LIMIT errors) s2
        = (exit_verdict code (take STDERR_LIMIT (errors @ stderr_of ps)), Some (k\<lparr>sk_out := sk_out k @ bs @ stdout_of ps\<rparr>), s')"
      by auto
    with r Stdout len Cons.prems(3) show ?thesis
      by (subst shell_v2_loop.simps) (simp add: write_output_def)
  next
    case (Stderr bs)
    have c: "service_content s = 2 # to_le32 (word_of_nat (length bs)) @ bs @ command_output ps code @ rest"
      using Cons.prems(1) Stderr by (simp add: command_output_def)
    from shell_frame [OF c Cons.prems(2), of a] len Stderr obtain s1 s2 where
      r: "read_bytes a 5 s = (Ok (2 # to_le32 (word_of_nat (length bs))), s1)"
        "nat_le (slice 1 5 (2 # to_le32 (word_of_nat (length bs)))) = length bs"
        "read_bytes a (length bs) s1 = (Ok bs, s2)" "service_content s2 = command_output ps code @ rest"
        "ln_outcomes (snd s2) = []"
      by (metis packet_data.simps)
    from Cons.IH [OF r(4,5) Cons.prems(3), of "errors @ bs"] Cons.prems(4) obtain s'
      where "shell_v2_loop a (Some k) (take STDERR_LIMIT (errors @ bs)) s2
        = (exit_verdict code (take STDERR_LIMIT (errors @ bs @ stderr_of ps)), Some (k\<lparr>sk_out := sk_out k @ stdout_of ps\<rparr>), s')"
      by auto
    with r Stderr len show ?thesis
      by (subst shell_v2_loop.simps) (simp add: keep_errors_again)
  qed
qed

lemma shell_frame_sound:
  assumes "read_bytes a 5 s = (Ok h, s1)" and "read_bytes a (nat_le (slice 1 5 h)) s1 = (Ok data, s2)"
  shows "service_content s = hd h # to_le32 (word_of_nat (length data)) @ data @ service_content s2"
proof -
  from service.rd_sound [OF assms(1)] have h: "length h = 5" "service_content s = h @ service_content s1" by auto
  from service.rd_sound [OF assms(2)] have d: "length data = nat_le (slice 1 5 h)"
    "service_content s1 = data @ service_content s2" by auto
  from h(1) obtain x bs where x: "h = x # bs" "length bs = 4" by (cases h) auto
  then have "nat_le (slice 1 5 h) = nat_le bs" by (simp add: slice_def)
  with h(2) d x to_le32_nat_le [OF x(2)] show ?thesis by simp
qed

definition output_of :: "sink option \<Rightarrow> bytes" where
  "output_of out = (case out of None \<Rightarrow> [] | Some k \<Rightarrow> sk_out k)"

lemma write_output_OkD:
  "write_output bs out = (Ok (), out') \<Longrightarrow> (out' = None \<longleftrightarrow> out = None) \<and> (out \<noteq> None \<longrightarrow> output_of out' = output_of out @ bs)"
  by (auto simp: write_output_def write_all_def output_of_def split: option.splits list.splits write_result.splits)

lemma shell_v2_sound:
  "shell_v2_loop a out errors s = (Ok (), out', s') \<Longrightarrow>
     (out' = None \<longleftrightarrow> out = None) \<and>
     (\<exists>ps rest. service_content s = command_output ps 0 @ rest \<and> (out \<noteq> None \<longrightarrow> output_of out' = output_of out @ stdout_of ps))"
proof (induction a out errors s rule: shell_v2_loop.induct)
  case (1 a out errors s)
  obtain r1 s1 where r1: "read_bytes a 5 s = (r1, s1)" by (meson surj_pair)
  with "1.prems" obtain h where h: "r1 = Ok h" "nat_le (slice 1 5 h) \<le> SHELL_PACKET_LIMIT"
    by (subst (asm) shell_v2_loop.simps) (cases r1; simp split: if_splits)
  let ?n = "nat_le (slice 1 5 h)"
  have lim: "\<not> SHELL_PACKET_LIMIT < ?n" using h(2) by simp
  obtain r2 s2 where r2: "read_bytes a ?n s1 = (r2, s2)" by (meson surj_pair)
  with "1.prems" r1 h lim obtain data where d: "r2 = Ok data"
    by (subst (asm) shell_v2_loop.simps) (cases r2; simp)
  have c: "service_content s = hd h # to_le32 (word_of_nat (length data)) @ data @ service_content s2"
    using shell_frame_sound r1 h(1) r2 d by blast
  note run = "1.prems" [unfolded shell_v2_loop.simps [of a out errors s] r1 h(1)]
  consider "hd h = 1" | "hd h = 2" | "hd h = 3"
    using run lim r2 d by (simp split: if_splits)
  then show ?case
  proof cases
    case 1
    obtain q out1 where q: "write_output data out = (q, out1)" by fastforce
    with run lim r2 d 1 have ok: "q = Ok ()" and rec: "shell_v2_loop a out1 errors s2 = (Ok (), out', s')"
      by (cases q; simp)+
    from "1.IH"(1) [OF r1 [symmetric] h(1) lim r2 [symmetric] d 1 q [symmetric] ok rec] obtain ps rest
      where ih: "out' = None \<longleftrightarrow> out1 = None" "service_content s2 = command_output ps 0 @ rest"
        "out1 \<noteq> None \<longrightarrow> output_of out' = output_of out1 @ stdout_of ps" by blast
    have "service_content s = command_output (Stdout data # ps) 0 @ rest"
      using c 1 ih(2) by (simp add: command_output_def)
    moreover have "out \<noteq> None \<longrightarrow> output_of out' = output_of out @ stdout_of (Stdout data # ps)"
      using write_output_OkD [OF q [unfolded ok]] ih(3) by auto
    ultimately show ?thesis using write_output_OkD [OF q [unfolded ok]] ih(1) by blast
  next
    case 2
    with run lim r2 d have rec: "shell_v2_loop a out (keep_errors errors data) s2 = (Ok (), out', s')" by simp
    from 2 have n1: "hd h \<noteq> 1" by simp
    from "1.IH"(2) [OF r1 [symmetric] h(1) lim r2 [symmetric] d n1 2 rec] obtain ps rest
      where ih: "out' = None \<longleftrightarrow> out = None" "service_content s2 = command_output ps 0 @ rest"
        "out \<noteq> None \<longrightarrow> output_of out' = output_of out @ stdout_of ps" by blast
    have "service_content s = command_output (Stderr data # ps) 0 @ rest"
      using c 2 ih(2) by (simp add: command_output_def)
    with ih(1,3) show ?thesis by (metis stdout_of.simps(3))
  next
    case 3
    with run lim r2 d obtain l where "exit_packet a errors data (snd s2) = (Ok (), l)" and out: "out' = out"
      by (auto split: prod.splits)
    then have "length data = 1" "hd data = 0"
      by (auto simp: exit_packet_def exit_verdict_def split: if_splits elim!: seq_io_OkD)
    then have "data = [0]" by (cases data) auto
    with c 3 have "service_content s = command_output [] 0 @ service_content s2"
      by (simp add: command_output_def exit_packet_bytes_def)
    with out show ?thesis by (metis append_Nil2 stdout_of.simps(1))
  qed
qed

text \<open>
  C38: a command run over the shell v2 protocol: however the device cuts its packets into WRTEs, the
  output holds exactly the bytes of the stdout packets, and the call succeeds if and only if the exit
  code is zero, reporting otherwise the code and the first 64 KiB of the diagnostics. Conversely
  success is only reported for a stream of packets that ends in the exit code zero, all of whose
  output was written.
\<close>

theorem shell_v2_exact:
  assumes "ln_outcomes l = []" and "sk_script k = []"
  shows "(service_bytes (ln_incoming l) = command_output ps code @ rest
        \<and> (\<forall>p \<in> set ps. length (packet_data p) \<le> 1024 * 1024) \<longrightarrow>
        (\<exists>s'. shell_v2_loop a (Some k) [] ([], l)
           = (exit_verdict code (take (64 * 1024) (stderr_of ps)), Some (k\<lparr>sk_out := sk_out k @ stdout_of ps\<rparr>), s')))
    \<and> (\<forall>out' s'. shell_v2_loop a (Some k) [] ([], l) = (Ok (), out', s') \<longrightarrow>
        (\<exists>k' ps rest. out' = Some k' \<and> service_bytes (ln_incoming l) = command_output ps 0 @ rest
           \<and> sk_out k' = sk_out k @ stdout_of ps))"
proof (intro conjI impI allI)
  assume "service_bytes (ln_incoming l) = command_output ps code @ rest
        \<and> (\<forall>p \<in> set ps. length (packet_data p) \<le> 1024 * 1024)"
  then show "\<exists>s'. shell_v2_loop a (Some k) [] ([], l)
           = (exit_verdict code (take (64 * 1024) (stderr_of ps)), Some (k\<lparr>sk_out := sk_out k @ stdout_of ps\<rparr>), s')"
    using shell_v2_complete [of "([], l)" ps code rest k a "[]"] assms
    by (simp add: service_content_def SHELL_PACKET_LIMIT_def STDERR_LIMIT_def)
next
  fix out' s'
  assume "shell_v2_loop a (Some k) [] ([], l) = (Ok (), out', s')"
  from shell_v2_sound [OF this] show "\<exists>k' ps rest. out' = Some k' \<and> service_bytes (ln_incoming l) = command_output ps 0 @ rest
           \<and> sk_out k' = sk_out k @ stdout_of ps"
    by (cases out') (simp, force simp: service_content_def output_of_def)
qed

text \<open>A command that prints one byte and exits with 1, in two WRTEs that split the first header.\<close>

theorem shell_v2_exact_witness:
  "let d = command_output [Stdout [7], Stderr [8]] 1;
       l = \<lparr>ln_incoming = [Ok (message_new MC_Write 9 5 (take 3 d)), Ok (message_new MC_Write 9 5 (drop 3 d))],
            ln_outcomes = [], ln_closed = TLSError, ln_sent = []\<rparr>
   in \<exists>s'. shell_v2_loop \<lparr>as_local_id = 5, as_remote_id = 9\<rparr> (Some \<lparr>sk_script = [], sk_out = []\<rparr>) [] ([], l)
        = (exit_verdict 1 [8], Some \<lparr>sk_script = [], sk_out = [7]\<rparr>, s')"
proof -
  let ?d = "command_output [Stdout [7], Stderr [8]] 1"
  let ?l = "\<lparr>ln_incoming = [Ok (message_new MC_Write 9 5 (take 3 ?d)), Ok (message_new MC_Write 9 5 (drop 3 ?d))],
            ln_outcomes = [], ln_closed = TLSError, ln_sent = []\<rparr>"
  have "service_bytes (ln_incoming ?l) = ?d @ []" by simp
  then show ?thesis
    using shell_v2_exact [of ?l "\<lparr>sk_script = [], sk_out = []\<rparr>" "[Stdout [7], Stderr [8]]" 1 "[]"]
    by (simp add: Let_def)
qed

section \<open>Downloads\<close>

definition fail_bytes :: "bytes \<Rightarrow> bytes" where
  "fail_bytes msg = ascii ''FAIL'' @ to_le32 (word_of_nat (length msg)) @ msg"

lemma pull_frame:
  assumes "service_content s = h @ to_le32 (word_of_nat (length data)) @ data @ rest" and "length h = 4"
    and "ln_outcomes (snd s) = []" and "length data \<le> SYNC_PACKET_LIMIT"
  obtains s1 s2 where "read_bytes a 8 s = (Ok (h @ to_le32 (word_of_nat (length data))), s1)"
    "nat_le (slice 4 8 (h @ to_le32 (word_of_nat (length data)))) = length data"
    "read_bytes a (length data) s1 = (Ok data, s2)" "service_content s2 = rest" "ln_outcomes (snd s2) = []"
proof -
  let ?h = "h @ to_le32 (word_of_nat (length data))"
  have n: "nat_le (slice 4 8 ?h) = length data"
    using assms(2,4) by (simp add: slice_append_right slice_full SYNC_PACKET_LIMIT_def unat_of_nat)
  have c: "service_content s = ?h @ data @ rest" "length ?h = 8" using assms(1,2) by simp_all
  from service.read_frame [OF assms(3) c(1) c(2) refl, of a] n that show thesis by blast
qed

lemma pull_frame_sound:
  assumes "read_bytes a 8 s = (Ok h, s1)" and "read_bytes a (nat_le (slice 4 8 h)) s1 = (Ok data, s2)"
  shows "service_content s = take 4 h @ to_le32 (word_of_nat (length data)) @ data @ service_content s2"
proof -
  from service.rd_sound [OF assms(1)] have h: "length h = 8" "service_content s = h @ service_content s1" by auto
  from service.rd_sound [OF assms(2)] have d: "length data = nat_le (slice 4 8 h)"
    "service_content s1 = data @ service_content s2" by auto
  have "slice 4 8 h = drop 4 h" using h(1) by (simp add: slice_def)
  moreover have "to_le32 (word_of_nat (nat_le (drop 4 h))) = drop 4 h"
    by (rule to_le32_nat_le) (simp add: h(1))
  ultimately show ?thesis using h(2) d by simp
qed

lemma pull_complete:
  assumes "service_content s = concat (map data_bytes chunks) @ trailer @ rest" and "ln_outcomes (snd s) = []"
    and "sk_script k = []" and "\<forall>c \<in> set chunks. length c \<le> SYNC_PACKET_LIMIT"
  shows "(trailer = with_arg_encode (with_arg SC_Done mtime) \<longrightarrow>
        (\<exists>s'. pull_loop a k s = (Ok (), k\<lparr>sk_out := sk_out k @ concat chunks\<rparr>, s')))
    \<and> (trailer = fail_bytes msg \<and> length msg \<le> SYNC_PACKET_LIMIT \<longrightarrow>
        (\<exists>s'. pull_loop a k s = (Err (ADBRequestFailed (utf8_lossy msg)), k\<lparr>sk_out := sk_out k @ concat chunks\<rparr>, s')))"
  using assms
proof (induction chunks arbitrary: s k)
  case Nil
  show ?case
  proof (intro conjI impI)
    assume "trailer = with_arg_encode (with_arg SC_Done mtime)"
    then have c: "service_content s = (ascii ''DONE'' @ to_le32 mtime) @ rest"
      using Nil.prems(1) by (simp only: done_header) simp
    have "length (ascii ''DONE'' @ to_le32 mtime) = 8" by simp
    from service.read_append [OF Nil.prems(2) c this, of a]
    obtain s1 where "read_bytes a 8 s = (Ok (ascii ''DONE'' @ to_le32 mtime), s1)" by blast
    then show "\<exists>s'. pull_loop a k s = (Ok (), k\<lparr>sk_out := sk_out k @ concat []\<rparr>, s')"
      by (subst pull_loop.simps) simp
  next
    assume e: "trailer = fail_bytes msg \<and> length msg \<le> SYNC_PACKET_LIMIT"
    then have c: "service_content s = ascii ''FAIL'' @ to_le32 (word_of_nat (length msg)) @ msg @ rest"
      using Nil.prems(1) by (simp add: fail_bytes_def)
    have "length (ascii ''FAIL'') = 4" by simp
    from pull_frame [OF c this Nil.prems(2), of a] e obtain s1 s2 where
      r: "read_bytes a 8 s = (Ok (ascii ''FAIL'' @ to_le32 (word_of_nat (length msg))), s1)"
        "nat_le (slice 4 8 (ascii ''FAIL'' @ to_le32 (word_of_nat (length msg)))) = length msg"
        "read_bytes a (length msg) s1 = (Ok msg, s2)"
      by blast
    with e show "\<exists>s'. pull_loop a k s = (Err (ADBRequestFailed (utf8_lossy msg)), k\<lparr>sk_out := sk_out k @ concat []\<rparr>, s')"
      by (subst pull_loop.simps) simp
  qed
next
  case (Cons bs chunks)
  have len: "length bs \<le> SYNC_PACKET_LIMIT" using Cons.prems(4) by simp
  have c: "service_content s = ascii ''DATA'' @ to_le32 (word_of_nat (length bs)) @ bs @ concat (map data_bytes chunks) @ trailer @ rest"
    using Cons.prems(1) by (simp add: data_bytes_def [of bs] data_header)
  have four: "length (ascii ''DATA'') = 4" by simp
  from pull_frame [OF c four Cons.prems(2) len, of a] obtain s1 s2 where
    r: "read_bytes a 8 s = (Ok (ascii ''DATA'' @ to_le32 (word_of_nat (length bs))), s1)"
      "nat_le (slice 4 8 (ascii ''DATA'' @ to_le32 (word_of_nat (length bs)))) = length bs"
      "read_bytes a (length bs) s1 = (Ok bs, s2)" "service_content s2 = concat (map data_bytes chunks) @ trailer @ rest"
      "ln_outcomes (snd s2) = []"
    by blast
  have "pull_loop a k s = pull_loop a (k\<lparr>sk_out := sk_out k @ bs\<rparr>) s2"
    using r(1-3) len Cons.prems(3) by (subst pull_loop.simps) simp
  with Cons.IH [OF r(4,5), of "k\<lparr>sk_out := sk_out k @ bs\<rparr>"] Cons.prems(3,4) show ?case by simp
qed

lemma pull_sound:
  "pull_loop a k s = (Ok (), k', s') \<Longrightarrow>
     \<exists>chunks mtime rest. service_content s = download_bytes chunks mtime @ rest \<and> sk_out k' = sk_out k @ concat chunks"
proof (induction a k s rule: pull_loop.induct)
  case (1 a k s)
  obtain r1 s1 where r1: "read_bytes a 8 s = (r1, s1)" by (meson surj_pair)
  with "1.prems" obtain h where h: "r1 = Ok h"
    by (subst (asm) pull_loop.simps) (cases r1; simp)
  note run = "1.prems" [unfolded pull_loop.simps [of a k s] r1 h]
  show ?case
  proof (cases "take 4 h = ascii ''DONE''")
    case True
    with run have k': "k' = k" by simp
    from service.rd_sound [OF r1 [unfolded h]] have c: "length h = 8" "service_content s = h @ service_content s1" by auto
    have "h = take 4 h @ drop 4 h" by simp
    moreover have "drop 4 h = to_le32 (word_of_nat (nat_le (drop 4 h)))"
      by (rule to_le32_nat_le [symmetric]) (simp add: c(1))
    ultimately have "h = with_arg_encode (with_arg SC_Done (word_of_nat (nat_le (drop 4 h))))"
      using True unfolding done_header by metis
    with c(2) k' have "service_content s = download_bytes [] (word_of_nat (nat_le (drop 4 h))) @ service_content s1
        \<and> sk_out k' = sk_out k @ concat []" by (simp add: download_bytes_def)
    then show ?thesis by blast
  next
    case no: False
    let ?n = "nat_le (slice 4 8 h)"
    have data: "take 4 h = ascii ''DATA'' \<and> ?n \<le> SYNC_PACKET_LIMIT"
    proof (rule ccontr)
      assume "\<not> ?thesis"
      with run no show False by (auto split: if_splits prod.splits outcome.splits)
    qed
    obtain r2 s2 where r2: "read_bytes a ?n s1 = (r2, s2)" by (meson surj_pair)
    with run no data obtain bs where d: "r2 = Ok bs" by (cases r2) simp_all
    obtain q k1 where q: "write_all bs k = (q, k1)" by (meson surj_pair)
    with run no data r2 d have ok: "q = Ok ()" and rec: "pull_loop a k1 s2 = (Ok (), k', s')"
      by (cases q; simp)+
    from "1.IH" [OF r1 [symmetric] h no data r2 [symmetric] d q [symmetric] ok rec] obtain chunks mtime rest
      where ih: "service_content s2 = download_bytes chunks mtime @ rest" "sk_out k' = sk_out k1 @ concat chunks" by blast
    have "sk_out k1 = sk_out k @ bs"
      using q ok by (auto simp: write_all_def split: list.splits write_result.splits)
    moreover have "service_content s = download_bytes (bs # chunks) mtime @ rest"
      using pull_frame_sound [OF r1 [unfolded h] r2 [unfolded d]] ih(1) data
      by (simp add: download_bytes_def data_bytes_def [of bs] data_header)
    ultimately show ?thesis using ih(2) by (metis append.assoc concat.simps(2))
  qed
qed

section \<open>Acknowledged writes\<close>

text \<open>What a row of \<open>send_expect_okay\<close> did: its payloads were sent, each answered by the OKAY that came next.\<close>

definition pushed :: "adb_session \<Rightarrow> bytes list \<Rightarrow> link \<Rightarrow> link \<Rightarrow> bool" where
  "pushed a frames l l' \<longleftrightarrow>
     (\<exists>acks. ln_sent l' = ln_sent l @ map (message_new MC_Write (as_local_id a) (as_remote_id a)) frames
        \<and> ln_incoming l = map Ok acks @ ln_incoming l' \<and> length acks = length frames
        \<and> (\<forall>m \<in> set acks. msg_command m = MC_Okay))"

lemma pushed_Nil [simp]: "pushed a [] l l"
  by (simp add: pushed_def)

lemma pushed_append: "pushed a fs l l1 \<Longrightarrow> pushed a gs l1 l' \<Longrightarrow> pushed a (fs @ gs) l l'"
  unfolding pushed_def by (elim exE conjE, rule_tac x = "acks @ acksa" in exI) auto

lemma send_expect_okay_OkD:
  assumes "send_expect_okay a bs l = (Ok (), l')"
  shows "pushed a [bs] l l'"
proof -
  from assms obtain l1 m where w: "transmit_new MC_Write (as_local_id a) (as_remote_id a) bs l = (Ok (), l1)"
    and r: "receive l1 = (Ok m, l')" "msg_command m = MC_Okay"
    by (auto simp: send_expect_okay_def split: if_splits elim!: seq_io_OkD bind_io_OkD)
  from transmit_new_frame [OF w] transmit_new_OkD [OF w] receive_OkD [OF r(1)] r(2) show ?thesis
    by (auto simp: pushed_def intro!: exI [of _ "[m]"])
qed

lemma send_expect_okay_run:
  assumes "ln_outcomes l = []" and "ln_incoming l = Ok m # rs" and "msg_command m = MC_Okay" and "length bs < 2 ^ 32"
  shows "send_expect_okay a bs l = (Ok (), l\<lparr>ln_incoming := rs,
    ln_sent := ln_sent l @ [message_new MC_Write (as_local_id a) (as_remote_id a) bs]\<rparr>)"
  using assms by (simp add: send_expect_okay_def seq_io_def bind_io_def)

text \<open>
  A download over the dispatcher: however the device cuts its answer into WRTEs, the output
  holds exactly the data of the DATA packets, and the call succeeds if they end in DONE and fails
  with the device's own text if they end in FAIL. Conversely success is only reported for an answer
  of DATA packets ending in DONE, all of which was written.
\<close>

theorem dispatched_pull_exact:
  assumes "ln_outcomes l = []" and "sk_script k = []" and "length path < 2 ^ 32 - 8"
    and "ln_incoming l = Ok ack # rs" and "msg_command ack = MC_Okay"
  shows "((\<forall>c \<in> set chunks. length c \<le> 64 * 1024) \<and> service_bytes rs = download_bytes chunks mtime @ rest \<longrightarrow>
        (\<exists>l'. service_pull a path k l = (Ok (), k\<lparr>sk_out := sk_out k @ concat chunks\<rparr>, l')))
    \<and> ((\<forall>c \<in> set chunks. length c \<le> 64 * 1024) \<and> length msg \<le> 64 * 1024
        \<and> service_bytes rs = concat (map data_bytes chunks) @ fail_bytes msg @ rest \<longrightarrow>
        (\<exists>l'. service_pull a path k l
           = (Err (ADBRequestFailed (utf8_lossy msg)), k\<lparr>sk_out := sk_out k @ concat chunks\<rparr>, l')))
    \<and> (\<forall>k' l'. service_pull a path k l = (Ok (), k', l') \<longrightarrow>
        (\<exists>chunks mtime rest. service_bytes rs = download_bytes chunks mtime @ rest \<and> sk_out k' = sk_out k @ concat chunks))"
proof -
  let ?l = "l\<lparr>ln_incoming := rs, ln_sent := ln_sent l @ [message_new MC_Write (as_local_id a) (as_remote_id a)
      (ascii ''RECV'' @ to_le32 (word_of_nat (length path)) @ path)]\<rparr>"
  have "bind_io (lift (u32_try_from (length path))) (\<lambda>n. send_expect_okay a (ascii ''RECV'' @ to_le32 n @ path)) l = (Ok (), ?l)"
    using assms by (simp add: send_expect_okay_run)
  then have run: "service_pull a path k l =
      (case pull_loop a k ([], ?l) of (Panic, out', s) \<Rightarrow> (Panic, out', snd s)
         | (result, out', s) \<Rightarrow> (result, out', snd (ignore (close_ack a) (snd s))))"
    by (simp add: service_pull_def)
  have c: "service_content ([], ?l) = service_bytes rs" "ln_outcomes (snd ([], ?l)) = []"
    using assms(1) by (simp_all add: service_content_def)
  show ?thesis
  proof (intro conjI impI allI)
    assume a: "(\<forall>c \<in> set chunks. length c \<le> 64 * 1024) \<and> service_bytes rs = download_bytes chunks mtime @ rest"
    then have "service_content ([], ?l) = concat (map data_bytes chunks) @ with_arg_encode (with_arg SC_Done mtime) @ rest"
      unfolding c by (simp add: download_bytes_def)
    from pull_complete [OF this c(2) assms(2), of mtime a] a
    have "\<exists>s'. pull_loop a k ([], ?l) = (Ok (), k\<lparr>sk_out := sk_out k @ concat chunks\<rparr>, s')"
      unfolding SYNC_PACKET_LIMIT_def by blast
    then show "\<exists>l'. service_pull a path k l = (Ok (), k\<lparr>sk_out := sk_out k @ concat chunks\<rparr>, l')"
      unfolding run by auto
  next
    assume a: "(\<forall>c \<in> set chunks. length c \<le> 64 * 1024) \<and> length msg \<le> 64 * 1024
        \<and> service_bytes rs = concat (map data_bytes chunks) @ fail_bytes msg @ rest"
    then have "service_content ([], ?l) = concat (map data_bytes chunks) @ fail_bytes msg @ rest"
      unfolding c by simp
    from pull_complete [OF this c(2) assms(2), of 0 a msg] a
    have "\<exists>s'. pull_loop a k ([], ?l)
        = (Err (ADBRequestFailed (utf8_lossy msg)), k\<lparr>sk_out := sk_out k @ concat chunks\<rparr>, s')"
      unfolding SYNC_PACKET_LIMIT_def by blast
    then show "\<exists>l'. service_pull a path k l
           = (Err (ADBRequestFailed (utf8_lossy msg)), k\<lparr>sk_out := sk_out k @ concat chunks\<rparr>, l')"
      unfolding run by auto
  next
    fix k' l'
    assume "service_pull a path k l = (Ok (), k', l')"
    then obtain s' where "pull_loop a k ([], ?l) = (Ok (), k', s')"
      unfolding run by (auto split: prod.splits outcome.splits)
    from pull_sound [OF this] show "\<exists>chunks mtime rest. service_bytes rs = download_bytes chunks mtime @ rest
        \<and> sk_out k' = sk_out k @ concat chunks"
      unfolding c .
  qed
qed

text \<open>A file of two bytes whose DATA header arrives in two pieces.\<close>

theorem dispatched_pull_exact_witness:
  "let d = download_bytes [[1, 2]] 0;
       l = \<lparr>ln_incoming = [Ok (message_new MC_Okay 9 5 []), Ok (message_new MC_Write 9 5 (take 3 d)), Ok (message_new MC_Write 9 5 (drop 3 d))],
            ln_outcomes = [], ln_closed = TLSError, ln_sent = []\<rparr>
   in \<exists>l'. service_pull \<lparr>as_local_id = 5, as_remote_id = 9\<rparr> [47] \<lparr>sk_script = [], sk_out = []\<rparr> l
        = (Ok (), \<lparr>sk_script = [], sk_out = [1, 2]\<rparr>, l')"
proof -
  let ?d = "download_bytes [[1, 2]] 0"
  let ?rs = "[Ok (message_new MC_Write 9 5 (take 3 ?d)), Ok (message_new MC_Write 9 5 (drop 3 ?d))]"
  have "service_bytes ?rs = ?d @ []" by simp
  then show ?thesis
    using dispatched_pull_exact [of "\<lparr>ln_incoming = Ok (message_new MC_Okay 9 5 []) # ?rs,
      ln_outcomes = [], ln_closed = TLSError, ln_sent = []\<rparr>" "\<lparr>sk_script = [], sk_out = []\<rparr>" "[47]"
        "message_new MC_Okay 9 5 []" ?rs "[[1, 2]]" 0 "[]" "\<lparr>as_local_id = 5, as_remote_id = 9\<rparr>" "[]"]
    by (simp add: Let_def)
qed

section \<open>Uploads\<close>

lemma service_push_data_OkD: "service_push_data a bs l = (Ok (), l') \<Longrightarrow> pushed a [data_bytes bs] l l'"
  by (auto simp: service_push_data_def u32_try_from_def data_bytes_def elim!: bind_io_OkD dest: send_expect_okay_OkD)

context ending_reader
begin

lemma service_push_loop_pushes:
  assumes "good s"
  shows "\<exists>r s' l'. service_push_loop a rd s l = Some (r, s', l')
    \<and> (r = Ok () \<longrightarrow> (\<exists>chunks. concat chunks = content s
        \<and> (\<forall>c \<in> set chunks. c \<noteq> [] \<and> length c \<le> CHUNK_SIZE) \<and> pushed a (map data_bytes chunks) l l'))"
  using assms
proof (induction "length (content s)" arbitrary: s l rule: less_induct)
  case less
  obtain r s1 where r: "rd CHUNK_SIZE s = (r, s1)" by fastforce
  have pos: "0 < CHUNK_SIZE" by (simp add: CHUNK_SIZE_def)
  show ?case
  proof (cases "content s = []")
    case True
    from rd_end [OF less.prems pos True] r have "ends r" by simp
    with r True show ?thesis
      by (subst service_push_loop.simps) (auto simp: ends_def intro!: exI [of _ "[]"])
  next
    case False
    with rd_ok [OF less.prems pos] r obtain bs
      where rd: "r = Ok bs" "bs \<noteq> []" "length bs \<le> CHUNK_SIZE" "content s = bs @ content s1" "good s1"
      by auto
    obtain q l1 where q: "service_push_data a bs l = (q, l1)" by fastforce
    show ?thesis
    proof (cases q)
      case (Ok u)
      from rd(2,4) have "length (content s1) < length (content s)" by simp
      from less.hyps [OF this rd(5), of l1] obtain w s' l'
        where w: "service_push_loop a rd s1 l1 = Some (w, s', l')"
          "w = Ok () \<longrightarrow> (\<exists>chunks. concat chunks = content s1
              \<and> (\<forall>c \<in> set chunks. c \<noteq> [] \<and> length c \<le> CHUNK_SIZE) \<and> pushed a (map data_bytes chunks) l1 l')" by blast
      have "pushed a [data_bytes bs] l l1" using q Ok service_push_data_OkD by simp
      then have "pushed a (map data_bytes (bs # chunks)) l l'" if "pushed a (map data_bytes chunks) l1 l'" for chunks
        using pushed_append that by fastforce
      with w(2) rd(2-4) have "w = Ok () \<longrightarrow> (\<exists>chunks. concat chunks = content s
              \<and> (\<forall>c \<in> set chunks. c \<noteq> [] \<and> length c \<le> CHUNK_SIZE) \<and> pushed a (map data_bytes chunks) l l')"
        by (metis (no_types, lifting) concat.simps(2) set_ConsD)
      with w(1) r rd(1,2) q Ok show ?thesis by (subst service_push_loop.simps) simp
    qed (use r rd(1,2) q in \<open>subst service_push_loop.simps; simp\<close>)+
  qed
qed

end

lemma push_result_OkD:
  assumes "push_result a l = (Ok (), l')"
  shows "\<exists>l1 verdict. pushed a [with_arg_encode (with_arg SC_Done 0)] l l1 \<and> ln_incoming l1 = Ok verdict # ln_incoming l'
    \<and> msg_command verdict = MC_Write \<and> starts_with (ascii ''OKAY'') (tm_payload verdict)
    \<and> ln_sent l' = ln_sent l1 @ [message_new MC_Okay (as_local_id a) (as_remote_id a) [],
        message_new MC_Clse (as_local_id a) (as_remote_id a) []]"
proof -
  from assms obtain l1 verdict l2 l3 where
    d: "send_expect_okay a (with_arg_encode (with_arg SC_Done 0)) l = (Ok (), l1)"
    and r: "receive l1 = (Ok verdict, l2)" "msg_command verdict = MC_Write" "starts_with (ascii ''OKAY'') (tm_payload verdict)"
    and k: "acknowledge a l2 = (Ok (), l3)" "close_ack a l3 = (Ok (), l')"
    unfolding push_result_def
    by (elim seq_io_OkD bind_io_OkD) (auto split: if_splits elim!: seq_io_OkD)
  from send_expect_okay_OkD [OF d] receive_OkD [OF r(1)] r(2,3)
    transmit_new_frame [OF k(1) [unfolded acknowledge_def]] transmit_new_OkD [OF k(1) [unfolded acknowledge_def]]
    transmit_new_frame [OF k(2) [unfolded close_ack_def]] transmit_new_OkD [OF k(2) [unfolded close_ack_def]]
  show ?thesis by auto
qed

lemma u32_try_from_OkD: "u32_try_from n = Ok w \<Longrightarrow> w = word_of_nat n"
  by (simp add: u32_try_from_def)

lemma push_begin_OkD:
  "push_begin a path l = (Ok (), l') \<Longrightarrow>
     pushed a [with_arg_encode (with_arg SC_Send (word_of_nat (length (path @ ascii '',0777'')))) @ path @ ascii '',0777''] l l'"
  unfolding push_begin_def
  by (elim bind_io_OkD, unfold lift_apply prod.inject, elim conjE, drule u32_try_from_OkD)
    (simp only: send_expect_okay_OkD)

definition upload_frames :: "bytes \<Rightarrow> bytes list \<Rightarrow> bytes list" where
  "upload_frames path chunks =
     (with_arg_encode (with_arg SC_Send (word_of_nat (length (path @ ascii '',0777'')))) @ path @ ascii '',0777'')
       # map data_bytes chunks @ [with_arg_encode (with_arg SC_Done 0)]"

lemma service_push_OkD:
  assumes "push_begin a path l = (Ok (), l1)" and "pushed a (map data_bytes chunks) l1 l2" and "push_result a l2 = (Ok (), l')"
  shows "\<exists>l3 verdict. pushed a (upload_frames path chunks) l l3 \<and> ln_incoming l3 = Ok verdict # ln_incoming l'
    \<and> msg_command verdict = MC_Write \<and> starts_with (ascii ''OKAY'') (tm_payload verdict)
    \<and> ln_sent l' = ln_sent l3 @ [message_new MC_Okay (as_local_id a) (as_remote_id a) [],
        message_new MC_Clse (as_local_id a) (as_remote_id a) []]"
  using pushed_append [OF push_begin_OkD [OF assms(1)] assms(2)] push_result_OkD [OF assms(3)]
  unfolding upload_frames_def by (fastforce dest: pushed_append)

text \<open>
  What a successful upload did: the file was cut into chunks of at most 65535 bytes, the request, one
  DATA frame per chunk and DONE were sent, each after the OKAY of the one before, the device's verdict
  begins with OKAY, and it was acknowledged and the stream closed.
\<close>

definition upload_confirmed :: "adb_session \<Rightarrow> bytes \<Rightarrow> bytes \<Rightarrow> link \<Rightarrow> link \<Rightarrow> bool" where
  "upload_confirmed a path file l l' \<longleftrightarrow>
     (\<exists>chunks l3 verdict. concat chunks = file \<and> (\<forall>c \<in> set chunks. c \<noteq> [] \<and> length c \<le> 65535)
        \<and> pushed a (upload_frames path chunks) l l3 \<and> ln_incoming l3 = Ok verdict # ln_incoming l'
        \<and> msg_command verdict = MC_Write \<and> starts_with (ascii ''OKAY'') (tm_payload verdict)
        \<and> ln_sent l' = ln_sent l3 @ [message_new MC_Okay (as_local_id a) (as_remote_id a) [],
            message_new MC_Clse (as_local_id a) (as_remote_id a) []])"

context ending_reader
begin

lemma service_push_pushes:
  assumes "good s"
  shows "\<exists>r s' l'. service_push a rd s path l = Some (r, s', l')
    \<and> (r = Ok () \<longrightarrow> upload_confirmed a path (content s) l l')"
proof (cases "push_begin a path l")
  case (Pair b l1)
  show ?thesis
  proof (cases b)
    case (Ok u)
    from service_push_loop_pushes [OF assms, of a l1] obtain r s' l2 where
      loop: "service_push_loop a rd s l1 = Some (r, s', l2)" and
      ok: "r = Ok () \<longrightarrow> (\<exists>chunks. concat chunks = content s
        \<and> (\<forall>c \<in> set chunks. c \<noteq> [] \<and> length c \<le> CHUNK_SIZE) \<and> pushed a (map data_bytes chunks) l1 l2)" by blast
    show ?thesis
    proof (cases r)
      case Ok': (Ok v)
      obtain w l' where w: "push_result a l2 = (w, l')" by fastforce
      with Pair Ok loop Ok' have run: "service_push a rd s path l = Some (w, s', l')"
        by (simp add: service_push_def)
      from ok Ok' obtain chunks where ch: "concat chunks = content s"
        "\<forall>c \<in> set chunks. c \<noteq> [] \<and> length c \<le> 65535" "pushed a (map data_bytes chunks) l1 l2"
        by (auto simp: CHUNK_SIZE_def)
      have "push_begin a path l = (Ok (), l1)" using Pair Ok by simp
      with ch w have "w = Ok () \<longrightarrow> upload_confirmed a path (content s) l l'"
        unfolding upload_confirmed_def using service_push_OkD by metis
      with run show ?thesis by blast
    qed (use Pair Ok loop in \<open>simp_all add: service_push_def\<close>)
  qed (use Pair in \<open>simp_all add: service_push_def\<close>)
qed

end

text \<open>
  An upload over the dispatcher always returns, and reports success only when exactly the file
  was sent and confirmed: every frame was acknowledged before the next, and the device's verdict
  begins with OKAY.
\<close>

theorem dispatched_push_sound:
  assumes "flowing src"
  shows "\<exists>r src' l'. service_push a read_source src path l = Some (r, src', l')
    \<and> (r = Ok () \<longrightarrow> upload_confirmed a path (source_bytes src) l l')"
  by (rule source.service_push_pushes [OF assms])

theorem dispatched_push_sound_witness:
  "\<exists>r src' l'. service_push \<lparr>as_local_id = 7, as_remote_id = 9\<rparr> read_source [Chunk [1, 2, 3]] [47]
       \<lparr>ln_incoming = [], ln_outcomes = [], ln_closed = TLSError, ln_sent = []\<rparr> = Some (r, src', l')"
proof -
  have "flowing [Chunk [1, 2, 3]]" by (simp add: flowing_def)
  then obtain r src' l' where "service_push \<lparr>as_local_id = 7, as_remote_id = 9\<rparr> read_source [Chunk [1, 2, 3]] [47]
       \<lparr>ln_incoming = [], ln_outcomes = [], ln_closed = TLSError, ln_sent = []\<rparr> = Some (r, src', l')"
    using dispatched_push_sound by metis
  then show ?thesis by (intro exI)
qed

end
