(* ===== verification/Dispatched_Device.thy ===== *)
theory Dispatched_Device
  imports Dispatched_Transfers
begin

text \<open>
  \<open>DispatchedADBMessageDevice\<close> of \<^verbatim>\<open>message_devices/dispatched_device.rs\<close>: the device whose services
  share one connection through the packet dispatcher. A caller sees the dispatcher through its
  answers: what each registration yields, the packets the new session will receive, and whether a
  route request is served. The bulk-transfer mark of a transfer only changes how long the dispatcher
  polls and is left out.
\<close>

section \<open>State\<close>

definition dispatcher_stopped :: rust_error where
  "dispatcher_stopped = request_failed ''ADB packet dispatcher stopped''"

record daemon =
  dm_link :: link
  dm_registrations :: "(u32 \<times> transport_message list) result list"
  dm_routes :: "(bytes \<times> bytes) list"
  dm_route_outcomes :: "unit result list"

definition on_link :: "(link, 'a) io \<Rightarrow> (daemon, 'a) io" where
  "on_link m d = (case m (dm_link d) of (r, l) \<Rightarrow> (r, d\<lparr>dm_link := l\<rparr>))"

text \<open>\<open>TransportDispatcher::register\<close>: the link is then that of the new session.\<close>

definition register :: "(daemon, u32) io" where
  "register d =
     (case dm_registrations d of
        [] \<Rightarrow> (Err dispatcher_stopped, d)
      | Ok (local_id, inbox) # rs \<Rightarrow>
          (Ok local_id, d\<lparr>dm_registrations := rs, dm_link := (dm_link d)\<lparr>ln_incoming := map Ok inbox\<rparr>\<rparr>)
      | Err e # rs \<Rightarrow> (Err e, d\<lparr>dm_registrations := rs\<rparr>)
      | Panic # rs \<Rightarrow> (Panic, d\<lparr>dm_registrations := rs\<rparr>))"

text \<open>\<open>TransportDispatcher::set_route\<close> and \<open>routes\<close>; at the end of the script requests are served.\<close>

definition route_request :: "(daemon, unit) io" where
  "route_request d =
     (case dm_route_outcomes d of
        [] \<Rightarrow> (Ok (), d)
      | r # rs \<Rightarrow> (r, d\<lparr>dm_route_outcomes := rs\<rparr>))"

definition set_route :: "bytes \<Rightarrow> bytes option \<Rightarrow> (daemon, unit) io" where
  "set_route remote near =
     seq_io route_request
       (\<lambda>d. (Ok (), d\<lparr>dm_routes := (case near of Some n \<Rightarrow> AList.update remote n | None \<Rightarrow> AList.delete remote) (dm_routes d)\<rparr>))"

definition routes :: "(daemon, (bytes \<times> bytes) list) io" where
  "routes = seq_io route_request (\<lambda>d. (Ok (dm_routes d), d))"

section \<open>Opening services\<close>

definition open_with :: "bytes \<Rightarrow> (u32 \<Rightarrow> rust_error) \<Rightarrow> (daemon, adb_session) io" where
  "open_with payload rejected =
     bind_io register (\<lambda>local_id.
     seq_io (on_link (transmit_new MC_Open local_id 0 payload))
     (bind_io (on_link receive) (\<lambda>response.
        lift (if msg_command response \<noteq> MC_Okay \<or> msg_arg1 response \<noteq> local_id then Err (rejected local_id)
              else Ok \<lparr>as_local_id = local_id, as_remote_id = msg_arg0 response\<rparr>))))"

definition open_service :: "bytes option \<Rightarrow> local_command \<Rightarrow> (daemon, adb_session) io" where
  "open_service term cmd =
     open_with (destination term cmd)
       (\<lambda>local_id. ADBRequestFailed (ascii ''open dispatched session failed: expected OKAY for '' @ show_nat (unat local_id)))"

definition open_destination :: "bytes \<Rightarrow> (daemon, adb_session) io" where
  "open_destination dest = open_with (dest @ [0]) (\<lambda>_. request_failed ''forward destination rejected'')"

section \<open>Commands\<close>

text \<open>Running a service that keeps a state of its own (an output, a file) beside the link.\<close>

definition serve_with ::
    "bytes option \<Rightarrow> local_command \<Rightarrow> (adb_session \<Rightarrow> 'o \<Rightarrow> link \<Rightarrow> unit result \<times> 'o \<times> link) \<Rightarrow> 'o \<Rightarrow> daemon \<Rightarrow> unit result \<times> 'o \<times> daemon" where
  "serve_with term cmd body out d =
     (case open_service term cmd d of
        (Err e, d') \<Rightarrow> (Err e, out, d')
      | (Panic, d') \<Rightarrow> (Panic, out, d')
      | (Ok a, d') \<Rightarrow> (case body a out (dm_link d') of (r, out', l) \<Rightarrow> (r, out', d'\<lparr>dm_link := l\<rparr>)))"

definition dispatched_shell :: "bytes option \<Rightarrow> bytes \<Rightarrow> sink option \<Rightarrow> daemon \<Rightarrow> unit result \<times> sink option \<times> daemon" where
  "dispatched_shell term command =
     serve_with term (ShellCommand command [ascii ''v2''])
       (\<lambda>a out l. case shell_v2_loop a out [] ([], l) of (r, out', s) \<Rightarrow> (r, out', snd s))"

definition dispatched_pull :: "bytes option \<Rightarrow> bytes \<Rightarrow> sink \<Rightarrow> daemon \<Rightarrow> unit result \<times> sink \<times> daemon" where
  "dispatched_pull term path = serve_with term Sync (\<lambda>a. service_pull a path)"

definition dispatched_push ::
    "bytes option \<Rightarrow> 's reader \<Rightarrow> 's \<Rightarrow> bytes \<Rightarrow> daemon \<Rightarrow> (unit result \<times> 's \<times> daemon) option" where
  "dispatched_push term rd s path d =
     (case open_service term Sync d of
        (Err e, d') \<Rightarrow> Some (Err e, s, d')
      | (Panic, d') \<Rightarrow> Some (Panic, s, d')
      | (Ok a, d') \<Rightarrow>
          map_option (\<lambda>(r, s', l). (r, s', d'\<lparr>dm_link := l\<rparr>)) (service_push a rd s path (dm_link d')))"

definition exec_out :: "bytes option \<Rightarrow> bytes \<Rightarrow> sink \<Rightarrow> daemon \<Rightarrow> unit result \<times> sink option \<times> daemon" where
  "exec_out term command out = serve_with term (Exec command) drain_to (Some out)"

text \<open>Services whose output nobody reads.\<close>

definition run_service :: "bytes option \<Rightarrow> local_command \<Rightarrow> (daemon, unit) io" where
  "run_service term cmd d = (case serve_with term cmd drain_to None d of (r, _, d') \<Rightarrow> (r, d'))"

definition dispatched_root :: "bytes option \<Rightarrow> (daemon, unit) io" where
  "dispatched_root term = run_service term Root"

definition dispatched_remount :: "bytes option \<Rightarrow> (daemon, unit) io" where
  "dispatched_remount term = run_service term Remount"

definition dispatched_tcpip :: "bytes option \<Rightarrow> u16 \<Rightarrow> (daemon, unit) io" where
  "dispatched_tcpip term port = run_service term (TcpIp port)"

section \<open>Reverse rules\<close>

text \<open>The response is collected in memory, so that writing it never fails.\<close>

definition reverse_command :: "bytes option \<Rightarrow> local_command \<Rightarrow> (daemon, unit) io" where
  "reverse_command term cmd d =
     (case serve_with term cmd drain_to (Some \<lparr>sk_script = [], sk_out = []\<rparr>) d of
        (Ok _, out, d') \<Rightarrow>
          (if starts_with (ascii ''OKAY'') (output_of out) then Ok ()
           else Err (ADBRequestFailed (ascii ''reverse failed: '' @ utf8_lossy (output_of out))), d')
      | (Err e, out, d') \<Rightarrow> (Err e, d')
      | (Panic, out, d') \<Rightarrow> (Panic, d'))"

definition nonzero_port :: "bytes \<Rightarrow> u16 option" where
  "nonzero_port near = Option.bind (tcp_port near) (\<lambda>port. if port \<noteq> 0 then Some port else None)"

definition dispatched_reverse_forward :: "bytes option \<Rightarrow> bytes \<Rightarrow> bytes \<Rightarrow> (daemon, unit) io" where
  "dispatched_reverse_forward term remote near =
     bind_io (lift (ok_or (request_failed ''reverse requires tcp:<port>'') (nonzero_port near))) (\<lambda>port.
     seq_io (set_route remote (Some (ascii ''tcp:'' @ show_nat (unat port))))
       (\<lambda>d. case reverse_command term (Reverse remote near) d of
           (Err e, d') \<Rightarrow> (Err e, snd (ignore (set_route remote None) d'))
         | r \<Rightarrow> r))"

definition dispatched_remove_reverse :: "bytes option \<Rightarrow> bytes \<Rightarrow> (daemon, unit) io" where
  "dispatched_remove_reverse term remote =
     seq_io (reverse_command term (ReverseRemove remote)) (set_route remote None)"

fun remove_reverse_routes :: "bytes option \<Rightarrow> (bytes \<times> bytes) list \<Rightarrow> (daemon, unit) io" where
  "remove_reverse_routes term [] = lift (Ok ())"
| "remove_reverse_routes term ((remote, _) # rs) =
     seq_io (dispatched_remove_reverse term remote) (remove_reverse_routes term rs)"

definition remove_all_reverse_routes :: "bytes option \<Rightarrow> (daemon, unit) io" where
  "remove_all_reverse_routes term = bind_io routes (remove_reverse_routes term)"

section \<open>What is drained\<close>

definition answers_to :: "adb_session \<Rightarrow> transport_message list \<Rightarrow> transport_message list" where
  "answers_to a ms = map (\<lambda>_. message_new MC_Okay (as_local_id a) (as_remote_id a) []) (writes_of ms)
     @ [message_new MC_Clse (as_local_id a) (as_remote_id a) []]"

definition service_stream :: "transport_message list \<Rightarrow> bool" where
  "service_stream ms \<longleftrightarrow> (\<forall>m \<in> set ms. msg_command m \<in> {MC_Write, MC_Okay})"

lemma acknowledge_OkD:
  "acknowledge a l = (Ok (), l') \<Longrightarrow> ln_incoming l' = ln_incoming l
     \<and> ln_sent l' = ln_sent l @ [message_new MC_Okay (as_local_id a) (as_remote_id a) []]"
  unfolding acknowledge_def by (blast dest: transmit_new_frame transmit_new_OkD)

lemma close_ack_OkD:
  "close_ack a l = (Ok (), l') \<Longrightarrow> ln_incoming l' = ln_incoming l
     \<and> ln_sent l' = ln_sent l @ [message_new MC_Clse (as_local_id a) (as_remote_id a) []]"
  unfolding close_ack_def by (blast dest: transmit_new_frame transmit_new_OkD)

lemma drain_to_sound:
  "drain_to a out l = (Ok (), out', l') \<Longrightarrow>
     \<exists>ms c. ln_incoming l = map Ok ms @ Ok c # ln_incoming l' \<and> service_stream ms \<and> msg_command c = MC_Clse
       \<and> (out' = None \<longleftrightarrow> out = None)
       \<and> (out \<noteq> None \<longrightarrow> output_of out' = output_of out @ concat (map tm_payload (writes_of ms)))
       \<and> ln_sent l' = ln_sent l @ answers_to a ms"
proof (induction a out l rule: drain_to.induct)
  case (1 a out l)
  obtain q l1 where q: "receive l = (q, l1)" by fastforce
  with "1.prems" obtain m where m: "q = Ok m"
    by (subst (asm) drain_to.simps) (cases q; simp)
  with receive_OkD q have inc: "ln_incoming l = Ok m # ln_incoming l1" "ln_sent l1 = ln_sent l" by blast+
  note run = "1.prems" [unfolded drain_to.simps [of a out l] q m]
  consider "msg_command m = MC_Write" | "msg_command m = MC_Okay" | "msg_command m = MC_Clse"
    using run by (cases "msg_command m") simp_all
  then show ?case
  proof cases
    case 1
    obtain w out1 where w: "write_output (tm_payload m) out = (w, out1)" by fastforce
    with run 1 have wo: "w = Ok ()" by (cases w) simp_all
    obtain k l2 where k: "acknowledge a l1 = (k, l2)" by fastforce
    with run 1 w wo have ko: "k = Ok ()" and rec: "drain_to a out1 l2 = (Ok (), out', l')"
      by (cases k; simp)+
    from "1.IH"(1) [OF q [symmetric] m 1 w [symmetric] wo k [symmetric] ko rec] obtain ms c
      where ih: "ln_incoming l2 = map Ok ms @ Ok c # ln_incoming l'" "service_stream ms" "msg_command c = MC_Clse"
        "out' = None \<longleftrightarrow> out1 = None"
        "out1 \<noteq> None \<longrightarrow> output_of out' = output_of out1 @ concat (map tm_payload (writes_of ms))"
        "ln_sent l' = ln_sent l2 @ answers_to a ms" by blast
    note wk = write_output_OkD [OF w [unfolded wo]] acknowledge_OkD [OF k [unfolded ko]]
    show ?thesis
      using inc ih wk 1 by (intro exI [of _ "m # ms"] exI [of _ c]) (auto simp: service_stream_def answers_to_def)
  next
    case 2
    with run have rec: "drain_to a out l1 = (Ok (), out', l')" by simp
    from "1.IH"(2) [OF q [symmetric] m 2 rec] obtain ms c
      where ih: "ln_incoming l1 = map Ok ms @ Ok c # ln_incoming l'" "service_stream ms" "msg_command c = MC_Clse"
        "out' = None \<longleftrightarrow> out = None"
        "out \<noteq> None \<longrightarrow> output_of out' = output_of out @ concat (map tm_payload (writes_of ms))"
        "ln_sent l' = ln_sent l1 @ answers_to a ms" by blast
    then show ?thesis
      using inc 2 by (intro exI [of _ "m # ms"] exI [of _ c]) (auto simp: service_stream_def answers_to_def)
  next
    case 3
    with run have "close_ack a l1 = (Ok (), l')" "out' = out" by (auto split: prod.splits)
    with close_ack_OkD inc 3 show ?thesis
      by (intro exI [of _ "[]"] exI [of _ m]) (auto simp: service_stream_def answers_to_def)
  qed
qed

lemma drain_to_complete:
  assumes "service_stream ms" and "msg_command c = MC_Clse"
  shows "ln_incoming l = map Ok ms @ Ok c # rs \<Longrightarrow> ln_outcomes l = [] \<Longrightarrow> sk_script k = [] \<Longrightarrow>
    drain_to a (Some k) l = (Ok (), Some (k\<lparr>sk_out := sk_out k @ concat (map tm_payload (writes_of ms))\<rparr>),
      l\<lparr>ln_incoming := rs, ln_sent := ln_sent l @ answers_to a ms\<rparr>)"
  using assms
proof (induction ms arbitrary: l k)
  case Nil
  then show ?case by (subst drain_to.simps) (simp add: close_ack_def answers_to_def)
next
  case (Cons m ms)
  let ?l = "l\<lparr>ln_incoming := map Ok ms @ Ok c # rs\<rparr>"
  have q: "receive l = (Ok m, ?l)" using Cons.prems(1) by simp
  have s: "service_stream ms" using Cons.prems(4) by (simp add: service_stream_def)
  consider "msg_command m = MC_Write" | "msg_command m = MC_Okay"
    using Cons.prems(4) by (auto simp: service_stream_def)
  then show ?case
  proof cases
    case 1
    let ?l2 = "?l\<lparr>ln_sent := ln_sent l @ [message_new MC_Okay (as_local_id a) (as_remote_id a) []]\<rparr>"
    have k: "acknowledge a ?l = (Ok (), ?l2)" using Cons.prems(2) by (simp add: acknowledge_def)
    have "drain_to a (Some k) l = drain_to a (Some (k\<lparr>sk_out := sk_out k @ tm_payload m\<rparr>)) ?l2"
      by (subst drain_to.simps) (simp add: q 1 write_output_def Cons.prems(3) k)
    also have "\<dots> = (Ok (), Some (k\<lparr>sk_out := sk_out k @ tm_payload m @ concat (map tm_payload (writes_of ms))\<rparr>),
        ?l2\<lparr>ln_incoming := rs, ln_sent := ln_sent ?l2 @ answers_to a ms\<rparr>)"
      using Cons.IH [of ?l2 "k\<lparr>sk_out := sk_out k @ tm_payload m\<rparr>"] Cons.prems(2,3,5) s by simp
    finally show ?thesis using 1 by (simp add: answers_to_def)
  next
    case 2
    have "drain_to a (Some k) l = drain_to a (Some k) ?l"
      by (subst drain_to.simps) (simp add: q 2)
    also have "\<dots> = (Ok (), Some (k\<lparr>sk_out := sk_out k @ concat (map tm_payload (writes_of ms))\<rparr>),
        ?l\<lparr>ln_incoming := rs, ln_sent := ln_sent ?l @ answers_to a ms\<rparr>)"
      using Cons.IH [of ?l k] Cons.prems(2,3,5) s by simp
    finally show ?thesis using 2 by (simp add: answers_to_def)
  qed
qed

text \<open>
  A service whose output is drained: it succeeds exactly when the device sends WRTEs and OKAYs up
  to a CLSE; the output then holds the payloads of the WRTEs in order, each of them was acknowledged
  and the CLSE answered.
\<close>

theorem drain_exact:
  assumes "ln_outcomes l = []" and "sk_script k = []"
  shows "drain_to a (Some k) l = (Ok (), out', l') \<longleftrightarrow>
    (\<exists>ms c rs. ln_incoming l = map Ok ms @ Ok c # rs \<and> service_stream ms \<and> msg_command c = MC_Clse
       \<and> out' = Some (k\<lparr>sk_out := sk_out k @ concat (map tm_payload (writes_of ms))\<rparr>)
       \<and> l' = l\<lparr>ln_incoming := rs, ln_sent := ln_sent l @ answers_to a ms\<rparr>)"
proof
  assume run: "drain_to a (Some k) l = (Ok (), out', l')"
  from drain_to_sound [OF run] obtain ms c
    where "ln_incoming l = map Ok ms @ Ok c # ln_incoming l'" "service_stream ms" "msg_command c = MC_Clse" by blast
  with drain_to_complete [OF this(2,3,1) assms, of a] run
  show "\<exists>ms c rs. ln_incoming l = map Ok ms @ Ok c # rs \<and> service_stream ms \<and> msg_command c = MC_Clse
       \<and> out' = Some (k\<lparr>sk_out := sk_out k @ concat (map tm_payload (writes_of ms))\<rparr>)
       \<and> l' = l\<lparr>ln_incoming := rs, ln_sent := ln_sent l @ answers_to a ms\<rparr>"
    by (intro exI [of _ ms] exI [of _ c] exI [of _ "ln_incoming l'"]) simp
qed (use drain_to_complete assms in blast)

theorem drain_exact_witness:
  "let l = \<lparr>ln_incoming = [Ok (message_new MC_Write 9 5 [7]), Ok (message_new MC_Clse 9 5 [])], ln_outcomes = [],
            ln_closed = TLSError, ln_sent = []\<rparr>;
       a = \<lparr>as_local_id = 5, as_remote_id = 9\<rparr>
   in drain_to a (Some \<lparr>sk_script = [], sk_out = []\<rparr>) l
      = (Ok (), Some \<lparr>sk_script = [], sk_out = [7]\<rparr>,
         l\<lparr>ln_incoming := [], ln_sent := [message_new MC_Okay 5 9 [], message_new MC_Clse 5 9 []]\<rparr>)"
  unfolding Let_def
  by (subst drain_exact, simp, simp, rule exI [where x = "[message_new MC_Write 9 5 [7]]"])
    (simp add: service_stream_def answers_to_def)

section \<open>Reverse rules stay in step with the device\<close>

lemma route_request_served: "dm_route_outcomes d = [] \<Longrightarrow> route_request d = (Ok (), d)"
  by (simp add: route_request_def)

lemma set_route_served:
  "dm_route_outcomes d = [] \<Longrightarrow> set_route remote near d =
     (Ok (), d\<lparr>dm_routes := (case near of Some n \<Rightarrow> AList.update remote n | None \<Rightarrow> AList.delete remote) (dm_routes d)\<rparr>)"
  by (simp add: set_route_def seq_io_Ok route_request_served)

text \<open>The dispatcher's table changes the way its own command says.\<close>

lemma set_route_mirrors_dispatcher:
  "dm_route_outcomes d = [] \<Longrightarrow> dm_routes d = dp_routes p \<Longrightarrow>
     dm_routes (snd (set_route remote near d)) = dp_routes (snd (handle_command (Route remote near) p))"
  by (cases near) (simp_all add: set_route_served)

definition routes_kept :: "daemon \<Rightarrow> daemon \<Rightarrow> bool" where
  "routes_kept d d' \<longleftrightarrow> dm_routes d' = dm_routes d \<and> dm_route_outcomes d' = dm_route_outcomes d"

lemma routes_kept_on_link: "on_link m d = (r, d') \<Longrightarrow> routes_kept d d'"
  by (auto simp: on_link_def routes_kept_def split: prod.splits)

lemma routes_kept_register: "register d = (r, d') \<Longrightarrow> routes_kept d d'"
  by (auto simp: register_def routes_kept_def split: list.splits outcome.splits)

lemma routes_kept_trans: "routes_kept d d1 \<Longrightarrow> routes_kept d1 d' \<Longrightarrow> routes_kept d d'"
  by (simp add: routes_kept_def)

lemma routes_kept_open: "open_with payload rejected d = (r, d') \<Longrightarrow> routes_kept d d'"
  unfolding open_with_def seq_io_def bind_io_def lift_def
  by (auto split: prod.splits outcome.splits
      dest!: routes_kept_register routes_kept_on_link intro: routes_kept_trans)

lemma routes_kept_serve: "serve_with term cmd body out d = (r, out', d') \<Longrightarrow> routes_kept d d'"
  unfolding serve_with_def open_service_def
  by (auto split: prod.splits outcome.splits dest!: routes_kept_open simp: routes_kept_def)

lemma routes_kept_reverse: "reverse_command term cmd d = (r, d') \<Longrightarrow> routes_kept d d'"
  unfolding reverse_command_def
  by (auto split: prod.splits outcome.splits dest: routes_kept_serve)

text \<open>The device has accepted a reverse command: the answer of its service begins with OKAY.\<close>

definition device_agreed :: "bytes option \<Rightarrow> local_command \<Rightarrow> daemon \<Rightarrow> bool" where
  "device_agreed term cmd d \<longleftrightarrow>
     (\<exists>a d1 ms c rs. open_service term cmd d = (Ok a, d1)
        \<and> ln_incoming (dm_link d1) = map Ok ms @ Ok c # rs \<and> service_stream ms \<and> msg_command c = MC_Clse
        \<and> starts_with (ascii ''OKAY'') (concat (map tm_payload (writes_of ms))))"

lemma reverse_command_OkD:
  assumes "reverse_command term cmd d = (Ok (), d')"
  shows "device_agreed term cmd d"
proof -
  from assms obtain out where run: "serve_with term cmd drain_to (Some \<lparr>sk_script = [], sk_out = []\<rparr>) d = (Ok (), out, d')"
    and ok: "starts_with (ascii ''OKAY'') (output_of out)"
    by (auto simp: reverse_command_def split: prod.splits outcome.splits if_splits)
  from run obtain a d1 l where "open_service term cmd d = (Ok a, d1)"
    "drain_to a (Some \<lparr>sk_script = [], sk_out = []\<rparr>) (dm_link d1) = (Ok (), out, l)"
    by (auto simp: serve_with_def split: prod.splits outcome.splits)
  with drain_to_sound [OF this(2)] ok show ?thesis
    unfolding device_agreed_def by (fastforce simp: output_of_def)
qed

text \<open>
  Installing a reverse rule is all or nothing while the dispatcher runs: on success the route of
  the remote endpoint leads to the requested non-zero port and the device has agreed; on failure there
  is no route for it; and in either case the routes of other endpoints are untouched.
\<close>

theorem reverse_rule_is_atomic:
  assumes "dispatched_reverse_forward term remote near d = (r, d')" and "dm_route_outcomes d = []"
  shows "(r = Ok () \<longrightarrow> (\<exists>port. nonzero_port near = Some port
        \<and> map_of (dm_routes d') remote = Some (ascii ''tcp:'' @ show_nat (unat port)))
        \<and> device_agreed term (Reverse remote near) (snd (set_route remote (map_of (dm_routes d') remote) d)))
    \<and> (\<forall>e. r = Err e \<longrightarrow> (if nonzero_port near = None then d' = d else map_of (dm_routes d') remote = None))
    \<and> (\<forall>q. q \<noteq> remote \<longrightarrow> map_of (dm_routes d') q = map_of (dm_routes d) q)"
proof (cases "nonzero_port near")
  case None
  with assms(1) show ?thesis by (auto simp: dispatched_reverse_forward_def)
next
  case (Some port)
  let ?near = "ascii ''tcp:'' @ show_nat (unat port)"
  let ?d = "d\<lparr>dm_routes := AList.update remote ?near (dm_routes d)\<rparr>"
  have set: "set_route remote (Some ?near) d = (Ok (), ?d)" using assms(2) by (simp add: set_route_served)
  obtain q d1 where q: "reverse_command term (Reverse remote near) ?d = (q, d1)" by fastforce
  from routes_kept_reverse [OF q] assms(2)
  have k: "dm_routes d1 = AList.update remote ?near (dm_routes d)" "dm_route_outcomes d1 = []"
    by (simp_all add: routes_kept_def)
  have run: "dispatched_reverse_forward term remote near d = (case q of
      Err e \<Rightarrow> (Err e, d1\<lparr>dm_routes := AList.delete remote (dm_routes d1)\<rparr>) | r \<Rightarrow> (r, d1))"
    using Some q set k(2)
    by (cases q) (simp_all add: dispatched_reverse_forward_def seq_io_def bind_io_def set ignore_def set_route_served del: ascii_Cons)
  show ?thesis
  proof (cases q)
    case (Ok u)
    with q have "device_agreed term (Reverse remote near) ?d" by (intro reverse_command_OkD) simp
    with run Ok assms(1) k(1) Some set show ?thesis by (auto simp: update_conv')
  next
    case (Err e)
    with run assms(1) k(1) Some show ?thesis by (auto simp: update_conv' delete_conv')
  next
    case Panic
    with run assms(1) k(1) Some show ?thesis by (auto simp: update_conv')
  qed
qed

theorem reverse_rule_is_atomic_witness:
  "let d = \<lparr>dm_link = example_link, dm_registrations = [], dm_routes = [], dm_route_outcomes = []\<rparr>
   in map_of (dm_routes (snd (dispatched_reverse_forward None [97] (ascii ''tcp:80'') d))) [98] = None"
proof -
  let ?d = "\<lparr>dm_link = example_link, dm_registrations = [], dm_routes = [], dm_route_outcomes = []\<rparr>"
  obtain r d' where run: "dispatched_reverse_forward None [97] (ascii ''tcp:80'') ?d = (r, d')" by fastforce
  from reverse_rule_is_atomic [OF this] have "map_of (dm_routes d') [98] = None" by simp
  with run show ?thesis by (simp add: Let_def)
qed

text \<open>
  A rule that fails to be replaced is gone: the host forgets the route the device still has.
\<close>

lemma failed_update_forgets_route:
  assumes "dm_routes d = [(remote, old)]" and "dm_registrations d = []" and "dm_route_outcomes d = []"
    and "nonzero_port near = Some port"
  shows "\<exists>e d'. dispatched_reverse_forward term remote near d = (Err e, d') \<and> dm_routes d' = []"
  using assms
  by (auto simp: dispatched_reverse_forward_def seq_io_def bind_io_def set_route_served reverse_command_def
      serve_with_def open_service_def open_with_def register_def ignore_def)

end
