(* ===== verification/Forwarding.thy ===== *)
theory Forwarding
  imports Dispatched_Device
begin

text \<open>
  Forwarding local ports to the device in \<^verbatim>\<open>message_devices/dispatched_device.rs\<close>: the connection
  that copies between a local socket and a stream of the device, and the registry of listeners with
  its stop flags, as a step relation over everything callers and listeners may do.
\<close>

section \<open>One connection\<close>

text \<open>
  What \<open>try_recv\<close> finds in the bounded queue the socket's reader fills: nothing yet, no reader any
  more, the end of the socket, or data.
\<close>

datatype queue_event = Queue_Empty | Queue_Gone | Queue_End | Queue_Data bytes

record forwarding =
  fo_session :: adb_session
  fo_pending :: bool
  fo_queue :: "queue_event list"
  fo_sink :: sink
  fo_link :: link

definition fo_on_link :: "(link, 'a) io \<Rightarrow> (forwarding, 'a) io" where
  "fo_on_link m f = (case m (fo_link f) of (r, l) \<Rightarrow> (r, f\<lparr>fo_link := l\<rparr>))"

definition fo_write_socket :: "bytes \<Rightarrow> (forwarding, unit) io" where
  "fo_write_socket bs f = (case write_all bs (fo_sink f) of (q, k) \<Rightarrow> (q, f\<lparr>fo_sink := k\<rparr>))"

definition fo_close :: "(forwarding, bool) io" where
  "fo_close f = seq_io (ignore (fo_on_link (close_ack (fo_session f)))) (lift (Ok False)) f"

text \<open>The queue is only looked at while no WRTE is outstanding.\<close>

definition forward_queue :: "(forwarding, bool) io" where
  "forward_queue f =
     (if fo_pending f then (Ok True, f)
      else case fo_queue f of
          [] \<Rightarrow> (Ok True, f)
        | Queue_Empty # q \<Rightarrow> (Ok True, f\<lparr>fo_queue := q\<rparr>)
        | Queue_Gone # q \<Rightarrow> (Ok False, f\<lparr>fo_queue := q\<rparr>)
        | Queue_End # q \<Rightarrow> fo_close (f\<lparr>fo_queue := q\<rparr>)
        | Queue_Data payload # q \<Rightarrow>
            seq_io (fo_on_link (transmit_new MC_Write (as_local_id (fo_session f)) (as_remote_id (fo_session f)) payload))
              (\<lambda>f. (Ok True, f\<lparr>fo_pending := True\<rparr>)) (f\<lparr>fo_queue := q\<rparr>))"

definition forward_packet :: "inbox_event \<Rightarrow> (forwarding, bool) io" where
  "forward_packet ev f =
     (case ev of
        Packet m \<Rightarrow>
          (case msg_command m of
             MC_Write \<Rightarrow> seq_io (fo_write_socket (tm_payload m)) (seq_io (fo_on_link (acknowledge (fo_session f))) (lift (Ok True))) f
           | MC_Okay \<Rightarrow> (Ok True, f\<lparr>fo_pending := False\<rparr>)
           | MC_Clse \<Rightarrow> fo_close f
           | _ \<Rightarrow> (Err (request_failed ''unexpected forward packet''), f))
      | Quiet \<Rightarrow> (Ok True, f)
      | Disconnected \<Rightarrow> (Err dispatcher_stopped, f))"

definition forward_round :: "inbox_event \<Rightarrow> (forwarding, bool) io" where
  "forward_round ev = bind_io forward_queue (\<lambda>on. if on then forward_packet ev else lift (Ok False))"

text \<open>At the end of the script the dispatcher has stopped.\<close>

fun forward_loop :: "inbox_event list \<Rightarrow> (forwarding, unit) io" where
  "forward_loop [] = lift (Err dispatcher_stopped)"
| "forward_loop (ev # evs) = bind_io (forward_round ev) (\<lambda>on. if on then forward_loop evs else lift (Ok ()))"

text \<open>The destination is opened before anything is read from the socket.\<close>

definition forward_connection ::
    "bytes \<Rightarrow> queue_event list \<Rightarrow> sink \<Rightarrow> inbox_event list \<Rightarrow> daemon \<Rightarrow> unit result \<times> sink \<times> daemon" where
  "forward_connection remote queue socket evs d =
     (case open_destination remote d of
        (Err e, d') \<Rightarrow> (Err e, socket, d')
      | (Panic, d') \<Rightarrow> (Panic, socket, d')
      | (Ok a, d') \<Rightarrow>
          (case forward_loop evs \<lparr>fo_session = a, fo_pending = False, fo_queue = queue, fo_sink = socket, fo_link = dm_link d'\<rparr> of
             (r, f) \<Rightarrow> (r, fo_sink f, d'\<lparr>dm_link := fo_link f\<rparr>)))"

text \<open>The thread that reads the socket: what it puts into the queue.\<close>

definition FORWARD_BUFFER :: nat where
  "FORWARD_BUFFER = 64 * 1024"

function forward_reader :: "source \<Rightarrow> queue_event list" where
  "forward_reader src =
     (case read_source FORWARD_BUFFER src of
        (Ok bs, src') \<Rightarrow> if bs = [] then [Queue_End] else Queue_Data bs # forward_reader src'
      | (Err e, src') \<Rightarrow>
          if (case e of IOError k _ \<Rightarrow> k \<in> {WouldBlock, TimedOut} | _ \<Rightarrow> False) then forward_reader src' else [Queue_End]
      | (Panic, src') \<Rightarrow> [Queue_End])"
  by pat_completeness auto

lemma read_source_consumes:
  "read_source n src = (r, src') \<Longrightarrow> 0 < n \<Longrightarrow> r \<noteq> Ok [] \<Longrightarrow>
     length src' + length (socket_bytes src') < length src + length (socket_bytes src)"
  by (cases "(n, src)" rule: read_source.cases) (auto split: if_splits)

termination forward_reader
  by (relation "measure (\<lambda>src. length src + length (socket_bytes src))")
    (auto dest!: read_source_consumes [OF sym] simp: FORWARD_BUFFER_def)

declare forward_reader.simps [simp del]

fun queue_bytes :: "queue_event list \<Rightarrow> bytes" where
  "queue_bytes [] = []"
| "queue_bytes (Queue_Data bs # q) = bs @ queue_bytes q"
| "queue_bytes (_ # q) = queue_bytes q"

text \<open>No byte of a socket that does not fail is left out, whatever time-outs it has.\<close>

lemma forward_reader_bytes:
  "\<forall>r \<in> set src. r \<notin> Failing ` (- {WouldBlock, TimedOut}) \<and> r \<noteq> Chunk [] \<Longrightarrow>
     queue_bytes (forward_reader src) = socket_bytes src"
proof (induction src rule: forward_reader.induct)
  case (1 src)
  show ?case
  proof (cases src)
    case Nil
    then show ?thesis by (simp add: forward_reader.simps)
  next
    case (Cons r rest)
    show ?thesis
    proof (cases r)
      case (Chunk bs)
      with Cons "1.prems" have ne: "bs \<noteq> []" by auto
      obtain b src' where rd: "read_source FORWARD_BUFFER src = (Ok b, src')" and b: "b \<noteq> []"
        and ok: "\<forall>r \<in> set src'. r \<notin> Failing ` (- {WouldBlock, TimedOut}) \<and> r \<noteq> Chunk []"
        using Cons Chunk ne "1.prems"
        by (cases "length bs \<le> FORWARD_BUFFER") (auto simp: FORWARD_BUFFER_def)
      from "1.IH"(1) [OF rd [symmetric] refl b ok] b rd read_source_socket_bytes [OF rd] show ?thesis
        by (subst forward_reader.simps) simp
    next
      case (Failing k)
      with Cons "1.prems" have k: "k = WouldBlock \<or> k = TimedOut" by auto
      have rd: "read_source FORWARD_BUFFER src = (Err (IOError k Os_Error), rest)" using Cons Failing by simp
      have "queue_bytes (forward_reader rest) = socket_bytes rest"
        using "1.IH"(2) [OF rd [symmetric] refl] k "1.prems" Cons by auto
      with rd k Cons Failing show ?thesis by (subst forward_reader.simps) auto
    qed
  qed
qed

section \<open>The account of a connection\<close>

definition forward_account :: "forwarding \<Rightarrow> account" where
  "forward_account f = \<lparr>ac_writes = writes_of (ln_sent (fo_link f)), ac_okays = length (okays_of (ln_sent (fo_link f))),
     ac_source = queue_bytes (fo_queue f), ac_output = sk_out (fo_sink f), ac_pending = fo_pending f\<rparr>"

lemma fo_transmit_cases:
  assumes "fo_on_link (transmit_new c i j bs) f = (q, f')"
  shows "fo_pending f' = fo_pending f \<and> fo_queue f' = fo_queue f \<and> fo_sink f' = fo_sink f \<and> fo_session f' = fo_session f
    \<and> ln_sent (fo_link f') = ln_sent (fo_link f) @ (if q = Ok () then [message_new c i j bs] else [])"
  using assms
  by (auto simp: fo_on_link_def transmit_new_def bind_io_def transmit_message_def
      split: prod.splits outcome.splits list.splits dest: message_try_new_OkD)

lemma fo_write_socket_cases:
  assumes "fo_write_socket bs f = (q, f')"
  shows "fo_pending f' = fo_pending f \<and> fo_queue f' = fo_queue f \<and> fo_link f' = fo_link f \<and> fo_session f' = fo_session f
    \<and> (q = Ok () \<longrightarrow> sk_out (fo_sink f') = sk_out (fo_sink f) @ bs)"
  using assms
  by (auto simp: fo_write_socket_def write_all_def split: prod.splits list.splits write_result.splits)

lemma fo_close_cases:
  assumes "fo_close f = (q, f')"
  shows "forward_account f' = forward_account f"
proof -
  obtain r f1 where "fo_on_link (close_ack (fo_session f)) f = (r, f1)" by fastforce
  from fo_transmit_cases [OF this [unfolded close_ack_def]] this assms show ?thesis
    by (cases r) (auto simp: fo_close_def seq_io_def bind_io_def ignore_def forward_account_def)
qed

lemma forward_queue_in_step:
  assumes "forward_queue f = (Ok on, f')"
  shows "in_step [] (forward_account f) (forward_account f')"
proof (cases "fo_pending f \<or> fo_queue f = []")
  case True
  with assms show ?thesis by (auto simp: forward_queue_def split: if_splits)
next
  case False
  then obtain e q where q: "fo_queue f = e # q" "\<not> fo_pending f" by (cases "fo_queue f") auto
  show ?thesis
  proof (cases e)
    case (Queue_Data bs)
    with assms q obtain f1 where
      s: "fo_on_link (transmit_new MC_Write (as_local_id (fo_session f)) (as_remote_id (fo_session f)) bs) (f\<lparr>fo_queue := q\<rparr>) = (Ok (), f1)"
      and f': "f' = f1\<lparr>fo_pending := True\<rparr>"
      by (auto simp: forward_queue_def elim!: seq_io_OkD)
    from fo_transmit_cases [OF s] f' q Queue_Data show ?thesis
      by (simp add: in_step_def flight_def forward_account_def)
  next
    case Queue_End
    with assms q have "fo_close (f\<lparr>fo_queue := q\<rparr>) = (Ok on, f')" by (simp add: forward_queue_def)
    from fo_close_cases [OF this] q Queue_End show ?thesis
      by (simp add: in_step_def flight_def forward_account_def)
  qed (use assms q in \<open>auto simp: forward_queue_def in_step_def flight_def forward_account_def\<close>)
qed

lemma forward_packet_in_step:
  assumes "forward_packet ev f = (Ok on, f')"
  shows "in_step (inbox_packets [ev]) (forward_account f) (forward_account f')"
proof (cases ev)
  case (Packet m)
  show ?thesis
  proof (cases "msg_command m")
    case MC_Write
    with assms Packet obtain f1 where w: "fo_write_socket (tm_payload m) f = (Ok (), f1)"
      and s: "fo_on_link (acknowledge (fo_session f)) f1 = (Ok (), f')"
      by (auto simp: forward_packet_def elim!: seq_io_OkD)
    from fo_write_socket_cases [OF w] fo_transmit_cases [OF s [unfolded acknowledge_def]] Packet MC_Write show ?thesis
      by (simp add: in_step_def flight_def forward_account_def)
  next
    case MC_Clse
    with assms Packet have "fo_close f = (Ok on, f')" by (simp add: forward_packet_def)
    from fo_close_cases [OF this] MC_Clse Packet show ?thesis by (simp add: in_step_def)
  qed (use assms Packet in \<open>auto simp: forward_packet_def in_step_def flight_def forward_account_def\<close>)
qed (use assms in \<open>auto simp: forward_packet_def in_step_def flight_def\<close>)

lemma forward_queue_flight:
  assumes "forward_queue f = (q, f')"
  shows "length (ac_writes (forward_account f')) + flight (forward_account f)
    \<le> length (ac_writes (forward_account f)) + flight (forward_account f')"
  using assms
  by (auto simp: forward_queue_def flight_def forward_account_def seq_io_def bind_io_def
      split: if_splits prod.splits outcome.splits list.splits queue_event.splits
      dest!: fo_transmit_cases fo_close_cases)

lemma forward_packet_flight:
  assumes "forward_packet ev f = (q, f')"
  shows "ac_writes (forward_account f') = ac_writes (forward_account f)
    \<and> flight (forward_account f) \<le> flight (forward_account f') + length (okays_of (inbox_packets [ev]))"
proof (cases "\<exists>m. ev = Packet m \<and> msg_command m = MC_Clse")
  case True
  with assms have "fo_close f = (q, f')" by (auto simp: forward_packet_def)
  from fo_close_cases [OF this] show ?thesis by simp
next
  case False
  with assms show ?thesis
    by (cases q; cases ev)
      (auto simp: forward_packet_def flight_def forward_account_def seq_io_def bind_io_def acknowledge_def
        split: message_command.splits prod.splits outcome.splits dest!: fo_transmit_cases fo_write_socket_cases)
qed

interpretation forwarding: copier forward_round forward_loop forward_account
proof unfold_locales
  fix ev f on f'
  assume "forward_round ev f = (Ok on, f')"
  then obtain on1 f1 where q: "forward_queue f = (Ok on1, f1)"
    and k: "(if on1 then forward_packet ev else lift (Ok False)) f1 = (Ok on, f')"
    unfolding forward_round_def by (rule bind_io_OkD)
  show "in_step (inbox_packets [ev]) (forward_account f) (forward_account f')
      \<or> (\<not> on \<and> in_step [] (forward_account f) (forward_account f'))"
  proof (cases on1)
    case True
    with k have "forward_packet ev f1 = (Ok on, f')" by simp
    from in_step_trans [OF forward_queue_in_step [OF q] forward_packet_in_step [OF this]] show ?thesis by simp
  next
    case False
    with k forward_queue_in_step [OF q] show ?thesis by simp
  qed
next
  fix ev f q f'
  assume run: "forward_round ev f = (q, f')"
  obtain q1 f1 where a: "forward_queue f = (q1, f1)" by fastforce
  obtain q2 f2 where b: "forward_packet ev f1 = (q2, f2)" by fastforce
  have "f' = f1 \<or> f' = f2"
    using run a b by (auto simp: forward_round_def bind_io_def split: outcome.splits if_splits)
  with forward_queue_flight [OF a] forward_packet_flight [OF b]
  show "length (ac_writes (forward_account f')) + flight (forward_account f)
      \<le> length (ac_writes (forward_account f)) + flight (forward_account f') + length (okays_of (inbox_packets [ev]))"
    by auto
next
  fix ev evs f q f'
  obtain p f1 where p: "forward_round ev f = (p, f1)" by fastforce
  assume "forward_loop (ev # evs) f = (q, f')"
  with p show "\<exists>p f1. forward_round ev f = (p, f1)
      \<and> (if p = Ok True then forward_loop evs f1 = (q, f') else f' = f1 \<and> (q = Ok () \<longrightarrow> p = Ok False))"
    by (cases p) (auto simp: bind_io_def split: if_splits)
qed simp

text \<open>
  C40: a forwarded connection never has two WRTEs without an OKAY, so that no byte of the local socket
  is sent before the device has taken the one before: however the connection ends, the WRTEs sent are
  at most one more than the OKAYs received; and when it ends without an error, every byte taken from
  the queue was sent, every payload received was written to the socket, and each was acknowledged.
\<close>

theorem forward_connection_copies:
  assumes "forward_loop evs f = (q, f')"
  shows "length (writes_of (ln_sent (fo_link f'))) + (if fo_pending f then 1 else 0)
      \<le> length (writes_of (ln_sent (fo_link f))) + length (okays_of (inbox_packets evs)) + 1
    \<and> (q = Ok () \<longrightarrow> (\<exists>es rest ws. evs = es @ rest
        \<and> writes_of (ln_sent (fo_link f')) = writes_of (ln_sent (fo_link f)) @ ws
        \<and> queue_bytes (fo_queue f) = concat (map tm_payload ws) @ queue_bytes (fo_queue f')
        \<and> sk_out (fo_sink f') = sk_out (fo_sink f) @ concat (map tm_payload (writes_of (inbox_packets es)))
        \<and> length (okays_of (ln_sent (fo_link f'))) = length (okays_of (ln_sent (fo_link f))) + length (writes_of (inbox_packets es))))"
proof
  show "length (writes_of (ln_sent (fo_link f'))) + (if fo_pending f then 1 else 0)
      \<le> length (writes_of (ln_sent (fo_link f))) + length (okays_of (inbox_packets evs)) + 1"
    using forwarding.one_in_flight [OF assms] by (simp add: forward_account_def flight_def split: if_splits)
  show "q = Ok () \<longrightarrow> (\<exists>es rest ws. evs = es @ rest
        \<and> writes_of (ln_sent (fo_link f')) = writes_of (ln_sent (fo_link f)) @ ws
        \<and> queue_bytes (fo_queue f) = concat (map tm_payload ws) @ queue_bytes (fo_queue f')
        \<and> sk_out (fo_sink f') = sk_out (fo_sink f) @ concat (map tm_payload (writes_of (inbox_packets es)))
        \<and> length (okays_of (ln_sent (fo_link f'))) = length (okays_of (ln_sent (fo_link f))) + length (writes_of (inbox_packets es)))"
    using forwarding.copies [of evs f f'] assms by (auto simp: in_step_def forward_account_def)
qed

text \<open>A connection with two pieces of data of which only the first may go out.\<close>

definition example_forwarding :: forwarding where
  "example_forwarding = \<lparr>fo_session = \<lparr>as_local_id = 5, as_remote_id = 9\<rparr>, fo_pending = False,
     fo_queue = [Queue_Data [1], Queue_Data [2]], fo_sink = \<lparr>sk_script = [], sk_out = []\<rparr>,
     fo_link = \<lparr>ln_incoming = [], ln_outcomes = [], ln_closed = TLSError, ln_sent = []\<rparr>\<rparr>"

theorem forward_connection_copies_witness:
  "length (writes_of (ln_sent (fo_link (snd (forward_loop [Quiet, Quiet, Packet (message_new MC_Write 9 5 [3])] example_forwarding))))) \<le> 1"
  using forward_connection_copies [of "[Quiet, Quiet, Packet (message_new MC_Write 9 5 [3])]" example_forwarding, OF prod.collapse [symmetric]]
  by (simp only: example_forwarding_def forwarding.simps link.simps writes_of_simps okays_of_simps inbox_packets.simps) simp

section \<open>The registry of listeners\<close>

text \<open>An endpoint as the tools write it is read back.\<close>

lemma tcp_port_show: "tcp_port (ascii ''tcp:'' @ show_nat (unat p)) = Some p"
  using unat_less_u16 [of p]
  by (simp add: tcp_port_def strip_prefix_def starts_with_def parse_uint_show del: ascii_Cons)


text \<open>A stop flag is a number; setting it is seen by every holder.\<close>

record forwards =
  fw_routes :: "(bytes \<times> bytes \<times> nat) list"
  fw_stopped :: "nat \<Rightarrow> bool"
  fw_next_flag :: nat

definition no_forwards :: forwards where
  "no_forwards = \<lparr>fw_routes = [], fw_stopped = (\<lambda>_. False), fw_next_flag = 0\<rparr>"

text \<open>The beginning of \<open>serve_forward\<close>, up to the moment the listener is ready; \<open>bound\<close> is what binding the port yields.\<close>

definition begin_forward :: "unit result \<Rightarrow> bytes \<Rightarrow> bytes \<Rightarrow> (forwards, nat) io" where
  "begin_forward bound near remote w =
     (case tcp_port near of
        None \<Rightarrow> (Err (request_failed ''forward requires tcp:<port>''), w)
      | Some port \<Rightarrow>
          if port = 0 \<or> map_of (fw_routes w) near \<noteq> None then
            (Err (request_failed ''forward requires an unused nonzero TCP port''), w)
          else bind_io (lift bound) (\<lambda>_ w.
            (Ok (fw_next_flag w),
             w\<lparr>fw_routes := AList.update near (remote, fw_next_flag w) (fw_routes w), fw_next_flag := fw_next_flag w + 1\<rparr>)) w)"

text \<open>Its end, after the accept loop was left because of the flag.\<close>

definition end_forward :: "bytes \<Rightarrow> nat \<Rightarrow> forwards \<Rightarrow> forwards" where
  "end_forward near flag w =
     (case map_of (fw_routes w) near of
        Some (_, f) \<Rightarrow> if f = flag then w\<lparr>fw_routes := AList.delete near (fw_routes w)\<rparr> else w
      | None \<Rightarrow> w)"

definition forward_routes :: "forwards \<Rightarrow> (bytes \<times> bytes) list" where
  "forward_routes w = map (\<lambda>(near, remote, _). (near, remote)) (fw_routes w)"

definition remove_forward :: "bytes \<Rightarrow> forwards \<Rightarrow> bool \<times> forwards" where
  "remove_forward near w =
     (case map_of (fw_routes w) near of
        Some (_, flag) \<Rightarrow>
          (True, w\<lparr>fw_routes := AList.delete near (fw_routes w), fw_stopped := (fw_stopped w)(flag := True)\<rparr>)
      | None \<Rightarrow> (False, w))"

definition remove_all_forwards :: "forwards \<Rightarrow> nat \<times> forwards" where
  "remove_all_forwards w =
     (length (fw_routes w),
      w\<lparr>fw_routes := [], fw_stopped := (\<lambda>f. fw_stopped w f \<or> f \<in> (snd \<circ> snd) ` set (fw_routes w))\<rparr>)"

text \<open>A turn of the accept loop: after every \<open>accept\<close>, whatever it yields, the flag is looked at first.\<close>

datatype accepted = Connection | No_Connection | Accept_Failed io_kind

datatype loop_exit = Go_On | Stop | Failed rust_error

definition accept_turn :: "nat \<Rightarrow> accepted \<Rightarrow> forwards \<Rightarrow> loop_exit" where
  "accept_turn flag ev w =
     (if fw_stopped w flag then Stop
      else case ev of
          Accept_Failed k \<Rightarrow> if k = WouldBlock then Go_On else Failed (IOError k Os_Error)
        | _ \<Rightarrow> Go_On)"

text \<open>
  The registry with the listeners that are in their accept loop, each with its endpoint, its remote
  and its flag. Any thread may start a listener or remove routes at any moment, between any two turns.
\<close>

record forward_system =
  fs_registry :: forwards
  fs_listeners :: "(bytes \<times> bytes \<times> nat) set"

inductive forward_step :: "forward_system \<Rightarrow> forward_system \<Rightarrow> bool" where
  start: "begin_forward bound near remote (fs_registry s) = (Ok flag, w) \<Longrightarrow>
    forward_step s \<lparr>fs_registry = w, fs_listeners = insert (near, remote, flag) (fs_listeners s)\<rparr>"
| stop: "(near, remote, flag) \<in> fs_listeners s \<Longrightarrow> accept_turn flag ev (fs_registry s) = Stop \<Longrightarrow>
    forward_step s \<lparr>fs_registry = end_forward near flag (fs_registry s), fs_listeners = fs_listeners s - {(near, remote, flag)}\<rparr>"
| serve: "(near, remote, flag) \<in> fs_listeners s \<Longrightarrow> accept_turn flag ev (fs_registry s) = Go_On \<Longrightarrow> forward_step s s"
| remove: "forward_step s (s\<lparr>fs_registry := snd (remove_forward near (fs_registry s))\<rparr>)"
| remove_all: "forward_step s (s\<lparr>fs_registry := snd (remove_all_forwards (fs_registry s))\<rparr>)"

inductive accept_failure :: "forward_system \<Rightarrow> forward_system \<Rightarrow> bool" where
  "(near, remote, flag) \<in> fs_listeners s \<Longrightarrow> accept_turn flag ev (fs_registry s) = Failed e \<Longrightarrow>
    accept_failure s (s\<lparr>fs_listeners := fs_listeners s - {(near, remote, flag)}\<rparr>)"

inductive forward_run :: "forward_system \<Rightarrow> bool" where
  empty: "forward_run \<lparr>fs_registry = no_forwards, fs_listeners = {}\<rparr>"
| step: "forward_run s \<Longrightarrow> forward_step s s' \<Longrightarrow> forward_run s'"

text \<open>The invariant: the routes are those of the listeners that have not been told to stop.\<close>

definition forwards_wf :: "forward_system \<Rightarrow> bool" where
  "forwards_wf s \<longleftrightarrow>
     distinct (map fst (fw_routes (fs_registry s)))
     \<and> set (fw_routes (fs_registry s)) = {x \<in> fs_listeners s. \<not> fw_stopped (fs_registry s) (snd (snd x))}
     \<and> (\<forall>x \<in> fs_listeners s. snd (snd x) < fw_next_flag (fs_registry s)
          \<and> (\<exists>port. tcp_port (fst x) = Some port \<and> port \<noteq> 0))
     \<and> inj_on (snd \<circ> snd) (fs_listeners s)
     \<and> (\<forall>f. fw_stopped (fs_registry s) f \<longrightarrow> f < fw_next_flag (fs_registry s))"

lemma set_delete_distinct:
  "distinct (map fst xs) \<Longrightarrow> set (AList.delete k xs) = {x \<in> set xs. fst x \<noteq> k}"
  by (auto simp: AList.delete_eq)

lemma set_update_fresh:
  "map_of xs k = None \<Longrightarrow> set (AList.update k v xs) = insert (k, v) (set xs)"
  by (induction xs) auto

lemma forwards_wf_start:
  assumes "forwards_wf s" and "begin_forward bound near remote (fs_registry s) = (Ok flag, w)"
  shows "forwards_wf \<lparr>fs_registry = w, fs_listeners = insert (near, remote, flag) (fs_listeners s)\<rparr>"
proof -
  let ?w = "fs_registry s"
  have none: "map_of (fw_routes ?w) near = None"
    using assms(2) by (cases "map_of (fw_routes ?w) near") (auto simp: begin_forward_def split: option.splits if_splits)
  with assms(2) obtain port where p: "tcp_port near = Some port" "port \<noteq> 0"
    and w: "flag = fw_next_flag ?w" "w = ?w\<lparr>fw_routes := AList.update near (remote, flag) (fw_routes ?w), fw_next_flag := flag + 1\<rparr>"
    by (cases "tcp_port near") (auto simp: begin_forward_def split: if_splits elim!: bind_io_OkD)
  have fresh: "\<forall>x \<in> fs_listeners s. snd (snd x) < flag" "\<not> fw_stopped ?w flag"
    using assms(1) w(1) by (auto simp: forwards_wf_def)
  have "set (fw_routes w) = insert (near, remote, flag) (set (fw_routes ?w))"
    using w(2) none by (simp add: set_update_fresh)
  moreover have "distinct (map fst (fw_routes w))"
    using w(2) assms(1) by (simp add: forwards_wf_def distinct_update)
  moreover have "inj_on (snd \<circ> snd) (insert (near, remote, flag) (fs_listeners s))"
    using assms(1) fresh(1) by (fastforce simp: forwards_wf_def)
  ultimately show ?thesis
    using assms(1) w p fresh by (auto simp: forwards_wf_def less_Suc_eq)
qed

lemma map_of_distinct_Some: "distinct (map fst xs) \<Longrightarrow> map_of xs k = Some v \<longleftrightarrow> (k, v) \<in> set xs"
  by (meson map_of_SomeD map_of_is_SomeI)

lemma forwards_wf_stop:
  assumes "forwards_wf s" and "(near, remote, flag) \<in> fs_listeners s" and "fw_stopped (fs_registry s) flag"
  shows "end_forward near flag (fs_registry s) = fs_registry s"
    and "forwards_wf \<lparr>fs_registry = fs_registry s, fs_listeners = fs_listeners s - {(near, remote, flag)}\<rparr>"
proof -
  have "(near, r, flag) \<notin> set (fw_routes (fs_registry s))" for r
    using assms(1,3) by (auto simp: forwards_wf_def)
  then show "end_forward near flag (fs_registry s) = fs_registry s"
    using assms(1) by (auto simp: end_forward_def forwards_wf_def map_of_distinct_Some split: option.splits)
  show "forwards_wf \<lparr>fs_registry = fs_registry s, fs_listeners = fs_listeners s - {(near, remote, flag)}\<rparr>"
    using assms by (auto simp: forwards_wf_def inj_on_diff)
qed

lemma forwards_wf_remove:
  assumes "forwards_wf s"
  shows "forwards_wf (s\<lparr>fs_registry := snd (remove_forward near (fs_registry s))\<rparr>)"
proof (cases "map_of (fw_routes (fs_registry s)) near")
  case None
  with assms show ?thesis by (simp add: remove_forward_def)
next
  case (Some v)
  let ?w = "fs_registry s"
  obtain remote flag where v: "v = (remote, flag)" by fastforce
  have r: "snd (remove_forward near ?w)
      = ?w\<lparr>fw_routes := AList.delete near (fw_routes ?w), fw_stopped := (fw_stopped ?w)(flag := True)\<rparr>"
    using Some v by (simp add: remove_forward_def)
  have d: "distinct (map fst (fw_routes ?w))" and inj: "inj_on (snd \<circ> snd) (fs_listeners s)"
    and set: "set (fw_routes ?w) = {x \<in> fs_listeners s. \<not> fw_stopped ?w (snd (snd x))}"
    using assms by (simp_all add: forwards_wf_def)
  from Some v d have m: "(near, remote, flag) \<in> set (fw_routes ?w)" by (simp add: map_of_distinct_Some)
  with set have l: "(near, remote, flag) \<in> fs_listeners s" by simp
  have same: "fst x = near \<longleftrightarrow> snd (snd x) = flag" if "x \<in> set (fw_routes ?w)" for x
  proof
    assume "fst x = near"
    with that m d have "x = (near, remote, flag)" by (metis eq_key_imp_eq_value prod.collapse)
    then show "snd (snd x) = flag" by simp
  next
    assume "snd (snd x) = flag"
    moreover have "x \<in> fs_listeners s" using that set by simp
    ultimately have "x = (near, remote, flag)" using inj_onD [OF inj _ _ l, of x] by simp
    then show "fst x = near" by simp
  qed
  have "set (AList.delete near (fw_routes ?w)) = {x \<in> fs_listeners s. \<not> fw_stopped ?w (snd (snd x)) \<and> snd (snd x) \<noteq> flag}"
    unfolding set_delete_distinct [OF d] using same set by blast
  moreover have "distinct (map fst (AList.delete near (fw_routes ?w)))" using d by (simp add: distinct_delete)
  moreover have "flag < fw_next_flag ?w" using l assms by (auto simp: forwards_wf_def)
  ultimately show ?thesis
    using assms unfolding forwards_wf_def r by auto
qed

lemma forwards_wf_remove_all:
  assumes "forwards_wf s"
  shows "forwards_wf (s\<lparr>fs_registry := snd (remove_all_forwards (fs_registry s))\<rparr>)"
  using assms by (auto simp: remove_all_forwards_def forwards_wf_def image_iff)

lemma forward_run_wf: "forward_run s \<Longrightarrow> forwards_wf s"
proof (induction rule: forward_run.induct)
  case empty
  then show ?case by (simp add: forwards_wf_def no_forwards_def)
next
  case (step s s')
  from step.hyps(2) show ?case
  proof (cases rule: forward_step.cases)
    case start
    with forwards_wf_start [OF step.IH] show ?thesis by simp
  next
    case (stop near remote flag ev)
    then have "fw_stopped (fs_registry s) flag"
      by (auto simp: accept_turn_def split: if_splits accepted.splits)
    with forwards_wf_stop [OF step.IH stop(2)] stop(1) show ?thesis by simp
  qed (use step.IH forwards_wf_remove forwards_wf_remove_all in simp_all)
qed

text \<open>
  In every reachable state, the registered forwards are exactly those of the running listeners
  that have not been told to stop, one for each local endpoint, and every endpoint names a non-zero
  port: removing a route stops its own listener and no other, and a listener that stops late does not
  take with it the route that has replaced its own.
\<close>

theorem forwards_match_listeners:
  assumes "forward_run s"
  shows "distinct (map fst (fw_routes (fs_registry s)))
    \<and> (\<forall>near remote flag. (near, remote, flag) \<in> set (fw_routes (fs_registry s))
          \<longleftrightarrow> (near, remote, flag) \<in> fs_listeners s \<and> \<not> fw_stopped (fs_registry s) flag)
    \<and> (\<forall>near remote. (near, remote) \<in> set (forward_routes (fs_registry s)) \<longrightarrow> (\<exists>port. tcp_port near = Some port \<and> port \<noteq> 0))"
  using forward_run_wf [OF assms] by (auto simp: forwards_wf_def forward_routes_def)

text \<open>A first listener, on \<open>tcp:80\<close>.\<close>

definition example_endpoint :: bytes where
  "example_endpoint = ascii ''tcp:'' @ show_nat 80"

definition example_forwards :: forward_system where
  "example_forwards = \<lparr>fs_registry = snd (begin_forward (Ok ()) example_endpoint [97] no_forwards),
     fs_listeners = {(example_endpoint, [97], 0)}\<rparr>"

theorem forwards_match_listeners_witness:
  "forward_run example_forwards \<and> (example_endpoint, [97], 0) \<in> set (fw_routes (fs_registry example_forwards))"
proof -
  let ?s = "\<lparr>fs_registry = no_forwards, fs_listeners = {}\<rparr>"
  have port: "tcp_port example_endpoint = Some 80"
    unfolding example_endpoint_def using tcp_port_show [of 80] by simp
  have b: "begin_forward (Ok ()) example_endpoint [97] no_forwards
      = (Ok 0, \<lparr>fw_routes = [(example_endpoint, [97], 0)], fw_stopped = (\<lambda>_. False), fw_next_flag = 1\<rparr>)"
    unfolding begin_forward_def port by (simp add: no_forwards_def)
  have e: "example_forwards = \<lparr>fs_registry = \<lparr>fw_routes = [(example_endpoint, [97], 0)], fw_stopped = (\<lambda>_. False), fw_next_flag = 1\<rparr>,
      fs_listeners = {(example_endpoint, [97], 0)}\<rparr>"
    by (simp add: example_forwards_def b)
  have "begin_forward (Ok ()) example_endpoint [97] (fs_registry ?s)
      = (Ok 0, \<lparr>fw_routes = [(example_endpoint, [97], 0)], fw_stopped = (\<lambda>_. False), fw_next_flag = 1\<rparr>)"
    using b by simp
  from forward_step.start [OF this] have "forward_step ?s example_forwards" by (simp add: e)
  then have run: "forward_run example_forwards" by (rule forward_run.step [OF forward_run.empty])
  have "(example_endpoint, [97], 0) \<in> fs_listeners example_forwards" "\<not> fw_stopped (fs_registry example_forwards) 0"
    by (simp_all add: e)
  with forwards_match_listeners [OF run] run show ?thesis by blast
qed

text \<open>
  A listener whose \<open>accept\<close> fails is gone, but returns before it removes its route: the endpoint stays
  registered, and cannot be forwarded again, though nothing listens on it.
\<close>

lemma accept_failure_leaves_route:
  assumes "forward_run s" and "fs_listeners s = {(near, remote, flag)}" and "\<not> fw_stopped (fs_registry s) flag"
  shows "\<exists>s'. accept_failure s s' \<and> fs_listeners s' = {} \<and> (near, remote, flag) \<in> set (fw_routes (fs_registry s'))"
proof -
  have "accept_turn flag (Accept_Failed OtherKind) (fs_registry s) = Failed (IOError OtherKind Os_Error)"
    using assms(3) by (simp add: accept_turn_def)
  with assms(2) have f: "accept_failure s (s\<lparr>fs_listeners := fs_listeners s - {(near, remote, flag)}\<rparr>)"
    by (intro accept_failure.intros) auto
  moreover have "(near, remote, flag) \<in> set (fw_routes (fs_registry s))"
    using forward_run_wf [OF assms(1)] assms(2,3) by (simp add: forwards_wf_def)
  ultimately show ?thesis
    using assms(2) by (intro exI [of _ "s\<lparr>fs_listeners := fs_listeners s - {(near, remote, flag)}\<rparr>"]) simp
qed

end
