(* ===== verification/Server_Transport.thy ===== *)
theory Server_Transport
  imports Client_Models Message_Transport
begin

text \<open>
  \<^verbatim>\<open>adb_client/src/server/tcp_server_transport.rs\<close>: the connection to an ADB server. A request is a
  length of four hexadecimal digits and a text; the server answers OKAY or FAIL and, where one is
  asked for, a body with a length of the same form.
\<close>

section \<open>Sockets\<close>

text \<open>
  A socket is what its reads will find and what was written to it. Once it is shut down, reads are at
  the end and writes fail.
\<close>

record server_socket =
  so_in :: source
  so_out :: sink
  so_shut :: bool

definition so_read :: "server_socket reader" where
  "so_read n s = (if so_shut s then (Ok [], s) else case read_source n (so_in s) of (r, i) \<Rightarrow> (r, s\<lparr>so_in := i\<rparr>))"

definition so_write_all :: "bytes \<Rightarrow> (server_socket, unit) io" where
  "so_write_all bs s =
     (if so_shut s then (Err (IOError OtherKind Os_Error), s)
      else case write_all bs (so_out s) of (r, k) \<Rightarrow> (r, s\<lparr>so_out := k\<rparr>))"

definition shut_down :: "server_socket \<Rightarrow> server_socket" where
  "shut_down s = s\<lparr>so_shut := True\<rparr>"

lemma read_source_error_shrinks:
  "read_source n src = (Err e, src') \<Longrightarrow> length src' < length src"
  by (cases "(n, src)" rule: read_source.cases) (auto split: if_splits)

lemma read_source_length:
  "read_source n src = (r, src') \<Longrightarrow> length src' \<le> length src"
  by (cases "(n, src)" rule: read_source.cases) (auto split: if_splits)

lemma shorter: "bs \<noteq> [] \<Longrightarrow> n \<noteq> 0 \<Longrightarrow> l' \<le> l \<Longrightarrow> n - length bs + l' < n + (l :: nat)"
  by (cases bs) auto

text \<open>
  \<open>read_exact\<close> on a source ends for every buffer, because a source is a finite script: this is the
  function it computes.
\<close>

function read_full :: "nat \<Rightarrow> source \<Rightarrow> bytes result \<times> source" where
  "read_full n src =
     (if n = 0 then (Ok [], src)
      else case read_source n src of
        (Ok bs, src') \<Rightarrow>
          if bs = [] then (Err (IOError UnexpectedEof (Message (ascii ''failed to fill whole buffer''))), src')
          else (case read_full (n - length bs) src' of (r, src2) \<Rightarrow>
              (case r of Ok others \<Rightarrow> Ok (bs @ others) | Err e \<Rightarrow> Err e | Panic \<Rightarrow> Panic, src2))
      | (Err e, src') \<Rightarrow>
          if (case e of IOError Interrupted _ \<Rightarrow> True | _ \<Rightarrow> False) then read_full n src' else (Err e, src')
      | (Panic, src') \<Rightarrow> (Panic, src'))"
  by pat_completeness auto
termination
  by (relation "measure (\<lambda>(n, src). n + length src)")
    (auto intro: shorter dest: read_source_length [OF sym] read_source_error_shrinks [OF sym])

declare read_full.simps [simp del]

lemma read_exact_read_full: "read_exact read_source n src = Some (read_full n src)"
proof (induction n src rule: read_full.induct)
  case (1 n src)
  show ?case
  proof (cases "n = 0")
    case False
    obtain r src' where r: "read_source n src = (r, src')" by (meson surj_pair)
    show ?thesis
    proof (cases r)
      case (Ok bs)
      show ?thesis
      proof (cases "bs = []")
        case True
        with r Ok False show ?thesis by (subst read_exact.simps, subst read_full.simps) simp
      next
        case nonempty: False
        from 1(1) [OF False r [symmetric, unfolded Ok] refl nonempty] r Ok nonempty False
        show ?thesis
          by (subst read_exact.simps, subst read_full.simps) (simp split: prod.split)
      qed
    next
      case (Err e)
      with 1(2) [OF False r [symmetric]] r False show ?thesis
        by (subst read_exact.simps, subst read_full.simps) auto
    next
      case Panic
      with r False show ?thesis by (subst read_exact.simps, subst read_full.simps) simp
    qed
  qed (simp add: read_exact.simps read_full.simps)
qed

lemma read_full_content:
  assumes "flowing src" and "source_bytes src = xs @ rest"
  shows "\<exists>src'. read_full (length xs) src = (Ok xs, src') \<and> source_bytes src' = rest \<and> flowing src'"
  using source.read_exact_content [OF assms] by (simp add: read_exact_read_full)

lemma read_full_short:
  assumes "flowing src" and "length (source_bytes src) < n"
  shows "\<exists>e src'. read_full n src = (Err e, src')"
  using source.read_exact_short [OF assms] by (simp add: read_exact_read_full)

definition so_read_exact :: "nat \<Rightarrow> (server_socket, bytes) io" where
  "so_read_exact n s =
     (if so_shut s then
        (if n = 0 then Ok [] else Err (IOError UnexpectedEof (Message (ascii ''failed to fill whole buffer''))), s)
      else case read_full n (so_in s) of (r, i) \<Rightarrow> (r, s\<lparr>so_in := i\<rparr>))"

section \<open>Connecting\<close>

text \<open>
  The transport holds its current socket; \<open>st_dials\<close> is what the next attempts to connect to the
  server will give, \<open>st_past\<close> the sockets of earlier connections.
\<close>

record server_transport =
  st_socket :: "server_socket option"
  st_dials :: "server_socket result list"
  st_past :: "server_socket list"

definition server_connect :: "(server_transport, unit) io" where
  "server_connect t =
     (let previous = map_option shut_down (st_socket t);
          dialled = (case st_dials t of [] \<Rightarrow> Err (IOError OtherKind Os_Error) | d # _ \<Rightarrow> d);
          t' = t\<lparr>st_socket := previous, st_dials := tl (st_dials t)\<rparr>
      in case dialled of
           Ok s \<Rightarrow> (Ok (), t'\<lparr>st_socket := Some s,
             st_past := st_past t @ (case previous of None \<Rightarrow> [] | Some p \<Rightarrow> [p])\<rparr>)
         | Err e \<Rightarrow> (Err e, t')
         | Panic \<Rightarrow> (Panic, t'))"

definition server_disconnect :: "(server_transport, unit) io" where
  "server_disconnect t = (Ok (), t\<lparr>st_socket := map_option shut_down (st_socket t)\<rparr>)"

text \<open>\<open>get_raw_connection()?\<close> followed by an operation on the socket.\<close>

definition raw :: "(server_socket, 'a) io \<Rightarrow> (server_transport, 'a) io" where
  "raw m t =
     (case st_socket t of
        None \<Rightarrow> (Err not_connected, t)
      | Some s \<Rightarrow> (case m s of (r, s') \<Rightarrow> (r, t\<lparr>st_socket := Some s'\<rparr>)))"

section \<open>Requests and answers\<close>

text \<open>\<open>{:04x}\<close>, \<open>{:016x}\<close>: at least so many hexadecimal digits.\<close>

definition show_hex :: "nat \<Rightarrow> nat \<Rightarrow> bytes" where
  "show_hex width n = replicate (width - length (show_radix 16 n)) 48 @ show_radix 16 n"

definition read_body_length :: "(server_transport, bytes) io" where
  "read_body_length = raw (so_read_exact 4)"

definition hex_length :: "bytes \<Rightarrow> u32 result" where
  "hex_length bs =
     (if \<not> utf8_valid bs then Err Utf8StrError
      else bind_outcome (ok_or ParseIntError (parse_uint 16 32 bs)) (\<lambda>n. Ok (word_of_nat n)))"

definition get_hex_body_length :: "(server_transport, u32) io" where
  "get_hex_body_length = bind_io read_body_length (\<lambda>bs. lift (hex_length bs))"

definition get_body_length :: "(server_transport, u32) io" where
  "get_body_length = bind_io read_body_length (\<lambda>bs. lift (Ok (from_le32 bs)))"

text \<open>A body is read only when its length is not zero.\<close>

definition read_body :: "u32 \<Rightarrow> (server_transport, bytes) io" where
  "read_body n = (if 0 < n then raw (so_read_exact (unat n)) else lift (Ok []))"

definition body_text :: "bytes \<Rightarrow> bytes result" where
  "body_text body = (if utf8_valid body then Ok body else Err Utf8FromBytesError)"

definition failed_with :: "bytes \<Rightarrow> 'a result" where
  "failed_with body = bind_outcome (body_text body) (\<lambda>msg. Err (ADBRequestFailed msg))"

definition status_of :: "bytes \<Rightarrow> request_status result" where
  "status_of bs = (if utf8_valid bs then request_status_from_str bs else Err Utf8StrError)"

definition read_adb_response :: "(server_transport, unit) io" where
  "read_adb_response =
     bind_io (raw (so_read_exact 4)) (\<lambda>bs.
     bind_io (lift (status_of bs)) (\<lambda>status.
       case status of
         Status_Okay \<Rightarrow> lift (Ok ())
       | Status_Fail \<Rightarrow>
           bind_io get_hex_body_length (\<lambda>n. bind_io (read_body n) (\<lambda>body. lift (failed_with body)))))"

definition adb_request_text :: "bytes option \<Rightarrow> adb_command \<Rightarrow> bytes" where
  "adb_request_text term c = (let text = adb_command_text term c in show_hex 4 (length text) @ text)"

definition send_adb_request :: "bytes option \<Rightarrow> adb_command \<Rightarrow> (server_transport, unit) io" where
  "send_adb_request term c = seq_io (raw (so_write_all (adb_request_text term c))) read_adb_response"

definition send_sync_request :: "sync_command \<Rightarrow> (server_transport, unit) io" where
  "send_sync_request c = raw (so_write_all (sync_command_text c))"

definition proxy_connection :: "bytes option \<Rightarrow> adb_command \<Rightarrow> bool \<Rightarrow> (server_transport, bytes) io" where
  "proxy_connection term c with_response =
     seq_io (send_adb_request term c)
       (if with_response then bind_io get_hex_body_length read_body else lift (Ok []))"

section \<open>Lengths in hexadecimal\<close>

lemma show_radix_hex_bytes: "b \<in> set (show_radix 16 n) \<Longrightarrow> 48 \<le> unat b \<and> unat b \<le> 102"
proof (induction "16 :: nat" n rule: show_radix.induct)
  case (1 n)
  then show ?case
    by (cases "n < 16") (auto simp: show_radix.simps [of 16 n] unat_digit_char)
qed

lemma parse_digits_zeros: "0 < limit \<Longrightarrow> parse_digits 16 limit 0 (replicate k 48 @ s) = parse_digits 16 limit 0 s"
  by (induction k) (simp_all add: digit_value_def)

lemma parse_uint_show_hex:
  assumes "n < 2 ^ bits"
  shows "parse_uint 16 bits (show_hex w n) = Some n"
proof (cases "w - length (show_radix 16 n)")
  case 0
  with assms show ?thesis by (simp add: show_hex_def parse_uint_show)
next
  case (Suc k)
  have "parse_digits 16 (2 ^ bits) 0 (replicate (Suc k) 48 @ show_radix 16 n) = Some n"
    using parse_show_radix [of 16 n "2 ^ bits"] assms by (simp add: parse_digits_zeros del: replicate_Suc)
  with Suc show ?thesis by (simp add: show_hex_def parse_uint_def)
qed

lemma show_hex_bytes: "b \<in> set (show_hex w n) \<Longrightarrow> 48 \<le> unat b \<and> unat b \<le> 102"
  by (auto simp: show_hex_def dest: show_radix_hex_bytes)

text \<open>The digits are neither of the separators \<open>:\<close>, \<open>@\<close>, \<open>#\<close> and \<open>-\<close>.\<close>

lemma show_radix_separators: "set (show_radix 16 n) \<inter> {35, 45, 58, 64} = {}"
proof (induction "16 :: nat" n rule: show_radix.induct)
  case (1 n)
  have "digit_char d \<notin> {35, 45, 58, 64}" if "d < 16" for d
  proof
    assume "digit_char d \<in> {35, 45, 58, 64}"
    then have "unat (digit_char d) \<in> {35, 45, 58, 64}" by auto
    with that show False by (auto simp: unat_digit_char split: if_splits)
  qed
  with 1 show ?case by (cases "n < 16") (simp_all add: show_radix.simps [of 16 n] Int_Un_distrib2)
qed

lemma show_hex_separators: "set (show_hex w n) \<inter> {35, 45, 58, 64} = {}"
  using show_radix_separators [of n] by (auto simp: show_hex_def)

lemma show_hex_ascii: "utf8_valid (show_hex w n)"
  by (rule utf8_valid_ascii) (auto simp: word_less_nat_alt dest: show_hex_bytes)

lemma length_show_radix_hex: "n < 16 ^ Suc k \<Longrightarrow> length (show_radix 16 n) \<le> Suc k"
proof (induction k arbitrary: n)
  case 0
  then show ?case by (simp add: show_radix.simps)
next
  case (Suc k)
  then have "n div 16 < 16 ^ Suc k" by simp
  from Suc.IH [OF this] show ?case by (simp add: show_radix.simps [of 16 n])
qed

lemma length_show_hex: "n < 16 ^ Suc k \<Longrightarrow> length (show_hex (Suc k) n) = Suc k"
  using length_show_radix_hex [of n k] by (simp add: show_hex_def)

lemma length_show_hex4: "n < 65536 \<Longrightarrow> length (show_hex 4 n) = 4"
proof -
  assume n: "n < 65536"
  have four: "Suc 3 = 4" and "(16 :: nat) ^ Suc 3 = 65536" by simp_all
  with n length_show_hex [of n 3] show ?thesis by (simp only: four)
qed

lemma length_show_hex_wide: "65536 \<le> n \<Longrightarrow> 4 < length (show_hex 4 n)"
proof -
  assume "65536 \<le> n"
  then have "65536 div 16 div 16 div 16 div 16 \<le> n div 16 div 16 div 16 div 16" by (intro div_le_mono)
  then have n: "1 \<le> n div 65536" by (simp add: div_mult2_eq)
  have "length (show_radix 16 n) = 4 + length (show_radix 16 (n div 65536))"
    using \<open>65536 \<le> n\<close> by (subst show_radix.simps, subst show_radix.simps, subst show_radix.simps, subst show_radix.simps)
      (simp add: div_mult2_eq [symmetric] div_less_iff_less_mult less_mult_imp_div_less)
  moreover have "0 < length (show_radix 16 (n div 65536))" by (subst show_radix.simps) simp
  ultimately show ?thesis by (simp add: show_hex_def)
qed

text \<open>How a server reads a request: four digits, then as many bytes as they say.\<close>

definition read_request :: "bytes \<Rightarrow> (bytes \<times> bytes) option" where
  "read_request bs =
     (if length bs < 4 then None
      else Option.bind (parse_uint 16 32 (take 4 bs)) (\<lambda>n.
        if length (drop 4 bs) < n then None else Some (take n (drop 4 bs), drop n (drop 4 bs))))"

text \<open>
  A server that reads four hexadecimal digits and as many bytes as they say finds exactly the
  text of the command in a request, whatever follows it, for every text below 64 KiB.
\<close>

theorem server_request_roundtrip:
  assumes "length (adb_command_text term c) < 65536"
  shows "read_request (adb_request_text term c @ rest) = Some (adb_command_text term c, rest)"
proof -
  let ?t = "adb_command_text term c"
  have n: "length (show_hex 4 (length ?t)) = 4" by (rule length_show_hex4 [OF assms])
  then have "take 4 (adb_request_text term c @ rest) = show_hex 4 (length ?t)"
    "drop 4 (adb_request_text term c @ rest) = ?t @ rest"
    by (simp_all add: adb_request_text_def Let_def)
  moreover have "parse_uint 16 32 (show_hex 4 (length ?t)) = Some (length ?t)"
    using assms by (intro parse_uint_show_hex) simp
  ultimately show ?thesis using n by (simp add: read_request_def adb_request_text_def Let_def)
qed

theorem server_request_roundtrip_witness:
  "read_request (adb_request_text None (Host (TransportId 7)) @ [1]) = Some (ascii ''host:transport-id:7'', [1])"
  using server_request_roundtrip [of None "Host (TransportId 7)" "[1]"]
  by (simp add: show_radix.simps digit_char_def)

text \<open>From 64 KiB on the length has five digits, and the server takes the fifth for the text.\<close>

lemma read_request_length:
  "read_request bs = Some (text, rest) \<Longrightarrow> length bs = 4 + length text + length rest"
  by (auto simp: read_request_def split: if_splits bind_splits)

lemma long_request_is_misread:
  assumes "65536 \<le> length (adb_command_text term c)"
  shows "read_request (adb_request_text term c) \<noteq> Some (adb_command_text term c, [])"
  using read_request_length [of "adb_request_text term c" "adb_command_text term c" "[]"]
    length_show_hex_wide [OF assms] by (auto simp: adb_request_text_def Let_def)

section \<open>Answers\<close>

text \<open>What the server finds, and what the client finds, on an open socket that accepts every write.\<close>

definition serving :: "server_transport \<Rightarrow> source \<Rightarrow> bytes \<Rightarrow> bool" where
  "serving t src out \<longleftrightarrow>
     (\<exists>s. st_socket t = Some s \<and> \<not> so_shut s \<and> so_in s = src \<and> flowing src \<and> sk_script (so_out s) = []
        \<and> sk_out (so_out s) = out)"

lemma serving_flowing: "serving t src out \<Longrightarrow> flowing src"
  by (auto simp: serving_def)

definition on_socket :: "source \<Rightarrow> bytes \<Rightarrow> server_transport \<Rightarrow> server_transport" where
  "on_socket src out t =
     t\<lparr>st_socket := map_option (\<lambda>s. s\<lparr>so_in := src, so_out := (so_out s)\<lparr>sk_out := out\<rparr>\<rparr>) (st_socket t)\<rparr>"

lemma serving_on_socket [simp]:
  "serving t src out \<Longrightarrow> flowing src' \<Longrightarrow> serving (on_socket src' out' t) src' out'"
  by (auto simp: serving_def on_socket_def)

lemma on_socket_twice [simp]: "on_socket src' out' (on_socket src out t) = on_socket src' out' t"
  by (simp add: on_socket_def option.map_comp comp_def)

lemma raw_read_serving:
  assumes "serving t src out" and "source_bytes src = xs @ rest" and "n = length xs"
  shows "\<exists>src'. raw (so_read_exact n) t = (Ok xs, on_socket src' out t)
    \<and> source_bytes src' = rest \<and> flowing src' \<and> serving (on_socket src' out t) src' out"
proof -
  from assms(1) obtain s where s: "st_socket t = Some s" "\<not> so_shut s" "so_in s = src" "flowing src"
    "sk_script (so_out s) = []" "sk_out (so_out s) = out" by (auto simp: serving_def)
  from read_full_content [OF s(4) assms(2)] obtain src'
    where src': "read_full (length xs) src = (Ok xs, src')" "source_bytes src' = rest" "flowing src'" by blast
  then have "raw (so_read_exact n) t = (Ok xs, on_socket src' out t)"
    using s assms(3) by (auto simp: raw_def so_read_exact_def on_socket_def)
  with src' assms(1) show ?thesis by (intro exI [of _ src']) simp
qed

lemma raw_write_serving:
  assumes "serving t src out"
  shows "raw (so_write_all bs) t = (Ok (), on_socket src (out @ bs) t)"
  using assms by (auto simp: serving_def raw_def so_write_all_def write_all_def on_socket_def)

text \<open>A body as the server sends it.\<close>

definition hex_body :: "bytes \<Rightarrow> bytes" where
  "hex_body body = show_hex 4 (length body) @ body"

lemma hex_length_show: "n < 2 ^ 32 \<Longrightarrow> hex_length (show_hex w n) = Ok (word_of_nat n)"
  by (simp add: hex_length_def show_hex_ascii parse_uint_show_hex)

lemma hex_body_read:
  assumes "serving t src out" and "source_bytes src = hex_body body @ rest" and "length body < 65536"
  shows "\<exists>src'. bind_io get_hex_body_length read_body t = (Ok body, on_socket src' out t)
    \<and> source_bytes src' = rest \<and> flowing src' \<and> serving (on_socket src' out t) src' out"
proof -
  let ?h = "show_hex 4 (length body)"
  have h: "length ?h = 4" by (rule length_show_hex4 [OF assms(3)])
  have "source_bytes src = ?h @ body @ rest" using assms(2) by (simp add: hex_body_def)
  from raw_read_serving [OF assms(1) this h [symmetric]] obtain s1
    where s1: "raw (so_read_exact 4) t = (Ok ?h, on_socket s1 out t)" "source_bytes s1 = body @ rest"
      "serving (on_socket s1 out t) s1 out" "flowing s1" by blast
  have len: "hex_length ?h = Ok (word_of_nat (length body))" using assms(3) by (intro hex_length_show) simp
  have n: "unat (word_of_nat (length body) :: u32) = length body" using assms(3) by simp
  show ?thesis
  proof (cases "body = []")
    case True
    then have "bind_io get_hex_body_length read_body t = (Ok body, on_socket s1 out t)"
      using s1(1) len by (simp add: get_hex_body_length_def read_body_length_def bind_io_def read_body_def)
    with s1 True show ?thesis by auto
  next
    case False
    then have pos: "0 < (word_of_nat (length body) :: u32)"
      using n by (simp add: word_less_nat_alt)
    from raw_read_serving [OF s1(3,2) n] obtain s2
      where s2: "raw (so_read_exact (unat (word_of_nat (length body) :: u32))) (on_socket s1 out t) = (Ok body, on_socket s2 out t)"
        "source_bytes s2 = rest" "flowing s2" "serving (on_socket s2 out t) s2 out" by auto
    then have "bind_io get_hex_body_length read_body t = (Ok body, on_socket s2 out t)"
      using s1(1) len pos by (simp add: get_hex_body_length_def read_body_length_def bind_io_def read_body_def)
    with s2 show ?thesis by blast
  qed
qed

lemma status_texts:
  "status_of (ascii ''OKAY'') = Ok Status_Okay" "status_of (ascii ''FAIL'') = Ok Status_Fail"
  by (simp_all add: status_of_def utf8_step_def utf8_width_def request_status_from_str_def ascii_lower_def word_le_nat_alt)

lemma response_okay:
  assumes "serving t src out" and "source_bytes src = ascii ''OKAY'' @ rest"
  shows "\<exists>src'. read_adb_response t = (Ok (), on_socket src' out t)
    \<and> source_bytes src' = rest \<and> flowing src' \<and> serving (on_socket src' out t) src' out"
proof -
  from raw_read_serving [OF assms, of 4] obtain s1
    where "raw (so_read_exact 4) t = (Ok (ascii ''OKAY''), on_socket s1 out t)" "source_bytes s1 = rest"
      "flowing s1" "serving (on_socket s1 out t) s1 out" by auto
  then show ?thesis
    by (intro exI [of _ s1]) (simp add: read_adb_response_def bind_io_def status_texts del: ascii_Cons)
qed

lemma response_fail:
  assumes "serving t src out" and "source_bytes src = ascii ''FAIL'' @ hex_body msg @ rest"
    and "length msg < 65536" and "utf8_valid msg"
  shows "\<exists>src'. read_adb_response t = (Err (ADBRequestFailed msg), on_socket src' out t) \<and> source_bytes src' = rest"
proof -
  from raw_read_serving [OF assms(1,2), of 4] obtain s1
    where s1: "raw (so_read_exact 4) t = (Ok (ascii ''FAIL''), on_socket s1 out t)"
      "source_bytes s1 = hex_body msg @ rest" "serving (on_socket s1 out t) s1 out" by auto
  from hex_body_read [OF s1(3,2) assms(3)] obtain s2
    where "bind_io get_hex_body_length read_body (on_socket s1 out t) = (Ok msg, on_socket s2 out t)"
      "source_bytes s2 = rest" by auto
  moreover from this(1) obtain n t2 where "get_hex_body_length (on_socket s1 out t) = (Ok n, t2)"
    "read_body n t2 = (Ok msg, on_socket s2 out t)" by (rule bind_io_OkD)
  ultimately show ?thesis
    using s1(1) assms(4)
    by (intro exI [of _ s2])
      (simp add: read_adb_response_def bind_io_def status_texts failed_with_def body_text_def del: ascii_Cons)
qed

text \<open>
  A request with an answer returns exactly the body the server sent after OKAY, or the server's
  message after FAIL, however the stream is cut into pieces; exactly the request was written and
  nothing beyond the answer was consumed.
\<close>

theorem proxy_connection_exact:
  assumes "serving t src out" and "length body < 65536" and "utf8_valid body"
  shows "(source_bytes src = ascii ''OKAY'' @ hex_body body @ rest \<longrightarrow>
      (\<exists>src'. proxy_connection term c True t = (Ok body, on_socket src' (out @ adb_request_text term c) t)
        \<and> source_bytes src' = rest))
    \<and> (source_bytes src = ascii ''FAIL'' @ hex_body body @ rest \<longrightarrow>
      (\<exists>src'. proxy_connection term c True t
          = (Err (ADBRequestFailed body), on_socket src' (out @ adb_request_text term c) t)
        \<and> source_bytes src' = rest))"
proof -
  let ?out = "out @ adb_request_text term c" and ?t = "on_socket src (out @ adb_request_text term c) t"
  have w: "raw (so_write_all (adb_request_text term c)) t = (Ok (), ?t)" by (rule raw_write_serving [OF assms(1)])
  have serving: "serving ?t src ?out" using assms(1) serving_flowing [OF assms(1)] by simp
  have ok: "\<exists>src'. proxy_connection term c True t = (Ok body, on_socket src' ?out t) \<and> source_bytes src' = rest"
    if "source_bytes src = ascii ''OKAY'' @ hex_body body @ rest"
  proof -
    from response_okay [OF serving that] obtain s1 where s1: "read_adb_response ?t = (Ok (), on_socket s1 ?out t)"
      "source_bytes s1 = hex_body body @ rest" "serving (on_socket s1 ?out t) s1 ?out" by auto
    from hex_body_read [OF s1(3,2) assms(2)] obtain s2
      where "bind_io get_hex_body_length read_body (on_socket s1 ?out t) = (Ok body, on_socket s2 ?out t)"
        "source_bytes s2 = rest" by auto
    with w s1(1) show ?thesis
      by (intro exI [of _ s2]) (simp add: proxy_connection_def send_adb_request_def seq_io_Ok)
  qed
  have "\<exists>src'. proxy_connection term c True t = (Err (ADBRequestFailed body), on_socket src' ?out t) \<and> source_bytes src' = rest"
    if "source_bytes src = ascii ''FAIL'' @ hex_body body @ rest"
  proof -
    from response_fail [OF serving that assms(2,3)] obtain s1
      where "read_adb_response ?t = (Err (ADBRequestFailed body), on_socket s1 ?out t)" "source_bytes s1 = rest" by auto
    with w show ?thesis
      by (intro exI [of _ s1]) (simp add: proxy_connection_def send_adb_request_def seq_io_def bind_io_def)
  qed
  with ok show ?thesis by blast
qed

theorem proxy_connection_exact_witness:
  "let s = \<lparr>so_in = [Chunk (ascii ''OKAY00''), Chunk (ascii ''040029!'')], so_out = \<lparr>sk_script = [], sk_out = []\<rparr>, so_shut = False\<rparr>
   in \<exists>t'. proxy_connection None (Host Version) True \<lparr>st_socket = Some s, st_dials = [], st_past = []\<rparr> = (Ok (ascii ''0029''), t')"
proof -
  let ?src = "[Chunk (ascii ''OKAY00''), Chunk (ascii ''040029!'')]"
  let ?t = "\<lparr>st_socket = Some \<lparr>so_in = ?src, so_out = \<lparr>sk_script = [], sk_out = []\<rparr>, so_shut = False\<rparr>, st_dials = [], st_past = []\<rparr>"
  have "serving ?t ?src []" by (simp add: serving_def flowing_def)
  moreover have "utf8_valid (ascii ''0029'')" by (rule utf8_valid_ascii) (simp add: word_less_nat_alt)
  moreover have "source_bytes ?src = ascii ''OKAY'' @ hex_body (ascii ''0029'') @ ascii ''!''"
    by (simp add: hex_body_def show_hex_def show_radix.simps digit_char_def numeral_3_eq_3)
  ultimately show ?thesis
    using proxy_connection_exact [of ?t ?src "[]" "ascii ''0029''" "ascii ''!''" None "Host Version"] by (auto simp: Let_def)
qed

end
