(* ===== verification/Buffered_Copy.thy ===== *)
theory Buffered_Copy
  imports Message_Transport
begin

text \<open>
  \<open>io::copy\<close> from a \<open>BufReader\<close> to a \<open>BufWriter\<close> of the same capacity, as the transfers of
  \<^verbatim>\<open>adb_client/src/server_device/commands\<close> use it: each read fills the buffer once, the writer passes
  full buffers on and keeps the rest until it is dropped, when its last write is tried without looking
  at the result.
\<close>

section \<open>The buffered writer\<close>

text \<open>
  An inner writer says how its write ended and how much of the buffer counts as written where it
  failed.
\<close>

type_synonym 'k inner_writer = "bytes \<Rightarrow> 'k \<Rightarrow> unit result \<times> nat \<times> 'k"

record 'k buf_writer =
  bw_buffer :: bytes
  bw_inner :: 'k

definition BUFFER_SIZE :: nat where
  "BUFFER_SIZE = 65535"

definition bw_flush :: "'k inner_writer \<Rightarrow> ('k buf_writer, unit) io" where
  "bw_flush wr w =
     (if bw_buffer w = [] then (Ok (), w)
      else case wr (bw_buffer w) (bw_inner w) of
        (Ok _, n, k) \<Rightarrow> (Ok (), \<lparr>bw_buffer = [], bw_inner = k\<rparr>)
      | (r, n, k) \<Rightarrow> (r, \<lparr>bw_buffer = drop n (bw_buffer w), bw_inner = k\<rparr>))"

definition bw_write_all :: "'k inner_writer \<Rightarrow> bytes \<Rightarrow> ('k buf_writer, unit) io" where
  "bw_write_all wr bs w =
     (let spare = BUFFER_SIZE - length (bw_buffer w)
      in if length bs < spare then (Ok (), w\<lparr>bw_buffer := bw_buffer w @ bs\<rparr>)
         else seq_io (if spare < length bs then bw_flush wr else lift (Ok ()))
           (\<lambda>w. if BUFFER_SIZE \<le> length bs then (case wr bs (bw_inner w) of (r, n, k) \<Rightarrow> (r, w\<lparr>bw_inner := k\<rparr>))
             else (Ok (), w\<lparr>bw_buffer := bw_buffer w @ bs\<rparr>)) w)"

partial_function (option) copy_loop ::
    "'s reader \<Rightarrow> 'k inner_writer \<Rightarrow> 's \<Rightarrow> 'k buf_writer \<Rightarrow> (unit result \<times> 's \<times> 'k buf_writer) option" where
  "copy_loop rd wr s w =
     (case rd BUFFER_SIZE s of
        (Ok bs, s') \<Rightarrow>
          if bs = [] then Some (Ok (), s', w)
          else (case bw_write_all wr bs w of
              (Ok _, w') \<Rightarrow> copy_loop rd wr s' w'
            | (r, w') \<Rightarrow> Some (r, s', w'))
      | (Err e, s') \<Rightarrow>
          if (case e of IOError Interrupted _ \<Rightarrow> True | _ \<Rightarrow> False) then copy_loop rd wr s' w else Some (Err e, s', w)
      | (Panic, s') \<Rightarrow> Some (Panic, s', w))"

text \<open>The whole copy; the writer is dropped when it is over.\<close>

definition buffered_copy :: "'s reader \<Rightarrow> 'k inner_writer \<Rightarrow> 's \<Rightarrow> 'k \<Rightarrow> (unit result \<times> 's \<times> 'k) option" where
  "buffered_copy rd wr s k =
     map_option (\<lambda>(r, s', w). (r, s', bw_inner (snd (bw_flush wr w))))
       (copy_loop rd wr s \<lparr>bw_buffer = [], bw_inner = k\<rparr>)"

section \<open>What a copy transfers\<close>

text \<open>
  \<open>left s xs\<close> says that the reader still has \<open>xs\<close> to give, \<open>over s\<close> that it has said it is at its end,
  \<open>holds k ys\<close> that the inner writer has accepted \<open>ys\<close>.
\<close>

locale copy_ends =
  fixes rd :: "'s reader" and left :: "'s \<Rightarrow> bytes \<Rightarrow> bool" and over :: "'s \<Rightarrow> bool"
    and wr :: "'k inner_writer" and holds :: "'k \<Rightarrow> bytes \<Rightarrow> bool"
  assumes read_gives: "left s xs \<Longrightarrow> xs \<noteq> [] \<Longrightarrow>
      \<exists>bs ys s'. rd BUFFER_SIZE s = (Ok bs, s') \<and> xs = bs @ ys \<and> left s' ys \<and> bs \<noteq> []
        \<and> length bs \<le> BUFFER_SIZE"
    and read_ends: "left s [] \<Longrightarrow> \<exists>s'. rd BUFFER_SIZE s = (Ok [], s') \<and> over s'"
    and write_takes: "holds k ys \<Longrightarrow> bs \<noteq> [] \<Longrightarrow> length bs \<le> BUFFER_SIZE \<Longrightarrow>
      \<exists>n k'. wr bs k = (Ok (), n, k') \<and> holds k' (ys @ bs)"
begin

definition accounts :: "'k buf_writer \<Rightarrow> bytes \<Rightarrow> bool" where
  "accounts w ys \<longleftrightarrow> length (bw_buffer w) \<le> BUFFER_SIZE \<and> (\<exists>zs. holds (bw_inner w) zs \<and> ys = zs @ bw_buffer w)"

lemma flush_accounts:
  assumes "accounts w ys"
  shows "\<exists>k. bw_flush wr w = (Ok (), \<lparr>bw_buffer = [], bw_inner = k\<rparr>) \<and> holds k ys"
proof (cases "bw_buffer w = []")
  case True
  with assms show ?thesis by (cases w) (auto simp: bw_flush_def accounts_def)
next
  case False
  from assms obtain zs where zs: "holds (bw_inner w) zs" "ys = zs @ bw_buffer w" "length (bw_buffer w) \<le> BUFFER_SIZE"
    by (auto simp: accounts_def)
  from write_takes [OF zs(1) False zs(3)] obtain n k' where "wr (bw_buffer w) (bw_inner w) = (Ok (), n, k')"
    "holds k' ys" using zs(2) by auto
  with False show ?thesis by (auto simp: bw_flush_def)
qed

lemma write_all_accounts:
  assumes "accounts w ys" and "bs \<noteq> []" and "length bs \<le> BUFFER_SIZE"
  shows "\<exists>w'. bw_write_all wr bs w = (Ok (), w') \<and> accounts w' (ys @ bs)"
proof -
  let ?spare = "BUFFER_SIZE - length (bw_buffer w)"
  from assms(1) obtain zs where zs: "holds (bw_inner w) zs" "ys = zs @ bw_buffer w" "length (bw_buffer w) \<le> BUFFER_SIZE"
    by (auto simp: accounts_def)
  have keep: "accounts (w\<lparr>bw_buffer := bw_buffer w @ bs\<rparr>) (ys @ bs)" if "length bs \<le> ?spare"
    using that zs by (auto simp: accounts_def)
  have direct: "\<exists>w'. (case wr bs k of (r, n, k') \<Rightarrow> (r, \<lparr>bw_buffer = [], bw_inner = k'\<rparr>)) = (Ok (), w') \<and> accounts w' (ys @ bs)"
    if "holds k ys" for k
    using write_takes [OF that assms(2,3)] by (auto simp: accounts_def)
  consider "length bs < ?spare" | "length bs = ?spare" | "?spare < length bs" by linarith
  then show ?thesis
  proof cases
    case 1
    with keep show ?thesis by (simp add: bw_write_all_def)
  next
    case 2
    show ?thesis
    proof (cases "BUFFER_SIZE \<le> length bs")
      case True
      with 2 have "length (bw_buffer w) = 0" unfolding BUFFER_SIZE_def by linarith
      then have b: "bw_buffer w = []" by simp
      then have "w = \<lparr>bw_buffer = [], bw_inner = bw_inner w\<rparr>" by simp
      moreover from b zs have "holds (bw_inner w) ys" by simp
      ultimately show ?thesis using direct [of "bw_inner w"] 2 True b
        by (cases w) (auto simp: bw_write_all_def seq_io_def split: prod.splits)
    next
      case False
      with 2 keep show ?thesis by (simp add: bw_write_all_def seq_io_def)
    qed
  next
    case 3
    from flush_accounts [OF assms(1)] obtain k where k: "bw_flush wr w = (Ok (), \<lparr>bw_buffer = [], bw_inner = k\<rparr>)" "holds k ys"
      by blast
    have "accounts \<lparr>bw_buffer = bs, bw_inner = k\<rparr> (ys @ bs)" using k(2) assms(3) by (auto simp: accounts_def)
    with direct [OF k(2)] k(1) 3 show ?thesis
      by (cases "BUFFER_SIZE \<le> length bs") (auto simp: bw_write_all_def seq_io_def bind_io_def split: prod.splits)
  qed
qed

lemma copy_loop_accounts:
  assumes "left s xs" and "accounts w ys"
  shows "\<exists>s' w'. copy_loop rd wr s w = Some (Ok (), s', w') \<and> over s' \<and> accounts w' (ys @ xs)"
  using assms
proof (induction "length xs" arbitrary: xs s w ys rule: less_induct)
  case less
  show ?case
  proof (cases "xs = []")
    case True
    with less.prems read_ends [of s] obtain s' where "rd BUFFER_SIZE s = (Ok [], s')" "over s'" by auto
    with True less.prems(2) show ?thesis by (subst copy_loop.simps) auto
  next
    case False
    from read_gives [OF less.prems(1) False] obtain bs zs s' where r: "rd BUFFER_SIZE s = (Ok bs, s')" "xs = bs @ zs"
      "left s' zs" "bs \<noteq> []" "length bs \<le> BUFFER_SIZE" by blast
    from write_all_accounts [OF less.prems(2) r(4,5)] obtain w' where w: "bw_write_all wr bs w = (Ok (), w')"
      "accounts w' (ys @ bs)" by blast
    from r(2,4) have "length zs < length xs" by simp
    from less.hyps [OF this r(3) w(2)] obtain s2 w2 where "copy_loop rd wr s' w' = Some (Ok (), s2, w2)"
      "over s2" "accounts w2 (ys @ xs)" using r(2) by auto
    with r(1,4) w(1) show ?thesis by (subst copy_loop.simps) simp
  qed
qed

lemma buffered_copy_copies:
  assumes "left s xs" and "holds k ys"
  shows "\<exists>s' k'. buffered_copy rd wr s k = Some (Ok (), s', k') \<and> over s' \<and> holds k' (ys @ xs)"
proof -
  have "accounts \<lparr>bw_buffer = [], bw_inner = k\<rparr> ys" using assms(2) by (simp add: accounts_def)
  from copy_loop_accounts [OF assms(1) this] obtain s' w' where c: "copy_loop rd wr s \<lparr>bw_buffer = [], bw_inner = k\<rparr> = Some (Ok (), s', w')"
    "over s'" "accounts w' (ys @ xs)" by blast
  from flush_accounts [OF c(3)] obtain k' where "bw_flush wr w' = (Ok (), \<lparr>bw_buffer = [], bw_inner = k'\<rparr>)" "holds k' (ys @ xs)"
    by blast
  with c show ?thesis by (simp add: buffered_copy_def)
qed

end

text \<open>A \<open>Write\<close> of the caller as inner writer: what a failed write got through counts as written.\<close>

definition sink_write :: "sink inner_writer" where
  "sink_write bs k =
     (case write_all bs k of (r, k') \<Rightarrow> (r, length (sk_out k') - length (sk_out k), k'))"

lemma sink_write_accepting:
  "sk_script k = [] \<Longrightarrow> sink_write bs k = (Ok (), length bs, k\<lparr>sk_out := sk_out k @ bs\<rparr>)"
  by (simp add: sink_write_def write_all_def)

text \<open>The copy does not see the failure of the write that is left to the drop.\<close>

lemma dropped_write_error_is_lost:
  "buffered_copy read_source sink_write [Chunk [1, 2]] \<lparr>sk_script = [Refuse 0 OtherKind], sk_out = []\<rparr>
    = Some (Ok (), [], \<lparr>sk_script = [], sk_out = []\<rparr>)"
  by (simp add: buffered_copy_def copy_loop.simps bw_write_all_def bw_flush_def sink_write_def write_all_def BUFFER_SIZE_def)

end
