(* ===== verification/Server_Device.thy ===== *)
theory Server_Device
  imports Server_Transport Buffered_Copy Device_Commands
begin

text \<open>
  \<^verbatim>\<open>adb_client/src/server_device\<close>: a device behind an ADB server. Every operation opens a new
  connection to the server, selects the device and asks for a service; what follows is the service's
  own protocol on the same connection.
\<close>

section \<open>Selecting the device\<close>

record server_device =
  sd_identifier :: "bytes option"
  sd_transport_id :: "u32 option"
  sd_transport :: server_transport

definition transport_selector :: "server_device \<Rightarrow> host_command" where
  "transport_selector d =
     (case sd_transport_id d of
        Some n \<Rightarrow> TransportId n
      | None \<Rightarrow> (case sd_identifier d of Some serial \<Rightarrow> TransportSerial serial | None \<Rightarrow> TransportAny))"

definition dev :: "(server_transport, 'a) io \<Rightarrow> (server_device, 'a) io" where
  "dev m d = (case m (sd_transport d) of (r, t) \<Rightarrow> (r, d\<lparr>sd_transport := t\<rparr>))"

definition set_serial_transport :: "bytes option \<Rightarrow> (server_device, unit) io" where
  "set_serial_transport term d =
     dev (seq_io server_connect (send_adb_request term (Host (transport_selector d)))) d"

text \<open>The services that are one request with OKAY or FAIL as the whole answer.\<close>

definition device_request :: "bytes option \<Rightarrow> local_command \<Rightarrow> (server_device, unit) io" where
  "device_request term c = seq_io (set_serial_transport term) (dev (send_adb_request term (Local c)))"

definition device_proxy :: "bytes option \<Rightarrow> local_command \<Rightarrow> (server_device, unit) io" where
  "device_proxy term c =
     seq_io (set_serial_transport term)
       (bind_io (dev (proxy_connection term (Local c) False)) (\<lambda>_. lift (Ok ())))"

definition server_forward :: "bytes option \<Rightarrow> bytes \<Rightarrow> bytes \<Rightarrow> (server_device, unit) io" where
  "server_forward term remote near = device_proxy term (Forward remote near)"

definition server_forward_remove :: "bytes option \<Rightarrow> bytes \<Rightarrow> (server_device, unit) io" where
  "server_forward_remove term near = device_proxy term (ForwardRemove near)"

definition server_forward_remove_all :: "bytes option \<Rightarrow> (server_device, unit) io" where
  "server_forward_remove_all term = device_proxy term ForwardRemoveAll"

definition server_reverse :: "bytes option \<Rightarrow> bytes \<Rightarrow> bytes \<Rightarrow> (server_device, unit) io" where
  "server_reverse term remote near = device_proxy term (Reverse remote near)"

definition server_reverse_remove :: "bytes option \<Rightarrow> bytes \<Rightarrow> (server_device, unit) io" where
  "server_reverse_remove term remote = device_proxy term (ReverseRemove remote)"

definition server_reverse_remove_all :: "bytes option \<Rightarrow> (server_device, unit) io" where
  "server_reverse_remove_all term = device_proxy term ReverseRemoveAll"

definition server_reboot :: "bytes option \<Rightarrow> reboot_type \<Rightarrow> (server_device, unit) io" where
  "server_reboot term kind = device_proxy term (Reboot kind)"

definition server_tcpip :: "bytes option \<Rightarrow> u16 \<Rightarrow> (server_device, unit) io" where
  "server_tcpip term port = device_proxy term (TcpIp port)"

definition server_root :: "bytes option \<Rightarrow> (server_device, unit) io" where
  "server_root term = device_proxy term Root"

definition server_usb :: "bytes option \<Rightarrow> (server_device, unit) io" where
  "server_usb term = device_proxy term Usb"

definition server_reconnect :: "bytes option \<Rightarrow> (server_device, unit) io" where
  "server_reconnect term = device_proxy term Reconnect"

definition server_disable_verity :: "bytes option \<Rightarrow> (server_device, unit) io" where
  "server_disable_verity term = device_request term DisableVerity"

definition server_enable_verity :: "bytes option \<Rightarrow> (server_device, unit) io" where
  "server_enable_verity term = device_request term EnableVerity"

definition transport_any :: "bytes option \<Rightarrow> (server_device, unit) io" where
  "transport_any term =
     bind_io (dev (seq_io server_connect (proxy_connection term (Host TransportAny) False))) (\<lambda>_. lift (Ok ()))"

definition host_features :: "bytes option \<Rightarrow> (server_device, host_feature list) io" where
  "host_features term =
     seq_io (set_serial_transport term)
       (bind_io (dev (proxy_connection term (Host HostFeatures) True)) (\<lambda>features.
          lift (Ok (List.map_filter host_feature_try_from (split_on 44 features)))))"

text \<open>One read of at most 1024 bytes is taken for the whole answer.\<close>

definition read_once :: "(server_device, bytes) io" where
  "read_once = dev (raw (so_read 1024))"

definition success_or_message :: "bytes \<Rightarrow> unit result" where
  "success_or_message d = (if d = ascii ''Success'' @ [10] then Ok () else failed_with d)"

definition server_uninstall :: "bytes option \<Rightarrow> bytes \<Rightarrow> bytes option \<Rightarrow> (server_device, unit) io" where
  "server_uninstall term package user =
     seq_io (device_request term (Uninstall package user)) (bind_io read_once (\<lambda>d. lift (success_or_message d)))"

definition server_remount :: "(bytes \<Rightarrow> (bytes \<times> bytes) option) \<Rightarrow> bytes option \<Rightarrow> (server_device, remount_info list) io" where
  "server_remount captures term =
     seq_io (device_request term Remount)
       (bind_io read_once (\<lambda>d. lift (remount_from_str_response captures (utf8_lossy d))))"

text \<open>The service that ends in the middle of its answer is taken for one that failed.\<close>

lemma split_success_is_failure: "success_or_message (ascii ''Succ'') = Err (ADBRequestFailed (ascii ''Succ''))"
  by (simp add: success_or_message_def failed_with_def body_text_def utf8_step_def utf8_width_def)

section \<open>Operations on the socket\<close>

text \<open>
  An operation that also works on a file or an output \<open>x\<close>, on the socket \<open>get_raw_connection\<close> gives.
  It may not return.
\<close>

definition with_socket ::
    "(server_socket \<Rightarrow> ('a result \<times> 'x \<times> server_socket) option) \<Rightarrow> 'x \<Rightarrow> server_device
      \<Rightarrow> ('a result \<times> 'x \<times> server_device) option" where
  "with_socket m x d =
     (case st_socket (sd_transport d) of
        None \<Rightarrow> Some (Err not_connected, x, d)
      | Some s \<Rightarrow> map_option (\<lambda>(r, x', s'). (r, x', d\<lparr>sd_transport := (sd_transport d)\<lparr>st_socket := Some s'\<rparr>\<rparr>)) (m s))"

text \<open>\<open>begin?\<close> followed by \<open>m\<close>.\<close>

definition begin_then ::
    "(server_device, unit) io \<Rightarrow> (server_device \<Rightarrow> ('a result \<times> 'x \<times> server_device) option) \<Rightarrow> 'x \<Rightarrow> server_device
      \<Rightarrow> ('a result \<times> 'x \<times> server_device) option" where
  "begin_then b m x d =
     (case b d of
        (Ok _, d') \<Rightarrow> m d'
      | (Err e, d') \<Rightarrow> Some (Err e, x, d')
      | (Panic, d') \<Rightarrow> Some (Panic, x, d'))"

definition begin_sync :: "bytes option \<Rightarrow> sync_command \<Rightarrow> (server_device, unit) io" where
  "begin_sync term c =
     seq_io (set_serial_transport term)
       (seq_io (dev (send_adb_request term (Local Sync))) (dev (send_sync_request c)))"

text \<open>\<open>u32::try_from(path.len())?\<close> and the path, as one write.\<close>

definition write_path :: "bytes \<Rightarrow> (server_socket, unit) io" where
  "write_path path = bind_io (lift (u32_try_from (length path))) (\<lambda>n. so_write_all (to_le32 n @ path))"

definition so_body_length :: "(server_socket, u32) io" where
  "so_body_length = bind_io (so_read_exact 4) (\<lambda>bs. lift (Ok (from_le32 bs)))"

definition so_body :: "u32 \<Rightarrow> (server_socket, bytes) io" where
  "so_body n = (if 0 < n then so_read_exact (unat n) else lift (Ok []))"

section \<open>Upload\<close>

text \<open>\<open>ADBSendCommandWriter::write\<close>: the whole buffer as one DATA chunk; nothing of it counts when it fails.\<close>

definition send_write :: "server_socket inner_writer" where
  "send_write bs s =
     (case try_u32 (length bs) of
        None \<Rightarrow> (Err (IOError OtherKind Os_Error), 0, s)
      | Some n \<Rightarrow>
          (case so_write_all (ascii ''DATA'' @ to_le32 n @ bs) s of
             (Ok _, s') \<Rightarrow> (Ok (), length bs, s')
           | (r, s') \<Rightarrow> (r, 0, s')))"

text \<open>After the data: DONE with the time (all eight bytes of the seconds), then the device's verdict.\<close>

definition send_verdict :: "(server_socket, unit) io" where
  "send_verdict =
     bind_io (so_read_exact 4) (\<lambda>bs.
     bind_io (lift (status_of bs)) (\<lambda>status.
       case status of
         Status_Okay \<Rightarrow> lift (Ok ())
       | Status_Fail \<Rightarrow> bind_io so_body_length (\<lambda>n. bind_io (so_body n) (\<lambda>body. lift (failed_with body)))))"

definition send_done :: "u64 option \<Rightarrow> (server_socket, unit) io" where
  "send_done now =
     (case now of
        None \<Rightarrow> lift (Err (request_failed ''SystemTime before UNIX EPOCH!''))
      | Some secs \<Rightarrow> seq_io (so_write_all (ascii ''DONE'' @ to_le64 secs)) send_verdict)"

definition handle_send_command ::
    "bytes \<Rightarrow> u64 option \<Rightarrow> source \<Rightarrow> server_socket \<Rightarrow> (unit result \<times> source \<times> server_socket) option" where
  "handle_send_command path now file s =
     (case write_path (path @ ascii '',0777'') s of
        (Ok _, s1) \<Rightarrow>
          map_option (\<lambda>(r, file', s2). case r of
              Ok _ \<Rightarrow> (case send_done now s2 of (r', s3) \<Rightarrow> (r', file', s3))
            | _ \<Rightarrow> (r, file', s2)) (buffered_copy read_source send_write file s1)
      | (r, s1) \<Rightarrow> Some (r, file, s1))"

definition server_push ::
    "bytes option \<Rightarrow> bytes \<Rightarrow> u64 option \<Rightarrow> source \<Rightarrow> server_device \<Rightarrow> (unit result \<times> source \<times> server_device) option" where
  "server_push term path now file =
     begin_then (begin_sync term Sync_Send) (with_socket (handle_send_command path now file) file) file"

section \<open>Download\<close>

record recv_reader =
  rr_inner :: server_socket
  rr_remaining :: nat

definition on_inner :: "(server_socket, 'a) io \<Rightarrow> (recv_reader, 'a) io" where
  "on_inner m r = (case m (rr_inner r) of (q, s) \<Rightarrow> (q, r\<lparr>rr_inner := s\<rparr>))"

text \<open>\<open>{header:#?}\<close> of the four bytes.\<close>

definition debug_header :: "bytes \<Rightarrow> bytes" where
  "debug_header h =
     ascii ''['' @ [10] @ concat (map (\<lambda>b. ascii ''    '' @ show_nat (unat b) @ ascii '','' @ [10]) h) @ ascii '']''"

definition recv_data :: "nat \<Rightarrow> u32 \<Rightarrow> (recv_reader, bytes) io" where
  "recv_data n len r =
     (case on_inner (so_read (min (unat len) n)) r of
        (Ok bs, r') \<Rightarrow> (Ok bs, r'\<lparr>rr_remaining := unat len - length bs\<rparr>)
      | (q, r') \<Rightarrow> (q, r'))"

definition recv_failure :: "u32 \<Rightarrow> (recv_reader, bytes) io" where
  "recv_failure len =
     bind_io (on_inner (so_read_exact (unat len))) (\<lambda>msg.
       lift (Err (IOError OtherKind (Message (ascii ''ADB request failed: '' @ utf8_lossy msg)))))"

definition recv_header :: "nat \<Rightarrow> bytes \<Rightarrow> (recv_reader, bytes) io" where
  "recv_header n header =
     (if header = ascii ''DATA'' then bind_io (on_inner so_body_length) (recv_data n)
      else if header = ascii ''DONE'' then lift (Ok [])
      else if header = ascii ''FAIL'' then bind_io (on_inner so_body_length) recv_failure
      else lift (Err (IOError OtherKind (Message (ascii ''Unknown response from device '' @ debug_header header)))))"

definition recv_read :: "recv_reader reader" where
  "recv_read n r =
     (if rr_remaining r = 0 then bind_io (on_inner (so_read_exact 4)) (recv_header n) r
      else case on_inner (so_read_exact (min (rr_remaining r) n)) r of
          (Ok bs, r') \<Rightarrow> (Ok bs, r'\<lparr>rr_remaining := rr_remaining r - min (rr_remaining r) n\<rparr>)
        | (q, r') \<Rightarrow> (q, r'))"

definition handle_recv_command :: "bytes \<Rightarrow> sink \<Rightarrow> server_socket \<Rightarrow> (unit result \<times> sink \<times> server_socket) option" where
  "handle_recv_command path out s =
     (case write_path path s of
        (Ok _, s1) \<Rightarrow>
          map_option (\<lambda>(r, reader, out'). (r, out', rr_inner reader))
            (buffered_copy recv_read sink_write \<lparr>rr_inner = s1, rr_remaining = 0\<rparr> out)
      | (r, s1) \<Rightarrow> Some (r, out, s1))"

definition server_pull :: "bytes option \<Rightarrow> bytes \<Rightarrow> sink \<Rightarrow> server_device \<Rightarrow> (unit result \<times> sink \<times> server_device) option" where
  "server_pull term path out =
     begin_then (begin_sync term Sync_Recv) (with_socket (handle_recv_command path out) out) out"


section \<open>What the transfers carry\<close>

text \<open>An open socket that accepts every write, with what it will still deliver and what was written.\<close>

definition open_socket :: "server_socket \<Rightarrow> bytes \<Rightarrow> bytes \<Rightarrow> bool" where
  "open_socket s incoming out \<longleftrightarrow>
     \<not> so_shut s \<and> flowing (so_in s) \<and> source_bytes (so_in s) = incoming
     \<and> sk_script (so_out s) = [] \<and> sk_out (so_out s) = out"

lemma so_read_exact_open:
  assumes "open_socket s (xs @ rest) out" and "n = length xs"
  shows "\<exists>s'. so_read_exact n s = (Ok xs, s') \<and> open_socket s' rest out"
  using assms read_full_content [of "so_in s" xs rest] by (auto simp: open_socket_def so_read_exact_def)

lemma so_read_open:
  assumes "open_socket s incoming out" and "incoming \<noteq> []" and "0 < n"
  shows "\<exists>bs rest s'. so_read n s = (Ok bs, s') \<and> incoming = bs @ rest \<and> bs \<noteq> [] \<and> length bs \<le> n \<and> open_socket s' rest out"
  using assms read_source_flowing [of "so_in s" n] by (auto simp: open_socket_def so_read_def)

lemma so_write_open: "open_socket s incoming out \<Longrightarrow>
    \<exists>s'. so_write_all bs s = (Ok (), s') \<and> open_socket s' incoming (out @ bs)"
  by (auto simp: open_socket_def so_write_all_def write_all_def)

lemma write_path_open:
  assumes "open_socket s incoming out" and "length path < 2 ^ 32"
  shows "\<exists>s'. write_path path s = (Ok (), s') \<and> open_socket s' incoming (out @ to_le32 (word_of_nat (length path)) @ path)"
  using so_write_open [OF assms(1)] assms(2) by (simp add: write_path_def bind_io_def)

definition data_chunk :: "bytes \<Rightarrow> bytes" where
  "data_chunk c = ascii ''DATA'' @ to_le32 (word_of_nat (length c)) @ c"

definition fits :: "bytes \<Rightarrow> bool" where
  "fits c \<longleftrightarrow> c \<noteq> [] \<and> length c < 2 ^ 32"

definition download_left :: "bytes \<Rightarrow> bytes \<Rightarrow> recv_reader \<Rightarrow> bytes \<Rightarrow> bool" where
  "download_left rest out r xs \<longleftrightarrow>
     (\<exists>cur cs. open_socket (rr_inner r) (cur @ concat (map data_chunk cs) @ ascii ''DONE'' @ rest) out
        \<and> rr_remaining r = length cur \<and> xs = cur @ concat cs \<and> (\<forall>c \<in> set cs. fits c))"

lemma download_leftI:
  "open_socket s (cur @ concat (map data_chunk cs) @ ascii ''DONE'' @ rest) out \<Longrightarrow> n = length cur \<Longrightarrow> \<forall>c \<in> set cs. fits c
    \<Longrightarrow> download_left rest out \<lparr>rr_inner = s, rr_remaining = n\<rparr> (cur @ concat cs)"
  unfolding download_left_def by (intro exI [of _ cur] exI [of _ cs]) simp

definition download_over :: "bytes \<Rightarrow> bytes \<Rightarrow> recv_reader \<Rightarrow> bool" where
  "download_over rest out r \<longleftrightarrow> open_socket (rr_inner r) rest out"

lemma recv_read_gives:
  assumes "download_left rest out r xs" and "xs \<noteq> []" and "0 < n"
  shows "\<exists>bs ys r'. recv_read n r = (Ok bs, r') \<and> xs = bs @ ys \<and> download_left rest out r' ys \<and> bs \<noteq> [] \<and> length bs \<le> n"
proof -
  let ?tail = "\<lambda>cs. concat (map data_chunk cs) @ ascii ''DONE'' @ rest"
  from assms(1) obtain cur cs where r: "open_socket (rr_inner r) (cur @ ?tail cs) out" "rr_remaining r = length cur"
    "xs = cur @ concat cs" "\<forall>c \<in> set cs. fits c" by (auto simp: download_left_def)
  show ?thesis
  proof (cases "cur = []")
    case False
    let ?bs = "take n cur" and ?ys = "drop n cur"
    have "cur @ ?tail cs = ?bs @ ?ys @ ?tail cs" by (metis append.assoc append_take_drop_id)
    with r(1) have "open_socket (rr_inner r) (?bs @ ?ys @ ?tail cs) out" by (rule back_subst [of "\<lambda>i. open_socket _ i _"])
    from so_read_exact_open [OF this length_take [symmetric]] obtain s'
      where s': "so_read_exact (min (length cur) n) (rr_inner r) = (Ok ?bs, s')" "open_socket s' (?ys @ ?tail cs) out"
      by blast
    let ?r = "\<lparr>rr_inner = s', rr_remaining = length cur - min (length cur) n\<rparr>"
    have "download_left rest out ?r (?ys @ concat cs)" using r(4) by (intro download_leftI [OF s'(2)]) auto
    moreover have "recv_read n r = (Ok ?bs, ?r)" using s'(1) r(2) False by (simp add: recv_read_def on_inner_def)
    ultimately show ?thesis using False assms(3) r(3)
      by (intro exI [of _ ?bs] exI [of _ "?ys @ concat cs"] exI [of _ ?r]) simp
  next
    case True
    with r(3) assms(2) obtain c cs' where cs: "cs = c # cs'" by (cases cs) auto
    then have c: "fits c" "\<forall>c \<in> set cs'. fits c" using r(4) by simp_all
    let ?len = "to_le32 (word_of_nat (length c))"
    have n: "unat (word_of_nat (length c) :: u32) = length c" using c(1) by (simp add: fits_def)
    have "open_socket (rr_inner r) (ascii ''DATA'' @ ?len @ c @ ?tail cs') out"
      using r(1) True cs by (simp add: data_chunk_def)
    from so_read_exact_open [OF this, of 4] obtain s1 where s1: "so_read_exact 4 (rr_inner r) = (Ok (ascii ''DATA''), s1)"
      "open_socket s1 (?len @ c @ ?tail cs') out" by auto
    from so_read_exact_open [OF s1(2), of 4] obtain s2 where s2: "so_read_exact 4 s1 = (Ok ?len, s2)"
      "open_socket s2 (c @ ?tail cs') out" by auto
    have "0 < min (length c) n" using c(1) assms(3) by (simp add: fits_def)
    from so_read_open [OF s2(2) _ this] c(1) obtain bs zs s3
      where s3: "so_read (min (length c) n) s2 = (Ok bs, s3)" "c @ ?tail cs' = bs @ zs" "bs \<noteq> []"
        "length bs \<le> min (length c) n" "open_socket s3 zs out" by (auto simp: fits_def)
    from append_split [OF s3(2)] s3(4) obtain ys where ys: "c = bs @ ys" "zs = ys @ ?tail cs'" by auto
    let ?r = "\<lparr>rr_inner = s3, rr_remaining = length c - length bs\<rparr>"
    have "recv_read n r = (Ok bs, ?r)"
      using s1(1) s2(1) s3(1) n r(2) True
      by (simp add: recv_read_def recv_header_def recv_data_def on_inner_def bind_io_def so_body_length_def del: ascii_Cons)
    moreover have "download_left rest out ?r (ys @ concat cs')"
      using s3(5) ys c(2) by (intro download_leftI) auto
    ultimately show ?thesis using s3(3,4) r(3) True cs ys(1)
      by (intro exI [of _ bs] exI [of _ "ys @ concat cs'"] exI [of _ ?r]) simp
  qed
qed

lemma recv_read_ends:
  assumes "download_left rest out r []"
  shows "\<exists>r'. recv_read n r = (Ok [], r') \<and> download_over rest out r'"
proof -
  from assms obtain cs where r: "open_socket (rr_inner r) (concat (map data_chunk cs) @ ascii ''DONE'' @ rest) out"
    "rr_remaining r = 0" "concat cs = []" "\<forall>c \<in> set cs. fits c" by (auto simp: download_left_def)
  then have "cs = []" by (cases cs) (auto simp: fits_def)
  with r(1) have "open_socket (rr_inner r) (ascii ''DONE'' @ rest) out" by simp
  from so_read_exact_open [OF this, of 4] obtain s1
    where "so_read_exact 4 (rr_inner r) = (Ok (ascii ''DONE''), s1)" "open_socket s1 rest out" by auto
  then show ?thesis using r(2)
    by (simp add: recv_read_def recv_header_def on_inner_def bind_io_def download_over_def del: ascii_Cons)
qed

text \<open>An output that accepts everything, of which \<open>ys\<close> has been written.\<close>

definition sink_holds :: "sink \<Rightarrow> bytes \<Rightarrow> bool" where
  "sink_holds k ys \<longleftrightarrow> k = \<lparr>sk_script = [], sk_out = ys\<rparr>"

interpretation pull: copy_ends recv_read "download_left rest out" "download_over rest out" sink_write sink_holds for rest out
  by unfold_locales (auto simp: BUFFER_SIZE_def sink_holds_def sink_write_accepting intro: recv_read_gives recv_read_ends)


definition file_left :: "source \<Rightarrow> bytes \<Rightarrow> bool" where
  "file_left src xs \<longleftrightarrow> flowing src \<and> source_bytes src = xs"

text \<open>The DATA chunks written so far carry \<open>ys\<close>.\<close>

definition upload_holds :: "bytes \<Rightarrow> bytes \<Rightarrow> server_socket \<Rightarrow> bytes \<Rightarrow> bool" where
  "upload_holds incoming out s ys \<longleftrightarrow>
     (\<exists>cs. open_socket s incoming (out @ concat (map data_chunk cs)) \<and> concat cs = ys
        \<and> (\<forall>c \<in> set cs. c \<noteq> [] \<and> length c \<le> BUFFER_SIZE))"

lemma send_write_holds:
  assumes "upload_holds incoming out s ys" and "bs \<noteq> []" and "length bs \<le> BUFFER_SIZE"
  shows "\<exists>n s'. send_write bs s = (Ok (), n, s') \<and> upload_holds incoming out s' (ys @ bs)"
proof -
  from assms(1) obtain cs where cs: "open_socket s incoming (out @ concat (map data_chunk cs))" "concat cs = ys"
    "\<forall>c \<in> set cs. c \<noteq> [] \<and> length c \<le> BUFFER_SIZE" by (auto simp: upload_holds_def)
  have n: "try_u32 (length bs) = Some (word_of_nat (length bs))" using assms(3) by (simp add: BUFFER_SIZE_def)
  from so_write_open [OF cs(1)] obtain s' where s': "so_write_all (data_chunk bs) s = (Ok (), s')"
    "open_socket s' incoming ((out @ concat (map data_chunk cs)) @ data_chunk bs)" by blast
  have "upload_holds incoming out s' (ys @ bs)"
    unfolding upload_holds_def using s'(2) cs(2,3) assms(2,3) by (intro exI [of _ "cs @ [bs]"]) auto
  moreover have "send_write bs s = (Ok (), length bs, s')"
    using s'(1) n by (simp add: send_write_def data_chunk_def del: try_u32_Some)
  ultimately show ?thesis by blast
qed

interpretation push: copy_ends read_source file_left "\<lambda>src. src = []" send_write "upload_holds incoming out" for incoming out
proof unfold_locales
  fix s :: source and xs
  assume "file_left s xs" "xs \<noteq> []"
  then show "\<exists>bs ys s'. read_source BUFFER_SIZE s = (Ok bs, s') \<and> xs = bs @ ys \<and> file_left s' ys \<and> bs \<noteq> []
      \<and> length bs \<le> BUFFER_SIZE"
    using read_source_flowing [of s BUFFER_SIZE] by (auto simp: file_left_def BUFFER_SIZE_def)
next
  fix s :: source
  assume "file_left s []"
  then have "s = []" by (auto simp: file_left_def dest: flowing_end)
  then show "\<exists>s'. read_source BUFFER_SIZE s = (Ok [], s') \<and> s' = []" by simp
qed (rule send_write_holds)

section \<open>Whole operations\<close>

definition device_open :: "server_device \<Rightarrow> bytes \<Rightarrow> bytes \<Rightarrow> bool" where
  "device_open d incoming out \<longleftrightarrow> (\<exists>s. st_socket (sd_transport d) = Some s \<and> open_socket s incoming out)"

text \<open>The device behind a server that will accept the next connection.\<close>

definition dials :: "server_device \<Rightarrow> bytes \<Rightarrow> bool" where
  "dials d incoming \<longleftrightarrow>
     (\<exists>s rest. st_dials (sd_transport d) = Ok s # rest \<and> open_socket s incoming [])"

lemma request_open:
  assumes "device_open d (ascii ''OKAY'' @ rest) out"
  shows "\<exists>d'. dev (send_adb_request term c) d = (Ok (), d') \<and> device_open d' rest (out @ adb_request_text term c)"
proof -
  let ?t = "sd_transport d" and ?out = "out @ adb_request_text term c"
  from assms obtain s where s: "st_socket ?t = Some s" "open_socket s (ascii ''OKAY'' @ rest) out"
    by (auto simp: device_open_def)
  then have sv: "serving ?t (so_in s) out" and c: "source_bytes (so_in s) = ascii ''OKAY'' @ rest"
    by (auto simp: serving_def open_socket_def)
  then have "serving (on_socket (so_in s) ?out ?t) (so_in s) ?out" by (simp add: serving_flowing)
  from response_okay [OF this c] obtain src'
    where r: "read_adb_response (on_socket (so_in s) ?out ?t) = (Ok (), on_socket src' ?out ?t)"
      "source_bytes src' = rest" "serving (on_socket src' ?out ?t) src' ?out" by auto
  have "send_adb_request term c ?t = (Ok (), on_socket src' ?out ?t)"
    using raw_write_serving [OF sv] r(1) by (simp add: send_adb_request_def seq_io_Ok)
  moreover have "device_open (d\<lparr>sd_transport := on_socket src' ?out ?t\<rparr>) rest ?out"
    using r(2,3) by (auto simp: serving_def device_open_def open_socket_def)
  ultimately show ?thesis by (simp add: dev_def)
qed

lemma select_open:
  assumes "dials d (ascii ''OKAY'' @ rest)"
  shows "\<exists>d'. set_serial_transport term d = (Ok (), d')
    \<and> device_open d' rest (adb_request_text term (Host (transport_selector d)))"
proof -
  from assms obtain s ds where s: "st_dials (sd_transport d) = Ok s # ds" "open_socket s (ascii ''OKAY'' @ rest) []"
    by (auto simp: dials_def)
  let ?t = "snd (server_connect (sd_transport d))" and ?d = "d\<lparr>sd_transport := snd (server_connect (sd_transport d))\<rparr>"
  have c: "server_connect (sd_transport d) = (Ok (), ?t)" and "st_socket ?t = Some s"
    using s(1) by (simp_all add: server_connect_def Let_def)
  with s(2) have "device_open ?d (ascii ''OKAY'' @ rest) []" by (simp add: device_open_def)
  from request_open [OF this, of "term" "Host (transport_selector d)"] c show ?thesis
    by (auto simp: set_serial_transport_def dev_def seq_io_Ok split: prod.splits)
qed

definition sync_requests :: "bytes option \<Rightarrow> server_device \<Rightarrow> sync_command \<Rightarrow> bytes" where
  "sync_requests term d c =
     adb_request_text term (Host (transport_selector d)) @ adb_request_text term (Local Sync) @ sync_command_text c"

lemma begin_sync_open:
  assumes "dials d (ascii ''OKAY'' @ ascii ''OKAY'' @ rest)"
  shows "\<exists>d'. begin_sync term c d = (Ok (), d') \<and> device_open d' rest (sync_requests term d c)"
proof -
  from select_open [OF assms] obtain d1 where d1: "set_serial_transport term d = (Ok (), d1)"
    "device_open d1 (ascii ''OKAY'' @ rest) (adb_request_text term (Host (transport_selector d)))" by blast
  from request_open [OF d1(2), of "term" "Local Sync"] obtain d2
    where d2: "dev (send_adb_request term (Local Sync)) d1 = (Ok (), d2)"
      "device_open d2 rest (adb_request_text term (Host (transport_selector d)) @ adb_request_text term (Local Sync))"
    by blast
  from d2(2) obtain s where s: "st_socket (sd_transport d2) = Some s"
    "open_socket s rest (adb_request_text term (Host (transport_selector d)) @ adb_request_text term (Local Sync))"
    by (auto simp: device_open_def)
  from so_write_open [OF s(2), of "sync_command_text c"] obtain s' where s': "so_write_all (sync_command_text c) s = (Ok (), s')"
    "open_socket s' rest (sync_requests term d c)" by (auto simp: sync_requests_def)
  then have "dev (send_sync_request c) d2 = (Ok (), d2\<lparr>sd_transport := (sd_transport d2)\<lparr>st_socket := Some s'\<rparr>\<rparr>)"
    using s(1) by (simp add: dev_def send_sync_request_def raw_def)
  with d1(1) d2(1) s'(2) show ?thesis by (auto simp: begin_sync_def seq_io_Ok device_open_def)
qed

lemma with_socket_open:
  assumes "begin_sync term c d = (Ok (), d1)" and "st_socket (sd_transport d1) = Some s" and "m s = Some (r, x', s')"
  shows "begin_then (begin_sync term c) (with_socket m x) x d
    = Some (r, x', d1\<lparr>sd_transport := (sd_transport d1)\<lparr>st_socket := Some s'\<rparr>\<rparr>)"
  using assms by (simp add: begin_then_def with_socket_def)

definition path_bytes :: "bytes \<Rightarrow> bytes" where
  "path_bytes path = to_le32 (word_of_nat (length path)) @ path"

lemma send_verdict_open:
  assumes "open_socket s (verdict @ rest) out"
    and "verdict = (case refused of None \<Rightarrow> ascii ''OKAY'' | Some msg \<Rightarrow> ascii ''FAIL'' @ path_bytes msg)"
    and "\<forall>msg. refused = Some msg \<longrightarrow> utf8_valid msg \<and> length msg < 2 ^ 32"
  shows "\<exists>s'. send_verdict s = (case refused of None \<Rightarrow> Ok () | Some msg \<Rightarrow> Err (ADBRequestFailed msg), s') \<and> open_socket s' rest out"
proof (cases refused)
  case None
  with assms(1,2) so_read_exact_open [of s "ascii ''OKAY''" rest out 4] obtain s'
    where "so_read_exact 4 s = (Ok (ascii ''OKAY''), s')" "open_socket s' rest out" by auto
  with None show ?thesis by (simp add: send_verdict_def bind_io_def status_texts del: ascii_Cons)
next
  case (Some msg)
  with assms(3) have m: "utf8_valid msg" "unat (word_of_nat (length msg) :: u32) = length msg" by simp_all
  let ?len = "to_le32 (word_of_nat (length msg))"
  from Some assms(1,2) have "open_socket s (ascii ''FAIL'' @ ?len @ msg @ rest) out" by (simp add: path_bytes_def)
  from so_read_exact_open [OF this, of 4] obtain s1 where s1: "so_read_exact 4 s = (Ok (ascii ''FAIL''), s1)"
    "open_socket s1 (?len @ msg @ rest) out" by auto
  from so_read_exact_open [OF s1(2), of 4] obtain s2 where s2: "so_read_exact 4 s1 = (Ok ?len, s2)"
    "open_socket s2 (msg @ rest) out" by auto
  have "\<exists>s3. so_body (word_of_nat (length msg)) s2 = (Ok msg, s3) \<and> open_socket s3 rest out"
  proof (cases "msg = []")
    case True
    with s2(2) show ?thesis by (simp add: so_body_def)
  next
    case False
    with m(2) have "0 < (word_of_nat (length msg) :: u32)" by (simp add: word_less_nat_alt)
    with so_read_exact_open [OF s2(2) m(2)] show ?thesis by (simp add: so_body_def)
  qed
  then obtain s3 where "so_body (word_of_nat (length msg)) s2 = (Ok msg, s3)" "open_socket s3 rest out" by blast
  with s1(1) s2(1) m(1) Some show ?thesis
    by (simp add: send_verdict_def so_body_length_def bind_io_def status_texts failed_with_def body_text_def del: ascii_Cons)
qed

text \<open>
  A download through a server writes exactly the bytes of the DATA chunks the device sent before
  DONE, whatever the sizes of the chunks and of the pieces the connection delivers, after selecting
  the device and asking for the path on a new connection.
\<close>

theorem server_pull_exact:
  assumes "dials d (ascii ''OKAY'' @ ascii ''OKAY'' @ concat (map data_chunk cs) @ ascii ''DONE'' @ rest)"
    and "\<forall>c \<in> set cs. fits c" and "length path < 2 ^ 32" and "sk_script out = []"
  shows "\<exists>d'. server_pull term path out d = Some (Ok (), out\<lparr>sk_out := sk_out out @ concat cs\<rparr>, d')
    \<and> device_open d' rest (sync_requests term d Sync_Recv @ path_bytes path)"
proof -
  from begin_sync_open [OF assms(1), of "term" Sync_Recv] obtain d1 s where b: "begin_sync term Sync_Recv d = (Ok (), d1)"
    "st_socket (sd_transport d1) = Some s"
    "open_socket s (concat (map data_chunk cs) @ ascii ''DONE'' @ rest) (sync_requests term d Sync_Recv)"
    by (auto simp: device_open_def)
  let ?w = "sync_requests term d Sync_Recv @ path_bytes path"
  from write_path_open [OF b(3) assms(3)] obtain s1 where s1: "write_path path s = (Ok (), s1)"
    "open_socket s1 (concat (map data_chunk cs) @ ascii ''DONE'' @ rest) ?w" by (auto simp: path_bytes_def)
  have "download_left rest ?w \<lparr>rr_inner = s1, rr_remaining = 0\<rparr> ([] @ concat cs)"
    using assms(2) s1(2) by (intro download_leftI) simp_all
  then have left: "download_left rest ?w \<lparr>rr_inner = s1, rr_remaining = 0\<rparr> (concat cs)" by simp
  have "sink_holds out (sk_out out)" using assms(4) by (simp add: sink_holds_def)
  from pull.buffered_copy_copies [OF left this] obtain r' k'
    where c: "buffered_copy recv_read sink_write \<lparr>rr_inner = s1, rr_remaining = 0\<rparr> out = Some (Ok (), r', k')"
      "download_over rest ?w r'" "sink_holds k' (sk_out out @ concat cs)" by blast
  have "handle_recv_command path out s = Some (Ok (), k', rr_inner r')"
    using s1(1) c(1) by (simp add: handle_recv_command_def)
  from with_socket_open [OF b(1,2), of "handle_recv_command path out", OF this] c(2,3) assms(4) show ?thesis
    by (auto simp: server_pull_def sink_holds_def device_open_def download_over_def)
qed

text \<open>A device of which the server will deliver these bytes.\<close>

definition device_behind :: "bytes \<Rightarrow> server_device" where
  "device_behind incoming =
     \<lparr>sd_identifier = None, sd_transport_id = Some 3,
      sd_transport = \<lparr>st_socket = None,
        st_dials = [Ok \<lparr>so_in = [Chunk incoming], so_out = \<lparr>sk_script = [], sk_out = []\<rparr>, so_shut = False\<rparr>],
        st_past = []\<rparr>\<rparr>"

lemma device_behind_dials: "incoming \<noteq> [] \<Longrightarrow> dials (device_behind incoming) incoming"
  by (simp add: dials_def device_behind_def open_socket_def flowing_def)

theorem server_pull_exact_witness:
  "\<exists>d'. server_pull None (ascii ''/f'') \<lparr>sk_script = [], sk_out = []\<rparr>
      (device_behind (ascii ''OKAY'' @ ascii ''OKAY'' @ concat (map data_chunk [[1, 2], [3]]) @ ascii ''DONE'' @ []))
    = Some (Ok (), \<lparr>sk_script = [], sk_out = [1, 2, 3]\<rparr>, d')"
proof -
  let ?in = "ascii ''OKAY'' @ ascii ''OKAY'' @ concat (map data_chunk [[1, 2], [3]]) @ ascii ''DONE'' @ []"
  have "dials (device_behind ?in) ?in" by (rule device_behind_dials) simp
  from server_pull_exact [OF this, of "ascii ''/f''" "\<lparr>sk_script = [], sk_out = []\<rparr>" None] show ?thesis
    by (auto simp: fits_def)
qed

text \<open>
  C17: An upload through a server sends the file byte for byte as DATA chunks of at most 64 KiB, DONE
  and the time, and succeeds exactly when the device then answers OKAY; after FAIL it fails with the
  device's message.
\<close>

theorem server_push_exact:
  assumes "dials d (ascii ''OKAY'' @ ascii ''OKAY'' @ verdict @ rest)"
    and "verdict = (case refused of None \<Rightarrow> ascii ''OKAY'' | Some msg \<Rightarrow> ascii ''FAIL'' @ path_bytes msg)"
    and "\<forall>msg. refused = Some msg \<longrightarrow> utf8_valid msg \<and> length msg < 2 ^ 32"
    and "length path + 5 < 2 ^ 32" and "flowing file"
  shows "\<exists>d' cs. server_push term path (Some secs) file d
      = Some (case refused of None \<Rightarrow> Ok () | Some msg \<Rightarrow> Err (ADBRequestFailed msg), [], d')
    \<and> concat cs = source_bytes file \<and> (\<forall>c \<in> set cs. c \<noteq> [] \<and> length c \<le> BUFFER_SIZE)
    \<and> device_open d' rest (sync_requests term d Sync_Send @ path_bytes (path @ ascii '',0777'')
        @ concat (map data_chunk cs) @ ascii ''DONE'' @ to_le64 secs)"
proof -
  let ?to = "path @ ascii '',0777''"
  let ?w = "sync_requests term d Sync_Send @ path_bytes ?to"
  from begin_sync_open [OF assms(1), of "term" Sync_Send] obtain d1 s where b: "begin_sync term Sync_Send d = (Ok (), d1)"
    "st_socket (sd_transport d1) = Some s" "open_socket s (verdict @ rest) (sync_requests term d Sync_Send)"
    by (auto simp: device_open_def)
  have "length ?to < 2 ^ 32" using assms(4) by simp
  from write_path_open [OF b(3) this] obtain s1 where s1: "write_path ?to s = (Ok (), s1)"
    "open_socket s1 (verdict @ rest) ?w" by (auto simp: path_bytes_def)
  have "file_left file (source_bytes file)" using assms(5) by (simp add: file_left_def)
  moreover have "upload_holds (verdict @ rest) ?w s1 []"
    unfolding upload_holds_def using s1(2) by (intro exI [of _ "[]"]) simp
  ultimately obtain s2 where c: "buffered_copy read_source send_write file s1 = Some (Ok (), [], s2)"
    "upload_holds (verdict @ rest) ?w s2 (source_bytes file)"
    using push.buffered_copy_copies by (metis append_Nil)
  from c(2) obtain cs where cs: "open_socket s2 (verdict @ rest) (?w @ concat (map data_chunk cs))"
    "concat cs = source_bytes file" "\<forall>c \<in> set cs. c \<noteq> [] \<and> length c \<le> BUFFER_SIZE" by (auto simp: upload_holds_def)
  let ?w2 = "(?w @ concat (map data_chunk cs)) @ ascii ''DONE'' @ to_le64 secs"
  from so_write_open [OF cs(1)] obtain s3 where s3: "so_write_all (ascii ''DONE'' @ to_le64 secs) s2 = (Ok (), s3)"
    "open_socket s3 (verdict @ rest) ?w2" by blast
  from send_verdict_open [OF s3(2) assms(2,3)] obtain s4
    where s4: "send_verdict s3 = (case refused of None \<Rightarrow> Ok () | Some msg \<Rightarrow> Err (ADBRequestFailed msg), s4)"
      "open_socket s4 rest ?w2" by blast
  have "handle_send_command path (Some secs) file s
      = Some (case refused of None \<Rightarrow> Ok () | Some msg \<Rightarrow> Err (ADBRequestFailed msg), [], s4)"
    using s1(1) c(1) s3(1) s4(1) by (simp add: handle_send_command_def send_done_def seq_io_Ok del: ascii_Cons)
  from with_socket_open [OF b(1,2), of "handle_send_command path (Some secs) file", OF this] s4(2) cs(2,3) show ?thesis
    by (intro exI conjI) (auto simp: server_push_def device_open_def)
qed


theorem server_push_exact_witness:
  "\<exists>d'. server_push None (ascii ''/f'') (Some 7) [Chunk [1, 2]]
      (device_behind (ascii ''OKAY'' @ ascii ''OKAY'' @ (ascii ''FAIL'' @ path_bytes (ascii ''no'')) @ []))
    = Some (Err (ADBRequestFailed (ascii ''no'')), [], d')"
proof -
  let ?v = "ascii ''FAIL'' @ path_bytes (ascii ''no'')"
  have "dials (device_behind (ascii ''OKAY'' @ ascii ''OKAY'' @ ?v @ [])) (ascii ''OKAY'' @ ascii ''OKAY'' @ ?v @ [])"
    by (rule device_behind_dials) simp
  moreover have "utf8_valid (ascii ''no'')" by (rule utf8_valid_ascii) (simp add: word_less_nat_alt)
  ultimately show ?thesis
    using server_push_exact [of "device_behind (ascii ''OKAY'' @ ascii ''OKAY'' @ ?v @ [])" ?v "[]"
      "Some (ascii ''no'')" "ascii ''/f''" "[Chunk [1, 2]]" None 7]
    by (auto simp: flowing_def)
qed

text \<open>
  A connection that ends right behind the header of a DATA chunk is taken for the end of the file: the
  download succeeds with nothing of the four bytes announced.
\<close>

lemma truncated_download_succeeds:
  "handle_recv_command [] \<lparr>sk_script = [], sk_out = []\<rparr>
      \<lparr>so_in = [Chunk (ascii ''DATA'' @ to_le32 4)], so_out = \<lparr>sk_script = [], sk_out = []\<rparr>, so_shut = False\<rparr>
    = Some (Ok (), \<lparr>sk_script = [], sk_out = []\<rparr>,
        \<lparr>so_in = [], so_out = \<lparr>sk_script = [], sk_out = to_le32 0\<rparr>, so_shut = False\<rparr>)"
proof -
  let ?s = "\<lambda>i. \<lparr>so_in = i, so_out = \<lparr>sk_script = [], sk_out = to_le32 0\<rparr>, so_shut = False\<rparr>"
  have w: "write_path [] \<lparr>so_in = [Chunk (ascii ''DATA'' @ to_le32 4)], so_out = \<lparr>sk_script = [], sk_out = []\<rparr>, so_shut = False\<rparr>
      = (Ok (), ?s [Chunk (ascii ''DATA'' @ to_le32 4)])"
    by (simp add: write_path_def bind_io_def so_write_all_def)
  have "open_socket (?s [Chunk (ascii ''DATA'' @ to_le32 4)]) (ascii ''DATA'' @ to_le32 4 @ []) (to_le32 0)"
    by (simp add: open_socket_def flowing_def)
  from so_read_exact_open [OF this, of 4] obtain s1
    where s1: "so_read_exact 4 (?s [Chunk (ascii ''DATA'' @ to_le32 4)]) = (Ok (ascii ''DATA''), s1)"
      "open_socket s1 (to_le32 4 @ []) (to_le32 0)" by auto
  from so_read_exact_open [OF s1(2), of 4] obtain s2
    where s2: "so_read_exact 4 s1 = (Ok (to_le32 4), s2)" "open_socket s2 [] (to_le32 0)" by auto
  then have "s2 = ?s []" by (cases s2; cases "so_out s2") (auto simp: open_socket_def dest: flowing_end)
  with s1(1) s2(1) have "recv_read BUFFER_SIZE \<lparr>rr_inner = ?s [Chunk (ascii ''DATA'' @ to_le32 4)], rr_remaining = 0\<rparr>
      = (Ok [], \<lparr>rr_inner = ?s [], rr_remaining = 4\<rparr>)"
    by (simp add: recv_read_def recv_header_def recv_data_def on_inner_def bind_io_def so_body_length_def so_read_def
        del: ascii_Cons)
  with w show ?thesis
    by (simp add: handle_recv_command_def buffered_copy_def copy_loop.simps bw_flush_def)
qed

end
