(* ===== verification/Server_Commands.thy ===== *)
theory Server_Commands
  imports Server_Device
begin

text \<open>
  The other services of \<^verbatim>\<open>adb_client/src/server_device\<close>: stat, listings, shell commands, installation,
  framebuffer and the filter for logs.
\<close>

section \<open>Stat and listings\<close>

definition so_u32 :: "(server_socket, u32) io" where
  "so_u32 = so_body_length"

text \<open>The length and the path, as two writes.\<close>

definition write_length_and_path :: "bytes \<Rightarrow> (server_socket, unit) io" where
  "write_length_and_path path =
     bind_io (lift (u32_try_from (length path))) (\<lambda>n. seq_io (so_write_all (to_le32 n)) (so_write_all path))"

definition handle_stat_command :: "bytes \<Rightarrow> (server_socket, stat_response) io" where
  "handle_stat_command path =
     seq_io (write_length_and_path path)
       (bind_io (so_read_exact 4) (\<lambda>response.
          if \<not> utf8_valid response then lift (Err Utf8StrError)
          else if response = ascii ''STAT'' then bind_io (so_read_exact 12) (\<lambda>data. lift (stat_response_decode data))
          else lift (Err (UnknownResponseType (ascii ''Unknown response '' @ response)))))"

definition server_stat :: "bytes option \<Rightarrow> bytes \<Rightarrow> (server_device, stat_response) io" where
  "server_stat term path = seq_io (begin_sync term Sync_Stat) (dev (raw (handle_stat_command path)))"

definition read_dent :: "(server_socket, list_item_type) io" where
  "read_dent =
     bind_io so_u32 (\<lambda>mode.
     bind_io so_u32 (\<lambda>size.
     bind_io so_u32 (\<lambda>time.
     bind_io so_u32 (\<lambda>name_len.
     bind_io (so_read_exact (unat name_len)) (\<lambda>name.
       lift (if utf8_valid name then
           Ok (from_mode_and_entry mode
             \<lparr>li_name = name, li_time = time, li_permissions = mode AND 0x1FF, li_size = size\<rparr>)
         else Err Utf8FromBytesError))))))"

text \<open>A status that is neither DENT nor DONE is logged, and the next four bytes are taken for a status.\<close>

partial_function (option) dent_loop ::
    "list_item_type list \<Rightarrow> server_socket \<Rightarrow> (list_item_type list result \<times> server_socket) option" where
  "dent_loop items s =
     (case so_read_exact 4 s of
        (Ok response, s1) \<Rightarrow>
          if \<not> utf8_valid response then Some (Err Utf8StrError, s1)
          else if response = ascii ''DENT'' then
            (case read_dent s1 of
               (Ok item, s2) \<Rightarrow> dent_loop (items @ [item]) s2
             | (Err e, s2) \<Rightarrow> Some (Err e, s2)
             | (Panic, s2) \<Rightarrow> Some (Panic, s2))
          else if response = ascii ''DONE'' then Some (Ok items, s1)
          else dent_loop items s1
      | (Err e, s1) \<Rightarrow> Some (Err e, s1)
      | (Panic, s1) \<Rightarrow> Some (Panic, s1))"

definition handle_list_command :: "bytes \<Rightarrow> server_socket \<Rightarrow> (list_item_type list result \<times> unit \<times> server_socket) option" where
  "handle_list_command path s =
     (case write_length_and_path path s of
        (Ok _, s1) \<Rightarrow> map_option (\<lambda>(r, s2). (r, (), s2)) (dent_loop [] s1)
      | (Err e, s1) \<Rightarrow> Some (Err e, (), s1)
      | (Panic, s1) \<Rightarrow> Some (Panic, (), s1))"

definition server_list ::
    "bytes option \<Rightarrow> bytes \<Rightarrow> server_device \<Rightarrow> (list_item_type list result \<times> unit \<times> server_device) option" where
  "server_list term path = begin_then (begin_sync term Sync_List) (with_socket (handle_list_command path) ()) ()"

section \<open>Shell commands\<close>

text \<open>
  Version 1: raw output until the connection ends. Of the errors that end the loop quietly the model
  has the unexpected end; a broken pipe is one of its other errors.
\<close>

partial_function (option) shell_v1_loop ::
    "sink option \<Rightarrow> server_socket \<Rightarrow> (u8 option result \<times> sink option \<times> server_socket) option" where
  "shell_v1_loop out s =
     (case so_read BUFFER_SIZE s of
        (Ok bs, s') \<Rightarrow>
          if bs = [] then Some (Ok None, out, s')
          else (case write_output bs out of
              (Ok _, out') \<Rightarrow> shell_v1_loop out' s'
            | (Err e, out') \<Rightarrow> Some (Err e, out', s')
            | (Panic, out') \<Rightarrow> Some (Panic, out', s'))
      | (Err e, s') \<Rightarrow>
          Some (if (case e of IOError UnexpectedEof _ \<Rightarrow> True | _ \<Rightarrow> False) then Ok None else Err e, out, s')
      | (Panic, s') \<Rightarrow> Some (Panic, out, s'))"

datatype shell_channel = Stdout | Stderr | ExitStatus

definition shell_channel_try_from :: "u8 \<Rightarrow> shell_channel result" where
  "shell_channel_try_from v =
     (if v = 1 then Ok Stdout else if v = 2 then Ok Stderr else if v = 3 then Ok ExitStatus
      else Err (IOError InvalidData (Message (ascii ''Invalid channel''))))"

text \<open>Standard output and error; the errors go to the output when there is nothing for them.\<close>

type_synonym outputs = "sink option \<times> sink option"

definition write_channel :: "shell_channel \<Rightarrow> bytes \<Rightarrow> outputs \<Rightarrow> unit result \<times> outputs" where
  "write_channel c bs outs =
     (case outs of (out, err) \<Rightarrow>
       (case c of
          Stdout \<Rightarrow> (case write_output bs out of (r, out') \<Rightarrow> (r, out', err))
        | Stderr \<Rightarrow>
            if err \<noteq> None then (case write_output bs err of (r, err') \<Rightarrow> (r, out, err'))
            else (case write_output bs out of (r, out') \<Rightarrow> (r, out', err))
        | ExitStatus \<Rightarrow> (Ok (), outs)))"

text \<open>
  The payload of an output packet. The first component says that the connection ended in the middle,
  upon which the whole command ends with the exit status known so far.
\<close>

partial_function (option) payload_loop ::
    "shell_channel \<Rightarrow> nat \<Rightarrow> outputs \<Rightarrow> server_socket \<Rightarrow> (bool result \<times> outputs \<times> server_socket) option" where
  "payload_loop c remainder outs s =
     (if remainder = 0 then Some (Ok False, outs, s)
      else case so_read (min remainder BUFFER_SIZE) s of
        (Ok bs, s') \<Rightarrow>
          if bs = [] then Some (Ok True, outs, s')
          else (case write_channel c bs outs of
              (Ok _, outs') \<Rightarrow> payload_loop c (remainder - length bs) outs' s'
            | (Err e, outs') \<Rightarrow> Some (Err e, outs', s')
            | (Panic, outs') \<Rightarrow> Some (Panic, outs', s'))
      | (Err e, s') \<Rightarrow> Some (Err e, outs, s')
      | (Panic, s') \<Rightarrow> Some (Panic, outs, s'))"

definition unexpected_end :: "rust_error \<Rightarrow> bool" where
  "unexpected_end e \<longleftrightarrow> (case e of IOError UnexpectedEof _ \<Rightarrow> True | _ \<Rightarrow> False)"

definition spurious_exit :: "nat \<Rightarrow> rust_error" where
  "spurious_exit n =
     ADBShellV2ParseError (ascii ''Spurious exit status packet with size of '' @ show_nat n @ ascii '' (should be 1)'')"

partial_function (option) server_shell_loop ::
    "u8 option \<Rightarrow> outputs \<Rightarrow> server_socket \<Rightarrow> (u8 option result \<times> outputs \<times> server_socket) option" where
  "server_shell_loop exit outs s =
     (case so_read_exact 5 s of
        (Err e, s1) \<Rightarrow> Some (if unexpected_end e then Ok None else Err e, outs, s1)
      | (Panic, s1) \<Rightarrow> Some (Panic, outs, s1)
      | (Ok metadata, s1) \<Rightarrow>
          (case shell_channel_try_from (hd metadata) of
             Err e \<Rightarrow> Some (Err e, outs, s1)
           | Panic \<Rightarrow> Some (Panic, outs, s1)
           | Ok c \<Rightarrow>
               (let n = unat (from_le32 (drop 1 metadata))
                in if n = 0 then server_shell_loop exit outs s1
                   else if c = ExitStatus then
                     (if n \<noteq> 1 then Some (Err (spurious_exit n), outs, s1)
                      else case so_read_exact 1 s1 of
                          (Ok b, s2) \<Rightarrow> server_shell_loop (Some (hd b)) outs s2
                        | (Err e, s2) \<Rightarrow> Some (if unexpected_end e then Ok None else Err e, outs, s2)
                        | (Panic, s2) \<Rightarrow> Some (Panic, outs, s2))
                   else Option.bind (payload_loop c n outs s1) (\<lambda>(r, outs', s2).
                     case r of
                       Ok ended \<Rightarrow> if ended then Some (Ok exit, outs', s2) else server_shell_loop exit outs' s2
                     | Err e \<Rightarrow> Some (Err e, outs', s2)
                     | Panic \<Rightarrow> Some (Panic, outs', s2)))))"

text \<open>The error stream is only looked at by version 2.\<close>

definition shell_v1 ::
    "bytes option \<Rightarrow> bytes \<Rightarrow> outputs \<Rightarrow> server_device \<Rightarrow> (u8 option result \<times> outputs \<times> server_device) option" where
  "shell_v1 term command outs =
     begin_then (dev (send_adb_request term (Local (ShellCommand command []))))
       (with_socket (\<lambda>s. map_option (\<lambda>(r, out, s'). (r, (out, snd outs), s')) (shell_v1_loop (fst outs) s)) outs) outs"

definition shell_v2_arguments :: "bytes option \<Rightarrow> bytes list" where
  "shell_v2_arguments term = ascii ''v2'' # (case term of None \<Rightarrow> [] | Some t \<Rightarrow> [ascii ''TERM='' @ t])"

definition shell_v2 ::
    "bytes option \<Rightarrow> bytes \<Rightarrow> outputs \<Rightarrow> server_device \<Rightarrow> (u8 option result \<times> outputs \<times> server_device) option" where
  "shell_v2 term command outs =
     begin_then (dev (send_adb_request term (Local (ShellCommand command (shell_v2_arguments term)))))
       (with_socket (server_shell_loop None outs) outs) outs"

definition server_shell_command ::
    "bytes option \<Rightarrow> bytes \<Rightarrow> outputs \<Rightarrow> server_device \<Rightarrow> (u8 option result \<times> outputs \<times> server_device) option" where
  "server_shell_command term command outs d =
     (case host_features term d of (features, d1) \<Rightarrow>
       let use_shell_v2 = (case features of Ok fs \<Rightarrow> ShellV2 \<in> set fs \<or> Cmd \<in> set fs | _ \<Rightarrow> False)
       in if features = Panic then Some (Panic, outs, d1)
          else begin_then (set_serial_transport term) (if use_shell_v2 then shell_v2 term command outs else shell_v1 term command outs) outs d1)"

section \<open>Installation\<close>

partial_function (option) copy_to_socket :: "'s reader \<Rightarrow> 's \<Rightarrow> server_socket \<Rightarrow> (unit result \<times> 's \<times> server_socket) option" where
  "copy_to_socket rd f s =
     (case rd 8192 f of
        (Ok bs, f') \<Rightarrow>
          if bs = [] then Some (Ok (), f', s)
          else (case so_write_all bs s of
              (Ok _, s') \<Rightarrow> copy_to_socket rd f' s'
            | (r, s') \<Rightarrow> Some (r, f', s'))
      | (Err e, f') \<Rightarrow>
          if (case e of IOError Interrupted _ \<Rightarrow> True | _ \<Rightarrow> False) then copy_to_socket rd f' s else Some (Err e, f', s)
      | (Panic, f') \<Rightarrow> Some (Panic, f', s))"

definition abb_arguments :: "bytes option \<Rightarrow> bytes list \<Rightarrow> u64 \<Rightarrow> bytes list" where
  "abb_arguments user flags amount =
     [ascii ''package'', ascii ''install''] @ (case user of None \<Rightarrow> [] | Some u \<Rightarrow> [ascii ''--user'', u]) @ flags
     @ [ascii ''-S'', show_nat (unat amount)]"

text \<open>\<open>abb_exec\<close> first; where the server refuses it, the streamed install on a new connection.\<close>

definition install_request :: "bytes option \<Rightarrow> bytes option \<Rightarrow> bytes list \<Rightarrow> u64 \<Rightarrow> (server_device, unit) io" where
  "install_request term user flags amount =
     seq_io (set_serial_transport term) (\<lambda>d.
       case dev (send_adb_request term (Local (AbbExec (abb_arguments user flags amount)))) d of
         (Ok _, d') \<Rightarrow> (Ok (), d')
       | (Err _, d') \<Rightarrow> device_request term (Install amount user flags) d'
       | (Panic, d') \<Rightarrow> (Panic, d'))"

definition install_content :: "source \<Rightarrow> server_socket \<Rightarrow> (unit result \<times> source \<times> server_socket) option" where
  "install_content file s =
     map_option (\<lambda>(r, f, s'). case r of
         Ok _ \<Rightarrow> (case bind_io (so_read 1024) (\<lambda>d. lift (success_or_message d)) s' of (q, s2) \<Rightarrow> (q, f, s2))
       | _ \<Rightarrow> (r, f, s')) (copy_to_socket read_source file s)"

definition install_with_options ::
    "bytes option \<Rightarrow> bytes option \<Rightarrow> u64 result \<Rightarrow> source \<Rightarrow> bytes option \<Rightarrow> bytes list \<Rightarrow> server_device
      \<Rightarrow> (unit result \<times> source \<times> server_device) option" where
  "install_with_options term extension file_size file user flags =
     begin_then (bind_io (lift (bind_outcome (check_extension_is_apk extension) (\<lambda>_. file_size))) (install_request term user flags))
       (with_socket (install_content file) file) file"

section \<open>Framebuffer\<close>

definition framebuffer_data :: "u32 \<Rightarrow> (server_socket, u32 \<times> u32 \<times> bytes) io" where
  "framebuffer_data version =
     (if version = 1 then
        bind_io (so_read_exact 48) (\<lambda>b. let info = framebuffer_info_v1 b in
          bind_io (so_read_exact (unat (f1_size info))) (\<lambda>data. lift (Ok (f1_width info, f1_height info, data))))
      else if version = 2 then
        bind_io (so_read_exact 52) (\<lambda>b. let info = framebuffer_info_v2 b in
          bind_io (so_read_exact (unat (f2_size info))) (\<lambda>data. lift (Ok (f2_width info, f2_height info, data))))
      else lift (Err (UnimplementedFramebufferImageVersion version)))"

definition server_framebuffer ::
    "(u32 \<Rightarrow> u32 \<Rightarrow> bytes \<Rightarrow> 'image option) \<Rightarrow> bytes option \<Rightarrow> (server_device, 'image) io" where
  "server_framebuffer from_vec term =
     seq_io (device_request term FrameBuffer)
       (bind_io (dev (raw (bind_io so_u32 framebuffer_data))) (\<lambda>(width, height, data).
          lift (ok_or FramebufferConversionError (from_vec width height data))))"

section \<open>The filter for logs\<close>

text \<open>\<open>LogFilter::write\<close>: complete lines are passed on, the rest is kept for later.\<close>

record log_filter =
  lf_writer :: sink
  lf_buffer :: bytes

fun complete_lines :: "bytes \<Rightarrow> bytes list \<times> bytes" where
  "complete_lines [] = ([], [])"
| "complete_lines (b # bs) =
     (case complete_lines bs of (ls, rest) \<Rightarrow>
       if b = 10 then ([b] # ls, rest)
       else (case ls of [] \<Rightarrow> ([], b # rest) | l # ls' \<Rightarrow> ((b # l) # ls', rest)))"

fun write_lines :: "bytes list \<Rightarrow> (sink, unit) io" where
  "write_lines [] = lift (Ok ())"
| "write_lines (l # ls) = seq_io (write_all l) (write_lines ls)"

text \<open>When a line cannot be written the buffer keeps everything, the lines already written included.\<close>

definition log_write :: "bytes \<Rightarrow> (log_filter, nat) io" where
  "log_write bs f =
     (let buffer = lf_buffer f @ bs in
      case complete_lines buffer of (ls, rest) \<Rightarrow>
        (case write_lines ls (lf_writer f) of
           (Ok _, k) \<Rightarrow> (Ok (length bs), \<lparr>lf_writer = k, lf_buffer = rest\<rparr>)
         | (Err e, k) \<Rightarrow> (Err e, \<lparr>lf_writer = k, lf_buffer = buffer\<rparr>)
         | (Panic, k) \<Rightarrow> (Panic, \<lparr>lf_writer = k, lf_buffer = buffer\<rparr>)))"

lemma complete_lines_split:
  "complete_lines bs = (ls, rest) \<Longrightarrow> bs = concat ls @ rest \<and> 10 \<notin> set rest \<and> (\<forall>l \<in> set ls. last l = 10 \<and> l \<noteq> [])"
  by (induction bs arbitrary: ls rest) (auto split: prod.splits if_splits list.splits)

lemma write_lines_accepting:
  "sk_script k = [] \<Longrightarrow> write_lines ls k = (Ok (), k\<lparr>sk_out := sk_out k @ concat ls\<rparr>)"
  by (induction ls arbitrary: k) (simp_all add: seq_io_def bind_io_def write_all_def)

text \<open>Nothing is lost or reordered: what was passed on and what is kept are all that was written.\<close>

lemma log_write_accepting:
  assumes "sk_script (lf_writer f) = []"
  shows "\<exists>f'. log_write bs f = (Ok (length bs), f') \<and> sk_script (lf_writer f') = []
    \<and> sk_out (lf_writer f') @ lf_buffer f' = sk_out (lf_writer f) @ lf_buffer f @ bs \<and> 10 \<notin> set (lf_buffer f')"
proof -
  obtain ls rest where c: "complete_lines (lf_buffer f @ bs) = (ls, rest)" by (meson surj_pair)
  let ?k = "(lf_writer f)\<lparr>sk_out := sk_out (lf_writer f) @ concat ls\<rparr>"
  have "log_write bs f = (Ok (length bs), \<lparr>lf_writer = ?k, lf_buffer = rest\<rparr>)"
    using write_lines_accepting [OF assms, of ls] by (simp add: log_write_def c)
  with complete_lines_split [OF c] assms show ?thesis by simp
qed

text \<open>A last line without its newline is never passed on.\<close>

lemma last_line_is_kept:
  assumes "sk_script (lf_writer f) = []" and "lf_buffer f = []" and "10 \<notin> set bs"
  shows "log_write bs f = (Ok (length bs), f\<lparr>lf_buffer := bs\<rparr>)"
proof -
  have "complete_lines bs = ([], bs)" using assms(3) by (induction bs) auto
  with assms show ?thesis by (cases f) (simp add: log_write_def)
qed


section \<open>What a shell command delivers\<close>

definition channel_number :: "shell_channel \<Rightarrow> u8" where
  "channel_number c = (case c of Stdout \<Rightarrow> 1 | Stderr \<Rightarrow> 2 | ExitStatus \<Rightarrow> 3)"

definition packet_bytes :: "shell_channel \<times> bytes \<Rightarrow> bytes" where
  "packet_bytes p = channel_number (fst p) # to_le32 (word_of_nat (length (snd p))) @ snd p"

definition packet_ok :: "shell_channel \<times> bytes \<Rightarrow> bool" where
  "packet_ok p \<longleftrightarrow> length (snd p) < 2 ^ 32 \<and> (fst p = ExitStatus \<longrightarrow> length (snd p) \<le> 1)"

definition append_out :: "bytes \<Rightarrow> sink option \<Rightarrow> sink option" where
  "append_out bs = map_option (\<lambda>k. k\<lparr>sk_out := sk_out k @ bs\<rparr>)"

text \<open>What a packet adds to the outputs.\<close>

definition delivers :: "shell_channel \<times> bytes \<Rightarrow> outputs \<Rightarrow> outputs" where
  "delivers p outs =
     (case outs of (out, err) \<Rightarrow>
       (case fst p of
          Stdout \<Rightarrow> (append_out (snd p) out, err)
        | Stderr \<Rightarrow> if err \<noteq> None then (out, append_out (snd p) err) else (append_out (snd p) out, err)
        | ExitStatus \<Rightarrow> outs))"

definition accepting :: "sink option \<Rightarrow> bool" where
  "accepting out \<longleftrightarrow> (\<forall>k. out = Some k \<longrightarrow> sk_script k = [])"

definition outs_accept :: "outputs \<Rightarrow> bool" where
  "outs_accept outs \<longleftrightarrow> accepting (fst outs) \<and> accepting (snd outs)"

lemma write_output_accepting: "accepting out \<Longrightarrow> write_output bs out = (Ok (), append_out bs out)"
  by (cases out) (simp_all add: write_output_def append_out_def accepting_def)

lemma accepting_append_out [simp]: "accepting (append_out bs out) = accepting out"
  by (cases out) (simp_all add: append_out_def accepting_def)

lemma append_out_append: "append_out (a @ b) out = append_out b (append_out a out)"
  by (cases out) (simp_all add: append_out_def)

lemma append_out_None [simp]: "append_out bs out = None \<longleftrightarrow> out = None"
  by (simp add: append_out_def)

lemma append_out_Nil [simp]: "append_out [] out = out"
  by (cases out) (simp_all add: append_out_def)

lemma outs_accept_delivers: "outs_accept outs \<Longrightarrow> outs_accept (delivers p outs)"
  by (cases outs) (auto simp: outs_accept_def delivers_def split: shell_channel.split)

lemma delivers_append: "delivers (c, a @ b) outs = delivers (c, b) (delivers (c, a) outs)"
  by (cases outs) (auto simp: delivers_def append_out_append split: shell_channel.split)

lemma delivers_Nil [simp]: "delivers (c, []) outs = outs"
  by (cases outs) (auto simp: delivers_def split: shell_channel.split)

lemma write_channel_delivers:
  "outs_accept outs \<Longrightarrow> c \<noteq> ExitStatus \<Longrightarrow> write_channel c bs outs = (Ok (), delivers (c, bs) outs)"
  by (cases outs; cases c) (auto simp: outs_accept_def write_channel_def delivers_def write_output_accepting)

lemma payload_loop_delivers:
  assumes "open_socket s (p @ rest) w" and "outs_accept outs" and "c \<noteq> ExitStatus"
  shows "\<exists>s'. payload_loop c (length p) outs s = Some (Ok False, delivers (c, p) outs, s') \<and> open_socket s' rest w"
  using assms
proof (induction "length p" arbitrary: p outs s rule: less_induct)
  case less
  show ?case
  proof (cases "p = []")
    case True
    with less.prems(1) show ?thesis by (subst payload_loop.simps) simp
  next
    case False
    let ?n = "min (length p) BUFFER_SIZE"
    have "0 < ?n" using False by (simp add: BUFFER_SIZE_def)
    from so_read_open [OF less.prems(1) _ this] False obtain bs zs s1
      where r: "so_read ?n s = (Ok bs, s1)" "p @ rest = bs @ zs" "bs \<noteq> []" "length bs \<le> ?n" "open_socket s1 zs w" by auto
    from append_split [OF r(2)] r(4) obtain ys where ys: "p = bs @ ys" "zs = ys @ rest" by auto
    have len: "length ys < length p" using ys(1) r(3) by simp
    have o1: "open_socket s1 (ys @ rest) w" using r(5) ys(2) by simp
    have o2: "outs_accept (delivers (c, bs) outs)" by (rule outs_accept_delivers [OF less.prems(2)])
    from less.hyps [OF len o1 o2 less.prems(3)] obtain s'
      where "payload_loop c (length ys) (delivers (c, bs) outs) s1 = Some (Ok False, delivers (c, p) outs, s')"
        "open_socket s' rest w" unfolding ys(1) delivers_append by blast
    moreover have "length p - length bs = length ys" using ys(1) by simp
    ultimately show ?thesis
      using r(1,3) False write_channel_delivers [OF less.prems(2,3)] by (subst payload_loop.simps) simp
  qed
qed

lemma shell_packet_header:
  assumes "open_socket s (packet_bytes p @ rest) w"
  shows "\<exists>s1. so_read_exact 5 s = (Ok (channel_number (fst p) # to_le32 (word_of_nat (length (snd p)))), s1)
    \<and> open_socket s1 (snd p @ rest) w"
  using so_read_exact_open [of s "channel_number (fst p) # to_le32 (word_of_nat (length (snd p)))" "snd p @ rest" w 5] assms
  by (simp add: packet_bytes_def)

lemma channel_number_inverse: "shell_channel_try_from (channel_number c) = Ok c"
  by (cases c) (simp_all add: shell_channel_try_from_def channel_number_def)

lemma server_shell_packet:
  assumes "open_socket s (packet_bytes p @ rest) w" and "outs_accept outs" and "packet_ok p"
  shows "\<exists>s' exit'. server_shell_loop exit outs s = server_shell_loop exit' (delivers p outs) s' \<and> open_socket s' rest w"
proof -
  obtain c bs where p: "p = (c, bs)" by (meson surj_pair)
  from shell_packet_header [OF assms(1)] obtain s1
    where s1: "so_read_exact 5 s = (Ok (channel_number c # to_le32 (word_of_nat (length bs))), s1)" "open_socket s1 (bs @ rest) w"
    by (auto simp: p)
  have n: "unat (word_of_nat (length bs) :: u32) = length bs" using assms(3) by (simp add: packet_ok_def p)
  note step = server_shell_loop.simps [of exit outs s] s1(1) n channel_number_inverse
  consider "bs = []" | "bs \<noteq> []" "c = ExitStatus" | "bs \<noteq> []" "c \<noteq> ExitStatus" by blast
  then show ?thesis
  proof cases
    case 1
    with s1 have "server_shell_loop exit outs s = server_shell_loop exit outs s1" by (simp add: step Let_def)
    with s1(2) 1 show ?thesis by (auto simp: p)
  next
    case 2
    with assms(3) have len: "length bs = 1" by (cases bs) (auto simp: packet_ok_def p)
    from so_read_exact_open [OF s1(2) len [symmetric]] obtain s2 where "so_read_exact 1 s1 = (Ok bs, s2)" "open_socket s2 rest w"
      by blast
    moreover from this(1) have "server_shell_loop exit outs s = server_shell_loop (Some (hd bs)) outs s2"
      using 2 len by (simp add: step Let_def)
    moreover have "delivers p outs = outs" using 2 by (cases outs) (simp add: delivers_def p)
    ultimately show ?thesis by auto
  next
    case 3
    from payload_loop_delivers [OF s1(2) assms(2) 3(2)] obtain s2
      where "payload_loop c (length bs) outs s1 = Some (Ok False, delivers (c, bs) outs, s2)" "open_socket s2 rest w" by blast
    moreover from this(1) have "server_shell_loop exit outs s = server_shell_loop exit (delivers p outs) s2"
      using 3 by (simp add: step Let_def p)
    ultimately show ?thesis by blast
  qed
qed

text \<open>
  C18: The output of a shell command through a server is complete: every packet reaches standard output
  or error (or the one that there is) in order, whatever the sizes of the packets and of the pieces the
  connection delivers. The exit status is not: a connection that ends behind the last packet makes the
  result \<open>None\<close>, also when a packet with the status has arrived.
\<close>

theorem server_shell_output_exact:
  assumes "open_socket s (concat (map packet_bytes ps)) w" and "outs_accept outs" and "\<forall>p \<in> set ps. packet_ok p"
  shows "\<exists>s'. server_shell_loop exit outs s = Some (Ok None, fold delivers ps outs, s')"
  using assms
proof (induction ps arbitrary: exit outs s)
  case Nil
  then have "so_in s = []" "\<not> so_shut s" by (auto simp: open_socket_def dest: flowing_end)
  then have "\<exists>s'. so_read_exact 5 s = (Err (IOError UnexpectedEof (Message (ascii ''failed to fill whole buffer''))), s')"
    by (simp add: so_read_exact_def read_full.simps)
  then show ?case by (subst server_shell_loop.simps) (auto simp: unexpected_end_def)
next
  case (Cons p ps)
  from Cons.prems have o: "open_socket s (packet_bytes p @ concat (map packet_bytes ps)) w" and ok: "packet_ok p"
    "\<forall>p \<in> set ps. packet_ok p" by simp_all
  from server_shell_packet [OF o Cons.prems(2) ok(1), of exit] obtain s' exit'
    where s': "server_shell_loop exit outs s = server_shell_loop exit' (delivers p outs) s'"
      "open_socket s' (concat (map packet_bytes ps)) w" by blast
  from Cons.IH [OF s'(2) outs_accept_delivers [OF Cons.prems(2)] ok(2), of exit'] s'(1) show ?case by simp
qed

theorem server_shell_output_exact_witness:
  "let k = \<lparr>sk_script = [], sk_out = []\<rparr>; ps = [(Stdout, [1, 2]), (Stderr, [3]), (ExitStatus, [9])]
   in \<exists>s'. server_shell_loop None (Some k, Some k)
        \<lparr>so_in = [Chunk (concat (map packet_bytes ps))], so_out = k, so_shut = False\<rparr>
      = Some (Ok None, (Some \<lparr>sk_script = [], sk_out = [1, 2]\<rparr>, Some \<lparr>sk_script = [], sk_out = [3]\<rparr>), s')"
proof -
  let ?k = "\<lparr>sk_script = [], sk_out = []\<rparr>"
  let ?ps = "[(Stdout, [1, 2]), (Stderr, [3]), (ExitStatus, [9])]"
  let ?s = "\<lparr>so_in = [Chunk (concat (map packet_bytes ?ps))], so_out = ?k, so_shut = False\<rparr>"
  have "open_socket ?s (concat (map packet_bytes ?ps)) []" by (simp add: open_socket_def flowing_def packet_bytes_def)
  from server_shell_output_exact [OF this, of "(Some ?k, Some ?k)" None]
  have "\<exists>s'. server_shell_loop None (Some ?k, Some ?k) ?s = Some (Ok None, fold delivers ?ps (Some ?k, Some ?k), s')"
    by (simp add: outs_accept_def accepting_def packet_ok_def)
  then show ?thesis by (simp add: Let_def delivers_def append_out_def)
qed

end
