(* ===== verification/Server_Host.thy ===== *)
theory Server_Host
  imports Server_Transport
begin

text \<open>
  \<^verbatim>\<open>adb_client/src/server\<close>: the ADB server itself, its lists of devices and its own commands. The
  groups of a regular expression of the source are a parameter (\<open>captures\<close>), as is the decoder of the
  protobuf message of the server's status.
\<close>

section \<open>Lists of devices\<close>

record device_short =
  ds_identifier :: bytes
  ds_state :: device_state

definition state_from_bytes :: "bytes \<Rightarrow> device_state result" where
  "state_from_bytes bs = bind_outcome (body_text bs) device_state_from_str"

definition device_short_try_from :: "(bytes \<Rightarrow> (bytes \<times> bytes) option) \<Rightarrow> bytes \<Rightarrow> device_short result" where
  "device_short_try_from captures value =
     bind_outcome (ok_or RegexParsingError (captures value)) (\<lambda>(identifier, state).
     bind_outcome (body_text identifier) (\<lambda>identifier.
     bind_outcome (state_from_bytes state) (\<lambda>state. Ok \<lparr>ds_identifier = identifier, ds_state = state\<rparr>)))"

definition device_short_text :: "device_short \<Rightarrow> bytes" where
  "device_short_text d = ds_identifier d @ [9] @ device_state_text (ds_state d)"

record device_long =
  dl_identifier :: bytes
  dl_state :: device_state
  dl_usb :: bytes
  dl_product :: bytes
  dl_model :: bytes
  dl_device :: bytes
  dl_transport_id :: u32

record long_groups =
  lg_identifier :: bytes
  lg_state :: bytes
  lg_usb1 :: "bytes option"
  lg_usb2 :: "bytes option"
  lg_product :: "bytes option"
  lg_model :: "bytes option"
  lg_device :: "bytes option"
  lg_transport_id :: "bytes option"

definition text_or_unk :: "bytes option \<Rightarrow> bytes result" where
  "text_or_unk g = (case g of None \<Rightarrow> Ok (ascii ''Unk'') | Some bs \<Rightarrow> body_text bs)"

definition transport_id_field :: "bytes option \<Rightarrow> u32 result" where
  "transport_id_field g =
     (case g of
        None \<Rightarrow> Ok 0
      | Some bs \<Rightarrow>
          if \<not> utf8_valid bs then Err Utf8StrError
          else bind_outcome (ok_or ParseIntError (parse_uint 10 32 bs)) (\<lambda>n. Ok (word_of_nat n)))"

definition device_long_try_from :: "(bytes \<Rightarrow> long_groups option) \<Rightarrow> bytes \<Rightarrow> device_long result" where
  "device_long_try_from captures value =
     bind_outcome (ok_or RegexParsingError (captures value)) (\<lambda>g.
     bind_outcome (body_text (lg_identifier g)) (\<lambda>identifier.
     bind_outcome (state_from_bytes (lg_state g)) (\<lambda>state.
     bind_outcome (text_or_unk (case lg_usb1 g of None \<Rightarrow> lg_usb2 g | Some u \<Rightarrow> Some u)) (\<lambda>usb.
     bind_outcome (text_or_unk (lg_product g)) (\<lambda>product.
     bind_outcome (text_or_unk (lg_model g)) (\<lambda>model.
     bind_outcome (text_or_unk (lg_device g)) (\<lambda>device.
     bind_outcome (transport_id_field (lg_transport_id g)) (\<lambda>n.
       Ok \<lparr>dl_identifier = identifier, dl_state = state, dl_usb = usb, dl_product = product, dl_model = model,
           dl_device = device, dl_transport_id = n\<rparr>))))))))"

definition device_long_text :: "device_long \<Rightarrow> bytes" where
  "device_long_text d =
     dl_identifier d @ [9] @ device_state_text (dl_state d) @ ascii '' usb:'' @ dl_usb d @ ascii '' product:'' @ dl_product d
     @ ascii '' model:'' @ dl_model d @ ascii '' device:'' @ dl_device d @ ascii '' transport_id:''
     @ show_nat (unat (dl_transport_id d))"

text \<open>The rows of an answer, up to the first empty one.\<close>

fun parse_rows :: "(bytes \<Rightarrow> 'a result) \<Rightarrow> bytes list \<Rightarrow> 'a list result" where
  "parse_rows f [] = Ok []"
| "parse_rows f (row # rows) =
     (if row = [] then Ok [] else bind_outcome (f row) (\<lambda>x. bind_outcome (parse_rows f rows) (\<lambda>xs. Ok (x # xs))))"

section \<open>The connection of a server\<close>

text \<open>
  \<open>sv_dials\<close> is what the next connections to its address will give, \<open>sv_launches\<close> the environments with
  which \<^verbatim>\<open>adb start-server\<close> has been run.
\<close>

record adb_server =
  sv_transport :: "server_transport option"
  sv_addr :: "socket_addr option"
  sv_envs :: "(bytes \<times> bytes) list"
  sv_auto_start :: bool
  sv_dials :: "server_socket result list"
  sv_launches :: "(bytes \<times> bytes) list list"

definition is_local :: "socket_addr option \<Rightarrow> bool" where
  "is_local addr =
     (case addr of
        None \<Rightarrow> True
      | Some a \<Rightarrow> (case sa_octets a of (o1, o2, o3, o4) \<Rightarrow> o1 = 127 \<or> (o1 = 0 \<and> o2 = 0 \<and> o3 = 0 \<and> o4 = 0)))"

definition adb_server_new :: "socket_addr \<Rightarrow> server_socket result list \<Rightarrow> adb_server" where
  "adb_server_new addr ds =
     \<lparr>sv_transport = None, sv_addr = Some addr, sv_envs = [], sv_auto_start = True, sv_dials = ds, sv_launches = []\<rparr>"

definition new_existing :: "socket_addr \<Rightarrow> server_socket result list \<Rightarrow> adb_server" where
  "new_existing addr ds = (adb_server_new addr ds)\<lparr>sv_auto_start := False\<rparr>"

definition connect_server :: "(adb_server, unit) io" where
  "connect_server v =
     (let v1 = (if is_local (sv_addr v) \<and> sv_auto_start v then v\<lparr>sv_launches := sv_launches v @ [sv_envs v]\<rparr> else v);
          t = \<lparr>st_socket = None, st_dials = sv_dials v, st_past = []\<rparr>
      in case server_connect t of
           (Ok _, t') \<Rightarrow> (Ok (), v1\<lparr>sv_transport := Some t', sv_dials := tl (sv_dials v)\<rparr>)
         | (Err e, t') \<Rightarrow> (Err e, v1\<lparr>sv_dials := tl (sv_dials v)\<rparr>)
         | (Panic, t') \<Rightarrow> (Panic, v1\<lparr>sv_dials := tl (sv_dials v)\<rparr>))"

definition uninitialized :: rust_error where
  "uninitialized = IOError NotConnected (Message (ascii ''server connection not initialized''))"

text \<open>\<open>get_transport()?\<close> followed by an operation of the transport.\<close>

definition on_server :: "(server_transport, 'a) io \<Rightarrow> (adb_server, 'a) io" where
  "on_server m v =
     (case sv_transport v of
        None \<Rightarrow> (Err uninitialized, v)
      | Some t \<Rightarrow> (case m t of (r, t') \<Rightarrow> (r, v\<lparr>sv_transport := Some t'\<rparr>)))"

definition host_proxy :: "host_command \<Rightarrow> bool \<Rightarrow> (adb_server, bytes) io" where
  "host_proxy c with_response = seq_io connect_server (on_server (proxy_connection None (Host c) with_response))"

definition host_send :: "host_command \<Rightarrow> (adb_server, unit) io" where
  "host_send c = seq_io connect_server (on_server (send_adb_request None (Host c)))"

section \<open>Commands of the server\<close>

text \<open>The answer has to begin with one of some texts.\<close>

definition expect_prefix :: "bytes list \<Rightarrow> bytes \<Rightarrow> unit result" where
  "expect_prefix prefixes response =
     bind_outcome (body_text response) (\<lambda>s.
       if list_ex (\<lambda>p. starts_with p s) prefixes then Ok () else Err (ADBRequestFailed s))"

definition connect_device :: "socket_addr \<Rightarrow> (adb_server, unit) io" where
  "connect_device a =
     bind_io (host_proxy (Connect a) True) (\<lambda>r.
       lift (expect_prefix [ascii ''connected to'', ascii ''already connected to''] r))"

definition disconnect_device :: "socket_addr \<Rightarrow> (adb_server, unit) io" where
  "disconnect_device a = bind_io (host_proxy (Disconnect a) True) (\<lambda>r. lift (expect_prefix [ascii ''disconnected''] r))"

definition pair_device :: "socket_addr \<Rightarrow> bytes \<Rightarrow> (adb_server, unit) io" where
  "pair_device a code =
     bind_io (host_proxy (Pair a code) True) (\<lambda>r. lift (expect_prefix [ascii ''Successfully paired to''] r))"

definition kill_server :: "(adb_server, unit) io" where
  "kill_server = bind_io (host_proxy Kill False) (\<lambda>_. lift (Ok ()))"

definition reconnect_offline :: "(adb_server, unit) io" where
  "reconnect_offline = bind_io (host_proxy ReconnectOffline False) (\<lambda>_. lift (Ok ()))"

definition server_version :: "(adb_server, adb_version) io" where
  "server_version = bind_io (host_proxy Version True) (\<lambda>v. lift (adb_version_try_from v))"

definition wait_for_device :: "wait_state \<Rightarrow> wait_transport option \<Rightarrow> (adb_server, unit) io" where
  "wait_for_device st tr =
     seq_io (host_send (WaitForDevice st (case tr of None \<Rightarrow> Wait_Any | Some t \<Rightarrow> t))) (on_server read_adb_response)"

definition mdns_check :: "(adb_server, bool) io" where
  "mdns_check =
     bind_io (host_proxy MDNSCheck True) (\<lambda>r.
       lift (bind_outcome (body_text r) (\<lambda>s. Ok (starts_with (ascii ''mdns daemon version'') s))))"

text \<open>\<open>lines()\<close> on the bytes: a line that is not UTF-8 is logged and left out.\<close>

fun collect_services :: "(bytes \<Rightarrow> 'a result) \<Rightarrow> bytes list \<Rightarrow> 'a list result" where
  "collect_services f [] = Ok []"
| "collect_services f (l # ls) =
     (if utf8_valid l then bind_outcome (f l) (\<lambda>x. bind_outcome (collect_services f ls) (\<lambda>xs. Ok (x # xs)))
      else collect_services f ls)"

definition mdns_services :: "(bytes \<Rightarrow> 'a result) \<Rightarrow> (adb_server, 'a list) io" where
  "mdns_services service_try_from =
     bind_io (host_proxy MDNSServices True) (\<lambda>r. lift (collect_services service_try_from (str_lines r)))"

datatype mdns_backend = Backend_Unknown | Bonjour | OpenScreen

definition server_status :: "(bytes \<Rightarrow> 'status result) \<Rightarrow> (adb_server, 'status) io" where
  "server_status decode = bind_io (host_proxy ServerStatus True) (\<lambda>r. lift (decode r))"

definition set_env :: "bytes \<Rightarrow> bytes \<Rightarrow> (bytes \<times> bytes) list \<Rightarrow> (bytes \<times> bytes) list" where
  "set_env k v envs = (k, v) # filter (\<lambda>(k', _). k' \<noteq> k) envs"

definition mdns_force_backend ::
    "(bytes \<Rightarrow> 'status result) \<Rightarrow> ('status \<Rightarrow> mdns_backend) \<Rightarrow> mdns_backend \<Rightarrow> (adb_server, unit) io" where
  "mdns_force_backend decode backend_of backend =
     bind_io (server_status decode) (\<lambda>status.
       if backend_of status = backend then lift (Ok ())
       else seq_io kill_server (\<lambda>v.
         connect_server (v\<lparr>sv_envs := set_env (ascii ''ADB_MDNS_OPENSCREEN'')
           (if backend = OpenScreen then ascii ''1'' else ascii ''0'') (sv_envs v)\<rparr>)))"

section \<open>Devices\<close>

definition devices :: "(bytes \<Rightarrow> (bytes \<times> bytes) option) \<Rightarrow> (adb_server, device_short list) io" where
  "devices captures =
     bind_io (host_proxy Devices True) (\<lambda>r. lift (parse_rows (device_short_try_from captures) (split_on 10 r)))"

definition devices_long :: "(bytes \<Rightarrow> long_groups option) \<Rightarrow> (adb_server, device_long list) io" where
  "devices_long captures =
     bind_io (host_proxy DevicesLong True) (\<lambda>r. lift (parse_rows (device_long_try_from captures) (split_on 10 r)))"

text \<open>A device to be used is known by its serial or by its transport id.\<close>

datatype device_choice = By_Serial bytes | By_Transport u32

definition only_device :: "device_short list \<Rightarrow> device_choice result" where
  "only_device ds =
     (case ds of
        [] \<Rightarrow> Err (DeviceNotFound (ascii ''no device connected''))
      | [d] \<Rightarrow> Ok (By_Serial (ds_identifier d))
      | _ \<Rightarrow> Err (DeviceNotFound (ascii ''too many devices connected'')))"

definition get_device :: "(bytes \<Rightarrow> (bytes \<times> bytes) option) \<Rightarrow> (adb_server, device_choice) io" where
  "get_device captures = bind_io (devices captures) (\<lambda>ds. lift (only_device ds))"

definition device_by_name :: "bytes \<Rightarrow> device_short list \<Rightarrow> device_choice result" where
  "device_by_name name ds =
     (if length (filter (\<lambda>d. ds_identifier d = name) ds) = 1 then Ok (By_Serial name)
      else Err (DeviceNotFound (ascii ''could not find device '' @ name)))"

definition get_device_by_name :: "(bytes \<Rightarrow> (bytes \<times> bytes) option) \<Rightarrow> bytes \<Rightarrow> (adb_server, device_choice) io" where
  "get_device_by_name captures name = bind_io (devices captures) (\<lambda>ds. lift (device_by_name name ds))"

definition device_by_transport_id :: "u32 \<Rightarrow> device_long list \<Rightarrow> device_choice result" where
  "device_by_transport_id n ds =
     (if length (filter (\<lambda>d. dl_transport_id d = n) ds) = 1 then Ok (By_Transport n)
      else Err (DeviceNotFound (ascii ''could not find device with transport id '' @ show_nat (unat n))))"

definition get_device_by_transport_id :: "(bytes \<Rightarrow> long_groups option) \<Rightarrow> u32 \<Rightarrow> (adb_server, device_choice) io" where
  "get_device_by_transport_id captures n = bind_io (devices_long captures) (\<lambda>ds. lift (device_by_transport_id n ds))"

text \<open>
  \<open>track_devices\<close>: the callback is given the rows of every message. It is a state of its own (\<open>'c\<close>), and
  tracking ends with the first error.
\<close>

fun report_rows ::
    "(bytes \<Rightarrow> device_short result) \<Rightarrow> (device_short \<Rightarrow> 'c \<Rightarrow> unit result \<times> 'c) \<Rightarrow> bytes list \<Rightarrow> ('c, unit) io" where
  "report_rows parse callback [] = lift (Ok ())"
| "report_rows parse callback (row # rows) =
     (if row = [] then lift (Ok ())
      else bind_io (lift (parse row)) (\<lambda>d. seq_io (callback d) (report_rows parse callback rows)))"

partial_function (option) track_loop ::
    "(bytes \<Rightarrow> device_short result) \<Rightarrow> (device_short \<Rightarrow> 'c \<Rightarrow> unit result \<times> 'c) \<Rightarrow> 'c \<Rightarrow> server_transport
      \<Rightarrow> (unit result \<times> 'c \<times> server_transport) option" where
  "track_loop parse callback c t =
     (case bind_io get_hex_body_length read_body t of
        (Ok body, t') \<Rightarrow>
          (case report_rows parse callback (split_on 10 body) c of
             (Ok _, c') \<Rightarrow> track_loop parse callback c' t'
           | (r, c') \<Rightarrow> Some (r, c', t'))
      | (Err e, t') \<Rightarrow> Some (Err e, c, t')
      | (Panic, t') \<Rightarrow> Some (Panic, c, t'))"

lemma only_device_Ok: "only_device ds = Ok c \<longleftrightarrow> (\<exists>d. ds = [d] \<and> c = By_Serial (ds_identifier d))"
  by (auto simp: only_device_def split: list.splits)

text \<open>Selection by transport id never picks one of several devices.\<close>

lemma device_by_transport_id_unique:
  assumes "device_by_transport_id n ds = Ok c" and "i < length ds" and "j < length ds"
    and "dl_transport_id (ds ! i) = n" and "dl_transport_id (ds ! j) = n"
  shows "i = j"
proof (rule ccontr)
  assume "i \<noteq> j"
  with assms(2-5) have "card {i, j} \<le> card {k. k < length ds \<and> dl_transport_id (ds ! k) = n}"
    by (intro card_mono) auto
  with \<open>i \<noteq> j\<close> assms(1) show False
    by (auto simp: device_by_transport_id_def length_filter_conv_card split: if_splits)
qed

text \<open>\<open>new_existing\<close> never launches a server, whatever is asked of it.\<close>

lemma connect_existing_launches_nothing:
  "\<not> sv_auto_start v \<Longrightarrow> sv_launches (snd (connect_server v)) = sv_launches v \<and> \<not> sv_auto_start (snd (connect_server v))"
  by (auto simp: connect_server_def Let_def split: prod.splits outcome.splits)

end
