(* ===== verification/Cli_Stream.thy ===== *)
theory Cli_Stream
  imports Forwarding
begin

text \<open>
  The framing of \<^verbatim>\<open>adb_cli/src/direct_daemon.rs\<close>: output and input of arbitrary size over the
  control socket between a command and the daemon that owns the USB device, as frames with a
  big-endian length, ended by an empty one. An error is a \<open>Box<dyn Error>\<close>, of which only the text
  is ever used.
\<close>

section \<open>Errors and big-endian lengths\<close>

type_synonym 'a boxed = "('a, bytes) outcome"

definition boxed :: "'a result \<Rightarrow> 'a boxed" where
  "boxed = map_err error_text"

definition to_be32 :: "u32 \<Rightarrow> bytes" where
  "to_be32 w = rev (to_le32 w)"

definition be_nat :: "bytes \<Rightarrow> nat" where
  "be_nat bs = nat_le (rev bs)"

lemma length_to_be32 [simp]: "length (to_be32 w) = 4"
  by (simp add: to_be32_def)

lemma to_be32_not_Nil [simp]: "to_be32 w \<noteq> []"
  using length_to_be32 [of w] by (metis list.size(3) zero_neq_numeral)

lemma be_nat_to_be32 [simp]: "be_nat (to_be32 w) = unat w"
  by (simp add: be_nat_def to_be32_def)

section \<open>Reading lines and to the end\<close>

text \<open>
  \<open>read_line\<close> and \<open>read_to_string\<close> of \<^verbatim>\<open>std\<close> over any reader. Reading ahead into a buffer does not
  change what is read, so a line is read byte by byte.
\<close>

partial_function (option) read_until_newline :: "'s reader \<Rightarrow> bytes \<Rightarrow> 's \<Rightarrow> (bytes result \<times> 's) option" where
  "read_until_newline rd acc s =
     (case rd 1 s of
        (Ok bs, s') \<Rightarrow>
          if bs = [] then Some (Ok acc, s')
          else if bs = [10] then Some (Ok (acc @ bs), s')
          else read_until_newline rd (acc @ bs) s'
      | (Err e, s') \<Rightarrow>
          if (case e of IOError Interrupted _ \<Rightarrow> True | _ \<Rightarrow> False) then read_until_newline rd acc s' else Some (Err e, s')
      | (Panic, s') \<Rightarrow> Some (Panic, s'))"

partial_function (option) read_to_end :: "'s reader \<Rightarrow> bytes \<Rightarrow> 's \<Rightarrow> (bytes result \<times> 's) option" where
  "read_to_end rd acc s =
     (case rd 8192 s of
        (Ok bs, s') \<Rightarrow> if bs = [] then Some (Ok acc, s') else read_to_end rd (acc @ bs) s'
      | (Err e, s') \<Rightarrow>
          if (case e of IOError Interrupted _ \<Rightarrow> True | _ \<Rightarrow> False) then read_to_end rd acc s' else Some (Err e, s')
      | (Panic, s') \<Rightarrow> Some (Panic, s'))"

definition invalid_utf8 :: rust_error where
  "invalid_utf8 = IOError InvalidData (Message (ascii ''stream did not contain valid UTF-8''))"

definition as_text :: "bytes result \<Rightarrow> bytes boxed" where
  "as_text r = boxed (bind_outcome r (\<lambda>bs. if utf8_valid bs then Ok bs else Err invalid_utf8))"

text \<open>A reader whose end is an empty read.\<close>

locale closing_reader = ending_reader +
  assumes rd_eof: "good s \<Longrightarrow> 0 < n \<Longrightarrow> content s = [] \<Longrightarrow> fst (rd n s) = Ok []"
begin

lemma read_until_newline_content:
  assumes "good s" and "content s = line @ [10] @ rest" and "10 \<notin> set line"
  shows "\<exists>s'. read_until_newline rd acc s = Some (Ok (acc @ line @ [10]), s') \<and> content s' = rest \<and> good s'"
  using assms
proof (induction line arbitrary: s acc)
  case Nil
  with rd_ok [of s 1] obtain bs s' where r: "rd 1 s = (Ok bs, s')" "bs \<noteq> []" "length bs \<le> 1"
    "content s = bs @ content s'" "good s'" by auto
  then obtain b where "bs = [b]" by (cases bs) auto
  with r Nil show ?case by (subst read_until_newline.simps) auto
next
  case (Cons c line)
  with rd_ok [of s 1] obtain bs s' where r: "rd 1 s = (Ok bs, s')" "bs \<noteq> []" "length bs \<le> 1"
    "content s = bs @ content s'" "good s'" by auto
  then obtain b where b: "bs = [b]" by (cases bs) auto
  with r(4) Cons.prems(2) have c: "b = c" "content s' = line @ [10] @ rest" by simp_all
  from Cons.prems(3) have "c \<noteq> 10" "10 \<notin> set line" by auto
  with Cons.IH [OF r(5) c(2), of "acc @ [c]"] r(1) b c(1) show ?case
    by (subst read_until_newline.simps) simp
qed

lemma read_to_end_content:
  assumes "good s"
  shows "\<exists>s'. read_to_end rd acc s = Some (Ok (acc @ content s), s')"
  using assms
proof (induction "length (content s)" arbitrary: s acc rule: less_induct)
  case less
  show ?case
  proof (cases "content s = []")
    case True
    with rd_eof [OF less.prems, of 8192] obtain s' where "rd 8192 s = (Ok [], s')" by (cases "rd 8192 s") auto
    with True show ?thesis by (subst read_to_end.simps) simp
  next
    case False
    with rd_ok [OF less.prems, of 8192] obtain bs s' where r: "rd 8192 s = (Ok bs, s')" "bs \<noteq> []"
      "content s = bs @ content s'" "good s'" by auto
    then have "length (content s') < length (content s)" by simp
    from less.hyps [OF this r(4), of "acc @ bs"] r show ?thesis by (subst read_to_end.simps) simp
  qed
qed

end

interpretation socket: closing_reader read_source source_bytes flowing
  by unfold_locales (auto dest!: flowing_end)

section \<open>Output frames\<close>

definition FRAME_CHUNK :: nat where
  "FRAME_CHUNK = 64 * 1024"

definition FRAME_LIMIT :: nat where
  "FRAME_LIMIT = 1024 * 1024"

text \<open>\<open>FramedWriter::write\<close>; the cast to \<open>u32\<close> cannot lose anything, a chunk having at most 64 KiB.\<close>

fun write_frames :: "bytes list \<Rightarrow> (sink, unit) io" where
  "write_frames [] = lift (Ok ())"
| "write_frames (c # cs) =
     seq_io (write_all (to_be32 (word_of_nat (length c)))) (seq_io (write_all c) (write_frames cs))"

function chunks_of :: "nat \<Rightarrow> 'a list \<Rightarrow> 'a list list" where
  "chunks_of n xs = (if n = 0 \<or> xs = [] then [] else take n xs # chunks_of n (drop n xs))"
  by pat_completeness auto
termination by (relation "measure (\<lambda>(n, xs). length xs)") auto

declare chunks_of.simps [simp del]

definition framed_write :: "bytes \<Rightarrow> (sink, unit) io" where
  "framed_write bs = (if bs = [] then lift (Ok ()) else write_frames (chunks_of FRAME_CHUNK bs))"

text \<open>
  An operation with an output is what it writes and how it then ends; every operation of a device
  gives up at the first write that fails.
\<close>

fun run_writes :: "bytes list \<Rightarrow> unit result \<Rightarrow> (sink, unit) io" where
  "run_writes [] r = lift r"
| "run_writes (w # ws) r = seq_io (framed_write w) (run_writes ws r)"

definition verdict_line :: "unit result \<Rightarrow> bytes" where
  "verdict_line r = (case r of Ok _ \<Rightarrow> ascii ''OK'' @ [10] | Err e \<Rightarrow> ascii ''ERR'' @ [9] @ error_text e @ [10] | Panic \<Rightarrow> [])"

definition boxed_io :: "('s, 'a) io \<Rightarrow> 's \<Rightarrow> 'a boxed \<times> 's" where
  "boxed_io m s = (case m s of (r, s') \<Rightarrow> (boxed r, s'))"

definition write_verdict :: "unit result \<Rightarrow> (sink, unit) io" where
  "write_verdict r = (case r of Panic \<Rightarrow> lift Panic | _ \<Rightarrow> write_all (verdict_line r))"

definition stream_operation :: "bytes list \<Rightarrow> unit result \<Rightarrow> (sink, unit) io" where
  "stream_operation ws r =
     seq_io (write_all (ascii ''OK'' @ [10]))
       (\<lambda>k. case run_writes ws r k of (result, k') \<Rightarrow>
          seq_io (write_all (to_be32 0)) (write_verdict result) k')"

section \<open>The client's side\<close>

partial_function (option) decode_frames :: "'s reader \<Rightarrow> 's \<Rightarrow> sink \<Rightarrow> (unit boxed \<times> 's \<times> sink) option" where
  "decode_frames rd s k =
     Option.bind (read_exact rd 4 s) (\<lambda>(r, s1).
       case r of
         Err e \<Rightarrow> Some (Err (error_text e), s1, k)
       | Panic \<Rightarrow> Some (Panic, s1, k)
       | Ok len \<Rightarrow>
           if be_nat len = 0 then Some (Ok (), s1, k)
           else if FRAME_LIMIT < be_nat len then Some (Err (ascii ''oversized output frame''), s1, k)
           else Option.bind (read_exact rd (be_nat len) s1) (\<lambda>(r, s2).
               case r of
                 Err e \<Rightarrow> Some (Err (error_text e), s2, k)
               | Panic \<Rightarrow> Some (Panic, s2, k)
               | Ok data \<Rightarrow>
                   (case write_all data k of
                      (Ok _, k') \<Rightarrow> decode_frames rd s2 k'
                    | (Err e, k') \<Rightarrow> Some (Err (error_text e), s2, k')
                    | (Panic, k') \<Rightarrow> Some (Panic, s2, k'))))"

definition decode_stream :: "'s reader \<Rightarrow> 's \<Rightarrow> sink \<Rightarrow> (unit boxed \<times> 's \<times> sink) option" where
  "decode_stream rd s k =
     Option.bind (read_until_newline rd [] s) (\<lambda>(r, s1).
       case as_text r of
         Err e \<Rightarrow> Some (Err e, s1, k)
       | Panic \<Rightarrow> Some (Panic, s1, k)
       | Ok status \<Rightarrow>
           if status \<noteq> ascii ''OK'' @ [10] then Some (Err status, s1, k)
           else Option.bind (decode_frames rd s1 k) (\<lambda>(q, s2, k2).
               case q of
                 Ok _ \<Rightarrow> Option.bind (read_to_end rd [] s2) (\<lambda>(r, s3).
                     case as_text r of
                       Err e \<Rightarrow> Some (Err e, s3, k2)
                     | Panic \<Rightarrow> Some (Panic, s3, k2)
                     | Ok text \<Rightarrow> Some (if text = ascii ''OK'' @ [10] then Ok () else Err text, s3, k2))
               | _ \<Rightarrow> Some (q, s2, k2)))"

section \<open>Round trip of the output\<close>

definition frame :: "bytes \<Rightarrow> bytes" where
  "frame c = to_be32 (word_of_nat (length c)) @ c"

definition frames :: "bytes \<Rightarrow> bytes list" where
  "frames w = chunks_of FRAME_CHUNK w"

lemma concat_chunks_of: "0 < n \<Longrightarrow> concat (chunks_of n xs) = xs"
  by (induction n xs rule: chunks_of.induct) (subst chunks_of.simps, simp)

lemma chunks_of_sizes: "c \<in> set (chunks_of n xs) \<Longrightarrow> c \<noteq> [] \<and> length c \<le> n"
proof (induction n xs rule: chunks_of.induct)
  case (1 n xs)
  show ?case
  proof (cases "n = 0 \<or> xs = []")
    case True
    with "1.prems" show ?thesis by (subst (asm) chunks_of.simps) simp
  next
    case False
    then have "chunks_of n xs = take n xs # chunks_of n (drop n xs)" by (subst chunks_of.simps) simp
    with 1 False show ?thesis by auto
  qed
qed

lemma write_frames_accepting:
  "sk_script k = [] \<Longrightarrow> write_frames cs k = (Ok (), k\<lparr>sk_out := sk_out k @ concat (map frame cs)\<rparr>)"
  by (induction cs arbitrary: k) (simp_all add: seq_io_def bind_io_def frame_def)

lemma framed_write_accepting:
  "sk_script k = [] \<Longrightarrow> framed_write w k = (Ok (), k\<lparr>sk_out := sk_out k @ concat (map frame (frames w))\<rparr>)"
  by (cases "w = []") (simp_all add: framed_write_def frames_def write_frames_accepting chunks_of.simps)

lemma run_writes_accepting:
  "sk_script k = [] \<Longrightarrow>
     run_writes ws r k = (r, k\<lparr>sk_out := sk_out k @ concat (map frame (concat (map frames ws)))\<rparr>)"
  by (induction ws arbitrary: k) (simp_all add: seq_io_def bind_io_def framed_write_accepting)

text \<open>Everything an operation puts on the wire.\<close>

definition stream_bytes :: "bytes list \<Rightarrow> unit result \<Rightarrow> bytes" where
  "stream_bytes ws r = ascii ''OK'' @ [10] @ concat (map frame (concat (map frames ws))) @ to_be32 0 @ verdict_line r"

lemma stream_operation_accepting:
  assumes "sk_script k = []" and "r \<noteq> Panic"
  shows "stream_operation ws r k = (Ok (), k\<lparr>sk_out := sk_out k @ stream_bytes ws r\<rparr>)"
  using assms
  by (cases r) (simp_all add: stream_operation_def seq_io_def bind_io_def run_writes_accepting write_verdict_def stream_bytes_def)

context closing_reader
begin

lemma decode_frames_content:
  assumes "good s" and "content s = concat (map frame cs) @ to_be32 0 @ rest" and "sk_script k = []"
    and "\<forall>c \<in> set cs. c \<noteq> [] \<and> length c \<le> FRAME_LIMIT"
  shows "\<exists>s'. decode_frames rd s k = Some (Ok (), s', k\<lparr>sk_out := sk_out k @ concat cs\<rparr>) \<and> content s' = rest \<and> good s'"
  using assms
proof (induction cs arbitrary: s k)
  case Nil
  then have "content s = to_be32 0 @ rest" by simp
  from read_exact_content [OF Nil.prems(1) this] obtain s'
    where "read_exact rd 4 s = Some (Ok (to_be32 0), s')" "content s' = rest" "good s'" by auto
  then show ?case by (subst decode_frames.simps) simp
next
  case (Cons c cs)
  let ?h = "to_be32 (word_of_nat (length c))"
  have c: "c \<noteq> []" "length c \<le> FRAME_LIMIT" using Cons.prems(4) by simp_all
  then have n: "be_nat ?h = length c" by (simp add: FRAME_LIMIT_def unat_of_nat)
  have "content s = ?h @ c @ concat (map frame cs) @ to_be32 0 @ rest"
    using Cons.prems(2) by (simp add: frame_def [of c])
  from read_exact_content [OF Cons.prems(1) this] obtain s1 where s1: "read_exact rd 4 s = Some (Ok ?h, s1)"
    "content s1 = c @ concat (map frame cs) @ to_be32 0 @ rest" "good s1" by auto
  from read_exact_content [OF s1(3,2)] obtain s2 where s2: "read_exact rd (length c) s1 = Some (Ok c, s2)"
    "content s2 = concat (map frame cs) @ to_be32 0 @ rest" "good s2" by auto
  from Cons.IH [OF s2(3,2), of "k\<lparr>sk_out := sk_out k @ c\<rparr>"] Cons.prems(3,4) obtain s'
    where "decode_frames rd s2 (k\<lparr>sk_out := sk_out k @ c\<rparr>) = Some (Ok (), s', k\<lparr>sk_out := sk_out k @ c @ concat cs\<rparr>)"
      "content s' = rest" "good s'" by auto
  with s1(1) s2(1) n c Cons.prems(3) show ?case by (subst decode_frames.simps) simp
qed

lemma decode_stream_content:
  assumes "good s" and "content s = stream_bytes ws r" and "sk_script k = []"
    and "r \<noteq> Panic" and "utf8_valid (verdict_line r)"
  shows "\<exists>s'. decode_stream rd s k
    = Some (if r = Ok () then Ok () else Err (verdict_line r), s', k\<lparr>sk_out := sk_out k @ concat ws\<rparr>)"
proof -
  let ?cs = "concat (map frames ws)"
  have sizes: "\<forall>c \<in> set ?cs. c \<noteq> [] \<and> length c \<le> FRAME_LIMIT"
    using chunks_of_sizes [of _ FRAME_CHUNK] by (fastforce simp: frames_def FRAME_CHUNK_def FRAME_LIMIT_def)
  have out: "concat ?cs = concat ws"
    by (induction ws) (simp_all add: frames_def concat_chunks_of FRAME_CHUNK_def)
  have "content s = ascii ''OK'' @ [10] @ concat (map frame ?cs) @ to_be32 0 @ verdict_line r"
    using assms(2) by (simp add: stream_bytes_def)
  moreover have "10 \<notin> set (ascii ''OK'')" by simp
  ultimately obtain s1
    where s1: "read_until_newline rd [] s = Some (Ok (ascii ''OK'' @ [10]), s1)"
      "content s1 = concat (map frame ?cs) @ to_be32 0 @ verdict_line r" "good s1"
    using read_until_newline_content [OF assms(1), of "ascii ''OK''" _ "[]"] by (metis append_Nil)
  from decode_frames_content [OF s1(3,2) assms(3) sizes] obtain s2
    where s2: "decode_frames rd s1 k = Some (Ok (), s2, k\<lparr>sk_out := sk_out k @ concat ?cs\<rparr>)"
      "content s2 = verdict_line r" "good s2" by blast
  from read_to_end_content [OF s2(3), of "[]"] s2(2) obtain s3
    where s3: "read_to_end rd [] s2 = Some (Ok (verdict_line r), s3)" by auto
  have ok: "as_text (Ok (ascii ''OK'' @ [10])) = Ok (ascii ''OK'' @ [10])"
    by (simp add: as_text_def boxed_def utf8_step_def utf8_width_def)
  have verdict: "as_text (Ok (verdict_line r)) = Ok (verdict_line r)"
    using assms(5) by (simp add: as_text_def boxed_def)
  have fin: "verdict_line r = ascii ''OK'' @ [10] \<longleftrightarrow> r = Ok ()"
    using assms(4) by (cases r) (simp_all add: verdict_line_def)
  show ?thesis
    using s1(1) s2(1) s3 out ok verdict fin by (simp add: decode_stream_def del: ascii_Cons append.simps)
qed

end

text \<open>
  C19: The output of an operation of any size travels through the daemon's control socket unchanged:
  whatever pieces the operation writes and whatever pieces the socket delivers, the client's output
  holds exactly the concatenation, and it sees the success of the operation or the daemon's line with
  its error.
\<close>

theorem stream_roundtrip:
  assumes "sk_script w = []" and "sk_out w = []" and "r \<noteq> Panic" and "utf8_valid (verdict_line r)"
    and "flowing src" and "source_bytes src = sk_out (snd (stream_operation ws r w))" and "sk_script k = []"
  shows "\<exists>src'. decode_stream read_source src k
    = Some (if r = Ok () then Ok () else Err (verdict_line r), src', k\<lparr>sk_out := sk_out k @ concat ws\<rparr>)"
proof -
  have "source_bytes src = stream_bytes ws r"
    using stream_operation_accepting [OF assms(1,3), of ws] assms(2,6) by simp
  from socket.decode_stream_content [OF assms(5) this assms(7,3,4)] show ?thesis .
qed

text \<open>Two writes, delivered by the socket in one piece, and an error.\<close>

theorem stream_roundtrip_witness:
  "let r = Err (ADBRequestFailed (ascii ''x'')); w = \<lparr>sk_script = [], sk_out = []\<rparr>
   in \<exists>src'. decode_stream read_source [Chunk (sk_out (snd (stream_operation [[1], [2, 3]] r w)))] w
      = Some (Err (verdict_line r), src', \<lparr>sk_script = [], sk_out = [1, 2, 3]\<rparr>)"
proof -
  let ?r = "Err (ADBRequestFailed (ascii ''x'')) :: unit result" and ?w = "\<lparr>sk_script = [], sk_out = []\<rparr>"
  let ?b = "sk_out (snd (stream_operation [[1], [2, 3]] ?r ?w))"
  have "?b \<noteq> []" by (simp add: stream_operation_accepting stream_bytes_def)
  then have "flowing [Chunk ?b]" by (simp add: flowing_def)
  moreover have "utf8_valid (verdict_line ?r)" by (simp add: verdict_line_def utf8_step_def utf8_width_def)
  ultimately show ?thesis
    using stream_roundtrip [of ?w ?r "[Chunk ?b]" "[[1], [2, 3]]" ?w] by (simp add: Let_def)
qed

section \<open>Input frames\<close>

text \<open>
  \<open>FramedReader\<close>: what a client streams to the daemon. After a read has failed the contents of the frame
  are unspecified (zeros here); nobody reads on. On a scripted socket reading exactly always
  ends, because every interruption uses up a step of the script.
\<close>

record framed_reader =
  fr_stream :: source
  fr_frame :: bytes
  fr_offset :: nat
  fr_finished :: bool

definition framed_reader_new :: "source \<Rightarrow> framed_reader" where
  "framed_reader_new src = \<lparr>fr_stream = src, fr_frame = [], fr_offset = 0, fr_finished = False\<rparr>"

lemma read_exact_source_ends: "\<exists>r. read_exact read_source n src = Some r"
proof (induction "length src + length (socket_bytes src)" arbitrary: n src rule: less_induct)
  case less
  show ?case
  proof (cases "n = 0")
    case True
    then show ?thesis by (subst read_exact.simps) simp
  next
    case False
    obtain r src' where rd: "read_source n src = (r, src')" by fastforce
    show ?thesis
    proof (cases "r = Ok []")
      case True
      with rd False show ?thesis by (subst read_exact.simps) simp
    next
      case ne: False
      from less [OF read_source_consumes [OF rd _ ne]] False
      have "\<exists>q. read_exact read_source m src' = Some q" for m by simp
      then obtain q where q: "\<And>m. read_exact read_source m src' = Some (q m)" by metis
      show ?thesis
        using rd False ne by (subst read_exact.simps) (cases r; simp add: q split: prod.splits)
    qed
  qed
qed

definition fr_read_exact :: "nat \<Rightarrow> (source, bytes) io" where
  "fr_read_exact n src = (case read_exact read_source n src of Some r \<Rightarrow> r | None \<Rightarrow> (Panic, src))"

definition next_frame :: "(framed_reader, unit) io" where
  "next_frame f =
     (case fr_read_exact 4 (fr_stream f) of
        (Err e, src) \<Rightarrow> (Err e, f\<lparr>fr_stream := src\<rparr>)
      | (Panic, src) \<Rightarrow> (Panic, f\<lparr>fr_stream := src\<rparr>)
      | (Ok len, src) \<Rightarrow>
          if be_nat len = 0 then (Ok (), f\<lparr>fr_stream := src, fr_finished := True\<rparr>)
          else if FRAME_LIMIT < be_nat len then
            (Err (IOError InvalidData (Message (ascii ''oversized input frame''))), f\<lparr>fr_stream := src\<rparr>)
          else (case fr_read_exact (be_nat len) src of
              (Ok data, src') \<Rightarrow> (Ok (), f\<lparr>fr_stream := src', fr_frame := data, fr_offset := 0\<rparr>)
            | (Err e, src') \<Rightarrow> (Err e, f\<lparr>fr_stream := src', fr_frame := replicate (be_nat len) 0\<rparr>)
            | (Panic, src') \<Rightarrow> (Panic, f\<lparr>fr_stream := src'\<rparr>)))"

definition framed_read :: "framed_reader reader" where
  "framed_read n f =
     (if n = 0 then (Ok [], f)
      else seq_io (if fr_offset f = length (fr_frame f) \<and> \<not> fr_finished f then next_frame else lift (Ok ()))
        (\<lambda>f. if fr_finished f then (Ok [], f)
             else let count = min n (length (fr_frame f) - fr_offset f)
                  in (Ok (slice (fr_offset f) (fr_offset f + count) (fr_frame f)), f\<lparr>fr_offset := fr_offset f + count\<rparr>)) f)"

definition input_stream_operation ::
    "(framed_reader \<Rightarrow> unit result \<times> framed_reader) \<Rightarrow> source \<Rightarrow> (sink, unit) io" where
  "input_stream_operation operation src =
     seq_io (write_all (ascii ''OK'' @ [10]))
       (write_verdict (fst (operation (framed_reader_new src))))"

text \<open>A socket on which the frames of \<open>cs\<close> are still to come, ended by an empty one.\<close>

definition framed :: "bytes list \<Rightarrow> bytes \<Rightarrow> source \<Rightarrow> bool" where
  "framed cs rest src \<longleftrightarrow> flowing src \<and> source_bytes src = concat (map frame cs) @ to_be32 0 @ rest
     \<and> (\<forall>c \<in> set cs. c \<noteq> [] \<and> length c \<le> FRAME_LIMIT)"

function unframe :: "bytes \<Rightarrow> bytes" where
  "unframe bs =
     (if length bs < 4 \<or> be_nat (take 4 bs) = 0 then []
      else take (be_nat (take 4 bs)) (drop 4 bs) @ unframe (drop (4 + be_nat (take 4 bs)) bs))"
  by pat_completeness auto
termination by (relation "measure length") auto

declare unframe.simps [simp del]

lemma unframe_Nil: "unframe (to_be32 0 @ rest) = []"
  by (subst unframe.simps) simp

lemma unframe_Cons:
  assumes "c \<noteq> []" and "length c \<le> FRAME_LIMIT"
  shows "unframe (frame c @ rest) = c @ unframe rest"
proof -
  have "be_nat (take 4 (frame c @ rest)) = length c"
    using assms(2) by (simp add: frame_def unat_of_nat FRAME_LIMIT_def)
  with assms(1) show ?thesis by (subst unframe.simps) (simp add: frame_def)
qed

lemma unframe_frames:
  "\<forall>c \<in> set cs. c \<noteq> [] \<and> length c \<le> FRAME_LIMIT \<Longrightarrow> unframe (concat (map frame cs) @ to_be32 0 @ rest) = concat cs"
  by (induction cs) (simp_all add: unframe_Nil unframe_Cons)

definition fr_content :: "framed_reader \<Rightarrow> bytes" where
  "fr_content f = drop (fr_offset f) (fr_frame f) @ (if fr_finished f then [] else unframe (source_bytes (fr_stream f)))"

definition fr_good :: "framed_reader \<Rightarrow> bool" where
  "fr_good f \<longleftrightarrow> fr_offset f \<le> length (fr_frame f)
     \<and> (if fr_finished f then fr_offset f = length (fr_frame f) else \<exists>cs rest. framed cs rest (fr_stream f))"

lemma fr_read_exact_content:
  assumes "flowing src" and "source_bytes src = xs @ rest" and "length xs = n"
  obtains src' where "fr_read_exact n src = (Ok xs, src')" "source_bytes src' = rest" "flowing src'"
  using source.read_exact_content [OF assms(1,2)] assms(3) by (auto simp: fr_read_exact_def)

lemma next_frame_Nil:
  assumes "framed [] rest (fr_stream f)"
  obtains src where "next_frame f = (Ok (), f\<lparr>fr_stream := src, fr_finished := True\<rparr>)"
proof -
  from assms have "flowing (fr_stream f)" "source_bytes (fr_stream f) = to_be32 0 @ rest" by (simp_all add: framed_def)
  then obtain src where "fr_read_exact 4 (fr_stream f) = (Ok (to_be32 0), src)"
    by (rule fr_read_exact_content) simp
  with that show thesis by (simp add: next_frame_def)
qed

lemma next_frame_Cons:
  assumes "framed (c # cs) rest (fr_stream f)"
  obtains src where "next_frame f = (Ok (), f\<lparr>fr_stream := src, fr_frame := c, fr_offset := 0\<rparr>)" "framed cs rest src"
proof -
  let ?h = "to_be32 (word_of_nat (length c))"
  from assms have fl: "flowing (fr_stream f)" and b: "source_bytes (fr_stream f) = ?h @ c @ concat (map frame cs) @ to_be32 0 @ rest"
    and c: "c \<noteq> []" "length c \<le> FRAME_LIMIT" and cs: "\<forall>c \<in> set cs. c \<noteq> [] \<and> length c \<le> FRAME_LIMIT"
    by (simp_all add: framed_def frame_def [of c])
  from fl b obtain s1 where s1: "fr_read_exact 4 (fr_stream f) = (Ok ?h, s1)"
    "source_bytes s1 = c @ concat (map frame cs) @ to_be32 0 @ rest" "flowing s1"
    by (rule fr_read_exact_content) simp_all
  from s1(3,2) obtain s2 where s2: "fr_read_exact (length c) s1 = (Ok c, s2)"
    "source_bytes s2 = concat (map frame cs) @ to_be32 0 @ rest" "flowing s2"
    by (rule fr_read_exact_content) simp_all
  have "be_nat ?h = length c" using c(2) by (simp add: FRAME_LIMIT_def unat_of_nat)
  with s1(1) s2(1) c have "next_frame f = (Ok (), f\<lparr>fr_stream := s2, fr_frame := c, fr_offset := 0\<rparr>)"
    by (simp add: next_frame_def)
  with that s2(2,3) cs show thesis by (simp add: framed_def)
qed

lemma framed_read_buffered:
  assumes "fr_offset f < length (fr_frame f)" and "\<not> fr_finished f" and "0 < n"
  shows "framed_read n f = (let count = min n (length (fr_frame f) - fr_offset f)
     in (Ok (take count (drop (fr_offset f) (fr_frame f))), f\<lparr>fr_offset := fr_offset f + count\<rparr>))"
  using assms by (simp add: framed_read_def seq_io_def slice_def Let_def)

lemma framed_read_buffered_good:
  assumes "fr_offset f < length (fr_frame f)" and "\<not> fr_finished f" and "0 < n" and "fr_good f"
  shows "\<exists>bs f'. framed_read n f = (Ok bs, f') \<and> bs \<noteq> [] \<and> length bs \<le> n \<and> fr_content f = bs @ fr_content f' \<and> fr_good f'"
proof -
  let ?count = "min n (length (fr_frame f) - fr_offset f)"
  let ?f = "f\<lparr>fr_offset := fr_offset f + ?count\<rparr>"
  have "drop (fr_offset f) (fr_frame f) = take ?count (drop (fr_offset f) (fr_frame f)) @ drop (fr_offset f + ?count) (fr_frame f)"
    by (metis add.commute append_take_drop_id drop_drop)
  then have "fr_content f = take ?count (drop (fr_offset f) (fr_frame f)) @ fr_content ?f"
    using assms(2) by (simp add: fr_content_def)
  moreover have "fr_good ?f" using assms by (auto simp: fr_good_def)
  moreover have "take ?count (drop (fr_offset f) (fr_frame f)) \<noteq> []" using assms(1,3) by simp
  ultimately show ?thesis
    using framed_read_buffered [OF assms(1-3)] by (simp add: Let_def)
qed

interpretation framed: ending_reader framed_read fr_content fr_good
proof unfold_locales
  fix f and n :: nat
  assume good: "fr_good f" and n: "0 < n" and c: "fr_content f \<noteq> []"
  then have nf: "\<not> fr_finished f" by (auto simp: fr_good_def fr_content_def)
  show "\<exists>bs f'. framed_read n f = (Ok bs, f') \<and> bs \<noteq> [] \<and> length bs \<le> n \<and> fr_content f = bs @ fr_content f' \<and> fr_good f'"
  proof (cases "fr_offset f < length (fr_frame f)")
    case True
    from framed_read_buffered_good [OF this nf n good] show ?thesis .
  next
    case False
    with good have off: "fr_offset f = length (fr_frame f)" by (simp add: fr_good_def)
    from good nf obtain cs rest where fr: "framed cs rest (fr_stream f)" by (auto simp: fr_good_def)
    then have "fr_content f = concat cs"
      using off nf by (simp add: fr_content_def framed_def unframe_frames)
    with c obtain b bs where cs: "cs = b # bs" by (cases cs) auto
    with fr obtain src where nx: "next_frame f = (Ok (), f\<lparr>fr_stream := src, fr_frame := b, fr_offset := 0\<rparr>)"
      and fr': "framed bs rest src" by (auto elim: next_frame_Cons)
    let ?f = "f\<lparr>fr_stream := src, fr_frame := b, fr_offset := 0\<rparr>"
    have b: "b \<noteq> []" using fr cs by (simp add: framed_def)
    have "framed_read n f = framed_read n ?f"
      using off nf n nx b by (simp add: framed_read_def seq_io_def bind_io_def)
    moreover have "fr_content f = fr_content ?f"
      using \<open>fr_content f = concat cs\<close> cs nf fr' by (simp add: fr_content_def framed_def unframe_frames)
    moreover have "fr_good ?f" using nf fr' by (auto simp: fr_good_def)
    ultimately show ?thesis using framed_read_buffered_good [of ?f n] b nf n by simp
  qed
next
  fix f and n :: nat
  assume good: "fr_good f" and n: "0 < n" and c: "fr_content f = []"
  have "\<exists>f'. framed_read n f = (Ok [], f') \<and> fr_content f' = [] \<and> fr_good f'"
  proof (cases "fr_finished f")
    case True
    with good n c show ?thesis by (simp add: framed_read_def seq_io_def)
  next
    case False
    from c good have off: "fr_offset f = length (fr_frame f)" by (simp add: fr_content_def fr_good_def)
    from good False obtain cs rest where fr: "framed cs rest (fr_stream f)" by (auto simp: fr_good_def)
    with c False have "concat cs = []" by (simp add: fr_content_def framed_def unframe_frames)
    with fr have "cs = []" by (cases cs) (auto simp: framed_def)
    with fr obtain src where "next_frame f = (Ok (), f\<lparr>fr_stream := src, fr_finished := True\<rparr>)"
      by (auto elim: next_frame_Nil)
    with off False n show ?thesis
      by (simp add: framed_read_def seq_io_def bind_io_def fr_content_def fr_good_def)
  qed
  then show "ends (fst (framed_read n f))" "fr_content (snd (framed_read n f)) = [] \<and> fr_good (snd (framed_read n f))"
    by (auto simp: ends_def)
qed

text \<open>
  A file streamed to the daemon in frames reaches the device byte for byte: the upload returns,
  and reports success only when the DATA frames it sent and had acknowledged make up exactly the
  contents of the client's frames, and the device's verdict begins with OKAY.
\<close>

theorem push_stream_exact:
  assumes "framed cs rest src"
  shows "\<exists>r f' l'. service_push a framed_read (framed_reader_new src) path l = Some (r, f', l')
    \<and> (r = Ok () \<longrightarrow> upload_confirmed a path (concat cs) l l')"
proof -
  have "fr_good (framed_reader_new src)" using assms by (auto simp: fr_good_def framed_reader_new_def)
  moreover have "fr_content (framed_reader_new src) = concat cs"
    using assms by (simp add: fr_content_def framed_reader_new_def framed_def unframe_frames)
  ultimately show ?thesis using framed.service_push_pushes by metis
qed

theorem push_stream_exact_witness:
  "\<exists>r f' l'. service_push \<lparr>as_local_id = 7, as_remote_id = 9\<rparr> framed_read
       (framed_reader_new [Chunk (frame [1, 2]), Chunk (to_be32 0)]) [47] example_link = Some (r, f', l')"
proof -
  have "flowing [Chunk (frame [1, 2]), Chunk (to_be32 0)]"
    by (simp add: flowing_def frame_def)
  then have "framed [[1, 2]] [] [Chunk (frame [1, 2]), Chunk (to_be32 0)]"
    by (simp add: framed_def FRAME_LIMIT_def)
  from push_stream_exact [OF this] show ?thesis by blast
qed

end
