(* ===== verification/Cli_Args.thy ===== *)
theory Cli_Args
  imports Cli_Stream
begin

text \<open>
  The command lines \<^verbatim>\<open>adb_cli/src/compat.rs\<close> accepts and the names it gives to devices: the requests
  of install, uninstall, push, pull and forward, quoting for the shell of the device, and the
  selectors of USB and server transports.
\<close>

definition failure :: "string \<Rightarrow> 'a boxed" where
  "failure msg = Err (ascii msg)"

definition contains_any :: "bytes \<Rightarrow> bytes \<Rightarrow> bool" where
  "contains_any cs s \<longleftrightarrow> (\<exists>c \<in> set cs. c \<in> set s)"

definition is_digit :: "u8 \<Rightarrow> bool" where
  "is_digit b \<longleftrightarrow> 48 \<le> b \<and> b \<le> 57"

definition is_alphanumeric :: "u8 \<Rightarrow> bool" where
  "is_alphanumeric b \<longleftrightarrow> is_digit b \<or> 65 \<le> b \<and> b \<le> 90 \<or> 97 \<le> b \<and> b \<le> 122"

section \<open>Install and uninstall\<close>

record install_request =
  ir_flags :: "bytes list"
  ir_user :: "bytes option"
  ir_source :: bytes

definition install_flag :: "bytes \<Rightarrow> bool" where
  "install_flag a \<longleftrightarrow> a = ascii ''-r'' \<or> a = ascii ''-g'' \<or> a = ascii ''-d''"

definition user_option :: "bytes \<Rightarrow> bool" where
  "user_option a \<longleftrightarrow> a = ascii ''--user'' \<or> a = ascii ''-u''"

fun install_loop ::
    "bytes list \<Rightarrow> bytes list \<Rightarrow> bytes option \<Rightarrow> bytes option \<Rightarrow> (bytes list \<times> bytes option \<times> bytes option) boxed" where
  "install_loop [] flags user source = Ok (flags, user, source)"
| "install_loop (a # args) flags user source =
     (if install_flag a then install_loop args (flags @ [a]) user source
      else if user_option a then
        (case args of [] \<Rightarrow> failure ''missing install user'' | v # rest \<Rightarrow> install_loop rest flags (Some v) source)
      else if starts_with (ascii ''-'') a then failure ''unsupported install option''
      else if source \<noteq> None then failure ''install accepts exactly one APK path''
      else install_loop args flags user (Some a))"

definition valid_user :: "bytes option \<Rightarrow> bool" where
  "valid_user user \<longleftrightarrow> (case user of None \<Rightarrow> True | Some v \<Rightarrow> list_all is_digit v)"

text \<open>The first argument is the name of the command.\<close>

definition parse_install_request :: "bytes list \<Rightarrow> install_request boxed" where
  "parse_install_request args =
     bind_outcome (install_loop (drop 1 args) [] None None) (\<lambda>(flags, user, source).
     bind_outcome (ok_or (ascii ''missing APK path'') source) (\<lambda>source.
       if contains_any [10, 13, 9] source \<or> \<not> valid_user user then failure ''invalid install request''
       else Ok \<lparr>ir_flags = flags, ir_user = user, ir_source = source\<rparr>))"

record uninstall_request =
  ur_keep_data :: bool
  ur_user :: "bytes option"
  ur_package :: bytes

fun uninstall_loop ::
    "bytes list \<Rightarrow> bool \<Rightarrow> bytes option \<Rightarrow> bytes option \<Rightarrow> (bool \<times> bytes option \<times> bytes option) boxed" where
  "uninstall_loop [] keep user package = Ok (keep, user, package)"
| "uninstall_loop (a # args) keep user package =
     (if a = ascii ''-k'' then uninstall_loop args True user package
      else if user_option a then
        (case args of [] \<Rightarrow> failure ''missing uninstall user'' | v # rest \<Rightarrow> uninstall_loop rest keep (Some v) package)
      else if starts_with (ascii ''-'') a then failure ''unsupported uninstall option''
      else if package \<noteq> None then failure ''uninstall accepts exactly one package name''
      else uninstall_loop args keep user (Some a))"

definition package_char :: "u8 \<Rightarrow> bool" where
  "package_char b \<longleftrightarrow> is_alphanumeric b \<or> b = 46 \<or> b = 95"

definition parse_uninstall_request :: "bytes list \<Rightarrow> uninstall_request boxed" where
  "parse_uninstall_request args =
     bind_outcome (uninstall_loop (drop 1 args) False None None) (\<lambda>(keep, user, package).
     bind_outcome (ok_or (ascii ''missing package name'') package) (\<lambda>package.
       if \<not> list_all package_char package \<or> \<not> valid_user user then failure ''invalid uninstall request''
       else Ok \<lparr>ur_keep_data = keep, ur_user = user, ur_package = package\<rparr>))"

lemma install_loop_flags:
  "install_loop args flags user source = Ok (flags', user', source') \<Longrightarrow>
     \<forall>f \<in> set flags. install_flag f \<Longrightarrow> \<forall>f \<in> set flags'. install_flag f"
proof (induction args flags user source rule: install_loop.induct)
  case (1 flags user source)
  then show ?case by simp
next
  case (2 a args flags user source)
  consider "install_flag a" | "\<not> install_flag a" "user_option a" | "\<not> install_flag a" "\<not> user_option a" by blast
  then show ?case
  proof cases
    case 1
    with "2.prems" "2.IH"(1) show ?thesis by simp
  next
    case opt: 2
    with "2.prems"(1) obtain v rest where "args = v # rest" by (cases args) (auto simp: failure_def)
    with opt "2.prems" "2.IH"(2) show ?thesis by simp
  next
    case 3
    with "2.prems"(1) have "\<not> starts_with (ascii ''-'') a" "source = None"
      by (simp_all add: failure_def split: if_split_asm)
    with 3 "2.prems" "2.IH"(3) show ?thesis by simp
  qed
qed

text \<open>Whatever is accepted has only known flags, a user of digits and a source without control characters.\<close>

lemma parse_install_request_safe:
  assumes "parse_install_request args = Ok q"
  shows "\<forall>f \<in> set (ir_flags q). install_flag f" and "valid_user (ir_user q)"
    and "\<not> contains_any [10, 13, 9] (ir_source q)"
  using assms install_loop_flags [of "drop 1 args" "[]" None None]
  by (auto simp: parse_install_request_def failure_def split: if_splits)

lemma parse_uninstall_request_safe:
  assumes "parse_uninstall_request args = Ok q"
  shows "list_all package_char (ur_package q)" and "valid_user (ur_user q)"
  using assms by (auto simp: parse_uninstall_request_def failure_def split: if_splits)

section \<open>Push and pull\<close>

record transfer_options =
  to_archive :: bool
  to_dry_run :: bool
  to_quiet :: bool
  to_sync :: bool

definition default_options :: transfer_options where
  "default_options = \<lparr>to_archive = False, to_dry_run = False, to_quiet = False, to_sync = False\<rparr>"

datatype transfer_operation = Pull | Push

fun operation_text :: "transfer_operation \<Rightarrow> bytes" where
  "operation_text Pull = ascii ''pull''"
| "operation_text Push = ascii ''push''"

fun transfer_loop :: "transfer_operation \<Rightarrow> bytes list \<Rightarrow> transfer_options \<Rightarrow> bytes list \<Rightarrow> (transfer_options \<times> bytes list) boxed" where
  "transfer_loop op [] options paths = Ok (options, paths)"
| "transfer_loop op (a # args) options paths =
     (if a = ascii ''-a'' \<and> op = Pull then transfer_loop op args (options\<lparr>to_archive := True\<rparr>) paths
      else if a = ascii ''--sync'' \<and> op = Push then transfer_loop op args (options\<lparr>to_sync := True\<rparr>) paths
      else if a = ascii ''-n'' \<and> op = Push then transfer_loop op args (options\<lparr>to_dry_run := True\<rparr>) paths
      else if a = ascii ''-q'' then transfer_loop op args (options\<lparr>to_quiet := True\<rparr>) paths
      else if a = ascii ''-z'' \<and> args = [] then failure ''missing compression algorithm''
      else if a = ascii ''-Z'' \<or> a = ascii ''-z'' then
        Err (operation_text op @ ascii '' compression options are not supported by the bundled adb client'')
      else if starts_with (ascii ''-'') a then
        Err (ascii ''unsupported '' @ operation_text op @ ascii '' option: '' @ a)
      else transfer_loop op args options (paths @ [a]))"

definition transfer_paths :: "bytes list \<Rightarrow> transfer_operation \<Rightarrow> (transfer_options \<times> bytes list) boxed" where
  "transfer_paths args op = transfer_loop op (drop 1 args) default_options []"

definition validate_transfer_path :: "bytes \<Rightarrow> unit boxed" where
  "validate_transfer_path path =
     (if contains_any [10, 13, 9, 0] path then failure ''file paths containing control characters are not supported''
      else Ok ())"

section \<open>Forward\<close>

datatype forward_request = Forward_Add bytes bytes | Forward_List | Forward_Remove bytes | Forward_Remove_All

definition forward_usage :: "'a boxed" where
  "forward_usage = failure ''usage: adb forward [--list|--remove LOCAL|--remove-all|LOCAL REMOTE]''"

definition parse_forward_request :: "bytes list \<Rightarrow> forward_request option boxed" where
  "parse_forward_request args =
     (if args = [] \<or> hd args \<noteq> ascii ''forward'' then Ok None
      else if tl args = [ascii ''--list''] then Ok (Some Forward_List)
      else if tl args = [ascii ''--remove-all''] then Ok (Some Forward_Remove_All)
      else case tl args of
          [a, b] \<Rightarrow>
            if a = ascii ''--remove'' then Ok (Some (Forward_Remove b))
            else if \<not> starts_with (ascii ''-'') a then Ok (Some (Forward_Add a b))
            else forward_usage
        | _ \<Rightarrow> forward_usage)"

section \<open>Quoting for the shell\<close>

definition shell_quote :: "bytes \<Rightarrow> bytes" where
  "shell_quote v = [39] @ concat (map (\<lambda>c. if c = 39 then [39, 92, 39, 39] else [c]) v) @ [39]"

text \<open>
  How a POSIX shell reads a word: between single quotes every byte stands for itself, a backslash
  outside quotes makes the next byte stand for itself, a blank, a newline or the end of the text ends
  the word. Every other byte outside quotes that the shell does not take literally is left open
  (\<open>None\<close>), as is a quote that is not closed. The result is the word and what follows it.
\<close>

definition plain_char :: "u8 \<Rightarrow> bool" where
  "plain_char b \<longleftrightarrow> is_alphanumeric b \<or> b \<in> set (ascii ''%+,-./:=@_'')"

fun sh_word :: "bool \<Rightarrow> bytes \<Rightarrow> (bytes \<times> bytes) option" where
  "sh_word True [] = None"
| "sh_word True (c # cs) =
     (if c = 39 then sh_word False cs else map_option (\<lambda>(w, rest). (c # w, rest)) (sh_word True cs))"
| "sh_word False [] = Some ([], [])"
| "sh_word False (c # cs) =
     (if c = 39 then sh_word True cs
      else if c = 92 then
        (case cs of [] \<Rightarrow> None | d # ds \<Rightarrow> map_option (\<lambda>(w, rest). (d # w, rest)) (sh_word False ds))
      else if c = 32 \<or> c = 9 \<or> c = 10 then Some ([], c # cs)
      else if plain_char c then map_option (\<lambda>(w, rest). (c # w, rest)) (sh_word False cs)
      else None)"

lemma sh_word_quoted:
  "sh_word True (concat (map (\<lambda>c. if c = 39 then [39, 92, 39, 39] else [c]) v) @ 39 # rest)
    = map_option (\<lambda>(w, r). (v @ w, r)) (sh_word False rest)"
  by (induction v) (auto simp: option.map_comp option.map_ident comp_def split_beta intro!: option.map_cong)

text \<open>
  A quoted text is one word of the shell, whatever it contains: no quote, blank, newline or
  operator in it can end the word or be interpreted, so that a path or a name cannot turn into a
  command on the device.
\<close>

theorem shell_quote_is_one_word:
  assumes "rest = [] \<or> (\<exists>b cs. rest = b # cs \<and> b \<in> {32, 9, 10})"
  shows "sh_word False (shell_quote v @ rest) = Some (v, rest)"
  using assms sh_word_quoted [of v rest] by (auto simp: shell_quote_def)

theorem shell_quote_is_one_word_witness:
  "sh_word False (shell_quote (ascii ''a'' @ [39] @ ascii ''; reboot'') @ ascii '' --'')
    = Some (ascii ''a'' @ [39] @ ascii ''; reboot'', ascii '' --'')"
  by (rule shell_quote_is_one_word) simp

end
