(* ===== verification/Cli_Devices.thy ===== *)
theory Cli_Devices
  imports Cli_Args Server_Host
begin

text \<open>
  How \<^verbatim>\<open>adb_cli/src/compat.rs\<close> names devices and finds them again: transport ids, selectors of USB
  devices and of devices behind an ADB server, the rows of \<^verbatim>\<open>devices\<close>, and the saved wireless
  addresses. The text of a socket address is a parameter (\<open>show\<close>, \<open>parse\<close>).
\<close>

section \<open>Transport ids\<close>

text \<open>FNV-1a on 64 bits.\<close>

definition fnv :: "bytes \<Rightarrow> u64" where
  "fnv bs = fold (\<lambda>b v. (v XOR ucast b) * 0x100000001b3) bs 0xcbf29ce484222325"

definition stable_transport_id :: "bytes \<Rightarrow> bytes \<Rightarrow> u64" where
  "stable_transport_id kind identity = (let h = fnv (kind @ [0] @ identity) in if h = 0 then 1 else h)"

text \<open>0 stands for a transport id that is not known, so no device is given it.\<close>

lemma stable_transport_id_not_0: "stable_transport_id kind identity \<noteq> 0"
  by (simp add: stable_transport_id_def Let_def)

record usb_device =
  ud_vendor :: u16
  ud_serial :: "bytes option"
  ud_product :: u16
  ud_location :: "u64 option"
  ud_registry :: "u64 option"

definition or_zero :: "u64 option \<Rightarrow> u64" where
  "or_zero x = (case x of None \<Rightarrow> 0 | Some v \<Rightarrow> v)"

definition hex4 :: "u16 \<Rightarrow> bytes" where
  "hex4 v = show_hex 4 (unat v)"

definition hex16 :: "u64 \<Rightarrow> bytes" where
  "hex16 v = show_hex 16 (unat v)"

definition usb_transport_id :: "usb_device \<Rightarrow> u64" where
  "usb_transport_id d =
     stable_transport_id (ascii ''usb'')
       (case ud_location d of
          Some l \<Rightarrow> hex16 l @ ascii ''#'' @ hex16 (or_zero (ud_registry d))
        | None \<Rightarrow> (case ud_serial d of Some s \<Rightarrow> s | None \<Rightarrow> hex4 (ud_vendor d) @ ascii '':'' @ hex4 (ud_product d)))"

section \<open>Selectors of USB devices\<close>

definition attachment_text :: "usb_device \<Rightarrow> bytes" where
  "attachment_text d =
     hex4 (ud_vendor d) @ ascii '':'' @ hex4 (ud_product d) @ ascii ''@'' @ hex16 (or_zero (ud_location d)) @ ascii ''#''
     @ hex16 (or_zero (ud_registry d))"

definition usb_selector :: "usb_device \<Rightarrow> bytes" where
  "usb_selector d = ascii ''usb-'' @ attachment_text d"

definition hex_word :: "nat \<Rightarrow> bytes \<Rightarrow> 'a :: len word option" where
  "hex_word bits s = map_option word_of_nat (parse_uint 16 bits s)"

type_synonym endpoint = "u16 \<times> u16 \<times> u64 option \<times> u64 option"

definition parse_usb_selector :: "bytes \<Rightarrow> (u16 \<times> u16 \<times> u64 \<times> u64) option" where
  "parse_usb_selector value =
     Option.bind (strip_prefix (ascii ''usb-'') value) (\<lambda>rest.
     Option.bind (split_once (ascii ''@'') rest) (\<lambda>(ids, location).
     Option.bind (split_once (ascii ''#'') location) (\<lambda>(location, registry).
     Option.bind (split_once (ascii '':'') ids) (\<lambda>(vendor, product).
     Option.bind (hex_word 64 location) (\<lambda>location :: u64.
     Option.bind (hex_word 64 registry) (\<lambda>registry :: u64.
       if location \<noteq> 0 \<and> registry \<noteq> 0 then
         Option.bind (hex_word 16 vendor) (\<lambda>v. Option.bind (hex_word 16 product) (\<lambda>p. Some (v, p, location, registry)))
       else None))))))"

lemma hex_word_hex4 [simp]: "hex_word 16 (hex4 v) = Some v"
  using unat_less_u16 [of v] by (simp add: hex_word_def hex4_def parse_uint_show_hex)

lemma hex_word_hex16 [simp]: "hex_word 64 (hex16 v) = Some v"
  using unat_less_u64 [of v] by (simp add: hex_word_def hex16_def parse_uint_show_hex)

lemma hex_separators [simp]:
  "35 \<notin> set (hex4 v)" "45 \<notin> set (hex4 v)" "58 \<notin> set (hex4 v)" "64 \<notin> set (hex4 v)"
  "35 \<notin> set (hex16 w)" "45 \<notin> set (hex16 w)" "58 \<notin> set (hex16 w)" "64 \<notin> set (hex16 w)"
  using show_hex_separators [of 4 "unat v"] show_hex_separators [of 16 "unat w"] by (auto simp: hex4_def hex16_def)

lemma attachment_text_split:
  "split_once [64] (attachment_text d)
    = Some (hex4 (ud_vendor d) @ [58] @ hex4 (ud_product d), hex16 (or_zero (ud_location d)) @ [35] @ hex16 (or_zero (ud_registry d)))"
  using split_once_char [of 64 "hex4 (ud_vendor d) @ [58] @ hex4 (ud_product d)"] by (simp add: attachment_text_def)

text \<open>A selector is read back where the platform gives a location and an attachment, and only there.\<close>

lemma parse_usb_selector_selector:
  "parse_usb_selector (usb_selector d) =
     (if or_zero (ud_location d) \<noteq> 0 \<and> or_zero (ud_registry d) \<noteq> 0
      then Some (ud_vendor d, ud_product d, or_zero (ud_location d), or_zero (ud_registry d)) else None)"
proof -
  have "strip_prefix (ascii ''usb-'') (usb_selector d) = Some (attachment_text d)" by (simp add: usb_selector_def del: ascii_Cons)
  moreover have "split_once [35] (hex16 l @ 35 # hex16 r) = Some (hex16 l, hex16 r)" for l r by (intro split_once_char) simp
  moreover have "split_once [58] (hex4 v @ 58 # hex4 p) = Some (hex4 v, hex4 p)" for v p by (intro split_once_char) simp
  ultimately show ?thesis
    using attachment_text_split [of d] by (simp add: parse_usb_selector_def)
qed

section \<open>Selecting a USB device\<close>

definition endpoint_matches :: "endpoint \<Rightarrow> usb_device \<Rightarrow> bool" where
  "endpoint_matches e d \<longleftrightarrow>
     (case e of (v, p, location, registry) \<Rightarrow>
       ud_vendor d = v \<and> ud_product d = p \<and> (location \<noteq> None \<longrightarrow> ud_location d = location)
       \<and> (registry \<noteq> None \<longrightarrow> ud_registry d = registry))"

text \<open>
  The device a command is for: the filters of endpoint, transport id and serial have to leave exactly
  one. \<open>public_serial\<close> is the first line of the daemon's DEVICE_INFO, where it answers.
\<close>

definition usb_matches ::
    "(usb_device \<Rightarrow> bytes option) \<Rightarrow> endpoint option \<Rightarrow> u64 option \<Rightarrow> bytes option \<Rightarrow> usb_device \<Rightarrow> bool" where
  "usb_matches public_serial e transport_id serial d \<longleftrightarrow>
     (case e of None \<Rightarrow> True | Some e \<Rightarrow> endpoint_matches e d)
     \<and> (case transport_id of None \<Rightarrow> True | Some n \<Rightarrow> usb_transport_id d = n)
     \<and> (case serial of None \<Rightarrow> True | Some s \<Rightarrow> ud_serial d = Some s \<or> public_serial d = Some s)"

definition select_usb ::
    "(usb_device \<Rightarrow> bytes option) \<Rightarrow> endpoint option \<Rightarrow> u64 option \<Rightarrow> bytes option \<Rightarrow> usb_device list \<Rightarrow> usb_device boxed" where
  "select_usb public_serial e transport_id serial ds =
     (case filter (usb_matches public_serial e transport_id serial) ds of
        [d] \<Rightarrow> Ok d
      | [] \<Rightarrow> failure ''selected Android USB device is not connected''
      | _ \<Rightarrow> failure ''multiple matching Android USB devices; select a unique device'')"

text \<open>The endpoint a selector value stands for.\<close>

definition selector_endpoint :: "bytes \<Rightarrow> endpoint boxed" where
  "selector_endpoint value =
     bind_outcome (ok_or (ascii ''invalid USB transport selector'') (parse_usb_selector value)) (\<lambda>(v, p, l, r).
       Ok (v, p, Some l, Some r))"

lemma filter_single:
  assumes "d \<in> set ds" and "distinct ds" and "P d" and "\<forall>e \<in> set ds. P e \<longrightarrow> e = d"
  shows "filter P ds = [d]"
proof -
  from assms(1) obtain xs ys where ds: "ds = xs @ d # ys" by (meson split_list)
  with assms(2) have "d \<notin> set xs" "d \<notin> set ys" by auto
  then have "filter P xs = []" "filter P ys = []"
    unfolding filter_empty_conv using assms(4) unfolding ds by (metis UnCI set_append, metis UnCI list.set_intros(2) set_append)
  with ds assms(3) show ?thesis by simp
qed

text \<open>
  The name under which an attached USB device is listed selects that device and no other,
  whatever serials the devices claim to have, as long as the platform gives it a location and an
  attachment of its own.
\<close>

theorem usb_selector_selects:
  assumes "d \<in> set ds" and "distinct ds" and "or_zero (ud_location d) \<noteq> 0" and "or_zero (ud_registry d) \<noteq> 0"
    and "\<forall>e \<in> set ds. ud_location e = ud_location d \<and> ud_registry e = ud_registry d \<longrightarrow> e = d"
  shows "bind_outcome (selector_endpoint (usb_selector d)) (\<lambda>e. select_usb public_serial (Some e) None None ds) = Ok d"
proof -
  from assms(3,4) obtain l r where lr: "ud_location d = Some l" "ud_registry d = Some r" "l \<noteq> 0" "r \<noteq> 0"
    by (auto simp: or_zero_def split: option.splits)
  let ?e = "(ud_vendor d, ud_product d, Some l, Some r)"
  have e: "selector_endpoint (usb_selector d) = Ok ?e"
    using lr by (simp add: selector_endpoint_def parse_usb_selector_selector or_zero_def)
  have "filter (usb_matches public_serial (Some ?e) None None) ds = [d]"
  proof (rule filter_single [OF assms(1,2)])
    show "usb_matches public_serial (Some ?e) None None d"
      using lr by (simp add: usb_matches_def endpoint_matches_def)
    show "\<forall>x \<in> set ds. usb_matches public_serial (Some ?e) None None x \<longrightarrow> x = d"
    proof (intro ballI impI)
      fix x
      assume x: "x \<in> set ds" "usb_matches public_serial (Some ?e) None None x"
      then have "ud_location x = ud_location d \<and> ud_registry x = ud_registry d"
        using lr by (simp add: usb_matches_def endpoint_matches_def)
      with assms(5) x(1) show "x = d" by blast
    qed
  qed
  with e show ?thesis by (simp add: select_usb_def)
qed

theorem usb_selector_selects_witness:
  "let a = \<lparr>ud_vendor = 0x18d1, ud_serial = Some [1], ud_product = 0x4ee7, ud_location = Some 20, ud_registry = Some 7\<rparr>
   in bind_outcome (selector_endpoint (usb_selector a)) (\<lambda>e. select_usb (\<lambda>_. None) (Some e) None None [a\<lparr>ud_location := Some 21\<rparr>, a]) = Ok a"
proof -
  let ?a = "\<lparr>ud_vendor = 0x18d1, ud_serial = Some [1], ud_product = 0x4ee7, ud_location = Some 20, ud_registry = Some 7\<rparr>"
  show ?thesis
    using usb_selector_selects [of ?a "[?a\<lparr>ud_location := Some 21\<rparr>, ?a]" "\<lambda>_. None"] by (simp add: or_zero_def Let_def)
qed

end
