(* ===== verification/Cli_Routing.thy ===== *)
theory Cli_Routing
  imports Cli_Devices Server_Device
begin

text \<open>
  Which device a command of \<^verbatim>\<open>adb_cli/src/compat.rs\<close> is for when an ADB server is running: the names of
  the server's devices, how they are parsed, and the choice between the server and the client's own
  transports. Whether a text is a socket address is a parameter.
\<close>

section \<open>Names of the server's devices\<close>

text \<open>\<open>rsplit_once\<close>: the text before and after the last occurrence.\<close>

definition rsplit_once :: "bytes \<Rightarrow> bytes \<Rightarrow> (bytes \<times> bytes) option" where
  "rsplit_once p s = map_option (\<lambda>(a, b). (rev b, rev a)) (split_once (rev p) (rev s))"

lemma split_once_first: "c \<notin> set x \<Longrightarrow> split_once (c # q) (x @ (c # q) @ y) = Some (x, y)"
  by (induction x) (auto simp: starts_with_def)

lemma rsplit_once_last: "c \<notin> set b \<Longrightarrow> rsplit_once (q @ [c]) (a @ q @ [c] @ b) = Some (a, b)"
  using split_once_first [of c "rev b" "rev q" "rev a"] by (simp add: rsplit_once_def)

definition server_usb_path :: "device_long \<Rightarrow> bytes option" where
  "server_usb_path d =
     (if dl_usb d \<noteq> [] \<and> dl_usb d \<noteq> ascii ''Unk'' \<and> 58 \<notin> set (dl_usb d) then Some (dl_usb d) else None)"

definition server_transport_id :: "device_long \<Rightarrow> u64 option" where
  "server_transport_id d = (if dl_transport_id d \<noteq> 0 then Some (ucast (dl_transport_id d)) else None)"

definition duplicate_serial :: "device_long \<Rightarrow> device_long list \<Rightarrow> bool" where
  "duplicate_serial d ds \<longleftrightarrow> 1 < length (filter (\<lambda>e. dl_identifier e = dl_identifier d) ds)"

definition server_selector :: "device_long \<Rightarrow> device_long list \<Rightarrow> bytes" where
  "server_selector d ds =
     ascii ''androconnect-server:'' @ dl_identifier d
     @ (case server_usb_path d of
          Some usb \<Rightarrow> if duplicate_serial d ds then ascii ''#usb:'' @ usb else []
        | None \<Rightarrow> [])"

definition split_usb :: "bytes \<Rightarrow> (bytes \<times> bytes option) option" where
  "split_usb rest =
     (case rsplit_once (ascii ''#usb:'') rest of
        Some (serial, usb) \<Rightarrow> if usb = [] then None else if serial \<noteq> [] then Some (serial, Some usb) else None
      | None \<Rightarrow> if rest \<noteq> [] then Some (rest, None) else None)"

text \<open>Names of the older form carry a number that is stale by now, and a serial.\<close>

definition legacy_selector :: "bytes \<Rightarrow> (bytes \<times> bytes option) option" where
  "legacy_selector rest =
     Option.bind (strip_prefix (ascii ''-'') rest) (\<lambda>r.
     Option.bind (split_once (ascii '':'') r) (\<lambda>(n, serial).
     Option.bind (parse_uint 10 64 n) (\<lambda>_. if serial \<noteq> [] then Some (serial, None) else None)))"

definition parse_server_selector :: "bytes \<Rightarrow> (bytes \<times> bytes option) option" where
  "parse_server_selector value =
     Option.bind (strip_prefix (ascii ''androconnect-server'') value) (\<lambda>rest.
       case strip_prefix (ascii '':'') rest of Some r \<Rightarrow> split_usb r | None \<Rightarrow> legacy_selector rest)"

lemma parse_server_selector_selector:
  assumes "dl_identifier d \<noteq> []"
    and "duplicate_serial d ds \<and> server_usb_path d \<noteq> None \<or> rsplit_once (ascii ''#usb:'') (dl_identifier d) = None"
  shows "parse_server_selector (server_selector d ds)
    = Some (dl_identifier d, if duplicate_serial d ds then server_usb_path d else None)"
proof -
  define tail where "tail = dl_identifier d @ (case server_usb_path d of
      Some usb \<Rightarrow> if duplicate_serial d ds then ascii ''#usb:'' @ usb else [] | None \<Rightarrow> [])"
  have p: "strip_prefix (ascii ''androconnect-server'') (server_selector d ds) = Some (ascii '':'' @ tail)"
    unfolding server_selector_def tail_def by (simp add: strip_prefix_Some)
  have "split_usb tail = Some (dl_identifier d, if duplicate_serial d ds then server_usb_path d else None)"
  proof (cases "duplicate_serial d ds \<and> server_usb_path d \<noteq> None")
    case True
    then obtain usb where usb: "server_usb_path d = Some usb" "58 \<notin> set usb" "usb \<noteq> []"
      by (auto simp: server_usb_path_def split: if_splits)
    from rsplit_once_last [OF usb(2), of "ascii ''#usb''" "dl_identifier d"] True usb
    have "rsplit_once (ascii ''#usb:'') tail = Some (dl_identifier d, usb)" by (simp add: tail_def)
    with usb True assms(1) show ?thesis by (simp add: split_usb_def)
  next
    case False
    then have "tail = dl_identifier d" by (auto simp: tail_def split: option.split)
    with False assms show ?thesis by (auto simp: split_usb_def)
  qed
  with p show ?thesis by (simp add: parse_server_selector_def del: ascii_Cons)
qed

section \<open>Choosing the server\<close>

text \<open>A row for a wireless device that the server has but cannot use.\<close>

definition unavailable_server_wireless :: "(bytes \<Rightarrow> bool) \<Rightarrow> device_long \<Rightarrow> bool" where
  "unavailable_server_wireless is_address d \<longleftrightarrow> dl_state d \<noteq> Device \<and> is_address (dl_identifier d)"

text \<open>What a command line selects: serial, transport id and USB path; \<open>named\<close> after a name of the server's.\<close>

record selection =
  se_serial :: "bytes option"
  se_transport_id :: "u64 option"
  se_usb :: "bytes option"
  se_named :: bool

definition selects_address :: "(bytes \<Rightarrow> bool) \<Rightarrow> selection \<Rightarrow> bool" where
  "selects_address is_address q \<longleftrightarrow>
     \<not> se_named q \<and> (case se_serial q of None \<Rightarrow> False | Some s \<Rightarrow> is_address s)"

definition server_matches :: "(bytes \<Rightarrow> bool) \<Rightarrow> selection \<Rightarrow> device_long \<Rightarrow> bool" where
  "server_matches is_address q d \<longleftrightarrow>
     (case se_serial q of None \<Rightarrow> True | Some s \<Rightarrow> dl_identifier d = s)
     \<and> (\<not> selects_address is_address q \<or> \<not> unavailable_server_wireless is_address d)
     \<and> (case se_transport_id q of None \<Rightarrow> True | Some n \<Rightarrow> ucast (dl_transport_id d) = n)
     \<and> (case se_usb q of None \<Rightarrow> True | Some usb \<Rightarrow> server_usb_path d = Some usb)"

datatype route = Run_On_Server "bytes option" "u64 option" | Refused bytes | Elsewhere

definition stays_local :: "bytes option \<Rightarrow> bool" where
  "stays_local command \<longleftrightarrow> command = Some (ascii ''start-server'') \<or> command = Some (ascii ''wait-for-device'')"

definition route_by_devices :: "(bytes \<Rightarrow> bool) \<Rightarrow> selection \<Rightarrow> bytes option \<Rightarrow> device_long list \<Rightarrow> route" where
  "route_by_devices is_address q command ds =
     (let matching = filter (server_matches is_address q) ds;
          chosen = se_serial q \<noteq> None \<or> se_transport_id q \<noteq> None
      in if (if chosen then length matching = 1 else length ds = 1) then
           Run_On_Server (se_serial q)
             (if se_named q then (case matching of [] \<Rightarrow> None | d # _ \<Rightarrow> server_transport_id d) else se_transport_id q)
         else if ds \<noteq> [] \<and> \<not> chosen \<and> \<not> stays_local command then
           Refused (ascii ''multiple devices connected through ADB server; select one with -s or -t'')
         else Elsewhere)"

definition ambiguous_name :: "selection \<Rightarrow> device_long list option \<Rightarrow> bool" where
  "ambiguous_name q server \<longleftrightarrow>
     se_usb q = None \<and> (case server of None \<Rightarrow> False
       | Some ds \<Rightarrow> 1 < length (filter (\<lambda>d. se_serial q = Some (dl_identifier d)) ds))"

text \<open>The devices of the server that is running, if one is, decide first.\<close>

definition server_route :: "(bytes \<Rightarrow> bool) \<Rightarrow> selection \<Rightarrow> bytes option \<Rightarrow> device_long list option \<Rightarrow> route" where
  "server_route is_address q command server =
     (case (case server of None \<Rightarrow> Elsewhere | Some ds \<Rightarrow> route_by_devices is_address q command ds) of
        Elsewhere \<Rightarrow>
          if se_named q then
            Refused (if ambiguous_name q server then
                ascii ''several phones connected through the ADB server share this serial; refresh the device list''
              else ascii ''selected ADB server transport is no longer connected; refresh the device list'')
          else Elsewhere
      | r \<Rightarrow> r)"

text \<open>The selection a name of the server's stands for.\<close>

definition named_selection :: "bytes \<Rightarrow> selection boxed" where
  "named_selection value =
     bind_outcome (ok_or (ascii ''invalid server transport selector'') (parse_server_selector value)) (\<lambda>(serial, usb).
       Ok \<lparr>se_serial = Some serial, se_transport_id = None, se_usb = usb, se_named = True\<rparr>)"

definition server_device_for :: "bytes option \<Rightarrow> u64 option \<Rightarrow> server_transport \<Rightarrow> server_device boxed" where
  "server_device_for serial transport_id t =
     (case transport_id of
        Some n \<Rightarrow>
          if unat n < 2 ^ 32 then Ok \<lparr>sd_identifier = None, sd_transport_id = Some (ucast n), sd_transport = t\<rparr>
          else failure ''ADB server transport id exceeds u32''
      | None \<Rightarrow> Ok \<lparr>sd_identifier = serial, sd_transport_id = None, sd_transport = t\<rparr>)"

text \<open>
  The name under which a device of the server is listed reaches that device: the command runs on the
  server, on the transport id the device has now or, on a server that reports none, on its serial. It
  is enough that devices with the same serial have different USB paths.
\<close>

theorem server_selector_reaches_device:
  assumes "d \<in> set ds" and "distinct ds" and "dl_identifier d \<noteq> []"
    and "\<forall>e \<in> set ds. dl_identifier e = dl_identifier d \<and> e \<noteq> d
      \<longrightarrow> server_usb_path d \<noteq> None \<and> server_usb_path e \<noteq> server_usb_path d"
    and "rsplit_once (ascii ''#usb:'') (dl_identifier d) = None"
  shows "\<exists>q v. named_selection (server_selector d ds) = Ok q
    \<and> server_route is_address q command (Some ds) = Run_On_Server (Some (dl_identifier d)) (server_transport_id d)
    \<and> server_device_for (Some (dl_identifier d)) (server_transport_id d) t = Ok v
    \<and> transport_selector v = (if dl_transport_id d \<noteq> 0 then TransportId (dl_transport_id d) else TransportSerial (dl_identifier d))"
proof -
  let ?q = "\<lparr>se_serial = Some (dl_identifier d), se_transport_id = None,
    se_usb = (if duplicate_serial d ds then server_usb_path d else None), se_named = True\<rparr>"
  have q: "named_selection (server_selector d ds) = Ok ?q"
    using parse_server_selector_selector [of d ds] assms(3,5) by (simp add: named_selection_def)
  have "filter (server_matches is_address ?q) ds = [d]"
  proof (rule filter_single [OF assms(1,2)])
    show "server_matches is_address ?q d"
      by (auto simp: server_matches_def selects_address_def split: option.split)
    show "\<forall>e \<in> set ds. server_matches is_address ?q e \<longrightarrow> e = d"
    proof (intro ballI impI, rule ccontr)
      fix e
      assume e: "e \<in> set ds" "server_matches is_address ?q e" "e \<noteq> d"
      then have same: "dl_identifier e = dl_identifier d" by (simp add: server_matches_def)
      with assms(4) e obtain usb where usb: "server_usb_path d = Some usb" "server_usb_path e \<noteq> Some usb" by force
      have "{e, d} \<subseteq> set (filter (\<lambda>x. dl_identifier x = dl_identifier d) ds)" using e(1) same assms(1) by simp
      then have "card {e, d} \<le> card (set (filter (\<lambda>x. dl_identifier x = dl_identifier d) ds))" by (intro card_mono) simp_all
      then have "2 \<le> length (filter (\<lambda>x. dl_identifier x = dl_identifier d) ds)"
        using e(3) card_length [of "filter (\<lambda>x. dl_identifier x = dl_identifier d) ds"] by simp
      then have "duplicate_serial d ds" by (simp add: duplicate_serial_def)
      with e(2) usb show False by (simp add: server_matches_def)
    qed
  qed
  then have r: "server_route is_address ?q command (Some ds) = Run_On_Server (Some (dl_identifier d)) (server_transport_id d)"
    by (simp add: server_route_def route_by_devices_def Let_def)
  have n: "unat (ucast (dl_transport_id d) :: u64) = unat (dl_transport_id d)" 
    using unat_less_u32 [of "dl_transport_id d"] by (simp add: unsigned_ucast_eq take_bit_nat_eq_self)
  have "ucast (ucast (dl_transport_id d) :: u64) = dl_transport_id d"
    by (rule bit_word_eqI) (simp add: bit_unsigned_iff)
  with q r n unat_less_u32 [of "dl_transport_id d"] show ?thesis
    by (auto simp: server_device_for_def server_transport_id_def transport_selector_def)
qed

theorem server_selector_reaches_device_witness:
  "let a = \<lparr>dl_identifier = ascii ''X'', dl_state = Device, dl_usb = ascii ''1-1'', dl_product = [], dl_model = [], dl_device = [], dl_transport_id = 4\<rparr>
   in \<exists>q. named_selection (server_selector a [a, a\<lparr>dl_usb := ascii ''1-2''\<rparr>]) = Ok q
     \<and> server_route (\<lambda>_. False) q None (Some [a, a\<lparr>dl_usb := ascii ''1-2''\<rparr>]) = Run_On_Server (Some (ascii ''X'')) (Some 4)"
proof -
  let ?a = "\<lparr>dl_identifier = ascii ''X'', dl_state = Device, dl_usb = ascii ''1-1'', dl_product = [], dl_model = [], dl_device = [], dl_transport_id = 4\<rparr>"
  show ?thesis
    using server_selector_reaches_device [of ?a "[?a, ?a\<lparr>dl_usb := ascii ''1-2''\<rparr>]" "\<lambda>_. False" None "\<lparr>st_socket = None, st_dials = [], st_past = []\<rparr>"]
    by (auto simp: server_usb_path_def rsplit_once_def starts_with_def server_transport_id_def Let_def)
qed

end
