(* ===== verification/Cli_Uploads.thy ===== *)
theory Cli_Uploads
  imports Cli_Devices
begin

text \<open>
  Uploads end: a file or the frames of a control connection have less to give after every read, so
  the loop of an upload returns on every input, well-formed or not.
\<close>

section \<open>Readers that run dry\<close>

text \<open>An upload from a reader that has less to give after every chunk ends, whatever errors it meets.\<close>

locale shrinking_reader =
  fixes rd :: "'s reader" and amount :: "'s \<Rightarrow> nat"
  assumes rd_shrinks: "rd n s = (Ok bs, s') \<Longrightarrow> 0 < n \<Longrightarrow> bs \<noteq> [] \<Longrightarrow> amount s' < amount s"
begin

lemma service_push_loop_ends: "\<exists>x. service_push_loop a rd s l = Some x"
proof (induction "amount s" arbitrary: s l rule: less_induct)
  case less
  obtain r s1 where r: "rd CHUNK_SIZE s = (r, s1)" by fastforce
  show ?case
  proof (cases "\<exists>bs. r = Ok bs \<and> bs \<noteq> []")
    case True
    then obtain bs where bs: "r = Ok bs" "bs \<noteq> []" by blast
    obtain q l1 where q: "service_push_data a bs l = (q, l1)" by fastforce
    have "amount s1 < amount s" using rd_shrinks r bs by (simp add: CHUNK_SIZE_def)
    from less [OF this, of l1] r bs q show ?thesis
      by (subst service_push_loop.simps) (cases q; simp)
  next
    case False
    with r show ?thesis by (subst service_push_loop.simps) (cases r; simp)
  qed
qed

lemma service_push_ends: "\<exists>x. service_push a rd s path l = Some x"
proof -
  obtain b l1 where b: "push_begin a path l = (b, l1)" by fastforce
  obtain r s' l2 where "service_push_loop a rd s l1 = Some (r, s', l2)"
    using service_push_loop_ends by (metis prod_cases3)
  with b show ?thesis by (cases b; cases r) (simp_all add: service_push_def split_beta)
qed

lemma dispatched_push_ends: "\<exists>r s' d'. dispatched_push term rd s path d = Some (r, s', d')"
proof -
  obtain b d1 where b: "open_service term Sync d = (b, d1)" by fastforce
  have "\<exists>x. service_push a rd s path (dm_link d1) = Some x" for a by (rule service_push_ends)
  with b show ?thesis by (cases b) (fastforce simp: dispatched_push_def split_beta)+
qed

end

lemma read_source_amount:
  assumes "read_source n src = (r, src')"
  shows "length (socket_bytes src') \<le> length (socket_bytes src)"
    and "r = Ok bs \<Longrightarrow> length (socket_bytes src) = length bs + length (socket_bytes src')"
  using read_source_socket_bytes [OF assms] by (auto split: outcome.splits)

lemma read_full_amount:
  "read_full n src = (r, src') \<Longrightarrow> length (socket_bytes src') \<le> length (socket_bytes src)
     \<and> (\<forall>bs. r = Ok bs \<longrightarrow> length bs = n \<and> length (socket_bytes src') + n \<le> length (socket_bytes src))"
proof (induction n src arbitrary: r src' rule: read_full.induct)
  case (1 n src)
  show ?case
  proof (cases "n = 0")
    case True
    with "1.prems" show ?thesis by (subst (asm) read_full.simps) auto
  next
    case False
    obtain q src1 where q: "read_source n src = (q, src1)" by fastforce
    note le = read_source_amount(1) [OF q]
    show ?thesis
    proof (cases q)
      case (Ok bs)
      note eq = read_source_amount(2) [OF q Ok] and len = read_source_bound [OF q [unfolded Ok]]
      obtain p src2 where p: "read_full (n - length bs) src1 = (p, src2)" by fastforce
      show ?thesis
      proof (cases "bs = []")
        case True
        with "1.prems" q Ok False le show ?thesis by (subst (asm) read_full.simps) auto
      next
        case ne: False
        from "1.IH"(1) [OF False q [symmetric] Ok ne p]
        have ih: "length (socket_bytes src2) \<le> length (socket_bytes src1)"
          "\<And>xs. p = Ok xs \<Longrightarrow> length xs = n - length bs \<and> length (socket_bytes src2) + (n - length bs) \<le> length (socket_bytes src1)"
          by auto
        from "1.prems" q Ok False ne p
        have "r = (case p of Ok others \<Rightarrow> Ok (bs @ others) | Err e \<Rightarrow> Err e | Panic \<Rightarrow> Panic)" "src' = src2"
          by (subst (asm) read_full.simps; simp)+
        with ih eq len show ?thesis by (cases p) auto
      qed
    next
      case (Err e)
      show ?thesis
      proof (cases "case e of IOError Interrupted _ \<Rightarrow> True | _ \<Rightarrow> False")
        case True
        with "1.prems" q Err False have "read_full n src1 = (r, src')" by (subst (asm) read_full.simps) simp
        with "1.IH"(2) [OF False q [symmetric] Err True] le show ?thesis by fastforce
      next
        case no: False
        with "1.prems" q Err False le show ?thesis by (subst (asm) read_full.simps) auto
      qed
    next
      case Panic
      with "1.prems" q False le show ?thesis by (subst (asm) read_full.simps) auto
    qed
  qed
qed

interpretation file_source: shrinking_reader read_source "\<lambda>src. length (socket_bytes src)"
  by unfold_locales (simp add: read_source_amount(2))

definition frame_amount :: "framed_reader \<Rightarrow> nat" where
  "frame_amount f = (length (fr_frame f) - fr_offset f) + length (socket_bytes (fr_stream f))"

lemma fr_read_exact_full: "fr_read_exact n src = read_full n src"
  by (simp add: fr_read_exact_def read_exact_read_full)

lemma next_frame_amount:
  assumes "next_frame f = (Ok (), f')" and "fr_offset f = length (fr_frame f)"
  shows "frame_amount f' \<le> frame_amount f"
  using assms read_full_amount [of 4 "fr_stream f"]
  by (auto simp: next_frame_def frame_amount_def fr_read_exact_full dest!: read_full_amount
      split: outcome.splits prod.splits if_splits)

interpretation framed_source: shrinking_reader framed_read frame_amount
proof
  fix n :: nat and f bs f'
  assume r: "framed_read n f = (Ok bs, f')" and n: "0 < n" and bs: "bs \<noteq> []"
  define g where "g = (if fr_offset f = length (fr_frame f) \<and> \<not> fr_finished f then next_frame else lift (Ok ()))"
  obtain q f1 where q: "g f = (q, f1)" by fastforce
  have q_ok: "q = Ok ()" using r q n by (cases q) (auto simp: framed_read_def seq_io_def bind_io_def g_def [symmetric])
  have le: "frame_amount f1 \<le> frame_amount f"
    using q q_ok next_frame_amount [of f f1] by (auto simp: g_def lift_def split: if_splits)
  have "\<not> fr_finished f1"
    using r q q_ok n bs by (auto simp: framed_read_def seq_io_def bind_io_def g_def [symmetric] split: if_splits)
  then have "bs = slice (fr_offset f1) (fr_offset f1 + min n (length (fr_frame f1) - fr_offset f1)) (fr_frame f1)"
    and f': "f' = f1\<lparr>fr_offset := fr_offset f1 + min n (length (fr_frame f1) - fr_offset f1)\<rparr>"
    using r q q_ok n by (auto simp: framed_read_def seq_io_def bind_io_def g_def [symmetric] Let_def)
  with bs have "0 < min n (length (fr_frame f1) - fr_offset f1)" by (auto simp: slice_def)
  with f' have "frame_amount f' < frame_amount f1" by (auto simp: frame_amount_def min_def)
  with le show "frame_amount f' < frame_amount f" by simp
qed

end
