(* ===== verification/Cli_Daemon.thy ===== *)
theory Cli_Daemon
  imports Cli_Uploads
begin

text \<open>
  The requests of \<^verbatim>\<open>adb_cli/src/direct_daemon.rs\<close>: \<open>handle\<close>, the thread that serves one connection to the
  daemon that owns a USB device, over the dispatched device and its registries of forwards and
  reverse rules, and the requests \<^verbatim>\<open>adb_cli/src/compat.rs\<close> sends it. The file system of the host, its
  clock and the binding of ports are parameters. What an operation writes to the connection is kept
  as a whole: how it is cut into frames is the subject of the control streams.
\<close>

section \<open>The daemon and its host\<close>

record daemon_host =
  dh_term :: "bytes option"
  dh_open :: "bytes \<Rightarrow> source result"
  dh_clock :: "nat option"
  dh_pid :: nat
  dh_bind :: "bytes \<Rightarrow> unit result"
  dh_ready :: bool

record daemon_server =
  sv_device :: daemon
  sv_forwards :: forwards
  sv_shutdown :: bool

type_synonym ('s, 'a) boxed_io = "'s \<Rightarrow> 'a boxed \<times> 's"

definition bind_boxed :: "('s, 'a) boxed_io \<Rightarrow> ('a \<Rightarrow> ('s, 'b) boxed_io) \<Rightarrow> ('s, 'b) boxed_io" where
  "bind_boxed m f s =
     (case m s of
        (Ok a, s') \<Rightarrow> f a s'
      | (Err e, s') \<Rightarrow> (Err e, s')
      | (Panic, s') \<Rightarrow> (Panic, s'))"

definition boxed_value :: "'a boxed \<Rightarrow> ('s, 'a) boxed_io" where
  "boxed_value r s = (r, s)"

definition on_device :: "(daemon, 'a) io \<Rightarrow> (daemon_server, 'a) boxed_io" where
  "on_device m s = (case m (sv_device s) of (r, d) \<Rightarrow> (boxed r, s\<lparr>sv_device := d\<rparr>))"

lemma boxed_simps [simp]:
  "bind_boxed (boxed_value (Ok a)) f s = f a s"
  "bind_boxed (boxed_value (Err e)) f s = (Err e, s)"
  "boxed_value r s = (r, s)"
  by (simp_all add: bind_boxed_def boxed_value_def)

text \<open>
  What a connection is answered: a plain text; the output of an operation, in frames, with its
  result; or, after an upload that was read from the connection, its result alone.
\<close>

datatype reply = Plain bytes | Streaming bytes "unit result" | Receiving "unit result"

definition no_output :: sink where
  "no_output = \<lparr>sk_script = [], sk_out = []\<rparr>"

section \<open>Fields of a request\<close>

definition TAB :: u8 where
  "TAB = 9"

definition field_or :: "string \<Rightarrow> nat \<Rightarrow> bytes list \<Rightarrow> bytes boxed" where
  "field_or msg i parts = ok_or (ascii msg) (if i < length parts then Some (parts ! i) else None)"

definition optional_field :: "nat \<Rightarrow> bytes list \<Rightarrow> bytes" where
  "optional_field i parts = (if i < length parts then parts ! i else [])"

definition extra_fields :: bytes where
  "extra_fields = ascii ''invalid request: unexpected extra fields (paths must not contain tabs)''"

definition reject_extra_fields :: "nat \<Rightarrow> bytes list \<Rightarrow> unit boxed" where
  "reject_extra_fields taken parts = (if taken < length parts then Err extra_fields else Ok ())"

definition after_tab :: "string \<Rightarrow> bytes \<Rightarrow> bytes boxed" where
  "after_tab msg request = ok_or (ascii msg) (map_option snd (split_once [TAB] request))"

text \<open>\<open>split_whitespace\<close>: the words of a text.\<close>

function words :: "bytes \<Rightarrow> bytes \<Rightarrow> bytes list" where
  "words acc s =
     (if s = [] then (if acc = [] then [] else [acc])
      else if leading_space s = 0 then words (acc @ [hd s]) (tl s)
      else (if acc = [] then [] else [acc]) @ words [] (drop (leading_space s) s))"
  by pat_completeness auto
termination by (relation "measure (length \<circ> snd)") auto

declare words.simps [simp del]

definition flags_allowed :: "bytes \<Rightarrow> bool" where
  "flags_allowed flags \<longleftrightarrow> list_all install_flag (words [] flags)"

definition user_flag :: "bytes \<Rightarrow> bytes" where
  "user_flag user = (if user = [] then [] else ascii '' --user '' @ user)"

definition reported_success :: "bytes \<Rightarrow> bool" where
  "reported_success out \<longleftrightarrow> list_ex (\<lambda>l. trim l = ascii ''Success'') (str_lines (utf8_lossy out))"

section \<open>Operations\<close>

text \<open>A command whose output is collected.\<close>

definition captured_shell :: "daemon_host \<Rightarrow> bytes \<Rightarrow> (daemon, bytes) io" where
  "captured_shell h command d =
     (case dispatched_shell (dh_term h) command (Some no_output) d of
        (r, out, d') \<Rightarrow> (bind_outcome r (\<lambda>_. Ok (output_of out)), d'))"

definition silent_shell :: "daemon_host \<Rightarrow> bytes \<Rightarrow> (daemon, unit) io" where
  "silent_shell h command d = (case dispatched_shell (dh_term h) command None d of (r, _, d') \<Rightarrow> (r, d'))"

text \<open>An upload always ends, so the second case never arises (\<open>push_from_file_source\<close>, \<open>push_from_framed_source\<close> below).\<close>

definition push_from :: "daemon_host \<Rightarrow> 's reader \<Rightarrow> 's \<Rightarrow> bytes \<Rightarrow> (daemon, unit) io" where
  "push_from h rd src dest d =
     (case dispatched_push (dh_term h) rd src dest d of
        Some (r, _, d') \<Rightarrow> (r, d')
      | None \<Rightarrow> (Panic, d))"

definition push_file_at :: "daemon_host \<Rightarrow> bytes \<Rightarrow> bytes \<Rightarrow> (daemon, unit) io" where
  "push_file_at h path dest = bind_io (lift (dh_open h path)) (\<lambda>src. push_from h read_source src dest)"

definition remote_apk :: "nat \<Rightarrow> nat \<Rightarrow> bytes" where
  "remote_apk pid suffix =
     ascii ''/data/local/tmp/androconnect-install-'' @ show_nat pid @ ascii ''-'' @ show_nat suffix @ ascii ''.apk''"

definition nanos :: "daemon_host \<Rightarrow> nat boxed" where
  "nanos h = ok_or (ascii ''second time provided was later than self'') (dh_clock h)"

definition install_command :: "bytes \<Rightarrow> bytes \<Rightarrow> bytes \<Rightarrow> bytes" where
  "install_command flags user remote = ascii ''pm install '' @ flags @ user_flag user @ [32] @ remote"

text \<open>The temporary copy on the device is removed however the installation went.\<close>

definition run_install :: "daemon_host \<Rightarrow> bytes \<Rightarrow> bytes \<Rightarrow> bytes \<Rightarrow> (daemon_server, reply) boxed_io" where
  "run_install h path flags user =
     bind_boxed (boxed_value (nanos h)) (\<lambda>suffix s.
       let remote = remote_apk (dh_pid h) suffix
       in case seq_io (push_file_at h path remote) (captured_shell h (install_command flags user remote)) (sv_device s) of
            (Panic, d) \<Rightarrow> (Panic, s\<lparr>sv_device := d\<rparr>)
          | (r, d) \<Rightarrow>
             bind_boxed (on_device (ignore (silent_shell h (ascii ''rm -f '' @ remote)))) (\<lambda>_.
             bind_boxed (boxed_value (boxed r)) (\<lambda>out.
             boxed_value (if reported_success out then Ok (Plain out) else Err (utf8_lossy out)))) (s\<lparr>sv_device := d\<rparr>))"

definition uninstall_command :: "bytes \<Rightarrow> bytes \<Rightarrow> bytes \<Rightarrow> bytes" where
  "uninstall_command keep user package = ascii ''pm uninstall '' @ keep @ user_flag user @ [32] @ package"

definition run_uninstall :: "daemon_host \<Rightarrow> bytes \<Rightarrow> bytes \<Rightarrow> bytes \<Rightarrow> (daemon_server, reply) boxed_io" where
  "run_uninstall h keep user package =
     bind_boxed (on_device (captured_shell h (uninstall_command keep user package))) (\<lambda>out.
     boxed_value (if reported_success out then Ok (Plain out) else Err (utf8_lossy out)))"

definition pair_lines :: "(bytes \<times> bytes) list \<Rightarrow> bytes" where
  "pair_lines rules = concat (map (\<lambda>(a, b). a @ [32] @ b @ [10]) rules)"

text \<open>
  A listener runs in a thread of its own, which answers before it serves its first connection; the
  request waits two seconds for that answer.
\<close>

definition run_forward :: "daemon_host \<Rightarrow> bytes \<Rightarrow> bytes \<Rightarrow> (daemon_server, reply) boxed_io" where
  "run_forward h near remote s =
     (case begin_forward (dh_bind h near) near remote (sv_forwards s) of
        (r, w) \<Rightarrow>
          (if dh_ready h then bind_outcome (boxed r) (\<lambda>_. Ok (Plain []))
           else failure ''timed out waiting on channel'', s\<lparr>sv_forwards := w\<rparr>))"

definition run_forward_remove :: "bytes \<Rightarrow> (daemon_server, reply) boxed_io" where
  "run_forward_remove near s =
     (case remove_forward near (sv_forwards s) of
        (found, w) \<Rightarrow> (if found then Ok (Plain []) else failure ''forward rule not found'', s\<lparr>sv_forwards := w\<rparr>))"

fun device_properties :: "daemon_host \<Rightarrow> bytes list \<Rightarrow> (daemon, bytes) io" where
  "device_properties h [] = lift (Ok [])"
| "device_properties h (p # ps) =
     bind_io (captured_shell h (ascii ''getprop '' @ p)) (\<lambda>value.
     seq_io (lift (if utf8_valid value then Ok () else Err Utf8FromBytesError))
       (bind_io (device_properties h ps) (\<lambda>rest. lift (Ok (trim value @ [10] @ rest)))))"

definition plainly :: "(daemon, 'a) io \<Rightarrow> (daemon_server, reply) boxed_io" where
  "plainly m = bind_boxed (on_device m) (\<lambda>_. boxed_value (Ok (Plain [])))"

definition streamed_shell :: "daemon_host \<Rightarrow> bytes \<Rightarrow> (daemon_server, reply) boxed_io" where
  "streamed_shell h command s =
     (case dispatched_shell (dh_term h) command (Some no_output) (sv_device s) of
        (r, out, d) \<Rightarrow> (Ok (Streaming (output_of out) r), s\<lparr>sv_device := d\<rparr>))"

definition streamed_exec :: "daemon_host \<Rightarrow> bytes \<Rightarrow> (daemon_server, reply) boxed_io" where
  "streamed_exec h command s =
     (case exec_out (dh_term h) command no_output (sv_device s) of
        (r, out, d) \<Rightarrow> (Ok (Streaming (output_of out) r), s\<lparr>sv_device := d\<rparr>))"

definition streamed_pull :: "daemon_host \<Rightarrow> bytes \<Rightarrow> (daemon_server, reply) boxed_io" where
  "streamed_pull h path s =
     (case dispatched_pull (dh_term h) path no_output (sv_device s) of
        (r, out, d) \<Rightarrow> (Ok (Streaming (sk_out out) r), s\<lparr>sv_device := d\<rparr>))"

definition received_push :: "daemon_host \<Rightarrow> source \<Rightarrow> bytes \<Rightarrow> (daemon_server, reply) boxed_io" where
  "received_push h src dest s =
     (case push_from h framed_read (framed_reader_new src) dest (sv_device s) of
        (r, d) \<Rightarrow> (Ok (Receiving r), s\<lparr>sv_device := d\<rparr>))"

section \<open>One request\<close>

definition handle_install :: "daemon_host \<Rightarrow> bytes list \<Rightarrow> (daemon_server, reply) boxed_io" where
  "handle_install h parts =
     bind_boxed (boxed_value (field_or ''missing APK'' 0 parts)) (\<lambda>path.
     bind_boxed (boxed_value (reject_extra_fields 3 parts)) (\<lambda>_.
       if \<not> flags_allowed (optional_field 1 parts) then boxed_value (failure ''unsupported install options'')
       else if \<not> list_all is_digit (optional_field 2 parts) then boxed_value (failure ''invalid install user'')
       else run_install h path (optional_field 1 parts) (optional_field 2 parts)))"

definition handle_uninstall :: "daemon_host \<Rightarrow> bytes list \<Rightarrow> (daemon_server, reply) boxed_io" where
  "handle_uninstall h parts =
     bind_boxed (boxed_value (field_or ''missing uninstall option'' 0 parts)) (\<lambda>keep.
     bind_boxed (boxed_value (field_or ''missing uninstall user'' 1 parts)) (\<lambda>user.
     bind_boxed (boxed_value (field_or ''missing package'' 2 parts)) (\<lambda>package.
     bind_boxed (boxed_value (reject_extra_fields 3 parts)) (\<lambda>_.
       if keep \<noteq> [] \<and> keep \<noteq> ascii ''-k'' \<or> package = [] \<or> \<not> list_all package_char package then
         boxed_value (failure ''invalid uninstall request'')
       else if \<not> list_all is_digit user then boxed_value (failure ''invalid uninstall user'')
       else run_uninstall h keep user package))))"

definition handle_push :: "daemon_host \<Rightarrow> bytes list \<Rightarrow> (daemon_server, reply) boxed_io" where
  "handle_push h parts =
     bind_boxed (boxed_value (field_or ''missing push source'' 0 parts)) (\<lambda>path.
     bind_boxed (boxed_value (field_or ''missing push destination'' 1 parts)) (\<lambda>dest.
     bind_boxed (boxed_value (reject_extra_fields 2 parts)) (\<lambda>_. plainly (push_file_at h path dest))))"

definition handle_push_stream :: "daemon_host \<Rightarrow> source \<Rightarrow> bytes list \<Rightarrow> (daemon_server, reply) boxed_io" where
  "handle_push_stream h src parts =
     bind_boxed (boxed_value (field_or ''missing push destination'' 0 parts)) (\<lambda>dest.
     bind_boxed (boxed_value (reject_extra_fields 1 parts)) (\<lambda>_. received_push h src dest))"

definition handle_reverse :: "daemon_host \<Rightarrow> bytes list \<Rightarrow> (daemon_server, reply) boxed_io" where
  "handle_reverse h parts =
     bind_boxed (boxed_value (field_or ''missing reverse remote'' 0 parts)) (\<lambda>remote.
     bind_boxed (boxed_value (field_or ''missing reverse local'' 1 parts)) (\<lambda>near.
     bind_boxed (boxed_value (reject_extra_fields 2 parts)) (\<lambda>_.
       plainly (dispatched_reverse_forward (dh_term h) remote near))))"

definition handle_reverse_remove :: "daemon_host \<Rightarrow> bytes list \<Rightarrow> (daemon_server, reply) boxed_io" where
  "handle_reverse_remove h parts =
     bind_boxed (boxed_value (field_or ''missing reverse remote'' 0 parts)) (\<lambda>remote.
     bind_boxed (boxed_value (reject_extra_fields 1 parts)) (\<lambda>_.
       plainly (dispatched_remove_reverse (dh_term h) remote)))"

definition handle_forward :: "daemon_host \<Rightarrow> bytes list \<Rightarrow> (daemon_server, reply) boxed_io" where
  "handle_forward h parts =
     bind_boxed (boxed_value (field_or ''missing local forward endpoint'' 0 parts)) (\<lambda>near.
     bind_boxed (boxed_value (field_or ''missing remote forward endpoint'' 1 parts)) (\<lambda>remote.
     bind_boxed (boxed_value (reject_extra_fields 2 parts)) (\<lambda>_. run_forward h near remote)))"

definition handle_forward_remove :: "bytes list \<Rightarrow> (daemon_server, reply) boxed_io" where
  "handle_forward_remove parts =
     bind_boxed (boxed_value (field_or ''missing local forward endpoint'' 0 parts)) (\<lambda>near.
     bind_boxed (boxed_value (reject_extra_fields 1 parts)) (\<lambda>_. run_forward_remove near))"

text \<open>The text of the error of a port that is no number is not looked at.\<close>

definition handle_tcpip :: "daemon_host \<Rightarrow> bytes list \<Rightarrow> (daemon_server, reply) boxed_io" where
  "handle_tcpip h parts =
     bind_boxed (boxed_value (field_or ''missing TCP port'' 0 parts)) (\<lambda>text.
     bind_boxed (boxed_value (ok_or [] (parse_uint 10 16 text))) (\<lambda>port.
     bind_boxed (boxed_value (reject_extra_fields 1 parts)) (\<lambda>_.
       if port = 0 then boxed_value (failure ''TCP port must be between 1 and 65535'')
       else plainly (dispatched_tcpip (dh_term h) (word_of_nat port)))))"

definition listing :: "(daemon, (bytes \<times> bytes) list) io \<Rightarrow> (daemon_server, reply) boxed_io" where
  "listing m = bind_boxed (on_device m) (\<lambda>rules. boxed_value (Ok (Plain (pair_lines rules))))"

definition handle_request :: "daemon_host \<Rightarrow> source \<Rightarrow> bytes \<Rightarrow> (daemon_server, reply) boxed_io" where
  "handle_request h src request =
     (let command = hd (split_on TAB request); parts = tl (split_on TAB request)
      in if command = ascii ''SHELL'' then
           bind_boxed (boxed_value (after_tab ''missing shell command'' request)) (streamed_shell h)
         else if command = ascii ''EXEC'' then
           bind_boxed (boxed_value (after_tab ''missing exec command'' request)) (streamed_exec h)
         else if command = ascii ''PULL'' then
           bind_boxed (boxed_value (after_tab ''missing pull path'' request)) (streamed_pull h)
         else if command = ascii ''INSTALL'' then handle_install h parts
         else if command = ascii ''UNINSTALL'' then handle_uninstall h parts
         else if command = ascii ''PING'' then boxed_value (Ok (Plain []))
         else if command = ascii ''SHUTDOWN'' then (\<lambda>s. (Ok (Plain []), s\<lparr>sv_shutdown := True\<rparr>))
         else if command = ascii ''PUSH'' then handle_push h parts
         else if command = ascii ''PUSH_STREAM'' then handle_push_stream h src parts
         else if command = ascii ''REVERSE'' then handle_reverse h parts
         else if command = ascii ''REVERSE_REMOVE'' then handle_reverse_remove h parts
         else if command = ascii ''REVERSE_LIST'' then listing routes
         else if command = ascii ''REVERSE_REMOVE_ALL'' then plainly (remove_all_reverse_routes (dh_term h))
         else if command = ascii ''FORWARD'' then handle_forward h parts
         else if command = ascii ''FORWARD_LIST'' then (\<lambda>s. (Ok (Plain (pair_lines (forward_routes (sv_forwards s)))), s))
         else if command = ascii ''FORWARD_REMOVE'' then handle_forward_remove parts
         else if command = ascii ''FORWARD_REMOVE_ALL'' then
           (\<lambda>s. (Ok (Plain []), s\<lparr>sv_forwards := snd (remove_all_forwards (sv_forwards s))\<rparr>))
         else if command = ascii ''ROOT'' then plainly (dispatched_root (dh_term h))
         else if command = ascii ''REMOUNT'' then plainly (dispatched_remount (dh_term h))
         else if command = ascii ''TCPIP'' then handle_tcpip h parts
         else if command = ascii ''DEVICE_INFO'' then
           bind_boxed (on_device (device_properties h [ascii ''ro.serialno'', ascii ''ro.product.model'', ascii ''ro.build.product'']))
             (\<lambda>out. boxed_value (Ok (Plain out)))
         else boxed_value (Err (ascii ''unsupported daemon request: '' @ command)))"

text \<open>The request itself: a length of four bytes, and that many bytes of UTF-8.\<close>

definition REQUEST_LIMIT :: nat where
  "REQUEST_LIMIT = 1024 * 1024"

definition read_request :: "source \<Rightarrow> bytes boxed \<times> source" where
  "read_request src =
     bind_boxed (\<lambda>src. case read_full 4 src of (r, src') \<Rightarrow> (boxed r, src')) (\<lambda>len.
       if REQUEST_LIMIT < be_nat len then boxed_value (failure ''request exceeds 1 MiB'')
       else bind_boxed (\<lambda>src. case read_full (be_nat len) src of (r, src') \<Rightarrow> (boxed r, src')) (\<lambda>body.
         boxed_value (if utf8_valid body then Ok body else Err (error_text Utf8FromBytesError)))) src"

definition handle :: "daemon_host \<Rightarrow> source \<Rightarrow> (daemon_server, reply) boxed_io" where
  "handle h src s =
     (case read_request src of
        (Ok request, src') \<Rightarrow> handle_request h src' request s
      | (Err e, _) \<Rightarrow> (Err e, s)
      | (Panic, _) \<Rightarrow> (Panic, s))"

end
