(* ===== verification/Cli_Parallel.thy ===== *)
theory Cli_Parallel
  imports Prelude "HOL-Library.Multiset"
begin

text \<open>
  \<open>bounded_parallel_map\<close> of \<^verbatim>\<open>adb_cli/src/compat.rs\<close>: worker threads that take indices from a shared
  counter and send their results over one channel. A schedule is the sequence of threads that take
  the next turn; the theory shows that the result does not depend on it.
\<close>

section \<open>The pool of workers\<close>

datatype worker = Fetching | Working nat | Returned

record 'u pool =
  pl_next :: nat
  pl_workers :: "worker list"
  pl_sent :: "(nat \<times> 'u) list"

definition worker_count :: "nat \<Rightarrow> nat \<Rightarrow> nat" where
  "worker_count limit n = min (max limit 1) n"

definition new_pool :: "nat \<Rightarrow> nat \<Rightarrow> 'u pool" where
  "new_pool limit n = \<lparr>pl_next = 0, pl_workers = replicate (worker_count limit n) Fetching, pl_sent = []\<rparr>"

text \<open>
  One turn of worker \<open>k\<close>: taking an index is one atomic step, running the operation and sending its
  result another. The receiver outlives the workers, so that no send fails.
\<close>

definition pool_turn :: "('t \<Rightarrow> 'u) \<Rightarrow> 't list \<Rightarrow> nat \<Rightarrow> 'u pool \<Rightarrow> 'u pool" where
  "pool_turn f items k p =
     (if k < length (pl_workers p) then
        case pl_workers p ! k of
          Fetching \<Rightarrow>
            p\<lparr>pl_next := pl_next p + 1,
              pl_workers := (pl_workers p)[k := if pl_next p < length items then Working (pl_next p) else Returned]\<rparr>
        | Working i \<Rightarrow>
            p\<lparr>pl_workers := (pl_workers p)[k := Fetching], pl_sent := pl_sent p @ [(i, f (items ! i))]\<rparr>
        | Returned \<Rightarrow> p
      else p)"

definition pool_run :: "('t \<Rightarrow> 'u) \<Rightarrow> 't list \<Rightarrow> nat list \<Rightarrow> 'u pool \<Rightarrow> 'u pool" where
  "pool_run f items sched p = fold (pool_turn f items) sched p"

text \<open>The outputs, once every worker has returned; \<open>None\<close> while one has not.\<close>

definition bounded_parallel_map :: "('t \<Rightarrow> 'u) \<Rightarrow> 't list \<Rightarrow> nat \<Rightarrow> nat list \<Rightarrow> 'u list option" where
  "bounded_parallel_map f items limit sched =
     (if items = [] then Some []
      else let p = pool_run f items sched (new_pool limit (length items))
        in if list_all (\<lambda>w. w = Returned) (pl_workers p) then Some (map snd (sort_key fst (pl_sent p))) else None)"

section \<open>Every index is taken once\<close>

fun held :: "worker \<Rightarrow> nat multiset" where
  "held (Working i) = {#i#}"
| "held _ = {#}"

fun weight :: "worker \<Rightarrow> nat" where
  "weight Fetching = 1"
| "weight (Working _) = 2"
| "weight Returned = 0"

lemma sum_list_replace:
  fixes g :: "'a \<Rightarrow> 'b :: cancel_comm_monoid_add"
  shows "k < length ws \<Longrightarrow> sum_list (map g (ws[k := x])) + g (ws ! k) = sum_list (map g ws) + g x"
proof (induction ws arbitrary: k)
  case (Cons w ws)
  then show ?case by (cases k) (simp_all add: ac_simps)
qed simp

definition pool_ok :: "('t \<Rightarrow> 'u) \<Rightarrow> 't list \<Rightarrow> 'u pool \<Rightarrow> bool" where
  "pool_ok f items p \<longleftrightarrow>
     mset (map fst (pl_sent p)) + sum_list (map held (pl_workers p)) = mset [0..<min (pl_next p) (length items)]
     \<and> pl_sent p = map (\<lambda>i. (i, f (items ! i))) (map fst (pl_sent p))
     \<and> (Returned \<in> set (pl_workers p) \<longrightarrow> length items \<le> pl_next p)"

definition work_left :: "'t list \<Rightarrow> 'u pool \<Rightarrow> nat" where
  "work_left items p = 2 * (length items - pl_next p) + sum_list (map weight (pl_workers p))"

lemma length_pool_turn [simp]: "length (pl_workers (pool_turn f items k p)) = length (pl_workers p)"
  by (simp add: pool_turn_def split: worker.split)

lemma pool_turn_ok:
  assumes "pool_ok f items p"
  shows "pool_ok f items (pool_turn f items k p)"
proof (cases "k < length (pl_workers p)")
  case True
  note held = sum_list_replace [OF True, of held]
  show ?thesis
  proof (cases "pl_workers p ! k")
    case Fetching
    show ?thesis
    proof (cases "pl_next p < length items")
      case more: True
      from held [of "Working (pl_next p)"] Fetching more assms show ?thesis
        by (auto simp: pool_ok_def pool_turn_def True dest!: set_update_subset_insert [THEN subsetD])
    next
      case False
      from held [of Returned] Fetching False assms show ?thesis
        by (auto simp: pool_ok_def pool_turn_def True)
    qed
  next
    case (Working i)
    from held [of Fetching] Working
    have "sum_list (map held (pl_workers p)) = add_mset i (sum_list (map held ((pl_workers p)[k := Fetching])))" by simp
    with Working assms show ?thesis
      by (auto simp: pool_ok_def pool_turn_def True dest!: set_update_subset_insert [THEN subsetD])
  next
    case Returned
    with assms show ?thesis by (simp add: pool_turn_def)
  qed
qed (use assms in \<open>simp add: pool_turn_def\<close>)

text \<open>A turn of a worker that has not returned does exactly one unit of work.\<close>

lemma pool_turn_work:
  assumes "k < length (pl_workers p)" and "pl_workers p ! k \<noteq> Returned"
  shows "work_left items p = Suc (work_left items (pool_turn f items k p))"
proof -
  note w = sum_list_replace [OF assms(1), of weight]
  show ?thesis
  proof (cases "pl_workers p ! k")
    case Fetching
    with w [of "Working (pl_next p)"] w [of Returned] assms(1) show ?thesis
      by (auto simp: work_left_def pool_turn_def)
  next
    case (Working i)
    with w [of Fetching] assms(1) show ?thesis by (simp add: work_left_def pool_turn_def)
  qed (use assms in simp)
qed

lemma pool_run_ok: "pool_ok f items p \<Longrightarrow> pool_ok f items (pool_run f items sched p)"
  by (induction sched arbitrary: p) (simp_all add: pool_run_def pool_turn_ok)

lemma length_pool_run [simp]: "length (pl_workers (pool_run f items sched p)) = length (pl_workers p)"
  by (induction sched arbitrary: p) (simp_all add: pool_run_def)

lemma sort_key_map_fst: "sort_key fst (map (\<lambda>i. (i, g i)) is) = map (\<lambda>i. (i, g i)) (sort is)"
proof -
  have "insort_key fst (i, g i) (map (\<lambda>i. (i, g i)) js) = map (\<lambda>i. (i, g i)) (insort i js)" for i js
    by (induction js) simp_all
  then show ?thesis by (induction "is") (simp_all add: sort_key_def)
qed

lemma finished_pool_sent:
  assumes "pool_ok f items p" and "list_all (\<lambda>w. w = Returned) (pl_workers p)" and "pl_workers p \<noteq> []"
  shows "map snd (sort_key fst (pl_sent p)) = map f items"
proof -
  have "sum_list (map held ws) = {#}" if "list_all (\<lambda>w. w = Returned) ws" for ws
    using that by (induction ws) simp_all
  moreover have "Returned \<in> set (pl_workers p)" using assms(2,3) by (cases "pl_workers p") auto
  ultimately have "mset (map fst (pl_sent p)) = mset [0..<length items]"
    using assms(1,2) by (simp add: pool_ok_def min_absorb2)
  then have "sort (map fst (pl_sent p)) = [0..<length items]"
    by (intro properties_for_sort) simp_all
  moreover have "pl_sent p = map (\<lambda>i. (i, f (items ! i))) (map fst (pl_sent p))"
    using assms(1) by (simp add: pool_ok_def)
  ultimately have "map snd (sort_key fst (pl_sent p)) = map (\<lambda>i. f (items ! i)) [0..<length items]"
    using sort_key_map_fst [of "\<lambda>i. f (items ! i)" "map fst (pl_sent p)"] by (simp add: comp_def)
  also have "\<dots> = map f items" by (rule nth_equalityI) simp_all
  finally show ?thesis .
qed

lemma pool_finishes:
  "\<exists>more. list_all (\<lambda>w. w = Returned) (pl_workers (pool_run f items more p))"
proof (induction "work_left items p" arbitrary: p rule: less_induct)
  case less
  show ?case
  proof (cases "list_all (\<lambda>w. w = Returned) (pl_workers p)")
    case True
    then show ?thesis by (intro exI [of _ "[]"]) (simp add: pool_run_def)
  next
    case False
    then obtain k where k: "k < length (pl_workers p)" "pl_workers p ! k \<noteq> Returned"
      by (auto simp: list_all_length)
    from less [of "pool_turn f items k p"] pool_turn_work [OF k, of items f] obtain more
      where "list_all (\<lambda>w. w = Returned) (pl_workers (pool_run f items more (pool_turn f items k p)))" by auto
    then show ?thesis by (intro exI [of _ "k # more"]) (simp add: pool_run_def)
  qed
qed

lemma new_pool_ok: "pool_ok f items (new_pool limit n)"
proof -
  have "sum_list (map held (replicate m Fetching)) = {#}" for m by (induction m) simp_all
  then show ?thesis by (simp add: pool_ok_def new_pool_def)
qed

lemma new_pool_workers: "0 < n \<Longrightarrow> pl_workers (new_pool limit n) \<noteq> []"
  by (simp add: new_pool_def worker_count_def)

text \<open>A schedule whose every turn is one of a worker that still runs is no longer than the work there is.\<close>

fun effective :: "('t \<Rightarrow> 'u) \<Rightarrow> 't list \<Rightarrow> 'u pool \<Rightarrow> nat list \<Rightarrow> bool" where
  "effective f items p [] \<longleftrightarrow> True"
| "effective f items p (k # sched) \<longleftrightarrow>
     k < length (pl_workers p) \<and> pl_workers p ! k \<noteq> Returned \<and> effective f items (pool_turn f items k p) sched"

lemma effective_schedules_bounded:
  "effective f items p sched \<Longrightarrow> length sched \<le> work_left items p"
  by (induction sched arbitrary: p) (use pool_turn_work [of _ _ items f] in fastforce)+

lemma work_left_new: "work_left items (new_pool limit n) = 2 * length items + worker_count limit n"
  by (simp add: work_left_def new_pool_def sum_list_replicate)

lemma parallel_map_outcome:
  "bounded_parallel_map f items limit sched =
     (if items = [] \<or> list_all (\<lambda>w. w = Returned) (pl_workers (pool_run f items sched (new_pool limit (length items))))
      then Some (map f items) else None)"
proof (cases "items = []")
  case False
  let ?p = "pool_run f items sched (new_pool limit (length items))"
  have "pl_workers ?p \<noteq> []"
    using False new_pool_workers [of "length items" limit] length_pool_run
    by (metis length_0_conv length_greater_0_conv)
  with False finished_pool_sent [OF pool_run_ok [OF new_pool_ok], of f items sched limit "length items"] show ?thesis
    by (simp add: bounded_parallel_map_def)
qed (simp add: bounded_parallel_map_def)

text \<open>
  The outputs of \<open>bounded_parallel_map\<close> are those of the operation on the items, in their order,
  however the workers are scheduled; whatever has run, the workers can always finish, and no schedule
  without idle turns is longer than twice the number of items and one turn per worker.
\<close>

theorem parallel_map_is_map:
  fixes f :: "'a \<Rightarrow> 'b"
  shows "bounded_parallel_map f items limit sched \<in> {None, Some (map f items)} \<and>
   (\<exists>more. bounded_parallel_map f items limit (sched @ more) = Some (map f items)) \<and>
   (effective f items (new_pool limit (length items)) sched \<longrightarrow>
      length sched \<le> 2 * length items + worker_count limit (length items))"
proof -
  let ?p = "new_pool limit (length items) :: 'b pool"
  obtain rest where "list_all (\<lambda>w. w = Returned) (pl_workers (pool_run f items rest (pool_run f items sched ?p)))"
    using pool_finishes [of f items "pool_run f items sched ?p"] by blast
  then have "bounded_parallel_map f items limit (sched @ rest) = Some (map f items)"
    by (simp add: parallel_map_outcome pool_run_def)
  moreover have "effective f items ?p sched \<longrightarrow> length sched \<le> 2 * length items + worker_count limit (length items)"
    using effective_schedules_bounded [of f items ?p sched] by (simp add: work_left_new)
  ultimately show ?thesis by (auto simp: parallel_map_outcome [of f items limit sched])
qed

theorem parallel_map_is_map_witness:
  "bounded_parallel_map (\<lambda>x. x + 1) [10, 20, 30 :: nat] 2 [0, 1, 1, 1, 0, 0, 1, 1] = Some [11, 21, 31]
   \<and> length [0, 1, 1, 1, 0, 0, 1, 1 :: nat] \<le> 2 * length [10, 20, 30 :: nat] + worker_count 2 (length [10, 20, 30 :: nat])"
proof -
  let ?f = "\<lambda>x. x + 1" and ?items = "[10, 20, 30] :: nat list" and ?s = "[0, 1, 1, 1, 0, 0, 1, 1] :: nat list"
  have "bounded_parallel_map ?f ?items 2 ?s \<noteq> None" by code_simp
  moreover have "effective ?f ?items (new_pool 2 (length ?items)) ?s" by code_simp
  ultimately show ?thesis using parallel_map_is_map [of ?f ?items 2 ?s] by auto
qed

end
