(* ===== verification/Cli_Wireless.thy ===== *)
theory Cli_Wireless
  imports Cli_Devices Cli_Parallel
begin

text \<open>
  The rows of \<^verbatim>\<open>devices\<close> and the saved wireless addresses of \<^verbatim>\<open>adb_cli/src/compat.rs\<close>: the addresses
  the user connected to, and those that lately failed their reachability check. How an address is
  written and read (\<open>text\<close>, \<open>parse\<close>) is a parameter, as is what a device answers.
\<close>

section \<open>Lines of a file\<close>

lemma split_on_lines:
  "\<forall>l \<in> set ls. 10 \<notin> set l \<Longrightarrow> split_on 10 (concat (map (\<lambda>l. l @ [10]) ls)) = ls @ [[]]"
  by (induction ls) (simp_all add: split_on_append)

lemma drop_last_empty_snoc [simp]: "drop_last_empty (ls @ [[]]) = ls"
  by (induction ls rule: drop_last_empty.induct) simp_all

lemma str_lines_written:
  assumes "\<forall>l \<in> set ls. 10 \<notin> set l \<and> 13 \<notin> set l"
  shows "str_lines (concat (map (\<lambda>l. l @ [10]) ls)) = ls"
proof -
  have "map chomp_cr ls = ls"
    using assms by (induction ls) (auto simp: chomp_cr_def dest: last_in_set)
  with split_on_lines [of ls] assms show ?thesis by (simp add: str_lines_def Let_def)
qed

section \<open>Rows of USB devices\<close>

text \<open>\<open>replace(char::is_whitespace, "_")\<close>.\<close>

function replace_whitespace :: "bytes \<Rightarrow> bytes" where
  "replace_whitespace s =
     (if s = [] then []
      else if leading_space s = 0 then hd s # replace_whitespace (tl s)
      else 95 # replace_whitespace (drop (leading_space s) s))"
  by pat_completeness auto
termination by (relation "measure length") auto

declare replace_whitespace.simps [simp del]

definition contains :: "string \<Rightarrow> bytes \<Rightarrow> bool" where
  "contains p s \<longleftrightarrow> split_once (ascii p) s \<noteq> None"

text \<open>
  The state of a device that did not answer, from the text of the error. Lower case outside ASCII
  cannot produce any of the texts looked for.
\<close>

definition failure_state :: "bytes \<Rightarrow> bytes" where
  "failure_state error =
     (let lower = map ascii_lower error
      in if contains ''unauthorized'' lower \<or> contains ''authorization'' lower then ascii ''unauthorized''
         else if contains ''0xe00002c5'' lower \<or> contains ''0xe00002be'' lower \<or> contains ''exclusive access'' lower
           \<or> contains ''resource busy'' lower then ascii ''usb_busy''
         else ascii ''offline'')"

definition usb_identity :: "usb_device \<Rightarrow> bytes" where
  "usb_identity d =
     (if ud_location d \<noteq> None then usb_selector d
      else case ud_serial d of Some s \<Rightarrow> s | None \<Rightarrow> usb_selector d)"

definition usb_metadata :: "usb_device \<Rightarrow> bytes" where
  "usb_metadata d =
     ascii ''transport_id:'' @ show_nat (unat (usb_transport_id d)) @ ascii '' androconnect_usb:'' @ attachment_text d"

definition detail :: "nat \<Rightarrow> bytes \<Rightarrow> bytes" where
  "detail i details = replace_whitespace (if i < length (str_lines details) then str_lines details ! i else [])"

definition usb_listing :: "usb_device \<Rightarrow> bytes boxed \<Rightarrow> bytes" where
  "usb_listing d details =
     (case details of
        Ok text \<Rightarrow>
          usb_identity d @ [9] @ ascii ''device model:'' @ detail 1 text @ ascii '' androconnect_serial:'' @ detail 0 text
          @ ascii '' '' @ usb_metadata d
      | Err error \<Rightarrow> usb_identity d @ [9] @ failure_state error @ ascii '' '' @ usb_metadata d
      | Panic \<Rightarrow> [])"

text \<open>
  The rows in the order of the devices; a thread that panics gives no row, and a device without a
  running daemon none when only running ones are asked.
\<close>

definition list_usb_transports :: "(usb_device \<Rightarrow> bytes boxed) \<Rightarrow> bool \<Rightarrow> usb_device list boxed \<Rightarrow> bytes list" where
  "list_usb_transports request existing_only found =
     (case found of
        Ok ds \<Rightarrow> List.map_filter (\<lambda>d.
          case request d of
            Panic \<Rightarrow> None
          | Err e \<Rightarrow> if existing_only then None else Some (usb_listing d (Err e))
          | Ok text \<Rightarrow> Some (usb_listing d (Ok text))) ds
      | _ \<Rightarrow> [])"

section \<open>Saved addresses\<close>

text \<open>The file has one address per line; a line that is none is reported and left out.\<close>

definition wireless_endpoints :: "(bytes \<Rightarrow> 'a option) \<Rightarrow> bytes \<Rightarrow> 'a set" where
  "wireless_endpoints parse content =
     set (List.map_filter parse (filter (\<lambda>l. l \<noteq> []) (map trim (str_lines content))))"

text \<open>A set is written in the order of its elements.\<close>

definition endpoints_text :: "('a :: linorder \<Rightarrow> bytes) \<Rightarrow> 'a set \<Rightarrow> bytes" where
  "endpoints_text text as = concat (map (\<lambda>a. text a @ [10]) (sorted_list_of_set as))"

text \<open>What is relied on of the text of an address: it is read back, and has no blanks or control characters.\<close>

definition address_text :: "('a \<Rightarrow> bytes) \<Rightarrow> (bytes \<Rightarrow> 'a option) \<Rightarrow> bool" where
  "address_text text parse \<longleftrightarrow>
     (\<forall>a. parse (text a) = Some a \<and> text a \<noteq> [] \<and> (\<forall>b \<in> set (text a). 33 \<le> b \<and> b \<le> 126))"

lemma printable_not_space:
  fixes b :: u8
  assumes "33 \<le> b" and "b \<le> 126"
  shows "\<forall>w \<in> set white_spaces. b \<noteq> hd w \<and> b \<noteq> last w"
  using assms by (auto simp: white_spaces_def)

lemma printable_trim:
  assumes "\<forall>b \<in> set s. 33 \<le> b \<and> b \<le> 126"
  shows "trim s = s"
proof (cases "s = []")
  case True
  then show ?thesis by (simp add: trim_def trim_start_space.simps trim_end_space.simps)
next
  case False
  have spaces: "\<forall>w \<in> set white_spaces. w \<noteq> []" by (simp add: white_spaces_def)
  have prefix: "starts_with w x \<Longrightarrow> w \<noteq> [] \<Longrightarrow> hd x = hd w" for w x
    by (cases w; cases x) (auto simp: starts_with_def)
  have start: "\<forall>w \<in> set white_spaces. \<not> starts_with w s"
    using prefix [of _ s] spaces printable_not_space [of "hd s"] assms False by (metis list.set_sel(1))
  have "\<forall>w \<in> set white_spaces. \<not> ends_with w s"
    using prefix [of "rev _" "rev s"] spaces printable_not_space [of "last s"] assms False
    unfolding ends_with_def by (metis hd_rev last_in_set rev_is_Nil_conv)
  with start have "List.find (\<lambda>w. starts_with w s) white_spaces = None" "List.find (\<lambda>w. ends_with w s) white_spaces = None"
    unfolding find_None_iff by blast+
  then have "leading_space s = 0" "trailing_space s = 0" by (simp_all add: leading_space_def trailing_space_def)
  then show ?thesis by (simp add: trim_def trim_start_space.simps trim_end_space.simps)
qed


lemma address_text_lines:
  assumes "address_text text parse"
  shows "10 \<notin> set (text a)" "13 \<notin> set (text a)" "9 \<notin> set (text a)" "trim (text a) = text a" "text a \<noteq> []"
    "parse (text a) = Some a"
proof -
  have a: "parse (text a) = Some a" "text a \<noteq> []" "\<forall>b \<in> set (text a). 33 \<le> b \<and> b \<le> 126"
    using assms by (simp_all add: address_text_def)
  then show "trim (text a) = text a" "text a \<noteq> []" "parse (text a) = Some a" by (simp_all add: printable_trim)
  have "\<forall>b \<in> set (text a). 33 \<le> unat b" using a(3) by (auto simp: word_le_nat_alt)
  then show "10 \<notin> set (text a)" "13 \<notin> set (text a)" "9 \<notin> set (text a)" by force+
qed

text \<open>What is published is read back.\<close>

lemma endpoints_roundtrip:
  assumes "address_text text parse" and "finite as"
  shows "wireless_endpoints parse (endpoints_text text as) = as"
proof -
  note a = address_text_lines [OF assms(1)]
  let ?ls = "map text (sorted_list_of_set as)"
  have "str_lines (endpoints_text text as) = ?ls"
    using str_lines_written [of ?ls] a by (simp add: endpoints_text_def comp_def)
  moreover have "map trim ?ls = ?ls" using a by (intro map_idI) auto
  moreover have "filter (\<lambda>l. l \<noteq> []) (map text xs) = map text xs" "List.map_filter parse (map text xs) = xs" for xs
    using a by (induction xs) (simp_all add: map_filter_simps)
  ultimately show ?thesis
    using assms(2) by (simp only: wireless_endpoints_def set_sorted_list_of_set)
qed

section \<open>Unreachable addresses\<close>

text \<open>The file may be missing; times are milliseconds, of 128 bits.\<close>

definition UNREACHABLE_TTL :: nat where
  "UNREACHABLE_TTL = 30000"

definition unreachable_line :: "(bytes \<Rightarrow> 'a option) \<Rightarrow> nat \<Rightarrow> bytes \<Rightarrow> ('a \<times> nat) option" where
  "unreachable_line parse now line =
     Option.bind (split_once [9] line) (\<lambda>(address, stamp).
     Option.bind (parse_uint 10 128 stamp) (\<lambda>stamp.
       if now - stamp < UNREACHABLE_TTL then map_option (\<lambda>a. (a, stamp)) (parse address) else None))"

definition read_unreachable :: "(bytes \<Rightarrow> 'a option) \<Rightarrow> nat \<Rightarrow> bytes option \<Rightarrow> ('a \<times> nat) list" where
  "read_unreachable parse now file =
     (case file of None \<Rightarrow> [] | Some content \<Rightarrow> List.map_filter (unreachable_line parse now) (str_lines content))"

definition unreachable_text :: "('a \<Rightarrow> bytes) \<Rightarrow> ('a \<times> nat) list \<Rightarrow> bytes" where
  "unreachable_text text entries = concat (map (\<lambda>(a, stamp). text a @ [9] @ show_nat stamp @ [10]) entries)"

text \<open>Best effort: a file that cannot be written stays as it is.\<close>

definition write_unreachable :: "('a \<Rightarrow> bytes) \<Rightarrow> bool \<Rightarrow> ('a \<times> nat) list \<Rightarrow> bytes option \<Rightarrow> bytes option" where
  "write_unreachable text writable entries file = (if writable then Some (unreachable_text text entries) else file)"

definition record_unreachable ::
    "('a \<Rightarrow> bytes) \<Rightarrow> (bytes \<Rightarrow> 'a option) \<Rightarrow> bool \<Rightarrow> nat \<Rightarrow> 'a list \<Rightarrow> bytes option \<Rightarrow> bytes option" where
  "record_unreachable text parse writable now addresses file =
     (if addresses = [] then file
      else write_unreachable text writable
        (filter (\<lambda>(a, _). a \<notin> set addresses) (read_unreachable parse now file) @ map (\<lambda>a. (a, now)) addresses) file)"

definition clear_unreachable ::
    "('a \<Rightarrow> bytes) \<Rightarrow> (bytes \<Rightarrow> 'a option) \<Rightarrow> bool \<Rightarrow> nat \<Rightarrow> 'a \<Rightarrow> bytes option \<Rightarrow> bytes option" where
  "clear_unreachable text parse writable now address file =
     (let entries = read_unreachable parse now file
      in if address \<in> fst ` set entries then write_unreachable text writable (filter (\<lambda>(a, _). a \<noteq> address) entries) file
         else file)"

lemma show_nat_bytes: "b \<in> set (show_nat n) \<Longrightarrow> 48 \<le> unat b"
proof (induction "10 :: nat" n rule: show_radix.induct)
  case (1 n)
  then show ?case
    by (cases "n < 10") (auto simp: show_radix.simps [of 10 n] unat_digit_char)
qed

lemma show_nat_line: "10 \<notin> set (show_nat n)" "13 \<notin> set (show_nat n)" "9 \<notin> set (show_nat n)"
  using show_nat_bytes [of 10 n] show_nat_bytes [of 13 n] show_nat_bytes [of 9 n] by auto

lemma read_unreachable_text:
  assumes "address_text text parse" and "\<forall>e \<in> set entries. snd e < 2 ^ 128"
  shows "read_unreachable parse t (Some (unreachable_text text entries))
    = filter (\<lambda>(a, stamp). t - stamp < UNREACHABLE_TTL) entries"
proof -
  note a = address_text_lines [OF assms(1)]
  let ?line = "\<lambda>(a, stamp). text a @ [9] @ show_nat stamp"
  have "unreachable_text text entries = concat (map (\<lambda>l. l @ [10]) (map ?line entries))"
    by (simp add: unreachable_text_def comp_def case_prod_unfold)
  moreover have "\<forall>l \<in> set (map ?line entries). 10 \<notin> set l \<and> 13 \<notin> set l"
    using a show_nat_line by (auto simp: split_beta)
  ultimately have lines: "str_lines (unreachable_text text entries) = map ?line entries"
    using str_lines_written by metis
  have "unreachable_line parse t (?line e) = (if t - snd e < UNREACHABLE_TTL then Some e else None)" if "snd e < 2 ^ 128" for e
    using that split_once_char [OF a(3)] a(6) by (simp add: unreachable_line_def split_beta parse_uint_show)
  with assms(2) have "List.map_filter (unreachable_line parse t) (map ?line entries)
      = filter (\<lambda>(a, stamp). t - stamp < UNREACHABLE_TTL) entries"
    by (induction entries) (simp_all add: map_filter_simps split_beta)
  with lines show ?thesis by (simp add: read_unreachable_def)
qed

lemma unreachable_line_Some:
  "unreachable_line parse now line = Some (a, stamp) \<Longrightarrow> stamp < 2 ^ 128"
  by (auto simp: unreachable_line_def dest!: parse_uint_bound split: bind_splits if_splits prod.splits)

lemma read_unreachable_stamps: "\<forall>e \<in> set (read_unreachable parse now source). snd e < 2 ^ 128"
proof
  fix e
  assume "e \<in> set (read_unreachable parse now source)"
  then obtain line where "unreachable_line parse now line = Some e"
    by (auto simp: read_unreachable_def map_filter_def split: option.splits)
  then show "snd e < 2 ^ 128" using unreachable_line_Some [of parse now line "fst e" "snd e"] by simp
qed

lemma unreachable_line_later:
  assumes "now \<le> t"
  shows "unreachable_line parse t line
    = (case unreachable_line parse now line of Some (a, stamp) \<Rightarrow> if t - stamp < UNREACHABLE_TTL then Some (a, stamp) else None
       | None \<Rightarrow> None)"
  using assms by (auto simp: unreachable_line_def split: option.splits bind_splits)

lemma read_unreachable_later:
  assumes "now \<le> t"
  shows "read_unreachable parse t source = filter (\<lambda>(a, stamp). t - stamp < UNREACHABLE_TTL) (read_unreachable parse now source)"
proof -
  have "List.map_filter (unreachable_line parse t) ls
      = filter (\<lambda>(a, stamp). t - stamp < UNREACHABLE_TTL) (List.map_filter (unreachable_line parse now) ls)" for ls
    by (induction ls) (auto simp: map_filter_simps unreachable_line_later [OF assms] split: option.split)
  then show ?thesis by (simp add: read_unreachable_def split: option.split)
qed

text \<open>
  An address that failed its check is remembered with the time, replacing what was known of it, and
  for less than thirty seconds; an address that is connected to is forgotten at once, and nothing else
  is.
\<close>

theorem unreachable_addresses_expire:
  assumes "address_text text parse" and "now < 2 ^ 128" and "now \<le> t" and "addresses \<noteq> []"
  shows "read_unreachable parse t (record_unreachable text parse True now addresses source)
      = filter (\<lambda>(a, stamp). t - stamp < UNREACHABLE_TTL)
          (filter (\<lambda>(a, _). a \<notin> set addresses) (read_unreachable parse now source) @ map (\<lambda>a. (a, now)) addresses)
    \<and> read_unreachable parse t (clear_unreachable text parse True now address source)
      = filter (\<lambda>(a, _). a \<noteq> address) (read_unreachable parse t source)"
proof
  note stamps = read_unreachable_stamps [of parse now source]
  show "read_unreachable parse t (record_unreachable text parse True now addresses source)
      = filter (\<lambda>(a, stamp). t - stamp < UNREACHABLE_TTL)
          (filter (\<lambda>(a, _). a \<notin> set addresses) (read_unreachable parse now source) @ map (\<lambda>a. (a, now)) addresses)"
    unfolding record_unreachable_def write_unreachable_def if_not_P [OF assms(4)] if_P [OF TrueI]
    using assms(2) stamps by (intro read_unreachable_text [OF assms(1)]) auto
  let ?es = "read_unreachable parse now source"
  let ?kept = "filter (\<lambda>(a, _). a \<noteq> address) ?es"
  show "read_unreachable parse t (clear_unreachable text parse True now address source)
      = filter (\<lambda>(a, _). a \<noteq> address) (read_unreachable parse t source)"
  proof (cases "address \<in> fst ` set ?es")
    case True
    then have "clear_unreachable text parse True now address source = Some (unreachable_text text ?kept)"
      by (simp add: clear_unreachable_def write_unreachable_def Let_def)
    moreover have "read_unreachable parse t (Some (unreachable_text text ?kept))
        = filter (\<lambda>(a, stamp). t - stamp < UNREACHABLE_TTL) ?kept"
      using stamps by (intro read_unreachable_text [OF assms(1)]) auto
    ultimately show ?thesis
      by (simp add: read_unreachable_later [OF assms(3)] conj_commute case_prod_unfold)
  next
    case False
    then have "filter (\<lambda>(a, _). a \<noteq> address) (read_unreachable parse t source) = read_unreachable parse t source"
      unfolding read_unreachable_later [OF assms(3)] filter_filter by (intro filter_cong refl) (auto intro: rev_image_eqI)
    with False show ?thesis by (simp add: clear_unreachable_def Let_def)
  qed
qed

definition port_text :: "u16 \<Rightarrow> bytes" where
  "port_text a = show_nat (unat a)"

definition port_parse :: "bytes \<Rightarrow> u16 option" where
  "port_parse s = map_option word_of_nat (parse_uint 10 16 s)"

lemma port_address_text: "address_text port_text port_parse"
proof -
  have "48 \<le> unat b \<and> unat b \<le> 57" if "b \<in> set (show_nat n)" for b n
    using that
  proof (induction "10 :: nat" n rule: show_radix.induct)
    case (1 n)
    then show ?case by (cases "n < 10") (auto simp: show_radix.simps [of 10 n] unat_digit_char)
  qed
  then have "33 \<le> b \<and> b \<le> 126" if "b \<in> set (show_nat n)" for b n
    using that by (fastforce simp: word_le_nat_alt)
  moreover have "show_nat n \<noteq> []" for n by (simp add: show_radix.simps)
  moreover have "port_parse (port_text a) = Some a" for a
    using unat_less_u16 [of a] by (simp add: port_parse_def port_text_def parse_uint_show)
  ultimately show ?thesis by (simp add: address_text_def port_text_def)
qed

theorem unreachable_addresses_expire_witness:
  "read_unreachable port_parse 29999 (record_unreachable port_text port_parse True 0 [5555, 5556] None) = [(5555, 0), (5556, 0)]
   \<and> read_unreachable port_parse 29999 (clear_unreachable port_text port_parse True 0 5555 None) = []"
  using unreachable_addresses_expire [OF port_address_text, of 0 29999 "[5555, 5556]" None 5555]
  by (simp add: UNREACHABLE_TTL_def read_unreachable_def)

section \<open>Probing\<close>

text \<open>
  The check of one address: \<open>reach\<close> says whether it can be connected to at all, \<open>connect\<close> what
  authenticating with it gives. The third component marks those that are newly unreachable.
\<close>

definition not_reachable :: "('a \<Rightarrow> bytes) \<Rightarrow> 'a \<Rightarrow> bytes boxed" where
  "not_reachable text a = Err (text a @ ascii '' is not reachable'')"

definition probe_address ::
    "('a \<Rightarrow> bytes) \<Rightarrow> 'a list \<Rightarrow> ('a \<Rightarrow> bool) \<Rightarrow> ('a \<Rightarrow> bytes boxed) \<Rightarrow> 'a \<Rightarrow> 'a \<times> bytes boxed \<times> bool" where
  "probe_address text recent reach connect a =
     (if a \<in> set recent then (a, not_reachable text a, False)
      else if \<not> reach a then (a, not_reachable text a, True)
      else (a, connect a, False))"

definition MAX_CONCURRENT_WIRELESS_PROBES :: nat where
  "MAX_CONCURRENT_WIRELESS_PROBES = 3"

text \<open>
  The schedule is that of the probing threads. Connecting clears an entry only of an address that is in
  the file, which no address that is connected to here is.
\<close>

definition probe_wireless ::
    "('a \<Rightarrow> bytes) \<Rightarrow> (bytes \<Rightarrow> 'a option) \<Rightarrow> ('a \<Rightarrow> bool) \<Rightarrow> ('a \<Rightarrow> bytes boxed) \<Rightarrow> bool \<Rightarrow> nat \<Rightarrow> nat list \<Rightarrow> 'a list
      \<Rightarrow> bytes option \<Rightarrow> (('a \<times> bytes boxed) list \<times> bytes option) option" where
  "probe_wireless text parse reach connect writable now sched addresses source =
     (let recent = map fst (read_unreachable parse now source) in
      map_option (\<lambda>results.
        (map (\<lambda>(a, r, _). (a, r)) results,
         record_unreachable text parse writable now (map fst (filter (\<lambda>(_, _, timed_out). timed_out) results)) source))
        (bounded_parallel_map (probe_address text recent reach connect) addresses MAX_CONCURRENT_WIRELESS_PROBES sched))"

text \<open>Every address gets its own result, in the order asked for.\<close>

lemma probe_wireless_results:
  assumes "probe_wireless text parse reach connect writable now sched addresses source = Some (results, source')"
  shows "results = map (\<lambda>a. (a, if a \<in> fst ` set (read_unreachable parse now source) \<or> \<not> reach a then not_reachable text a else connect a)) addresses"
  using assms
  by (auto simp: probe_wireless_def Let_def parallel_map_outcome probe_address_def split: if_splits)

end
