(* ===== verification/Cli_Requests.thy ===== *)
theory Cli_Requests
  imports Cli_Daemon Cli_Wireless
begin

text \<open>
  What \<^verbatim>\<open>adb_cli/src/compat.rs\<close> asks of the daemon of a USB device, the texts it sends, and what the
  daemon then does: exactly what was asked, or nothing.
\<close>

section \<open>What is asked\<close>

datatype direct_request =
  Ask_Shell bytes | Ask_Exec bytes | Ask_Pull bytes
  | Ask_Install install_request | Ask_Uninstall uninstall_request | Ask_Push bytes bytes
  | Ask_Reverse bytes bytes | Ask_Reverse_Remove bytes | Ask_Reverse_List | Ask_Reverse_Remove_All
  | Ask_Forward bytes bytes | Ask_Forward_Remove bytes | Ask_Forward_List | Ask_Forward_Remove_All
  | Ask_Root | Ask_Remount

definition user_text :: "bytes option \<Rightarrow> bytes" where
  "user_text user = (case user of None \<Rightarrow> [] | Some u \<Rightarrow> u)"

definition keep_text :: "bool \<Rightarrow> bytes" where
  "keep_text keep = (if keep then ascii ''-k'' else [])"

fun asked_name :: "direct_request \<Rightarrow> bytes" where
  "asked_name (Ask_Shell _) = ascii ''SHELL''"
| "asked_name (Ask_Exec _) = ascii ''EXEC''"
| "asked_name (Ask_Pull _) = ascii ''PULL''"
| "asked_name (Ask_Install _) = ascii ''INSTALL''"
| "asked_name (Ask_Uninstall _) = ascii ''UNINSTALL''"
| "asked_name (Ask_Push _ _) = ascii ''PUSH''"
| "asked_name (Ask_Reverse _ _) = ascii ''REVERSE''"
| "asked_name (Ask_Reverse_Remove _) = ascii ''REVERSE_REMOVE''"
| "asked_name Ask_Reverse_List = ascii ''REVERSE_LIST''"
| "asked_name Ask_Reverse_Remove_All = ascii ''REVERSE_REMOVE_ALL''"
| "asked_name (Ask_Forward _ _) = ascii ''FORWARD''"
| "asked_name (Ask_Forward_Remove _) = ascii ''FORWARD_REMOVE''"
| "asked_name Ask_Forward_List = ascii ''FORWARD_LIST''"
| "asked_name Ask_Forward_Remove_All = ascii ''FORWARD_REMOVE_ALL''"
| "asked_name Ask_Root = ascii ''ROOT''"
| "asked_name Ask_Remount = ascii ''REMOUNT''"

fun asked_parts :: "direct_request \<Rightarrow> bytes list" where
  "asked_parts (Ask_Shell c) = [c]"
| "asked_parts (Ask_Exec c) = [c]"
| "asked_parts (Ask_Pull p) = [p]"
| "asked_parts (Ask_Install q) = [ir_source q, join [32] (ir_flags q), user_text (ir_user q)]"
| "asked_parts (Ask_Uninstall q) = [keep_text (ur_keep_data q), user_text (ur_user q), ur_package q]"
| "asked_parts (Ask_Push p d) = [p, d]"
| "asked_parts (Ask_Reverse r n) = [r, n]"
| "asked_parts (Ask_Reverse_Remove r) = [r]"
| "asked_parts (Ask_Forward n r) = [n, r]"
| "asked_parts (Ask_Forward_Remove n) = [n]"
| "asked_parts _ = []"

definition request_text :: "direct_request \<Rightarrow> bytes" where
  "request_text q = join [TAB] (asked_name q # asked_parts q)"

text \<open>What the daemon is meant to do.\<close>

fun performed :: "daemon_host \<Rightarrow> direct_request \<Rightarrow> (daemon_server, reply) boxed_io" where
  "performed h (Ask_Shell c) = streamed_shell h c"
| "performed h (Ask_Exec c) = streamed_exec h c"
| "performed h (Ask_Pull p) = streamed_pull h p"
| "performed h (Ask_Install q) = run_install h (ir_source q) (join [32] (ir_flags q)) (user_text (ir_user q))"
| "performed h (Ask_Uninstall q) = run_uninstall h (keep_text (ur_keep_data q)) (user_text (ur_user q)) (ur_package q)"
| "performed h (Ask_Push p d) = plainly (push_file_at h p d)"
| "performed h (Ask_Reverse r n) = plainly (dispatched_reverse_forward (dh_term h) r n)"
| "performed h (Ask_Reverse_Remove r) = plainly (dispatched_remove_reverse (dh_term h) r)"
| "performed h Ask_Reverse_List = listing routes"
| "performed h Ask_Reverse_Remove_All = plainly (remove_all_reverse_routes (dh_term h))"
| "performed h (Ask_Forward n r) = run_forward h n r"
| "performed h (Ask_Forward_Remove n) = run_forward_remove n"
| "performed h Ask_Forward_List = (\<lambda>s. (Ok (Plain (pair_lines (forward_routes (sv_forwards s)))), s))"
| "performed h Ask_Forward_Remove_All =
     (\<lambda>s. (Ok (Plain []), s\<lparr>sv_forwards := snd (remove_all_forwards (sv_forwards s))\<rparr>))"
| "performed h Ask_Root = plainly (dispatched_root (dh_term h))"
| "performed h Ask_Remount = plainly (dispatched_remount (dh_term h))"

text \<open>
  Requests to install and uninstall have passed the checks of the command line; a package has a name.
  Commands and paths to download may contain tabs, every other argument is one field.
\<close>

fun properly_asked :: "direct_request \<Rightarrow> bool" where
  "properly_asked (Ask_Install q) \<longleftrightarrow> (\<exists>args. parse_install_request args = Ok q)"
| "properly_asked (Ask_Uninstall q) \<longleftrightarrow> ur_package q \<noteq> [] \<and> (\<exists>args. parse_uninstall_request args = Ok q)"
| "properly_asked _ = True"

fun free_text :: "direct_request \<Rightarrow> bool" where
  "free_text (Ask_Shell _) = True"
| "free_text (Ask_Exec _) = True"
| "free_text (Ask_Pull _) = True"
| "free_text _ = False"

section \<open>Words\<close>

lemma leading_space_word: "33 \<le> b \<Longrightarrow> b \<le> 126 \<Longrightarrow> leading_space (b # s) = 0"
proof -
  assume b: "33 \<le> b" "b \<le> 126"
  have "\<not> starts_with w (b # s)" if "w \<in> set white_spaces" for w
    using that b by (auto simp: white_spaces_def starts_with_def)
  then have "List.find (\<lambda>w. starts_with w (b # s)) white_spaces = None" by (simp add: find_None_iff)
  then show ?thesis by (simp add: leading_space_def)
qed

lemma leading_space_blank: "leading_space (32 # s) = 1"
  by (simp add: leading_space_def white_spaces_def starts_with_def)

lemma words_word:
  "\<forall>b \<in> set w. 33 \<le> b \<and> b \<le> 126 \<Longrightarrow> words acc (w @ s) = words (acc @ w) s"
proof (induction w arbitrary: acc)
  case (Cons b w)
  then have "words acc (b # w @ s) = words (acc @ [b]) (w @ s)"
    by (subst words.simps) (simp add: leading_space_word)
  with Cons show ?case by simp
qed simp

lemma words_join:
  "\<forall>w \<in> set ws. w \<noteq> [] \<and> (\<forall>b \<in> set w. 33 \<le> b \<and> b \<le> 126) \<Longrightarrow> words [] (join [32] ws) = ws"
proof (induction "[32 :: u8]" ws rule: join.induct)
  case 1
  show ?case by (simp add: words.simps)
next
  case (2 p)
  then show ?case using words_word [of p "[]" "[]"] by (simp add: words.simps)
next
  case (3 p q ps)
  then have "words [] (join [32] (p # q # ps)) = words p (32 # join [32] (q # ps))"
    using words_word [of p "[]" "[32] @ join [32] (q # ps)"] by simp
  also have "\<dots> = p # words [] (join [32] (q # ps))"
    using 3 by (subst words.simps) (simp add: leading_space_blank)
  finally show ?case using 3 by simp
qed

lemma flags_allowed_join:
  assumes "\<forall>f \<in> set flags. install_flag f"
  shows "flags_allowed (join [32] flags)"
proof -
  have "install_flag w \<Longrightarrow> w \<noteq> [] \<and> (\<forall>b \<in> set w. 33 \<le> b \<and> b \<le> 126)" for w
    by (auto simp: install_flag_def)
  with assms have "\<forall>w \<in> set flags. w \<noteq> [] \<and> (\<forall>b \<in> set w. 33 \<le> b \<and> b \<le> 126)" by blast
  with assms words_join show ?thesis by (simp add: flags_allowed_def list_all_iff)
qed

section \<open>What the daemon does\<close>

lemma TAB_join: "TAB \<notin> set (join [32] flags) \<longleftrightarrow> (\<forall>f \<in> set flags. TAB \<notin> set f)"
  by (induction "[32 :: u8]" flags rule: join.induct) (auto simp: TAB_def)

lemma valid_user_text: "valid_user user \<Longrightarrow> list_all is_digit (user_text user)"
  by (cases user) (simp_all add: valid_user_def user_text_def)

lemma digits_no_tab: "list_all is_digit s \<Longrightarrow> TAB \<notin> set s"
  by (auto simp: list_all_iff is_digit_def TAB_def)

lemma package_no_tab: "list_all package_char s \<Longrightarrow> TAB \<notin> set s"
  by (auto simp: list_all_iff package_char_def is_alphanumeric_def is_digit_def TAB_def)

lemma asked_name_no_tab: "TAB \<notin> set (asked_name q)"
  by (cases q) (simp_all add: TAB_def)

lemma install_parts_no_tab:
  assumes "parse_install_request args = Ok q"
  shows "\<forall>p \<in> set (asked_parts (Ask_Install q)). TAB \<notin> set p"
proof -
  have "\<forall>f \<in> set (ir_flags q). TAB \<notin> set f"
    using parse_install_request_safe(1) [OF assms] by (auto simp: install_flag_def TAB_def)
  then show ?thesis
    using parse_install_request_safe(2,3) [OF assms] TAB_join digits_no_tab [OF valid_user_text]
    by (auto simp: contains_any_def TAB_def)
qed

lemma uninstall_parts_no_tab:
  assumes "parse_uninstall_request args = Ok q"
  shows "\<forall>p \<in> set (asked_parts (Ask_Uninstall q)). TAB \<notin> set p"
  using parse_uninstall_request_safe [OF assms] digits_no_tab [OF valid_user_text] package_no_tab
  by (auto simp: keep_text_def TAB_def)

text \<open>The request is split into the name and the arguments that were sent, when none of them has a tab.\<close>

lemma split_request:
  "\<forall>p \<in> set (asked_parts q). TAB \<notin> set p \<Longrightarrow> split_on TAB (request_text q) = asked_name q # asked_parts q"
  unfolding request_text_def using asked_name_no_tab by (intro split_on_join) auto

lemma split_request_name: "hd (split_on TAB (request_text q)) = asked_name q"
proof (cases "asked_parts q")
  case Nil
  then show ?thesis using split_on_clean [OF asked_name_no_tab] by (simp add: request_text_def)
next
  case (Cons p ps)
  then show ?thesis
    using split_on_append [OF asked_name_no_tab] by (simp add: request_text_def)
qed

lemma request_after_tab:
  assumes "asked_parts q = [p]"
  shows "after_tab msg (request_text q) = Ok p"
proof -
  have "split_once [TAB] (request_text q) = Some (asked_name q, p)"
    using assms split_once_char [OF asked_name_no_tab] by (simp add: request_text_def)
  then show ?thesis by (simp add: after_tab_def)
qed

lemma handle_free_text:
  assumes "free_text q"
  shows "handle_request h src (request_text q) = performed h q"
proof -
  obtain p where "asked_parts q = [p]" using assms by (cases q) simp_all
  then show ?thesis
    using assms request_after_tab [of q p] split_request_name [of q]
    by (cases q) (simp_all add: handle_request_def Let_def fun_eq_iff)
qed

lemma handle_fields:
  assumes "\<forall>p \<in> set (asked_parts q). TAB \<notin> set p" and "\<not> free_text q"
    and "\<And>i. q = Ask_Install i \<Longrightarrow> flags_allowed (join [32] (ir_flags i)) \<and> list_all is_digit (user_text (ir_user i))"
    and "\<And>u. q = Ask_Uninstall u \<Longrightarrow>
      ur_package u \<noteq> [] \<and> list_all package_char (ur_package u) \<and> list_all is_digit (user_text (ur_user u))"
  shows "handle_request h src (request_text q) s = performed h q s"
  using split_request [OF assms(1)] assms(2-)
  by (cases q) (simp_all add: handle_request_def field_or_def reject_extra_fields_def optional_field_def keep_text_def
      handle_install_def handle_uninstall_def handle_push_def handle_reverse_def handle_reverse_remove_def
      handle_forward_def handle_forward_remove_def)


lemma length_split_on: "length (split_on c s) = Suc (count_list s c)"
proof (induction s)
  case (Cons x s)
  then show ?case using split_on_nonempty [of c s] by (cases "split_on c s") auto
qed simp

lemma count_join:
  "ps \<noteq> [] \<Longrightarrow> Suc (count_list (join [c] ps) c) = length ps + sum_list (map (\<lambda>p. count_list p c) ps)"
  by (induction "[c]" ps rule: join.induct) auto

lemma extra_parts:
  assumes "p \<in> set (asked_parts q)" and "TAB \<in> set p"
  shows "length (asked_parts q) < length (tl (split_on TAB (request_text q)))"
proof -
  let ?ps = "asked_name q # asked_parts q"
  have "1 \<le> count_list p TAB" using assms(2) count_list_0_iff [of p TAB] by (cases "count_list p TAB") auto
  also have "\<dots> \<le> sum_list (map (\<lambda>p. count_list p TAB) ?ps)"
    using assms(1) by (intro member_le_sum_list) auto
  finally have "1 \<le> sum_list (map (\<lambda>p. count_list p TAB) ?ps)" .
  moreover have "length (tl (split_on TAB (request_text q))) = count_list (join [TAB] ?ps) TAB"
    by (simp add: request_text_def length_split_on)
  moreover have "Suc (count_list (join [TAB] ?ps) TAB) = Suc (length (asked_parts q)) + sum_list (map (\<lambda>p. count_list p TAB) ?ps)"
    using count_join [of ?ps TAB] by simp
  ultimately show ?thesis by linarith
qed




section \<open>Packages\<close>


section \<open>Where the two sides disagree\<close>

text \<open>
  The request of \<^verbatim>\<open>adb tcpip\<close> is written with a backslash and the letter t where the tab belongs, so the daemon
  does not know it: the device is never asked.
\<close>

definition tcpip_request :: "u16 \<Rightarrow> bytes" where
  "tcpip_request port = ascii ''TCPIP'' @ [92] @ ascii ''t'' @ show_nat (unat port)"

lemma tcpip_over_usb_fails:
  "handle_request h src (tcpip_request port) s = (Err (ascii ''unsupported daemon request: '' @ tcpip_request port), s)"
proof -
  have "TAB \<notin> set (tcpip_request port)"
    using show_nat_line(3) [of "unat port"] by (simp add: tcpip_request_def TAB_def)
  then have "split_on TAB (tcpip_request port) = [tcpip_request port]" by (rule split_on_clean)
  then show ?thesis by (simp add: handle_request_def Let_def) (simp add: tcpip_request_def)
qed

text \<open>An upload never gets stuck, so \<open>push_from\<close> is what the device does.\<close>

lemma push_from_file_source: "\<exists>r src' d'. dispatched_push t read_source src dest d = Some (r, src', d')"
  by (rule file_source.dispatched_push_ends)

lemma push_from_framed_source: "\<exists>r f' d'. dispatched_push t framed_read f dest d = Some (r, f', d')"
  by (rule framed_source.dispatched_push_ends)

end
