(* ===== verification/Cli_Control.thy ===== *)
theory Cli_Control
  imports Cli_Requests
begin

text \<open>
  The control plane around the requests, of \<^verbatim>\<open>adb_cli/src/direct_daemon.rs\<close>,
  \<^verbatim>\<open>adb_cli/src/wireless_forward_daemon.rs\<close> and \<^verbatim>\<open>adb_cli/src/local_socket.rs\<close>: where the socket of a
  daemon is, how a request and its answer travel, how a daemon is started, the loop that accepts
  connections, and the deadline of a local connection.
\<close>

section \<open>The socket\<close>

record daemon_context =
  dc_key :: bytes
  dc_vendor :: u16
  dc_product :: u16
  dc_location :: u64
  dc_registry :: u64

definition usb_context :: "bytes \<Rightarrow> usb_device \<Rightarrow> daemon_context" where
  "usb_context key d = \<lparr>dc_key = key, dc_vendor = ud_vendor d, dc_product = ud_product d,
     dc_location = or_zero (ud_location d), dc_registry = or_zero (ud_registry d)\<rparr>"

definition daemon_identity :: "daemon_context \<Rightarrow> bytes" where
  "daemon_identity c = dc_key c @ [0] @ hex4 (dc_vendor c) @ [58] @ hex4 (dc_product c) @ [58]
     @ hex16 (dc_location c) @ [58] @ hex16 (dc_registry c)"

definition socket_name :: "daemon_context \<Rightarrow> bytes" where
  "socket_name c = ascii ''mab4-'' @ hex16 (fnv (daemon_identity c)) @ ascii ''.sock''"

definition wireless_socket_name :: "bytes \<Rightarrow> bytes \<Rightarrow> bytes" where
  "wireless_socket_name key address = ascii ''mabw-'' @ hex16 (fnv (key @ [0] @ address)) @ ascii ''.sock''"

lemma length_hex16: "length (hex16 v) = 16"
proof -
  have "length (show_radix 16 (unat v)) \<le> Suc 15"
    using unat_less_u64 [of v] by (intro length_show_radix_hex) simp
  then show ?thesis by (simp add: hex16_def show_hex_def)
qed

text \<open>The name does not grow with the path of the key, so the socket fits where the directory does.\<close>

lemma socket_names_short: "length (socket_name c) = 26" "length (wireless_socket_name key address) = 26"
  by (simp_all add: socket_name_def wireless_socket_name_def length_hex16)

text \<open>The identity that is hashed tells every two attachments apart.\<close>

lemma append_eq_suffix: "length b = length d \<Longrightarrow> a @ b = c @ d \<longleftrightarrow> a = c \<and> b = d"
  by simp

lemma hex4_inject: "hex4 v = hex4 w \<longleftrightarrow> v = w"
  using hex_word_hex4 [of v] hex_word_hex4 [of w] by (metis option.inject)

lemma hex16_inject: "hex16 v = hex16 w \<longleftrightarrow> v = w"
  using hex_word_hex16 [of v] hex_word_hex16 [of w] by (metis option.inject)

lemma length_hex4: "length (hex4 v) = 4"
proof -
  have "length (show_radix 16 (unat v)) \<le> Suc 3"
    using unat_less_u16 [of v] by (intro length_show_radix_hex) simp
  then show ?thesis by (simp add: hex4_def show_hex_def)
qed

lemma daemon_identity_inject: "daemon_identity c = daemon_identity d \<longleftrightarrow> c = d"
  by (cases c; cases d) (auto simp: daemon_identity_def append_eq_suffix length_hex4 length_hex16 hex4_inject hex16_inject)

section \<open>A request and its answer\<close>

text \<open>What the thread that serves a connection writes; an operation's output as one write.\<close>

fun reply_bytes :: "reply boxed \<Rightarrow> bytes" where
  "reply_bytes (Ok (Plain out)) = ascii ''OK'' @ [10] @ out"
| "reply_bytes (Ok (Streaming out r)) = stream_bytes [out] r"
| "reply_bytes (Ok (Receiving r)) = ascii ''OK'' @ [10] @ verdict_line r"
| "reply_bytes (Err e) = ascii ''ERR'' @ [TAB] @ e @ [10]"
| "reply_bytes Panic = []"

definition send_request :: "bytes \<Rightarrow> (sink, unit) boxed_io" where
  "send_request text k =
     (if length text < 2 ^ 32 then
        boxed_io (seq_io (write_all (to_be32 (word_of_nat (length text)))) (write_all text)) k
      else (Err (error_text IntegerConversionError), k))"

definition answer_of :: "bytes \<Rightarrow> bytes boxed" where
  "answer_of response =
     (case strip_prefix (ascii ''OK'' @ [10]) response of
        Some out \<Rightarrow> Ok out
      | None \<Rightarrow> Err (case strip_prefix (ascii ''ERR'' @ [TAB]) response of
            Some message \<Rightarrow> ascii ''direct USB daemon: '' @ message
          | None \<Rightarrow> ascii ''invalid daemon response: '' @ response))"

text \<open>\<open>connected\<close> is what connecting yields; afterwards \<open>k\<close> is written and \<open>src\<close> is read.\<close>

definition request_existing :: "unit result \<Rightarrow> bytes \<Rightarrow> sink \<Rightarrow> source \<Rightarrow> (bytes boxed \<times> sink) option" where
  "request_existing connected text k src =
     (case bind_boxed (boxed_value (boxed connected)) (\<lambda>_. send_request text) k of
        (Ok _, k') \<Rightarrow> map_option (\<lambda>(r, _). (bind_outcome (as_text r) answer_of, k')) (read_to_end read_source [] src)
      | (Err e, k') \<Rightarrow> Some (Err e, k')
      | (Panic, k') \<Rightarrow> Some (Panic, k'))"

text \<open>The same towards the daemon of the forwards of a wireless device, whose errors are passed on as they are.\<close>

definition wireless_answer_of :: "bytes \<Rightarrow> bytes boxed" where
  "wireless_answer_of response =
     (case strip_prefix (ascii ''OK'' @ [10]) response of Some out \<Rightarrow> Ok out | None \<Rightarrow> Err (trim response))"

lemma send_request_accepting:
  "sk_script k = [] \<Longrightarrow> length text < 2 ^ 32 \<Longrightarrow>
     send_request text k = (Ok (), k\<lparr>sk_out := sk_out k @ to_be32 (word_of_nat (length text)) @ text\<rparr>)"
  by (simp add: send_request_def boxed_io_def boxed_def seq_io_def bind_io_def)

lemma answer_of_Plain: "answer_of (reply_bytes (Ok (Plain out))) = Ok out"
  by (simp add: answer_of_def strip_prefix_def starts_with_def)

lemma answer_of_Err: "answer_of (reply_bytes (Err e)) = Err (ascii ''direct USB daemon: '' @ e @ [10])"
  by (simp add: answer_of_def strip_prefix_def starts_with_def TAB_def)

lemma read_request_content:
  assumes "flowing src" and "source_bytes src = to_be32 (word_of_nat (length text)) @ text @ rest"
    and "length text \<le> REQUEST_LIMIT" and "utf8_valid text"
  shows "\<exists>src'. read_request src = (Ok text, src') \<and> source_bytes src' = rest \<and> flowing src'"
proof -
  have n: "be_nat (to_be32 (word_of_nat (length text))) = length text"
    using assms(3) by (simp add: REQUEST_LIMIT_def unat_of_nat)
  from read_full_content [OF assms(1,2)] obtain src1
    where s1: "read_full 4 src = (Ok (to_be32 (word_of_nat (length text))), src1)" "source_bytes src1 = text @ rest" "flowing src1"
    by auto
  from read_full_content [OF s1(3,2)] obtain src2
    where "read_full (length text) src1 = (Ok text, src2)" "source_bytes src2 = rest" "flowing src2" by auto
  with s1(1) n assms(3,4) show ?thesis by (simp add: read_request_def bind_boxed_def boxed_def)
qed

text \<open>
  A request reaches the daemon as it was sent and its answer comes back: whatever pieces the
  connection delivers, the daemon handles exactly the text that was asked, and the client is given
  the plain output of the operation, or the daemon's error.
\<close>

theorem control_request_roundtrip:
  assumes "length text \<le> REQUEST_LIMIT" and "utf8_valid text"
    and "sk_script k = []" and "sk_out k = []"
    and "flowing src" and "source_bytes src = sk_out (snd (send_request text k))"
    and "flowing returned" and "source_bytes returned = reply_bytes (fst (handle h src s))" and "utf8_valid (source_bytes returned)"
  shows "\<exists>src'. handle h src s = handle_request h src' text s
    \<and> (\<forall>out. fst (handle h src s) = Ok (Plain out) \<longrightarrow>
         (\<exists>k'. request_existing (Ok ()) text k returned = Some (Ok out, k')))
    \<and> (\<forall>e. fst (handle h src s) = Err e \<longrightarrow>
         (\<exists>k'. request_existing (Ok ()) text k returned = Some (Err (ascii ''direct USB daemon: '' @ e @ [10]), k')))"
proof -
  have len: "length text < 2 ^ 32" using assms(1) by (simp add: REQUEST_LIMIT_def)
  let ?k = "k\<lparr>sk_out := sk_out k @ to_be32 (word_of_nat (length text)) @ text\<rparr>"
  have sent: "send_request text k = (Ok (), ?k)" by (rule send_request_accepting [OF assms(3) len])
  then have "source_bytes src = to_be32 (word_of_nat (length text)) @ text @ []" using assms(4,6) by simp
  from read_request_content [OF assms(5) this assms(1,2)] obtain src'
    where "read_request src = (Ok text, src')" by blast
  then have "handle h src s = handle_request h src' text s" by (simp add: handle_def)
  moreover from socket.read_to_end_content [OF assms(7), of "[]"] obtain returned'
    where "read_to_end read_source [] returned = Some (Ok (source_bytes returned), returned')" by auto
  then have "request_existing (Ok ()) text k returned = Some (answer_of (source_bytes returned), ?k)"
    using sent assms(9) by (simp add: request_existing_def boxed_def as_text_def)
  ultimately show ?thesis
    using assms(8) answer_of_Plain answer_of_Err by (metis fst_conv)
qed

theorem control_request_roundtrip_witness:
  "\<forall>h s :: daemon_server. let src = [Chunk (to_be32 4 @ ascii ''PING'')]; returned = [Chunk (ascii ''OK'' @ [10])]
     in fst (handle h src s) = Ok (Plain []) \<and> (\<exists>k'. request_existing (Ok ()) (ascii ''PING'') no_output returned = Some (Ok [], k'))"
proof (intro allI)
  fix h and s :: daemon_server
  let ?src = "[Chunk (to_be32 4 @ ascii ''PING'')]" and ?returned = "[Chunk (ascii ''OK'' @ [10])]"
  have valid: "utf8_valid (ascii ''PING'')" "utf8_valid (source_bytes ?returned)"
    by (simp_all add: utf8_step_def utf8_width_def)
  have len: "length (ascii ''PING'') \<le> REQUEST_LIMIT" by (simp add: REQUEST_LIMIT_def)
  have wire: "to_be32 (word_of_nat (length (ascii ''PING''))) = to_be32 4" by simp
  have flow: "flowing ?src" "flowing ?returned" by (simp_all add: flowing_def)
  have out: "sk_script no_output = []" "sk_out no_output = []" by (simp_all add: no_output_def)
  have sent: "source_bytes ?src = sk_out (snd (send_request (ascii ''PING'') no_output))"
    using send_request_accepting [OF out(1), of "ascii ''PING''"] out(2) wire by simp
  have ping: "handle_request h src' (ascii ''PING'') s = (Ok (Plain []), s)" for src'
    by (simp add: handle_request_def TAB_def)
  obtain src' where src': "read_request ?src = (Ok (ascii ''PING''), src')"
    using read_request_content [OF flow(1) _ len valid(1), of "[]"] wire by auto
  then have "fst (handle h ?src s) = Ok (Plain [])" using ping by (simp add: handle_def)
  then show "let src = ?src; returned = ?returned in fst (handle h src s) = Ok (Plain [])
      \<and> (\<exists>k'. request_existing (Ok ()) (ascii ''PING'') no_output returned = Some (Ok [], k'))"
    using control_request_roundtrip [OF len valid(1) out flow(1) sent flow(2), of h s] valid(2)
    by (simp add: Let_def del: ascii_Cons)
qed

text \<open>
  A request whose answer is streamed must not be sent this way: the frames and the verdict after them
  are taken for its output, and a failure for a success. \<^verbatim>\<open>adb reboot\<close> over USB does exactly that.
\<close>

lemma streamed_answer_hides_failure:
  "answer_of (stream_bytes ws r) = Ok (concat (map frame (concat (map frames ws))) @ to_be32 0 @ verdict_line r)"
  by (simp add: answer_of_def stream_bytes_def strip_prefix_def starts_with_def)

section \<open>A probe of its health\<close>

text \<open>
  \<open>daemon_is_healthy\<close> sends an empty request and is content with any four bytes. The daemon answers
  with an error, and nothing is done.
\<close>

lemma probe_is_answered:
  assumes "flowing src" and "source_bytes src = to_be32 0"
  shows "handle h src s = (Err (ascii ''unsupported daemon request: ''), s)"
    and "4 \<le> length (reply_bytes (fst (handle h src s)))"
proof -
  have "source_bytes src = to_be32 (word_of_nat (length ([] :: bytes))) @ [] @ []" using assms(2) by simp
  from read_request_content [OF assms(1) this] obtain src' where "read_request src = (Ok [], src')" by (auto simp: REQUEST_LIMIT_def)
  then show "handle h src s = (Err (ascii ''unsupported daemon request: ''), s)"
    by (simp add: handle_def handle_request_def)
  then show "4 \<le> length (reply_bytes (fst (handle h src s)))" by simp
qed

text \<open>
  Starting a daemon, under a lock: \<open>probes\<close> is what the probes find, one after the other, \<open>exited\<close> whether the
  daemon has ended by then. A healthy daemon is left alone; otherwise a new one is spawned and
  probed 80 times at most.
\<close>

datatype readiness = Already_Running | Became_Ready nat | Exited nat | Never_Ready

definition PROBES :: nat where
  "PROBES = 80"

fun await_ready :: "nat \<Rightarrow> nat \<Rightarrow> (nat \<Rightarrow> bool) \<Rightarrow> (nat \<Rightarrow> bool) \<Rightarrow> readiness" where
  "await_ready 0 i probes exited = Never_Ready"
| "await_ready (Suc n) i probes exited =
     (if probes i then Became_Ready i
      else if exited i then Exited i
      else await_ready n (Suc i) probes exited)"

definition ensure_running :: "(nat \<Rightarrow> bool) \<Rightarrow> (nat \<Rightarrow> bool) \<Rightarrow> readiness" where
  "ensure_running probes exited =
     (if probes 0 then Already_Running else await_ready PROBES 1 probes exited)"

definition ready_result :: "bytes \<Rightarrow> readiness \<Rightarrow> unit boxed" where
  "ready_result log r =
     (case r of
        Already_Running \<Rightarrow> Ok ()
      | Became_Ready _ \<Rightarrow> Ok ()
      | _ \<Rightarrow> Err (ascii ''direct USB daemon did not become ready: ''
            @ (if trim log = [] then ascii ''still opening the USB interface (no error reported yet)'' else trim log)))"

lemma await_ready_new: "await_ready n i probes exited \<noteq> Already_Running"
  by (induction n i probes exited rule: await_ready.induct) auto

lemma await_ready_ready:
  "await_ready n i probes exited = Became_Ready j \<Longrightarrow> probes j \<and> i \<le> j \<and> j < i + n"
  by (induction n i probes exited rule: await_ready.induct) (fastforce split: if_splits)+

lemma await_ready_finds:
  assumes "probes j" and "i \<le> j" and "j < i + n" and "\<forall>k \<in> {i..<j}. \<not> exited k"
  shows "\<exists>j' \<le> j. await_ready n i probes exited = Became_Ready j'"
  using assms
proof (induction n i probes exited rule: await_ready.induct)
  case (2 n i probes exited)
  show ?case
  proof (cases "probes i")
    case True
    with "2.prems"(2) show ?thesis by auto
  next
    case False
    with "2.prems"(1,2) have "Suc i \<le> j" by (cases "i = j") auto
    with "2.prems" False "2.IH" show ?thesis by auto
  qed
qed simp

text \<open>A daemon counts as running only when a probe has just been answered.\<close>

lemma ensure_running_sound:
  "ready_result log (ensure_running probes exited) = Ok () \<Longrightarrow> \<exists>j \<le> PROBES. probes j"
  using await_ready_new [of PROBES 1 probes exited] await_ready_ready [of PROBES 1 probes exited]
  by (fastforce simp: ensure_running_def ready_result_def less_Suc_eq_le split: readiness.splits if_splits)

lemma ensure_running_complete:
  assumes "probes j" and "j \<le> PROBES" and "\<forall>k < j. \<not> exited k"
  shows "ready_result log (ensure_running probes exited) = Ok ()"
proof (cases "probes 0")
  case False
  with assms(1) have "1 \<le> j" by (cases j) auto
  with await_ready_finds [of probes j 1 PROBES exited] assms show ?thesis
    by (auto simp: ensure_running_def ready_result_def)
qed (simp add: ensure_running_def ready_result_def)

section \<open>The loop that accepts connections\<close>

text \<open>
  \<open>cl_threads\<close> are the connections being served, each by a thread that holds the device; \<open>cl_holders\<close> counts
  the listeners of forwards, which hold it too; \<open>cl_active\<close> is the counter of requests.
\<close>

record control_loop =
  cl_running :: bool
  cl_threads :: "nat set"
  cl_holders :: nat
  cl_active :: nat
  cl_shutdown :: bool
  cl_alive :: bool
  cl_refused :: "nat set"

definition MAX_CONCURRENT_REQUESTS :: nat where
  "MAX_CONCURRENT_REQUESTS = 12"

definition daemon_should_continue :: "bool \<Rightarrow> bool \<Rightarrow> bool" where
  "daemon_should_continue alive shutdown \<longleftrightarrow> alive \<and> \<not> shutdown"

text \<open>What \<open>accept\<close> yields: a connection, nothing (and whether the last request is a minute old), or a failure.\<close>

datatype accept_event = Accepted nat | Nobody bool | Accept_Error

definition reserve :: "nat \<Rightarrow> control_loop \<Rightarrow> control_loop" where
  "reserve c st =
     (if cl_active st < MAX_CONCURRENT_REQUESTS then
        st\<lparr>cl_active := cl_active st + 1, cl_threads := insert c (cl_threads st)\<rparr>
      else st\<lparr>cl_refused := insert c (cl_refused st)\<rparr>)"

definition idle_exit :: "bool \<Rightarrow> control_loop \<Rightarrow> bool" where
  "idle_exit minute st \<longleftrightarrow> cl_threads st = {} \<and> cl_holders st = 0 \<and> minute"

definition accept_loop_turn :: "(control_loop \<Rightarrow> bool) \<Rightarrow> accept_event \<Rightarrow> control_loop \<Rightarrow> control_loop" where
  "accept_loop_turn continue ev st =
     (if \<not> cl_running st then st
      else if \<not> continue st then st\<lparr>cl_running := False\<rparr>
      else case ev of
          Accepted c \<Rightarrow> reserve c st
        | Nobody minute \<Rightarrow> if idle_exit minute st then st\<lparr>cl_running := False\<rparr> else st
        | Accept_Error \<Rightarrow> st\<lparr>cl_running := False\<rparr>)"

definition daemon_turn :: "accept_event \<Rightarrow> control_loop \<Rightarrow> control_loop" where
  "daemon_turn = accept_loop_turn (\<lambda>st. daemon_should_continue (cl_alive st) (cl_shutdown st))"

definition wireless_turn :: "accept_event \<Rightarrow> control_loop \<Rightarrow> control_loop" where
  "wireless_turn = accept_loop_turn cl_alive"

text \<open>The guard of a request gives its place back when the thread ends.\<close>

definition request_ends :: "nat \<Rightarrow> control_loop \<Rightarrow> control_loop" where
  "request_ends c st = st\<lparr>cl_threads := cl_threads st - {c}, cl_active := cl_active st - 1\<rparr>"

inductive control_step :: "(accept_event \<Rightarrow> control_loop \<Rightarrow> control_loop) \<Rightarrow> control_loop \<Rightarrow> control_loop \<Rightarrow> bool"
  for turn :: "accept_event \<Rightarrow> control_loop \<Rightarrow> control_loop" where
  turn: "(\<And>c. ev = Accepted c \<Longrightarrow> c \<notin> cl_threads st) \<Longrightarrow> control_step turn st (turn ev st)"
| ends: "c \<in> cl_threads st \<Longrightarrow> control_step turn st (request_ends c st)"
| shutdown: "cl_threads st \<noteq> {} \<Longrightarrow> control_step turn st (st\<lparr>cl_shutdown := True\<rparr>)"
| listens: "cl_threads st \<noteq> {} \<Longrightarrow> control_step turn st (st\<lparr>cl_holders := cl_holders st + 1\<rparr>)"
| listened: "0 < cl_holders st \<Longrightarrow> control_step turn st (st\<lparr>cl_holders := cl_holders st - 1\<rparr>)"
| dies: "control_step turn st (st\<lparr>cl_alive := False\<rparr>)"

inductive_cases control_stepE: "control_step turn st st'"

definition control_start :: control_loop where
  "control_start = \<lparr>cl_running = True, cl_threads = {}, cl_holders = 0, cl_active = 0, cl_shutdown = False,
     cl_alive = True, cl_refused = {}\<rparr>"

definition control_wf :: "control_loop \<Rightarrow> bool" where
  "control_wf st \<longleftrightarrow> finite (cl_threads st) \<and> cl_active st = card (cl_threads st) \<and> cl_active st \<le> MAX_CONCURRENT_REQUESTS"

lemma control_wf_start: "control_wf control_start"
  by (simp add: control_wf_def control_start_def)

lemma reserve_wf: "control_wf st \<Longrightarrow> c \<notin> cl_threads st \<Longrightarrow> control_wf (reserve c st)"
  by (simp add: control_wf_def reserve_def)

lemma accept_loop_turn_wf:
  "control_wf st \<Longrightarrow> (\<And>c. ev = Accepted c \<Longrightarrow> c \<notin> cl_threads st) \<Longrightarrow> control_wf (accept_loop_turn continue ev st)"
  by (cases ev) (simp_all add: accept_loop_turn_def reserve_wf, simp_all add: control_wf_def)

lemma control_step_wf:
  assumes "control_step (accept_loop_turn continue) st st'" and "control_wf st"
  shows "control_wf st'"
  using assms
proof (cases rule: control_step.cases)
  case (turn ev)
  with assms(2) show ?thesis by (simp add: accept_loop_turn_wf)
next
  case (ends c)
  then have "card (cl_threads st - {c}) = card (cl_threads st) - 1" by simp
  with ends assms(2) show ?thesis by (auto simp: control_wf_def request_ends_def)
qed (use assms(2) in \<open>simp_all add: control_wf_def\<close>)

lemma control_reachable_wf: "(control_step (accept_loop_turn continue))\<^sup>*\<^sup>* control_start st \<Longrightarrow> control_wf st"
  by (induction rule: rtranclp_induct) (auto intro: control_wf_start control_step_wf)



text \<open>
  Reverse rules do not hold the device: a minute after the last request the daemon ends, and with it the
  rules, though their owner still counts on them.
\<close>

lemma idle_exit_ignores_reverse_rules:
  "\<not> cl_running (daemon_turn (Nobody True) control_start)"
  by (simp add: daemon_turn_def accept_loop_turn_def control_start_def daemon_should_continue_def idle_exit_def)

end
