(* ===== verification/Cli_Wireless_Daemon.thy ===== *)
theory Cli_Wireless_Daemon
  imports Cli_Control
begin

text \<open>
  The daemon that keeps the forwards of a wireless device (\<^verbatim>\<open>adb_cli/src/wireless_forward_daemon.rs\<close>), and
  the deadline of the local connections to both daemons (\<^verbatim>\<open>adb_cli/src/local_socket.rs\<close>).
\<close>

section \<open>Requests\<close>

definition WIRELESS_LIMIT :: nat where
  "WIRELESS_LIMIT = 64 * 1024"

definition wireless_forward :: "daemon_host \<Rightarrow> bytes list \<Rightarrow> (forwards, bytes) boxed_io" where
  "wireless_forward h parts =
     bind_boxed (boxed_value (field_or ''missing local endpoint'' 0 parts)) (\<lambda>near.
     bind_boxed (boxed_value (field_or ''missing remote endpoint'' 1 parts)) (\<lambda>remote w.
       if 2 < length parts then (failure ''invalid forward request'', w)
       else case begin_forward (dh_bind h near) near remote w of
           (r, w') \<Rightarrow> (if dh_ready h then bind_outcome (boxed r) (\<lambda>_. Ok []) else failure ''timed out waiting on channel'', w')))"

definition wireless_remove :: "bytes list \<Rightarrow> (forwards, bytes) boxed_io" where
  "wireless_remove parts =
     bind_boxed (boxed_value (field_or ''missing local endpoint'' 0 parts)) (\<lambda>near w.
       case remove_forward near w of (found, w') \<Rightarrow> (if found then Ok [] else failure ''forward rule not found'', w'))"

definition wireless_request :: "daemon_host \<Rightarrow> bytes \<Rightarrow> (forwards, bytes) boxed_io" where
  "wireless_request h request =
     (let command = hd (split_on TAB request); parts = tl (split_on TAB request)
      in if command = ascii ''PING'' then boxed_value (Ok [])
         else if command = ascii ''FORWARD'' then wireless_forward h parts
         else if command = ascii ''LIST'' then (\<lambda>w. (Ok (pair_lines (forward_routes w)), w))
         else if command = ascii ''REMOVE'' then wireless_remove parts
         else if command = ascii ''REMOVE_ALL'' then (\<lambda>w. (Ok [], snd (remove_all_forwards w)))
         else boxed_value (Err (ascii ''unsupported wireless daemon request: '' @ command)))"

definition wireless_handle :: "daemon_host \<Rightarrow> source \<Rightarrow> (forwards, bytes) boxed_io" where
  "wireless_handle h src w =
     (case bind_boxed (\<lambda>src. case read_full 4 src of (r, src') \<Rightarrow> (boxed r, src')) (\<lambda>len.
         if WIRELESS_LIMIT < be_nat len then boxed_value (failure ''request too large'')
         else bind_boxed (\<lambda>src. case read_full (be_nat len) src of (r, src') \<Rightarrow> (boxed r, src')) (\<lambda>body.
           boxed_value (if utf8_valid body then Ok body else Err (error_text Utf8FromBytesError)))) src of
        (Ok request, _) \<Rightarrow> wireless_request h request w
      | (Err e, _) \<Rightarrow> (Err e, w)
      | (Panic, _) \<Rightarrow> (Panic, w))"

text \<open>What the command line sends for a forward of a wireless device.\<close>

fun wireless_text :: "forward_request \<Rightarrow> bytes" where
  "wireless_text (Forward_Add near remote) = join [TAB] [ascii ''FORWARD'', near, remote]"
| "wireless_text Forward_List = ascii ''LIST''"
| "wireless_text (Forward_Remove near) = join [TAB] [ascii ''REMOVE'', near]"
| "wireless_text Forward_Remove_All = ascii ''REMOVE_ALL''"

text \<open>
  The rule that was added is listed, as the last one, and removing it makes the list what it was: for
  endpoints without tabs, a port that could be bound and a listener that answered in time.
\<close>

lemma begin_forward_fresh:
  assumes "begin_forward bound near remote w = (Ok flag, w')"
  shows "map_of (fw_routes w) near = None" and "fw_routes w' = fw_routes w @ [(near, remote, flag)]"
proof -
  from assms show fresh: "map_of (fw_routes w) near = None"
    by (cases "map_of (fw_routes w) near") (auto simp: begin_forward_def split: option.splits)
  from assms have w': "w' = w\<lparr>fw_routes := AList.update near (remote, fw_next_flag w) (fw_routes w), fw_next_flag := fw_next_flag w + 1\<rparr>"
    "flag = fw_next_flag w"
    by (auto simp: begin_forward_def bind_io_def lift_def split: option.splits if_splits outcome.splits)
  have "AList.update k v xs = xs @ [(k, v)]" if "map_of xs k = None" for k v and xs :: "('a \<times> 'b) list"
    using that by (induction xs) (auto split: if_splits)
  with fresh w' show "fw_routes w' = fw_routes w @ [(near, remote, flag)]" by simp
qed

lemma delete_last:
  assumes "map_of xs k = None"
  shows "AList.delete k (xs @ [(k, v)]) = xs"
proof -
  have "AList.delete k xs = xs" using assms by (induction xs) (auto split: if_splits)
  then show ?thesis by (simp add: AList.delete_eq)
qed

lemma wireless_text_split:
  assumes "TAB \<notin> set near" and "TAB \<notin> set remote"
  shows "split_on TAB (wireless_text (Forward_Add near remote)) = [ascii ''FORWARD'', near, remote]"
    and "split_on TAB (wireless_text (Forward_Remove near)) = [ascii ''REMOVE'', near]"
    and "split_on TAB (wireless_text Forward_List) = [ascii ''LIST'']"
proof -
  have tabs: "TAB \<notin> set (ascii ''FORWARD'')" "TAB \<notin> set (ascii ''REMOVE'')" "TAB \<notin> set (ascii ''LIST'')"
    by (simp_all add: TAB_def)
  then show "split_on TAB (wireless_text (Forward_Add near remote)) = [ascii ''FORWARD'', near, remote]"
    "split_on TAB (wireless_text (Forward_Remove near)) = [ascii ''REMOVE'', near]"
    "split_on TAB (wireless_text Forward_List) = [ascii ''LIST'']"
    using split_on_append [OF tabs(1)] split_on_append [OF tabs(2)] split_on_clean [OF tabs(3)]
      split_on_append [OF assms(1)] split_on_clean [OF assms(1)] split_on_clean [OF assms(2)] by simp_all
qed

text \<open>
  A forward of a wireless device that was added is listed after the others, and removing it restores
  the list.
\<close>

theorem wireless_forward_roundtrip:
  assumes "TAB \<notin> set near" and "TAB \<notin> set remote"
    and "wireless_request h (wireless_text (Forward_Add near remote)) w = (Ok out, w')"
  shows "out = []
    \<and> wireless_request h (wireless_text Forward_List) w' = (Ok (pair_lines (forward_routes w @ [(near, remote)])), w')
    \<and> (\<exists>w2. wireless_request h (wireless_text (Forward_Remove near)) w' = (Ok [], w2) \<and> forward_routes w2 = forward_routes w)"
proof -
  note split = wireless_text_split [OF assms(1,2)]
  obtain r where r: "begin_forward (dh_bind h near) near remote w = (r, w')"
    and ok: "dh_ready h" "r \<noteq> Panic" "\<And>e. r \<noteq> Err e" "out = []"
    using assms(3) unfolding wireless_request_def split
    by (auto simp: wireless_forward_def field_or_def failure_def boxed_def split: prod.splits if_splits elim!: bind_outcome.elims)
  then obtain flag where "begin_forward (dh_bind h near) near remote w = (Ok flag, w')" by (cases r) auto
  note w' = begin_forward_fresh [OF this]
  have "wireless_request h (wireless_text Forward_List) w' = (Ok (pair_lines (forward_routes w @ [(near, remote)])), w')"
    unfolding wireless_request_def split using w'(2) by (simp add: forward_routes_def)
  moreover have "\<exists>w2. wireless_request h (wireless_text (Forward_Remove near)) w' = (Ok [], w2) \<and> forward_routes w2 = forward_routes w"
  proof -
    have "map_of (fw_routes w') near = Some (remote, flag)"
      using w' by (simp add: map_add_Some_iff)
    moreover have "AList.delete near (fw_routes w') = fw_routes w"
      using w'(2) delete_last [OF w'(1), of "(remote, flag)"] by simp
    ultimately show ?thesis
      unfolding wireless_request_def split
      by (simp add: wireless_remove_def field_or_def remove_forward_def forward_routes_def)
  qed
  ultimately show ?thesis using ok by blast
qed

definition example_host :: daemon_host where
  "example_host = \<lparr>dh_term = None, dh_open = (\<lambda>_. Ok []), dh_clock = Some 5, dh_pid = 1, dh_bind = (\<lambda>_. Ok ()), dh_ready = True\<rparr>"

theorem wireless_forward_roundtrip_witness:
  "\<exists>w. wireless_request example_host (wireless_text (Forward_Add example_endpoint [97])) no_forwards = (Ok [], w)
     \<and> wireless_request example_host (wireless_text Forward_List) w = (Ok (pair_lines [(example_endpoint, [97])]), w)"
proof -
  have tabs: "TAB \<notin> set example_endpoint" "TAB \<notin> set [97]"
    using show_nat_line(3) [of 80] by (simp_all add: example_endpoint_def TAB_def)
  have port: "tcp_port example_endpoint = Some 80"
    unfolding example_endpoint_def using tcp_port_show [of 80] by simp
  obtain w where "wireless_request example_host (wireless_text (Forward_Add example_endpoint [97])) no_forwards = (Ok [], w)"
    unfolding wireless_request_def wireless_text_split [OF tabs]
    by (simp add: wireless_forward_def field_or_def begin_forward_def port no_forwards_def bind_io_def lift_def
        example_host_def boxed_def)
  with wireless_forward_roundtrip [OF tabs this] show ?thesis by (auto simp: forward_routes_def no_forwards_def)
qed

text \<open>
  Unlike its counterpart for USB, the request to remove a rule ignores what follows a tab, and removes
  the rule of a shorter name.
\<close>

lemma wireless_remove_ignores_tabs:
  "TAB \<notin> set near \<Longrightarrow>
     wireless_request h (wireless_text (Forward_Remove (near @ [TAB] @ rest))) w
       = wireless_request h (wireless_text (Forward_Remove near)) w"
proof -
  assume near: "TAB \<notin> set near"
  have name: "TAB \<notin> set (ascii ''REMOVE'')" by (simp add: TAB_def)
  have split: "split_on TAB (wireless_text (Forward_Remove (near @ [TAB] @ rest))) = ascii ''REMOVE'' # near # split_on TAB rest"
    "split_on TAB (wireless_text (Forward_Remove near)) = [ascii ''REMOVE'', near]"
    using near split_on_append [OF name] split_on_append [OF near] split_on_clean [OF near] by simp_all
  show ?thesis
    unfolding wireless_request_def split by (simp add: wireless_remove_def field_or_def)
qed

section \<open>Deadlines of a local connection\<close>

text \<open>
  Reading and writing share their loop. An attempt finds the socket blocked at some time, and then
  polls it; is interrupted; or has a result. At the end of the script the call is still waiting.
\<close>

datatype polled = Polled | Poll_Interrupted | Poll_Failed io_kind

datatype 'a attempt = Blocked nat polled | Was_Interrupted | Finished "'a result"

definition timed_out :: rust_error where
  "timed_out = IOError TimedOut (Message (ascii ''local control socket timed out''))"

definition wait_until :: "nat \<Rightarrow> nat \<Rightarrow> polled \<Rightarrow> unit result" where
  "wait_until deadline now p =
     (if deadline \<le> now then Err timed_out
      else case p of Poll_Failed k \<Rightarrow> Err (IOError k Os_Error) | _ \<Rightarrow> Ok ())"

text \<open>How long a poll waits, in milliseconds, for times in nanoseconds: never less than what remains.\<close>

definition poll_timeout :: "nat \<Rightarrow> nat \<Rightarrow> nat" where
  "poll_timeout deadline now = min ((deadline - now) div 1000000 + 1) (2 ^ 31 - 1)"

fun deadline_loop :: "nat \<Rightarrow> 'a attempt list \<Rightarrow> 'a result option" where
  "deadline_loop deadline [] = None"
| "deadline_loop deadline (Blocked now p # script) =
     (case wait_until deadline now p of
        Ok _ \<Rightarrow> deadline_loop deadline script
      | Err e \<Rightarrow> Some (Err e)
      | Panic \<Rightarrow> Some Panic)"
| "deadline_loop deadline (Was_Interrupted # script) = deadline_loop deadline script"
| "deadline_loop deadline (Finished r # script) = Some r"

definition deadline_io :: "nat \<Rightarrow> nat \<Rightarrow> 'a attempt list \<Rightarrow> 'a result option" where
  "deadline_io since timeout script = deadline_loop (since + timeout) script"

lemma poll_waits_long_enough:
  assumes "deadline - now < (2 ^ 31 - 1) * 1000000"
  shows "deadline - now < poll_timeout deadline now * 1000000"
proof -
  let ?r = "deadline - now"
  have "?r < (?r div 1000000 + 1) * 1000000" by (simp add: dividend_less_times_div mult.commute)
  with assms show ?thesis unfolding poll_timeout_def by (cases "?r div 1000000 + 1 \<le> 2 ^ 31 - 1") (simp_all add: min_def)
qed

lemma deadline_loop_timed_out:
  "deadline_loop d script = Some (Err timed_out) \<Longrightarrow>
     (\<exists>now p. Blocked now p \<in> set script \<and> d \<le> now) \<or> Finished (Err timed_out) \<in> set script"
  by (induction d script rule: deadline_loop.induct)
    (auto simp: wait_until_def timed_out_def split: polled.splits if_splits)

definition before :: "nat \<Rightarrow> 'a attempt \<Rightarrow> bool" where
  "before d a \<longleftrightarrow>
     (case a of Blocked now p \<Rightarrow> now < d \<and> (\<forall>k. p \<noteq> Poll_Failed k) | Was_Interrupted \<Rightarrow> True | Finished _ \<Rightarrow> False)"

lemma deadline_loop_finishes:
  "\<forall>a \<in> set pre. before d a \<Longrightarrow> deadline_loop d (pre @ Finished r # rest) = Some r"
  by (induction pre) (auto simp: before_def wait_until_def split: attempt.splits polled.splits)

lemma deadline_loop_ends: "d \<le> now \<Longrightarrow> \<exists>r. deadline_loop d (pre @ Blocked now p # rest) = Some r"
proof (induction pre)
  case Nil
  then show ?case by (simp add: wait_until_def)
next
  case (Cons a pre)
  then show ?case by (cases a) (auto split: outcome.splits)
qed



end
