(* ===== verification/Local_Files.thy ===== *)
theory Local_Files
  imports Rust_IO "HOL-Library.Sublist"
begin

text \<open>
  The paths and the file system of the host, as \<^verbatim>\<open>adb_cli\<close> uses them: the components of a path, and a tree
  of directories, files and symbolic links, in which paths are resolved the way the kernel does.
\<close>

section \<open>Paths\<close>

datatype component = Root_Dir | Cur_Dir | Parent_Dir | Normal bytes

type_synonym path = "component list"

definition SLASH :: u8 where
  "SLASH = 47"

definition DOT :: u8 where
  "DOT = 46"

definition component_of :: "bytes \<Rightarrow> component" where
  "component_of s = (if s = [DOT, DOT] then Parent_Dir else Normal s)"

text \<open>Repeated and trailing slashes do not matter, and neither does a dot, except at the start.\<close>

definition body :: "bytes \<Rightarrow> path" where
  "body s = map component_of (filter (\<lambda>c. c \<noteq> [] \<and> c \<noteq> [DOT]) (split_on SLASH s))"

definition components :: "bytes \<Rightarrow> path" where
  "components s =
     (if s \<noteq> [] \<and> hd s = SLASH then Root_Dir # body s
      else if hd (split_on SLASH s) = [DOT] then Cur_Dir # body s
      else body s)"

fun component_text :: "component \<Rightarrow> bytes" where
  "component_text Root_Dir = []"
| "component_text Cur_Dir = [DOT]"
| "component_text Parent_Dir = [DOT, DOT]"
| "component_text (Normal s) = s"

text \<open>\<open>to_string_lossy\<close> of a path that was put together from its components.\<close>

definition path_text :: "path \<Rightarrow> bytes" where
  "path_text p = (if p = [Root_Dir] then [SLASH] else join [SLASH] (map component_text p))"

definition file_name :: "path \<Rightarrow> bytes option" where
  "file_name p = (if p = [] then None else case last p of Normal s \<Rightarrow> Some s | _ \<Rightarrow> None)"

definition parent :: "path \<Rightarrow> path option" where
  "parent p = (if p = [] \<or> last p = Root_Dir then None else Some (butlast p))"

fun strip_path :: "path \<Rightarrow> path \<Rightarrow> path option" where
  "strip_path [] q = Some q"
| "strip_path (x # xs) (y # ys) = (if x = y then strip_path xs ys else None)"
| "strip_path (x # xs) [] = None"

text \<open>\<open>join\<close>: an absolute path replaces the one it is joined to; a dot at the start disappears in the middle.\<close>

definition join_path :: "path \<Rightarrow> path \<Rightarrow> path" where
  "join_path p q =
     (case q of
        Root_Dir # _ \<Rightarrow> q
      | Cur_Dir # q' \<Rightarrow> (if p = [] then q else p @ q')
      | _ \<Rightarrow> p @ q)"

definition with_file_name :: "path \<Rightarrow> bytes \<Rightarrow> path" where
  "with_file_name p name = (if file_name p = None then p else butlast p) @ [Normal name]"

lemma strip_path_Some: "strip_path p q = Some r \<longleftrightarrow> q = p @ r"
  by (induction p q rule: strip_path.induct) auto

section \<open>The file system\<close>

datatype node = Directory | Regular bytes | Symlink bytes

text \<open>
  Nodes are found at their real path. What the user may not change is \<open>fs_denied\<close>; changes of
  permissions and times are kept in \<open>fs_touched\<close>.
\<close>

type_synonym real = "bytes list"

record file_system =
  fs_nodes :: "real \<Rightarrow> node option"
  fs_cwd :: real
  fs_denied :: "real \<Rightarrow> bool"
  fs_touched :: "(real \<times> nat \<times> int) list"

definition node_at :: "file_system \<Rightarrow> real \<Rightarrow> node option" where
  "node_at fs r = (if r = [] then Some Directory else fs_nodes fs r)"

abbreviation is_directory :: "file_system \<Rightarrow> real \<Rightarrow> bool" where
  "is_directory fs r \<equiv> node_at fs r = Some Directory"

definition set_node :: "real \<Rightarrow> node option \<Rightarrow> file_system \<Rightarrow> file_system" where
  "set_node r n fs = fs\<lparr>fs_nodes := (fs_nodes fs)(r := n)\<rparr>"

text \<open>Resolving a path, from a directory, at most so many symbolic links deep.\<close>

fun walk :: "nat \<Rightarrow> file_system \<Rightarrow> real \<Rightarrow> path \<Rightarrow> real option" where
  "walk n fs cur [] = Some cur"
| "walk n fs cur (Root_Dir # cs) = walk n fs [] cs"
| "walk n fs cur (Cur_Dir # cs) = walk n fs cur cs"
| "walk n fs cur (Parent_Dir # cs) = walk n fs (butlast cur) cs"
| "walk 0 fs cur (Normal x # cs) =
     (case node_at fs (cur @ [x]) of
        Some Directory \<Rightarrow> walk 0 fs (cur @ [x]) cs
      | Some (Symlink _) \<Rightarrow> None
      | _ \<Rightarrow> if cs = [] then Some (cur @ [x]) else None)"
| "walk (Suc n) fs cur (Normal x # cs) =
     (case node_at fs (cur @ [x]) of
        Some Directory \<Rightarrow> walk (Suc n) fs (cur @ [x]) cs
      | Some (Symlink target) \<Rightarrow> walk n fs cur (components target @ cs)
      | _ \<Rightarrow> if cs = [] then Some (cur @ [x]) else None)"

definition LINKS :: nat where
  "LINKS = 40"

text \<open>The empty path names nothing.\<close>

definition resolve :: "file_system \<Rightarrow> path \<Rightarrow> real option" where
  "resolve fs p = (if p = [] then None else walk LINKS fs (fs_cwd fs) p)"

text \<open>Where the last component is, which may be a symbolic link itself.\<close>

definition place :: "file_system \<Rightarrow> path \<Rightarrow> real option" where
  "place fs p =
     (if p = [] then None
      else case last p of
          Normal x \<Rightarrow>
            (case walk LINKS fs (fs_cwd fs) (butlast p) of
               Some r \<Rightarrow> if is_directory fs r then Some (r @ [x]) else None
             | None \<Rightarrow> None)
        | _ \<Rightarrow> resolve fs p)"

definition os_error :: "io_kind \<Rightarrow> 'a result" where
  "os_error k = Err (IOError k Os_Error)"

definition symlink_metadata :: "file_system \<Rightarrow> path \<Rightarrow> node option" where
  "symlink_metadata fs p = Option.bind (place fs p) (node_at fs)"

definition path_is_dir :: "file_system \<Rightarrow> path \<Rightarrow> bool" where
  "path_is_dir fs p \<longleftrightarrow> Option.bind (resolve fs p) (node_at fs) = Some Directory"

text \<open>Putting a new node where there is none.\<close>

definition create_node :: "node \<Rightarrow> path \<Rightarrow> (file_system, unit) io" where
  "create_node n p fs =
     (case place fs p of
        None \<Rightarrow> (os_error NotFound, fs)
      | Some r \<Rightarrow>
          if node_at fs r \<noteq> None then (os_error AlreadyExists, fs)
          else if fs_denied fs r then (os_error OtherKind, fs)
          else (Ok (), set_node r (Some n) fs))"

definition create_dir :: "path \<Rightarrow> (file_system, unit) io" where
  "create_dir = create_node Directory"

definition unless_dir :: "path \<Rightarrow> unit result \<Rightarrow> (file_system, unit) io" where
  "unless_dir p r fs = (if path_is_dir fs p then (Ok (), fs) else (r, fs))"

function create_dir_all :: "path \<Rightarrow> (file_system, unit) io" where
  "create_dir_all p fs =
     (if p = [] then (Ok (), fs)
      else case create_dir p fs of
          (Err (IOError NotFound t), fs1) \<Rightarrow>
            (case parent p of
               None \<Rightarrow> (os_error OtherKind, fs1)
             | Some q \<Rightarrow>
                 (case create_dir_all q fs1 of
                    (Ok _, fs2) \<Rightarrow>
                      (case create_dir p fs2 of
                         (Ok _, fs3) \<Rightarrow> (Ok (), fs3)
                       | (r, fs3) \<Rightarrow> unless_dir p r fs3)
                  | other \<Rightarrow> other))
        | (Err e, fs1) \<Rightarrow> unless_dir p (Err e) fs1
        | other \<Rightarrow> other)"
  by pat_completeness auto
termination
  by (relation "measure (\<lambda>(p, fs). length p)") (auto simp: parent_def split: if_splits)

declare create_dir_all.simps [simp del]

definition remove_file :: "path \<Rightarrow> (file_system, unit) io" where
  "remove_file p fs =
     (case place fs p of
        None \<Rightarrow> (os_error NotFound, fs)
      | Some r \<Rightarrow>
          if node_at fs r = None then (os_error NotFound, fs)
          else if is_directory fs r \<or> fs_denied fs r then (os_error OtherKind, fs)
          else (Ok (), set_node r None fs))"

definition make_symlink :: "bytes \<Rightarrow> path \<Rightarrow> (file_system, unit) io" where
  "make_symlink target p = (if target = [] then lift (os_error NotFound) else create_node (Symlink target) p)"

definition write_file :: "path \<Rightarrow> bytes \<Rightarrow> file_system \<Rightarrow> file_system" where
  "write_file p bs fs =
     (case place fs p of
        Some r \<Rightarrow> (case node_at fs r of Some (Regular _) \<Rightarrow> set_node r (Some (Regular bs)) fs | _ \<Rightarrow> fs)
      | None \<Rightarrow> fs)"

text \<open>Renaming a file: what was there is replaced, unless it is a directory.\<close>

definition rename_file :: "path \<Rightarrow> path \<Rightarrow> (file_system, unit) io" where
  "rename_file p q fs =
     (case (place fs p, place fs q) of
        (Some r, Some t) \<Rightarrow>
          (case node_at fs r of
             Some (Regular bs) \<Rightarrow>
               if is_directory fs t \<or> fs_denied fs t then (os_error OtherKind, fs)
               else (Ok (), set_node t (Some (Regular bs)) (if t = r then fs else set_node r None fs))
           | _ \<Rightarrow> (os_error NotFound, fs))
      | _ \<Rightarrow> (os_error NotFound, fs))"

definition touch :: "path \<Rightarrow> nat \<Rightarrow> int \<Rightarrow> (file_system, unit) io" where
  "touch p mode mtime fs =
     (case resolve fs p of
        None \<Rightarrow> (os_error NotFound, fs)
      | Some r \<Rightarrow>
          if node_at fs r = None then (os_error NotFound, fs)
          else if fs_denied fs r then (os_error OtherKind, fs)
          else (Ok (), fs\<lparr>fs_touched := fs_touched fs @ [(r, mode, mtime)]\<rparr>))"

end
