(* ===== verification/Confined_Files.thy ===== *)
theory Confined_Files
  imports Local_Files
begin

text \<open>
  Operations below a directory: as long as no symbolic link is met on the way, a path below a
  directory is resolved to the place it names, and creating, writing, renaming and removing there
  changes nothing outside.
\<close>

section \<open>Changes within a directory\<close>

definition fs_wf :: "file_system \<Rightarrow> bool" where
  "fs_wf fs \<longleftrightarrow> is_directory fs (fs_cwd fs) \<and> (\<forall>r x. node_at fs (r @ [x]) \<noteq> None \<longrightarrow> is_directory fs r)"

definition same_outside :: "real \<Rightarrow> file_system \<Rightarrow> file_system \<Rightarrow> bool" where
  "same_outside D fs fs' \<longleftrightarrow>
     fs_cwd fs' = fs_cwd fs \<and> (\<forall>r. \<not> strict_prefix D r \<longrightarrow> node_at fs' r = node_at fs r)"

definition touched_within :: "real \<Rightarrow> file_system \<Rightarrow> file_system \<Rightarrow> bool" where
  "touched_within D fs fs' \<longleftrightarrow>
     (\<exists>new. fs_touched fs' = fs_touched fs @ new \<and> (\<forall>(r, _, _) \<in> set new. prefix D r))"

definition kept_sound :: "file_system \<Rightarrow> file_system \<Rightarrow> bool" where
  "kept_sound fs fs' \<longleftrightarrow> fs_wf fs' \<and> (\<forall>r. is_directory fs r \<longrightarrow> is_directory fs' r)"

definition within :: "real \<Rightarrow> file_system \<Rightarrow> file_system \<Rightarrow> bool" where
  "within D fs fs' \<longleftrightarrow> same_outside D fs fs' \<and> touched_within D fs fs' \<and> kept_sound fs fs'"

lemma within_refl: "fs_wf fs \<Longrightarrow> within D fs fs"
  by (simp add: within_def same_outside_def touched_within_def kept_sound_def)

lemma within_trans:
  assumes "within D fs fs1" and "within D fs1 fs2"
  shows "within D fs fs2"
proof -
  have "touched_within D fs fs2"
    using assms unfolding within_def touched_within_def by (fastforce intro: exI [of _ "_ @ _"])
  then show ?thesis
    using assms by (auto simp: within_def same_outside_def kept_sound_def)
qed

text \<open>
  A directory that a path leads to whatever happens strictly below it.
\<close>

definition anchored :: "path \<Rightarrow> real \<Rightarrow> file_system \<Rightarrow> bool" where
  "anchored root D fs \<longleftrightarrow> fs_wf fs \<and> is_directory fs D
     \<and> (\<forall>fs'. same_outside D fs fs' \<longrightarrow> walk LINKS fs' (fs_cwd fs') root = Some D)"

lemma same_outside_trans: "same_outside D fs fs1 \<Longrightarrow> same_outside D fs1 fs2 \<Longrightarrow> same_outside D fs fs2"
  by (simp add: same_outside_def)

lemma anchored_within: "anchored root D fs \<Longrightarrow> within D fs fs' \<Longrightarrow> anchored root D fs'"
  using same_outside_trans unfolding anchored_def within_def kept_sound_def by blast

lemma anchored_walk: "anchored root D fs \<Longrightarrow> walk LINKS fs (fs_cwd fs) root = Some D"
  by (simp add: anchored_def same_outside_def)

text \<open>A path from the root of the file system through plain directories leads to where it says.\<close>

lemma walk_plain_directories:
  "(\<forall>ys. prefix ys xs \<longrightarrow> is_directory fs (cur @ ys)) \<Longrightarrow> walk n fs cur (map Normal xs) = Some (cur @ xs)"
proof (induction xs arbitrary: cur)
  case (Cons x xs)
  have "is_directory fs (cur @ [x])" using Cons.prems by (simp add: prefix_def)
  moreover have "\<forall>ys. prefix ys xs \<longrightarrow> is_directory fs ((cur @ [x]) @ ys)"
    using Cons.prems by (metis Cons_prefix_Cons append_Cons append_assoc append_Nil)
  ultimately show ?case using Cons.IH [of "cur @ [x]"] by (cases n) simp_all
qed simp

lemma anchored_absolute:
  assumes "fs_wf fs" and "is_directory fs D"
  shows "anchored (Root_Dir # map Normal D) D fs"
proof -
  have up: "is_directory fs ys" if "prefix ys D" for ys
    using that assms(2)
  proof (induction "length D - length ys" arbitrary: ys)
    case 0
    then have "ys = D" by (metis diff_is_0_eq prefix_length_prefix prefix_order.antisym prefix_order.refl)
    with assms(2) show ?case by simp
  next
    case (Suc k)
    then obtain z zs where D: "D = ys @ z # zs" by (metis append.right_neutral diff_self_eq_0 nat.distinct(1) neq_Nil_conv prefixE)
    with Suc have "is_directory fs (ys @ [z])" by (auto simp: prefix_def intro: Suc(1))
    then show ?case using assms(1) by (metis fs_wf_def option.distinct(1))
  qed
  have "walk LINKS fs' (fs_cwd fs') (Root_Dir # map Normal D) = Some D" if "same_outside D fs fs'" for fs'
  proof -
    have "is_directory fs' ([] @ ys)" if "prefix ys D" for ys
      using up [OF that] \<open>same_outside D fs fs'\<close> that
      by (auto simp: same_outside_def prefix_order.less_le_not_le)
    then show ?thesis using walk_plain_directories [of D fs' "[]"] by simp
  qed
  with assms show ?thesis by (simp add: anchored_def)
qed

section \<open>Resolving paths below a directory\<close>

lemma wf_above:
  assumes "fs_wf fs" and "node_at fs (r @ zs) \<noteq> None" and "zs \<noteq> []"
  shows "is_directory fs r"
  using assms(2,3)
proof (induction zs rule: rev_induct)
  case (snoc z zs)
  then have "is_directory fs (r @ zs)" using assms(1) unfolding fs_wf_def by (metis append_assoc)
  with snoc.IH show ?case by (cases "zs = []") auto
qed simp

lemma walk_append:
  "walk n fs cur p = Some r \<Longrightarrow> is_directory fs r \<Longrightarrow> \<exists>m. walk n fs cur (p @ q) = walk m fs r q"
proof (induction n fs cur p rule: walk.induct)
  case (5 fs cur x cs)
  then show ?case by (auto split: option.splits node.splits if_splits)
next
  case (6 n fs cur x cs)
  then show ?case by (auto split: option.splits node.splits if_splits)
qed auto

lemma walk_append_None: "walk n fs cur p = None \<Longrightarrow> walk n fs cur (p @ q) = None"
  by (induction n fs cur p rule: walk.induct) (auto split: option.splits node.splits if_splits)

lemma walk_snoc_dir:
  "walk n fs cur (p @ [Normal x]) = Some D \<Longrightarrow> is_directory fs D \<Longrightarrow> is_directory fs cur \<Longrightarrow> fs_wf fs \<Longrightarrow>
     \<exists>r. walk n fs cur p = Some r \<and> is_directory fs r"
proof (induction n fs cur p rule: walk.induct)
  case (2 n fs cur cs)
  then show ?case by (simp add: node_at_def)
next
  case (4 n fs cur cs)
  have "is_directory fs (butlast cur)"
  proof (cases "cur = []")
    case False
    with 4(4) have "node_at fs (butlast cur @ [last cur]) \<noteq> None" by simp
    from wf_above [OF 4(5) this] show ?thesis by simp
  qed (use 4(4) in simp)
  with 4 show ?case by simp
next
  case (5 fs cur x cs)
  then show ?case by (auto split: option.splits node.splits if_splits)
next
  case (6 n fs cur x cs)
  then show ?case by (auto split: option.splits node.splits if_splits)
qed simp_all

definition plain_below :: "file_system \<Rightarrow> real \<Rightarrow> bytes list \<Rightarrow> bool" where
  "plain_below fs D xs \<longleftrightarrow> (\<forall>ys t. prefix ys xs \<and> ys \<noteq> [] \<longrightarrow> node_at fs (D @ ys) \<noteq> Some (Symlink t))"

lemma plain_below_prefix: "plain_below fs D xs \<Longrightarrow> prefix ys xs \<Longrightarrow> plain_below fs D ys"
  unfolding plain_below_def by (meson prefix_order.trans)

lemma walk_below:
  assumes "fs_wf fs" and "plain_below fs D xs" and "is_directory fs D"
  shows "walk n fs D (map Normal xs) = (if xs = [] \<or> is_directory fs (D @ butlast xs) then Some (D @ xs) else None)"
  using assms(2,3)
proof (induction xs arbitrary: D)
  case (Cons x xs)
  have plain: "node_at fs (D @ [x]) \<noteq> Some (Symlink t)" for t
    using Cons.prems(1) unfolding plain_below_def by (metis Cons_prefix_Cons Nil_prefix list.distinct(1))
  have rest: "plain_below fs (D @ [x]) xs"
    unfolding plain_below_def
  proof (intro allI impI)
    fix ys t
    assume "prefix ys xs \<and> ys \<noteq> []"
    then have "prefix (x # ys) (x # xs)" by simp
    with Cons.prems(1) show "node_at fs ((D @ [x]) @ ys) \<noteq> Some (Symlink t)"
      unfolding plain_below_def by (metis append_Cons append_assoc append_Nil list.distinct(1))
  qed
  show ?case
  proof (cases "is_directory fs (D @ [x])")
    case True
    with Cons.IH [OF rest True] Cons.prems(2) show ?thesis by (cases n) auto
  next
    case False
    have "\<not> is_directory fs (D @ x # butlast xs)" if "xs \<noteq> []"
    proof
      assume "is_directory fs (D @ x # butlast xs)"
      then have "node_at fs ((D @ [x]) @ butlast xs) \<noteq> None" by simp
      with wf_above [OF assms(1) this] False \<open>is_directory fs (D @ x # butlast xs)\<close> show False by (cases "butlast xs = []") auto
    qed
    with False plain Cons.prems(2) show ?thesis
      by (cases n; cases "node_at fs (D @ [x])") (auto split: node.splits)
  qed
qed simp

lemma resolve_below:
  assumes "anchored root D fs" and "plain_below fs D xs" and "xs \<noteq> []"
  shows "resolve fs (root @ map Normal xs) = (if is_directory fs (D @ butlast xs) then Some (D @ xs) else None)"
proof -
  have "fs_wf fs" "is_directory fs D" using assms(1) by (simp_all add: anchored_def)
  moreover obtain m where "walk LINKS fs (fs_cwd fs) (root @ map Normal xs) = walk m fs D (map Normal xs)"
    using walk_append [OF anchored_walk [OF assms(1)]] calculation(2) by blast
  ultimately show ?thesis
    using walk_below [of fs D xs m] assms(2,3) by (simp add: resolve_def)
qed

lemma place_below:
  assumes "anchored root D fs" and "plain_below fs D xs"
  shows "place fs (root @ map Normal (xs @ [x])) = (if is_directory fs (D @ xs) then Some (D @ xs @ [x]) else None)"
proof (cases "xs = []")
  case True
  with anchored_walk [OF assms(1)] assms(1) show ?thesis by (simp add: place_def anchored_def)
next
  case False
  have "walk LINKS fs (fs_cwd fs) (root @ map Normal xs) = (if is_directory fs (D @ butlast xs) then Some (D @ xs) else None)"
    using resolve_below [OF assms False] False by (simp add: resolve_def)
  moreover have "is_directory fs (D @ butlast xs)" if "is_directory fs (D @ xs)"
    using wf_above [of fs "D @ butlast xs" "[last xs]"] that False assms(1) by (simp add: anchored_def)
  ultimately show ?thesis by (simp add: place_def butlast_append)
qed

text \<open>The directory itself is there, whatever its path looks like.\<close>

lemma place_anchor:
  assumes "anchored root D fs" and "root \<noteq> []"
  shows "\<exists>r. place fs root = Some r \<and> node_at fs r \<noteq> None" and "resolve fs root = Some D"
proof -
  have wf: "fs_wf fs" "is_directory fs D" using assms(1) by (simp_all add: anchored_def)
  show res: "resolve fs root = Some D" using anchored_walk [OF assms(1)] assms(2) by (simp add: resolve_def)
  show "\<exists>r. place fs root = Some r \<and> node_at fs r \<noteq> None"
  proof (cases "last root")
    case (Normal x)
    then have root: "root = butlast root @ [Normal x]" using assms(2) by (metis append_butlast_last_id)
    with anchored_walk [OF assms(1)] have "walk LINKS fs (fs_cwd fs) (butlast root @ [Normal x]) = Some D" by simp
    moreover from wf(1) have "is_directory fs (fs_cwd fs)" by (simp add: fs_wf_def)
    ultimately obtain r where r: "walk LINKS fs (fs_cwd fs) (butlast root) = Some r" "is_directory fs r"
      using walk_snoc_dir wf by blast
    from walk_append [OF this, of "[Normal x]"] root anchored_walk [OF assms(1)]
    obtain m where "walk m fs r [Normal x] = Some D" by auto
    then have "node_at fs (r @ [x]) \<noteq> None" using wf(2) by (cases m; cases "node_at fs (r @ [x])") auto
    with r Normal assms(2) show ?thesis by (simp add: place_def)
  qed (use res wf(2) assms(2) in \<open>simp_all add: place_def\<close>)
qed

section \<open>Operations below a directory\<close>

lemma node_at_set_node: "r \<noteq> [] \<Longrightarrow> node_at (set_node r n fs) t = (if t = r then n else node_at fs t)"
  by (simp add: node_at_def set_node_def)

lemma within_set_node:
  assumes "fs_wf fs" and "strict_prefix D r" and "\<not> is_directory fs r" and "n \<noteq> None \<Longrightarrow> is_directory fs (butlast r)"
  shows "within D fs (set_node r n fs)"
proof -
  have r: "r \<noteq> []" using assms(2) by auto
  note at = node_at_set_node [OF r]
  have "fs_wf (set_node r n fs)"
    unfolding fs_wf_def
  proof (intro conjI allI impI)
    have "fs_cwd (set_node r n fs) = fs_cwd fs" by (simp add: set_node_def)
    with assms(1,3) show "is_directory (set_node r n fs) (fs_cwd (set_node r n fs))"
      using at by (auto simp: fs_wf_def)
  next
    fix t x
    assume nn: "node_at (set_node r n fs) (t @ [x]) \<noteq> None"
    have dir: "is_directory fs t"
    proof (cases "t @ [x] = r")
      case True
      with nn at have "n \<noteq> None" by simp
      with assms(4) True show ?thesis by auto
    next
      case False
      with nn at have "node_at fs (t @ [x]) \<noteq> None" by simp
      with assms(1) show ?thesis unfolding fs_wf_def by blast
    qed
    with assms(3) have "t \<noteq> r" by auto
    with dir show "is_directory (set_node r n fs) t" using at by simp
  qed
  moreover have "fs_cwd (set_node r n fs) = fs_cwd fs" "fs_touched (set_node r n fs) = fs_touched fs"
    by (simp_all add: set_node_def)
  ultimately show ?thesis
    using assms(2,3) at
    by (auto simp: within_def same_outside_def touched_within_def kept_sound_def)
qed

text \<open>Nothing but directories is added: no new links, no file taken away.\<close>

definition adds_directories :: "file_system \<Rightarrow> file_system \<Rightarrow> bool" where
  "adds_directories fs fs' \<longleftrightarrow>
     (\<forall>r. node_at fs' r = node_at fs r \<or> node_at fs r = None \<and> is_directory fs' r) \<and> fs_denied fs' = fs_denied fs"

lemma adds_refl: "adds_directories fs fs"
  by (simp add: adds_directories_def)

lemma adds_trans: "adds_directories fs fs1 \<Longrightarrow> adds_directories fs1 fs2 \<Longrightarrow> adds_directories fs fs2"
  unfolding adds_directories_def by (metis option.distinct(1))

lemma plain_below_adds: "plain_below fs D xs \<Longrightarrow> adds_directories fs fs' \<Longrightarrow> plain_below fs' D xs"
  unfolding plain_below_def adds_directories_def by (metis node.distinct(3) option.inject)

lemma create_node_below:
  assumes "anchored root D fs" and "plain_below fs D xs" and "create_node n (root @ map Normal (xs @ [x])) fs = (r, fs')"
  shows "within D fs fs'"
    and "r = Ok () \<and> node_at fs (D @ xs @ [x]) = None \<and> is_directory fs (D @ xs) \<and> fs' = set_node (D @ xs @ [x]) (Some n) fs
      \<or> r \<noteq> Ok () \<and> fs' = fs"
proof -
  from assms(1) have wf: "fs_wf fs" by (simp add: anchored_def)
  have place: "place fs (root @ map Normal (xs @ [x])) = (if is_directory fs (D @ xs) then Some (D @ xs @ [x]) else None)"
    by (rule place_below [OF assms(1,2)])
  with assms(3) show cases: "r = Ok () \<and> node_at fs (D @ xs @ [x]) = None \<and> is_directory fs (D @ xs) \<and> fs' = set_node (D @ xs @ [x]) (Some n) fs
      \<or> r \<noteq> Ok () \<and> fs' = fs"
    by (auto simp: create_node_def os_error_def split: if_splits)
  have "strict_prefix D (D @ xs @ [x])" by (simp add: strict_prefix_def)
  with cases wf show "within D fs fs'"
    by (auto intro!: within_set_node within_refl simp: butlast_append)
qed

lemma create_dir_below:
  assumes "anchored root D fs" and "plain_below fs D xs" and "create_dir (root @ map Normal (xs @ [x])) fs = (r, fs')"
  shows "within D fs fs' \<and> adds_directories fs fs' \<and> (r = Ok () \<longrightarrow> is_directory fs' (D @ xs @ [x]))"
proof -
  have c: "create_node Directory (root @ map Normal (xs @ [x])) fs = (r, fs')" using assms(3) by (simp add: create_dir_def)
  have "adds_directories fs (set_node t (Some Directory) fs)" if "node_at fs t = None" "t \<noteq> []" for t
    using that by (auto simp: adds_directories_def node_at_set_node) (simp add: set_node_def)
  then show ?thesis
    using create_node_below [OF assms(1,2) c] by (auto simp: adds_refl node_at_set_node)
qed

lemma create_dir_all_anchor:
  assumes "anchored root D fs"
  shows "create_dir_all root fs = (Ok (), fs)"
proof (cases "root = []")
  case False
  from place_anchor [OF assms this] obtain r where r: "place fs root = Some r" "node_at fs r \<noteq> None" "resolve fs root = Some D"
    by blast
  then have "create_dir root fs = (os_error AlreadyExists, fs)" by (simp add: create_dir_def create_node_def)
  moreover have "path_is_dir fs root" using r(3) assms by (simp add: path_is_dir_def anchored_def)
  ultimately show ?thesis
    using False by (subst create_dir_all.simps) (simp add: os_error_def unless_dir_def)
qed (simp add: create_dir_all.simps)

lemma unless_dir_below:
  assumes "anchored root D fs" and "plain_below fs D xs" and "xs \<noteq> []" and "r \<noteq> Ok ()"
    and "unless_dir (root @ map Normal xs) r fs = (q, fs')"
  shows "fs' = fs \<and> (q = Ok () \<longrightarrow> is_directory fs (D @ xs))"
  using assms(4,5) resolve_below [OF assms(1,2,3)]
  by (auto simp: unless_dir_def path_is_dir_def split: if_splits)

lemma create_dir_all_below:
  assumes "anchored root D fs" and "plain_below fs D xs" and "create_dir_all (root @ map Normal xs) fs = (r, fs')"
  shows "within D fs fs' \<and> adds_directories fs fs' \<and> (r = Ok () \<longrightarrow> is_directory fs' (D @ xs))"
  using assms
proof (induction xs arbitrary: r fs' rule: rev_induct)
  case Nil
  then have "r = Ok ()" "fs' = fs" "fs_wf fs" "is_directory fs D"
    using create_dir_all_anchor [OF Nil(1)] by (simp_all add: anchored_def)
  then show ?case by (simp add: within_refl adds_refl)
next
  case (snoc x xs)
  let ?p = "root @ map Normal (xs @ [x])"
  note anchor = snoc.prems(1)
  have plain: "plain_below fs D xs" using plain_below_prefix [OF snoc.prems(2)] by simp
  have par: "parent ?p = Some (root @ map Normal xs)" "?p \<noteq> []" by (simp_all add: parent_def butlast_append)
  obtain r1 fs1 where c1: "create_dir ?p fs = (r1, fs1)" by fastforce
  note one = create_dir_below [OF anchor plain c1]
  have fs1: "r1 \<noteq> Ok () \<Longrightarrow> fs1 = fs"
    using create_node_below(2) [OF anchor plain, of Directory x r1 fs1] c1 by (auto simp: create_dir_def)
  consider "r1 = Ok ()" | t where "r1 = Err (IOError NotFound t)" | e where "r1 = Err e" "\<And>t. e \<noteq> IOError NotFound t" | "r1 = Panic"
    by (cases r1; metis (full_types) rust_error.exhaust unit.exhaust)
  then show ?case
  proof cases
    case 1
    with snoc.prems(3) c1 par one show ?thesis by (subst (asm) create_dir_all.simps) simp
  next
    case 2
    then have same: "fs1 = fs" using fs1 by simp
    obtain r2 fs2 where c2: "create_dir_all (root @ map Normal xs) fs = (r2, fs2)" by fastforce
    note two = snoc.IH [OF anchor plain c2]
    show ?thesis
    proof (cases "r2 = Ok ()")
      case False
      with snoc.prems(3) c1 c2 par 2 same have "r \<noteq> Ok ()" "fs' = fs2"
        by (subst (asm) create_dir_all.simps; cases r2; auto)+
      with two show ?thesis by simp
    next
      case True
      have anchor2: "anchored root D fs2" using anchored_within [OF anchor] two by blast
      have plain2: "plain_below fs2 D xs" "plain_below fs2 D (xs @ [x])"
        using plain_below_adds two plain snoc.prems(2) by blast+
      obtain r3 fs3 where c3: "create_dir ?p fs2 = (r3, fs3)" by fastforce
      note three = create_dir_below [OF anchor2 plain2(1) c3]
      have all: "within D fs fs3 \<and> adds_directories fs fs3" using two three within_trans adds_trans by blast
      show ?thesis
      proof (cases "r3 = Ok ()")
        case True': True
        with snoc.prems(3) c1 c2 c3 par 2 same True have "fs' = fs3"
          by (subst (asm) create_dir_all.simps) simp
        with all three True' show ?thesis by simp
      next
        case False
        then have "fs3 = fs2"
          using create_node_below(2) [OF anchor2 plain2(1), of Directory x r3 fs3] c3 by (auto simp: create_dir_def)
        moreover from snoc.prems(3) c1 c2 c3 par 2 same True False have "unless_dir ?p r3 fs3 = (r, fs')"
          by (subst (asm) create_dir_all.simps) (cases r3; simp)
        ultimately have "fs' = fs3 \<and> (r = Ok () \<longrightarrow> is_directory fs3 (D @ xs @ [x]))"
          using unless_dir_below [OF anchor2 plain2(2) _ False] by simp
        with all show ?thesis by simp
      qed
    qed
  next
    case 3
    then have same: "fs1 = fs" using fs1 by simp
    from snoc.prems(3) c1 par 3 have "unless_dir ?p (Err e) fs1 = (r, fs')"
      by (subst (asm) create_dir_all.simps) (auto split: rust_error.splits io_kind.splits)
    with same have "fs' = fs \<and> (r = Ok () \<longrightarrow> is_directory fs (D @ xs @ [x]))"
      using unless_dir_below [OF anchor snoc.prems(2), of "Err e"] by simp
    with anchor show ?thesis by (simp add: within_refl adds_refl anchored_def)
  next
    case 4
    with snoc.prems(3) c1 par have "r = Panic" "fs' = fs1" by (subst (asm) create_dir_all.simps; simp)+
    with one 4 show ?thesis by simp
  qed
qed

end
