(* ===== verification/Cli_Transfers.thy ===== *)
theory Cli_Transfers
  imports Cli_Requests Confined_Files
begin

text \<open>
  Transfers of whole trees in \<^verbatim>\<open>adb_cli/src/compat.rs\<close>: \<open>pull\<close>, \<open>push\<close> and \<open>sync\<close> over any device that can run a
  shell command and move one file. What is printed on the way is left out.
\<close>

section \<open>Devices\<close>

text \<open>
  The trait \<open>CompatTransferDevice\<close>: a shell command and its output; sending the file at a path; fetching
  a file, which yields what was written and whether it succeeded (and could be synced).
\<close>

record 'd transfer_device =
  td_shell :: "bytes \<Rightarrow> ('d, bytes) boxed_io"
  td_push :: "file_system \<Rightarrow> path \<Rightarrow> bytes \<Rightarrow> ('d, unit) boxed_io"
  td_pull :: "bytes \<Rightarrow> 'd \<Rightarrow> (bytes \<times> unit boxed) \<times> 'd"

record 'd transfer =
  tr_fs :: file_system
  tr_random :: "nat list"
  tr_device :: 'd

definition on_files :: "(file_system, 'a) io \<Rightarrow> ('d transfer, 'a) boxed_io" where
  "on_files m st = (case m (tr_fs st) of (r, fs) \<Rightarrow> (boxed r, st\<lparr>tr_fs := fs\<rparr>))"

definition on_remote :: "('d, 'a) boxed_io \<Rightarrow> ('d transfer, 'a) boxed_io" where
  "on_remote m st = (case m (tr_device st) of (r, d) \<Rightarrow> (r, st\<lparr>tr_device := d\<rparr>))"

section \<open>The manifest of a remote tree\<close>

record remote_entry =
  re_kind :: u8
  re_mode :: nat
  re_mtime :: int
  re_path :: bytes

definition FILE :: u8 where
  "FILE = 102"

definition DIR :: u8 where
  "DIR = 100"

definition LINK :: u8 where
  "LINK = 108"

fun splitn :: "nat \<Rightarrow> u8 \<Rightarrow> bytes \<Rightarrow> bytes list" where
  "splitn 0 c s = []"
| "splitn (Suc 0) c s = [s]"
| "splitn (Suc (Suc n)) c s = (case split_once [c] s of None \<Rightarrow> [s] | Some (a, b) \<Rightarrow> a # splitn (Suc n) c b)"

text \<open>A signed 64-bit integer.\<close>

definition parse_i64 :: "bytes \<Rightarrow> int option" where
  "parse_i64 s =
     (if s \<noteq> [] \<and> hd s = 45 then
        (if tl s = [] then None else map_option (\<lambda>n. - int n) (parse_digits 10 (2 ^ 63 + 1) 0 (tl s)))
      else map_option int (parse_uint 10 63 s))"

definition manifest_script :: "bytes \<Rightarrow> bytes" where
  "manifest_script source = ascii ''find '' @ shell_quote source
     @ ascii '' -print | while IFS= read -r p; do if [ -L '' @ [34] @ ascii ''$p'' @ [34]
     @ ascii '' ]; then k=l; elif [ -d '' @ [34] @ ascii ''$p'' @ [34] @ ascii '' ]; then k=d; elif [ -f ''
     @ [34] @ ascii ''$p'' @ [34] @ ascii '' ]; then k=f; else k=o; fi; mode=$(stat -c '' @ [39]
     @ ascii ''%a'' @ [39] @ ascii '' -- '' @ [34] @ ascii ''$p'' @ [34]
     @ ascii '') || exit; mtime=$(stat -c '' @ [39] @ ascii ''%Y'' @ [39] @ ascii '' -- '' @ [34]
     @ ascii ''$p'' @ [34] @ ascii '') || exit; printf '' @ [39] @ ascii ''%s'' @ [92] @ ascii ''t%s'' @ [92]
     @ ascii ''t%s'' @ [92] @ ascii ''t%s'' @ [92] @ ascii ''n'' @ [39] @ ascii '' '' @ [34] @ ascii ''$k''
     @ [34] @ ascii '' '' @ [34] @ ascii ''$mode'' @ [34] @ ascii '' '' @ [34] @ ascii ''$mtime'' @ [34]
     @ ascii '' '' @ [34] @ ascii ''$p'' @ [34] @ ascii ''; done''"

text \<open>A line of the manifest; entries that are neither files nor directories nor links are passed over.\<close>

definition manifest_line :: "bytes \<Rightarrow> remote_entry option boxed" where
  "manifest_line line =
     (case splitn 4 TAB line of
        [kind, mode, mtime, path] \<Rightarrow>
          if kind = [] then failure ''missing remote file type''
          else if hd kind \<notin> {FILE, DIR, LINK} then Ok None
          else bind_outcome (validate_transfer_path path) (\<lambda>_.
               bind_outcome (ok_or [] (parse_uint 8 32 mode)) (\<lambda>mode.
               bind_outcome (ok_or [] (parse_i64 mtime)) (\<lambda>mtime.
               Ok (Some \<lparr>re_kind = hd kind, re_mode = mode, re_mtime = mtime, re_path = path\<rparr>))))
      | _ \<Rightarrow> failure ''invalid remote file manifest'')"

fun manifest_lines :: "bytes list \<Rightarrow> remote_entry list boxed" where
  "manifest_lines [] = Ok []"
| "manifest_lines (l # ls) =
     bind_outcome (manifest_line l) (\<lambda>e.
     bind_outcome (manifest_lines ls) (\<lambda>es. Ok (case e of None \<Rightarrow> es | Some e \<Rightarrow> e # es)))"

definition utf8_text :: "bytes \<Rightarrow> bytes boxed" where
  "utf8_text bs = (if utf8_valid bs then Ok bs else Err (error_text Utf8FromBytesError))"

definition remote_manifest :: "'d transfer_device \<Rightarrow> bytes \<Rightarrow> ('d, remote_entry list) boxed_io" where
  "remote_manifest td source =
     bind_boxed (boxed_value (validate_transfer_path source)) (\<lambda>_.
     bind_boxed (td_shell td (manifest_script source)) (\<lambda>out.
     bind_boxed (boxed_value (utf8_text out)) (\<lambda>text.
     bind_boxed (boxed_value (manifest_lines (str_lines text))) (\<lambda>entries.
       boxed_value (if entries = [] then Err (ascii ''remote path does not exist: '' @ source) else Ok entries)))))"

section \<open>Where an entry goes\<close>

definition safe_relative_remote_path :: "bytes \<Rightarrow> bytes \<Rightarrow> path boxed" where
  "safe_relative_remote_path source path =
     bind_outcome (ok_or (ascii ''prefix not found'') (strip_path (components source) (components path))) (\<lambda>relative.
       if Parent_Dir \<in> set relative \<or> Root_Dir \<in> set relative then failure ''unsafe remote path''
       else Ok relative)"

function ancestors :: "path \<Rightarrow> path list" where
  "ancestors p = p # (case parent p of None \<Rightarrow> [] | Some q \<Rightarrow> ancestors q)"
  by pat_completeness auto
termination by (relation "measure length") (auto simp: parent_def split: if_splits)

declare ancestors.simps [simp del]

definition is_symlink :: "node option \<Rightarrow> bool" where
  "is_symlink n \<longleftrightarrow> (case n of Some (Symlink _) \<Rightarrow> True | _ \<Rightarrow> False)"

fun check_ancestors :: "path \<Rightarrow> path list \<Rightarrow> file_system \<Rightarrow> unit boxed" where
  "check_ancestors root [] fs = Ok ()"
| "check_ancestors root (a # as) fs =
     (if strip_path root a = None then Ok ()
      else if is_symlink (symlink_metadata fs a) then Err (ascii ''refusing to traverse download symlink: '' @ path_text a)
      else check_ancestors root as fs)"

definition check_pull_ancestors :: "path \<Rightarrow> path \<Rightarrow> bool \<Rightarrow> file_system \<Rightarrow> unit boxed" where
  "check_pull_ancestors root near directory fs =
     check_ancestors root (ancestors (if directory then near else case parent near of None \<Rightarrow> root | Some q \<Rightarrow> q)) fs"

text \<open>A name for the file while it is being fetched, of 32 random hexadecimal digits.\<close>

definition temporary_name :: "nat \<Rightarrow> bytes" where
  "temporary_name n = ascii ''.androconnect-'' @ show_hex 32 n @ ascii ''.partial''"

fun create_temporary :: "path \<Rightarrow> nat list \<Rightarrow> file_system \<Rightarrow> path boxed \<times> nat list \<times> file_system" where
  "create_temporary near [] fs = (failure ''no randomness'', [], fs)"
| "create_temporary near (n # ns) fs =
     (let p = with_file_name near (temporary_name n)
      in case create_node (Regular []) p fs of
           (Ok _, fs') \<Rightarrow> (Ok p, ns, fs')
         | (Err (IOError AlreadyExists t), fs') \<Rightarrow> create_temporary near ns fs'
         | (Err e, fs') \<Rightarrow> (Err (error_text e), ns, fs')
         | (Panic, fs') \<Rightarrow> (Panic, ns, fs'))"

definition create_pull_temporary :: "path \<Rightarrow> ('d transfer, path) boxed_io" where
  "create_pull_temporary near st =
     (case create_temporary near (tr_random st) (tr_fs st) of
        (r, ns, fs) \<Rightarrow> (r, st\<lparr>tr_random := ns, tr_fs := fs\<rparr>))"

definition apply_local_metadata :: "path \<Rightarrow> remote_entry \<Rightarrow> (file_system, unit) io" where
  "apply_local_metadata p e = touch p (re_mode e mod 4096) (max 0 (re_mtime e))"

definition create_parent :: "path \<Rightarrow> (file_system, unit) io" where
  "create_parent near = (case parent near of None \<Rightarrow> lift (Ok ()) | Some q \<Rightarrow> create_dir_all q)"

section \<open>Fetching one entry\<close>

definition pull_link :: "'d transfer_device \<Rightarrow> bytes \<Rightarrow> path \<Rightarrow> ('d transfer, unit) boxed_io" where
  "pull_link td path near =
     bind_boxed (on_files (create_parent near)) (\<lambda>_.
     bind_boxed (on_remote (td_shell td (ascii ''readlink -- '' @ shell_quote path))) (\<lambda>out.
     bind_boxed (boxed_value (utf8_text out)) (\<lambda>target.
     bind_boxed (\<lambda>st. if symlink_metadata (tr_fs st) near \<noteq> None then on_files (remove_file near) st else (Ok (), st)) (\<lambda>_.
       on_files (make_symlink (trim_end_space target) near)))))"

text \<open>
  A file is fetched under a temporary name and takes its place only when it is complete; whatever
  happens, the temporary file does not stay.
\<close>

definition fetch_file :: "'d transfer_device \<Rightarrow> bytes \<Rightarrow> path \<Rightarrow> path \<Rightarrow> ('d transfer, unit) boxed_io" where
  "fetch_file td path temporary near st =
     (case td_pull td path (tr_device st) of
        ((bs, r), d) \<Rightarrow>
          let st = st\<lparr>tr_device := d, tr_fs := write_file temporary bs (tr_fs st)\<rparr>
          in case bind_boxed (boxed_value r) (\<lambda>_. on_files (rename_file temporary near)) st of
               (Panic, st) \<Rightarrow> (Panic, st)
             | (r, st) \<Rightarrow> (r, snd (on_files (ignore (remove_file temporary)) st)))"

definition pull_regular :: "'d transfer_device \<Rightarrow> bool \<Rightarrow> remote_entry \<Rightarrow> path \<Rightarrow> ('d transfer, unit) boxed_io" where
  "pull_regular td archive e near =
     bind_boxed (on_files (create_parent near)) (\<lambda>_.
     bind_boxed (create_pull_temporary near) (\<lambda>temporary.
     bind_boxed (fetch_file td (re_path e) temporary near) (\<lambda>_.
       if archive then on_files (apply_local_metadata near e) else boxed_value (Ok ()))))"

definition pull_kind :: "'d transfer_device \<Rightarrow> bool \<Rightarrow> remote_entry \<Rightarrow> path \<Rightarrow> ('d transfer, unit) boxed_io" where
  "pull_kind td archive e near =
     (if re_kind e = DIR then on_files (create_dir_all near)
      else if re_kind e = LINK then pull_link td (re_path e) near
      else if re_kind e = FILE then pull_regular td archive e near
      else boxed_value (Ok ()))"

text \<open>\<open>home\<close> is the directory that must not be left.\<close>

definition pull_entry ::
    "'d transfer_device \<Rightarrow> bool \<Rightarrow> (file_system \<Rightarrow> path) \<Rightarrow> bytes \<Rightarrow> path \<Rightarrow> remote_entry \<Rightarrow> ('d transfer, path) boxed_io" where
  "pull_entry td archive home source local_root e =
     bind_boxed (boxed_value (safe_relative_remote_path source (re_path e))) (\<lambda>relative.
       let near = (if relative = [] then local_root else join_path local_root relative)
       in bind_boxed (\<lambda>st. (check_pull_ancestors (home (tr_fs st)) near (re_kind e = DIR) (tr_fs st), st)) (\<lambda>_.
          bind_boxed (pull_kind td archive e near) (\<lambda>_. boxed_value (Ok near))))"

fun pull_entries ::
    "'d transfer_device \<Rightarrow> bool \<Rightarrow> (file_system \<Rightarrow> path) \<Rightarrow> bytes \<Rightarrow> path \<Rightarrow> remote_entry list \<Rightarrow> (path \<times> remote_entry) list
      \<Rightarrow> ('d transfer, (path \<times> remote_entry) list) boxed_io" where
  "pull_entries td archive home source local_root [] dirs = boxed_value (Ok dirs)"
| "pull_entries td archive home source local_root (e # es) dirs =
     bind_boxed (pull_entry td archive home source local_root e) (\<lambda>near.
       pull_entries td archive home source local_root es (if re_kind e = DIR then (near, e) # dirs else dirs))"

text \<open>The metadata of the directories, the last one first.\<close>

fun restore_directories :: "(path \<times> remote_entry) list \<Rightarrow> ('d transfer, unit) boxed_io" where
  "restore_directories [] = boxed_value (Ok ())"
| "restore_directories ((p, e) # dirs) = bind_boxed (on_files (apply_local_metadata p e)) (\<lambda>_. restore_directories dirs)"

section \<open>Pull\<close>

definition pull_home :: "bool \<Rightarrow> path \<Rightarrow> file_system \<Rightarrow> path" where
  "pull_home into dest fs =
     (if into \<or> path_is_dir fs dest then dest else case parent dest of None \<Rightarrow> [Cur_Dir] | Some q \<Rightarrow> q)"

definition pull_source :: "'d transfer_device \<Rightarrow> bool \<Rightarrow> bool \<Rightarrow> path \<Rightarrow> bytes \<Rightarrow> ('d transfer, unit) boxed_io" where
  "pull_source td archive multi dest source =
     bind_boxed (on_remote (remote_manifest td source)) (\<lambda>entries.
       let root_is_directory = (re_kind (hd entries) = DIR)
       in bind_boxed (boxed_value (ok_or (ascii ''invalid remote path'') (file_name (components source)))) (\<lambda>base.
            let local_root = (if multi \<or> root_is_directory then join_path dest [Normal base] else dest)
            in bind_boxed (pull_entries td archive (pull_home (multi \<or> root_is_directory) dest) source local_root entries []) (\<lambda>dirs.
                 if archive then restore_directories dirs else boxed_value (Ok ()))))"

fun pull_sources :: "'d transfer_device \<Rightarrow> bool \<Rightarrow> bool \<Rightarrow> path \<Rightarrow> bytes list \<Rightarrow> ('d transfer, unit) boxed_io" where
  "pull_sources td archive multi dest [] = boxed_value (Ok ())"
| "pull_sources td archive multi dest (s # ss) =
     bind_boxed (pull_source td archive multi dest s) (\<lambda>_. pull_sources td archive multi dest ss)"

definition pull_compatible :: "'d transfer_device \<Rightarrow> transfer_options \<Rightarrow> bytes list \<Rightarrow> ('d transfer, unit) boxed_io" where
  "pull_compatible td options paths st =
     (if length paths < 2 then (failure ''pull requires at least one source and a destination'', st)
      else let dest = components (last paths);
               multi = (2 < length paths \<or> path_is_dir (tr_fs st) dest)
           in bind_boxed (if multi then on_files (create_dir_all dest) else boxed_value (Ok ()))
                (\<lambda>_. pull_sources td (to_archive options) multi dest (butlast paths)) st)"

end
