(* ===== verification/Pull_Entries.thy ===== *)
theory Pull_Entries
  imports Cli_Transfers
begin

text \<open>
  One entry of a pull: the check of the directories it goes through leaves no symbolic link on the
  way, and then every step of fetching a directory, a link or a file changes nothing outside.
\<close>

section \<open>Relative paths\<close>

lemma body_normal: "c \<in> set (body s) \<Longrightarrow> c \<noteq> Cur_Dir \<and> c \<noteq> Root_Dir"
  by (auto simp: body_def component_of_def)

lemma tl_subset: "set (tl xs) \<subseteq> set xs"
  by (cases xs) auto

lemma tl_components: "c \<in> set (tl (components s)) \<Longrightarrow> c \<noteq> Cur_Dir \<and> c \<noteq> Root_Dir"
  using body_normal [of c s] tl_subset [of "body s"] by (auto simp: components_def split: if_splits)

definition names_of :: "path \<Rightarrow> bytes list" where
  "names_of p = map component_text p"

lemma map_Normal_names:
  "Cur_Dir \<notin> set p \<Longrightarrow> Root_Dir \<notin> set p \<Longrightarrow> Parent_Dir \<notin> set p \<Longrightarrow> p = map Normal (names_of p)"
proof (induction p)
  case (Cons c p)
  then show ?case by (cases c) (auto simp: names_of_def)
qed (simp add: names_of_def)

lemma safe_relative_names:
  assumes "safe_relative_remote_path source path = Ok relative" and "components source \<noteq> []"
  obtains names where "relative = map Normal names"
proof -
  from assms(1) have strip: "components path = components source @ relative"
    and safe: "Parent_Dir \<notin> set relative" "Root_Dir \<notin> set relative"
    by (auto simp: safe_relative_remote_path_def strip_path_Some failure_def
        split: if_splits elim!: bind_outcome.elims ok_or.elims)
  have "Cur_Dir \<notin> set relative"
    using tl_components [of Cur_Dir path] strip assms(2) by (cases "components source") auto
  with safe map_Normal_names that show thesis by metis
qed

section \<open>Ancestors\<close>

lemma ancestors_snoc: "ancestors (root @ map Normal (xs @ [x])) = (root @ map Normal (xs @ [x])) # ancestors (root @ map Normal xs)"
  by (subst ancestors.simps) (simp add: parent_def butlast_append)

lemma plain_below_snoc:
  "plain_below fs D (xs @ [x]) \<longleftrightarrow> plain_below fs D xs \<and> (\<forall>t. node_at fs (D @ xs @ [x]) \<noteq> Some (Symlink t))"
  by (auto simp: plain_below_def)

lemma plain_below_step:
  assumes "anchored root D fs" and "plain_below fs D xs"
    and "\<not> is_symlink (symlink_metadata fs (root @ map Normal (xs @ [x])))"
  shows "plain_below fs D (xs @ [x])"
proof -
  have "node_at fs (D @ xs @ [x]) \<noteq> Some (Symlink t)" for t
  proof (cases "is_directory fs (D @ xs)")
    case True
    then have "symlink_metadata fs (root @ map Normal (xs @ [x])) = node_at fs (D @ xs @ [x])"
      using place_below [OF assms(1,2), of x] by (simp add: symlink_metadata_def)
    with assms(3) show ?thesis by (auto simp: is_symlink_def)
  next
    case False
    then have "node_at fs ((D @ xs) @ [x]) = None"
      using assms(1) unfolding anchored_def fs_wf_def by blast
    then show ?thesis by simp
  qed
  with assms(2) show ?thesis by (simp add: plain_below_snoc)
qed

text \<open>The check starts at the entry and ends at the directory given, \<open>zs\<close> below the anchor, that one included.\<close>

lemma check_ancestors_plain:
  assumes "anchored root D fs" and "plain_below fs D (butlast zs)"
    and "check_ancestors (root @ map Normal zs) (ancestors (root @ map Normal (zs @ xs))) fs = Ok ()"
  shows "plain_below fs D (zs @ xs)"
  using assms(3)
proof (induction xs rule: rev_induct)
  case Nil
  show ?case
  proof (cases zs rule: rev_cases)
    case (snoc us u)
    have "strip_path (root @ map Normal zs) (root @ map Normal zs) \<noteq> None"
      using strip_path_Some [of "root @ map Normal zs" _ "[]"] by auto
    then have "\<not> is_symlink (symlink_metadata fs (root @ map Normal zs))"
      using Nil by (subst (asm) ancestors.simps) (auto split: if_splits)
    with plain_below_step [OF assms(1), of us u] assms(2) snoc show ?thesis by simp
  qed (simp add: plain_below_def)
next
  case (snoc x xs)
  let ?p = "root @ map Normal (zs @ xs @ [x])"
  have "strip_path (root @ map Normal zs) ?p \<noteq> None"
    using strip_path_Some [of "root @ map Normal zs" ?p "map Normal (xs @ [x])"] by auto
  then have "\<not> is_symlink (symlink_metadata fs ?p)"
    and "check_ancestors (root @ map Normal zs) (ancestors (root @ map Normal (zs @ xs))) fs = Ok ()"
    using snoc.prems ancestors_snoc [of root "zs @ xs" x] by (auto split: if_splits)
  with plain_below_step [OF assms(1), of "zs @ xs" x] snoc.IH show ?case by simp
qed

lemma check_pull_plain:
  assumes "anchored root D fs" and "check_pull_ancestors (root @ map Normal zs) (root @ map Normal (zs @ xs)) directory fs = Ok ()"
    and "zs @ xs \<noteq> []" and "length zs \<le> 1"
  shows "plain_below fs D (if directory then zs @ xs else butlast (zs @ xs))"
proof -
  have up: "parent (root @ map Normal (zs @ xs)) = Some (root @ map Normal (butlast (zs @ xs)))"
    using assms(3) by (auto simp: parent_def last_append last_map butlast_append map_butlast split: if_splits)
  have top: "plain_below fs D (butlast zs)" using assms(4) by (cases zs) (auto simp: plain_below_def)
  show ?thesis
  proof (cases "directory")
    case True
    with assms(2) check_ancestors_plain [OF assms(1) top] show ?thesis by (simp add: check_pull_ancestors_def)
  next
    case False
    show ?thesis
    proof (cases "xs = []")
      case True
      with False top show ?thesis by simp
    next
      case xs: False
      with False up assms(2) check_ancestors_plain [OF assms(1) top, of "butlast xs"] show ?thesis
        by (simp add: check_pull_ancestors_def butlast_append)
    qed
  qed
qed

section \<open>Operations on entries\<close>

lemma place_parent:
  assumes "anchored root D fs" and "plain_below fs D xs" and "place fs (root @ map Normal (xs @ [x])) = Some r"
  shows "r = D @ xs @ [x] \<and> is_directory fs (D @ xs)"
  using place_below [OF assms(1,2), of x] assms(3) by (auto split: if_splits)

lemma remove_file_below:
  assumes "anchored root D fs" and "plain_below fs D xs" and "remove_file (root @ map Normal (xs @ [x])) fs = (r, fs')"
  shows "within D fs fs'" and "\<forall>t. t \<noteq> D @ xs @ [x] \<longrightarrow> node_at fs' t = node_at fs t"
proof -
  have wf: "fs_wf fs" using assms(1) by (simp add: anchored_def)
  have "within D fs fs' \<and> (\<forall>t. t \<noteq> D @ xs @ [x] \<longrightarrow> node_at fs' t = node_at fs t)"
  proof (cases "place fs (root @ map Normal (xs @ [x]))")
    case None
    with assms(3) wf show ?thesis by (auto simp: remove_file_def within_refl)
  next
    case (Some p)
    have sp: "strict_prefix D (D @ xs @ [x])" by (simp add: strict_prefix_def)
    note p = place_parent [OF assms(1,2) Some]
    with Some assms(3) wf sp show ?thesis
      by (auto simp: remove_file_def node_at_set_node intro!: within_refl within_set_node split: if_splits)
  qed
  then show "within D fs fs'" "\<forall>t. t \<noteq> D @ xs @ [x] \<longrightarrow> node_at fs' t = node_at fs t" by blast+
qed

lemma remove_file_node: "remove_file p fs = (r, fs') \<Longrightarrow> node_at fs' t = node_at fs t \<or> node_at fs' t = None"
  by (auto simp: remove_file_def node_at_def set_node_def split: option.splits if_splits)

lemma plain_below_same:
  assumes "plain_below fs D xs" and "\<forall>t. t \<noteq> D @ xs @ [x] \<longrightarrow> node_at fs' t = node_at fs t"
  shows "plain_below fs' D xs"
  unfolding plain_below_def
proof (intro allI impI)
  fix ys t
  assume ys: "prefix ys xs \<and> ys \<noteq> []"
  then have "D @ ys \<noteq> D @ xs @ [x]" using prefix_length_le [of ys xs] by auto
  with assms ys show "node_at fs' (D @ ys) \<noteq> Some (Symlink t)" by (auto simp: plain_below_def)
qed

lemma write_file_below:
  assumes "anchored root D fs" and "plain_below fs D xs"
  shows "within D fs (write_file (root @ map Normal (xs @ [x])) bs fs)"
    and "t \<noteq> D @ xs @ [x] \<Longrightarrow> node_at (write_file (root @ map Normal (xs @ [x])) bs fs) t = node_at fs t"
proof -
  have wf: "fs_wf fs" using assms(1) by (simp add: anchored_def)
  have sp: "strict_prefix D (D @ xs @ [x])" by (simp add: strict_prefix_def)
  show "within D fs (write_file (root @ map Normal (xs @ [x])) bs fs)"
    using place_parent [OF assms, of x] wf sp
    by (auto simp: write_file_def butlast_append intro!: within_refl within_set_node split: option.splits node.splits)
  show "t \<noteq> D @ xs @ [x] \<Longrightarrow> node_at (write_file (root @ map Normal (xs @ [x])) bs fs) t = node_at fs t"
    using place_parent [OF assms, of x]
    by (auto simp: write_file_def node_at_set_node split: option.splits node.splits)
qed

lemma rename_file_below:
  assumes "anchored root D fs" and "plain_below fs D xs"
    and "rename_file (root @ map Normal (xs @ [y])) (root @ map Normal (xs @ [x])) fs = (r, fs')"
  shows "within D fs fs'" and "\<forall>t. t \<noteq> D @ xs @ [x] \<and> t \<noteq> D @ xs @ [y] \<longrightarrow> node_at fs' t = node_at fs t"
    and "r = Ok () \<Longrightarrow> \<exists>bs. node_at fs (D @ xs @ [y]) = Some (Regular bs) \<and> node_at fs' (D @ xs @ [x]) = Some (Regular bs)"
proof -
  have wf: "fs_wf fs" using assms(1) by (simp add: anchored_def)
  let ?s = "D @ xs @ [y]" and ?t = "D @ xs @ [x]"
  have sp: "strict_prefix D ?s" "strict_prefix D ?t" "?s \<noteq> []" "?t \<noteq> []" by (simp_all add: strict_prefix_def)
  consider "r \<noteq> Ok ()" "fs' = fs"
    | bs where "r = Ok ()" "is_directory fs (D @ xs)" "node_at fs ?s = Some (Regular bs)" "\<not> is_directory fs ?t"
        "fs' = set_node ?t (Some (Regular bs)) (if x = y then fs else set_node ?s None fs)"
  proof (cases "is_directory fs (D @ xs) \<and> (\<exists>bs. node_at fs ?s = Some (Regular bs)) \<and> \<not> is_directory fs ?t \<and> \<not> fs_denied fs ?t")
    case True
    then obtain bs where bs: "node_at fs ?s = Some (Regular bs)" by blast
    have "place fs (root @ map Normal (xs @ [y])) = Some ?s" "place fs (root @ map Normal (xs @ [x])) = Some ?t"
      using place_below [OF assms(1,2)] True by simp_all
    with True bs assms(3) have "r = Ok ()" "fs' = set_node ?t (Some (Regular bs)) (if x = y then fs else set_node ?s None fs)"
      unfolding rename_file_def by simp_all
    with True bs that(2) show ?thesis by blast
  next
    case False
    have "place fs (root @ map Normal (xs @ [z])) = (if is_directory fs (D @ xs) then Some (D @ xs @ [z]) else None)" for z
      by (rule place_below [OF assms(1,2)])
    with False assms(3) have "r \<noteq> Ok () \<and> fs' = fs"
      unfolding rename_file_def os_error_def
      by (cases "is_directory fs (D @ xs)"; cases "node_at fs ?s"; auto split: node.splits if_splits)
    with that(1) show ?thesis by blast
  qed
  then have "within D fs fs' \<and> (\<forall>t. t \<noteq> ?t \<and> t \<noteq> ?s \<longrightarrow> node_at fs' t = node_at fs t)
      \<and> (r = Ok () \<longrightarrow> (\<exists>bs. node_at fs ?s = Some (Regular bs) \<and> node_at fs' ?t = Some (Regular bs)))"
  proof cases
    case 1
    with wf show ?thesis by (simp add: within_refl)
  next
    case 2
    let ?f = "if x = y then fs else set_node ?s None fs"
    have "within D fs ?f" using wf sp 2(3) by (auto intro!: within_refl within_set_node)
    moreover have "within D ?f fs'"
      unfolding 2(5)
    proof (rule within_set_node)
      show "fs_wf ?f" using calculation by (simp add: within_def kept_sound_def)
      show "\<not> is_directory ?f ?t" using 2(4) sp by (cases "x = y") (auto simp: node_at_set_node)
      show "is_directory ?f (butlast ?t)" using 2(2) sp by (simp add: butlast_append node_at_set_node)
    qed (rule sp(2))
    ultimately have "within D fs fs'" by (rule within_trans)
    with 2 sp show ?thesis by (auto simp: node_at_set_node)
  qed
  then show "within D fs fs'" "\<forall>t. t \<noteq> ?t \<and> t \<noteq> ?s \<longrightarrow> node_at fs' t = node_at fs t"
    "r = Ok () \<Longrightarrow> \<exists>bs. node_at fs ?s = Some (Regular bs) \<and> node_at fs' ?t = Some (Regular bs)" by blast+
qed

lemma touch_below:
  assumes "anchored root D fs" and "plain_below fs D xs" and "xs \<noteq> []" and "touch (root @ map Normal xs) mode mtime fs = (r, fs')"
  shows "within D fs fs'" and "node_at fs' = node_at fs"
  using assms(4) resolve_below [OF assms(1-3)] assms(1)
  by (auto simp: touch_def within_def same_outside_def touched_within_def kept_sound_def anchored_def fs_wf_def node_at_def fun_eq_iff
      split: if_splits)

lemma create_temporary_below:
  assumes "anchored root D fs" and "plain_below fs D xs"
    and "create_temporary (root @ map Normal (xs @ [x])) ns fs = (r, ns', fs')"
  shows "within D fs fs' \<and> plain_below fs' D xs
    \<and> (\<forall>p. r = Ok p \<longrightarrow> (\<exists>y. p = root @ map Normal (xs @ [y]) \<and> node_at fs (D @ xs @ [y]) = None
        \<and> fs' = set_node (D @ xs @ [y]) (Some (Regular [])) fs))
    \<and> ((\<forall>p. r \<noteq> Ok p) \<longrightarrow> fs' = fs)"
  using assms(3)
proof (induction ns arbitrary: r ns' fs')
  case Nil
  with assms show ?case by (auto simp: anchored_def within_refl failure_def)
next
  case (Cons n ns)
  let ?y = "temporary_name n"
  have wf: "fs_wf fs" using assms(1) by (simp add: anchored_def)
  have name: "with_file_name (root @ map Normal (xs @ [x])) ?y = root @ map Normal (xs @ [?y])"
    by (simp add: with_file_name_def file_name_def butlast_append)
  obtain q fs1 where q: "create_node (Regular []) (root @ map Normal (xs @ [?y])) fs = (q, fs1)" by fastforce
  note made = create_node_below [OF assms(1,2) q]
  show ?case
  proof (cases "q = Ok ()")
    case True
    with Cons.prems q name have "r = Ok (root @ map Normal (xs @ [?y]))" "fs' = fs1" by (simp_all add: Let_def)
    moreover have "plain_below fs1 D xs"
      using made(2) True plain_below_same [OF assms(2), of ?y fs1] by (simp add: node_at_set_node)
    ultimately show ?thesis using made True by auto
  next
    case False
    with made(2) have same: "fs1 = fs" by auto
    consider t where "q = Err (IOError AlreadyExists t)" | e where "q = Err e" "\<And>t. e \<noteq> IOError AlreadyExists t" | "q = Panic"
      using False by (cases q; metis unit.exhaust)
    then show ?thesis
    proof cases
      case 1
      with Cons.prems q name same have "create_temporary (root @ map Normal (xs @ [x])) ns fs = (r, ns', fs')" by (simp add: Let_def)
      from Cons.IH [OF this] show ?thesis .
    next
      case 2
      with Cons.prems q name same have "r = Err (error_text e)" "fs' = fs"
        by (auto simp: Let_def split: rust_error.splits io_kind.splits)
      with wf assms(2) show ?thesis by (simp add: within_refl)
    next
      case 3
      with Cons.prems q name same have "r = Panic" "fs' = fs" by (simp_all add: Let_def)
      with wf assms(2) show ?thesis by (simp add: within_refl)
    qed
  qed
qed

section \<open>One entry\<close>

lemma create_parent_below:
  assumes "anchored root D fs" and "plain_below fs D xs" and "create_parent (root @ map Normal (xs @ [x])) fs = (r, fs')"
  shows "within D fs fs'" and "plain_below fs' D xs" and "anchored root D fs'"
proof -
  have "create_dir_all (root @ map Normal xs) fs = (r, fs')"
    using assms(3) by (simp add: create_parent_def parent_def butlast_append)
  from create_dir_all_below [OF assms(1,2) this] show w: "within D fs fs'" and "plain_below fs' D xs"
    using plain_below_adds [OF assms(2)] by blast+
  from anchored_within [OF assms(1) w] show "anchored root D fs'" .
qed

text \<open>What a step of a pull may do to the files: nothing outside of \<open>D\<close>.\<close>

definition stays :: "real \<Rightarrow> 'd transfer \<Rightarrow> 'd transfer \<Rightarrow> bool" where
  "stays D st st' \<longleftrightarrow> within D (tr_fs st) (tr_fs st')"

lemma stays_trans: "stays D st st1 \<Longrightarrow> stays D st1 st2 \<Longrightarrow> stays D st st2"
  unfolding stays_def by (rule within_trans)

text \<open>A step that stays within \<open>D\<close>, from states with \<open>P\<close>, and where it succeeds establishes \<open>Q\<close>.\<close>

definition confined ::
    "real \<Rightarrow> ('d transfer \<Rightarrow> bool) \<Rightarrow> ('d transfer, 'a) boxed_io \<Rightarrow> ('a \<Rightarrow> 'd transfer \<Rightarrow> bool) \<Rightarrow> bool" where
  "confined D P m Q \<longleftrightarrow>
     (\<forall>st r st'. P st \<longrightarrow> m st = (r, st') \<longrightarrow> stays D st st' \<and> (\<forall>a. r = Ok a \<longrightarrow> Q a st'))"

lemma confinedI:
  "(\<And>st r st'. P st \<Longrightarrow> m st = (r, st') \<Longrightarrow> stays D st st' \<and> (\<forall>a. r = Ok a \<longrightarrow> Q a st')) \<Longrightarrow> confined D P m Q"
  by (simp add: confined_def)

lemma confinedD:
  "confined D P m Q \<Longrightarrow> P st \<Longrightarrow> m st = (r, st') \<Longrightarrow> stays D st st' \<and> (\<forall>a. r = Ok a \<longrightarrow> Q a st')"
  by (simp add: confined_def)

lemma confined_bind:
  assumes "confined D P m Q" and "\<And>a. confined D (Q a) (f a) R"
  shows "confined D P (bind_boxed m f) R"
proof (rule confinedI)
  fix st r st'
  assume P: "P st" and run: "bind_boxed m f st = (r, st')"
  obtain q st1 where q: "m st = (q, st1)" by fastforce
  from confinedD [OF assms(1) P q] have one: "stays D st st1" "\<And>a. q = Ok a \<Longrightarrow> Q a st1" by blast+
  show "stays D st st' \<and> (\<forall>a. r = Ok a \<longrightarrow> R a st')"
  proof (cases q)
    case (Ok a)
    with run q have "f a st1 = (r, st')" by (simp add: bind_boxed_def)
    from confinedD [OF assms(2) one(2) [OF Ok] this] one(1) stays_trans show ?thesis by blast
  qed (use run q one(1) in \<open>auto simp: bind_boxed_def\<close>)
qed

lemma confined_weaken:
  "confined D P m Q \<Longrightarrow> (\<And>st. P' st \<Longrightarrow> P st) \<Longrightarrow> (\<And>a st. Q a st \<Longrightarrow> Q' a st) \<Longrightarrow> confined D P' m Q'"
  unfolding confined_def by blast

lemma boxed_Ok: "boxed q = Ok a \<longleftrightarrow> q = Ok a"
  by (cases q) (auto simp: boxed_def)

lemma confined_files:
  assumes "\<And>fs r fs'. P fs \<Longrightarrow> m fs = (r, fs') \<Longrightarrow> within D fs fs' \<and> (\<forall>a. r = Ok a \<longrightarrow> Q a fs')"
  shows "confined D (\<lambda>st. P (tr_fs st)) (on_files m) (\<lambda>a st. Q a (tr_fs st))"
  using assms by (auto simp: confined_def on_files_def stays_def boxed_Ok split: prod.splits)

text \<open>Steps that do not touch the files.\<close>

definition sound_fs :: "'d transfer \<Rightarrow> bool" where
  "sound_fs st \<longleftrightarrow> fs_wf (tr_fs st)"

lemma confined_value: "(\<And>st. P st \<Longrightarrow> sound_fs st) \<Longrightarrow> confined D P (boxed_value r) (\<lambda>a st. P st \<and> r = Ok a)"
  by (auto simp: confined_def stays_def sound_fs_def within_refl)

lemma confined_pure: "(\<And>st. P st \<Longrightarrow> sound_fs st) \<Longrightarrow> confined D P (boxed_value r) (\<lambda>_. P)"
  by (auto simp: confined_def stays_def sound_fs_def within_refl)

lemma confined_remote:
  "(\<And>fs. P fs \<Longrightarrow> fs_wf fs) \<Longrightarrow> confined D (\<lambda>st. P (tr_fs st)) (on_remote m) (\<lambda>a st. P (tr_fs st))"
  by (auto simp: confined_def on_remote_def stays_def within_refl split: prod.splits)

definition ready :: "path \<Rightarrow> real \<Rightarrow> bytes list \<Rightarrow> file_system \<Rightarrow> bool" where
  "ready root D xs fs \<longleftrightarrow> anchored root D fs \<and> plain_below fs D xs"

lemma ready_wf: "ready root D xs fs \<Longrightarrow> fs_wf fs"
  by (simp add: ready_def anchored_def)

lemma confined_parent:
  "confined D (\<lambda>st. ready root D xs (tr_fs st)) (on_files (create_parent (root @ map Normal (xs @ [x]))))
     (\<lambda>_ st. ready root D xs (tr_fs st))"
  by (rule confined_files) (auto simp: ready_def dest: create_parent_below)

lemma confined_make_symlink:
  "confined D (\<lambda>st. ready root D xs (tr_fs st)) (on_files (make_symlink target (root @ map Normal (xs @ [x]))))
     (\<lambda>_ st. anchored root D (tr_fs st))"
proof (rule confined_files)
  fix fs r fs'
  assume ready: "ready root D xs fs" and run: "make_symlink target (root @ map Normal (xs @ [x])) fs = (r, fs')"
  have "within D fs fs'"
  proof (cases "target = []")
    case True
    with run ready_wf [OF ready] show ?thesis by (auto simp: make_symlink_def lift_def within_refl)
  next
    case False
    with run have "create_node (Symlink target) (root @ map Normal (xs @ [x])) fs = (r, fs')" by (simp add: make_symlink_def)
    with ready create_node_below(1) show ?thesis unfolding ready_def by blast
  qed
  with ready anchored_within show "within D fs fs' \<and> (\<forall>a. r = Ok a \<longrightarrow> anchored root D fs')"
    unfolding ready_def by blast
qed

lemma confined_remove:
  "confined D (\<lambda>st. ready root D xs (tr_fs st)) (on_files (remove_file (root @ map Normal (xs @ [x]))))
     (\<lambda>_ st. ready root D xs (tr_fs st))"
proof (rule confined_files)
  fix fs r fs'
  assume "ready root D xs fs" and run: "remove_file (root @ map Normal (xs @ [x])) fs = (r, fs')"
  then have a: "anchored root D fs" and p: "plain_below fs D xs" by (simp_all add: ready_def)
  note below = remove_file_below [OF a p run]
  with anchored_within [OF a] plain_below_same [OF p] show "within D fs fs' \<and> (\<forall>a. r = Ok a \<longrightarrow> ready root D xs fs')"
    by (auto simp: ready_def)
qed

lemma confined_pull_link:
  "confined D (\<lambda>st. ready root D xs (tr_fs st)) (pull_link td path (root @ map Normal (xs @ [x])))
     (\<lambda>_ st. anchored root D (tr_fs st))"
  unfolding pull_link_def
proof (intro confined_bind)
  show "confined D (\<lambda>st. ready root D xs (tr_fs st)) (on_files (create_parent (root @ map Normal (xs @ [x]))))
      (\<lambda>_ st. ready root D xs (tr_fs st))"
    by (rule confined_parent)
  show "confined D (\<lambda>st. ready root D xs (tr_fs st)) (on_remote (td_shell td (ascii ''readlink -- '' @ shell_quote path)))
      (\<lambda>_ st. ready root D xs (tr_fs st))"
    by (rule confined_remote) (rule ready_wf)
  show "confined D (\<lambda>st. ready root D xs (tr_fs st)) (boxed_value (utf8_text out)) (\<lambda>_ st. ready root D xs (tr_fs st))" for out
    by (rule confined_pure) (simp add: sound_fs_def ready_wf)
  show "confined D (\<lambda>st. ready root D xs (tr_fs st))
      (\<lambda>st. if symlink_metadata (tr_fs st) (root @ map Normal (xs @ [x])) \<noteq> None
            then on_files (remove_file (root @ map Normal (xs @ [x]))) st else (Ok (), st)) (\<lambda>_ st. ready root D xs (tr_fs st))"
    using confined_remove [of D root xs x] by (auto simp: confined_def stays_def within_refl ready_wf)
qed (rule confined_make_symlink)

lemma confined_temporary:
  "confined D (\<lambda>st. ready root D xs (tr_fs st)) (create_pull_temporary (root @ map Normal (xs @ [x])))
     (\<lambda>p st. ready root D xs (tr_fs st) \<and> (\<exists>y. p = root @ map Normal (xs @ [y])))"
proof (rule confinedI)
  fix st r st'
  assume "ready root D xs (tr_fs st)" and run: "create_pull_temporary (root @ map Normal (xs @ [x])) st = (r, st')"
  then have a: "anchored root D (tr_fs st)" and p: "plain_below (tr_fs st) D xs" by (simp_all add: ready_def)
  obtain q ns fs where q: "create_temporary (root @ map Normal (xs @ [x])) (tr_random st) (tr_fs st) = (q, ns, fs)"
    by (metis prod_cases3)
  with run have st': "r = q" "tr_fs st' = fs" by (auto simp: create_pull_temporary_def)
  from create_temporary_below [OF a p q] anchored_within [OF a] st'
  show "stays D st st' \<and> (\<forall>a. r = Ok a \<longrightarrow> ready root D xs (tr_fs st') \<and> (\<exists>y. a = root @ map Normal (xs @ [y])))"
    by (auto simp: stays_def ready_def)
qed

lemma rename_ready:
  assumes "ready root D xs fs" and "rename_file (root @ map Normal (xs @ [y])) (root @ map Normal (xs @ [x])) fs = (r, fs')"
  shows "within D fs fs'" and "ready root D xs fs'"
proof -
  have a: "anchored root D fs" and p: "plain_below fs D xs" using assms(1) by (simp_all add: ready_def)
  note below = rename_file_below [OF a p assms(2)]
  show "within D fs fs'" by (rule below(1))
  have "node_at fs' (D @ ys) \<noteq> Some (Symlink t)" if "prefix ys xs" "ys \<noteq> []" for ys t
  proof -
    from that(1) have "D @ ys \<noteq> D @ xs @ [x]" "D @ ys \<noteq> D @ xs @ [y]" using prefix_length_le [of ys xs] by auto
    with below(2) p that show ?thesis by (auto simp: plain_below_def)
  qed
  then show "ready root D xs fs'"
    using anchored_within [OF a below(1)] by (auto simp: ready_def plain_below_def)
qed

lemma ready_same:
  assumes "ready root D xs fs" and "within D fs fs'" and "\<forall>t. t \<noteq> D @ xs @ [x] \<longrightarrow> node_at fs' t = node_at fs t"
  shows "ready root D xs fs'"
  using assms anchored_within plain_below_same unfolding ready_def by blast

lemma remove_ready:
  assumes "ready root D xs fs" and "remove_file (root @ map Normal (xs @ [x])) fs = (r, fs')"
  shows "within D fs fs'" and "ready root D xs fs'"
proof -
  have "anchored root D fs" "plain_below fs D xs" using assms(1) by (simp_all add: ready_def)
  note below = remove_file_below [OF this assms(2)]
  show "within D fs fs'" by (rule below(1))
  with ready_same [OF assms(1)] below(2) show "ready root D xs fs'" by blast
qed

lemma write_ready:
  assumes "ready root D xs fs"
  shows "within D fs (write_file (root @ map Normal (xs @ [x])) bs fs)"
    and "ready root D xs (write_file (root @ map Normal (xs @ [x])) bs fs)"
proof -
  have "anchored root D fs" "plain_below fs D xs" using assms by (simp_all add: ready_def)
  note below = write_file_below [OF this]
  show "within D fs (write_file (root @ map Normal (xs @ [x])) bs fs)" by (rule below(1))
  with ready_same [OF assms] below(2) show "ready root D xs (write_file (root @ map Normal (xs @ [x])) bs fs)" by blast
qed

text \<open>What runs while the file is fetched, and the outcome of fetching it.\<close>

definition place_fetched :: "unit boxed \<Rightarrow> path \<Rightarrow> path \<Rightarrow> ('d transfer, unit) boxed_io" where
  "place_fetched w temporary near = bind_boxed (boxed_value w) (\<lambda>_. on_files (rename_file temporary near))"

lemma fetch_file_run:
  assumes "td_pull td path (tr_device st) = ((bs, w), d)"
    and "place_fetched w temporary near (st\<lparr>tr_device := d, tr_fs := write_file temporary bs (tr_fs st)\<rparr>) = (q, st2)"
    and "remove_file temporary (tr_fs st2) = (p, fs3)"
    and "fetch_file td path temporary near st = (r, st')"
  shows "r = q" and "tr_fs st' = (if q = Panic then tr_fs st2 else fs3)"
proof -
  have "fetch_file td path temporary near st
      = (case (q, st2) of (Panic, st) \<Rightarrow> (Panic, st) | (r, st) \<Rightarrow> (r, snd (on_files (ignore (remove_file temporary)) st)))"
    using assms(1,2) unfolding fetch_file_def place_fetched_def by (simp add: Let_def)
  moreover have "tr_fs (snd (on_files (ignore (remove_file temporary)) st2)) \<in> {fs3}"
    using assms(3) by (simp add: on_files_def ignore_def split: outcome.splits prod.splits)
  ultimately show "r = q" "tr_fs st' = (if q = Panic then tr_fs st2 else fs3)"
    using assms(4) by (cases q; auto)+
qed

lemma place_fetched_ready:
  assumes "ready root D xs (tr_fs st)"
    and "place_fetched w (root @ map Normal (xs @ [y])) (root @ map Normal (xs @ [x])) st = (q, st2)"
  shows "within D (tr_fs st) (tr_fs st2)" and "ready root D xs (tr_fs st2)"
    and "q = Ok a \<Longrightarrow> \<exists>bs. node_at (tr_fs st2) (D @ xs @ [x]) = Some (Regular bs)"
proof -
  let ?t = "root @ map Normal (xs @ [y])" and ?p = "root @ map Normal (xs @ [x])"
  obtain p fs where run: "rename_file ?t ?p (tr_fs st) = (p, fs)" by fastforce
  have parts: "anchored root D (tr_fs st)" "plain_below (tr_fs st) D xs" using assms(1) by (simp_all add: ready_def)
  have "tr_fs st2 = tr_fs st \<and> (\<forall>a. q \<noteq> Ok a) \<or> tr_fs st2 = fs \<and> q = boxed p"
    using assms(2) run by (cases w) (auto simp: place_fetched_def on_files_def bind_boxed_def boxed_value_def)
  then show "within D (tr_fs st) (tr_fs st2)" "ready root D xs (tr_fs st2)"
    "q = Ok a \<Longrightarrow> \<exists>bs. node_at (tr_fs st2) (D @ xs @ [x]) = Some (Regular bs)"
    using assms(1) rename_ready [OF assms(1) run] rename_file_below(3) [OF parts run] ready_wf [OF assms(1)] boxed_Ok [of p a]
    by (auto intro: within_refl)
qed

lemma confined_fetch:
  "confined D (\<lambda>st. ready root D xs (tr_fs st)) (fetch_file td path (root @ map Normal (xs @ [y])) (root @ map Normal (xs @ [x])))
     (\<lambda>_ st. ready root D (xs @ [x]) (tr_fs st))"
proof (rule confinedI)
  fix st r st'
  let ?t = "root @ map Normal (xs @ [y])" and ?p = "root @ map Normal (xs @ [x])"
  assume ready: "ready root D xs (tr_fs st)" and run: "fetch_file td path ?t ?p st = (r, st')"
  obtain bs w d where pull: "td_pull td path (tr_device st) = ((bs, w), d)" by (metis surj_pair)
  let ?st1 = "st\<lparr>tr_device := d, tr_fs := write_file ?t bs (tr_fs st)\<rparr>"
  have one: "within D (tr_fs st) (tr_fs ?st1)" "ready root D xs (tr_fs ?st1)"
    using write_ready [OF ready, of y bs] by simp_all
  obtain q st2 where q: "place_fetched w ?t ?p ?st1 = (q, st2)" by fastforce
  note two = place_fetched_ready [OF one(2) q]
  obtain p fs3 where p: "remove_file ?t (tr_fs st2) = (p, fs3)" by fastforce
  note three = remove_ready [OF two(2) p]
  note out = fetch_file_run [OF pull q p run]
  have "within D (tr_fs st) (tr_fs st2)" by (rule within_trans [OF one(1) two(1)])
  moreover have "within D (tr_fs st) fs3" by (rule within_trans [OF calculation three(1)])
  ultimately have "stays D st st'" using out(2) by (simp add: stays_def)
  moreover have "ready root D (xs @ [x]) (tr_fs st')" if ok: "r = Ok a" for a
  proof -
    obtain bs where "node_at (tr_fs st2) (D @ xs @ [x]) = Some (Regular bs)" using two(3) [of a] out(1) ok by auto
    with remove_file_node [OF p, of "D @ xs @ [x]"] three(2) out ok show ?thesis
      by (auto simp: ready_def plain_below_snoc)
  qed
  ultimately show "stays D st st' \<and> (\<forall>a. r = Ok a \<longrightarrow> ready root D (xs @ [x]) (tr_fs st'))" by blast
qed

lemma confined_metadata:
  assumes "xs \<noteq> []"
  shows "confined D (\<lambda>st. ready root D xs (tr_fs st)) (on_files (apply_local_metadata (root @ map Normal xs) e))
     (\<lambda>_ st. ready root D xs (tr_fs st))"
proof (rule confined_files)
  fix fs r fs'
  assume ready: "ready root D xs fs" and run: "apply_local_metadata (root @ map Normal xs) e fs = (r, fs')"
  then have a: "anchored root D fs" and p: "plain_below fs D xs" by (simp_all add: ready_def)
  from run have "touch (root @ map Normal xs) (re_mode e mod 4096) (max 0 (re_mtime e)) fs = (r, fs')"
    by (simp add: apply_local_metadata_def)
  from touch_below [OF a p assms this] anchored_within [OF a] p
  show "within D fs fs' \<and> (\<forall>a. r = Ok a \<longrightarrow> ready root D xs fs')" by (auto simp: ready_def plain_below_def)
qed

lemma confined_pull_regular:
  "confined D (\<lambda>st. ready root D xs (tr_fs st)) (pull_regular td archive e (root @ map Normal (xs @ [x])))
     (\<lambda>_ st. anchored root D (tr_fs st))"
  unfolding pull_regular_def
proof (intro confined_bind)
  show "confined D (\<lambda>st. ready root D xs (tr_fs st)) (on_files (create_parent (root @ map Normal (xs @ [x]))))
      (\<lambda>_ st. ready root D xs (tr_fs st))"
    by (rule confined_parent)
  show "confined D (\<lambda>st. ready root D xs (tr_fs st)) (create_pull_temporary (root @ map Normal (xs @ [x])))
      (\<lambda>p st. ready root D xs (tr_fs st) \<and> (\<exists>y. p = root @ map Normal (xs @ [y])))"
    by (rule confined_temporary)
  show "confined D (\<lambda>st. ready root D xs (tr_fs st) \<and> (\<exists>y. p = root @ map Normal (xs @ [y])))
      (fetch_file td (re_path e) p (root @ map Normal (xs @ [x]))) (\<lambda>_ st. ready root D (xs @ [x]) (tr_fs st))" for p
    using confined_fetch [of D root xs td "re_path e" _ x] unfolding confined_def by metis
  have meta: "confined D (\<lambda>st. ready root D (xs @ [x]) (tr_fs st)) (on_files (apply_local_metadata (root @ map Normal (xs @ [x])) e))
      (\<lambda>_ st. ready root D (xs @ [x]) (tr_fs st))"
    by (rule confined_metadata) simp
  have "confined D (\<lambda>st. ready root D (xs @ [x]) (tr_fs st)) (boxed_value (Ok ())) (\<lambda>_ st. ready root D (xs @ [x]) (tr_fs st))"
    by (rule confined_pure) (simp add: sound_fs_def ready_wf)
  with meta show "confined D (\<lambda>st. ready root D (xs @ [x]) (tr_fs st))
      (if archive then on_files (apply_local_metadata (root @ map Normal (xs @ [x])) e) else boxed_value (Ok ()))
      (\<lambda>_ st. anchored root D (tr_fs st))"
    by (auto intro: confined_weaken simp: ready_def)
qed

definition safe_near :: "path \<Rightarrow> real \<Rightarrow> bool \<Rightarrow> bytes list \<Rightarrow> file_system \<Rightarrow> bool" where
  "safe_near root D directory xs fs \<longleftrightarrow> ready root D (if directory then xs else butlast xs) fs"

lemma confined_pull_kind:
  assumes "xs \<noteq> []"
  shows "confined D (\<lambda>st. safe_near root D (re_kind e = DIR) xs (tr_fs st)) (pull_kind td archive e (root @ map Normal xs))
     (\<lambda>_ st. anchored root D (tr_fs st) \<and> (re_kind e = DIR \<longrightarrow> is_directory (tr_fs st) (D @ xs)))"
proof -
  from assms obtain ys y where xs: "xs = ys @ [y]" by (metis rev_exhaust)
  consider "re_kind e = DIR" | "re_kind e \<noteq> DIR" "re_kind e = LINK" | "re_kind e \<noteq> DIR" "re_kind e \<noteq> LINK" "re_kind e = FILE"
    | "re_kind e \<notin> {DIR, LINK, FILE}" by blast
  then show ?thesis
  proof cases
    case 1
    have "confined D (\<lambda>st. ready root D xs (tr_fs st)) (on_files (create_dir_all (root @ map Normal xs)))
        (\<lambda>_ st. anchored root D (tr_fs st) \<and> is_directory (tr_fs st) (D @ xs))"
      by (rule confined_files) (auto simp: ready_def dest: create_dir_all_below anchored_within)
    with 1 show ?thesis by (simp add: safe_near_def pull_kind_def)
  next
    case 2
    with confined_pull_link [of D root ys td "re_path e" y] xs show ?thesis
      by (auto simp: safe_near_def pull_kind_def intro: confined_weaken)
  next
    case 3
    with confined_pull_regular [of D root ys td archive e y] xs show ?thesis
      by (auto simp: safe_near_def pull_kind_def intro: confined_weaken)
  next
    case 4
    then have "pull_kind td archive e (root @ map Normal xs) = boxed_value (Ok ())" by (simp add: pull_kind_def)
    with 4 show ?thesis by (auto simp: confined_def stays_def safe_near_def ready_def anchored_def within_refl)
  qed
qed

end
