(* ===== verification/Pull_Safety.thy ===== *)
theory Pull_Safety
  imports Pull_Entries
begin

text \<open>
  A pull stays where it was sent: whatever the device answers, nothing outside of the destination is
  created, changed or removed, neither by dots in the names of the device nor by links it has the
  client create on the way.
\<close>

section \<open>Entries\<close>

text \<open>The directories recorded for their metadata are real ones, below the anchor.\<close>

definition recorded :: "path \<Rightarrow> real \<Rightarrow> path \<Rightarrow> file_system \<Rightarrow> bool" where
  "recorded root D p fs \<longleftrightarrow> (\<exists>ns. p = root @ map Normal ns \<and> ns \<noteq> [] \<and> is_directory fs (D @ ns))"

definition all_recorded :: "path \<Rightarrow> real \<Rightarrow> (path \<times> remote_entry) list \<Rightarrow> file_system \<Rightarrow> bool" where
  "all_recorded root D dirs fs \<longleftrightarrow> (\<forall>p e. (p, e) \<in> set dirs \<longrightarrow> recorded root D p fs)"

lemma recorded_within: "recorded root D p fs \<Longrightarrow> within D fs fs' \<Longrightarrow> recorded root D p fs'"
  unfolding recorded_def within_def kept_sound_def by blast

lemma confined_recorded:
  assumes "confined D P m Q"
  shows "confined D (\<lambda>st. P st \<and> all_recorded root D dirs (tr_fs st)) m (\<lambda>a st. Q a st \<and> all_recorded root D dirs (tr_fs st))"
  using assms recorded_within unfolding confined_def stays_def all_recorded_def by blast

text \<open>The directory that must not be left is the anchor or one directory below it.\<close>

definition home_near :: "path \<Rightarrow> bytes list \<Rightarrow> (file_system \<Rightarrow> path) \<Rightarrow> bool" where
  "home_near root xs home \<longleftrightarrow> xs \<noteq> [] \<and> (\<forall>fs. home fs = root \<or> home fs = root @ [Normal (hd xs)])"

lemma check_near:
  assumes "home_near root xs home" and "anchored root D fs"
    and "check_pull_ancestors (home fs) (root @ map Normal (xs @ ys)) directory fs = Ok ()"
  shows "ready root D (if directory then xs @ ys else butlast (xs @ ys)) fs"
proof -
  obtain z zs where xs: "xs = z # zs" using assms(1) by (cases xs) (auto simp: home_near_def)
  consider "home fs = root" | "home fs = root @ [Normal z]" using assms(1) xs by (auto simp: home_near_def)
  then show ?thesis
  proof cases
    case 1
    have "plain_below fs D (if directory then [] @ (xs @ ys) else butlast ([] @ (xs @ ys)))"
      by (rule check_pull_plain [OF assms(2)]) (use 1 assms(3) xs in simp_all)
    with assms(2) show ?thesis by (cases directory) (simp_all add: ready_def)
  next
    case 2
    have "plain_below fs D (if directory then [z] @ (zs @ ys) else butlast ([z] @ (zs @ ys)))"
      by (rule check_pull_plain [OF assms(2)]) (use 2 assms(3) xs in simp_all)
    with assms(2) xs show ?thesis by (cases directory) (simp_all add: ready_def)
  qed
qed

lemma join_normal: "join_path p (map Normal xs) = p @ map Normal xs"
  by (cases xs) (auto simp: join_path_def)

lemma confined_pull_entry:
  assumes "home_near root xs home" and "components source \<noteq> []"
  shows "confined D (\<lambda>st. anchored root D (tr_fs st)) (pull_entry td archive home source (root @ map Normal xs) e)
     (\<lambda>p st. anchored root D (tr_fs st) \<and> (re_kind e = DIR \<longrightarrow> recorded root D p (tr_fs st)))"
proof (rule confinedI)
  fix st r st'
  let ?root = "root @ map Normal xs"
  assume anchored: "anchored root D (tr_fs st)" and run: "pull_entry td archive home source ?root e st = (r, st')"
  then have wf: "fs_wf (tr_fs st)" by (simp add: anchored_def)
  show "stays D st st' \<and> (\<forall>p. r = Ok p \<longrightarrow> anchored root D (tr_fs st') \<and> (re_kind e = DIR \<longrightarrow> recorded root D p (tr_fs st')))"
  proof (cases "safe_relative_remote_path source (re_path e)")
    case (Ok relative)
    obtain ys where ys: "relative = map Normal ys" using safe_relative_names [OF Ok assms(2)] .
    have near: "(if relative = [] then ?root else join_path ?root relative) = root @ map Normal (xs @ ys)"
      using join_normal [of ?root ys] by (simp add: ys)
    let ?near = "root @ map Normal (xs @ ys)"
    show ?thesis
    proof (cases "check_pull_ancestors (home (tr_fs st)) ?near (re_kind e = DIR) (tr_fs st) = Ok ()")
      case True
      have "safe_near root D (re_kind e = DIR) (xs @ ys) (tr_fs st)"
        using check_near [OF assms(1) anchored True] by (simp add: safe_near_def)
      moreover obtain q st1 where q: "pull_kind td archive e ?near st = (q, st1)" by fastforce
      moreover have ne: "xs @ ys \<noteq> []" using assms(1) by (simp add: home_near_def)
      ultimately have one: "stays D st st1 \<and> (\<forall>a. q = Ok a \<longrightarrow> anchored root D (tr_fs st1) \<and> (re_kind e = DIR \<longrightarrow> is_directory (tr_fs st1) (D @ xs @ ys)))"
        using confinedD [OF confined_pull_kind] by metis
      have "st' = st1 \<and> (\<forall>p. r = Ok p \<longrightarrow> p = ?near \<and> (\<exists>a. q = Ok a))"
        using run q near True unfolding pull_entry_def Ok
        by (cases q) (auto simp: bind_boxed_def boxed_value_def Let_def)
      with one ne show ?thesis unfolding recorded_def by blast
    next
      case False
      with run near have "st' = st" "\<forall>p. r \<noteq> Ok p"
        unfolding pull_entry_def Ok
        by (cases "check_pull_ancestors (home (tr_fs st)) ?near (re_kind e = DIR) (tr_fs st)";
            auto simp: bind_boxed_def boxed_value_def Let_def)+
      with wf show ?thesis by (simp add: stays_def within_refl)
    qed
  qed (use run wf in \<open>auto simp: pull_entry_def bind_boxed_def boxed_value_def stays_def within_refl\<close>)
qed

lemma confined_pull_entries:
  assumes "home_near root xs home" and "components source \<noteq> []"
  shows "confined D (\<lambda>st. anchored root D (tr_fs st) \<and> all_recorded root D dirs (tr_fs st))
     (pull_entries td archive home source (root @ map Normal xs) es dirs)
     (\<lambda>dirs st. anchored root D (tr_fs st) \<and> all_recorded root D dirs (tr_fs st))"
proof (induction es arbitrary: dirs)
  case Nil
  show ?case by (auto simp: confined_def boxed_value_def stays_def anchored_def within_refl)
next
  case (Cons e es)
  show ?case
    unfolding pull_entries.simps
  proof (rule confined_bind)
    show "confined D (\<lambda>st. anchored root D (tr_fs st) \<and> all_recorded root D dirs (tr_fs st))
        (pull_entry td archive home source (root @ map Normal xs) e)
        (\<lambda>p st. (anchored root D (tr_fs st) \<and> (re_kind e = DIR \<longrightarrow> recorded root D p (tr_fs st))) \<and> all_recorded root D dirs (tr_fs st))"
      by (rule confined_recorded [OF confined_pull_entry [OF assms]])
    show "confined D (\<lambda>st. (anchored root D (tr_fs st) \<and> (re_kind e = DIR \<longrightarrow> recorded root D p (tr_fs st))) \<and> all_recorded root D dirs (tr_fs st))
        (pull_entries td archive home source (root @ map Normal xs) es (if re_kind e = DIR then (p, e) # dirs else dirs))
        (\<lambda>dirs st. anchored root D (tr_fs st) \<and> all_recorded root D dirs (tr_fs st))" for p
      by (rule confined_weaken [OF Cons.IH]) (auto simp: all_recorded_def)
  qed
qed

lemma recorded_ready:
  assumes "anchored root D fs" and "is_directory fs (D @ ns)"
  shows "ready root D ns fs"
  unfolding ready_def plain_below_def
proof (intro conjI allI impI)
  fix ys t
  assume "prefix ys ns \<and> ys \<noteq> []"
  then obtain zs where "ns = ys @ zs" by (auto simp: prefix_def)
  then have "is_directory fs (D @ ys)"
    using wf_above [of fs "D @ ys" zs] assms by (cases "zs = []") (auto simp: anchored_def)
  then show "node_at fs (D @ ys) \<noteq> Some (Symlink t)" by simp
qed (rule assms(1))

lemma confined_restore:
  "confined D (\<lambda>st. anchored root D (tr_fs st) \<and> all_recorded root D dirs (tr_fs st)) (restore_directories dirs)
     (\<lambda>_ st. anchored root D (tr_fs st))"
proof (induction dirs)
  case Nil
  show ?case by (auto simp: confined_def boxed_value_def stays_def anchored_def within_refl)
next
  case (Cons d dirs)
  obtain p e where d: "d = (p, e)" by fastforce
  let ?P = "\<lambda>ds st. anchored root D (tr_fs st) \<and> all_recorded root D ds (tr_fs st)"
  have "confined D (?P (d # dirs)) (on_files (apply_local_metadata p e)) (\<lambda>_. ?P dirs)"
  proof (rule confinedI)
    fix st r st'
    assume P: "?P (d # dirs) st" and run: "on_files (apply_local_metadata p e) st = (r, st')"
    obtain ns where ns: "p = root @ map Normal ns" "ns \<noteq> []" "is_directory (tr_fs st) (D @ ns)"
      using P d unfolding all_recorded_def recorded_def by (metis list.set_intros(1))
    with P have ready: "ready root D ns (tr_fs st)" by (simp add: recorded_ready)
    from confinedD [OF confined_metadata [OF ns(2)] this] run ns(1)
    have "stays D st st' \<and> (\<forall>a. r = Ok a \<longrightarrow> ready root D ns (tr_fs st'))" by blast
    then show "stays D st st' \<and> (\<forall>a. r = Ok a \<longrightarrow> ?P dirs st')"
      using P d recorded_within [of root D _ "tr_fs st" "tr_fs st'"]
      by (auto simp: ready_def all_recorded_def stays_def)
  qed
  with Cons.IH d show ?case by (auto intro: confined_bind)
qed

section \<open>A source, and all of them\<close>

definition pull_target :: "bool \<Rightarrow> path \<Rightarrow> bytes \<Rightarrow> path" where
  "pull_target into dest base = (if into then join_path dest [Normal base] else dest)"

text \<open>Where a pull may go: into the anchor itself, or to a name in it.\<close>

definition pull_place :: "path \<Rightarrow> path \<Rightarrow> bool \<Rightarrow> bool" where
  "pull_place root dest into \<longleftrightarrow> dest = root \<and> into \<or> (\<exists>b. dest = root @ [Normal b])"

lemma pull_place_near:
  assumes "pull_place root dest into"
  obtains xs where "pull_target into dest base = root @ map Normal xs" and "home_near root xs (pull_home into dest)"
proof -
  consider "dest = root" "into" | b where "dest = root @ [Normal b]" "into" | b where "dest = root @ [Normal b]" "\<not> into"
    using assms by (auto simp: pull_place_def)
  then show thesis
  proof cases
    case 1
    then show thesis using that [of "[base]"] by (simp add: pull_target_def home_near_def pull_home_def join_path_def)
  next
    case 2
    then show thesis using that [of "[b, base]"] by (simp add: pull_target_def home_near_def pull_home_def join_path_def)
  next
    case 3
    then show thesis using that [of "[b]"]
      by (simp add: pull_target_def home_near_def pull_home_def parent_def)
  qed
qed

lemma confined_pull_source:
  assumes "\<And>into. multi \<longrightarrow> into \<Longrightarrow> pull_place root dest into"
  shows "confined D (\<lambda>st. anchored root D (tr_fs st)) (pull_source td archive multi dest source) (\<lambda>_ st. anchored root D (tr_fs st))"
  unfolding pull_source_def
proof (rule confined_bind)
  show "confined D (\<lambda>st. anchored root D (tr_fs st)) (on_remote (remote_manifest td source)) (\<lambda>_ st. anchored root D (tr_fs st))"
    by (rule confined_remote) (simp add: anchored_def)
  fix entries :: "remote_entry list"
  let ?into = "multi \<or> re_kind (hd entries) = DIR"
  have P: "pull_place root dest ?into" by (rule assms) simp
  show "confined D (\<lambda>st. anchored root D (tr_fs st))
      (let root_is_directory = (re_kind (hd entries) = DIR)
       in bind_boxed (boxed_value (ok_or (ascii ''invalid remote path'') (file_name (components source)))) (\<lambda>base.
            let local_root = (if multi \<or> root_is_directory then join_path dest [Normal base] else dest)
            in bind_boxed (pull_entries td archive (pull_home (multi \<or> root_is_directory) dest) source local_root entries []) (\<lambda>dirs.
                 if archive then restore_directories dirs else boxed_value (Ok ()))))
      (\<lambda>_ st. anchored root D (tr_fs st))"
    unfolding Let_def pull_target_def [symmetric]
  proof (rule confined_bind)
    show "confined D (\<lambda>st. anchored root D (tr_fs st)) (boxed_value (ok_or (ascii ''invalid remote path'') (file_name (components source))))
        (\<lambda>base st. anchored root D (tr_fs st) \<and> ok_or (ascii ''invalid remote path'') (file_name (components source)) = Ok base)"
      by (rule confined_value) (simp add: sound_fs_def anchored_def)
    fix base
    show "confined D (\<lambda>st. anchored root D (tr_fs st) \<and> ok_or (ascii ''invalid remote path'') (file_name (components source)) = Ok base)
        (bind_boxed (pull_entries td archive (pull_home ?into dest) source (pull_target ?into dest base) entries []) (\<lambda>dirs.
           if archive then restore_directories dirs else boxed_value (Ok ())))
        (\<lambda>_ st. anchored root D (tr_fs st))"
    proof (cases "components source = []")
      case True
      then show ?thesis by (simp add: confined_def file_name_def)
    next
      case False
      obtain xs where xs: "pull_target ?into dest base = root @ map Normal xs" "home_near root xs (pull_home ?into dest)"
        using pull_place_near [OF P] .
      have all: "confined D (\<lambda>st. anchored root D (tr_fs st) \<and> all_recorded root D [] (tr_fs st))
          (bind_boxed (pull_entries td archive (pull_home ?into dest) source (root @ map Normal xs) entries []) (\<lambda>dirs.
             if archive then restore_directories dirs else boxed_value (Ok ())))
          (\<lambda>_ st. anchored root D (tr_fs st))"
      proof (rule confined_bind [OF confined_pull_entries [OF xs(2) False]])
        fix dirs
        have "confined D (\<lambda>st. anchored root D (tr_fs st) \<and> all_recorded root D dirs (tr_fs st)) (boxed_value (Ok ())) (\<lambda>_ st. anchored root D (tr_fs st))"
          by (auto simp: confined_def boxed_value_def stays_def anchored_def within_refl)
        then show "confined D (\<lambda>st. anchored root D (tr_fs st) \<and> all_recorded root D dirs (tr_fs st))
            (if archive then restore_directories dirs else boxed_value (Ok ())) (\<lambda>_ st. anchored root D (tr_fs st))"
          by (cases archive) (simp_all only: if_True if_False confined_restore)
      qed
      show ?thesis unfolding xs(1) by (rule confined_weaken [OF all]) (simp_all add: all_recorded_def)
    qed
  qed
qed

lemma confined_pull_sources:
  assumes "\<And>into. multi \<longrightarrow> into \<Longrightarrow> pull_place root dest into"
  shows "confined D (\<lambda>st. anchored root D (tr_fs st)) (pull_sources td archive multi dest ss) (\<lambda>_ st. anchored root D (tr_fs st))"
proof (induction ss)
  case Nil
  show ?case by (auto simp: confined_def boxed_value_def stays_def anchored_def within_refl)
next
  case (Cons s ss)
  from confined_bind [OF confined_pull_source [OF assms] Cons.IH] show ?case by simp
qed

section \<open>The whole command\<close>

lemma pull_place_into: "multi \<longrightarrow> into \<Longrightarrow> dest = root \<and> multi \<or> (\<exists>b. dest = root @ [Normal b]) \<Longrightarrow> pull_place root dest into"
  by (auto simp: pull_place_def)

lemma pull_compatible_run:
  assumes "pull_compatible td options (sources @ [dest]) st = (r, st')" and "anchored root D (tr_fs st)"
  obtains "st' = st"
    | multi q fs where "multi = (1 < length sources \<or> path_is_dir (tr_fs st) (components dest))"
        "(if multi then create_dir_all (components dest) (tr_fs st) else (Ok (), tr_fs st)) = (q, fs)"
        "st' = st\<lparr>tr_fs := fs\<rparr>"
    | multi fs where "multi = (1 < length sources \<or> path_is_dir (tr_fs st) (components dest))"
        "(if multi then create_dir_all (components dest) (tr_fs st) else (Ok (), tr_fs st)) = (Ok (), fs)"
        "pull_sources td (to_archive options) multi (components dest) sources (st\<lparr>tr_fs := fs\<rparr>) = (r, st')"
proof (cases "sources = []")
  case True
  with assms(1) that(1) show thesis by (simp add: pull_compatible_def)
next
  case False
  let ?multi = "1 < length sources \<or> path_is_dir (tr_fs st) (components dest)"
  obtain q fs where q: "(if ?multi then create_dir_all (components dest) (tr_fs st) else (Ok (), tr_fs st)) = (q, fs)" by fastforce
  have run: "bind_boxed (if ?multi then on_files (create_dir_all (components dest)) else boxed_value (Ok ()))
      (\<lambda>_. pull_sources td (to_archive options) ?multi (components dest) sources) st = (r, st')"
    using assms(1) False by (simp add: pull_compatible_def Let_def Suc_less_eq2 split: if_splits)
  have step: "(if ?multi then on_files (create_dir_all (components dest)) else boxed_value (Ok ())) st = (boxed q, st\<lparr>tr_fs := fs\<rparr>)"
    using q by (cases ?multi) (auto simp: on_files_def boxed_value_def boxed_def)
  have run: "(case boxed q of Ok a \<Rightarrow> pull_sources td (to_archive options) ?multi (components dest) sources (st\<lparr>tr_fs := fs\<rparr>)
      | Err e \<Rightarrow> (Err e, st\<lparr>tr_fs := fs\<rparr>) | Panic \<Rightarrow> (Panic, st\<lparr>tr_fs := fs\<rparr>)) = (r, st')"
    using run unfolding bind_boxed_def step by (simp only: prod.case)
  show thesis
  proof (cases q)
    case (Ok a)
    then have "boxed q = Ok ()" "q = Ok ()" by (simp_all add: boxed_def)
    with run q that(3) [OF refl, of fs] show thesis by simp
  next
    case (Err e)
    then have "st' = st\<lparr>tr_fs := fs\<rparr>" using run by (simp add: boxed_def)
    from that(2) [OF refl q this] show thesis .
  next
    case Panic
    then have "st' = st\<lparr>tr_fs := fs\<rparr>" using run by (simp add: boxed_def)
    from that(2) [OF refl q this] show thesis .
  qed
qed

lemma pull_stays:
  assumes "anchored root D (tr_fs st)" and "pull_compatible td options (sources @ [dest]) st = (r, st')"
    and "components dest = root \<and> root \<noteq> [] \<or> (\<exists>b. components dest = root @ [Normal b] \<and> plain_below (tr_fs st) D [b])"
  shows "within D (tr_fs st) (tr_fs st')"
proof -
  have wf: "fs_wf (tr_fs st)" using assms(1) by (simp add: anchored_def)
  have made: "within D (tr_fs st) fs" if "(if m then create_dir_all (components dest) (tr_fs st) else (Ok (), tr_fs st)) = (q, fs)" for m q fs
  proof (cases m)
    case True
    with that have run: "create_dir_all (components dest) (tr_fs st) = (q, fs)" by simp
    from assms(3) show ?thesis
    proof (elim disjE exE conjE)
      assume "components dest = root" "root \<noteq> []"
      with create_dir_all_anchor [OF assms(1)] run wf show ?thesis by (simp add: within_refl)
    next
      fix b
      assume b: "components dest = root @ [Normal b]" "plain_below (tr_fs st) D [b]"
      from b(1) run have "create_dir_all (root @ map Normal [b]) (tr_fs st) = (q, fs)" by simp
      from create_dir_all_below [OF assms(1) b(2) this] show ?thesis by blast
    qed
  qed (use that wf in \<open>auto simp: within_refl\<close>)
  from assms(2,1) show ?thesis
  proof (cases rule: pull_compatible_run)
    case 1
    with wf show ?thesis by (simp add: within_refl)
  next
    case (2 multi q fs)
    with made [OF 2(2)] show ?thesis by simp
  next
    case (3 multi fs)
    have "components dest = root \<and> multi \<or> (\<exists>b. components dest = root @ [Normal b])"
      using assms(1,3) place_anchor(2) [OF assms(1)] 3(1) by (auto simp: path_is_dir_def anchored_def)
    then have P: "pull_place root (components dest) into" if "multi \<longrightarrow> into" for into
      using that pull_place_into by blast
    note one = made [OF 3(2)]
    have "anchored root D (tr_fs (st\<lparr>tr_fs := fs\<rparr>))" using anchored_within [OF assms(1) one] by simp
    from confinedD [OF confined_pull_sources [OF P] this 3(3)] one show ?thesis
      by (auto simp: stays_def intro: within_trans)
  qed
qed

text \<open>
  C20: \<^verbatim>\<open>pull\<close> into a directory creates, changes, removes and touches nothing outside of it, whatever
  the device answers: not with a manifest whose names contain dots, and not with symbolic links it
  sends first and then has the client write through. What is a directory stays one.
\<close>

theorem pull_stays_inside:
  assumes "anchored (components dest) D (tr_fs st)" and "components dest \<noteq> []"
    and "pull_compatible td options (sources @ [dest]) st = (r, st')"
  shows "within D (tr_fs st) (tr_fs st')"
  by (rule pull_stays [OF assms(1,3)]) (use assms(2) in simp)

text \<open>
  \<^verbatim>\<open>pull\<close> to a name, which need not exist but is not a symbolic link, stays inside of the directory
  the name is in.
\<close>

theorem pull_to_a_name:
  assumes "anchored root D (tr_fs st)" and "components dest = root @ [Normal b]"
    and "\<forall>t. node_at (tr_fs st) (D @ [b]) \<noteq> Some (Symlink t)"
    and "pull_compatible td options (sources @ [dest]) st = (r, st')"
  shows "within D (tr_fs st) (tr_fs st')"
proof (rule pull_stays [OF assms(1,4)])
  have "plain_below (tr_fs st) D [b]" using assms(3) by (auto simp: plain_below_def prefix_Cons)
  with assms(2) show "components dest = root \<and> root \<noteq> []
      \<or> (\<exists>b. components dest = root @ [Normal b] \<and> plain_below (tr_fs st) D [b])" by simp
qed

section \<open>A file is there entirely, or was not touched\<close>

lemma create_node_Err: "create_node n p fs = (Err e, fs') \<Longrightarrow> fs' = fs"
  by (auto simp: create_node_def os_error_def split: option.splits if_splits)

lemma create_temporary_Ok:
  "create_temporary near ns fs = (Ok p, ns', fs') \<Longrightarrow>
     \<exists>n\<in>set ns. p = with_file_name near (temporary_name n) \<and> create_node (Regular []) p fs = (Ok (), fs')"
proof (induction near ns fs rule: create_temporary.induct)
  case (1 near fs)
  then show ?case by (simp add: failure_def)
next
  case (2 near n ns fs)
  let ?p = "with_file_name near (temporary_name n)"
  obtain q fs1 where q: "create_node (Regular []) ?p fs = (q, fs1)" by fastforce
  show ?case
  proof (cases q)
    case (Ok u)
    with 2(2) q show ?thesis by (auto simp: Let_def)
  next
    case (Err e)
    with q have same: "fs1 = fs" using create_node_Err by blast
    show ?thesis
    proof (cases "\<exists>t. e = IOError AlreadyExists t")
      case True
      then obtain t where e: "e = IOError AlreadyExists t" by blast
      with 2(2) q Err same have "create_temporary near ns fs = (Ok p, ns', fs')" by (simp add: Let_def)
      with 2(1) [OF refl q [symmetric]] Err e same show ?thesis by auto
    next
      case False
      with 2(2) q Err show ?thesis by (auto simp: Let_def split: rust_error.splits io_kind.splits)
    qed
  qed (use 2(2) q in \<open>simp add: Let_def\<close>)
qed

lemma node_at_one:
  assumes "r \<noteq> []" and "place fs p = Some r" and "node_at fs r = None" and "\<not> fs_denied fs r"
    and "write_file p bs (set_node r (Some (Regular [])) fs) = fs1" and "place fs1 p = Some r"
    and "place (set_node r (Some (Regular [])) fs) p = Some r"
    and "remove_file p fs1 = (q, fs2)"
  shows "node_at fs1 r = Some (Regular bs)" and "node_at fs2 = node_at fs" and "fs_denied fs2 = fs_denied fs"
proof -
  have at: "node_at (set_node r (Some (Regular [])) fs) r = Some (Regular [])" using node_at_set_node [OF assms(1)] by simp
  with assms(5,7) have fs1: "fs1 = set_node r (Some (Regular bs)) (set_node r (Some (Regular [])) fs)"
    by (simp add: write_file_def)
  then show one: "node_at fs1 r = Some (Regular bs)" using node_at_set_node [OF assms(1)] by simp
  have "fs_denied fs1 = fs_denied fs" using fs1 by (simp add: set_node_def)
  with assms(4,6,8) one have fs2: "fs2 = set_node r None fs1" by (simp add: remove_file_def)
  then show "node_at fs2 = node_at fs" using fs1 assms(3) node_at_set_node [OF assms(1)] by (auto simp: fun_eq_iff)
  show "fs_denied fs2 = fs_denied fs" using fs1 fs2 by (simp add: set_node_def)
qed

lemma bind_boxed_cases:
  assumes "bind_boxed m f st = (r, st')"
  obtains a st1 where "m st = (Ok a, st1)" and "f a st1 = (r, st')"
    | e where "m st = (Err e, st')" and "r = Err e"
    | "m st = (Panic, st')" and "r = Panic"
  using assms by (cases "m st"; cases "fst (m st)") (auto simp: bind_boxed_def)

lemma on_files_run:
  "on_files m st = (r, st') \<longleftrightarrow> (\<exists>q fs. m (tr_fs st) = (q, fs) \<and> r = boxed q \<and> st' = st\<lparr>tr_fs := fs\<rparr>)"
  by (auto simp: on_files_def split: prod.splits)

lemma adds_same_nodes:
  "adds_directories fs fs1 \<Longrightarrow> node_at fs2 = node_at fs1 \<Longrightarrow> fs_denied fs2 = fs_denied fs1 \<Longrightarrow> adds_directories fs fs2"
  by (simp add: adds_directories_def)

lemma touch_nodes: "touch p mode mtime fs = (r, fs') \<Longrightarrow> node_at fs' = node_at fs"
  by (auto simp: touch_def node_at_def fun_eq_iff split: option.splits if_splits)

text \<open>Fetching under a fresh name that is not the one wanted.\<close>

lemma fetch_fresh:
  assumes "ready root D xs fs" and "x \<noteq> y"
    and "create_node (Regular []) (root @ map Normal (xs @ [y])) fs = (Ok (), tr_fs st)"
    and "td_pull td path (tr_device st) = ((bs, w), d)" and "w \<noteq> Panic"
    and "fetch_file td path (root @ map Normal (xs @ [y])) (root @ map Normal (xs @ [x])) st = (r, st')"
  shows "r = Ok () \<Longrightarrow> w = Ok () \<and> node_at (tr_fs st') (D @ xs @ [x]) = Some (Regular bs)"
    and "w \<noteq> Ok () \<Longrightarrow> r \<noteq> Ok () \<and> node_at (tr_fs st') = node_at fs \<and> fs_denied (tr_fs st') = fs_denied fs"
proof -
  let ?t = "root @ map Normal (xs @ [y])" and ?p = "root @ map Normal (xs @ [x])" and ?y = "D @ xs @ [y]"
  have a: "anchored root D fs" and b: "plain_below fs D xs" using assms(1) by (simp_all add: ready_def)
  note made = create_node_below [OF a b assms(3)]
  have dir: "is_directory fs (D @ xs)" and none: "node_at fs ?y = None" and st: "tr_fs st = set_node ?y (Some (Regular [])) fs"
    using made(2) by simp_all
  have denied: "\<not> fs_denied fs ?y"
    using assms(3) place_below [OF a b, of y] dir by (simp add: create_node_def os_error_def split: if_splits)
  have ready1: "ready root D xs (tr_fs st)"
    using ready_same [OF assms(1) made(1), of y] st by (simp add: node_at_set_node)
  let ?st1 = "st\<lparr>tr_device := d, tr_fs := write_file ?t bs (tr_fs st)\<rparr>"
  have ready2: "within D (tr_fs st) (tr_fs ?st1)" "ready root D xs (tr_fs ?st1)" using write_ready [OF ready1, of y bs] by simp_all
  have dirs: "is_directory (tr_fs st) (D @ xs)" "is_directory (tr_fs ?st1) (D @ xs)"
    using dir made(1) ready2(1) by (simp_all add: within_def kept_sound_def)
  have places: "place fs ?t = Some ?y" "place (set_node ?y (Some (Regular [])) fs) ?t = Some ?y" "place (tr_fs ?st1) ?t = Some ?y"
    using place_below [OF a b, of y] dir place_below [of root D "tr_fs st" xs y] ready1 place_below [of root D "tr_fs ?st1" xs y] ready2(2)
      dirs st by (auto simp: ready_def simp del: transfer.simps)
  obtain q st2 where q: "place_fetched w ?t ?p ?st1 = (q, st2)" by fastforce
  obtain p fs3 where p: "remove_file ?t (tr_fs st2) = (p, fs3)" by fastforce
  note out = fetch_file_run [OF assms(4) q p assms(6)]
  {
    assume w: "w \<noteq> Ok ()"
    with assms(5) obtain e where e: "w = Err e" by (cases w) auto
    with q have st2: "q = Err e" "st2 = ?st1" by (simp_all add: place_fetched_def)
    from p have "remove_file ?t (tr_fs ?st1) = (p, fs3)" unfolding st2(2) .
    from node_at_one [OF _ places(1) none denied _ places(3,2) this] st
    have "node_at fs3 = node_at fs" "fs_denied fs3 = fs_denied fs" by simp_all
    with out st2(1) show "r \<noteq> Ok () \<and> node_at (tr_fs st') = node_at fs \<and> fs_denied (tr_fs st') = fs_denied fs" by simp
  }
  {
    assume "r = Ok ()"
    with out have ok: "q = Ok ()" "tr_fs st' = fs3" by auto
    then have w: "w = Ok ()" using q assms(5) by (cases w) (auto simp: place_fetched_def)
    with q have "on_files (rename_file ?t ?p) ?st1 = (q, st2)" by (simp add: place_fetched_def)
    then obtain q' fs2 where ren: "rename_file ?t ?p (tr_fs ?st1) = (q', fs2)" "q = boxed q'" "tr_fs st2 = fs2"
      by (auto simp: on_files_run)
    have anchored1: "anchored root D (tr_fs ?st1)" and plain1: "plain_below (tr_fs ?st1) D xs"
      using ready2(2) by (simp_all add: ready_def)
    have "q' = Ok ()" using ok(1) ren(2) boxed_Ok [of q' "()"] by simp
    from rename_file_below(3) [OF anchored1 plain1 ren(1) this]
    obtain cs where cs: "node_at (tr_fs ?st1) ?y = Some (Regular cs)" "node_at fs2 (D @ xs @ [x]) = Some (Regular cs)" by blast
    obtain z fs4 where "remove_file ?t (tr_fs ?st1) = (z, fs4)" by fastforce
    from node_at_one(1) [OF _ places(1) none denied _ places(3,2) this] st cs(1) have "cs = bs" by simp
    moreover have "ready root D xs (tr_fs st2)" by (rule place_fetched_ready(2) [OF ready2(2) q])
    then have "\<forall>t. t \<noteq> ?y \<longrightarrow> node_at fs3 t = node_at (tr_fs st2) t"
      using remove_file_below(2) [OF _ _ p] unfolding ready_def by blast
    ultimately show "w = Ok () \<and> node_at (tr_fs st') (D @ xs @ [x]) = Some (Regular bs)"
      using w ok(2) cs(2) ren(3) assms(2) by simp
  }
qed

lemma pull_temporary_fresh:
  assumes "create_pull_temporary (root @ map Normal (xs @ [x])) st = (Ok t, st')" and "x \<notin> temporary_name ` set (tr_random st)"
  obtains y where "t = root @ map Normal (xs @ [y])" and "x \<noteq> y"
    and "create_node (Regular []) (root @ map Normal (xs @ [y])) (tr_fs st) = (Ok (), tr_fs st')" and "tr_device st' = tr_device st"
proof -
  obtain ns fs where t: "create_temporary (root @ map Normal (xs @ [x])) (tr_random st) (tr_fs st) = (Ok t, ns, fs)"
    "st' = st\<lparr>tr_random := ns, tr_fs := fs\<rparr>"
    using assms(1) by (auto simp: create_pull_temporary_def split: prod.splits)
  from create_temporary_Ok [OF t(1)] obtain n where n: "n \<in> set (tr_random st)"
    "t = with_file_name (root @ map Normal (xs @ [x])) (temporary_name n)" "create_node (Regular []) t (tr_fs st) = (Ok (), fs)" by blast
  from n(2) have "t = root @ map Normal (xs @ [temporary_name n])"
    by (simp add: with_file_name_def file_name_def butlast_append)
  with n assms(2) t(2) show ?thesis by (intro that [of "temporary_name n"]) auto
qed

lemma pull_temporary_failed:
  assumes "ready root D xs (tr_fs st)" and "create_pull_temporary (root @ map Normal (xs @ [x])) st = (q, st')" and "\<forall>t. q \<noteq> Ok t"
  shows "tr_fs st' = tr_fs st"
  using assms create_temporary_below [of root D "tr_fs st" xs x "tr_random st" q]
  by (auto simp: create_pull_temporary_def ready_def split: prod.splits)


section \<open>A device that does not mean well\<close>

definition hostile_files :: file_system where
  "hostile_files = \<lparr>fs_nodes = map_of [([ascii ''d''], Directory), ([ascii ''etc''], Directory),
       ([ascii ''etc'', ascii ''f''], Regular [1])], fs_cwd = [], fs_denied = (\<lambda>_. False), fs_touched = []\<rparr>"

definition hostile :: "unit transfer_device" where
  "hostile = \<lparr>
     td_shell = (\<lambda>cmd d. (Ok (if hd cmd = 102
       then ascii ''d'' @ [9] @ ascii ''755'' @ [9] @ ascii ''0'' @ [9] @ ascii ''r'' @ [10]
          @ ascii ''l'' @ [9] @ ascii ''777'' @ [9] @ ascii ''0'' @ [9] @ ascii ''r/x'' @ [10]
          @ ascii ''f'' @ [9] @ ascii ''644'' @ [9] @ ascii ''0'' @ [9] @ ascii ''r/x/f'' @ [10]
       else ascii ''/etc''), d)),
     td_push = (\<lambda>fs p path d. (Ok (), d)),
     td_pull = (\<lambda>path d. (([2], Ok ()), d))\<rparr>"

definition hostile_state :: "unit transfer" where
  "hostile_state = \<lparr>tr_fs = hostile_files, tr_random = [7], tr_device = ()\<rparr>"

lemma hostile_wf: "fs_wf hostile_files"
  by (auto simp: fs_wf_def node_at_def hostile_files_def append_eq_Cons_conv split: if_splits)

lemma hostile_dest: "components (ascii ''/d'') = Root_Dir # map Normal [ascii ''d'']"
  by code_simp

lemma hostile_anchor: "anchored (components (ascii ''/d'')) [ascii ''d''] hostile_files"
  unfolding hostile_dest
  by (rule anchored_absolute [OF hostile_wf]) (simp add: node_at_def hostile_files_def)

lemma hostile_state_files: "tr_fs hostile_state = hostile_files"
  by (simp add: hostile_state_def)

theorem pull_stays_inside_witness:
  "within [ascii ''d''] hostile_files
     (tr_fs (snd (pull_compatible hostile default_options ([ascii ''r''] @ [ascii ''/d'']) hostile_state)))"
  unfolding hostile_state_files [symmetric]
proof (rule pull_stays_inside)
  show "anchored (components (ascii ''/d'')) [ascii ''d''] (tr_fs hostile_state)"
    unfolding hostile_state_files by (rule hostile_anchor)
  show "components (ascii ''/d'') \<noteq> []" unfolding hostile_dest by simp
qed (rule prod.collapse [symmetric])

theorem pull_to_a_name_witness:
  "within [] hostile_files
     (tr_fs (snd (pull_compatible hostile default_options ([ascii ''r''] @ [ascii ''/n'']) hostile_state)))"
  unfolding hostile_state_files [symmetric]
proof (rule pull_to_a_name)
  show "anchored (Root_Dir # map Normal []) [] (tr_fs hostile_state)"
    unfolding hostile_state_files by (rule anchored_absolute [OF hostile_wf]) (simp add: node_at_def)
  show "components (ascii ''/n'') = (Root_Dir # map Normal []) @ [Normal (ascii ''n'')]" by code_simp
  show "\<forall>t. node_at (tr_fs hostile_state) ([] @ [ascii ''n'']) \<noteq> Some (Symlink t)"
    by (simp add: hostile_state_files node_at_def hostile_files_def)
qed (rule prod.collapse [symmetric])

definition hostile_file :: remote_entry where
  "hostile_file = \<lparr>re_kind = FILE, re_mode = 420, re_mtime = 0, re_path = ascii ''r''\<rparr>"

lemma hostile_download:
  "fst (pull_regular hostile False hostile_file (Root_Dir # map Normal [] @ map Normal ([ascii ''etc''] @ [ascii ''f''])) hostile_state) = Ok ()"
  by code_simp


end
