(* ===== verification/Cli_Push.thy ===== *)
theory Cli_Push
  imports Cli_Transfers
begin

text \<open>
  Sending trees: \<open>push\<close> and \<open>sync\<close> of \<^verbatim>\<open>adb_cli/src/compat.rs\<close>. The local tree is walked first, every link as
  a link; then each entry becomes a shell command or a file sent, in that order.
\<close>

section \<open>The local tree\<close>

text \<open>
  What the local file system adds to its nodes: the order in which a directory is listed, permissions
  and times. \<open>lh_depth\<close> bounds how deep the stack of the recursive walk may get.
\<close>

record local_host =
  lh_list :: "real \<Rightarrow> bytes list"
  lh_mode :: "real \<Rightarrow> nat"
  lh_mtime :: "real \<Rightarrow> int"
  lh_depth :: nat

record metadata =
  md_node :: node
  md_mode :: nat
  md_mtime :: int

definition local_metadata :: "local_host \<Rightarrow> file_system \<Rightarrow> path \<Rightarrow> metadata boxed" where
  "local_metadata h fs p =
     (case place fs p of
        None \<Rightarrow> boxed (os_error NotFound)
      | Some r \<Rightarrow>
          (case node_at fs r of
             None \<Rightarrow> boxed (os_error NotFound)
           | Some n \<Rightarrow> Ok \<lparr>md_node = n, md_mode = lh_mode h r, md_mtime = lh_mtime h r\<rparr>))"

definition read_dir :: "local_host \<Rightarrow> file_system \<Rightarrow> path \<Rightarrow> bytes list boxed" where
  "read_dir h fs p =
     (case resolve fs p of
        Some r \<Rightarrow> if is_directory fs r then Ok (lh_list h r) else boxed (os_error OtherKind)
      | None \<Rightarrow> boxed (os_error NotFound))"

fun concat_outcomes :: "('b \<Rightarrow> 'a list boxed) \<Rightarrow> 'b list \<Rightarrow> 'a list boxed" where
  "concat_outcomes f [] = Ok []"
| "concat_outcomes f (x # xs) =
     bind_outcome (f x) (\<lambda>ys. bind_outcome (concat_outcomes f xs) (\<lambda>zs. Ok (ys @ zs)))"

text \<open>Running out of stack is a crash.\<close>

fun collect_local_entries :: "nat \<Rightarrow> local_host \<Rightarrow> file_system \<Rightarrow> path \<Rightarrow> path list boxed" where
  "collect_local_entries 0 h fs root = Panic"
| "collect_local_entries (Suc n) h fs root =
     bind_outcome (local_metadata h fs root) (\<lambda>md.
       if md_node md = Directory then
         bind_outcome (read_dir h fs root) (\<lambda>names.
         bind_outcome (concat_outcomes (\<lambda>x. collect_local_entries n h fs (root @ [Normal x])) names) (\<lambda>below.
           Ok (root # below)))
       else Ok [root])"

section \<open>Names on the device\<close>

definition lossy_text :: "path \<Rightarrow> bytes" where
  "lossy_text p = utf8_lossy (path_text p)"

definition remote_join :: "bytes \<Rightarrow> path \<Rightarrow> bytes" where
  "remote_join base component =
     (if lossy_text component = [] then trim_end SLASH base
      else trim_end SLASH base @ [SLASH] @ lossy_text component)"

text \<open>The parent of a path, as a text: what was written stays as it is, up to trailing separators and dots.\<close>

definition trailing_dropped :: "bytes list \<Rightarrow> bytes list" where
  "trailing_dropped ps = rev (dropWhile (\<lambda>p. p = [] \<or> p = [DOT]) (rev ps))"

definition trim_parts :: "bool \<Rightarrow> bytes list \<Rightarrow> bytes list" where
  "trim_parts absolute ps =
     (if \<not> absolute \<and> ps \<noteq> [] \<and> hd ps = [DOT] then [DOT] # trailing_dropped (tl ps) else trailing_dropped ps)"

definition parent_text :: "bytes \<Rightarrow> bytes option" where
  "parent_text s =
     (let absolute = (s \<noteq> [] \<and> hd s = SLASH);
          ps = trim_parts absolute (split_on SLASH (if absolute then tl s else s))
      in if ps = [] then None
         else Some ((if absolute then [SLASH] else []) @ join [SLASH] (trim_parts absolute (butlast ps))))"

section \<open>Commands of the device\<close>

definition show_int :: "int \<Rightarrow> bytes" where
  "show_int n = (if n < 0 then 45 # show_nat (nat (- n)) else show_nat (nat n))"

definition make_directory :: "bytes \<Rightarrow> bytes" where
  "make_directory p = ascii ''mkdir -p -- '' @ shell_quote p"

definition stat_command :: "bytes \<Rightarrow> bytes" where
  "stat_command p = ascii ''stat -c '' @ [39] @ ascii ''%s %Y'' @ [39] @ ascii '' -- '' @ shell_quote p"

definition metadata_command :: "bytes \<Rightarrow> metadata \<Rightarrow> bytes" where
  "metadata_command p md =
     ascii ''touch -m -d @'' @ show_int (md_mtime md) @ ascii '' -- '' @ shell_quote p @ ascii '' && chmod ''
       @ show_radix 8 (md_mode md mod 4096) @ ascii '' -- '' @ shell_quote p"

definition link_command :: "bytes \<Rightarrow> bytes \<Rightarrow> bytes \<Rightarrow> bytes" where
  "link_command up target p =
     ascii ''mkdir -p -- '' @ shell_quote up @ ascii '' && rm -f -- '' @ shell_quote p @ ascii '' && ln -s -- ''
       @ shell_quote target @ ascii '' '' @ shell_quote p"

definition remote_shell :: "'d transfer_device \<Rightarrow> bytes \<Rightarrow> ('d transfer, unit) boxed_io" where
  "remote_shell td command = bind_boxed (on_remote (td_shell td command)) (\<lambda>_. boxed_value (Ok ()))"

definition apply_remote_metadata :: "'d transfer_device \<Rightarrow> bytes \<Rightarrow> metadata \<Rightarrow> ('d transfer, unit) boxed_io" where
  "apply_remote_metadata td p md = remote_shell td (metadata_command p md)"

definition node_length :: "node \<Rightarrow> nat" where
  "node_length n = (case n of Regular bs \<Rightarrow> length bs | _ \<Rightarrow> 0)"

definition is_current :: "bytes \<Rightarrow> metadata \<Rightarrow> bool" where
  "is_current out md =
     (let parts = words [] (utf8_lossy out);
          len = (case parts of f # _ \<Rightarrow> parse_uint 10 64 f | [] \<Rightarrow> None);
          mtime = (case parts of _ # f # _ \<Rightarrow> parse_i64 f | _ \<Rightarrow> None)
      in len = Some (node_length (md_node md)) \<and> (case mtime of Some t \<Rightarrow> md_mtime md \<le> t | None \<Rightarrow> False))"

definition remote_file_is_current :: "'d transfer_device \<Rightarrow> bytes \<Rightarrow> metadata \<Rightarrow> ('d transfer, bool) boxed_io" where
  "remote_file_is_current td p md st =
     (case on_remote (td_shell td (stat_command p)) st of
        (Ok out, st) \<Rightarrow> (Ok (is_current out md), st)
      | (Err _, st) \<Rightarrow> (Ok False, st)
      | (Panic, st) \<Rightarrow> (Panic, st))"

section \<open>Sending one entry\<close>

definition push_link :: "'d transfer_device \<Rightarrow> bytes \<Rightarrow> bytes \<Rightarrow> ('d transfer, unit) boxed_io" where
  "push_link td target p =
     bind_boxed (boxed_value (ok_or (ascii ''invalid remote path'') (parent_text p))) (\<lambda>up.
       remote_shell td (link_command (utf8_lossy up) (utf8_lossy target) p))"

definition push_regular ::
    "'d transfer_device \<Rightarrow> transfer_options \<Rightarrow> path \<Rightarrow> bytes \<Rightarrow> metadata \<Rightarrow> ('d transfer, unit) boxed_io" where
  "push_regular td options entry p md =
     bind_boxed (if to_sync options then remote_file_is_current td p md else boxed_value (Ok False)) (\<lambda>current.
       if current then boxed_value (Ok ())
       else bind_boxed (case parent_text p of
                          Some up \<Rightarrow> remote_shell td (make_directory (utf8_lossy up))
                        | None \<Rightarrow> boxed_value (Ok ())) (\<lambda>_.
            bind_boxed (\<lambda>st. on_remote (td_push td (tr_fs st) entry p) st) (\<lambda>_.
              apply_remote_metadata td p md)))"

text \<open>Sending the node; a directory is to be given its metadata in the end.\<close>

definition push_node ::
    "'d transfer_device \<Rightarrow> transfer_options \<Rightarrow> path \<Rightarrow> bytes \<Rightarrow> metadata
      \<Rightarrow> ('d transfer, (bytes \<times> metadata) list) boxed_io" where
  "push_node td options entry p md =
     (case md_node md of
        Directory \<Rightarrow> bind_boxed (remote_shell td (make_directory p)) (\<lambda>_. boxed_value (Ok [(p, md)]))
      | Symlink target \<Rightarrow> bind_boxed (push_link td target p) (\<lambda>_. boxed_value (Ok []))
      | Regular _ \<Rightarrow> bind_boxed (push_regular td options entry p md) (\<lambda>_. boxed_value (Ok [])))"

definition remote_name :: "bool \<Rightarrow> bytes \<Rightarrow> bytes \<Rightarrow> path \<Rightarrow> bytes" where
  "remote_name multi dest base relative =
     (if multi then remote_join (remote_join dest [Normal base]) relative else dest)"

definition push_entry ::
    "'d transfer_device \<Rightarrow> local_host \<Rightarrow> transfer_options \<Rightarrow> bool \<Rightarrow> bytes \<Rightarrow> path \<Rightarrow> bytes \<Rightarrow> path
      \<Rightarrow> ('d transfer, (bytes \<times> metadata) list) boxed_io" where
  "push_entry td h options multi dest root base entry =
     bind_boxed (boxed_value (validate_transfer_path (lossy_text entry))) (\<lambda>_.
     bind_boxed (\<lambda>st. (local_metadata h (tr_fs st) entry, st)) (\<lambda>md.
     bind_boxed (boxed_value (ok_or (ascii ''prefix not found'') (strip_path root entry))) (\<lambda>relative.
       if to_dry_run options then boxed_value (Ok [])
       else push_node td options entry (remote_name multi dest base relative) md)))"

fun push_entries ::
    "'d transfer_device \<Rightarrow> local_host \<Rightarrow> transfer_options \<Rightarrow> bool \<Rightarrow> bytes \<Rightarrow> path \<Rightarrow> bytes \<Rightarrow> path list
      \<Rightarrow> (bytes \<times> metadata) list \<Rightarrow> ('d transfer, (bytes \<times> metadata) list) boxed_io" where
  "push_entries td h options multi dest root base [] dirs = boxed_value (Ok dirs)"
| "push_entries td h options multi dest root base (e # es) dirs =
     bind_boxed (push_entry td h options multi dest root base e) (\<lambda>new.
       push_entries td h options multi dest root base es (new @ dirs))"

text \<open>The metadata of the directories, from the leaves back to the root.\<close>

fun restore_remote :: "'d transfer_device \<Rightarrow> (bytes \<times> metadata) list \<Rightarrow> ('d transfer, unit) boxed_io" where
  "restore_remote td [] = boxed_value (Ok ())"
| "restore_remote td ((p, md) # dirs) =
     bind_boxed (apply_remote_metadata td p md) (\<lambda>_. restore_remote td dirs)"

section \<open>Push\<close>

definition push_source ::
    "'d transfer_device \<Rightarrow> local_host \<Rightarrow> transfer_options \<Rightarrow> bool \<Rightarrow> bytes \<Rightarrow> bytes \<Rightarrow> ('d transfer, unit) boxed_io" where
  "push_source td h options multi dest source =
     bind_boxed (boxed_value (ok_or (ascii ''invalid local path'') (file_name (components source)))) (\<lambda>base.
     bind_boxed (\<lambda>st. (collect_local_entries (lh_depth h) h (tr_fs st) (components source), st)) (\<lambda>entries.
     bind_boxed (push_entries td h options multi dest (components source) base entries []) (\<lambda>dirs.
       restore_remote td dirs)))"

fun push_sources ::
    "'d transfer_device \<Rightarrow> local_host \<Rightarrow> transfer_options \<Rightarrow> bool \<Rightarrow> bytes \<Rightarrow> bytes list \<Rightarrow> ('d transfer, unit) boxed_io" where
  "push_sources td h options multi dest [] = boxed_value (Ok ())"
| "push_sources td h options multi dest (s # ss) =
     bind_boxed (push_source td h options multi dest s) (\<lambda>_. push_sources td h options multi dest ss)"

fun validate_all :: "bytes list \<Rightarrow> unit boxed" where
  "validate_all [] = Ok ()"
| "validate_all (p # ps) = bind_outcome (validate_transfer_path p) (\<lambda>_. validate_all ps)"

definition directory_test :: "bytes \<Rightarrow> bytes" where
  "directory_test dest = ascii ''if [ -d '' @ shell_quote dest @ ascii '' ]; then printf directory; fi''"

definition is_real_directory :: "file_system \<Rightarrow> bytes \<Rightarrow> bool" where
  "is_real_directory fs s \<longleftrightarrow> symlink_metadata fs (components s) = Some Directory"

definition push_compatible ::
    "'d transfer_device \<Rightarrow> local_host \<Rightarrow> transfer_options \<Rightarrow> bytes list \<Rightarrow> ('d transfer, unit) boxed_io" where
  "push_compatible td h options paths =
     (if length paths < 2 then boxed_value (failure ''push requires at least one source and a destination'')
      else let dest = last paths; sources = butlast paths
           in bind_boxed (boxed_value (validate_transfer_path dest)) (\<lambda>_.
              bind_boxed (boxed_value (validate_all sources)) (\<lambda>_.
              bind_boxed (on_remote (td_shell td (directory_test dest))) (\<lambda>out.
              bind_boxed (\<lambda>st. (Ok (out = ascii ''directory'' \<or> 1 < length sources
                                 \<or> list_ex (is_real_directory (tr_fs st)) sources), st)) (\<lambda>multi.
              bind_boxed (if multi \<and> \<not> to_dry_run options then remote_shell td (make_directory dest) else boxed_value (Ok ())) (\<lambda>_.
                push_sources td h options multi dest sources))))))"

section \<open>Sync\<close>

fun sync_options :: "bytes list \<Rightarrow> bool \<Rightarrow> bytes option \<Rightarrow> (bool \<times> bytes option) boxed" where
  "sync_options [] list_only part = Ok (list_only, part)"
| "sync_options (a # args) list_only part =
     (if a = ascii ''-l'' then sync_options args True part
      else if a = ascii ''-Z'' then failure ''sync compression is not supported by the bundled adb client''
      else if a = ascii ''-z'' then
        bind_outcome (ok_or (ascii ''missing compression algorithm'') (case args of x # _ \<Rightarrow> Some x | [] \<Rightarrow> None)) (\<lambda>_.
          failure ''sync compression is not supported by the bundled adb client'')
      else if a \<noteq> [] \<and> hd a = 45 then Err (ascii ''unsupported sync option: '' @ a)
      else if part \<noteq> None then failure ''sync accepts at most one partition''
      else sync_options args list_only (Some a))"

definition PARTITIONS :: "bytes list" where
  "PARTITIONS = map ascii [''data'', ''odm'', ''oem'', ''product'', ''system'', ''system_ext'', ''vendor'']"

definition sync_partitions :: "bytes \<Rightarrow> bytes list boxed" where
  "sync_partitions selected =
     (if selected = ascii ''all'' then Ok PARTITIONS
      else if selected \<in> set PARTITIONS then Ok [selected]
      else Err (ascii ''unsupported sync partition: '' @ selected))"

fun sync_entries ::
    "'d transfer_device \<Rightarrow> local_host \<Rightarrow> bool \<Rightarrow> path \<Rightarrow> bytes \<Rightarrow> bytes list \<Rightarrow> ('d transfer, unit) boxed_io" where
  "sync_entries td h list_only root name [] = boxed_value (Ok ())"
| "sync_entries td h list_only root name (x # xs) =
     bind_boxed (push_compatible td h (default_options\<lparr>to_dry_run := list_only, to_sync := True\<rparr>)
                   [lossy_text (root @ [Normal x]), SLASH # name]) (\<lambda>_.
       sync_entries td h list_only root name xs)"

definition sync_partition ::
    "'d transfer_device \<Rightarrow> local_host \<Rightarrow> bool \<Rightarrow> bool \<Rightarrow> path \<Rightarrow> bytes \<Rightarrow> ('d transfer, unit) boxed_io" where
  "sync_partition td h list_only all product_out name st =
     (let root = join_path product_out (components name)
      in if path_is_dir (tr_fs st) root then
           bind_boxed (\<lambda>st. (read_dir h (tr_fs st) root, st)) (\<lambda>names. sync_entries td h list_only root name names) st
         else if all then (Ok (), st)
         else (Err (ascii ''sync source is missing: '' @ path_text root), st))"

fun sync_all ::
    "'d transfer_device \<Rightarrow> local_host \<Rightarrow> bool \<Rightarrow> bool \<Rightarrow> path \<Rightarrow> bytes list \<Rightarrow> ('d transfer, unit) boxed_io" where
  "sync_all td h list_only all product_out [] = boxed_value (Ok ())"
| "sync_all td h list_only all product_out (n # ns) =
     bind_boxed (sync_partition td h list_only all product_out n) (\<lambda>_. sync_all td h list_only all product_out ns)"

text \<open>\<open>product_out\<close> is the environment variable \<^verbatim>\<open>ANDROID_PRODUCT_OUT\<close>.\<close>

definition sync_compatible ::
    "'d transfer_device \<Rightarrow> local_host \<Rightarrow> bytes option \<Rightarrow> bytes list \<Rightarrow> ('d transfer, unit) boxed_io" where
  "sync_compatible td h product_out args =
     bind_boxed (boxed_value (sync_options (tl args) False None)) (\<lambda>(list_only, part).
     bind_boxed (boxed_value (ok_or (ascii ''ANDROID_PRODUCT_OUT is not set'') product_out)) (\<lambda>out.
       let selected = (case part of Some p \<Rightarrow> p | None \<Rightarrow> ascii ''all'')
       in bind_boxed (boxed_value (sync_partitions selected)) (\<lambda>names.
            sync_all td h list_only (selected = ascii ''all'') (components out) names)))"

end
