(* ===== verification/Push_Script.thy ===== *)
theory Push_Script
  imports Cli_Push
begin

text \<open>
  What a push does: it walks over every node of the tree once, and then runs a fixed list of commands
  and transfers, one after the other, up to the first that fails.
\<close>

section \<open>The walk reaches every node once\<close>

definition lists_directories :: "local_host \<Rightarrow> file_system \<Rightarrow> bool" where
  "lists_directories h fs \<longleftrightarrow>
     (\<forall>r. is_directory fs r \<longrightarrow> distinct (lh_list h r) \<and> set (lh_list h r) = {x. node_at fs (r @ [x]) \<noteq> None})"

text \<open>A path whose last component is no link.\<close>

definition leads_to :: "file_system \<Rightarrow> path \<Rightarrow> real \<Rightarrow> bool" where
  "leads_to fs root D \<longleftrightarrow> root \<noteq> [] \<and> place fs root = Some D \<and> (is_directory fs D \<longrightarrow> walk LINKS fs (fs_cwd fs) root = Some D)"

lemma concat_outcomes_Ok:
  "(\<And>x. x \<in> set xs \<Longrightarrow> f x = Ok (g x)) \<Longrightarrow> concat_outcomes f xs = Ok (concat (map g xs))"
  by (induction xs) simp_all

lemma distinct_concat_map:
  "distinct xs \<Longrightarrow> (\<And>x. x \<in> set xs \<Longrightarrow> distinct (g x)) \<Longrightarrow>
     (\<And>x y. x \<in> set xs \<Longrightarrow> y \<in> set xs \<Longrightarrow> x \<noteq> y \<Longrightarrow> set (g x) \<inter> set (g y) = {}) \<Longrightarrow> distinct (concat (map g xs))"
  by (induction xs) (simp, fastforce)

lemma walk_down:
  assumes "fs_wf fs" and "leads_to fs root D" and "is_directory fs (D @ xs)"
  shows "walk LINKS fs (fs_cwd fs) (root @ map Normal xs) = Some (D @ xs)"
proof -
  have up: "is_directory fs (D @ ys)" if "prefix ys xs" for ys
    using that assms(3) wf_above [OF assms(1), of "D @ ys"] by (cases "ys = xs") (auto simp: prefix_def)
  have D: "is_directory fs D" using up [of "[]"] by simp
  with assms(2) have "walk LINKS fs (fs_cwd fs) root = Some D" by (simp add: leads_to_def)
  from walk_append [OF this D] obtain m where
    "walk LINKS fs (fs_cwd fs) (root @ map Normal xs) = walk m fs D (map Normal xs)" by blast
  with walk_plain_directories [of xs fs D m] up show ?thesis by simp
qed

lemma place_down:
  assumes "fs_wf fs" and "leads_to fs root D" and "node_at fs (D @ xs) \<noteq> None"
  shows "place fs (root @ map Normal xs) = Some (D @ xs)"
proof (cases xs rule: rev_cases)
  case Nil
  with assms(2) show ?thesis by (simp add: leads_to_def)
next
  case (snoc ys y)
  then have "is_directory fs (D @ ys)" using wf_above [OF assms(1), of "D @ ys" "[y]"] assms(3) by simp
  with walk_down [OF assms(1,2) this] snoc show ?thesis by (simp add: place_def butlast_append)
qed

definition nodes_below :: "file_system \<Rightarrow> path \<Rightarrow> real \<Rightarrow> bytes list \<Rightarrow> path set" where
  "nodes_below fs root D xs = {root @ map Normal (xs @ ys) | ys. node_at fs (D @ xs @ ys) \<noteq> None}"

lemma nodes_below_split:
  assumes "fs_wf fs" and "node_at fs (D @ xs) \<noteq> None"
  shows "nodes_below fs root D xs
    = insert (root @ map Normal xs) (\<Union>x \<in> {x. node_at fs (D @ xs @ [x]) \<noteq> None}. nodes_below fs root D (xs @ [x]))"
proof (intro equalityI subsetI)
  fix p
  assume "p \<in> nodes_below fs root D xs"
  then obtain ys where ys: "p = root @ map Normal (xs @ ys)" "node_at fs (D @ xs @ ys) \<noteq> None" by (auto simp: nodes_below_def)
  show "p \<in> insert (root @ map Normal xs) (\<Union>x \<in> {x. node_at fs (D @ xs @ [x]) \<noteq> None}. nodes_below fs root D (xs @ [x]))"
  proof (cases ys)
    case (Cons y zs)
    have "node_at fs ((D @ xs @ [y]) @ zs) \<noteq> None" using ys(2) Cons by simp
    then have "node_at fs (D @ xs @ [y]) \<noteq> None"
      using wf_above [OF assms(1), of "D @ xs @ [y]" zs] by (cases "zs = []") auto
    moreover have "p \<in> nodes_below fs root D (xs @ [y])" using ys Cons by (auto simp: nodes_below_def)
    ultimately show ?thesis by blast
  qed (use ys in simp)
next
  fix p
  assume "p \<in> insert (root @ map Normal xs) (\<Union>x \<in> {x. node_at fs (D @ xs @ [x]) \<noteq> None}. nodes_below fs root D (xs @ [x]))"
  then consider "p = root @ map Normal xs" | x ys where "p = root @ map Normal (xs @ x # ys)" "node_at fs (D @ xs @ x # ys) \<noteq> None"
    by (auto simp: nodes_below_def)
  then show "p \<in> nodes_below fs root D xs"
    using assms(2) by cases (auto simp: nodes_below_def intro: exI [of _ "[]"] exI [of _ "_ # _"])
qed

lemma nodes_below_names: "p \<in> nodes_below fs root D (xs @ [x]) \<Longrightarrow> take (Suc (length root + length xs)) p = root @ map Normal (xs @ [x])"
  by (auto simp: nodes_below_def)

lemma collected:
  assumes "fs_wf fs" and "leads_to fs root D" and "lists_directories h fs"
  shows "node_at fs (D @ xs) \<noteq> None \<Longrightarrow> \<forall>ys. node_at fs (D @ xs @ ys) \<noteq> None \<longrightarrow> length ys < n \<Longrightarrow>
    \<exists>es. collect_local_entries n h fs (root @ map Normal xs) = Ok es \<and> set es = nodes_below fs root D xs \<and> distinct es"
proof (induction n arbitrary: xs)
  case 0
  then show ?case by (metis append_Nil2 list.size(3) not_less_zero)
next
  case (Suc n)
  let ?p = "root @ map Normal xs"
  obtain node where node: "node_at fs (D @ xs) = Some node" using Suc.prems(1) by blast
  then obtain md where md: "local_metadata h fs ?p = Ok md" "md_node md = node"
    using place_down [OF assms(1,2) Suc.prems(1)] by (simp add: local_metadata_def)
  show ?case
  proof (cases "node = Directory")
    case False
    have "node_at fs (D @ xs @ [x]) = None" for x
      using wf_above [OF assms(1), of "D @ xs" "[x]"] node False by (cases "node_at fs (D @ xs @ [x])") auto
    then have "{x. node_at fs (D @ xs @ [x]) \<noteq> None} = {}" by simp
    with nodes_below_split [OF assms(1) Suc.prems(1), of root] md False show ?thesis by simp
  next
    case True
    with node have dir: "is_directory fs (D @ xs)" by simp
    let ?names = "lh_list h (D @ xs)"
    have names: "distinct ?names" "set ?names = {x. node_at fs (D @ xs @ [x]) \<noteq> None}"
      using assms(3) dir by (simp_all add: lists_directories_def)
    have "root \<noteq> []" using assms(2) by (simp add: leads_to_def)
    then have "read_dir h fs ?p = Ok ?names"
      using walk_down [OF assms(1,2) dir] dir by (simp add: read_dir_def resolve_def)
    have "\<exists>es. collect_local_entries n h fs (?p @ [Normal x]) = Ok es \<and> set es = nodes_below fs root D (xs @ [x]) \<and> distinct es"
      if "x \<in> set ?names" for x
    proof -
      have "\<forall>ys. node_at fs (D @ (xs @ [x]) @ ys) \<noteq> None \<longrightarrow> length ys < n"
        using Suc.prems(2) by (metis Suc_less_eq append.assoc append_Cons append_Nil length_Cons)
      with Suc.IH [of "xs @ [x]"] that names(2) show ?thesis by simp
    qed
    then obtain g where g: "\<And>x. x \<in> set ?names \<Longrightarrow> collect_local_entries n h fs (?p @ [Normal x]) = Ok (g x)
        \<and> set (g x) = nodes_below fs root D (xs @ [x]) \<and> distinct (g x)"
      by metis
    then have "collect_local_entries (Suc n) h fs ?p = Ok (?p # concat (map g ?names))"
      using md True \<open>read_dir h fs ?p = Ok ?names\<close> concat_outcomes_Ok [of ?names _ g] by simp
    moreover have "set (?p # concat (map g ?names)) = nodes_below fs root D xs"
      using nodes_below_split [OF assms(1) Suc.prems(1), of root] g names(2) by auto
    moreover have "distinct (concat (map g ?names))"
    proof -
      have "set (g x) \<inter> set (g y) = {}" if "x \<in> set ?names" "y \<in> set ?names" "x \<noteq> y" for x y
      proof -
        have "nodes_below fs root D (xs @ [x]) \<inter> nodes_below fs root D (xs @ [y]) = {}"
          using nodes_below_names [of _ fs root D xs x] nodes_below_names [of _ fs root D xs y] that(3) by fastforce
        with g that(1,2) show ?thesis by simp
      qed
      with names(1) g show ?thesis by (intro distinct_concat_map) auto
    qed
    moreover have "?p \<notin> set (concat (map g ?names))"
    proof
      assume "?p \<in> set (concat (map g ?names))"
      then obtain x where "?p \<in> nodes_below fs root D (xs @ [x])" using g by auto
      then show False by (auto simp: nodes_below_def)
    qed
    ultimately show ?thesis by (intro exI [of _ "?p # concat (map g ?names)"]) simp
  qed
qed

text \<open>
  C27: The walk before a push lists the root and every node below it exactly once, links as themselves:
  it never leaves the tree through one and always ends, as long as the stack is as deep as the tree.
\<close>

theorem walk_is_complete:
  assumes "fs_wf fs" and "leads_to fs root D" and "lists_directories h fs"
    and "node_at fs D \<noteq> None" and "\<forall>ys. node_at fs (D @ ys) \<noteq> None \<longrightarrow> length ys < lh_depth h"
  shows "\<exists>es. collect_local_entries (lh_depth h) h fs root = Ok es \<and> distinct es
    \<and> set es = {root @ map Normal ys | ys. node_at fs (D @ ys) \<noteq> None}"
  using collected [OF assms(1-3), of "[]" "lh_depth h"] assms(4,5) by (auto simp: nodes_below_def)

section \<open>The commands and transfers of a push\<close>

text \<open>Values stay folded here, so that the laws of sequencing apply.\<close>

declare boxed_simps(3) [simp del]

datatype push_op = Shell_Op bytes | Send_Op path bytes

fun run_ops :: "'d transfer_device \<Rightarrow> push_op list \<Rightarrow> ('d transfer, unit) boxed_io" where
  "run_ops td [] = boxed_value (Ok ())"
| "run_ops td (Shell_Op c # ops) = bind_boxed (remote_shell td c) (\<lambda>_. run_ops td ops)"
| "run_ops td (Send_Op entry p # ops) =
     bind_boxed (\<lambda>st. on_remote (td_push td (tr_fs st) entry p) st) (\<lambda>_. run_ops td ops)"

lemma bind_boxed_assoc: "bind_boxed (bind_boxed m f) g = bind_boxed m (\<lambda>a. bind_boxed (f a) g)"
  by (auto simp: bind_boxed_def fun_eq_iff split: prod.splits outcome.splits)

lemma bind_boxed_value: "bind_boxed (boxed_value (Ok a)) f = f a"
  by (simp add: fun_eq_iff bind_boxed_def boxed_value_def)

lemma bind_boxed_unit: "bind_boxed m (\<lambda>_. boxed_value (Ok ())) = m"
  by (auto simp: bind_boxed_def boxed_value_def fun_eq_iff split: prod.splits outcome.splits)

lemma bind_look:
  "bind_boxed (\<lambda>st. (f st, st)) g st
    = (case f st of Ok a \<Rightarrow> g a st | Err e \<Rightarrow> (Err e, st) | Panic \<Rightarrow> (Panic, st))"
  by (simp add: bind_boxed_def split: outcome.splits)

lemmas bind_laws = bind_boxed_assoc bind_boxed_value bind_boxed_unit

lemma run_ops_append: "run_ops td (ops @ more_ops) = bind_boxed (run_ops td ops) (\<lambda>_. run_ops td more_ops)"
  by (induction td ops rule: run_ops.induct) (simp_all add: bind_laws)

text \<open>Steps that leave the local files alone.\<close>

definition keeps_files :: "('d transfer, 'a) boxed_io \<Rightarrow> bool" where
  "keeps_files m \<longleftrightarrow> (\<forall>st. tr_fs (snd (m st)) = tr_fs st)"

lemma keeps_remote: "keeps_files (on_remote m)"
  by (auto simp: keeps_files_def on_remote_def split: prod.splits)

lemma keeps_value: "keeps_files (boxed_value r)"
  by (simp add: keeps_files_def boxed_value_def)

lemma keeps_look: "keeps_files (\<lambda>st. (f st, st))"
  by (simp add: keeps_files_def)

lemma keeps_bind: "keeps_files m \<Longrightarrow> (\<And>a. keeps_files (f a)) \<Longrightarrow> keeps_files (bind_boxed m f)"
  by (auto simp: keeps_files_def bind_boxed_def split: prod.splits outcome.splits) (metis snd_conv)+

lemma keeps_send: "keeps_files (\<lambda>st. on_remote (td_push td (tr_fs st) entry p) st)"
  by (auto simp: keeps_files_def on_remote_def split: prod.splits)

lemma keeps_current: "keeps_files (remote_file_is_current td p md)"
  using keeps_remote [of "td_shell td (stat_command p)"]
  by (auto simp: keeps_files_def remote_file_is_current_def split: prod.splits outcome.splits) (metis snd_conv)+

lemmas keeps_steps = keeps_bind keeps_remote keeps_value keeps_look keeps_send keeps_current

lemma keeps_shell: "keeps_files (remote_shell td c)"
  unfolding remote_shell_def by (intro keeps_steps)

lemma keeps_run_ops: "keeps_files (run_ops td ops)"
  by (induction td ops rule: run_ops.induct) (auto intro!: keeps_steps keeps_shell)

lemma keeps_push_node: "keeps_files (push_node td options entry p md)"
  by (auto simp: push_node_def push_link_def push_regular_def apply_remote_metadata_def
      intro!: keeps_steps keeps_shell split: node.splits option.splits)

lemma keeps_push_entry: "keeps_files (push_entry td h options multi dest root base entry)"
  by (auto simp: push_entry_def intro!: keeps_steps keeps_push_node)

lemma keeps_push_entries: "keeps_files (push_entries td h options multi dest root base es dirs)"
  by (induction es arbitrary: dirs) (auto intro!: keeps_steps keeps_push_entry)

lemma keeps_restore: "keeps_files (restore_remote td dirs)"
  by (induction td dirs rule: restore_remote.induct) (auto simp: apply_remote_metadata_def intro!: keeps_steps keeps_shell)

lemma keeps_push_sources: "keeps_files (push_sources td h options multi dest ss)"
  by (induction ss) (auto simp: push_source_def intro!: keeps_steps keeps_push_entries keeps_restore)

lemma keeps_push: "keeps_files (push_compatible td h options paths)"
  by (auto simp: push_compatible_def Let_def intro!: keeps_steps keeps_shell keeps_push_sources)

lemma keeps_sync_entries: "keeps_files (sync_entries td h list_only root name xs)"
  by (induction xs) (auto intro!: keeps_steps keeps_push)

lemma keeps_sync_partition: "keeps_files (sync_partition td h list_only everything product_out name)"
proof -
  have "keeps_files (bind_boxed (\<lambda>st. (read_dir h (tr_fs st) root, st)) (\<lambda>names. sync_entries td h list_only root name names))" for root
    by (intro keeps_steps keeps_sync_entries)
  then show ?thesis by (auto simp: keeps_files_def sync_partition_def Let_def)
qed

lemma keeps_sync_all: "keeps_files (sync_all td h list_only everything product_out names)"
  by (induction names) (auto intro!: keeps_steps keeps_sync_partition)

text \<open>
  \<^verbatim>\<open>push\<close> and \<^verbatim>\<open>sync\<close> only read the local files: whatever the device answers and however they end,
  no local node is created, changed, removed or touched.
\<close>

theorem push_keeps_local_files:
  "tr_fs (snd (push_compatible td h options paths st)) = tr_fs st
    \<and> tr_fs (snd (sync_compatible td h product_out args st)) = tr_fs st"
proof
  show "tr_fs (snd (push_compatible td h options paths st)) = tr_fs st" using keeps_push unfolding keeps_files_def by blast
  have "keeps_files (sync_compatible td h product_out args)"
    unfolding sync_compatible_def
    by (auto simp: Let_def split: prod.splits intro!: keeps_steps keeps_sync_all)
  then show "tr_fs (snd (sync_compatible td h product_out args st)) = tr_fs st" unfolding keeps_files_def by blast
qed

definition entry_ops :: "path \<Rightarrow> bytes \<Rightarrow> metadata \<Rightarrow> push_op list" where
  "entry_ops entry p md =
     (case md_node md of
        Directory \<Rightarrow> [Shell_Op (make_directory p)]
      | Symlink target \<Rightarrow>
          (case parent_text p of
             Some up \<Rightarrow> [Shell_Op (link_command (utf8_lossy up) (utf8_lossy target) p)]
           | None \<Rightarrow> [])
      | Regular _ \<Rightarrow>
          (case parent_text p of Some up \<Rightarrow> [Shell_Op (make_directory (utf8_lossy up))] | None \<Rightarrow> [])
            @ [Send_Op entry p, Shell_Op (metadata_command p md)])"

definition directory_of :: "bytes \<Rightarrow> metadata \<Rightarrow> (bytes \<times> metadata) list" where
  "directory_of p md = (if md_node md = Directory then [(p, md)] else [])"

text \<open>An entry, where it goes and what is known of it.\<close>

type_synonym planned = "path \<times> bytes \<times> metadata"

definition planned_entry :: "local_host \<Rightarrow> file_system \<Rightarrow> bool \<Rightarrow> bytes \<Rightarrow> path \<Rightarrow> bytes \<Rightarrow> path \<Rightarrow> planned option" where
  "planned_entry h fs multi dest root base entry =
     (case (validate_transfer_path (lossy_text entry), local_metadata h fs entry, strip_path root entry) of
        (Ok _, Ok md, Some relative) \<Rightarrow>
          let p = remote_name multi dest base relative
          in if is_symlink (Some (md_node md)) \<and> parent_text p = None then None else Some (entry, p, md)
      | _ \<Rightarrow> None)"

definition push_script :: "planned list \<Rightarrow> push_op list" where
  "push_script plan =
     concat (map (\<lambda>(entry, p, md). entry_ops entry p md) plan)
       @ map (\<lambda>(p, md). Shell_Op (metadata_command p md)) (rev (concat (map (\<lambda>(entry, p, md). directory_of p md) plan)))"

lemma push_node_ops:
  assumes "\<not> to_sync options" and "is_symlink (Some (md_node md)) \<longrightarrow> parent_text p \<noteq> None"
  shows "push_node td options entry p md = bind_boxed (run_ops td (entry_ops entry p md)) (\<lambda>_. boxed_value (Ok (directory_of p md)))"
  using assms
  by (auto simp: push_node_def entry_ops_def directory_of_def push_link_def push_regular_def apply_remote_metadata_def bind_laws
      is_symlink_def split: node.splits option.splits)

lemma push_entry_ops:
  assumes "planned_entry h (tr_fs st) multi dest root base entry = Some (entry', p, md)"
    and "\<not> to_sync options" and "\<not> to_dry_run options"
  shows "push_entry td h options multi dest root base entry st
    = bind_boxed (run_ops td (entry_ops entry p md)) (\<lambda>_. boxed_value (Ok (directory_of p md))) st"
    and "entry' = entry"
proof -
  have parts: "validate_transfer_path (lossy_text entry) = Ok ()" "local_metadata h (tr_fs st) entry = Ok md"
    "\<exists>relative. strip_path root entry = Some relative \<and> p = remote_name multi dest base relative"
    "is_symlink (Some (md_node md)) \<longrightarrow> parent_text p \<noteq> None" and same: "entry' = entry"
    using assms(1) by (auto simp: planned_entry_def Let_def split: outcome.splits option.splits if_splits)
  show "entry' = entry" by (rule same)
  have "push_entry td h options multi dest root base entry st = push_node td options entry p md st"
    using parts(1-3) assms(3) by (auto simp: push_entry_def bind_laws bind_look)
  then show "push_entry td h options multi dest root base entry st
    = bind_boxed (run_ops td (entry_ops entry p md)) (\<lambda>_. boxed_value (Ok (directory_of p md))) st"
    by (simp add: push_node_ops [OF assms(2) parts(4)])
qed

lemma restore_ops: "restore_remote td dirs = run_ops td (map (\<lambda>(p, md). Shell_Op (metadata_command p md)) dirs)"
  by (induction td dirs rule: restore_remote.induct) (simp_all add: apply_remote_metadata_def)

lemma bind_same_files:
  assumes "keeps_files m" and "\<And>a st'. tr_fs st' = tr_fs st \<Longrightarrow> f a st' = g a st'"
  shows "bind_boxed m f st = bind_boxed m g st"
proof -
  have "tr_fs (snd (m st)) = tr_fs st" using assms(1) by (simp add: keeps_files_def)
  with assms(2) have "f a (snd (m st)) = g a (snd (m st))" for a by blast
  then show ?thesis by (cases "m st") (auto simp: bind_boxed_def split: outcome.splits)
qed

lemma bind_same_start: "m st = m' st \<Longrightarrow> bind_boxed m f st = bind_boxed m' f st"
  by (simp add: bind_boxed_def)

lemma push_entries_ops:
  assumes "\<not> to_sync options" and "\<not> to_dry_run options"
  shows "map (planned_entry h (tr_fs st) multi dest root base) es = map Some plan \<Longrightarrow>
    push_entries td h options multi dest root base es dirs st
      = bind_boxed (run_ops td (concat (map (\<lambda>(entry, p, md). entry_ops entry p md) plan)))
          (\<lambda>_. boxed_value (Ok (rev (concat (map (\<lambda>(entry, p, md). directory_of p md) plan)) @ dirs))) st"
proof (induction es arbitrary: plan dirs st)
  case Nil
  then show ?case by simp
next
  case (Cons e es)
  then obtain q plan' where q: "plan = q # plan'" "planned_entry h (tr_fs st) multi dest root base e = Some q"
    "map (planned_entry h (tr_fs st) multi dest root base) es = map Some plan'"
    by (cases plan) auto
  obtain entry p md where pl: "q = (entry, p, md)" by (cases q)
  note one = push_entry_ops [OF q(2) [unfolded pl] assms]
  let ?rest = "\<lambda>st dirs. push_entries td h options multi dest root base es dirs st"
  have "push_entries td h options multi dest root base (e # es) dirs st
      = bind_boxed (bind_boxed (run_ops td (entry_ops e p md)) (\<lambda>_. boxed_value (Ok (directory_of p md))))
          (\<lambda>new. push_entries td h options multi dest root base es (new @ dirs)) st"
    using one(1) by (simp add: bind_boxed_def)
  also have "\<dots> = bind_boxed (run_ops td (entry_ops e p md)) (\<lambda>_. push_entries td h options multi dest root base es (directory_of p md @ dirs)) st"
    by (simp add: bind_laws)
  also have "\<dots> = bind_boxed (run_ops td (entry_ops e p md))
      (\<lambda>_. bind_boxed (run_ops td (concat (map (\<lambda>(entry, p, md). entry_ops entry p md) plan')))
          (\<lambda>_. boxed_value (Ok (rev (concat (map (\<lambda>(entry, p, md). directory_of p md) plan')) @ directory_of p md @ dirs)))) st"
  proof (rule bind_same_files [OF keeps_run_ops])
    fix a and st' :: "'a transfer"
    assume "tr_fs st' = tr_fs st"
    with q(3) have "map (planned_entry h (tr_fs st') multi dest root base) es = map Some plan'" by simp
    from Cons.IH [OF this] show "push_entries td h options multi dest root base es (directory_of p md @ dirs) st'
      = bind_boxed (run_ops td (concat (map (\<lambda>(entry, p, md). entry_ops entry p md) plan')))
          (\<lambda>_. boxed_value (Ok (rev (concat (map (\<lambda>(entry, p, md). directory_of p md) plan')) @ directory_of p md @ dirs))) st'" .
  qed
  moreover have "rev (directory_of p md) = directory_of p md" by (simp add: directory_of_def)
  ultimately show ?case by (simp add: q(1) pl one(2) run_ops_append bind_laws)
qed

text \<open>
  C26: When every entry of a tree can be sent, pushing it is running the commands and transfers of its
  script in order, up to the first that fails: each directory is made, each file is sent once, to the
  place under the destination that it has under the source, after its directory has been made and
  before it is given its metadata, and the directories are given theirs in the end, leaves first.
\<close>

theorem push_runs_its_script:
  assumes "\<not> to_sync options" and "\<not> to_dry_run options"
    and "file_name (components source) = Some base"
    and "collect_local_entries (lh_depth h) h (tr_fs st) (components source) = Ok es"
    and "map (planned_entry h (tr_fs st) multi dest (components source) base) es = map Some plan"
  shows "push_source td h options multi dest source st = run_ops td (push_script plan) st"
proof -
  let ?entries = "concat (map (\<lambda>(entry, p, md). entry_ops entry p md) plan)"
    and ?dirs = "rev (concat (map (\<lambda>(entry, p, md). directory_of p md) plan))"
  have "push_source td h options multi dest source st
      = bind_boxed (push_entries td h options multi dest (components source) base es []) (restore_remote td) st"
    using assms(3,4) by (simp add: push_source_def bind_laws bind_look)
  also have "\<dots> = bind_boxed (bind_boxed (run_ops td ?entries) (\<lambda>_. boxed_value (Ok (?dirs @ [])))) (restore_remote td) st"
    using push_entries_ops [OF assms(1,2,5), of td "[]"] by (rule bind_same_start)
  also have "\<dots> = run_ops td (push_script plan) st"
    by (simp add: push_script_def restore_ops run_ops_append bind_laws)
  finally show ?thesis .
qed

section \<open>Dry runs\<close>

text \<open>Steps that change nothing, and what they yield.\<close>

definition only_looks :: "('d transfer, 'a) boxed_io \<Rightarrow> ('a \<Rightarrow> bool) \<Rightarrow> bool" where
  "only_looks m P \<longleftrightarrow> (\<forall>st. snd (m st) = st \<and> (\<forall>a. fst (m st) = Ok a \<longrightarrow> P a))"

lemma looks_value: "(\<And>a. r = Ok a \<Longrightarrow> P a) \<Longrightarrow> only_looks (boxed_value r) P"
  by (simp add: only_looks_def boxed_value_def)

lemma looks_state: "only_looks (\<lambda>st. (f st, st)) (\<lambda>_. True)"
  by (simp add: only_looks_def)

lemma looks_bind:
  assumes "only_looks m P" and "\<And>a. P a \<Longrightarrow> only_looks (f a) Q"
  shows "only_looks (bind_boxed m f) Q"
  unfolding only_looks_def
proof
  fix st
  have one: "snd (m st) = st" "\<And>a. fst (m st) = Ok a \<Longrightarrow> P a" using assms(1) by (auto simp: only_looks_def)
  then show "snd (bind_boxed m f st) = st \<and> (\<forall>a. fst (bind_boxed m f st) = Ok a \<longrightarrow> Q a)"
    using assms(2) by (cases "m st"; cases "fst (m st)") (auto simp: bind_boxed_def only_looks_def)
qed

lemma looks_any: "only_looks (boxed_value r) (\<lambda>_. True)"
  by (simp add: looks_value)

lemma looks_push_entry:
  assumes "to_dry_run options"
  shows "only_looks (push_entry td h options multi dest root base e) (\<lambda>dirs. dirs = [])"
  unfolding push_entry_def
  by (rule looks_bind [OF looks_any], rule looks_bind [OF looks_state], rule looks_bind [OF looks_any])
    (use assms in \<open>auto intro: looks_value\<close>)

lemma looks_push_entries:
  assumes "to_dry_run options"
  shows "only_looks (push_entries td h options multi dest root base es []) (\<lambda>dirs. dirs = [])"
proof (induction es)
  case (Cons e es)
  show ?case unfolding push_entries.simps
    by (rule looks_bind [OF looks_push_entry [OF assms]]) (use Cons in simp)
qed (auto intro: looks_value)

lemma looks_push_sources:
  assumes "to_dry_run options"
  shows "only_looks (push_sources td h options multi dest ss) (\<lambda>_. True)"
proof (induction ss)
  case (Cons s ss)
  have "only_looks (push_source td h options multi dest s) (\<lambda>_. True)"
    unfolding push_source_def
    by (rule looks_bind [OF looks_any], rule looks_bind [OF looks_state], rule looks_bind [OF looks_push_entries [OF assms]])
      (simp add: looks_any)
  with Cons show ?case by (auto intro: looks_bind)
qed (simp add: looks_any)

lemma snd_bind_value: "snd (bind_boxed (boxed_value r) f st) = (case r of Ok a \<Rightarrow> snd (f a st) | _ \<Rightarrow> st)"
  by (cases r) (simp_all add: bind_boxed_def boxed_value_def)

text \<open>
  A dry run, as \<^verbatim>\<open>sync -l\<close> makes, asks the device whether the destination is a directory and nothing
  else: it ends in the state after that one question, or before it when a path is refused.
\<close>

theorem dry_run_sends_nothing:
  assumes "to_dry_run options"
  shows "snd (push_compatible td h options paths st)
    \<in> {st, snd (on_remote (td_shell td (directory_test (last paths))) st)}"
proof -
  let ?asked = "on_remote (td_shell td (directory_test (last paths)))"
  let ?then = "\<lambda>out. bind_boxed (\<lambda>st. (Ok (out = ascii ''directory'' \<or> 1 < length (butlast paths)
        \<or> list_ex (is_real_directory (tr_fs st)) (butlast paths)), st)) (\<lambda>multi.
      bind_boxed (if multi \<and> \<not> to_dry_run options then remote_shell td (make_directory (last paths)) else boxed_value (Ok ())) (\<lambda>_.
        push_sources td h options multi (last paths) (butlast paths)))"
  have "only_looks (?then out) (\<lambda>_. True)" for out
    by (rule looks_bind [OF looks_state])
      (use assms in \<open>auto intro!: looks_bind [OF looks_any] looks_push_sources\<close>)
  then have "snd (bind_boxed ?asked ?then st) = snd (?asked st)"
    by (cases "?asked st"; cases "fst (?asked st)") (auto simp: bind_boxed_def only_looks_def)
  moreover have "push_compatible td h options paths
      = (if length paths < 2 then boxed_value (failure ''push requires at least one source and a destination'')
         else bind_boxed (boxed_value (validate_transfer_path (last paths))) (\<lambda>_.
              bind_boxed (boxed_value (validate_all (butlast paths))) (\<lambda>_. bind_boxed ?asked ?then)))"
    by (simp add: push_compatible_def Let_def)
  ultimately show ?thesis
    by (simp add: snd_bind_value boxed_value_def split: outcome.splits)
qed

section \<open>What goes wrong\<close>

text \<open>
  A destination without a slash has the empty path as its parent, and the device is asked to make the
  directory with no name first, which its \<^verbatim>\<open>mkdir\<close> refuses: such a push never succeeds, although the file
  could be written.
\<close>

lemma relative_destination_has_empty_parent:
  assumes "p \<noteq> []" and "SLASH \<notin> set p" and "p \<noteq> [DOT]"
  shows "entry_ops entry p \<lparr>md_node = Regular bs, md_mode = m, md_mtime = t\<rparr>
    = [Shell_Op (ascii ''mkdir -p -- '' @ [39, 39]), Send_Op entry p,
       Shell_Op (metadata_command p \<lparr>md_node = Regular bs, md_mode = m, md_mtime = t\<rparr>)]"
proof -
  have "hd p \<noteq> SLASH" using assms(1,2) by (cases p) auto
  moreover have "split_on SLASH p = [p]" using assms(2) by (rule split_on_clean)
  ultimately have "parent_text p = Some []"
    using assms(1,3) by (simp add: parent_text_def trim_parts_def trailing_dropped_def)
  then show ?thesis by (simp add: entry_ops_def make_directory_def shell_quote_def utf8_lossy.simps)
qed

section \<open>A small tree\<close>

definition small_files :: file_system where
  "small_files = \<lparr>fs_nodes = map_of [([ascii ''d''], Directory), ([ascii ''d'', ascii ''f''], Regular [1]),
       ([ascii ''d'', ascii ''l''], Symlink (ascii ''f''))],
     fs_cwd = [], fs_denied = (\<lambda>_. False), fs_touched = []\<rparr>"

definition small_host :: local_host where
  "small_host = \<lparr>lh_list = (\<lambda>r. if r = [] then [ascii ''d''] else if r = [ascii ''d''] then [ascii ''l'', ascii ''f''] else []),
     lh_mode = (\<lambda>_. 420), lh_mtime = (\<lambda>_. 0), lh_depth = 3\<rparr>"

lemma small_nodes:
  "node_at small_files r = (if r = [] then Some Directory else map_of [([ascii ''d''], Directory),
     ([ascii ''d'', ascii ''f''], Regular [1]), ([ascii ''d'', ascii ''l''], Symlink (ascii ''f''))] r)"
  by (simp add: node_at_def small_files_def)

lemma small_wf: "fs_wf small_files"
proof -
  have "fs_cwd small_files = []" by (simp add: small_files_def)
  then show ?thesis by (auto simp: fs_wf_def small_nodes append_eq_Cons_conv split: if_splits)
qed

lemma small_walk: "collect_local_entries 3 small_host small_files [Normal (ascii ''d'')]
    = Ok (map (map Normal) [[ascii ''d''], [ascii ''d'', ascii ''l''], [ascii ''d'', ascii ''f'']])"
  by code_simp

theorem walk_is_complete_witness:
  "set (map (map Normal) [[ascii ''d''], [ascii ''d'', ascii ''l''], [ascii ''d'', ascii ''f'']])
    = {[Normal (ascii ''d'')] @ map Normal ys | ys. node_at small_files ([ascii ''d''] @ ys) \<noteq> None}"
proof -
  have "leads_to small_files [Normal (ascii ''d'')] [ascii ''d'']"
    by code_simp
  moreover have "lists_directories small_host small_files"
    by (auto simp: lists_directories_def small_nodes small_host_def ascii_def append_eq_Cons_conv split: if_splits)
  moreover have "node_at small_files [ascii ''d''] \<noteq> None" by (simp add: small_nodes)
  moreover have "\<forall>ys. node_at small_files ([ascii ''d''] @ ys) \<noteq> None \<longrightarrow> length ys < lh_depth small_host"
    by (auto simp: small_nodes small_host_def ascii_def split: if_splits)
  moreover have "lh_depth small_host = 3" by (simp add: small_host_def)
  ultimately show ?thesis
    using walk_is_complete [OF small_wf, of "[Normal (ascii ''d'')]" "[ascii ''d'']" small_host] small_walk by auto
qed

definition small_device :: "unit transfer_device" where
  "small_device = \<lparr>td_shell = (\<lambda>c d. (Ok [], d)), td_push = (\<lambda>fs p path d. (Ok (), d)), td_pull = (\<lambda>path d. (([], Ok ()), d))\<rparr>"

definition small_state :: "unit transfer" where
  "small_state = \<lparr>tr_fs = small_files, tr_random = [], tr_device = ()\<rparr>"

definition small_plan :: "planned list" where
  "small_plan = the (those (map (planned_entry small_host small_files True (ascii ''/r'') (components (ascii ''d'')) (ascii ''d''))
     (map (map Normal) [[ascii ''d''], [ascii ''d'', ascii ''l''], [ascii ''d'', ascii ''f'']])))"

lemma small_planned:
  "map (planned_entry small_host small_files True (ascii ''/r'') (components (ascii ''d'')) (ascii ''d''))
     (map (map Normal) [[ascii ''d''], [ascii ''d'', ascii ''l''], [ascii ''d'', ascii ''f'']]) = map Some small_plan"
  by code_simp

theorem push_runs_its_script_witness:
  "push_source small_device small_host default_options True (ascii ''/r'') (ascii ''d'') small_state
    = run_ops small_device (push_script small_plan) small_state \<and> length (push_script small_plan) = 6"
proof
  have "components (ascii ''d'') = [Normal (ascii ''d'')]" by code_simp
  then show "push_source small_device small_host default_options True (ascii ''/r'') (ascii ''d'') small_state
    = run_ops small_device (push_script small_plan) small_state"
    using push_runs_its_script [of default_options "ascii ''d''" "ascii ''d''" small_host small_state] small_walk small_planned
    by (simp add: default_options_def small_state_def small_host_def file_name_def)
  show "length (push_script small_plan) = 6" by code_simp
qed

theorem dry_run_sends_nothing_witness:
  "snd (push_compatible small_device small_host (default_options\<lparr>to_dry_run := True\<rparr>) [ascii ''d'', ascii ''/r''] small_state) = small_state"
proof -
  have "st\<lparr>tr_device := ()\<rparr> = st" for st :: "unit transfer" by (cases st) simp
  then have "snd (on_remote (td_shell small_device c) small_state) = small_state" for c
    by (simp add: on_remote_def small_device_def)
  then show ?thesis
    using dry_run_sends_nothing [of "default_options\<lparr>to_dry_run := True\<rparr>" small_device small_host "[ascii ''d'', ascii ''/r'']" small_state]
    by simp
qed

end
