(* ===== verification/Cli_Commands.thy ===== *)
theory Cli_Commands
  imports Cli_Push Cli_Routing
begin

text \<open>
  The commands of \<^verbatim>\<open>adb_cli/src/compat.rs\<close> for a device that has been selected: over USB through the direct
  daemon, over wireless debugging, and through an ADB server. For each way, which action the arguments
  name, and the actions themselves on the model of the device.
\<close>

section \<open>Output\<close>

text \<open>What is printed goes with the state of the transfers.\<close>

record 'd console =
  co_transfer :: "'d transfer"
  co_out :: bytes

definition line :: "bytes \<Rightarrow> bytes" where
  "line s = s @ [10]"

definition print_text :: "bytes \<Rightarrow> ('d console, unit) boxed_io" where
  "print_text s c = (Ok (), c\<lparr>co_out := co_out c @ s\<rparr>)"

definition on_transfer :: "('d transfer, 'a) boxed_io \<Rightarrow> ('d console, 'a) boxed_io" where
  "on_transfer m c = (case m (co_transfer c) of (r, t) \<Rightarrow> (r, c\<lparr>co_transfer := t\<rparr>))"

text \<open>An operation that writes its output as it comes, whether it succeeds or not.\<close>

definition on_output :: "('d \<Rightarrow> (bytes \<times> 'a boxed) \<times> 'd) \<Rightarrow> ('d console, 'a) boxed_io" where
  "on_output m c =
     (case m (tr_device (co_transfer c)) of
        ((out, r), d) \<Rightarrow> (r, c\<lparr>co_transfer := (co_transfer c)\<lparr>tr_device := d\<rparr>, co_out := co_out c @ out\<rparr>))"

abbreviation on_remote_device :: "('d, 'a) boxed_io \<Rightarrow> ('d console, 'a) boxed_io" where
  "on_remote_device m \<equiv> on_transfer (on_remote m)"

section \<open>Arguments\<close>

definition PTY_OPTIONS :: "bytes list" where
  "PTY_OPTIONS = map ascii [''-T'', ''-t'', ''-tt'', ''-x'', ''--'', ''-n'']"

fun strip_pty :: "bytes list \<Rightarrow> bytes list" where
  "strip_pty [] = []"
| "strip_pty (a # as) = (if a \<in> set PTY_OPTIONS then strip_pty as else a # as)"

definition logcat_command :: "bytes list \<Rightarrow> bytes" where
  "logcat_command rest = (if rest = [] then ascii ''logcat'' else ascii ''logcat '' @ join [32] rest)"

definition unsupported :: "string \<Rightarrow> bytes list \<Rightarrow> 'a boxed" where
  "unsupported what args = Err (ascii ''unsupported '' @ ascii what @ ascii '' command: '' @ join [32] args)"

section \<open>USB\<close>

text \<open>Over USB a command is a request to the daemon of the device, whose answer may be printed.\<close>

datatype usb_action =
  Usb_Say bytes
  | Usb_Ask bytes bytes
  | Usb_Show bytes
  | Usb_Serial
  | Usb_Stream bytes
  | Usb_Pull transfer_options "bytes list"
  | Usb_Push transfer_options "bytes list"
  | Usb_Sync "bytes list"

definition tabbed :: "string \<Rightarrow> bytes list \<Rightarrow> bytes" where
  "tabbed name parts = join [TAB] (ascii name # parts)"

fun usb_forward :: "forward_request \<Rightarrow> usb_action" where
  "usb_forward (Forward_Add near remote) = Usb_Ask (tabbed ''FORWARD'' [near, remote]) []"
| "usb_forward Forward_List = Usb_Show (ascii ''FORWARD_LIST'')"
| "usb_forward (Forward_Remove near) = Usb_Ask (tabbed ''FORWARD_REMOVE'' [near]) []"
| "usb_forward Forward_Remove_All = Usb_Ask (ascii ''FORWARD_REMOVE_ALL'') []"

definition usb_tcpip :: "bytes \<Rightarrow> usb_action boxed" where
  "usb_tcpip s =
     bind_outcome (ok_or [] (parse_uint 10 16 s)) (\<lambda>port.
       if port = 0 then failure ''tcpip port must be between 1 and 65535''
       else Ok (Usb_Ask (tcpip_request (word_of_nat port))
                  (line (ascii ''restarting in TCP mode port: '' @ show_nat port))))"

definition usb_stat :: "bytes \<Rightarrow> usb_action" where
  "usb_stat path =
     Usb_Stream (tabbed ''SHELL'' [ascii ''stat -c '' @ [39] @ ascii ''%n %s %a %Y'' @ [39] @ ascii '' -- '' @ shell_quote path])"

definition usb_shell :: "bytes \<Rightarrow> bytes list \<Rightarrow> usb_action" where
  "usb_shell c rest =
     Usb_Stream (tabbed (if c = ascii ''shell'' then ''SHELL'' else ''EXEC'') [join [32] (strip_pty rest)])"

definition usb_install :: "bytes list \<Rightarrow> usb_action boxed" where
  "usb_install args =
     bind_outcome (parse_install_request args) (\<lambda>q.
       Ok (Usb_Show (tabbed ''INSTALL'' [ir_source q, join [32] (ir_flags q), user_text (ir_user q)])))"

definition usb_uninstall :: "bytes list \<Rightarrow> usb_action boxed" where
  "usb_uninstall args =
     bind_outcome (parse_uninstall_request args) (\<lambda>q.
       Ok (Usb_Show (tabbed ''UNINSTALL'' [keep_text (ur_keep_data q), user_text (ur_user q), ur_package q])))"

definition usb_reboot :: "bytes list \<Rightarrow> usb_action boxed" where
  "usb_reboot rest =
     (let mode = (case rest of m # _ \<Rightarrow> m | [] \<Rightarrow> [])
      in if 1 < length rest \<or> mode \<notin> set (map ascii ['''', ''bootloader'', ''recovery'', ''sideload''])
         then failure ''unsupported reboot mode''
         else Ok (Usb_Ask (tabbed ''SHELL'' [ascii ''reboot '' @ mode]) []))"

definition usb_reverse :: "bytes list \<Rightarrow> bytes list \<Rightarrow> usb_action boxed" where
  "usb_reverse args rest =
     (case rest of
        [a, b] \<Rightarrow>
          Ok (if a = ascii ''--remove'' then Usb_Ask (tabbed ''REVERSE_REMOVE'' [b]) []
              else Usb_Ask (tabbed ''REVERSE'' [a, b]) [])
      | [a] \<Rightarrow>
          (if a = ascii ''--list'' then Ok (Usb_Show (ascii ''REVERSE_LIST''))
           else if a = ascii ''--remove-all'' then Ok (Usb_Ask (ascii ''REVERSE_REMOVE_ALL'') [])
           else unsupported ''direct-USB'' args)
      | _ \<Rightarrow> unsupported ''direct-USB'' args)"

definition usb_devpath :: "usb_device \<Rightarrow> bytes" where
  "usb_devpath d =
     ascii ''usb:'' @ hex4 (ud_vendor d) @ ascii '':'' @ hex4 (ud_product d) @ ascii '':''
       @ show_hex 16 (unat (or_zero (ud_location d)))"

definition usb_named :: "usb_device \<Rightarrow> bytes \<Rightarrow> bytes list \<Rightarrow> usb_action boxed" where
  "usb_named usb c rest =
     (if c = ascii ''get-state'' then Ok (Usb_Say (line (ascii ''device'')))
      else if c = ascii ''get-serialno'' then Ok Usb_Serial
      else if c = ascii ''get-devpath'' then Ok (Usb_Say (line (usb_devpath usb)))
      else if c = ascii ''root'' \<and> rest = [] then Ok (Usb_Ask (ascii ''ROOT'') [])
      else if c = ascii ''remount'' \<and> rest = [] then Ok (Usb_Ask (ascii ''REMOUNT'') [])
      else if c = ascii ''tcpip'' \<and> length rest = 1 then usb_tcpip (hd rest)
      else if c = ascii ''logcat'' then Ok (Usb_Stream (tabbed ''SHELL'' [logcat_command rest]))
      else if c \<in> {ascii ''stat'', ascii ''stat2''} \<and> length rest = 1 then Ok (usb_stat (hd rest))
      else if c \<in> {ascii ''shell'', ascii ''exec-out''} then Ok (usb_shell c rest)
      else if c = ascii ''pull-stream'' \<and> length rest = 1 then Ok (Usb_Stream (tabbed ''PULL'' [hd rest]))
      else if c = ascii ''pull'' then bind_outcome (transfer_paths (c # rest) Pull) (\<lambda>(opts, ps). Ok (Usb_Pull opts ps))
      else if c = ascii ''install'' then usb_install (c # rest)
      else if c = ascii ''uninstall'' then usb_uninstall (c # rest)
      else if c = ascii ''reboot'' then usb_reboot rest
      else if c = ascii ''push'' then bind_outcome (transfer_paths (c # rest) Push) (\<lambda>(opts, ps). Ok (Usb_Push opts ps))
      else if c = ascii ''sync'' then Ok (Usb_Sync (c # rest))
      else if c = ascii ''reverse'' then usb_reverse (c # rest) rest
      else unsupported ''direct-USB'' (c # rest))"

definition usb_command :: "usb_device \<Rightarrow> bytes list \<Rightarrow> usb_action boxed" where
  "usb_command usb args =
     bind_outcome (parse_forward_request args) (\<lambda>f.
       case f of
         Some q \<Rightarrow> Ok (usb_forward q)
       | None \<Rightarrow> (case args of [] \<Rightarrow> unsupported ''direct-USB'' [] | c # rest \<Rightarrow> usb_named usb c rest))"

text \<open>The daemon of a device: a request and its answer, and a request whose answer is streamed.\<close>

record 'd usb_link =
  ul_request :: "bytes \<Rightarrow> ('d, bytes) boxed_io"
  ul_stream :: "bytes \<Rightarrow> 'd \<Rightarrow> (bytes \<times> unit boxed) \<times> 'd"

definition usb_transfer :: "'d usb_link \<Rightarrow> 'd transfer_device" where
  "usb_transfer ul = \<lparr>
     td_shell = (\<lambda>command d. case ul_stream ul (tabbed ''SHELL'' [command]) d of
                   ((out, r), d') \<Rightarrow> (bind_outcome r (\<lambda>_. Ok out), d')),
     td_push = (\<lambda>fs source remote.
                  bind_boxed (ul_request ul (tabbed ''PUSH'' [lossy_text source, remote])) (\<lambda>_. boxed_value (Ok ()))),
     td_pull = (\<lambda>remote. ul_stream ul (tabbed ''PULL'' [remote]))\<rparr>"

definition first_line :: "bytes \<Rightarrow> bytes" where
  "first_line s = (case str_lines s of l # _ \<Rightarrow> l | [] \<Rightarrow> ascii ''unknown'')"

record command_host =
  ch_local :: local_host
  ch_product_out :: "bytes option"

fun perform_usb :: "'d usb_link \<Rightarrow> command_host \<Rightarrow> usb_action \<Rightarrow> ('d console, unit) boxed_io" where
  "perform_usb ul h (Usb_Say s) = print_text s"
| "perform_usb ul h (Usb_Ask q s) = bind_boxed (on_remote_device (ul_request ul q)) (\<lambda>_. print_text s)"
| "perform_usb ul h (Usb_Show q) = bind_boxed (on_remote_device (ul_request ul q)) print_text"
| "perform_usb ul h Usb_Serial =
     bind_boxed (on_remote_device (ul_request ul (ascii ''DEVICE_INFO''))) (\<lambda>s. print_text (line (first_line s)))"
| "perform_usb ul h (Usb_Stream q) = on_output (ul_stream ul q)"
| "perform_usb ul h (Usb_Pull opts ps) = on_transfer (pull_compatible (usb_transfer ul) opts ps)"
| "perform_usb ul h (Usb_Push opts ps) = on_transfer (push_compatible (usb_transfer ul) (ch_local h) opts ps)"
| "perform_usb ul h (Usb_Sync args) = on_transfer (sync_compatible (usb_transfer ul) (ch_local h) (ch_product_out h) args)"

definition run_usb_command :: "'d usb_link \<Rightarrow> command_host \<Rightarrow> usb_device \<Rightarrow> bytes list \<Rightarrow> ('d console, unit) boxed_io" where
  "run_usb_command ul h usb args = bind_boxed (boxed_value (usb_command usb args)) (perform_usb ul h)"

section \<open>ADB server\<close>

datatype server_action =
  Sv_Forward bytes bytes
  | Sv_Forward_Remove bytes
  | Sv_Forward_Remove_All
  | Sv_Say bytes
  | Sv_Serial
  | Sv_Features
  | Sv_Shell bytes
  | Sv_Pull_Stream bytes
  | Sv_Pull transfer_options "bytes list"
  | Sv_Push transfer_options "bytes list"
  | Sv_Sync "bytes list"
  | Sv_Install install_request
  | Sv_Root
  | Sv_Remount
  | Sv_Reboot reboot_type
  | Sv_Reverse_Remove bytes
  | Sv_Reverse_Remove_All
  | Sv_Reverse bytes bytes

text \<open>The ADB server takes the remote endpoint first.\<close>

fun sv_forward :: "forward_request \<Rightarrow> server_action boxed" where
  "sv_forward (Forward_Add near remote) = Ok (Sv_Forward remote near)"
| "sv_forward (Forward_Remove near) = Ok (Sv_Forward_Remove near)"
| "sv_forward Forward_Remove_All = Ok Sv_Forward_Remove_All"
| "sv_forward Forward_List = failure ''forward --list is not yet available through ADB server mode''"

definition sv_uninstall :: "uninstall_request \<Rightarrow> server_action" where
  "sv_uninstall q =
     Sv_Shell (ascii ''pm uninstall'' @ (if ur_keep_data q then ascii '' -k'' else [])
       @ (case ur_user q of Some u \<Rightarrow> ascii '' --user '' @ shell_quote u | None \<Rightarrow> [])
       @ [32] @ shell_quote (ur_package q))"

definition sv_reboot :: "bytes list \<Rightarrow> server_action boxed" where
  "sv_reboot rest =
     (case rest of
        [] \<Rightarrow> Ok (Sv_Reboot System)
      | m # _ \<Rightarrow>
          if m = ascii ''bootloader'' then Ok (Sv_Reboot Bootloader)
          else if m = ascii ''recovery'' then Ok (Sv_Reboot Recovery)
          else if m = ascii ''sideload'' then Ok (Sv_Reboot Sideload)
          else Err (ascii ''unsupported reboot mode: '' @ m))"

definition sv_reverse :: "bytes list \<Rightarrow> bytes list \<Rightarrow> server_action boxed" where
  "sv_reverse args rest =
     (case rest of
        [a, b] \<Rightarrow> Ok (if a = ascii ''--remove'' then Sv_Reverse_Remove b else Sv_Reverse a b)
      | a # more_args \<Rightarrow>
          if a = ascii ''--remove-all'' \<and> more_args = [] then Ok Sv_Reverse_Remove_All
          else if a = ascii ''--list'' then failure ''reverse --list is not yet available through ADB server mode''
          else unsupported ''ADB server'' args
      | [] \<Rightarrow> unsupported ''ADB server'' args)"

definition server_named :: "bytes option \<Rightarrow> bytes \<Rightarrow> bytes list \<Rightarrow> server_action boxed" where
  "server_named serial c rest =
     (if c = ascii ''get-state'' \<and> rest = [] then Ok (Sv_Say (line (ascii ''device'')))
      else if c = ascii ''get-serialno'' \<and> rest = [] then Ok (case serial of Some s \<Rightarrow> Sv_Say (line s) | None \<Rightarrow> Sv_Serial)
      else if c = ascii ''features'' \<and> rest = [] then Ok Sv_Features
      else if c \<in> {ascii ''shell'', ascii ''exec-out''} then Ok (Sv_Shell (join [32] (strip_pty rest)))
      else if c = ascii ''pull-stream'' \<and> length rest = 1 then Ok (Sv_Pull_Stream (hd rest))
      else if c = ascii ''pull'' then bind_outcome (transfer_paths (c # rest) Pull) (\<lambda>(opts, ps). Ok (Sv_Pull opts ps))
      else if c = ascii ''push'' then bind_outcome (transfer_paths (c # rest) Push) (\<lambda>(opts, ps). Ok (Sv_Push opts ps))
      else if c = ascii ''sync'' then Ok (Sv_Sync (c # rest))
      else if c = ascii ''install'' then bind_outcome (parse_install_request (c # rest)) (\<lambda>q. Ok (Sv_Install q))
      else if c = ascii ''uninstall'' then bind_outcome (parse_uninstall_request (c # rest)) (\<lambda>q. Ok (sv_uninstall q))
      else if c = ascii ''root'' \<and> rest = [] then Ok Sv_Root
      else if c = ascii ''remount'' \<and> rest = [] then Ok Sv_Remount
      else if c = ascii ''reboot'' \<and> length rest \<le> 1 then sv_reboot rest
      else if c = ascii ''reverse'' then sv_reverse (c # rest) rest
      else if c = ascii ''logcat'' then Ok (Sv_Shell (logcat_command rest))
      else unsupported ''ADB server'' (c # rest))"

definition server_command :: "bytes option \<Rightarrow> bytes list \<Rightarrow> server_action boxed" where
  "server_command serial args =
     bind_outcome (parse_forward_request args) (\<lambda>f.
       case f of
         Some q \<Rightarrow> sv_forward q
       | None \<Rightarrow> (case args of [] \<Rightarrow> unsupported ''ADB server'' [] | c # rest \<Rightarrow> server_named serial c rest))"

section \<open>Wireless debugging\<close>

datatype wireless_action =
  Wl_Say bytes
  | Wl_Shell bytes
  | Wl_Exec bytes
  | Wl_Pull_Stream bytes
  | Wl_Pull transfer_options "bytes list"
  | Wl_Push transfer_options "bytes list"
  | Wl_Sync "bytes list"
  | Wl_Install install_request
  | Wl_Uninstall uninstall_request
  | Wl_Root
  | Wl_Remount
  | Wl_Reboot
  | Wl_Reverse_Remove bytes
  | Wl_Reverse_Relay bytes bytes

definition wl_reverse :: "bytes list \<Rightarrow> bytes list \<Rightarrow> wireless_action boxed" where
  "wl_reverse args rest =
     (case rest of
        [a, b] \<Rightarrow> Ok (if a = ascii ''--remove'' then Wl_Reverse_Remove b else Wl_Reverse_Relay a b)
      | _ \<Rightarrow> unsupported ''wireless'' args)"

text \<open>\<open>address\<close> is the address of the device as a text.\<close>

definition wireless_named :: "bytes \<Rightarrow> bytes \<Rightarrow> bytes list \<Rightarrow> wireless_action boxed" where
  "wireless_named address c rest =
     (if c = ascii ''features'' \<and> rest = [] then Ok (Wl_Say (line []))
      else if c = ascii ''get-state'' \<and> rest = [] then Ok (Wl_Say (line (ascii ''device'')))
      else if c = ascii ''get-serialno'' \<and> rest = [] then Ok (Wl_Say (line address))
      else if c = ascii ''get-devpath'' \<and> rest = [] then Ok (Wl_Say (line (ascii ''tcp:'' @ address)))
      else if c = ascii ''shell'' then Ok (Wl_Shell (join [32] rest))
      else if c = ascii ''exec-out'' then Ok (Wl_Exec (join [32] rest))
      else if c = ascii ''pull-stream'' \<and> length rest = 1 then Ok (Wl_Pull_Stream (hd rest))
      else if c = ascii ''pull'' then bind_outcome (transfer_paths (c # rest) Pull) (\<lambda>(opts, ps). Ok (Wl_Pull opts ps))
      else if c = ascii ''push'' then bind_outcome (transfer_paths (c # rest) Push) (\<lambda>(opts, ps). Ok (Wl_Push opts ps))
      else if c = ascii ''sync'' then Ok (Wl_Sync (c # rest))
      else if c = ascii ''install'' then bind_outcome (parse_install_request (c # rest)) (\<lambda>q. Ok (Wl_Install q))
      else if c = ascii ''uninstall'' then bind_outcome (parse_uninstall_request (c # rest)) (\<lambda>q. Ok (Wl_Uninstall q))
      else if c = ascii ''root'' \<and> rest = [] then Ok Wl_Root
      else if c = ascii ''remount'' \<and> rest = [] then Ok Wl_Remount
      else if c = ascii ''reboot'' \<and> rest = [] then Ok Wl_Reboot
      else if c = ascii ''reverse'' then wl_reverse (c # rest) rest
      else unsupported ''wireless'' (c # rest))"

definition wireless_command :: "bytes \<Rightarrow> bytes list \<Rightarrow> wireless_action boxed" where
  "wireless_command address args =
     (case args of [] \<Rightarrow> unsupported ''wireless'' [] | c # rest \<Rightarrow> wireless_named address c rest)"

end
