(* ===== verification/Cli_Actions.thy ===== *)
theory Cli_Actions
  imports Cli_Commands Server_Commands
begin

text \<open>
  What the commands do with their devices: the trees moved over wireless debugging, packages installed
  and removed there, and the shell of an ADB server; and that over USB every command asks the daemon
  for something it understands.
\<close>

section \<open>Wireless debugging\<close>

definition open_local :: "file_system \<Rightarrow> path \<Rightarrow> source boxed" where
  "open_local fs p =
     (case Option.bind (resolve fs p) (node_at fs) of
        Some (Regular bs) \<Rightarrow> Ok (if bs = [] then [] else [Chunk bs])
      | Some Directory \<Rightarrow> Ok [Failing OtherKind]
      | _ \<Rightarrow> boxed (os_error NotFound))"

definition wireless_transfer :: "daemon_host \<Rightarrow> daemon transfer_device" where
  "wireless_transfer h = \<lparr>
     td_shell = (\<lambda>command d. case captured_shell h command d of (r, d') \<Rightarrow> (boxed r, d')),
     td_push = (\<lambda>fs source remote.
                  bind_boxed (boxed_value (open_local fs source)) (\<lambda>src d.
                    case push_from h read_source src remote d of (r, d') \<Rightarrow> (boxed r, d'))),
     td_pull = (\<lambda>remote d. case dispatched_pull (dh_term h) remote no_output d of (r, k, d') \<Rightarrow> ((sk_out k, boxed r), d'))\<rparr>"

text \<open>
  Packages are installed through the sessions of the connection itself, each with a random local id. The
  copy on the device is removed whatever happened.
\<close>

definition wireless_install_command :: "install_request \<Rightarrow> bytes \<Rightarrow> bytes" where
  "wireless_install_command q remote =
     ascii ''pm install '' @ join [32] (ir_flags q)
       @ (case ir_user q of Some u \<Rightarrow> ascii '' --user '' @ u | None \<Rightarrow> []) @ [32] @ remote"

definition wireless_verdict :: "unit result \<times> sink option \<times> link \<Rightarrow> unit boxed \<times> link" where
  "wireless_verdict answer =
     (case answer of
        (r, out, l) \<Rightarrow>
          (bind_outcome (boxed r) (\<lambda>_.
             if reported_success (output_of out) then Ok () else Err (trim (utf8_lossy (output_of out)))), l))"

definition upload_and_install ::
    "daemon_host \<Rightarrow> u32 \<Rightarrow> u32 \<Rightarrow> install_request \<Rightarrow> bytes \<Rightarrow> link \<Rightarrow> (unit boxed \<times> link) option" where
  "upload_and_install h push_id shell_id q remote l =
     (case boxed (dh_open h (ir_source q)) of
        Err e \<Rightarrow> Some (Err e, l)
      | Panic \<Rightarrow> Some (Panic, l)
      | Ok src \<Rightarrow>
          Option.bind (device_push push_id (dh_term h) read_source src remote l) (\<lambda>(r, _, l1).
            case boxed r of
              Err e \<Rightarrow> Some (Err e, l1)
            | Panic \<Rightarrow> Some (Panic, l1)
            | Ok _ \<Rightarrow>
                Some (wireless_verdict (shell_command shell_id (dh_term h) (wireless_install_command q remote) (Some no_output) l1))))"

definition install_wireless ::
    "daemon_host \<Rightarrow> u32 \<Rightarrow> u32 \<Rightarrow> u32 \<Rightarrow> install_request \<Rightarrow> link \<Rightarrow> (unit boxed \<times> link) option" where
  "install_wireless h push_id shell_id remove_id q l =
     (case nanos h of
        Err e \<Rightarrow> Some (Err e, l)
      | Panic \<Rightarrow> Some (Panic, l)
      | Ok moment \<Rightarrow>
          let remote = remote_apk (dh_pid h) moment
          in Option.bind (upload_and_install h push_id shell_id q remote l) (\<lambda>(r, l1).
               if r = Panic then Some (Panic, l1)
               else case shell_command remove_id (dh_term h) (ascii ''rm -f '' @ remote) None l1 of
                      (Panic, _, l2) \<Rightarrow> Some (Panic, l2)
                    | (_, _, l2) \<Rightarrow> Some (r, l2)))"

definition wireless_uninstall_command :: "uninstall_request \<Rightarrow> bytes" where
  "wireless_uninstall_command q =
     ascii ''pm uninstall '' @ (if ur_keep_data q then ascii ''-k '' else [])
       @ (case ur_user q of Some u \<Rightarrow> ascii ''--user '' @ u @ [32] | None \<Rightarrow> []) @ ur_package q"

definition uninstall_wireless :: "daemon_host \<Rightarrow> u32 \<Rightarrow> uninstall_request \<Rightarrow> (link, unit) boxed_io" where
  "uninstall_wireless h shell_id q l =
     wireless_verdict (shell_command shell_id (dh_term h) (wireless_uninstall_command q) (Some no_output) l)"

section \<open>ADB server\<close>

definition status_verdict :: "u8 option result \<Rightarrow> unit boxed" where
  "status_verdict r =
     bind_outcome (boxed r) (\<lambda>status.
       case status of
         Some n \<Rightarrow> if n \<noteq> 0 then Err (ascii ''remote shell exited with status '' @ show_nat (unat n)) else Ok ()
       | None \<Rightarrow> Ok ())"

definition server_shell_to ::
    "bytes option \<Rightarrow> bytes \<Rightarrow> outputs \<Rightarrow> server_device \<Rightarrow> (unit boxed \<times> outputs \<times> server_device) option" where
  "server_shell_to term command outs d =
     map_option (\<lambda>(r, outs', d'). (status_verdict r, outs', d')) (server_shell_command term command outs d)"

section \<open>Requests over USB\<close>

fun requests_of :: "usb_action \<Rightarrow> bytes list" where
  "requests_of (Usb_Ask q _) = [q]"
| "requests_of (Usb_Show q) = [q]"
| "requests_of (Usb_Stream q) = [q]"
| "requests_of _ = []"

text \<open>What a request of the command line means, for requests that name an operation.\<close>

definition understood :: "bytes \<Rightarrow> bool" where
  "understood q \<longleftrightarrow> (\<exists>d. properly_asked d \<and> q = request_text d)"

lemma understoodI: "properly_asked d \<Longrightarrow> q = request_text d \<Longrightarrow> understood q"
  unfolding understood_def by blast

lemma uninstall_loop_package:
  "uninstall_loop args keep user package = Ok (keep', user', Some p) \<Longrightarrow> Some p = package \<or> p \<in> set args"
  by (induction args keep user package rule: uninstall_loop.induct)
    (auto simp: failure_def split: if_splits list.splits)

lemma uninstall_package_given:
  assumes "parse_uninstall_request args = Ok q" and "[] \<notin> set args"
  shows "ur_package q \<noteq> []"
proof -
  obtain keep user p where "uninstall_loop (drop 1 args) False None None = Ok (keep, user, Some p)" "ur_package q = p"
    using assms(1) by (auto simp: parse_uninstall_request_def failure_def split: if_splits option.splits elim!: bind_outcome.elims)
  with uninstall_loop_package [of "drop 1 args" False None None keep user p] assms(2) in_set_dropD show ?thesis by fastforce
qed

lemma understood_simple:
  "understood (ascii ''ROOT'')" "understood (ascii ''REMOUNT'')" "understood (ascii ''FORWARD_LIST'')"
  "understood (ascii ''FORWARD_REMOVE_ALL'')" "understood (ascii ''REVERSE_LIST'')" "understood (ascii ''REVERSE_REMOVE_ALL'')"
  by (rule understoodI [of Ask_Root] understoodI [of Ask_Remount] understoodI [of Ask_Forward_List]
      understoodI [of Ask_Forward_Remove_All] understoodI [of Ask_Reverse_List] understoodI [of Ask_Reverse_Remove_All];
      simp add: request_text_def)+

lemma understood_parts:
  "understood (tabbed ''SHELL'' [a])" "understood (tabbed ''EXEC'' [a])" "understood (tabbed ''PULL'' [a])"
  "understood (tabbed ''FORWARD'' [a, b])" "understood (tabbed ''FORWARD_REMOVE'' [a])"
  "understood (tabbed ''REVERSE'' [a, b])" "understood (tabbed ''REVERSE_REMOVE'' [a])"
  by (rule understoodI [of "Ask_Shell a"] understoodI [of "Ask_Exec a"] understoodI [of "Ask_Pull a"]
      understoodI [of "Ask_Forward a b"] understoodI [of "Ask_Forward_Remove a"]
      understoodI [of "Ask_Reverse a b"] understoodI [of "Ask_Reverse_Remove a"];
      simp add: request_text_def tabbed_def)+

lemmas understood_rules = understood_simple understood_parts

lemma understood_install:
  assumes "usb_install args = Ok act" and "q \<in> set (requests_of act)"
  shows "understood q"
proof -
  obtain i where i: "parse_install_request args = Ok i" "act = Usb_Show (request_text (Ask_Install i))"
    using assms(1) by (cases "parse_install_request args") (auto simp: usb_install_def request_text_def tabbed_def)
  from i(1) have "properly_asked (Ask_Install i)" by auto
  moreover from i(2) assms(2) have "q = request_text (Ask_Install i)" by simp
  ultimately show ?thesis by (rule understoodI)
qed

lemma understood_uninstall:
  assumes "usb_uninstall args = Ok act" and "[] \<notin> set args" and "q \<in> set (requests_of act)"
  shows "understood q"
proof -
  obtain u where u: "parse_uninstall_request args = Ok u" "act = Usb_Show (request_text (Ask_Uninstall u))"
    using assms(1) by (cases "parse_uninstall_request args") (auto simp: usb_uninstall_def request_text_def tabbed_def)
  from u(1) uninstall_package_given [OF u(1) assms(2)] have "properly_asked (Ask_Uninstall u)" by auto
  moreover from u(2) assms(3) have "q = request_text (Ask_Uninstall u)" by simp
  ultimately show ?thesis by (rule understoodI)
qed

lemma understood_others:
  "q \<in> set (requests_of (usb_forward f)) \<Longrightarrow> understood q"
  "q \<in> set (requests_of (usb_stat p)) \<Longrightarrow> understood q"
  "q \<in> set (requests_of (usb_shell c rest)) \<Longrightarrow> understood q"
  "usb_reboot rest = Ok act \<Longrightarrow> q \<in> set (requests_of act) \<Longrightarrow> understood q"
  "usb_reverse args rest = Ok act \<Longrightarrow> q \<in> set (requests_of act) \<Longrightarrow> understood q"
  by (cases f; simp del: ascii_Cons add: understood_rules)
    (auto simp del: ascii_Cons simp: usb_stat_def usb_shell_def usb_reboot_def usb_reverse_def unsupported_def failure_def Let_def understood_rules
      split: if_splits list.splits)



section \<open>What differs between the ways\<close>

text \<open>
  The options of a terminal, which callers give to \<^verbatim>\<open>shell\<close>, are taken away over USB and through a server;
  over wireless debugging they become part of the command.
\<close>

lemma wireless_keeps_shell_options:
  "wireless_named address (ascii ''shell'') [ascii ''-T'', c] = Ok (Wl_Shell (ascii ''-T '' @ c))"
  "server_named serial (ascii ''shell'') [ascii ''-T'', ascii ''ls''] = Ok (Sv_Shell (ascii ''ls''))"
  by (simp_all add: wireless_named_def server_named_def PTY_OPTIONS_def)

end
