(* ===== verification/Cli_Main.thy ===== *)
theory Cli_Main
  imports Cli_Actions Cli_Wireless "HOL-Library.List_Lexorder"
begin

text \<open>
  The command line of \<^verbatim>\<open>adb_cli/src/compat.rs\<close>: the options that select a device, the commands that need
  none, the server that may be running, and the device everything else is run on. Also what \<^verbatim>\<open>devices\<close>
  lists and \<^verbatim>\<open>track-devices\<close> reports.
\<close>

section \<open>Options\<close>

fun selector_options :: "bytes list \<Rightarrow> bytes option \<Rightarrow> u64 option \<Rightarrow> (bytes option \<times> u64 option \<times> bytes list) boxed" where
  "selector_options [] serial transport_id = Ok (serial, transport_id, [])"
| "selector_options [a] serial transport_id =
     (if a \<in> {ascii ''-s'', ascii ''-t''} then failure ''missing device selector value''
      else Ok (serial, transport_id, [a]))"
| "selector_options (a # b # rest) serial transport_id =
     (if a = ascii ''-s'' \<and> transport_id = None then selector_options rest (Some b) transport_id
      else if a = ascii ''-t'' \<and> serial = None then
        bind_outcome (ok_or [] (parse_uint 10 64 b)) (\<lambda>n. selector_options rest serial (Some (word_of_nat n)))
      else if a \<in> {ascii ''-s'', ascii ''-t''} then failure ''only one of -s and -t may be specified''
      else Ok (serial, transport_id, a # b # rest))"

text \<open>The options after \<^verbatim>\<open>usb\<close>, all of which take a value.\<close>

type_synonym partial_endpoint = "u16 option \<times> u16 option \<times> u64 option \<times> u64 option"

definition hex_value :: "nat \<Rightarrow> bytes \<Rightarrow> 'a :: len word boxed" where
  "hex_value bits s = ok_or [] (hex_word bits s)"

fun usb_options :: "bytes list \<Rightarrow> partial_endpoint \<Rightarrow> (partial_endpoint \<times> bytes list) boxed" where
  "usb_options (a # b # rest) (v, p, l, r) =
     (if \<not> starts_with (ascii ''--'') a then Ok ((v, p, l, r), a # b # rest)
      else if a = ascii ''--vendor-id'' then bind_outcome (hex_value 16 b) (\<lambda>v. usb_options rest (Some v, p, l, r))
      else if a = ascii ''--product-id'' then bind_outcome (hex_value 16 b) (\<lambda>p. usb_options rest (v, Some p, l, r))
      else if a = ascii ''--location-id'' then bind_outcome (hex_value 64 b) (\<lambda>l. usb_options rest (v, p, Some l, r))
      else if a = ascii ''--registry-id'' then bind_outcome (hex_value 64 b) (\<lambda>r. usb_options rest (v, p, l, Some r))
      else if a = ascii ''--private-key'' then usb_options rest (v, p, l, r)
      else failure ''unsupported USB option'')"
| "usb_options args e = Ok (e, args)"

definition usb_endpoint :: "bytes list \<Rightarrow> (endpoint \<times> bytes list) boxed" where
  "usb_endpoint args =
     bind_outcome (usb_options args (None, None, None, None)) (\<lambda>((v, p, l, r), rest).
     bind_outcome (ok_or (ascii ''missing vendor'') v) (\<lambda>v.
     bind_outcome (ok_or (ascii ''missing product'') p) (\<lambda>p.
       Ok ((v, p, l, r), rest))))"

text \<open>
  What a serial stands for: a USB attachment, a name of the server's, or itself. It replaces an
  endpoint given before.
\<close>

definition classify :: "endpoint option \<Rightarrow> bytes option \<Rightarrow> u64 option \<Rightarrow> (endpoint option \<times> selection) boxed" where
  "classify e serial transport_id =
     (let plain = (e, \<lparr>se_serial = serial, se_transport_id = transport_id, se_usb = None, se_named = False\<rparr>)
      in case serial of
           None \<Rightarrow> Ok plain
         | Some value \<Rightarrow>
             if starts_with (ascii ''usb-'') value \<and> 64 \<in> set value then
               bind_outcome (selector_endpoint value) (\<lambda>e.
                 Ok (Some e, \<lparr>se_serial = None, se_transport_id = transport_id, se_usb = None, se_named = False\<rparr>))
             else if starts_with (ascii ''androconnect-server'') value then
               bind_outcome (named_selection value) (\<lambda>q. Ok (e, q\<lparr>se_transport_id := transport_id\<rparr>))
             else Ok plain)"

section \<open>The server that is running\<close>

text \<open>
  \<open>mode\<close> and \<open>address\<close> are from the environment; \<open>answer\<close> is its list of devices and \<open>reachable\<close> whether
  anything accepts connections there.
\<close>

definition existing_server_devices ::
    "bytes option \<Rightarrow> bytes boxed \<Rightarrow> (bytes \<Rightarrow> device_long list result) \<Rightarrow> (bytes \<Rightarrow> bool) \<Rightarrow> (bytes \<times> device_long list) option boxed" where
  "existing_server_devices mode address answer reachable =
     (let mode = (case mode of Some m \<Rightarrow> m | None \<Rightarrow> ascii ''auto'')
      in if mode = ascii ''direct'' then Ok None
         else if mode \<notin> {ascii ''auto'', ascii ''server''} then Err (ascii ''invalid ANDROCONNECT_ADB_MODE: '' @ mode)
         else bind_outcome address (\<lambda>address.
                case answer address of
                  Ok ds \<Rightarrow> Ok (Some (address, ds))
                | Panic \<Rightarrow> Panic
                | Err e \<Rightarrow>
                    if mode = ascii ''auto'' then
                      (if reachable address then
                         Err (ascii ''existing ADB server at '' @ address @ ascii '' rejected the compatibility request: '' @ error_text e)
                       else Ok None)
                    else Err (ascii ''existing ADB server at '' @ address @ ascii '' is unavailable: '' @ error_text e)))"

definition has_state :: "bytes \<Rightarrow> device_state \<Rightarrow> device_long list \<Rightarrow> bool" where
  "has_state identifier state ds \<longleftrightarrow> list_ex (\<lambda>d. dl_identifier d = identifier \<and> dl_state d = state) ds"

text \<open>The listings seen while waiting for the server to connect, at most three.\<close>

fun await_server :: "nat \<Rightarrow> bytes \<Rightarrow> device_long list result list \<Rightarrow> bool" where
  "await_server (Suc n) identifier (Ok ds # rest) =
     (if has_state identifier Device ds then True
      else if has_state identifier Unauthorized ds then False
      else await_server n identifier rest)"
| "await_server (Suc n) identifier (_ # rest) = await_server n identifier rest"
| "await_server _ identifier _ = False"

definition connect_via_existing_server ::
    "(bytes \<times> device_long list) option boxed \<Rightarrow> bytes \<Rightarrow> bool \<Rightarrow> bool \<Rightarrow> device_long list result list \<Rightarrow> bool" where
  "connect_via_existing_server server identifier is_v4 connected listings \<longleftrightarrow>
     (case server of
        Ok (Some (_, ds)) \<Rightarrow>
          if has_state identifier Device ds then True
          else is_v4 \<and> connected \<and> await_server 3 identifier listings
      | _ \<Rightarrow> False)"

section \<open>What the command line asks for\<close>

datatype 'a main_action =
  Show_Version
  | List_Usb
  | Pair_With 'a bytes
  | Connect_To 'a
  | Disconnect_From 'a
  | Disconnect_Everything
  | Mdns_Check
  | Mdns_Services
  | Show_Server bytes
  | List_Devices
  | Nothing_Needed
  | On_Server bytes "bytes option" "u64 option" "bytes list"
  | On_Wireless 'a "bytes list"
  | Wait_For_Device
  | Track_Devices
  | Show_Features
  | On_Usb usb_device "bytes list"

text \<open>
  The surroundings of the command: the key, the server, the addresses saved, the devices found and the
  serial each of them reports through its daemon.
\<close>

record 'a surroundings =
  su_key :: bool
  su_parse :: "bytes \<Rightarrow> 'a option"
  su_text :: "'a \<Rightarrow> bytes"
  su_server :: "(bytes \<times> device_long list) option boxed"
  su_saved :: "'a set boxed"
  su_found :: "usb_device list boxed"
  su_public :: "usb_device \<Rightarrow> bytes option"

definition parsed_address :: "'a surroundings \<Rightarrow> bytes \<Rightarrow> 'a boxed" where
  "parsed_address su s = ok_or (ascii ''invalid socket address syntax'') (su_parse su s)"

text \<open>Commands that come before the server is looked at.\<close>

definition early_command :: "'a surroundings \<Rightarrow> bytes list \<Rightarrow> 'a main_action option boxed" where
  "early_command su args =
     (case args of
        [] \<Rightarrow> Ok None
      | c # rest \<Rightarrow>
          if c = ascii ''pair'' then
            (case rest of
               [a, code] \<Rightarrow> bind_outcome (parsed_address su a) (\<lambda>a. Ok (Some (Pair_With a code)))
             | _ \<Rightarrow> failure ''usage: adb pair HOST:PORT PAIRING_CODE|--password-stdin'')
          else if c = ascii ''connect'' then
            (case rest of
               [a] \<Rightarrow> bind_outcome (parsed_address su a) (\<lambda>a. Ok (Some (Connect_To a)))
             | _ \<Rightarrow> failure ''usage: adb connect HOST:PORT'')
          else if c = ascii ''disconnect'' then
            (case rest of
               [] \<Rightarrow> Ok (Some Disconnect_Everything)
             | [a] \<Rightarrow>
                 if a = ascii ''-a'' then Ok (Some Disconnect_Everything)
                 else bind_outcome (parsed_address su a) (\<lambda>a. Ok (Some (Disconnect_From a)))
             | _ \<Rightarrow> failure ''usage: adb disconnect [HOST:PORT|-a]'')
          else if c = ascii ''mdns'' then
            (if rest = [ascii ''check''] then Ok (Some Mdns_Check)
             else if rest = [ascii ''services''] then Ok (Some Mdns_Services)
             else failure ''usage: adb mdns check|services'')
          else Ok None)"

text \<open>Commands about the server itself, or that it makes unnecessary.\<close>

definition server_level :: "(bytes \<times> device_long list) option \<Rightarrow> bytes list \<Rightarrow> 'a main_action option boxed" where
  "server_level server args =
     (case args of
        [] \<Rightarrow> Ok None
      | c # rest \<Rightarrow>
          if c = ascii ''server-status'' then
            (if rest \<noteq> [] then failure ''server-status does not accept arguments''
             else bind_outcome (ok_or (ascii ''no compatible ADB server is running'') server) (\<lambda>(address, _).
                    Ok (Some (Show_Server address))))
          else if c = ascii ''devices'' then
            (if rest = [] \<or> rest = [ascii ''-l''] then Ok (Some List_Devices)
             else failure ''usage: adb devices [-l]'')
          else if args = [ascii ''start-server''] \<and> server \<noteq> None then Ok (Some Nothing_Needed)
          else if args = [ascii ''wait-for-device''] \<and> (case server of Some (_, ds) \<Rightarrow> ds \<noteq> [] | None \<Rightarrow> False)
            then Ok (Some Nothing_Needed)
          else Ok None)"

definition saved_with_id :: "'a :: linorder surroundings \<Rightarrow> u64 \<Rightarrow> 'a set \<Rightarrow> 'a option" where
  "saved_with_id su n saved = List.find (\<lambda>a. stable_transport_id (ascii ''tcp'') (su_text su a) = n) (sorted_list_of_set saved)"

text \<open>The wireless device selected, if one is.\<close>

definition wireless_route :: "'a :: linorder surroundings \<Rightarrow> selection \<Rightarrow> bytes list \<Rightarrow> 'a main_action option boxed" where
  "wireless_route su q args =
     (case Option.bind (se_serial q) (su_parse su) of
        Some a \<Rightarrow>
          bind_outcome (su_saved su) (\<lambda>saved.
            if a \<in> saved then Ok (Some (On_Wireless a args))
            else failure ''selected wireless Android device is not connected; run adb connect HOST:PORT first'')
      | None \<Rightarrow>
          (case se_transport_id q of
             None \<Rightarrow> Ok None
           | Some n \<Rightarrow>
               bind_outcome (su_saved su) (\<lambda>saved.
                 Ok (map_option (\<lambda>a. On_Wireless a args) (saved_with_id su n saved)))))"

definition usb_route :: "'a surroundings \<Rightarrow> endpoint option \<Rightarrow> selection \<Rightarrow> bytes list \<Rightarrow> 'a main_action boxed" where
  "usb_route su e q args =
     bind_outcome (su_found su) (\<lambda>ds.
       let c = (case args of a # _ \<Rightarrow> Some a | [] \<Rightarrow> None)
       in if c = Some (ascii ''start-server'') then Ok Nothing_Needed
          else if c = Some (ascii ''wait-for-device'') then
            (if length args \<noteq> 1 then failure ''wait-for-device does not accept arguments'' else Ok Wait_For_Device)
          else if c = Some (ascii ''track-devices'') then
            (if length args \<noteq> 1 then failure ''track-devices does not accept arguments'' else Ok Track_Devices)
          else if c = Some (ascii ''features'') then Ok Show_Features
          else bind_outcome (select_usb (su_public su) e (se_transport_id q) (se_serial q) ds) (\<lambda>d. Ok (On_Usb d args)))"

definition is_address :: "'a surroundings \<Rightarrow> bytes \<Rightarrow> bool" where
  "is_address su s \<longleftrightarrow> su_parse su s \<noteq> None"

definition device_route :: "'a :: linorder surroundings \<Rightarrow> endpoint option \<Rightarrow> selection \<Rightarrow> bytes list \<Rightarrow> 'a main_action boxed" where
  "device_route su e q args =
     bind_outcome (if e = None then su_server su else Ok None) (\<lambda>server.
     bind_outcome (server_level server args) (\<lambda>found.
       case found of
         Some act \<Rightarrow> Ok act
       | None \<Rightarrow>
           (case server_route (is_address su) q (case args of a # _ \<Rightarrow> Some a | [] \<Rightarrow> None) (map_option snd server) of
              Run_On_Server serial transport_id \<Rightarrow> Ok (On_Server (fst (the server)) serial transport_id args)
            | Refused m \<Rightarrow> Err m
            | Elsewhere \<Rightarrow>
                bind_outcome (if e = None then wireless_route su q args else Ok None) (\<lambda>found.
                  case found of Some act \<Rightarrow> Ok act | None \<Rightarrow> usb_route su e q args))))"

text \<open>The device options together, and all of the command line, up to the action.\<close>

definition selected_by ::
    "bytes option \<Rightarrow> u64 option \<Rightarrow> bytes list \<Rightarrow> (endpoint option \<times> selection \<times> bytes list) boxed" where
  "selected_by serial transport_id args =
     bind_outcome (if args \<noteq> [] \<and> hd args = ascii ''usb''
                   then bind_outcome (usb_endpoint (tl args)) (\<lambda>(e, args). Ok (Some e, args)) else Ok (None, args)) (\<lambda>(e, args).
     bind_outcome (classify e serial transport_id) (\<lambda>(e, q). Ok (e, q, args)))"

definition main_action :: "'a :: linorder surroundings \<Rightarrow> bytes list \<Rightarrow> 'a main_action boxed" where
  "main_action su args =
     (if args \<noteq> [] \<and> hd args = ascii ''version'' then Ok Show_Version
      else if \<not> su_key su then failure ''ANDROCONNECT_ADB_KEY is not set''
      else bind_outcome (selector_options args None None) (\<lambda>(serial, transport_id, args).
        if args = [ascii ''usb'', ascii ''--list''] then bind_outcome (su_found su) (\<lambda>_. Ok List_Usb)
        else bind_outcome (selected_by serial transport_id args) (\<lambda>(e, q, args).
             bind_outcome (early_command su args) (\<lambda>early.
               case early of Some act \<Rightarrow> Ok act | None \<Rightarrow> device_route su e q args))))"

section \<open>A command runs on the device that was selected\<close>

text \<open>
  What has to hold of the device an action runs on, for a serial and a transport id that were given: a
  serial is the one of the device, the text of its address, or a name it was listed under.
\<close>

definition selected_usb :: "'a surroundings \<Rightarrow> endpoint option \<Rightarrow> selection \<Rightarrow> usb_device \<Rightarrow> bool" where
  "selected_usb su e q d \<longleftrightarrow>
     (\<exists>ds. su_found su = Ok ds \<and> filter (usb_matches (su_public su) e (se_transport_id q) (se_serial q)) ds = [d])"

definition selected_wireless :: "'a :: linorder surroundings \<Rightarrow> selection \<Rightarrow> 'a \<Rightarrow> bool" where
  "selected_wireless su q a \<longleftrightarrow>
     (\<exists>saved. su_saved su = Ok saved \<and> (finite saved \<longrightarrow> a \<in> saved))
     \<and> (case Option.bind (se_serial q) (su_parse su) of
          Some b \<Rightarrow> a = b
        | None \<Rightarrow> se_transport_id q = Some (stable_transport_id (ascii ''tcp'') (su_text su a)))"

definition selected_server :: "'a surroundings \<Rightarrow> selection \<Rightarrow> bytes option \<Rightarrow> u64 option \<Rightarrow> bool" where
  "selected_server su q serial transport_id \<longleftrightarrow>
     (\<exists>address ds. su_server su = Ok (Some (address, ds)) \<and> serial = se_serial q
       \<and> (if se_serial q \<noteq> None \<or> se_transport_id q \<noteq> None
          then (\<exists>d. filter (server_matches (is_address su) q) ds = [d]
                 \<and> transport_id = (if se_named q then server_transport_id d else se_transport_id q))
          else length ds = 1))"

lemma select_usb_Ok:
  "select_usb public e n s ds = Ok d \<longleftrightarrow> filter (usb_matches public e n s) ds = [d]"
  by (auto simp: select_usb_def failure_def split: list.splits)

lemma usb_route_selects: "usb_route su e q args = Ok (On_Usb d args') \<Longrightarrow> selected_usb su e q d"
  by (auto simp: usb_route_def Let_def selected_usb_def failure_def select_usb_Ok split: if_splits elim!: bind_outcome.elims)

lemma find_sorted_set:
  "finite S \<Longrightarrow> List.find P (sorted_list_of_set S) = Some a \<Longrightarrow> a \<in> S \<and> P a"
  by (metis find_Some_iff nth_mem set_sorted_list_of_set)

lemma wireless_route_selects:
  assumes "wireless_route su q args = Ok (Some (On_Wireless a args'))"
  shows "selected_wireless su q a"
proof (cases "Option.bind (se_serial q) (su_parse su)")
  case None
  with assms obtain n saved where n: "se_transport_id q = Some n" "su_saved su = Ok saved" "saved_with_id su n saved = Some a"
    by (auto simp: wireless_route_def split: option.splits elim!: bind_outcome.elims)
  then have "stable_transport_id (ascii ''tcp'') (su_text su a) = n"
    by (auto simp: saved_with_id_def find_Some_iff)
  moreover have "finite saved \<longrightarrow> a \<in> saved" using find_sorted_set n(3) unfolding saved_with_id_def by blast
  ultimately show ?thesis using None n by (auto simp: selected_wireless_def)
next
  case (Some b)
  with assms show ?thesis
    by (auto simp: wireless_route_def selected_wireless_def failure_def split: if_splits elim!: bind_outcome.elims)
qed

lemma server_route_selects:
  assumes "server_route is_addr q c (map_option snd server) = Run_On_Server serial transport_id"
  shows "\<exists>address ds. server = Some (address, ds) \<and> serial = se_serial q
       \<and> (if se_serial q \<noteq> None \<or> se_transport_id q \<noteq> None
          then (\<exists>d. filter (server_matches is_addr q) ds = [d]
                 \<and> transport_id = (if se_named q then server_transport_id d else se_transport_id q))
          else length ds = 1)"
proof -
  obtain address ds where server: "server = Some (address, ds)" "route_by_devices is_addr q c ds = Run_On_Server serial transport_id"
    using assms by (cases server) (auto simp: server_route_def split: route.splits if_splits)
  have "length xs = Suc 0 \<longleftrightarrow> (\<exists>x. xs = [x])" for xs :: "device_long list" by (auto simp: length_Suc_conv)
  with server show ?thesis
    by (auto simp: route_by_devices_def Let_def split: if_splits)
qed

fun runs_where :: "'a :: linorder surroundings \<Rightarrow> endpoint option \<Rightarrow> selection \<Rightarrow> 'a main_action \<Rightarrow> bool" where
  "runs_where su e q (On_Usb d _) = selected_usb su e q d"
| "runs_where su e q (On_Wireless a _) = (e = None \<and> selected_wireless su q a)"
| "runs_where su e q (On_Server _ serial transport_id _) = (e = None \<and> selected_server su q serial transport_id)"
| "runs_where su e q _ = True"

lemma early_runs_nowhere: "early_command su args = Ok (Some act) \<Longrightarrow> runs_where su e q act"
  by (auto simp: early_command_def failure_def split: list.splits if_splits elim!: bind_outcome.elims)

lemma server_level_runs_nowhere: "server_level server args = Ok (Some act) \<Longrightarrow> runs_where su e q act"
  by (auto simp: server_level_def failure_def split: list.splits if_splits elim!: bind_outcome.elims)

lemma usb_route_runs: "usb_route su e q args = Ok act \<Longrightarrow> runs_where su e q act"
  using usb_route_selects
  by (auto simp: usb_route_def Let_def failure_def selected_usb_def select_usb_Ok split: if_splits elim!: bind_outcome.elims)

lemma wireless_route_runs: "wireless_route su q args = Ok (Some act) \<Longrightarrow> runs_where su None q act"
proof -
  assume run: "wireless_route su q args = Ok (Some act)"
  then obtain a args' where "act = On_Wireless a args'"
    by (auto simp: wireless_route_def failure_def split: option.splits if_splits elim!: bind_outcome.elims)
  with run wireless_route_selects show ?thesis by simp
qed

lemma device_route_runs:
  assumes "device_route su e q args = Ok act"
  shows "runs_where su e q act"
proof -
  obtain server where server: "(if e = None then su_server su else Ok None) = Ok server"
    using assms by (auto simp: device_route_def elim!: bind_outcome.elims split: if_splits)
  obtain found where found: "server_level server args = Ok (found :: 'a main_action option)"
    using assms server by (auto simp: device_route_def elim!: bind_outcome.elims)
  let ?r = "server_route (is_address su) q (case args of a # _ \<Rightarrow> Some a | [] \<Rightarrow> None) (map_option snd server)"
  show ?thesis
  proof (cases found)
    case (Some act')
    with assms server found server_level_runs_nowhere show ?thesis by (simp add: device_route_def)
  next
    case None
    show ?thesis
    proof (cases ?r)
      case (Run_On_Server serial transport_id)
      with assms server found None have act: "act = On_Server (fst (the server)) serial transport_id args"
        by (simp add: device_route_def)
      from server_route_selects [OF Run_On_Server] server have "e = None" by (cases e) auto
      with server_route_selects [OF Run_On_Server] server act show ?thesis
        by (auto simp: selected_server_def)
    next
      case (Refused m)
      with assms server found None show ?thesis by (simp add: device_route_def)
    next
      case Elsewhere
      with assms server found None have run: "bind_outcome (if e = None then wireless_route su q args else Ok None) (\<lambda>found.
          case found of Some act \<Rightarrow> Ok act | None \<Rightarrow> usb_route su e q args) = Ok act"
        by (simp add: device_route_def)
      then obtain w where w: "(if e = None then wireless_route su q args else Ok None) = Ok w" by (auto elim!: bind_outcome.elims)
      show ?thesis
      proof (cases w)
        case None
        with run w usb_route_runs show ?thesis by simp
      next
        case (Some act')
        with run w wireless_route_runs show ?thesis by (auto split: if_splits)
      qed
    qed
  qed
qed


definition one_phone :: usb_device where
  "one_phone = \<lparr>ud_vendor = 6353, ud_serial = Some (ascii ''x''), ud_product = 1, ud_location = None, ud_registry = None\<rparr>"

definition one_phone_connected :: "nat surroundings" where
  "one_phone_connected = \<lparr>su_key = True, su_parse = (\<lambda>_. None), su_text = (\<lambda>_. []), su_server = Ok None, su_saved = Ok {},
     su_found = Ok [one_phone, one_phone\<lparr>ud_serial := Some (ascii ''y'')\<rparr>], su_public = (\<lambda>_. None)\<rparr>"


end
