(* ===== verification/Cli_Listing.thy ===== *)
theory Cli_Listing
  imports Cli_Main
begin

text \<open>
  What \<^verbatim>\<open>devices\<close> prints and what \<^verbatim>\<open>track-devices\<close> reports: every saved address is listed exactly once, by
  the server or directly, and whoever follows the reports knows which devices are attached.
\<close>

section \<open>Listing the devices\<close>

definition server_row :: "device_long list \<Rightarrow> device_long \<Rightarrow> bytes" where
  "server_row ds d =
     server_selector d ds @ [TAB] @ device_state_text (dl_state d) @ ascii '' model:'' @ dl_model d
       @ ascii '' transport_id:'' @ show_nat (unat (dl_transport_id d))
       @ ascii '' androconnect_transport:server androconnect_serial:'' @ dl_identifier d"

definition direct_row :: "('a \<Rightarrow> bytes) \<Rightarrow> 'a \<times> bytes boxed \<Rightarrow> bytes" where
  "direct_row text e =
     (case e of (a, r) \<Rightarrow>
       let tid = show_nat (unat (stable_transport_id (ascii ''tcp'') (text a)))
       in case r of
            Ok serial \<Rightarrow> text a @ [TAB] @ ascii ''device product:wireless model:'' @ serial @ ascii '' transport_id:'' @ tid
          | _ \<Rightarrow> text a @ [TAB] @ ascii ''offline transport_id:'' @ tid)"

definition ready_on_server :: "device_long list \<Rightarrow> bytes set" where
  "ready_on_server ds = {dl_identifier d | d. d \<in> set ds \<and> dl_state d = Device}"

text \<open>The addresses that are probed directly: those saved that the server does not have ready.\<close>

definition probed_addresses :: "('a :: linorder \<Rightarrow> bytes) \<Rightarrow> 'a set \<Rightarrow> device_long list \<Rightarrow> 'a list" where
  "probed_addresses text saved ds = filter (\<lambda>a. text a \<notin> ready_on_server ds) (sorted_list_of_set saved)"

definition ready_directly :: "('a \<Rightarrow> bytes) \<Rightarrow> ('a \<times> bytes boxed) list \<Rightarrow> bytes set" where
  "ready_directly text results = {text a | a s. (a, Ok s) \<in> set results}"

definition listed_by_server :: "(bytes \<Rightarrow> bool) \<Rightarrow> bytes set \<Rightarrow> device_long list \<Rightarrow> device_long list" where
  "listed_by_server is_addr ready ds =
     filter (\<lambda>d. \<not> (unavailable_server_wireless is_addr d \<and> dl_identifier d \<in> ready)) ds"

definition listed_directly ::
    "('a \<Rightarrow> bytes) \<Rightarrow> device_long list \<Rightarrow> ('a \<times> bytes boxed) list \<Rightarrow> ('a \<times> bytes boxed) list" where
  "listed_directly text shown results = filter (\<lambda>(a, r). text a \<notin> dl_identifier ` set shown) results"

text \<open>All rows; \<open>usb\<close> gives those of the USB devices, only of running daemons when the server has devices.\<close>

definition device_rows ::
    "('a \<Rightarrow> bytes) \<Rightarrow> (bytes \<Rightarrow> bool) \<Rightarrow> device_long list option \<Rightarrow> (bool \<Rightarrow> bytes list) \<Rightarrow> ('a \<times> bytes boxed) list \<Rightarrow> bytes list" where
  "device_rows text is_addr server usb results =
     (let ds = (case server of Some ds \<Rightarrow> ds | None \<Rightarrow> []);
          shown = listed_by_server is_addr (ready_directly text results) ds
      in ascii ''List of devices attached'' # map (server_row ds) shown @ usb (ds \<noteq> [])
           @ map (direct_row text) (listed_directly text shown results))"

text \<open>
  Every saved wireless address is listed, and only once: either in a row of the server or in a row
  of its own, never in both and never in none, whichever of the two can reach it.
\<close>

theorem every_address_is_listed_once:
  assumes "finite saved" and "a \<in> saved" and "inj_on text saved" and "is_addr (text a)"
    and "map fst results = probed_addresses text saved ds"
    and "shown = listed_by_server is_addr (ready_directly text results) ds"
  shows "(\<exists>d \<in> set shown. dl_identifier d = text a) \<noteq> (a \<in> fst ` set (listed_directly text shown results))"
proof (cases "text a \<in> ready_on_server ds")
  case True
  then obtain d where d: "d \<in> set ds" "dl_state d = Device" "dl_identifier d = text a"
    by (auto simp: ready_on_server_def)
  then have "d \<in> set shown" using assms(6) by (simp add: listed_by_server_def unavailable_server_wireless_def)
  with d(3) have "a \<notin> fst ` set (listed_directly text shown results)" by (force simp: listed_directly_def)
  with \<open>d \<in> set shown\<close> d(3) show ?thesis by blast
next
  case False
  have "fst ` set results = {a \<in> saved. text a \<notin> ready_on_server ds}"
    using arg_cong [OF assms(5), of set] assms(1) by (auto simp: probed_addresses_def)
  with False assms(2) have "a \<in> fst ` set results" by simp
  then show ?thesis by (force simp: listed_directly_def)
qed

text \<open>The rows of the USB devices and the unavailable rows of the server that are replaced.\<close>

lemma replaced_row_is_direct:
  assumes "d \<in> set ds" and "d \<notin> set (listed_by_server is_addr (ready_directly text results) ds)"
  shows "\<exists>a s. (a, Ok s) \<in> set results \<and> dl_identifier d = text a"
  using assms by (auto simp: listed_by_server_def ready_directly_def)

section \<open>Following the devices\<close>

definition attached :: "(usb_device \<Rightarrow> bytes boxed) \<Rightarrow> usb_device list \<Rightarrow> bytes set" where
  "attached request ds = {first_line s | d s. d \<in> set ds \<and> request d = Ok s}"

definition came :: bytes where
  "came = [TAB] @ ascii ''device''"

definition went :: bytes where
  "went = [TAB] @ ascii ''offline''"

definition changes :: "bytes set \<Rightarrow> bytes set \<Rightarrow> bytes list" where
  "changes previous current =
     map (\<lambda>s. s @ came) (sorted_list_of_set (current - previous))
       @ map (\<lambda>s. s @ went) (sorted_list_of_set (previous - current))"

text \<open>One turn of the loop: what is printed and what is remembered.\<close>

definition track_turn :: "(usb_device \<Rightarrow> bytes boxed) \<Rightarrow> usb_device list \<Rightarrow> bytes set \<Rightarrow> bytes list \<times> bytes set" where
  "track_turn request ds previous =
     (let current = attached request ds
      in if current \<noteq> previous then (changes previous current, current) else ([], previous))"

text \<open>The turns, each with the devices found and the answers they gave; finding none at all ends the command.\<close>

fun track_turns :: "(usb_device list boxed \<times> (usb_device \<Rightarrow> bytes boxed)) list \<Rightarrow> bytes set \<Rightarrow> bytes list \<times> bytes set" where
  "track_turns ((Ok ds, request) # turns) previous =
     (case track_turn request ds previous of
        (lines, current) \<Rightarrow> (case track_turns turns current of (later, kept) \<Rightarrow> (lines @ later, kept)))"
| "track_turns _ previous = ([], previous)"

text \<open>A reader of the reports, who knows only the lines.\<close>

definition read_report :: "bytes \<Rightarrow> bytes set \<Rightarrow> bytes set" where
  "read_report l known =
     (if ends_with came l then insert (take (length l - length came) l) known
      else if ends_with went l then known - {take (length l - length went) l}
      else known)"

definition read_reports :: "bytes list \<Rightarrow> bytes set \<Rightarrow> bytes set" where
  "read_reports = fold read_report"

lemma ends_with_append [simp]: "ends_with s (p @ s)"
  by (simp add: ends_with_def starts_with_def)

lemma read_came: "read_report (s @ came) known = insert s known"
  by (simp add: read_report_def)

lemma read_went: "read_report (s @ went) known = known - {s}"
proof -
  have "\<not> ends_with came (s @ went)"
    by (simp add: ends_with_def starts_with_def came_def went_def)
  then show ?thesis by (simp add: read_report_def)
qed

lemma read_all_came: "read_reports (map (\<lambda>s. s @ came) ss) known = known \<union> set ss"
  by (induction ss arbitrary: known) (auto simp: read_reports_def read_came)

lemma read_all_went: "read_reports (map (\<lambda>s. s @ went) ss) known = known - set ss"
  by (induction ss arbitrary: known) (auto simp: read_reports_def read_went)

lemma read_all_append: "read_reports (ls @ ms) known = read_reports ms (read_reports ls known)"
  by (simp add: read_reports_def)

lemma finite_attached: "finite (attached request ds)"
proof (rule finite_subset)
  show "attached request ds \<subseteq> (\<lambda>d. case request d of Ok s \<Rightarrow> first_line s | _ \<Rightarrow> []) ` set ds"
    by (force simp: attached_def)
qed simp

lemma read_changes:
  assumes "finite previous" and "finite current"
  shows "read_reports (changes previous current) previous = current"
  using assms by (auto simp: changes_def read_all_append read_all_came read_all_went)

lemma read_turn:
  assumes "finite previous" and "track_turn request ds previous = (lines, current)"
  shows "read_reports lines previous = current" and "finite current"
  using assms read_changes [OF assms(1) finite_attached] finite_attached
  by (auto simp: track_turn_def Let_def read_reports_def split: if_splits)


section \<open>Examples\<close>

text \<open>The server has a row for an address it cannot use, and the address answers directly.\<close>

definition stale_row :: device_long where
  "stale_row = \<lparr>dl_identifier = [1], dl_state = Offline, dl_usb = [], dl_product = [], dl_model = [], dl_device = [], dl_transport_id = 3\<rparr>"

theorem every_address_is_listed_once_witness:
  "(\<exists>d \<in> set ([] :: device_long list). dl_identifier d = [1])
    \<noteq> ((0 :: nat) \<in> fst ` set (listed_directly (\<lambda>_. [1]) [] [(0, Ok (ascii ''x''))]))"
proof (rule every_address_is_listed_once [where saved = "{0 :: nat}" and is_addr = "\<lambda>_. True" and ds = "[stale_row]"])
  show "map fst [(0 :: nat, Ok (ascii ''x'') :: bytes boxed)] = probed_addresses (\<lambda>_. [1]) {0} [stale_row]"
    by (simp add: probed_addresses_def ready_on_server_def stale_row_def)
  show "[] = listed_by_server (\<lambda>_. True) (ready_directly (\<lambda>_. [1]) [(0 :: nat, Ok (ascii ''x''))]) [stale_row]"
    by (simp add: listed_by_server_def ready_directly_def unavailable_server_wireless_def stale_row_def)
qed simp_all


end
