(* ===== verification/Pairing_Math.thy ===== *)
theory Pairing_Math
  imports Cli_Stream
begin

text \<open>
  The key exchange of \<^verbatim>\<open>adb_client/src/wireless.rs\<close>: the arithmetic on scalars of 32 bytes, the
  multiplication of a point of the curve, and the two steps of the exchange. Points, hashing and the reduction of
  scalars modulo the order of the group are those of libraries: a record of functions with their laws.
\<close>

section \<open>Libraries\<close>

record 'p pairing_lib =
  pt_identity :: 'p
  pt_base :: 'p
  pt_add :: "'p \<Rightarrow> 'p \<Rightarrow> 'p"
  pt_sub :: "'p \<Rightarrow> 'p \<Rightarrow> 'p"
  pt_compress :: "'p \<Rightarrow> bytes"
  pt_decompress :: "bytes \<Rightarrow> 'p option"
  reduce_wide :: "bytes \<Rightarrow> bytes"
  sha512 :: "bytes \<Rightarrow> bytes"
  hkdf_expand :: "bytes \<Rightarrow> bytes \<Rightarrow> bytes option"
  aes_encrypt :: "bytes \<Rightarrow> bytes \<Rightarrow> bytes \<Rightarrow> bytes option"
  aes_decrypt :: "bytes \<Rightarrow> bytes \<Rightarrow> bytes \<Rightarrow> bytes option"

definition GROUP_ORDER :: bytes where
  "GROUP_ORDER =
     [0xed, 0xd3, 0xf5, 0x5c, 0x1a, 0x63, 0x12, 0x58, 0xd6, 0x9c, 0xf7, 0xa2, 0xde, 0xf9, 0xde, 0x14,
      0x00, 0x00, 0x00, 0x00, 0x00, 0x00, 0x00, 0x00, 0x00, 0x00, 0x00, 0x00, 0x00, 0x00, 0x00, 0x10]"

definition SPAKE_M :: bytes where
  "SPAKE_M =
     [0x5a, 0xda, 0x7e, 0x4b, 0xf6, 0xdd, 0xd9, 0xad, 0xb6, 0x62, 0x6d, 0x32, 0x13, 0x1c, 0x6b, 0x5c,
      0x51, 0xa1, 0xe3, 0x47, 0xa3, 0x47, 0x8f, 0x53, 0xcf, 0xcf, 0x44, 0x1b, 0x88, 0xee, 0xd1, 0x2e]"

definition SPAKE_N :: bytes where
  "SPAKE_N =
     [0x10, 0xe3, 0xdf, 0x0a, 0xe3, 0x7d, 0x8e, 0x7a, 0x99, 0xb5, 0xfe, 0x74, 0xb4, 0x46, 0x72, 0x10,
      0x3d, 0xbd, 0xdc, 0xbd, 0x06, 0xaf, 0x68, 0x0d, 0x71, 0x32, 0x9a, 0x11, 0x69, 0x3b, 0xc7, 0x78]"

text \<open>
  What the libraries promise: the points are an abelian group whose encodings are 32 bytes and can be read back,
  the reduction gives the 32 bytes of a number below the order, a ciphertext is 16 bytes longer than its text and
  is deciphered under the same key and nonce.
\<close>

definition pairing_laws :: "'p pairing_lib \<Rightarrow> bool" where
  "pairing_laws C \<longleftrightarrow>
     (\<forall>P Q R. pt_add C (pt_add C P Q) R = pt_add C P (pt_add C Q R)) \<and>
     (\<forall>P Q. pt_add C P Q = pt_add C Q P) \<and>
     (\<forall>P. pt_add C (pt_identity C) P = P) \<and>
     (\<forall>P Q. pt_sub C (pt_add C P Q) Q = P) \<and>
     (\<forall>P. pt_decompress C (pt_compress C P) = Some P \<and> length (pt_compress C P) = 32) \<and>
     (\<forall>bs. length (reduce_wide C bs) = 32 \<and> nat_le (reduce_wide C bs) < nat_le GROUP_ORDER) \<and>
     (\<forall>k n p c. aes_encrypt C k n p = Some c \<longrightarrow> length c = length p + 16 \<and> aes_decrypt C k n c = Some p)"

section \<open>Scalars\<close>

fun shift_carry :: "u8 \<Rightarrow> bytes \<Rightarrow> bytes" where
  "shift_carry carry [] = []"
| "shift_carry carry (b # bs) = (push_bit 3 b OR carry) # shift_carry (drop_bit 5 b) bs"

definition shift_left_three :: "bytes \<Rightarrow> bytes" where
  "shift_left_three value = shift_carry 0 value"

fun add_carry :: "u16 \<Rightarrow> bytes \<Rightarrow> bytes \<Rightarrow> bytes" where
  "add_carry carry (a # as) (b # bs) =
     (let sum = ucast a + ucast b + carry in ucast sum # add_carry (drop_bit 8 sum) as bs)"
| "add_carry carry _ _ = []"

definition add_le :: "bytes \<Rightarrow> bytes \<Rightarrow> bytes" where
  "add_le left right = add_carry 0 left right"

text \<open>One turn of the loop over the three bits that the cofactor clears, on the value and the multiple of the order.\<close>

definition clear_bit_turn :: "nat \<Rightarrow> bytes \<times> bytes \<Rightarrow> bytes \<times> bytes" where
  "clear_bit_turn i = (\<lambda>(value, order).
     (if bit (hd value) i then add_le value order else value, add_le order order))"

definition clear_cofactor_bits :: "bytes \<Rightarrow> bytes" where
  "clear_cofactor_bits value = fst (fold clear_bit_turn [0..<3] (value, GROUP_ORDER))"

section \<open>Points\<close>

definition multiply_bit :: "'p pairing_lib \<Rightarrow> u8 \<Rightarrow> nat \<Rightarrow> 'p \<times> 'p \<Rightarrow> 'p \<times> 'p" where
  "multiply_bit C byte i = (\<lambda>(result, multiple).
     (if bit byte i then pt_add C result multiple else result, pt_add C multiple multiple))"

definition multiply_byte :: "'p pairing_lib \<Rightarrow> u8 \<Rightarrow> 'p \<times> 'p \<Rightarrow> 'p \<times> 'p" where
  "multiply_byte C byte = fold (multiply_bit C byte) [0..<8]"

definition multiply_raw :: "'p pairing_lib \<Rightarrow> 'p \<Rightarrow> bytes \<Rightarrow> 'p" where
  "multiply_raw C point scalar = fst (fold (multiply_byte C) scalar (pt_identity C, point))"

definition decode_point :: "'p pairing_lib \<Rightarrow> bytes \<Rightarrow> 'p result" where
  "decode_point C value = ok_or (request_failed ''invalid SPAKE2 point'') (pt_decompress C value)"

section \<open>The exchange\<close>

definition CLIENT_NAME :: bytes where
  "CLIENT_NAME = ascii ''adb pair client'' @ [0]"

definition SERVER_NAME :: bytes where
  "SERVER_NAME = ascii ''adb pair server'' @ [0]"

record spake_state =
  private_scalar :: bytes
  password_scalar :: bytes
  password_hash :: bytes
  spake_message :: bytes

text \<open>\<open>random\<close> are the 64 bytes the generator gives out.\<close>

definition spake_start :: "'p pairing_lib \<Rightarrow> bytes \<Rightarrow> bytes \<Rightarrow> (spake_state \<times> bytes) result" where
  "spake_start C random password =
     (let private = shift_left_three (reduce_wide C random);
          hash = sha512 C password;
          scalar = clear_cofactor_bits (reduce_wide C hash)
      in bind_outcome (decode_point C SPAKE_M) (\<lambda>mask.
           let public = multiply_raw C (pt_base C) private;
               message = pt_compress C (pt_add C public (multiply_raw C mask scalar))
           in Ok (\<lparr>private_scalar = private, password_scalar = scalar, password_hash = hash, spake_message = message\<rparr>,
                  message)))"

text \<open>Every part of the transcript is preceded by its length.\<close>

definition transcript :: "bytes list \<Rightarrow> bytes" where
  "transcript values = concat (map (\<lambda>v. to_le64 (word_of_nat (length v)) @ v) values)"

definition spake_finish :: "'p pairing_lib \<Rightarrow> spake_state \<Rightarrow> bytes \<Rightarrow> bytes result" where
  "spake_finish C s peer_message =
     (if length peer_message \<noteq> 32 then Err (request_failed ''invalid SPAKE2 message length'')
      else bind_outcome (decode_point C peer_message) (\<lambda>peer_masked.
           bind_outcome (decode_point C SPAKE_N) (\<lambda>mask.
             let peer_public = pt_sub C peer_masked (multiply_raw C mask (password_scalar s));
                 shared = pt_compress C (multiply_raw C peer_public (private_scalar s))
             in Ok (sha512 C (transcript
                  [CLIENT_NAME, SERVER_NAME, spake_message s, peer_message, shared, password_hash s])))))"

section \<open>What the scalars are\<close>

lemma small_bits: "unat (c :: u8) < 8 \<Longrightarrow> bit c n \<Longrightarrow> n < 3"
proof -
  assume small: "unat c < 8" "bit c n"
  then have "unat (take_bit 3 c) = unat c" by (simp only: unsigned_take_bit_eq) (simp add: take_bit_eq_mod)
  then have "take_bit 3 c = c" by (simp only: word_unat_eq_iff)
  with small(2) show ?thesis by (metis bit_take_bit_iff)
qed

lemma times_eight: "8 * n mod 256 = 8 * (n mod 32)" for n :: nat
  using mult_mod_right [of 8 n 32] by simp

lemma mod_low: "low < 256 \<Longrightarrow> (low + 256 * n) mod (256 * m) = low + 256 * (n mod m)" for n :: nat
  by (simp add: mod_mult2_eq)

lemma unat_shift_or:
  assumes "unat (c :: u8) < 8"
  shows "unat (push_bit 3 b OR c) = 8 * unat b mod 256 + unat c"
proof -
  have "push_bit 3 b OR c = push_bit 3 b + c"
    by (rule disjunctive_add [symmetric]) (auto simp: bit_push_bit_iff dest: small_bits [OF assms])
  moreover have p: "unat (push_bit 3 b) = 8 * unat b mod 256"
    by (simp add: push_bit_eq_mult unat_word_ariths mult.commute)
  have "8 * unat b mod 256 \<le> 248" using mod_less_divisor [of 32 "unat b"] by (simp add: times_eight)
  with p assms have "unat (push_bit 3 b) + unat c < 256" by linarith
  ultimately show ?thesis using p by (simp add: unat_word_ariths)
qed

lemma shift_carry_value:
  "unat c < 8 \<Longrightarrow> nat_le (shift_carry c bs) = (8 * nat_le bs + unat c) mod 256 ^ length bs"
proof (induction bs arbitrary: c)
  case (Cons b bs)
  have carry: "unat (drop_bit 5 b) = unat b div 32"
    by (simp add: drop_bit_eq_div unat_div)
  then have "unat (drop_bit 5 b) < 8" using u8_unat_less [of b] by simp
  from Cons.IH [OF this] carry
  have IH: "nat_le (shift_carry (drop_bit 5 b) bs) = (8 * nat_le bs + unat b div 32) mod 256 ^ length bs" by simp
  define m where "m = (256 :: nat) ^ length bs"
  define low where "low = 8 * unat b mod 256 + unat c"
  have low: "low < 256"
    using Cons.prems mod_less_divisor [of 32 "unat b"] by (simp add: low_def times_eight)
  have "8 * unat b = 8 * (unat b mod 32) + 256 * (unat b div 32)"
    using mult_div_mod_eq [of 32 "unat b"] by linarith
  then have "8 * (unat b + 256 * nat_le bs) + unat c = low + 256 * (8 * nat_le bs + unat b div 32)"
    by (simp add: low_def times_eight)
  also have "\<dots> mod (256 * m) = low + 256 * ((8 * nat_le bs + unat b div 32) mod m)"
    by (rule mod_low [OF low])
  finally show ?case
    using IH unat_shift_or [OF Cons.prems] by (simp add: m_def low_def)
qed simp

lemma length_shift_carry [simp]: "length (shift_carry c bs) = length bs"
  by (induction bs arbitrary: c) simp_all

lemma shift_left_three_value: "8 * nat_le bs < 256 ^ length bs \<Longrightarrow> nat_le (shift_left_three bs) = 8 * nat_le bs"
  by (simp add: shift_left_three_def shift_carry_value)

lemma length_add_carry [simp]: "length (add_carry c as bs) = min (length as) (length bs)"
  by (induction c as bs rule: add_carry.induct) (simp_all add: Let_def)

lemma add_carry_value:
  "length as = length bs \<Longrightarrow> unat c \<le> 1 \<Longrightarrow>
     nat_le (add_carry c as bs) = (nat_le as + nat_le bs + unat c) mod 256 ^ length as"
proof (induction c as bs rule: add_carry.induct)
  case (1 c a as b bs)
  define total :: u16 where "total = ucast a + ucast b + c"
  have ab: "unat (ucast a :: u16) = unat a" "unat (ucast b :: u16) = unat b"
    using u8_unat_less [of a] u8_unat_less [of b] by (simp_all add: unsigned_ucast_eq take_bit_eq_mod)
  have sum: "unat total = unat a + unat b + unat c"
    using u8_unat_less [of a] u8_unat_less [of b] 1(3) ab by (simp add: total_def unat_word_ariths)
  have low: "unat (ucast total :: u8) = unat total mod 256"
    by (simp add: unsigned_ucast_eq take_bit_eq_mod)
  have high: "unat (drop_bit 8 total) = unat total div 256"
    by (simp add: drop_bit_eq_div unat_div)
  then have "unat (drop_bit 8 total) \<le> 1"
    using sum u8_unat_less [of a] u8_unat_less [of b] 1(3) by simp
  from 1(1) [OF refl, folded total_def] this 1(2) high
  have IH: "nat_le (add_carry (drop_bit 8 total) as bs)
      = (nat_le as + nat_le bs + unat total div 256) mod 256 ^ length as"
    by (simp add: total_def)
  define m where "m = (256 :: nat) ^ length as"
  let ?n = "nat_le as + nat_le bs + unat total div 256"
  have "unat total + 256 * (nat_le as + nat_le bs) = unat total mod 256 + 256 * ?n"
    by (subst (1) mult_div_mod_eq [of 256 "unat total", symmetric]) (simp only: distrib_left add_ac)
  also have "\<dots> mod (256 * m) = unat total mod 256 + 256 * (?n mod m)"
    by (rule mod_low) simp
  finally have result: "(unat total + 256 * (nat_le as + nat_le bs)) mod (256 * m) = unat total mod 256 + 256 * (?n mod m)" .
  have step: "add_carry c (a # as) (b # bs) = ucast total # add_carry (drop_bit 8 total) as bs"
    by (simp add: total_def Let_def)
  have "nat_le (add_carry c (a # as) (b # bs)) = (unat total + 256 * (nat_le as + nat_le bs)) mod (256 * m)"
    unfolding step result by (simp add: IH low m_def)
  also have "unat total + 256 * (nat_le as + nat_le bs) = nat_le (a # as) + nat_le (b # bs) + unat c"
    by (simp add: sum)
  finally show ?case by (simp add: m_def)
qed simp_all

lemma add_le_value:
  "length as = length bs \<Longrightarrow> nat_le as + nat_le bs < 256 ^ length as \<Longrightarrow> nat_le (add_le as bs) = nat_le as + nat_le bs"
  by (simp add: add_le_def add_carry_value)

lemma bit_hd:
  assumes "bs \<noteq> []" and "i < 8"
  shows "bit (hd bs) i \<longleftrightarrow> odd (nat_le bs div 2 ^ i)"
proof -
  obtain b rest where bs: "bs = b # rest" using assms(1) by (cases bs) auto
  obtain j where j: "8 = i + Suc j" using assms(2) by (metis add_Suc_right less_iff_Suc_add)
  have "(256 :: nat) = 2 ^ 8" by simp
  also have "\<dots> = 2 ^ (i + Suc j)" by (simp only: j)
  finally have "(256 :: nat) = 2 ^ (i + Suc j)" .
  then have "nat_le bs = unat b + 2 ^ i * (2 * 2 ^ j * nat_le rest)"
    by (simp add: bs power_add)
  then have "nat_le bs div 2 ^ i = 2 * 2 ^ j * nat_le rest + unat b div 2 ^ i" by simp
  then have "odd (nat_le bs div 2 ^ i) \<longleftrightarrow> bit (unat b) i" by (simp add: bit_iff_odd)
  then show ?thesis using assms(2) by (simp add: bs bit_unsigned_iff)
qed

lemma group_order: "odd (nat_le GROUP_ORDER)" "nat_le GROUP_ORDER < 2 ^ 253" "length GROUP_ORDER = 32"
  by (simp_all add: GROUP_ORDER_def)

text \<open>After \<open>i\<close> turns the lowest \<open>i\<close> bits are clear, and fewer than two to the \<open>i\<close> orders have been added.\<close>

definition cleared :: "nat \<Rightarrow> nat \<Rightarrow> bytes \<times> bytes \<Rightarrow> bool" where
  "cleared v i = (\<lambda>(value, order).
     length value = 32 \<and> length order = 32 \<and> nat_le order = 2 ^ i * nat_le GROUP_ORDER \<and>
     (\<exists>k < 2 ^ i. nat_le value = v + k * nat_le GROUP_ORDER) \<and> 2 ^ i dvd nat_le value)"

lemma clearedI:
  "length a = 32 \<Longrightarrow> length b = 32 \<Longrightarrow> nat_le b = 2 ^ i * nat_le GROUP_ORDER \<Longrightarrow> k < 2 ^ i \<Longrightarrow>
   nat_le a = v + k * nat_le GROUP_ORDER \<Longrightarrow> 2 ^ i dvd nat_le a \<Longrightarrow> cleared v i (a, b)"
  unfolding cleared_def by blast

lemma length_add_le: "length a = 32 \<Longrightarrow> length b = 32 \<Longrightarrow> length (add_le a b) = 32"
  by (simp add: add_le_def)

lemma eight_orders: "v < l \<Longrightarrow> a \<le> 3 * l \<Longrightarrow> b \<le> 4 * l \<Longrightarrow> l < 2 ^ 253 \<Longrightarrow> v + a + b < 256 ^ 32" for v :: nat
  by simp

lemma clear_turn:
  assumes v: "v < nat_le GROUP_ORDER" and s: "cleared v i s" and "i < 3"
  shows "cleared v (Suc i) (clear_bit_turn i s)"
proof -
  let ?L = "nat_le GROUP_ORDER"
  obtain x y where [simp]: "s = (x, y)" by fastforce
  from s obtain k where s: "length x = 32" "length y = 32" "nat_le y = 2 ^ i * ?L"
    "k < 2 ^ i" "nat_le x = v + k * ?L" "2 ^ i dvd nat_le x" by (auto simp: cleared_def)
  have "2 ^ Suc i \<le> (2 :: nat) ^ 3" using \<open>i < 3\<close> by (intro power_increasing) simp_all
  then have i: "2 ^ i \<le> (4 :: nat)" by simp
  have y_sum: "nat_le (add_le y y) = 2 ^ Suc i * ?L"
  proof -
    have "nat_le y \<le> 4 * ?L" unfolding s(3) using i by (rule mult_le_mono1)
    then have "nat_le y + nat_le y < 256 ^ length y" using s(2) group_order(2) by simp
    from add_le_value [OF refl this] s(3) show ?thesis by simp
  qed
  have bit: "bit (hd x) i \<longleftrightarrow> odd (nat_le x div 2 ^ i)"
    using bit_hd [of x i] s(1) \<open>i < 3\<close> by (cases x) simp_all
  obtain m where m: "nat_le x = 2 ^ i * m" using s(6) by (rule dvdE)
  show ?thesis
  proof (cases "odd m")
    case False
    then have "2 ^ Suc i dvd nat_le x" by (auto simp: m elim!: evenE)
    moreover have "k < 2 ^ Suc i" using s(4) by simp
    moreover have "clear_bit_turn i s = (x, add_le y y)" using False bit m by (simp add: clear_bit_turn_def)
    ultimately show ?thesis using s y_sum by (simp only: clearedI length_add_le)
  next
    case True
    have "nat_le y \<le> 4 * ?L" unfolding s(3) using i by (rule mult_le_mono1)
    moreover have "k * ?L \<le> 3 * ?L" using s(4) i by (intro mult_le_mono1) simp
    ultimately have "nat_le x + nat_le y < 256 ^ length x"
      unfolding s(1,5) using eight_orders [OF v _ _ group_order(2)] by blast
    from add_le_value [OF _ this] s(1,2)
    have sum: "nat_le (add_le x y) = nat_le x + nat_le y" by simp
    then have "nat_le (add_le x y) = v + (k + 2 ^ i) * ?L" using s(3,5) by (simp add: distrib_right)
    moreover have "nat_le (add_le x y) = 2 ^ i * (m + ?L)" using sum m s(3) by (simp add: distrib_left)
    then have "2 ^ Suc i dvd nat_le (add_le x y)"
      using True group_order(1) by (simp add: mult.commute [of 2])
    moreover have "k + 2 ^ i < 2 ^ Suc i" using s(4) by simp
    moreover have "clear_bit_turn i s = (add_le x y, add_le y y)" using True bit m by (simp add: clear_bit_turn_def)
    ultimately show ?thesis using s y_sum by (simp only: clearedI length_add_le)
  qed
qed

lemma clear_turns: "length x = 32 \<Longrightarrow> nat_le x < nat_le GROUP_ORDER \<Longrightarrow> n \<le> 3 \<Longrightarrow>
    cleared (nat_le x) n (fold clear_bit_turn [0..<n] (x, GROUP_ORDER))"
proof (induction n)
  case 0
  then show ?case by (simp add: cleared_def group_order)
next
  case (Suc n)
  then show ?case by (simp add: clear_turn)
qed

section \<open>Multiples of a point\<close>

definition times :: "'p pairing_lib \<Rightarrow> nat \<Rightarrow> 'p \<Rightarrow> 'p" where
  "times C n P = (pt_add C P ^^ n) (pt_identity C)"

lemma times_simps: "times C 0 P = pt_identity C" "times C (Suc n) P = pt_add C P (times C n P)"
  by (simp_all add: times_def)

lemma group_laws:
  assumes "pairing_laws C"
  shows "pt_add C (pt_add C P Q) R = pt_add C P (pt_add C Q R)" "pt_add C P Q = pt_add C Q P"
    "pt_add C (pt_identity C) P = P" "pt_sub C (pt_add C P Q) Q = P"
  using assms unfolding pairing_laws_def by blast+

lemma point_codec:
  assumes "pairing_laws C"
  shows "pt_decompress C (pt_compress C P) = Some P" "length (pt_compress C P) = 32"
  using assms unfolding pairing_laws_def by blast+

lemma times_one: "pairing_laws C \<Longrightarrow> times C 1 P = P"
  using group_laws(2,3) by (metis One_nat_def times_simps)

lemma times_add: "pairing_laws C \<Longrightarrow> times C (m + n) P = pt_add C (times C m P) (times C n P)"
  by (induction m) (simp_all add: times_simps group_laws(1,3))

lemma times_identity: "pairing_laws C \<Longrightarrow> times C n (pt_identity C) = pt_identity C"
  by (induction n) (simp_all add: times_simps group_laws)

lemma times_mult: "pairing_laws C \<Longrightarrow> times C m (times C n P) = times C (m * n) P"
  by (induction m) (simp_all add: times_simps times_add)

lemma multiply_bit_apply:
  "multiply_bit C b i (A, Q) = (if bit b i then pt_add C A Q else A, pt_add C Q Q)"
  by (simp add: multiply_bit_def)

lemma multiply_bits:
  assumes "pairing_laws C"
  shows "fold (multiply_bit C b) [0..<n] (times C a P, times C p P)
    = (times C (a + p * take_bit n (unat b)) P, times C (p * 2 ^ n) P)"
proof (induction n)
  case (Suc n)
  have double: "pt_add C (times C q P) (times C q P) = times C (q * 2) P" for q
    by (simp add: mult_2_right times_add [OF assms])
  show ?case
  proof (cases "bit b n")
    case True
    then have "bit (unat b) n" by (simp add: bit_unsigned_iff bit_imp_le_length)
    then have "a + p * take_bit (Suc n) (unat b) = a + p * take_bit n (unat b) + p * 2 ^ n"
      by (simp add: take_bit_Suc_from_most distrib_left)
    moreover have "pt_add C (times C (a + p * take_bit n (unat b)) P) (times C (p * 2 ^ n) P)
        = times C (a + p * take_bit n (unat b) + p * 2 ^ n) P"
      by (rule times_add [OF assms, symmetric])
    ultimately show ?thesis using True by (simp add: Suc multiply_bit_apply double add.assoc mult.assoc mult.commute mult.left_commute)
  next
    case False
    then have "\<not> bit (unat b) n" by (simp add: bit_unsigned_iff)
    then have "take_bit (Suc n) (unat b) = take_bit n (unat b)" by (simp add: take_bit_Suc_from_most)
    with False show ?thesis by (simp add: Suc multiply_bit_apply double mult.assoc mult.commute mult.left_commute)
  qed
qed simp

lemma multiply_bytes:
  assumes "pairing_laws C"
  shows "fold (multiply_byte C) bs (times C a P, times C p P)
    = (times C (a + p * nat_le bs) P, times C (p * 256 ^ length bs) P)"
proof (induction bs arbitrary: a p)
  case (Cons b bs)
  have "take_bit 8 (unat b) = unat b" using u8_unat_less [of b] by (simp add: take_bit_eq_mod)
  then have "multiply_byte C b (times C a P, times C p P) = (times C (a + p * unat b) P, times C (p * 256) P)"
    unfolding multiply_byte_def multiply_bits [OF assms] by simp
  with Cons show ?case by (simp add: distrib_left mult.assoc add.assoc)
qed simp

lemma multiply_raw_times: "pairing_laws C \<Longrightarrow> multiply_raw C P s = times C (nat_le s) P"
  using multiply_bytes [of C s 0 P 1] by (simp add: multiply_raw_def times_simps(1) times_one [unfolded One_nat_def])

section \<open>The other side\<close>

text \<open>
  The device does the same with the two masks and the two messages exchanged; the transcript names the client
  first on both sides.
\<close>

definition peer_message :: "'p pairing_lib \<Rightarrow> nat \<Rightarrow> bytes \<Rightarrow> 'p \<Rightarrow> bytes" where
  "peer_message C y password point =
     pt_compress C (pt_add C (times C y (pt_base C))
       (times C (nat_le (clear_cofactor_bits (reduce_wide C (sha512 C password)))) point))"

definition peer_key :: "'p pairing_lib \<Rightarrow> nat \<Rightarrow> bytes \<Rightarrow> 'p \<Rightarrow> bytes \<Rightarrow> bytes \<Rightarrow> bytes result" where
  "peer_key C y password point own message =
     bind_outcome (decode_point C message) (\<lambda>masked.
       let public = pt_sub C masked (times C (nat_le (clear_cofactor_bits (reduce_wide C (sha512 C password)))) point)
       in Ok (sha512 C (transcript [CLIENT_NAME, SERVER_NAME, message, own, pt_compress C (times C y public),
            sha512 C password])))"

text \<open>
  C21: clearing the lowest three bits of a scalar below the order of the group gives 32 bytes whose number is a
  multiple of the cofactor eight, is at most eight orders, and is the same scalar modulo the order: nothing is lost by the
  carry.
\<close>

theorem cofactor_bits_cleared:
  assumes "length scalar = 32" and "nat_le scalar < nat_le GROUP_ORDER"
  shows "length (clear_cofactor_bits scalar) = 32 \<and> 8 dvd nat_le (clear_cofactor_bits scalar) \<and>
    nat_le (clear_cofactor_bits scalar) < 8 * nat_le GROUP_ORDER \<and>
    nat_le (clear_cofactor_bits scalar) mod nat_le GROUP_ORDER = nat_le scalar"
proof -
  let ?L = "nat_le GROUP_ORDER"
  obtain x y where f: "fold clear_bit_turn [0..<3] (scalar, GROUP_ORDER) = (x, y)" by fastforce
  with clear_turns [OF assms, of 3] obtain k where x: "length x = 32" "8 dvd nat_le x" "k < 8"
    "nat_le x = nat_le scalar + k * ?L" by (auto simp: cleared_def)
  have "clear_cofactor_bits scalar = x" by (simp add: clear_cofactor_bits_def f)
  moreover have "k * ?L \<le> 7 * ?L" using x(3) by (intro mult_le_mono1) simp
  then have "nat_le x < 8 * ?L" unfolding x(4) using assms(2) by linarith
  moreover have "nat_le x mod ?L = nat_le scalar" using assms(2) by (simp add: x(4))
  ultimately show ?thesis using x(1,2) by simp
qed

theorem cofactor_bits_cleared_witness:
  "length (clear_cofactor_bits (7 # replicate 31 0)) = 32 \<and> 8 dvd nat_le (clear_cofactor_bits (7 # replicate 31 0)) \<and>
    nat_le (clear_cofactor_bits (7 # replicate 31 0)) < 8 * nat_le GROUP_ORDER \<and>
    nat_le (clear_cofactor_bits (7 # replicate 31 0)) mod nat_le GROUP_ORDER = 7"
proof -
  have v: "nat_le (replicate n 0) = 0" for n by (induction n) simp_all
  have "nat_le (7 # replicate 31 0) = 7" by (simp only: nat_le.simps v) simp
  moreover have "7 < nat_le GROUP_ORDER" by (simp add: GROUP_ORDER_def)
  moreover have "length (7 # replicate 31 0 :: bytes) = 32" by simp
  ultimately show ?thesis using cofactor_bits_cleared [of "7 # replicate 31 0"] by (simp only:)
qed

lemma spake_same_key:
  assumes laws: "pairing_laws C" and M: "pt_decompress C SPAKE_M = Some M" and N: "pt_decompress C SPAKE_N = Some N"
  shows "\<exists>s message key. spake_start C random password = Ok (s, message) \<and>
    spake_finish C s (peer_message C y password N) = Ok key \<and>
    peer_key C y password M (peer_message C y password N) message = Ok key"
proof -
  let ?w = "nat_le (clear_cofactor_bits (reduce_wide C (sha512 C password)))"
  let ?x = "nat_le (shift_left_three (reduce_wide C random))"
  let ?message = "pt_compress C (pt_add C (times C ?x (pt_base C)) (times C ?w M))"
  let ?s = "\<lparr>private_scalar = shift_left_three (reduce_wide C random),
    password_scalar = clear_cofactor_bits (reduce_wide C (sha512 C password)), password_hash = sha512 C password,
    spake_message = ?message\<rparr>"
  let ?own = "peer_message C y password N"
  let ?key = "sha512 C (transcript [CLIENT_NAME, SERVER_NAME, ?message, ?own,
    pt_compress C (times C (?x * y) (pt_base C)), sha512 C password])"
  have "spake_start C random password = Ok (?s, ?message)"
    by (simp add: spake_start_def decode_point_def M multiply_raw_times [OF laws] Let_def)
  moreover have "spake_finish C ?s ?own = Ok ?key"
    by (simp add: spake_finish_def decode_point_def N peer_message_def multiply_raw_times [OF laws] point_codec [OF laws]
        group_laws(4) [OF laws] times_mult [OF laws] Let_def)
  moreover have "peer_key C y password M ?own ?message = Ok ?key"
    by (simp add: peer_key_def decode_point_def point_codec [OF laws] group_laws(4) [OF laws] times_mult [OF laws]
        mult.commute [of y] Let_def)
  ultimately show ?thesis by blast
qed

text \<open>
  The key exchange ends: with the same password a peer that chose any secret and masked it with the other
  point makes the client compute a key, and computes the same key from the message of the client.
\<close>

theorem spake_agrees:
  assumes "pairing_laws C" and "pt_decompress C SPAKE_M = Some M" and "pt_decompress C SPAKE_N = Some N"
  shows "\<exists>s message key. spake_start C random password = Ok (s, message) \<and>
    spake_finish C s (peer_message C y password N) = Ok key \<and>
    peer_key C y password M (peer_message C y password N) message = Ok key"
  using assms by (rule spake_same_key)

section \<open>Libraries that keep their laws\<close>

text \<open>The words of 256 bits under addition; nothing is hidden, but every law holds.\<close>

definition word_lib :: "256 word pairing_lib" where
  "word_lib =
     \<lparr>pt_identity = 0, pt_base = 9, pt_add = (+), pt_sub = (-), pt_compress = (\<lambda>w. le_nat 32 (unat w)),
      pt_decompress = (\<lambda>bs. Some (word_of_nat (nat_le bs))),
      reduce_wide = (\<lambda>bs. le_nat 32 (nat_le bs mod nat_le GROUP_ORDER)), sha512 = le_nat 64 \<circ> nat_le,
      hkdf_expand = (\<lambda>info material. Some (take 16 material)),
      aes_encrypt = (\<lambda>k n p. Some (p @ replicate 16 0)),
      aes_decrypt = (\<lambda>k n c. Some (take (length c - 16) c))\<rparr>"

lemma word_lib_laws: "pairing_laws word_lib"
proof -
  have "(word_of_nat (nat_le (le_nat 32 (unat (w :: 256 word)))) :: 256 word) = w" for w
  proof -
    have "unat w < 256 ^ 32" using unsigned_less [of w, where 'a = nat] by simp
    then show ?thesis by (simp only: nat_le_le_nat mod_less) simp
  qed
  moreover have "nat_le (le_nat 32 (n mod nat_le GROUP_ORDER)) < nat_le GROUP_ORDER" for n
  proof -
    have "n mod nat_le GROUP_ORDER < nat_le GROUP_ORDER" using group_order(1) by (intro mod_less_divisor) (simp add: odd_pos)
    moreover have "n mod nat_le GROUP_ORDER mod 256 ^ 32 \<le> n mod nat_le GROUP_ORDER" by simp
    ultimately show ?thesis unfolding nat_le_le_nat by linarith
  qed
  ultimately show ?thesis by (simp add: pairing_laws_def word_lib_def)
qed

theorem spake_agrees_witness:
  "\<exists>s message key. spake_start word_lib [1] (ascii ''123456'') = Ok (s, message) \<and>
    spake_finish word_lib s (peer_message word_lib 5 (ascii ''123456'') (word_of_nat (nat_le SPAKE_N))) = Ok key \<and>
    peer_key word_lib 5 (ascii ''123456'') (word_of_nat (nat_le SPAKE_M))
      (peer_message word_lib 5 (ascii ''123456'') (word_of_nat (nat_le SPAKE_N))) message = Ok key"
proof (rule spake_agrees [OF word_lib_laws])
  show "pt_decompress word_lib SPAKE_M = Some (word_of_nat (nat_le SPAKE_M))"
    "pt_decompress word_lib SPAKE_N = Some (word_of_nat (nat_le SPAKE_N))"
    by (simp_all add: word_lib_def)
qed

end
