(* ===== verification/Host_Key.thy ===== *)
theory Host_Key
  imports Rust_IO Proto_Session
begin

text \<open>
  The RSA identity of the host: \<^verbatim>\<open>adb_client/src/message_devices/models/adb_rsa_key.rs\<close> and
  \<^verbatim>\<open>adb_proto/src/auth.rs\<close>, which write the public half in the format of Android. The big integers, RSA, PEM
  and base64 are those of libraries: records of functions, with their documentation as laws.
\<close>

section \<open>Libraries\<close>

text \<open>\<open>num_bigint\<close>: a \<open>BigUint\<close> is a natural number.\<close>

record bignum =
  to_bytes_le :: "nat \<Rightarrow> bytes"
  modpow :: "nat \<Rightarrow> nat \<Rightarrow> nat \<Rightarrow> nat"
  mod_inverse :: "nat \<Rightarrow> nat \<Rightarrow> int option"
  parse_bytes :: "bytes \<Rightarrow> nat \<Rightarrow> nat option"

text \<open>\<open>rsa\<close>: an error is its text.\<close>

record 'k rsa =
  key_n :: "'k \<Rightarrow> nat"
  key_e :: "'k \<Rightarrow> nat"
  to_pem :: "'k \<Rightarrow> (bytes, bytes) outcome"
  from_pem :: "bytes \<Rightarrow> ('k, bytes) outcome"
  pkcs1_sign :: "'k \<Rightarrow> bytes \<Rightarrow> (bytes, bytes) outcome"

definition bignum_laws :: "bignum \<Rightarrow> bool" where
  "bignum_laws B \<longleftrightarrow>
     (\<forall>n. nat_le (to_bytes_le B n) = n \<and> (if n = 0 then to_bytes_le B n = [0] else to_bytes_le B n \<noteq> [] \<and> last (to_bytes_le B n) \<noteq> 0)) \<and>
     (\<forall>b e m. 0 < m \<longrightarrow> modpow B b e m = b ^ e mod m) \<and>
     (\<forall>a m v. mod_inverse B a m = Some v \<longrightarrow> 0 \<le> v \<and> v < int m \<and> int a * v mod int m = 1 mod int m) \<and>
     (\<forall>a m. 1 < m \<and> coprime a m \<longrightarrow> mod_inverse B a m \<noteq> None) \<and>
     (\<forall>bits. bits \<noteq> [] \<and> set bits \<subseteq> {48, 49} \<longrightarrow>
        parse_bytes B bits 2 = Some (foldl (\<lambda>n b. 2 * n + (unat b - 48)) 0 bits))"

section \<open>The public key in \<open>adb_client\<close>\<close>

definition ADB_PRIVATE_KEY_SIZE :: nat where
  "ADB_PRIVATE_KEY_SIZE = 2048"

definition ANDROID_PUBKEY_MODULUS_SIZE_WORDS :: u32 where
  "ANDROID_PUBKEY_MODULUS_SIZE_WORDS = 64"

record internal_key =
  ik_words :: u32
  ik_n0inv :: u32
  ik_modulus :: nat
  ik_rr :: bytes
  ik_exponent :: u32

definition internal_key_new :: "nat \<Rightarrow> nat \<Rightarrow> internal_key result" where
  "internal_key_new exponent modulus =
     bind_outcome (ok_or ConversionError (try_u32 exponent)) (\<lambda>e.
       Ok \<lparr>ik_words = ANDROID_PUBKEY_MODULUS_SIZE_WORDS, ik_n0inv = 0, ik_modulus = modulus, ik_rr = [], ik_exponent = e\<rparr>)"

text \<open>\<open>Vec::resize\<close> with zeros: it cuts as well as it pads.\<close>

definition resize :: "nat \<Rightarrow> bytes \<Rightarrow> bytes" where
  "resize n bs = take n bs @ replicate (n - length bs) 0"

definition into_bytes :: "bignum \<Rightarrow> internal_key \<Rightarrow> bytes result" where
  "into_bytes B k =
     (let integer_size = unat (ik_words k) * 4; modulus = to_bytes_le B (ik_modulus k); rr = ik_rr k in
      if length modulus \<le> integer_size \<and> length rr \<le> integer_size then
        Ok (to_le32 (ik_words k) @ to_le32 (ik_n0inv k) @ resize integer_size modulus @ resize integer_size rr
            @ to_le32 (ik_exponent k))
      else Panic)"

text \<open>The subtraction and the power of the library panic below zero and for the modulus zero.\<close>

definition big_sub :: "nat \<Rightarrow> nat \<Rightarrow> (nat, 'e) outcome" where
  "big_sub a b = (if b \<le> a then Ok (a - b) else Panic)"

definition big_modpow :: "bignum \<Rightarrow> nat \<Rightarrow> nat \<Rightarrow> nat \<Rightarrow> (nat, 'e) outcome" where
  "big_modpow B b e m = (if m = 0 then Panic else Ok (modpow B b e m))"

text \<open>The text \<open>1\<close> followed by \<open>n\<close> zeros, read in base 2.\<close>

definition set_bit_text :: "nat \<Rightarrow> bytes" where
  "set_bit_text n = 49 # replicate n 48"

definition big_bit :: "bignum \<Rightarrow> nat \<Rightarrow> nat result" where
  "big_bit B n = ok_or ConversionError (parse_bytes B (set_bit_text n) 2)"

definition encode_public_key :: "(bytes \<Rightarrow> bytes) \<Rightarrow> bytes \<Rightarrow> bytes" where
  "encode_public_key base64 pub_key = base64 pub_key @ ascii '' adb_client@3.2.3''"

definition nonnegative :: "int \<Rightarrow> nat option" where
  "nonnegative v = (if 0 \<le> v then Some (nat v) else None)"

definition android_pubkey_encode :: "bignum \<Rightarrow> (bytes \<Rightarrow> bytes) \<Rightarrow> 'k rsa \<Rightarrow> 'k \<Rightarrow> bytes result" where
  "android_pubkey_encode B base64 L k =
     bind_outcome (internal_key_new (key_e L k) (key_n L k)) (\<lambda>pub.
     let r32 = 2 ^ 32 in
     bind_outcome (big_bit B ADB_PRIVATE_KEY_SIZE) (\<lambda>r.
     bind_outcome (big_modpow B r 2 (ik_modulus pub)) (\<lambda>rr.
     let remainder = ik_modulus pub mod r32 in
     bind_outcome (ok_or ConversionError (Option.bind (mod_inverse B remainder r32) nonnegative)) (\<lambda>inverse.
     bind_outcome (big_sub r32 inverse) (\<lambda>n0.
     bind_outcome (ok_or ConversionError (try_u32 n0)) (\<lambda>n0inv.
     bind_outcome (into_bytes B (pub\<lparr>ik_rr := to_bytes_le B rr, ik_n0inv := n0inv\<rparr>)) (\<lambda>raw.
       Ok (encode_public_key base64 raw))))))))"

definition to_pkcs8_pem :: "'k rsa \<Rightarrow> 'k \<Rightarrow> bytes result" where
  "to_pkcs8_pem L k = map_err (\<lambda>_. RsaPkcs8Error) (to_pem L k)"

definition new_from_pkcs8 :: "'k rsa \<Rightarrow> bytes \<Rightarrow> 'k result" where
  "new_from_pkcs8 L pem = map_err (\<lambda>_. RsaPkcs8Error) (from_pem L pem)"

definition rsa_key_sign :: "'k rsa \<Rightarrow> 'k \<Rightarrow> bytes \<Rightarrow> bytes result" where
  "rsa_key_sign L k msg = map_err (\<lambda>_. RSAError) (pkcs1_sign L k msg)"

section \<open>The public key in \<open>adb_proto\<close>\<close>

definition KEY_BITS :: nat where
  "KEY_BITS = 2048"

definition MODULUS_SIZE_WORDS :: u32 where
  "MODULUS_SIZE_WORDS = 64"

definition key_error :: "string \<Rightarrow> proto_error" where
  "key_error s = Key (ascii s)"

definition proto_from_pkcs8_pem :: "'k rsa \<Rightarrow> bytes \<Rightarrow> ('k, proto_error) outcome" where
  "proto_from_pkcs8_pem L pem = map_err Key (from_pem L pem)"

definition proto_to_pkcs8_pem :: "'k rsa \<Rightarrow> 'k \<Rightarrow> (bytes, proto_error) outcome" where
  "proto_to_pkcs8_pem L k = map_err Key (to_pem L k)"

definition sign_token :: "'k rsa \<Rightarrow> 'k \<Rightarrow> bytes \<Rightarrow> (bytes, proto_error) outcome" where
  "sign_token L k token = map_err Key (pkcs1_sign L k token)"

definition android_public_key ::
    "bignum \<Rightarrow> (bytes \<Rightarrow> bytes) \<Rightarrow> 'k rsa \<Rightarrow> 'k \<Rightarrow> bytes \<Rightarrow> (bytes, proto_error) outcome" where
  "android_public_key B base64 L k comment =
     (let modulus = key_n L k; r32 = 2 ^ 32; r = 2 ^ KEY_BITS in
      bind_outcome (ok_or (key_error ''public exponent does not fit in u32'') (try_u32 (key_e L k))) (\<lambda>exponent.
      bind_outcome (big_modpow B r 2 modulus) (\<lambda>rr.
      bind_outcome (ok_or (key_error ''modulus is not invertible mod 2^32'')
          (Option.bind (mod_inverse B (modulus mod r32) r32) nonnegative)) (\<lambda>inverse.
      bind_outcome (big_sub r32 inverse) (\<lambda>n0.
      bind_outcome (ok_or (key_error ''n0inv does not fit in u32'') (try_u32 n0)) (\<lambda>n0inv.
      let width = unat MODULUS_SIZE_WORDS * 4;
          raw = to_le32 MODULUS_SIZE_WORDS @ to_le32 n0inv @ resize width (to_bytes_le B modulus)
            @ resize width (to_bytes_le B rr) @ to_le32 exponent
      in Ok (base64 raw @ [32] @ comment @ [0])))))))"

text \<open>The key as the session of \<open>adb_proto\<close> uses it.\<close>

definition session_key :: "bignum \<Rightarrow> (bytes \<Rightarrow> bytes) \<Rightarrow> 'k rsa \<Rightarrow> 'k \<Rightarrow> adb_key" where
  "session_key B base64 L k =
     \<lparr>key_sign_token = sign_token L k, key_android_public_key = android_public_key B base64 L k\<rparr>"

section \<open>The layout Android reads\<close>

text \<open>The fields of Android's \<open>RSAPublicKey\<close>: sizes and exponent of four bytes, integers of 256.\<close>

definition android_fields :: "bytes \<Rightarrow> u32 \<times> u32 \<times> nat \<times> nat \<times> u32" where
  "android_fields raw =
     (from_le32 (slice 0 4 raw), from_le32 (slice 4 8 raw), nat_le (slice 8 264 raw),
      nat_le (slice 264 520 raw), from_le32 (slice 520 524 raw))"

lemma nat_le_append: "nat_le (bs @ cs) = nat_le bs + 256 ^ length bs * nat_le cs"
  by (induction bs) (simp_all add: algebra_simps)

lemma nat_le_zeros [simp]: "nat_le (replicate n 0) = 0"
  by (induction n) simp_all

lemma bignum_bytes: "bignum_laws B \<Longrightarrow> nat_le (to_bytes_le B n) = n"
  by (simp add: bignum_laws_def)

lemma bignum_width:
  assumes "bignum_laws B" and "n < 256 ^ w" and "0 < w"
  shows "length (to_bytes_le B n) \<le> w"
proof (cases "n = 0")
  case True
  with assms show ?thesis by (simp add: bignum_laws_def)
next
  case False
  let ?bs = "to_bytes_le B n"
  from assms(1) False have bs: "nat_le ?bs = n" "?bs \<noteq> []" "last ?bs \<noteq> 0"
    by (simp_all add: bignum_laws_def)
  then have "0 < unat (last ?bs)" by (simp add: unat_gt_0)
  then have "256 ^ length (butlast ?bs) * 1 \<le> 256 ^ length (butlast ?bs) * nat_le [last ?bs]"
    by (intro mult_le_mono2) simp
  also have "\<dots> \<le> nat_le (butlast ?bs @ [last ?bs])"
    by (simp only: nat_le_append le_add2)
  also have "butlast ?bs @ [last ?bs] = ?bs" using bs(2) by simp
  finally have "256 ^ length (butlast ?bs) \<le> n" using bs(1) by simp
  with assms(2) have "(256 :: nat) ^ length (butlast ?bs) < 256 ^ w" by linarith
  then have "length (butlast ?bs) < w" by (rule power_less_imp_less_exp [rotated]) simp
  then show ?thesis by simp
qed

lemma resize_pads: "length bs \<le> n \<Longrightarrow> resize n bs = bs @ replicate (n - length bs) 0"
  by (simp add: resize_def)

lemma length_resize [simp]: "length (resize n bs) = n"
  by (simp add: resize_def)

lemma resize_value: "length bs \<le> n \<Longrightarrow> nat_le (resize n bs) = nat_le bs"
  by (simp add: resize_pads nat_le_append)

lemma binary_zeros: "foldl (\<lambda>n b. 2 * n + (unat b - 48)) m (replicate n (48 :: u8)) = m * 2 ^ n"
  by (induction n arbitrary: m) simp_all

lemma big_bit_power: "bignum_laws B \<Longrightarrow> big_bit B n = Ok (2 ^ n)"
proof -
  assume "bignum_laws B"
  moreover have "set_bit_text n \<noteq> []" "set (set_bit_text n) \<subseteq> {48, 49}"
    by (auto simp: set_bit_text_def)
  ultimately have "parse_bytes B (set_bit_text n) 2 = Some (foldl (\<lambda>n b. 2 * n + (unat b - 48)) 0 (set_bit_text n))"
    unfolding bignum_laws_def by blast
  then show ?thesis by (simp add: big_bit_def set_bit_text_def binary_zeros)
qed

definition r_squared :: "bignum \<Rightarrow> nat \<Rightarrow> nat" where
  "r_squared B n = modpow B (2 ^ 2048) 2 n"

definition android_raw :: "bignum \<Rightarrow> u32 \<Rightarrow> nat \<Rightarrow> nat \<Rightarrow> bytes" where
  "android_raw B n0 n e =
     to_le32 64 @ to_le32 n0 @ resize 256 (to_bytes_le B n) @ resize 256 (to_bytes_le B (r_squared B n))
       @ to_le32 (word_of_nat e)"

lemma modpow_r: "0 < n \<Longrightarrow> big_modpow B (2 ^ 2048) 2 n = Ok (r_squared B n)"
  unfolding big_modpow_def r_squared_def by (simp only: neq0_conv if_False not_gr_zero less_not_refl3 simp_thms split: if_split) auto

lemma r_squared_value:
  assumes "bignum_laws B" and "0 < n"
  shows "r_squared B n = (2 ^ 2048) ^ 2 mod n"
  using assms unfolding bignum_laws_def r_squared_def by blast

lemma fits_256: "bignum_laws B \<Longrightarrow> n < 2 ^ 2048 \<Longrightarrow> length (to_bytes_le B n) \<le> 256"
proof -
  assume "bignum_laws B" and n: "n < 2 ^ 2048"
  have "(2 :: nat) ^ 2048 = (2 ^ 8) ^ 256" unfolding power_mult [symmetric] by (rule arg_cong) simp
  with n have "n < 256 ^ 256" by simp
  with \<open>bignum_laws B\<close> show ?thesis by (rule bignum_width) simp
qed

lemma fixed_fields:
  "length m = 256 \<Longrightarrow> length r = 256 \<Longrightarrow>
   android_fields (to_le32 a @ to_le32 b @ m @ r @ to_le32 c) = (a, b, nat_le m, nat_le r, c)"
  by (simp add: android_fields_def slice_def codec_simps)

text \<open>What both encoders do, up to the way each of them reports errors.\<close>

lemma pubkey_encode_run:
  assumes laws: "bignum_laws B" and n: "0 < key_n L k" "key_n L k < 2 ^ 2048" and e: "key_e L k < 2 ^ 32"
  shows "android_pubkey_encode B base64 L k =
    (case Option.bind (mod_inverse B (key_n L k mod 2 ^ 32) (2 ^ 32)) nonnegative of
       None \<Rightarrow> Err ConversionError
     | Some v \<Rightarrow> bind_outcome (big_sub (2 ^ 32) v) (\<lambda>n0.
         bind_outcome (ok_or ConversionError (try_u32 n0)) (\<lambda>n0inv.
           Ok (base64 (android_raw B n0inv (key_n L k) (key_e L k)) @ ascii '' adb_client@3.2.3''))))"
proof -
  have "r_squared B (key_n L k) < 2 ^ 2048"
    unfolding r_squared_value [OF laws n(1)] using mod_less_divisor [OF n(1)] n(2) by (rule less_trans)
  from fits_256 [OF laws this] fits_256 [OF laws n(2)]
  have raw: "into_bytes B \<lparr>ik_words = 64, ik_n0inv = n0, ik_modulus = key_n L k,
      ik_rr = to_bytes_le B (r_squared B (key_n L k)), ik_exponent = word_of_nat (key_e L k)\<rparr>
    = Ok (android_raw B n0 (key_n L k) (key_e L k))" for n0
    by (simp add: into_bytes_def android_raw_def)
  have "ok_or ConversionError (try_u32 (key_e L k)) = Ok (word_of_nat (key_e L k))"
    using e by (simp add: try_u32_def)
  note steps = this big_bit_power [OF laws] modpow_r [OF n(1)]
  show ?thesis
    unfolding android_pubkey_encode_def internal_key_new_def ADB_PRIVATE_KEY_SIZE_def
      ANDROID_PUBKEY_MODULUS_SIZE_WORDS_def steps bind_outcome.simps Let_def internal_key.simps steps
    by (cases "Option.bind (mod_inverse B (key_n L k mod 2 ^ 32) (2 ^ 32)) nonnegative")
      (simp_all only: option.case ok_or.simps bind_outcome.simps internal_key.simps internal_key.update_convs raw
        encode_public_key_def)
qed

lemma public_key_run:
  assumes laws: "bignum_laws B" and n: "0 < key_n L k" and e: "key_e L k < 2 ^ 32"
  shows "android_public_key B base64 L k comment =
    (case Option.bind (mod_inverse B (key_n L k mod 2 ^ 32) (2 ^ 32)) nonnegative of
       None \<Rightarrow> Err (key_error ''modulus is not invertible mod 2^32'')
     | Some v \<Rightarrow> bind_outcome (big_sub (2 ^ 32) v) (\<lambda>n0.
         bind_outcome (ok_or (key_error ''n0inv does not fit in u32'') (try_u32 n0)) (\<lambda>n0inv.
           Ok (base64 (android_raw B n0inv (key_n L k) (key_e L k)) @ [32] @ comment @ [0]))))"
proof -
  have "ok_or f (try_u32 (key_e L k)) = Ok (word_of_nat (key_e L k))" for f :: proto_error
    using e by (simp add: try_u32_def)
  note steps = this modpow_r [OF n]
  have width: "unat (64 :: u32) * 4 = 256" by simp
  show ?thesis
    unfolding android_public_key_def KEY_BITS_def MODULUS_SIZE_WORDS_def Let_def steps bind_outcome.simps width
      android_raw_def
    by (cases "Option.bind (mod_inverse B (key_n L k mod 2 ^ 32) (2 ^ 32)) nonnegative")
      (simp_all only: option.case ok_or.simps bind_outcome.simps)
qed

text \<open>An odd number has an inverse, and its negation solves the equation of Montgomery reduction.\<close>

lemma odd_coprime_power: "odd n \<Longrightarrow> 0 < k \<Longrightarrow> coprime (n mod 2 ^ k) (2 ^ k)" for n :: nat
  by (simp add: coprime_power_right_iff dvd_mod_iff)

lemma montgomery_inverse:
  assumes laws: "bignum_laws B" and "odd n"
  obtains v where "Option.bind (mod_inverse B (n mod 2 ^ 32) (2 ^ 32)) nonnegative = Some v"
    "0 < v" "v < 2 ^ 32" "((2 ^ 32 - v) * n + 1) mod 2 ^ 32 = 0"
proof -
  define M where "M = (2 :: nat) ^ 32"
  have M: "1 < M" by (simp add: M_def)
  have "coprime (n mod M) M" using odd_coprime_power [OF \<open>odd n\<close>, of 32] by (simp only: M_def zero_less_numeral)
  with laws M have "mod_inverse B (n mod M) M \<noteq> None" unfolding bignum_laws_def by blast
  then obtain i where i: "mod_inverse B (n mod M) M = Some i" by auto
  with laws have v: "0 \<le> i" "i < int M" "int (n mod M) * i mod int M = 1 mod int M"
    unfolding bignum_laws_def by blast+
  define w where "w = nat i"
  have w: "i = int w" using v(1) by (simp add: w_def)
  have "int (n mod M * w mod M) = int (1 mod M)"
    using v(3) unfolding w by (simp only: of_nat_mod of_nat_mult of_nat_1)
  then have one: "n * w mod M = 1" using M by (simp add: mod_mult_left_eq)
  then have "0 < w" by (cases w) auto
  have small: "w < M" using v(2) unfolding w by simp
  from one obtain q where q: "n * w = M * q + 1" by (metis mult_div_mod_eq)
  have "(M - w) * n + n * w = M * n"
    using small by (simp add: algebra_simps flip: distrib_left)
  then have "(M - w) * n + 1 + M * q = M * n" using q by simp
  then have "M dvd (M - w) * n + 1"
    by (metis dvd_add_left_iff dvd_triv_left)
  then have "((M - w) * n + 1) mod M = 0" by (rule dvd_imp_mod_0)
  with i w small \<open>0 < w\<close> show thesis by (intro that [of w]) (simp_all only: M_def nonnegative_def bind.simps
      of_nat_0_le_iff if_True nat_int)
qed

section \<open>A library that keeps its laws\<close>

fun big_bytes :: "nat \<Rightarrow> bytes" where
  "big_bytes n = word_of_nat n # (if n < 256 then [] else big_bytes (n div 256))"

declare big_bytes.simps [simp del]

definition small_bignum :: bignum where
  "small_bignum =
     \<lparr>to_bytes_le = big_bytes,
      modpow = (\<lambda>b e m. b ^ e mod m),
      mod_inverse = (\<lambda>a m. if coprime a m \<and> 1 < m then Some (fst (bezw a m) mod int m) else None),
      parse_bytes = (\<lambda>bits r. Some (foldl (\<lambda>n b. r * n + (unat b - 48)) 0 bits))\<rparr>"

lemma big_bytes_value: "nat_le (big_bytes n) = n"
proof (induction n rule: big_bytes.induct)
  case (1 n)
  have "unat (word_of_nat n :: u8) = n mod 256" by (simp add: unat_of_nat)
  with 1 show ?case by (subst big_bytes.simps) simp
qed

lemma big_bytes_last: "0 < n \<Longrightarrow> last (big_bytes n) \<noteq> 0"
proof (induction n rule: big_bytes.induct)
  case (1 n)
  show ?case
  proof (cases "n < 256")
    case True
    with 1(2) have "unat (word_of_nat n :: u8) \<noteq> 0" by (simp add: unat_of_nat)
    then have "(word_of_nat n :: u8) \<noteq> 0" by (metis unat_0)
    with True show ?thesis by (subst big_bytes.simps) simp
  next
    case False
    then have "big_bytes (n div 256) \<noteq> []" by (subst big_bytes.simps) simp
    with False 1(1) show ?thesis by (subst big_bytes.simps) simp
  qed
qed

lemma bezout_inverse:
  assumes "coprime a m"
  shows "int a * (fst (bezw a m) mod int m) mod int m = 1 mod int m"
proof -
  have "1 = fst (bezw a m) * int a + snd (bezw a m) * int m"
    using bezw_aux [of a m] assms by simp
  then have "1 mod int m = (int a * fst (bezw a m) + snd (bezw a m) * int m) mod int m"
    by (simp add: mult.commute)
  then show ?thesis by (simp add: mod_mult_right_eq)
qed

lemma small_bignum_laws: "bignum_laws small_bignum"
proof -
  have "big_bytes n \<noteq> []" "big_bytes 0 = [0]" for n
    by (subst big_bytes.simps, simp)+
  then show ?thesis
    by (auto simp: bignum_laws_def small_bignum_def big_bytes_value big_bytes_last bezout_inverse split: if_splits)
qed

text \<open>A key of twelve bits whose PEM is the number itself.\<close>

definition tiny_rsa :: "nat rsa" where
  "tiny_rsa = \<lparr>key_n = id, key_e = (\<lambda>_. 65537), to_pem = (\<lambda>k. Ok (show_nat k)),
     from_pem = (\<lambda>s. case parse_uint 10 64 s of Some k \<Rightarrow> Ok k | None \<Rightarrow> Err []), pkcs1_sign = (\<lambda>k m. Ok m)\<rparr>"

lemma pubkey_encode_fields:
  assumes "bignum_laws B" and "odd (key_n L k)" and "key_n L k < 2 ^ 2048" and "key_e L k < 2 ^ 32"
  shows "\<exists>raw n0. android_pubkey_encode B base64 L k = Ok (base64 raw @ ascii '' adb_client@3.2.3'') \<and>
    length raw = 524 \<and>
    android_fields raw = (64, n0, key_n L k, (2 ^ 2048) ^ 2 mod key_n L k, word_of_nat (key_e L k)) \<and>
    (unat n0 * key_n L k + 1) mod 2 ^ 32 = 0"
proof -
  have n: "0 < key_n L k" using assms(2) by (cases "key_n L k") auto
  from montgomery_inverse [OF assms(1,2)] obtain v
    where v: "Option.bind (mod_inverse B (key_n L k mod 2 ^ 32) (2 ^ 32)) nonnegative = Some v"
      "0 < v" "v < 2 ^ 32" "((2 ^ 32 - v) * key_n L k + 1) mod 2 ^ 32 = 0" .
  define n0 :: u32 where "n0 = word_of_nat (2 ^ 32 - v)"
  have small: "2 ^ 32 - v < 2 ^ 32" using v(2) by simp
  then have n0: "unat n0 = 2 ^ 32 - v" unfolding n0_def by (rule u32_of_nat_roundtrip)
  have big: "r_squared B (key_n L k) < 2 ^ 2048"
    unfolding r_squared_value [OF assms(1) n] using mod_less_divisor [OF n] assms(3) by (rule less_trans)
  let ?raw = "android_raw B n0 (key_n L k) (key_e L k)"
  have "big_sub (2 ^ 32) v = Ok (2 ^ 32 - v)" for v' :: rust_error
    using v(3) by (simp only: big_sub_def less_imp_le if_True)
  then have "android_pubkey_encode B base64 L k = Ok (base64 ?raw @ ascii '' adb_client@3.2.3'')"
    unfolding pubkey_encode_run [OF assms(1) n assms(3,4)] v(1) option.case
    using v(3) small by (simp only: big_sub_def less_imp_le if_True bind_outcome.simps try_u32_def ok_or.simps n0_def)
  moreover have "length ?raw = 524" by (simp add: android_raw_def)
  moreover have "android_fields ?raw
      = (64, n0, key_n L k, r_squared B (key_n L k), word_of_nat (key_e L k))"
    unfolding android_raw_def
    by (subst fixed_fields) (simp_all only: length_resize resize_value fits_256 [OF assms(1,3)] fits_256 [OF assms(1) big]
        bignum_bytes [OF assms(1)])
  ultimately show ?thesis
    using v(4) unfolding n0 [symmetric] r_squared_value [OF assms(1) n]
    by (intro exI [of _ ?raw] exI [of _ n0] conjI)
qed

section \<open>Properties\<close>

text \<open>
  C12: the public key of a host with an odd modulus of at most 2048 bits is encoded as the 524 bytes that
  Android reads: the size in words, the modulus and the square of the Montgomery radix modulo it, each in 256
  bytes whatever zeros they end in, the exponent, and the number with which Montgomery reduction works, which
  times the modulus is minus one modulo two to the 32nd; what follows the encoded struct is the name of the
  client.
\<close>

theorem key_encoding_is_exact:
  assumes "bignum_laws B" and "odd (key_n L k)" and "key_n L k < 2 ^ 2048" and "key_e L k < 2 ^ 32"
  shows "\<exists>raw n0. android_pubkey_encode B base64 L k = Ok (base64 raw @ ascii '' adb_client@3.2.3'') \<and>
    length raw = 524 \<and>
    android_fields raw = (64, n0, key_n L k, (2 ^ 2048) ^ 2 mod key_n L k, word_of_nat (key_e L k)) \<and>
    (unat n0 * key_n L k + 1) mod 2 ^ 32 = 0"
  using assms by (rule pubkey_encode_fields)

theorem key_encoding_is_exact_witness:
  "\<exists>raw n0. android_pubkey_encode small_bignum id tiny_rsa 3233 = Ok (id raw @ ascii '' adb_client@3.2.3'') \<and>
    length raw = 524 \<and> android_fields raw = (64, n0, 3233, (2 ^ 2048) ^ 2 mod 3233, 65537) \<and>
    (unat n0 * 3233 + 1) mod 2 ^ 32 = 0"
proof -
  have key: "key_n tiny_rsa 3233 = 3233" "key_e tiny_rsa 3233 = 65537" by (simp_all add: tiny_rsa_def)
  have facts: "odd (3233 :: nat)" "(65537 :: nat) < 2 ^ 32" "(word_of_nat 65537 :: u32) = 65537" by simp_all
  have "(3233 :: nat) < 2 ^ 2048" by (rule less_trans [of _ "2 ^ 12"]) simp_all
  with facts show ?thesis
    using key_encoding_is_exact [OF small_bignum_laws, of tiny_rsa 3233 id] by (simp only: key facts)
qed

text \<open>
  C13: the two crates encode the same key: for every modulus of at most 2048 bits either both fail or both give
  out the same bytes, which the one follows by its own name and the other by the comment and a zero byte; neither
  panics.
\<close>

theorem key_encoders_agree:
  assumes laws: "bignum_laws B" and n: "0 < key_n L k" "key_n L k < 2 ^ 2048"
  shows "case android_pubkey_encode B base64 L k of
      Ok text \<Rightarrow> \<exists>raw. text = encode_public_key base64 raw \<and>
        android_public_key B base64 L k comment = Ok (base64 raw @ [32] @ comment @ [0])
    | Err _ \<Rightarrow> \<exists>e. android_public_key B base64 L k comment = Err e
    | Panic \<Rightarrow> False"
proof (cases "key_e L k < 2 ^ 32")
  case False
  then show ?thesis
    by (simp add: android_pubkey_encode_def internal_key_new_def android_public_key_def try_u32_def)
next
  case True
  let ?v = "Option.bind (mod_inverse B (key_n L k mod 2 ^ 32) (2 ^ 32)) nonnegative"
  have bound: "v \<le> 2 ^ 32" if "?v = Some v" for v
  proof -
    from that obtain i where i: "mod_inverse B (key_n L k mod 2 ^ 32) (2 ^ 32) = Some i" "0 \<le> i" "v = nat i"
      by (cases "mod_inverse B (key_n L k mod 2 ^ 32) (2 ^ 32)") (auto simp only: bind.simps nonnegative_def split: if_splits)
    with laws have "i < int (2 ^ 32)" unfolding bignum_laws_def by blast
    with i show ?thesis by linarith
  qed
  note runs = pubkey_encode_run [OF laws n True] public_key_run [OF laws n(1) True]
  show ?thesis
  proof (cases ?v)
    case (Some v)
    then have le: "v \<le> 2 ^ 32" by (rule bound)
    show ?thesis
      unfolding runs Some option.case big_sub_def using le
      by (cases "2 ^ 32 - v < (2 :: nat) ^ 32")
        (simp_all only: if_True if_False bind_outcome.simps try_u32_def ok_or.simps outcome.case encode_public_key_def,
          blast+)
  qed (simp only: runs option.case outcome.case, blast)
qed

theorem key_encoders_agree_witness:
  "case android_pubkey_encode small_bignum id tiny_rsa 3233 of
      Ok text \<Rightarrow> \<exists>raw. text = encode_public_key id raw \<and>
        android_public_key small_bignum id tiny_rsa 3233 [7] = Ok (id raw @ [32] @ [7] @ [0])
    | Err _ \<Rightarrow> \<exists>e. android_public_key small_bignum id tiny_rsa 3233 [7] = Err e
    | Panic \<Rightarrow> False"
proof -
  have key: "key_n tiny_rsa 3233 = 3233" by (simp add: tiny_rsa_def)
  have "(3233 :: nat) < 2 ^ 2048" by (rule less_trans [of _ "2 ^ 12"]) simp_all
  then show ?thesis
    by (intro key_encoders_agree [OF small_bignum_laws]) (simp_all only: key zero_less_numeral)
qed

text \<open>
  A key that is too large for the format, which both crates load without complaint: one of them panics, and the
  other sends out a modulus that is not that of the key.
\<close>

lemma nat_le_take: "nat_le (take n bs) = nat_le bs mod 256 ^ n"
proof (cases "length bs \<le> n")
  case True
  then have "(256 :: nat) ^ length bs \<le> 256 ^ n" by (intro power_increasing) simp_all
  with nat_le_bound [of bs] have "nat_le bs < 256 ^ n" by linarith
  with True show ?thesis by simp
next
  case False
  have "nat_le bs = nat_le (take n bs) + 256 ^ n * nat_le (drop n bs)"
    using nat_le_append [of "take n bs" "drop n bs"] False by simp
  moreover have "nat_le (take n bs) < 256 ^ n" using nat_le_bound [of "take n bs"] False by simp
  ultimately show ?thesis by simp
qed

lemma oversized_modulus_is_cut:
  assumes laws: "bignum_laws B" and big: "256 ^ 256 \<le> n"
  shows "into_bytes B (k\<lparr>ik_words := 64, ik_modulus := n\<rparr>) = Panic"
    "nat_le (resize 256 (to_bytes_le B n)) = n mod 256 ^ 256"
proof -
  let ?bs = "to_bytes_le B n"
  have long: "256 < length ?bs"
  proof (rule ccontr)
    assume "\<not> 256 < length ?bs"
    then have "(256 :: nat) ^ length ?bs \<le> 256 ^ 256" by (intro power_increasing) simp_all
    with nat_le_bound [of ?bs] bignum_bytes [OF laws] big show False by simp
  qed
  then show "into_bytes B (k\<lparr>ik_words := 64, ik_modulus := n\<rparr>) = Panic" by (simp add: into_bytes_def)
  from long show "nat_le (resize 256 ?bs) = n mod 256 ^ 256"
    by (simp add: resize_def nat_le_append nat_le_take bignum_bytes [OF laws])
qed

end
