(* ===== verification/Key_Store.thy ===== *)
theory Key_Store
  imports Host_Key
begin

text \<open>
  Where the identity of the host is kept, in \<^verbatim>\<open>adb_rsa_key.rs\<close>: reading and writing the file of the key, and
  \<open>load_or_create_adb_private_key\<close>, which any number of threads and processes may run at the same time. Each
  system call is one step; between two steps of one of them the others may take any number of theirs.
\<close>

section \<open>The directory of the key\<close>

text \<open>The names of the directory and the files they are links to.\<close>

record directory =
  entries :: "bytes \<rightharpoonup> nat"
  content :: "nat \<Rightarrow> bytes"
  fresh :: nat

text \<open>What a system call is met with: nothing wrong, or an error, before which a write gets some bytes done.\<close>

datatype fault = Fine | Fails io_kind nat

definition contents :: "directory \<Rightarrow> bytes \<Rightarrow> bytes option" where
  "contents d f = map_option (content d) (entries d f)"

definition open_new :: "fault \<Rightarrow> bytes \<Rightarrow> directory \<Rightarrow> nat result \<times> directory" where
  "open_new x f d = (case x of
      Fails k _ \<Rightarrow> (Err (IOError k Os_Error), d)
    | Fine \<Rightarrow>
        if entries d f \<noteq> None then (Err (IOError AlreadyExists Os_Error), d)
        else (Ok (fresh d),
          d\<lparr>entries := (entries d)(f \<mapsto> fresh d), content := (content d)(fresh d := []), fresh := Suc (fresh d)\<rparr>))"

definition append_to :: "fault \<Rightarrow> nat \<Rightarrow> bytes \<Rightarrow> directory \<Rightarrow> unit result \<times> directory" where
  "append_to x i bs d = (case x of
      Fine \<Rightarrow> (Ok (), d\<lparr>content := (content d)(i := content d i @ bs)\<rparr>)
    | Fails k n \<Rightarrow> (Err (IOError k Os_Error), d\<lparr>content := (content d)(i := content d i @ take n bs)\<rparr>))"

definition link_to :: "fault \<Rightarrow> bytes \<Rightarrow> bytes \<Rightarrow> directory \<Rightarrow> unit result \<times> directory" where
  "link_to x old new d = (case (x, entries d old) of
      (Fails k _, _) \<Rightarrow> (Err (IOError k Os_Error), d)
    | (Fine, None) \<Rightarrow> (Err (IOError NotFound Os_Error), d)
    | (Fine, Some i) \<Rightarrow>
        if entries d new \<noteq> None then (Err (IOError AlreadyExists Os_Error), d)
        else (Ok (), d\<lparr>entries := (entries d)(new \<mapsto> i)\<rparr>))"

definition unlink :: "fault \<Rightarrow> bytes \<Rightarrow> directory \<Rightarrow> unit result \<times> directory" where
  "unlink x f d = (case (x, entries d f) of
      (Fails k _, _) \<Rightarrow> (Err (IOError k Os_Error), d)
    | (Fine, None) \<Rightarrow> (Err (IOError NotFound Os_Error), d)
    | (Fine, Some _) \<Rightarrow> (Ok (), d\<lparr>entries := (entries d)(f := None)\<rparr>))"

definition read_string :: "fault \<Rightarrow> bytes \<Rightarrow> directory \<Rightarrow> bytes result" where
  "read_string x f d = (case (x, contents d f) of
      (Fails k _, _) \<Rightarrow> Err (IOError k Os_Error)
    | (Fine, None) \<Rightarrow> Err (IOError NotFound Os_Error)
    | (Fine, Some bs) \<Rightarrow>
        if utf8_valid bs then Ok bs
        else Err (IOError InvalidData (Message (ascii ''stream did not contain valid UTF-8''))))"

section \<open>Reading and writing a key\<close>

definition read_adb_private_key :: "'k rsa \<Rightarrow> fault \<Rightarrow> bytes \<Rightarrow> directory \<Rightarrow> 'k option result" where
  "read_adb_private_key L x f d = (case read_string x f d of
      Err (IOError NotFound _) \<Rightarrow> Ok None
    | Err e \<Rightarrow> Err e
    | Panic \<Rightarrow> Panic
    | Ok pem \<Rightarrow> bind_outcome (new_from_pkcs8 L pem) (\<lambda>k. Ok (Some k)))"

text \<open>The parent is created first, which fails or not; the file must not exist.\<close>

definition write_pkcs8 ::
    "'k rsa \<Rightarrow> 'k \<Rightarrow> unit result \<Rightarrow> fault \<Rightarrow> fault \<Rightarrow> bytes \<Rightarrow> directory \<Rightarrow> unit result \<times> directory" where
  "write_pkcs8 L k made x y f d = (case made of
      Ok _ \<Rightarrow> (case to_pkcs8_pem L k of
          Ok pem \<Rightarrow> (case open_new x f d of
              (Ok i, d') \<Rightarrow> append_to y i pem d'
            | (Err e, d') \<Rightarrow> (Err e, d')
            | (Panic, d') \<Rightarrow> (Panic, d'))
        | Err e \<Rightarrow> (Err e, d)
        | Panic \<Rightarrow> (Panic, d))
    | Err e \<Rightarrow> (Err e, d)
    | Panic \<Rightarrow> (Panic, d))"

section \<open>One call of \<open>load_or_create_adb_private_key\<close>\<close>

text \<open>
  Where a call is: before its first read, before the directory is made, before a candidate is generated, with a
  candidate and its PEM before it opens a temporary file, before it writes that file, before it links it, after it has won or lost the
  race with its temporary still to be removed, with one to be removed after a failure, before its second read, or back.
\<close>

datatype 'k call =
    Reading
  | Making
  | Generating
  | Opening 'k bytes
  | Writing 'k bytes bytes nat
  | Linking 'k bytes
  | Won 'k bytes
  | Lost bytes
  | Clearing rust_error bytes
  | Rereading
  | Returned "'k result"

text \<open>The candidate that \<open>new_random\<close> gives out in this step, if it is the one, and what goes wrong.\<close>

type_synonym 'k environment = "'k \<times> fault"

definition temporary_name :: "bytes \<Rightarrow> nat \<Rightarrow> u64 \<Rightarrow> bytes" where
  "temporary_name f pid sequence =
     ascii ''.'' @ utf8_lossy f @ ascii ''.'' @ show_nat pid @ ascii ''.'' @ show_nat (unat sequence) @ ascii ''.tmp''"

definition found :: "'k option result \<Rightarrow> 'k call \<Rightarrow> 'k call" where
  "found r absent = (case r of Ok (Some k) \<Rightarrow> Returned (Ok k) | Ok None \<Rightarrow> absent | Err e \<Rightarrow> Returned (Err e) | Panic \<Rightarrow> Returned Panic)"

definition open_temporary :: "bytes \<Rightarrow> nat \<Rightarrow> fault \<Rightarrow> 'k \<Rightarrow> bytes \<Rightarrow> directory \<times> u64 \<Rightarrow> 'k call \<times> directory \<times> u64" where
  "open_temporary f pid x k pem = (\<lambda>(d, sequence).
     let temporary = temporary_name f pid sequence in
     case open_new x temporary d of
       (Ok i, d') \<Rightarrow> (Writing k pem temporary i, d', sequence + 1)
     | (Err (IOError AlreadyExists t), d') \<Rightarrow> (Opening k pem, d', sequence + 1)
     | (Err e, d') \<Rightarrow> (Returned (Err e), d', sequence + 1)
     | (Panic, d') \<Rightarrow> (Returned Panic, d', sequence + 1))"

definition publish :: "bytes \<Rightarrow> fault \<Rightarrow> 'k \<Rightarrow> bytes \<Rightarrow> directory \<Rightarrow> 'k call \<times> directory" where
  "publish f x k temporary d = (case link_to x temporary f d of
      (Ok u, d') \<Rightarrow> (Won k temporary, d')
    | (Err (IOError AlreadyExists t), d') \<Rightarrow> (Lost temporary, d')
    | (Err e, d') \<Rightarrow> (Clearing e temporary, d')
    | (Panic, d') \<Rightarrow> (Returned Panic, d'))"

definition disappeared :: rust_error where
  "disappeared = IOError NotFound (Message (ascii ''shared ADB key disappeared after publication''))"

definition after :: "unit result \<Rightarrow> 'k call \<Rightarrow> 'k call" where
  "after r c = (case r of Ok u \<Rightarrow> c | Err e \<Rightarrow> Returned (Err e) | Panic \<Rightarrow> Returned Panic)"

fun call_step :: "'k rsa \<Rightarrow> bytes \<Rightarrow> nat \<Rightarrow> 'k environment \<Rightarrow> 'k call \<Rightarrow> directory \<times> u64 \<Rightarrow> 'k call \<times> directory \<times> u64" where
  "call_step L f pid (k, x) Reading (d, q) = (found (read_adb_private_key L x f d) Making, d, q)"
| "call_step L f pid (k, x) Making (d, q) =
     ((case x of Fine \<Rightarrow> Generating | Fails e _ \<Rightarrow> Returned (Err (IOError e Os_Error))), d, q)"
| "call_step L f pid (k, x) Generating (d, q) =
     ((case x of
         Fails _ _ \<Rightarrow> Returned (Err RSAError)
       | Fine \<Rightarrow> (case to_pkcs8_pem L k of Ok pem \<Rightarrow> Opening k pem | Err e \<Rightarrow> Returned (Err e) | Panic \<Rightarrow> Returned Panic)),
      d, q)"
| "call_step L f pid (k, x) (Opening c pem) (d, q) = open_temporary f pid x c pem (d, q)"
| "call_step L f pid (k, x) (Writing c pem t i) (d, q) =
     (let (r, d') = append_to x i pem d
      in ((case r of Ok u \<Rightarrow> Linking c t | Err e \<Rightarrow> Clearing e t | Panic \<Rightarrow> Returned Panic), d', q))"
| "call_step L f pid (k, x) (Linking c t) (d, q) = (let (p, d') = publish f x c t d in (p, d', q))"
| "call_step L f pid (k, x) (Won c t) (d, q) = (let (r, d') = unlink x t d in (after r (Returned (Ok c)), d', q))"
| "call_step L f pid (k, x) (Lost t) (d, q) = (let (r, d') = unlink x t d in (after r Rereading, d', q))"
| "call_step L f pid (k, x) (Clearing e t) (d, q) = (Returned (Err e), snd (unlink x t d), q)"
| "call_step L f pid (k, x) Rereading (d, q) =
     (found (read_adb_private_key L x f d) (Returned (Err disappeared)), d, q)"
| "call_step L f pid (k, x) (Returned r) (d, q) = (Returned r, d, q)"

section \<open>All calls together\<close>

text \<open>Calls are numbered; those of one process share its counter for names.\<close>

record 'k key_state =
  dir :: directory
  counters :: "nat \<Rightarrow> u64"
  calls :: "nat \<Rightarrow> 'k call"

definition key_turn ::
    "'k rsa \<Rightarrow> bytes \<Rightarrow> (nat \<Rightarrow> nat) \<Rightarrow> nat \<Rightarrow> 'k environment \<Rightarrow> 'k key_state \<Rightarrow> 'k key_state" where
  "key_turn L f process_of t x s =
     (let (c, d, q) = call_step L f (process_of t) x (calls s t) (dir s, counters s (process_of t))
      in s\<lparr>dir := d, counters := (counters s)(process_of t := q), calls := (calls s)(t := c)\<rparr>)"

definition key_start :: "directory \<Rightarrow> 'k key_state" where
  "key_start d = \<lparr>dir = d, counters = (\<lambda>_. 0), calls = (\<lambda>_. Reading)\<rparr>"

inductive key_reachable :: "'k rsa \<Rightarrow> bytes \<Rightarrow> (nat \<Rightarrow> nat) \<Rightarrow> directory \<Rightarrow> 'k key_state \<Rightarrow> bool"
  for L f process_of d where
  start: "key_reachable L f process_of d (key_start d)"
| turn: "key_reachable L f process_of d s \<Longrightarrow> key_reachable L f process_of d (key_turn L f process_of t x s)"

section \<open>One identity\<close>

text \<open>The temporary file a call still has to remove.\<close>

fun held :: "'k call \<Rightarrow> bytes option" where
  "held (Writing k pem t i) = Some t"
| "held (Linking k t) = Some t"
| "held (Won k t) = Some t"
| "held (Lost t) = Some t"
| "held (Clearing e t) = Some t"
| "held _ = None"

definition only_name :: "directory \<Rightarrow> bytes \<Rightarrow> nat \<Rightarrow> bool" where
  "only_name d t i \<longleftrightarrow> entries d t = Some i \<and> (\<forall>n. entries d n = Some i \<longrightarrow> n = t)"

definition pem_of :: "'k rsa \<Rightarrow> 'k \<Rightarrow> bytes option \<Rightarrow> bool" where
  "pem_of L k c \<longleftrightarrow> (\<exists>pem. c = Some pem \<and> to_pem L k = Ok pem)"

fun call_ok :: "'k rsa \<Rightarrow> bytes \<Rightarrow> directory \<Rightarrow> 'k call \<Rightarrow> bool" where
  "call_ok L f d (Opening k pem) \<longleftrightarrow> to_pem L k = Ok pem"
| "call_ok L f d (Writing k pem t i) \<longleftrightarrow> t \<noteq> f \<and> to_pem L k = Ok pem \<and> only_name d t i \<and> content d i = []"
| "call_ok L f d (Linking k t) \<longleftrightarrow> t \<noteq> f \<and> entries d t \<noteq> None \<and> pem_of L k (contents d t)"
| "call_ok L f d (Won k t) \<longleftrightarrow> t \<noteq> f \<and> entries d t \<noteq> None \<and> pem_of L k (contents d f)"
| "call_ok L f d (Lost t) \<longleftrightarrow> t \<noteq> f \<and> entries d t \<noteq> None"
| "call_ok L f d (Clearing e t) \<longleftrightarrow> t \<noteq> f \<and> entries d t \<noteq> None"
| "call_ok L f d (Returned (Ok k)) \<longleftrightarrow> (\<exists>pem. contents d f = Some pem \<and> from_pem L pem = Ok k)"
| "call_ok L f d _ \<longleftrightarrow> True"

definition directory_wf :: "directory \<Rightarrow> bool" where
  "directory_wf d \<longleftrightarrow> (\<forall>n i. entries d n = Some i \<longrightarrow> i < fresh d)"

text \<open>A step of a call that holds the name \<open>T\<close> leaves the files of the others alone.\<close>

definition leaves :: "bytes \<Rightarrow> bytes option \<Rightarrow> directory \<Rightarrow> directory \<Rightarrow> bool" where
  "leaves f T d d' \<longleftrightarrow>
     (\<forall>n i. Some n \<noteq> T \<and> entries d n = Some i \<longrightarrow> entries d' n = Some i \<and> content d' i = content d i) \<and>
     (\<forall>n i. Some n \<noteq> T \<and> n \<noteq> f \<and> only_name d n i \<longrightarrow> only_name d' n i)"

lemma only_nameD: "only_name d n i \<Longrightarrow> entries d m = Some i \<Longrightarrow> m = n"
  unfolding only_name_def by blast

lemma leavesI:
  assumes "\<And>n i. Some n \<noteq> T \<Longrightarrow> entries d n = Some i \<Longrightarrow> entries d' n = Some i \<and> content d' i = content d i"
    and "\<And>n m i. Some n \<noteq> T \<Longrightarrow> n \<noteq> f \<Longrightarrow> only_name d n i \<Longrightarrow> entries d' m = Some i \<Longrightarrow> m = n"
  shows "leaves f T d d'"
  unfolding leaves_def
proof (intro conjI allI impI)
  fix n i
  assume n: "Some n \<noteq> T \<and> n \<noteq> f \<and> only_name d n i"
  then have "entries d' n = Some i" using assms(1) by (simp add: only_name_def)
  with n assms(2) show "only_name d' n i" unfolding only_name_def by blast
qed (use assms(1) in auto)

lemma leaves_refl [simp]: "leaves f T d d"
  by (simp add: leaves_def)

lemma leaves_contents: "leaves f T d d' \<Longrightarrow> Some n \<noteq> T \<Longrightarrow> contents d n = Some c \<Longrightarrow> contents d' n = Some c"
  by (auto simp: leaves_def contents_def)

lemma pem_of_leaves: "leaves f T d d' \<Longrightarrow> Some n \<noteq> T \<Longrightarrow> pem_of L k (contents d n) \<Longrightarrow> pem_of L k (contents d' n)"
  by (auto simp: pem_of_def dest: leaves_contents)

lemma call_ok_others:
  assumes "call_ok L f d c" and "leaves f T d d'" and "T \<noteq> Some f" and "held c \<noteq> None \<Longrightarrow> held c \<noteq> T"
  shows "call_ok L f d' c"
proof -
  have kept: "entries d' n = Some i \<and> content d' i = content d i" if "Some n \<noteq> T" "entries d n = Some i" for n i
    using assms(2) that by (simp add: leaves_def)
  have there: "entries d' n \<noteq> None" if "Some n \<noteq> T" "entries d n \<noteq> None" for n
    using kept [OF that(1)] that(2) by auto
  have only: "only_name d' n i" if "Some n \<noteq> T" "n \<noteq> f" "only_name d n i" for n i
    using assms(2) that by (simp add: leaves_def)
  note pem = pem_of_leaves [OF assms(2)]
  show ?thesis
  proof (cases c)
    case (Writing k pem t i)
    with assms(1,4) have "Some t \<noteq> T" "t \<noteq> f" "to_pem L k = Ok pem" "only_name d t i" "content d i = []" by auto
    moreover from this kept have "content d' i = []" by (auto simp: only_name_def)
    ultimately show ?thesis using Writing only by simp
  next
    case (Linking k t)
    with assms(1,4) there pem [of t L k] show ?thesis by simp
  next
    case (Won k t)
    with assms(1,3,4) there pem [of f L k] show ?thesis by auto
  next
    case (Lost t)
    with assms(1,4) there show ?thesis by simp
  next
    case (Clearing e t)
    with assms(1,4) there show ?thesis by simp
  next
    case (Returned r)
    with assms(1,3) leaves_contents [OF assms(2), of f] show ?thesis by (cases r) auto
  qed (use assms(1) in simp_all)
qed

lemma held_exists: "call_ok L f d c \<Longrightarrow> held c = Some n \<Longrightarrow> entries d n \<noteq> None \<and> n \<noteq> f"
  by (cases c) (auto simp: only_name_def)

text \<open>What one step does: the call stays in order, holds its old temporary or a new one, and leaves the rest alone.\<close>

definition good_step :: "'k rsa \<Rightarrow> bytes \<Rightarrow> 'k call \<Rightarrow> directory \<Rightarrow> 'k call \<Rightarrow> directory \<Rightarrow> bool" where
  "good_step L f c d c' d' \<longleftrightarrow>
     directory_wf d' \<and> call_ok L f d' c' \<and> leaves f (held c) d d' \<and>
     (held c' = None \<or> held c' = held c \<or> (\<exists>n. held c' = Some n \<and> entries d n = None)) \<and>
     (contents d f = None \<longrightarrow> contents d' f = None \<or> (\<exists>k. pem_of L k (contents d' f)))"

lemma show_nat_nonempty: "0 < length (show_nat n)"
  by (subst show_radix.simps) simp

lemma temporary_name_differs: "utf8_valid f \<Longrightarrow> temporary_name f pid q \<noteq> f"
proof
  assume "utf8_valid f" "temporary_name f pid q = f"
  then have "length (temporary_name f pid q) = length f" by simp
  with \<open>utf8_valid f\<close> show False by (simp add: temporary_name_def utf8_lossy_valid)
qed

definition pem_laws :: "'k rsa \<Rightarrow> bool" where
  "pem_laws L \<longleftrightarrow> (\<forall>k pem. to_pem L k = Ok pem \<longrightarrow> from_pem L pem = Ok k)"

lemma read_found:
  assumes "read_adb_private_key L x f d = Ok (Some k)"
  shows "\<exists>pem. contents d f = Some pem \<and> from_pem L pem = Ok k"
  using assms
  by (auto simp: read_adb_private_key_def read_string_def new_from_pkcs8_def
      split: outcome.splits rust_error.splits io_kind.splits fault.splits option.splits if_splits)

lemma found_ok: "call_ok L f d c \<Longrightarrow> held c = None \<Longrightarrow> call_ok L f d (found (read_adb_private_key L x f d) c)
    \<and> held (found (read_adb_private_key L x f d) c) = None"
  using read_found [of L x f d] by (auto simp: found_def split: outcome.split option.split)

lemma good_quiet: "directory_wf d \<Longrightarrow> call_ok L f d c' \<Longrightarrow> held c' = None \<Longrightarrow> good_step L f c d c' d"
  by (simp add: good_step_def)

lemma open_new_cases:
  assumes "open_new x n d = (r, d')"
  obtains (new) i where "r = Ok i" "i = fresh d" "entries d n = None" "entries d' = (entries d)(n \<mapsto> i)"
      "content d' = (content d)(i := [])" "fresh d' = Suc i"
    | (failed) e where "r = Err e" "d' = d"
proof (cases "x = Fine \<and> entries d n = None")
  case True
  with assms have "r = Ok (fresh d)" "d' = d\<lparr>entries := (entries d)(n \<mapsto> fresh d), content := (content d)(fresh d := []),
      fresh := Suc (fresh d)\<rparr>"
    by (simp_all add: open_new_def)
  with True show thesis by (intro new [of "fresh d"]) simp_all
next
  case False
  with assms obtain e where "r = Err e" "d' = d"
    by (cases x) (auto simp: open_new_def split: if_splits)
  then show thesis by (rule failed)
qed

lemma good_open:
  assumes wf: "directory_wf d" and f: "utf8_valid f" and pem: "to_pem L k = Ok pem"
    and step: "open_temporary f pid x k pem (d, q) = (c', d', q')"
  shows "good_step L f (Opening k pem) d c' d'"
proof -
  let ?t = "temporary_name f pid q"
  obtain r d1 where r: "open_new x ?t d = (r, d1)" by fastforce
  then show ?thesis
  proof (cases rule: open_new_cases)
    case (new i)
    with step r have c: "c' = Writing k pem ?t i" "d' = d1" by (simp_all add: open_temporary_def Let_def)
    have unused: "entries d n \<noteq> Some i" for n using wf new(2) by (auto simp: directory_wf_def)
    then have "only_name d' ?t i" by (simp add: only_name_def c new)
    moreover have "directory_wf d'" using wf by (auto simp: directory_wf_def c new intro: less_SucI)
    moreover have "leaves f None d d'"
    proof (rule leavesI)
      fix n m j
      assume only: "only_name d n j" and "entries d' m = Some j"
      moreover have "j \<noteq> i" using only unused [of n] by (auto simp: only_name_def)
      ultimately have "entries d m = Some j" by (simp add: c new split: if_splits)
      with only show "m = n" by (rule only_nameD)
    next
      fix n j
      assume "entries d n = Some j"
      with unused [of n] new(3) show "entries d' n = Some j \<and> content d' j = content d j" by (auto simp: c new)
    qed
    moreover have "contents d' f = contents d f" if "contents d f = None"
      using temporary_name_differs [OF f, of pid q] that by (simp add: contents_def c new)
    ultimately show ?thesis
      using pem temporary_name_differs [OF f] new(3) by (simp add: good_step_def c new)
  next
    case (failed e)
    with step r pem have "d' = d" "call_ok L f d c'" "held c' = None"
      by (auto simp: open_temporary_def Let_def split: rust_error.splits io_kind.splits)
    with wf show ?thesis by (simp add: good_quiet)
  qed
qed

lemma good_write:
  assumes wf: "directory_wf d" and ok: "call_ok L f d (Writing k pem t i)"
    and step: "append_to x i pem d = (r, d')" "c' = (case r of Ok u \<Rightarrow> Linking k t | Err e \<Rightarrow> Clearing e t | Panic \<Rightarrow> Returned Panic)"
  shows "good_step L f (Writing k pem t i) d c' d'"
proof -
  from ok have t: "t \<noteq> f" "to_pem L k = Ok pem" "entries d t = Some i" "content d i = []" and only: "only_name d t i"
    by (simp_all add: only_name_def)
  have d': "entries d' = entries d" "fresh d' = fresh d" "j \<noteq> i \<Longrightarrow> content d' j = content d j" for j
    using step(1) by (auto simp: append_to_def split: fault.splits)
  have "call_ok L f d' c' \<and> held c' = Some t"
    using step t by (cases x) (auto simp add: append_to_def pem_of_def contents_def)
  moreover have "leaves f (Some t) d d'"
  proof (rule leavesI)
    fix n j
    assume "Some n \<noteq> Some t" "entries d n = Some j"
    moreover from this only_nameD [OF only] have "j \<noteq> i" by auto
    ultimately show "entries d' n = Some j \<and> content d' j = content d j" using d' by simp
  qed (simp add: d' only_nameD)
  moreover have "directory_wf d'" using wf d' by (simp add: directory_wf_def)
  ultimately show ?thesis using d'(1) by (simp add: good_step_def contents_def)
qed

lemma good_link:
  assumes wf: "directory_wf d" and ok: "call_ok L f d (Linking k t)" and step: "publish f x k t d = (c', d')"
  shows "good_step L f (Linking k t) d c' d'"
proof -
  from ok obtain i pem where t: "t \<noteq> f" "entries d t = Some i" "content d i = pem" "to_pem L k = Ok pem"
    by (auto simp: pem_of_def contents_def)
  show ?thesis
  proof (cases "x = Fine \<and> entries d f = None")
    case True
    with step t have c: "c' = Won k t" "d' = d\<lparr>entries := (entries d)(f \<mapsto> i)\<rparr>"
      by (simp_all add: publish_def link_to_def)
    have "leaves f (Some t) d d'"
    proof (rule leavesI)
      fix n m j
      assume n: "Some n \<noteq> Some t" "only_name d n j" and m: "entries d' m = Some j"
      from n t(2) only_nameD [OF n(2), of t] have "j \<noteq> i" by auto
      with m have "entries d m = Some j" by (simp add: c split: if_splits)
      with n(2) show "m = n" by (rule only_nameD)
    qed (use True in \<open>auto simp: c\<close>)
    moreover have "directory_wf d'" using wf t by (auto simp: directory_wf_def c)
    moreover have "pem_of L k (contents d' f)" using t by (simp add: pem_of_def contents_def c)
    ultimately show ?thesis using t by (auto simp: good_step_def c)
  next
    case False
    with step t have "d' = d" "c' = Lost t \<or> (\<exists>e. c' = Clearing e t)"
      by (auto simp: publish_def link_to_def split: fault.splits io_kind.splits if_splits)
    with wf t show ?thesis by (auto simp: good_step_def)
  qed
qed

lemma good_unlink:
  assumes wf: "directory_wf d" and t: "t \<noteq> f" and h: "held c = Some t"
    and step: "unlink x t d = (r, d')" and c': "call_ok L f d c'" "held c' = None"
  shows "good_step L f c d c' d'"
proof -
  have d': "d' = d \<or> d' = d\<lparr>entries := (entries d)(t := None)\<rparr>"
    using step by (auto simp: unlink_def split: fault.splits option.splits)
  then have same: "contents d' f = contents d f" using t by (auto simp: contents_def)
  have "leaves f (held c) d d'"
  proof (rule leavesI)
    fix n m j
    assume only: "only_name d n j" and "entries d' m = Some j"
    then have "entries d m = Some j" using d' by (auto split: if_splits)
    with only show "m = n" by (rule only_nameD)
  qed (use d' h in auto)
  moreover have "call_ok L f d' c'"
    using call_ok_others [OF c'(1) \<open>leaves f (held c) d d'\<close>] c'(2) h t by simp
  moreover have "directory_wf d'" using wf d' by (auto simp: directory_wf_def split: if_splits)
  ultimately show ?thesis using c' same by (simp add: good_step_def)
qed

lemma good_call_step:
  assumes laws: "pem_laws L" and f: "utf8_valid f" and wf: "directory_wf d" and ok: "call_ok L f d c"
    and step: "call_step L f pid x c (d, q) = (c', d', q')"
  shows "good_step L f c d c' d'"
proof -
  obtain k y where x: "x = (k, y)" by fastforce
  show ?thesis
  proof (cases c)
    case Reading
    with step x wf found_ok [of L f d Making y] show ?thesis by (auto intro!: good_quiet)
  next
    case Making
    with step x wf show ?thesis by (cases y) (auto intro!: good_quiet)
  next
    case Generating
    have "call_ok L f d c' \<and> held c' = None"
      using step x Generating
      by (cases y; cases "to_pkcs8_pem L k") (auto simp: to_pkcs8_pem_def)
    with step x Generating wf show ?thesis by (simp add: good_quiet)
  next
    case (Opening k' pem)
    with step x ok good_open [OF wf f, of L k' pem pid y q c' d' q'] show ?thesis by simp
  next
    case (Writing k' pem t i)
    obtain r d1 where r: "append_to y i pem d = (r, d1)" by fastforce
    with step x Writing have "c' = (case r of Ok u \<Rightarrow> Linking k' t | Err e \<Rightarrow> Clearing e t | Panic \<Rightarrow> Returned Panic)"
      "d' = d1" by simp_all
    with r ok good_write [OF wf, of L f k' pem t i y r d1 c'] Writing show ?thesis by simp
  next
    case (Linking k' t)
    with step x ok good_link [OF wf, of L f k' t y c' d'] show ?thesis by (simp split: prod.splits)
  next
    case (Won k' t)
    obtain r d1 where r: "unlink y t d = (r, d1)" by fastforce
    with step x Won have c: "c' = after r (Returned (Ok k'))" "d' = d1" by simp_all
    from ok Won laws have "call_ok L f d c'" "held c' = None"
      unfolding c by (cases r; auto simp: after_def pem_of_def pem_laws_def)+
    with r c(2) ok Won show ?thesis using good_unlink [OF wf, of t f c y r d1 L c'] by simp
  next
    case (Lost t)
    obtain r d1 where r: "unlink y t d = (r, d1)" by fastforce
    with step x Lost have c: "c' = after r Rereading" "d' = d1" by simp_all
    have "call_ok L f d c'" "held c' = None" unfolding c by (cases r; simp add: after_def)+
    with r c(2) ok Lost show ?thesis using good_unlink [OF wf, of t f c y r d1 L c'] by simp
  next
    case (Clearing e t)
    with step x have c: "c' = Returned (Err e)" "unlink y t d = (fst (unlink y t d), d')" by auto
    with ok Clearing show ?thesis using good_unlink [OF wf _ _ c(2), of f c L c'] by simp
  next
    case Rereading
    with step x wf found_ok [of L f d "Returned (Err disappeared)" y] show ?thesis by (auto intro!: good_quiet)
  next
    case (Returned r)
    with step x wf ok show ?thesis by (auto intro!: good_quiet)
  qed
qed

text \<open>Every call is in order, no two hold the same temporary file, and the key was there or is that of a candidate.\<close>

definition keys_ok :: "'k rsa \<Rightarrow> bytes \<Rightarrow> directory \<Rightarrow> 'k key_state \<Rightarrow> bool" where
  "keys_ok L f d0 s \<longleftrightarrow>
     directory_wf (dir s) \<and> (\<forall>t. call_ok L f (dir s) (calls s t)) \<and>
     (\<forall>t u n. t \<noteq> u \<longrightarrow> held (calls s t) = Some n \<longrightarrow> held (calls s u) \<noteq> Some n) \<and>
     (\<forall>c. contents d0 f = Some c \<longrightarrow> contents (dir s) f = Some c) \<and>
     (contents d0 f = None \<longrightarrow> contents (dir s) f = None \<or> (\<exists>k. pem_of L k (contents (dir s) f)))"

lemma keys_ok_turn:
  assumes laws: "pem_laws L" and f: "utf8_valid f" and s: "keys_ok L f d0 s"
  shows "keys_ok L f d0 (key_turn L f process_of t x s)
    \<and> (\<forall>c. contents (dir s) f = Some c \<longrightarrow> contents (dir (key_turn L f process_of t x s)) f = Some c)"
proof -
  obtain c' d' q' where step: "call_step L f (process_of t) x (calls s t) (dir s, counters s (process_of t)) = (c', d', q')"
    by (cases "call_step L f (process_of t) x (calls s t) (dir s, counters s (process_of t))") auto
  let ?s = "key_turn L f process_of t x s"
  have s': "dir ?s = d'" "calls ?s = (calls s)(t := c')" by (simp_all add: key_turn_def step)
  from s have wf: "directory_wf (dir s)" and ok: "\<And>u. call_ok L f (dir s) (calls s u)"
    and apart: "\<And>u v n. u \<noteq> v \<Longrightarrow> held (calls s u) = Some n \<Longrightarrow> held (calls s v) \<noteq> Some n"
    unfolding keys_ok_def by blast+
  from good_call_step [OF laws f wf ok step]
  have good: "directory_wf d'" "call_ok L f d' c'" "leaves f (held (calls s t)) (dir s) d'"
    "held c' = None \<or> held c' = held (calls s t) \<or> (\<exists>n. held c' = Some n \<and> entries (dir s) n = None)"
    "contents (dir s) f = None \<longrightarrow> contents d' f = None \<or> (\<exists>k. pem_of L k (contents d' f))"
    by (simp_all add: good_step_def)
  have mine: "held (calls s t) \<noteq> Some f" using held_exists [OF ok, of t f] by auto
  have stays: "contents d' f = Some c" if "contents (dir s) f = Some c" for c
    using leaves_contents [OF good(3) _ that] mine by simp
  have "call_ok L f d' (calls s u)" if "u \<noteq> t" for u
    by (rule call_ok_others [OF ok good(3) mine]) (use apart [OF that] in force)
  then have "\<forall>u. call_ok L f d' (calls ?s u)" using good(2) by (simp add: s')
  moreover have fresh_name: "held (calls s u) \<noteq> Some n" if "held c' = Some n" "u \<noteq> t" for u n
    using good(4) that apart [of t u n] held_exists [OF ok, of u n] by auto
  have "\<forall>u v n. u \<noteq> v \<longrightarrow> held (calls ?s u) = Some n \<longrightarrow> held (calls ?s v) \<noteq> Some n"
    using apart fresh_name unfolding s' by (metis fun_upd_apply)
  moreover have "\<forall>c. contents d0 f = Some c \<longrightarrow> contents d' f = Some c"
    using s stays unfolding keys_ok_def by blast
  moreover have "contents d0 f = None \<longrightarrow> contents d' f = None \<or> (\<exists>k. pem_of L k (contents d' f))"
  proof
    assume "contents d0 f = None"
    with s consider "contents (dir s) f = None" | k where "pem_of L k (contents (dir s) f)"
      by (auto simp: keys_ok_def)
    then show "contents d' f = None \<or> (\<exists>k. pem_of L k (contents d' f))"
    proof cases
      case (2 k)
      then obtain pem where "contents (dir s) f = Some pem" "to_pem L k = Ok pem" by (auto simp: pem_of_def)
      with stays have "pem_of L k (contents d' f)" by (simp add: pem_of_def)
      then show ?thesis by blast
    qed (use good(5) in blast)
  qed
  ultimately show ?thesis using good(1) stays unfolding keys_ok_def s' by blast
qed

lemma keys_ok_reachable:
  assumes "key_reachable L f process_of d s" and "pem_laws L" and "utf8_valid f" and "directory_wf d"
  shows "keys_ok L f d s"
  using assms(1)
proof induction
  case start
  with assms(4) show ?case by (auto simp: keys_ok_def key_start_def)
next
  case (turn s t x)
  with keys_ok_turn [OF assms(2,3)] show ?case by blast
qed

section \<open>Properties\<close>

text \<open>
  C10: whatever any number of threads and processes do at the same time, every call that returns a key returns
  the same one, which is the one in the file: a key found there before, or one complete candidate; a file that
  has been seen there never changes, and no reader ever finds a part of it.
\<close>

theorem one_identity_wins:
  assumes "pem_laws L" and "utf8_valid f" and "directory_wf d" and "key_reachable L f process_of d s"
    and "calls s t = Returned (Ok k)"
  shows "(\<exists>pem. contents (dir s) f = Some pem \<and> from_pem L pem = Ok k \<and>
      (if contents d f = None then \<exists>k'. to_pem L k' = Ok pem else contents d f = Some pem)) \<and>
    (\<forall>u k'. calls s u = Returned (Ok k') \<longrightarrow> k' = k) \<and>
    (\<forall>u x. contents (dir (key_turn L f process_of u x s)) f = contents (dir s) f)"
proof -
  have ok: "keys_ok L f d s" using keys_ok_reachable [OF assms(4,1,2,3)] .
  then have each: "call_ok L f (dir s) (calls s u)" for u by (simp add: keys_ok_def)
  from each [of t] assms(5) obtain pem where pem: "contents (dir s) f = Some pem" "from_pem L pem = Ok k" by auto
  moreover have "k' = k" if "calls s u = Returned (Ok k')" for u k'
    using each [of u] that pem by simp
  moreover have "if contents d f = None then \<exists>k'. to_pem L k' = Ok pem else contents d f = Some pem"
    using ok pem(1) by (auto simp: keys_ok_def pem_of_def)
  moreover have "contents (dir (key_turn L f process_of u x s)) f = contents (dir s) f" for u x
    using keys_ok_turn [OF assms(1,2) ok] pem(1) by simp
  ultimately show ?thesis by blast
qed

text \<open>Two processes that find no key, generate the candidates 17 and 19 and interleave; the second wins.\<close>

definition race :: "(nat \<times> nat environment) list" where
  "race = [(0, 17, Fine), (1, 19, Fine), (0, 17, Fine), (1, 19, Fine), (0, 17, Fine), (1, 19, Fine),
     (0, 17, Fine), (1, 19, Fine), (1, 19, Fine), (0, 17, Fine), (1, 19, Fine), (0, 17, Fine), (1, 19, Fine),
     (0, 17, Fine), (0, 17, Fine)]"

definition plain_rsa :: "nat rsa" where
  "plain_rsa = \<lparr>key_n = id, key_e = (\<lambda>_. 65537), to_pem = (\<lambda>k. Ok (replicate k 97)),
     from_pem = (\<lambda>s. Ok (length s)), pkcs1_sign = (\<lambda>k m. Ok m)\<rparr>"

definition empty_directory :: directory where
  "empty_directory = \<lparr>entries = Map.empty, content = (\<lambda>_. []), fresh = 0\<rparr>"

definition after_race :: "nat key_state" where
  "after_race = fold (\<lambda>(t, x). key_turn plain_rsa (ascii ''k'') id t x) race (key_start empty_directory)"

lemma fold_reachable:
  "key_reachable L f p d s \<Longrightarrow> key_reachable L f p d (fold (\<lambda>(t, x). key_turn L f p t x) ts s)"
  by (induction ts arbitrary: s) (auto intro: key_reachable.turn)

lemma race_names:
  "temporary_name (ascii ''k'') 0 0 = ascii ''.k.0.0.tmp''" "temporary_name (ascii ''k'') (Suc 0) 0 = ascii ''.k.1.0.tmp''"
proof -
  have "utf8_lossy (ascii ''k'') = ascii ''k''" by (rule utf8_lossy_ascii) simp
  then show "temporary_name (ascii ''k'') 0 0 = ascii ''.k.0.0.tmp''"
    "temporary_name (ascii ''k'') (Suc 0) 0 = ascii ''.k.1.0.tmp''"
    by (simp_all only: temporary_name_def) (simp_all add: show_radix.simps digit_char_def)
qed

lemma race_text: "utf8_valid (replicate n 97)"
  by (rule utf8_valid_ascii) simp

lemma race_result: "calls after_race 0 = Returned (Ok 19) \<and> calls after_race 1 = Returned (Ok 19)"
  by (simp del: ascii_Cons replicate.simps utf8_valid.simps add: after_race_def race_def key_turn_def key_start_def
      empty_directory_def plain_rsa_def found_def after_def read_adb_private_key_def read_string_def contents_def
      to_pkcs8_pem_def new_from_pkcs8_def open_temporary_def publish_def open_new_def append_to_def link_to_def
      unlink_def Let_def race_names race_text)

theorem one_identity_wins_witness:
  "\<exists>pem. contents (dir after_race) (ascii ''k'') = Some pem \<and> from_pem plain_rsa pem = Ok 19 \<and>
    (\<exists>k'. to_pem plain_rsa k' = Ok pem) \<and> {k'. \<exists>u. calls after_race u = Returned (Ok k')} = {19} \<and>
    (\<forall>u x. contents (dir (key_turn plain_rsa (ascii ''k'') id u x after_race)) (ascii ''k'')
      = contents (dir after_race) (ascii ''k''))"
proof -
  have empty: "contents empty_directory (ascii ''k'') = None" by (simp add: contents_def empty_directory_def)
  have "pem_laws plain_rsa" by (simp add: pem_laws_def plain_rsa_def)
  moreover have "utf8_valid (ascii ''k'')" by (rule utf8_valid_ascii) simp
  moreover have "directory_wf empty_directory" by (simp add: directory_wf_def empty_directory_def)
  moreover have "key_reachable plain_rsa (ascii ''k'') id empty_directory after_race"
    unfolding after_race_def by (intro fold_reachable key_reachable.start)
  moreover have result: "calls after_race 0 = Returned (Ok 19)" by (simp add: race_result)
  ultimately have wins: "(\<exists>pem. contents (dir after_race) (ascii ''k'') = Some pem \<and> from_pem plain_rsa pem = Ok 19 \<and>
      (if contents empty_directory (ascii ''k'') = None then \<exists>k'. to_pem plain_rsa k' = Ok pem
       else contents empty_directory (ascii ''k'') = Some pem)) \<and>
    (\<forall>u k'. calls after_race u = Returned (Ok k') \<longrightarrow> k' = 19) \<and>
    (\<forall>u x. contents (dir (key_turn plain_rsa (ascii ''k'') id u x after_race)) (ascii ''k'')
      = contents (dir after_race) (ascii ''k''))"
    by (rule one_identity_wins)
  then have only: "k' = 19" if "calls after_race u = Returned (Ok k')" for u k'
    using that by (elim conjE allE [of _ u] allE [of _ k'] mp)
  from wins obtain pem where pem: "contents (dir after_race) (ascii ''k'') = Some pem" "from_pem plain_rsa pem = Ok 19"
    "\<exists>k'. to_pem plain_rsa k' = Ok pem" unfolding empty by (elim conjE exE) (simp only: if_True simp_thms)
  show ?thesis
  proof (rule exI [of _ pem], intro conjI)
    show "{k'. \<exists>u. calls after_race u = Returned (Ok k')} = {19}"
      using result by (intro equalityI subsetI) (auto dest: only)
    show "\<forall>u x. contents (dir (key_turn plain_rsa (ascii ''k'') id u x after_race)) (ascii ''k'')
      = contents (dir after_race) (ascii ''k'')" using wins by (elim conjE)
  qed (fact pem)+
qed

end
