(* ===== verification/Wireless_Pairing.thy ===== *)
theory Wireless_Pairing
  imports Pairing_Math Server_Transport Key_Store
begin

text \<open>
  Pairing with a device over wireless debugging, of \<^verbatim>\<open>adb_client/src/wireless.rs\<close>: the codes and passwords
  it takes, the packets over the TLS connection, the cipher with its counters, and the whole exchange. Setting up
  TLS is the library's: the connection is a stream with the bytes it exports.
\<close>

section \<open>Codes and passwords\<close>

definition failure :: "string \<Rightarrow> rust_error" where
  "failure msg = request_failed msg"

definition ascii_digit :: "u8 \<Rightarrow> bool" where
  "ascii_digit b \<longleftrightarrow> 48 \<le> b \<and> b \<le> 57"

definition ascii_graphic :: "u8 \<Rightarrow> bool" where
  "ascii_graphic b \<longleftrightarrow> 33 \<le> b \<and> b \<le> 126"

text \<open>\<open>take(65)\<close>: a reader that ends after as many bytes.\<close>

definition read_limited :: "(nat \<times> source) reader" where
  "read_limited n = (\<lambda>(limit, src).
     if limit = 0 then (Ok [], (limit, src))
     else case read_source (min n limit) src of
         (Ok bs, src') \<Rightarrow> (Ok bs, (limit - length bs, src'))
       | (Err e, src') \<Rightarrow> (Err e, (limit, src'))
       | (Panic, src') \<Rightarrow> (Panic, (limit, src')))"

definition check_password :: "bytes \<Rightarrow> bytes result" where
  "check_password password =
     (if password = [] \<or> 64 < length password \<or> \<not> list_all ascii_graphic password
      then Err (failure ''invalid QR pairing password'') else Ok password)"

definition read_pairing_password :: "source \<Rightarrow> bytes result option" where
  "read_pairing_password src =
     map_option (\<lambda>(r, _). bind_outcome r (\<lambda>bs. if utf8_valid bs then check_password bs else Err invalid_utf8))
       (read_to_end read_limited [] (65, src))"

section \<open>Packets\<close>

definition PEER_INFO_SIZE :: nat where
  "PEER_INFO_SIZE = 8192"

definition MAX_PAIRING_PAYLOAD :: nat where
  "MAX_PAIRING_PAYLOAD = PEER_INFO_SIZE * 2"

record tls_stream =
  tls_in :: source
  tls_out :: sink

definition tls_write :: "bytes \<Rightarrow> (tls_stream, unit) io" where
  "tls_write bs s = (case write_all bs (tls_out s) of (r, k) \<Rightarrow> (r, s\<lparr>tls_out := k\<rparr>))"

definition tls_read_exact :: "nat \<Rightarrow> (tls_stream, bytes) io" where
  "tls_read_exact n s = (case read_full n (tls_in s) of (r, i) \<Rightarrow> (r, s\<lparr>tls_in := i\<rparr>))"

text \<open>Flushing writes nothing of its own, but may fail.\<close>

definition write_packet :: "u8 \<Rightarrow> bytes \<Rightarrow> (tls_stream, unit) io" where
  "write_packet kind payload =
     (if payload = [] \<or> MAX_PAIRING_PAYLOAD < length payload then lift (Err (failure ''invalid pairing payload length''))
      else bind_io (lift (ok_or (failure ''pairing payload too large'') (try_u32 (length payload)))) (\<lambda>len.
             seq_io (tls_write [1, kind]) (seq_io (tls_write (to_be32 len)) (seq_io (tls_write payload) (tls_write [])))))"

definition read_packet :: "u8 \<Rightarrow> (tls_stream, bytes) io" where
  "read_packet expected_kind =
     bind_io (tls_read_exact 6) (\<lambda>header.
       if header ! 0 \<noteq> 1 \<or> header ! 1 \<noteq> expected_kind then lift (Err (failure ''unexpected wireless pairing packet''))
       else let len = be_nat (drop 2 header) in
            if len = 0 \<or> MAX_PAIRING_PAYLOAD < len then lift (Err (failure ''invalid pairing payload length''))
            else tls_read_exact len)"

section \<open>The identifier of the device\<close>

text \<open>The control characters: below the space, the delete character, and those after it, which UTF-8 encodes in two bytes.\<close>

fun has_control :: "bytes \<Rightarrow> bool" where
  "has_control [] \<longleftrightarrow> False"
| "has_control (b # bs) \<longleftrightarrow> b < 32 \<or> b = 127 \<or> (b = 0xC2 \<and> bs \<noteq> [] \<and> hd bs < 0xA0) \<or> has_control bs"

definition parse_device_guid :: "bytes \<Rightarrow> bytes result" where
  "parse_device_guid v =
     (if length v \<noteq> PEER_INFO_SIZE \<or> hd v \<noteq> 1 then Err (failure ''pairing code was rejected'')
      else let body = tl v; guid = takeWhile (\<lambda>b. b \<noteq> 0) body in
           if 0 \<notin> set body then Err (failure ''invalid Android pairing identifier'')
           else if \<not> utf8_valid guid then Err Utf8StrError
           else if guid = [] \<or> 255 < length guid \<or> has_control guid then Err (failure ''invalid Android pairing identifier'')
           else Ok guid)"

section \<open>The cipher\<close>

record cipher =
  cipher_key :: bytes
  encrypt_sequence :: u64
  decrypt_sequence :: u64

definition AES_INFO :: bytes where
  "AES_INFO = ascii ''adb pairing_auth aes-128-gcm key''"

definition cipher_new :: "'p pairing_lib \<Rightarrow> bytes \<Rightarrow> cipher result" where
  "cipher_new C material =
     bind_outcome (ok_or (failure ''cannot derive pairing cipher'') (hkdf_expand C AES_INFO material)) (\<lambda>k.
       Ok \<lparr>cipher_key = k, encrypt_sequence = 0, decrypt_sequence = 0\<rparr>)"

definition nonce :: "u64 \<Rightarrow> bytes" where
  "nonce sequence = to_le64 sequence @ replicate 4 0"

definition checked_next :: "u64 \<Rightarrow> u64 option" where
  "checked_next q = (if q = - 1 then None else Some (q + 1))"

definition cipher_encrypt :: "'p pairing_lib \<Rightarrow> bytes \<Rightarrow> (cipher, bytes) io" where
  "cipher_encrypt C plaintext c =
     (case checked_next (encrypt_sequence c) of
        None \<Rightarrow> (Err (failure ''pairing nonce exhausted''), c)
      | Some q \<Rightarrow>
          (ok_or (failure ''cannot encrypt pairing information'')
             (aes_encrypt C (cipher_key c) (nonce (encrypt_sequence c)) plaintext),
           c\<lparr>encrypt_sequence := q\<rparr>))"

definition cipher_decrypt :: "'p pairing_lib \<Rightarrow> bytes \<Rightarrow> (cipher, bytes) io" where
  "cipher_decrypt C ciphertext c =
     (case checked_next (decrypt_sequence c) of
        None \<Rightarrow> (Err (failure ''pairing nonce exhausted''), c)
      | Some q \<Rightarrow>
          (ok_or (failure ''pairing code was rejected'')
             (aes_decrypt C (cipher_key c) (nonce (decrypt_sequence c)) ciphertext),
           c\<lparr>decrypt_sequence := q\<rparr>))"

section \<open>The exchange\<close>

definition peer_info :: "bytes \<Rightarrow> bytes result" where
  "peer_info public_key =
     (if PEER_INFO_SIZE \<le> length public_key then Err (failure ''ADB public key is too large for pairing'')
      else Ok ([0] @ public_key @ replicate (PEER_INFO_SIZE - 1 - length public_key) 0))"

text \<open>From the first message on; \<open>exported\<close> are the bytes TLS exports and \<open>public_key\<close> the encoded key of the host.\<close>

definition exchange_over :: "'p pairing_lib \<Rightarrow> bytes \<Rightarrow> bytes \<Rightarrow> bytes \<Rightarrow> bytes result \<Rightarrow> (tls_stream, bytes) io" where
  "exchange_over C random pairing_code exported public_key =
     bind_io (lift (spake_start C random (pairing_code @ exported))) (\<lambda>(spake, message).
     seq_io (write_packet 0 message) (bind_io (read_packet 0) (\<lambda>peer.
     bind_io (lift (spake_finish C spake peer)) (\<lambda>material.
     bind_io (lift (cipher_new C material)) (\<lambda>c.
     bind_io (lift (bind_outcome public_key peer_info)) (\<lambda>info.
     let (sealed, c') = cipher_encrypt C info c in
     bind_io (lift sealed) (\<lambda>text. seq_io (write_packet 1 text) (bind_io (read_packet 1) (\<lambda>answer.
       lift (bind_outcome (fst (cipher_decrypt C answer c')) parse_device_guid))))))))))"

text \<open>
  \<open>loaded\<close> is what loading the key of the host gives, \<open>connect\<close> the TLS connection made with it and the bytes it
  exports; the outcome comes with the stream if there is one.
\<close>

definition pair_with_secret ::
    "'p pairing_lib \<Rightarrow> bignum \<Rightarrow> (bytes \<Rightarrow> bytes) \<Rightarrow> 'k rsa \<Rightarrow> bytes \<Rightarrow> 'k result
      \<Rightarrow> ('k \<Rightarrow> (tls_stream \<times> bytes) result) \<Rightarrow> bytes \<Rightarrow> bytes result \<times> tls_stream option" where
  "pair_with_secret C B base64 L random loaded connect pairing_code =
     (case bind_outcome loaded (\<lambda>k. bind_outcome (connect k) (\<lambda>(s, exported). Ok (k, s, exported))) of
        Ok (k, s, exported) \<Rightarrow>
          (let (r, s') = exchange_over C random pairing_code exported (android_pubkey_encode B base64 L k) s in (r, Some s'))
      | Err e \<Rightarrow> (Err e, None)
      | Panic \<Rightarrow> (Panic, None))"

definition pair ::
    "'p pairing_lib \<Rightarrow> bignum \<Rightarrow> (bytes \<Rightarrow> bytes) \<Rightarrow> 'k rsa \<Rightarrow> bytes \<Rightarrow> 'k result
      \<Rightarrow> ('k \<Rightarrow> (tls_stream \<times> bytes) result) \<Rightarrow> bytes \<Rightarrow> bytes result \<times> tls_stream option" where
  "pair C B base64 L random loaded connect pairing_code =
     (if length pairing_code \<noteq> 6 \<or> \<not> list_all ascii_digit pairing_code
      then (Err (failure ''pairing code must contain exactly six digits''), None)
      else pair_with_secret C B base64 L random loaded connect pairing_code)"

definition pair_with_password_from_reader ::
    "'p pairing_lib \<Rightarrow> bignum \<Rightarrow> (bytes \<Rightarrow> bytes) \<Rightarrow> 'k rsa \<Rightarrow> bytes \<Rightarrow> 'k result
      \<Rightarrow> ('k \<Rightarrow> (tls_stream \<times> bytes) result) \<Rightarrow> source \<Rightarrow> (bytes result \<times> tls_stream option) option" where
  "pair_with_password_from_reader C B base64 L random loaded connect src =
     map_option (\<lambda>r. case r of
         Ok password \<Rightarrow> pair_with_secret C B base64 L random loaded connect password
       | Err e \<Rightarrow> (Err e, None)
       | Panic \<Rightarrow> (Panic, None))
       (read_pairing_password src)"

section \<open>What packets are on the wire\<close>

definition packet :: "u8 \<Rightarrow> bytes \<Rightarrow> bytes" where
  "packet kind payload = [1, kind] @ to_be32 (word_of_nat (length payload)) @ payload"

definition payload_ok :: "bytes \<Rightarrow> bool" where
  "payload_ok payload \<longleftrightarrow> payload \<noteq> [] \<and> length payload \<le> MAX_PAIRING_PAYLOAD"

lemma write_packet_accepted:
  assumes "payload_ok payload" and "sk_script (tls_out s) = []"
  shows "write_packet kind payload s
    = (Ok (), s\<lparr>tls_out := tls_out s\<lparr>sk_out := sk_out (tls_out s) @ packet kind payload\<rparr>\<rparr>)"
proof -
  have "length payload < 2 ^ 32" using assms(1) by (simp add: payload_ok_def MAX_PAIRING_PAYLOAD_def PEER_INFO_SIZE_def)
  with assms show ?thesis
    by (simp add: write_packet_def payload_ok_def try_u32_def seq_io_def bind_io_def tls_write_def write_all_def packet_def)
qed

lemma packet_header: "packet kind payload = ([1, kind] @ to_be32 (word_of_nat (length payload))) @ payload"
  by (simp add: packet_def)

lemma read_packet_header:
  assumes "payload_ok payload" and "flowing (tls_in s)" and "source_bytes (tls_in s) = packet kind payload @ rest"
  obtains i where "tls_read_exact 6 s = (Ok ([1, kind] @ to_be32 (word_of_nat (length payload))), s\<lparr>tls_in := i\<rparr>)"
    "source_bytes i = payload @ rest" "flowing i"
proof -
  from read_full_content [OF assms(2), of "[1, kind] @ to_be32 (word_of_nat (length payload))" "payload @ rest"] assms(3)
  obtain i where "read_full 6 (tls_in s) = (Ok ([1, kind] @ to_be32 (word_of_nat (length payload))), i)"
    "source_bytes i = payload @ rest" "flowing i" by (auto simp: packet_def)
  then show thesis by (intro that) (simp_all add: tls_read_exact_def)
qed

lemma read_packet_content:
  assumes "payload_ok payload" and "flowing (tls_in s)" and "source_bytes (tls_in s) = packet kind payload @ rest"
  shows "\<exists>i. read_packet kind s = (Ok payload, s\<lparr>tls_in := i\<rparr>) \<and> source_bytes i = rest \<and> flowing i"
proof -
  from assms obtain i where i: "tls_read_exact 6 s = (Ok ([1, kind] @ to_be32 (word_of_nat (length payload))), s\<lparr>tls_in := i\<rparr>)"
    "source_bytes i = payload @ rest" "flowing i" by (rule read_packet_header)
  have len: "be_nat (to_be32 (word_of_nat (length payload))) = length payload"
    using assms(1) by (simp add: payload_ok_def MAX_PAIRING_PAYLOAD_def PEER_INFO_SIZE_def unat_of_nat)
  from read_full_content [OF i(3,2)] obtain i2 where "read_full (length payload) i = (Ok payload, i2)"
    "source_bytes i2 = rest" "flowing i2" by auto
  with i(1) assms(1) len show ?thesis
    by (auto simp: read_packet_def bind_io_def tls_read_exact_def payload_ok_def)
qed

lemma read_packet_other_kind:
  assumes "payload_ok payload" and "flowing (tls_in s)" and "source_bytes (tls_in s) = packet kind payload @ rest"
    and "expected \<noteq> kind"
  shows "fst (read_packet expected s) = Err (failure ''unexpected wireless pairing packet'')"
proof -
  from assms(1-3) obtain i where "tls_read_exact 6 s = (Ok ([1, kind] @ to_be32 (word_of_nat (length payload))), s\<lparr>tls_in := i\<rparr>)"
    by (rule read_packet_header)
  with assms(4) show ?thesis by (simp add: read_packet_def bind_io_def)
qed

section \<open>Nonces\<close>

lemma nonce_inject [simp]: "nonce q = nonce r \<longleftrightarrow> q = r"
  by (metis append_same_eq from_to_le64 nonce_def)

text \<open>The nonces under which a run of the cipher encrypts.\<close>

fun nonces_used :: "'p pairing_lib \<Rightarrow> bytes list \<Rightarrow> cipher \<Rightarrow> bytes list" where
  "nonces_used C [] c = []"
| "nonces_used C (p # ps) c =
     (case checked_next (encrypt_sequence c) of
        None \<Rightarrow> nonces_used C ps (snd (cipher_encrypt C p c))
      | Some q \<Rightarrow> nonce (encrypt_sequence c) # nonces_used C ps (snd (cipher_encrypt C p c)))"

lemma checked_next_Some: "checked_next q = Some r \<longleftrightarrow> unat r = Suc (unat q)"
proof (cases "q = - 1")
  case True
  then have "unat q = 2 ^ 64 - 1" by (simp add: unsigned_minus_1_eq_mask mask_eq_exp_minus_1)
  then show ?thesis using True unat_less_u64 [of r] by (simp add: checked_next_def)
next
  case False
  then have "1 + q \<noteq> 0" by (simp add: add_eq_0_iff)
  then have "unat (q + 1) = Suc (unat q)" using unatSuc [of q] by (simp add: add.commute)
  then show ?thesis using False by (metis checked_next_def option.inject word_unat_eq_iff)
qed

lemma later_nonces: "x \<in> set (nonces_used C ps c) \<Longrightarrow> \<exists>q. x = nonce q \<and> unat (encrypt_sequence c) \<le> unat q"
proof (induction ps arbitrary: c)
  case (Cons p ps)
  show ?case
  proof (cases "checked_next (encrypt_sequence c)")
    case None
    with Cons show ?thesis by (auto simp: cipher_encrypt_def)
  next
    case (Some q)
    with Cons.prems consider "x = nonce (encrypt_sequence c)"
      | "x \<in> set (nonces_used C ps (c\<lparr>encrypt_sequence := q\<rparr>))" by (auto simp: cipher_encrypt_def)
    then show ?thesis
    proof cases
      case 2
      from Cons.IH [OF this] Some show ?thesis by (auto simp: checked_next_Some)
    qed auto
  qed
qed simp


section \<open>Properties\<close>

text \<open>
  What \<open>write_packet\<close> writes, \<open>read_packet\<close> on the other side reads back, whatever the cuts, and
  leaves what follows; a reader that expects another kind of packet refuses it.
\<close>

theorem pairing_packet_roundtrip:
  assumes "payload_ok payload" and "sk_script (tls_out s) = []" and "sk_out (tls_out s) = []"
    and "write_packet kind payload s = (r, s')"
    and "flowing (tls_in t)" and "source_bytes (tls_in t) = sk_out (tls_out s') @ rest"
  shows "r = Ok () \<and> (\<exists>i. read_packet kind t = (Ok payload, t\<lparr>tls_in := i\<rparr>) \<and> source_bytes i = rest \<and> flowing i) \<and>
    (\<forall>expected. expected = kind \<or> fst (read_packet expected t) = Err (failure ''unexpected wireless pairing packet''))"
proof -
  have w: "r = Ok ()" "sk_out (tls_out s') = packet kind payload"
    using write_packet_accepted [OF assms(1,2), of kind] assms(3,4) by auto
  with assms(6) have "source_bytes (tls_in t) = packet kind payload @ rest" by simp
  with read_packet_content [OF assms(1,5) this] read_packet_other_kind [OF assms(1,5) this] w(1)
  show ?thesis by blast
qed

definition silent :: sink where
  "silent = \<lparr>sk_script = [], sk_out = []\<rparr>"

theorem pairing_packet_roundtrip_witness:
  "let t = \<lparr>tls_in = [Chunk [1], Chunk [0, 0, 0, 0, 2, 7, 8, 9]], tls_out = silent\<rparr> in
    (\<exists>i. read_packet 0 t = (Ok [7, 8], t\<lparr>tls_in := i\<rparr>) \<and> source_bytes i = [9])"
proof -
  let ?t = "\<lparr>tls_in = [Chunk [1], Chunk [0, 0, 0, 0, 2, 7, 8, 9]], tls_out = silent\<rparr>"
    and ?s = "\<lparr>tls_in = [], tls_out = silent\<rparr>"
  have ok: "payload_ok [7, 8]" by (simp add: payload_ok_def MAX_PAIRING_PAYLOAD_def PEER_INFO_SIZE_def)
  have s: "sk_script (tls_out ?s) = []" "sk_out (tls_out ?s) = []" by (simp_all add: silent_def)
  obtain r s' where w: "write_packet 0 [7, 8] ?s = (r, s')" by fastforce
  with write_packet_accepted [OF ok s(1), of 0] have "sk_out (tls_out s') = packet 0 [7, 8]" by (auto simp: silent_def)
  moreover have "packet 0 [7, 8] = [1, 0, 0, 0, 0, 2, 7, 8]" by code_simp
  ultimately have bytes: "source_bytes (tls_in ?t) = sk_out (tls_out s') @ [9]" by simp
  have "flowing (tls_in ?t)" by (simp add: flowing_def)
  from pairing_packet_roundtrip [OF ok s w this bytes] show ?thesis unfolding Let_def by blast
qed

text \<open>What the device answers with: its kind and its identifier, filled up with zeros.\<close>

definition device_info :: "bytes \<Rightarrow> bytes" where
  "device_info guid = [1] @ guid @ replicate (PEER_INFO_SIZE - 1 - length guid) 0"

definition guid_ok :: "bytes \<Rightarrow> bool" where
  "guid_ok guid \<longleftrightarrow> guid \<noteq> [] \<and> length guid \<le> 255 \<and> utf8_valid guid \<and> \<not> has_control guid"

lemma control_zero: "\<not> has_control bs \<Longrightarrow> 0 \<notin> set bs"
  by (induction bs) auto

lemma parse_device_info: "guid_ok guid \<Longrightarrow> parse_device_guid (device_info guid) = Ok guid"
proof -
  assume g: "guid_ok guid"
  then have "0 \<notin> set guid" by (simp add: guid_ok_def control_zero)
  then have "takeWhile (\<lambda>b. b \<noteq> 0) (guid @ replicate n 0) = guid" for n
    by (subst takeWhile_append2) (auto simp: takeWhile_replicate)
  then show ?thesis using g
    by (simp add: parse_device_guid_def device_info_def guid_ok_def PEER_INFO_SIZE_def Let_def)
qed

lemma sealed_ok: "pairing_laws C \<Longrightarrow> aes_encrypt C k n p = Some c \<Longrightarrow> length p = PEER_INFO_SIZE \<Longrightarrow>
    payload_ok c \<and> aes_decrypt C k n c = Some p"
proof -
  assume "pairing_laws C" "aes_encrypt C k n p = Some c" "length p = PEER_INFO_SIZE"
  then have "length c = PEER_INFO_SIZE + 16" "aes_decrypt C k n c = Some p" unfolding pairing_laws_def by metis+
  then show ?thesis by (auto simp: payload_ok_def MAX_PAIRING_PAYLOAD_def PEER_INFO_SIZE_def)
qed

text \<open>
  C11: pairing with a device that knows the code succeeds: the exchange ends with the identifier of the device,
  having sent the two packets from which the device, with the key it computed itself, deciphers the public key of
  the host, in the place and with the padding it expects.
\<close>

theorem pairing_completes:
  assumes laws: "pairing_laws C" and M: "pt_decompress C SPAKE_M = Some M" and N: "pt_decompress C SPAKE_N = Some N"
    and code: "length code = 6" "list_all ascii_digit code"
    and pub: "android_pubkey_encode B base64 L k = Ok pub" "length pub < PEER_INFO_SIZE"
    and peer: "spake_start C random (code @ exported) = Ok (st, message)"
      "own = peer_message C y (code @ exported) N" "peer_key C y (code @ exported) M own message = Ok material"
      "hkdf_expand C AES_INFO material = Some a" "aes_encrypt C a (nonce 0) (device_info guid) = Some answer" "guid_ok guid"
    and seal: "aes_encrypt C a (nonce 0) ([0] @ pub @ replicate (PEER_INFO_SIZE - 1 - length pub) 0) = Some sealed"
    and s: "flowing (tls_in s)" "source_bytes (tls_in s) = packet 0 own @ packet 1 answer @ rest"
      "sk_script (tls_out s) = []" "sk_out (tls_out s) = []"
  shows "\<exists>s'. pair C B base64 L random (Ok k) (\<lambda>_. Ok (s, exported)) code = (Ok guid, Some s') \<and>
    sk_out (tls_out s') = packet 0 message @ packet 1 sealed \<and>
    aes_decrypt C a (nonce 0) sealed = Some ([0] @ pub @ replicate (PEER_INFO_SIZE - 1 - length pub) 0)"
proof -
  let ?info = "[0] @ pub @ replicate (PEER_INFO_SIZE - 1 - length pub) 0"
  from spake_same_key [OF laws M N, of random "code @ exported" y] peer(1-3)
  have finish: "spake_finish C st own = Ok material" by auto
  have thirty_two: "payload_ok bs" if "length bs = 32" for bs
    using that by (auto simp: payload_ok_def MAX_PAIRING_PAYLOAD_def PEER_INFO_SIZE_def)
  have ok: "payload_ok own" "payload_ok message"
    using peer(1,2) point_codec(2) [OF laws]
    by (auto intro!: thirty_two simp: peer_message_def spake_start_def decode_point_def M Let_def)
  have info: "peer_info pub = Ok ?info" "length ?info = PEER_INFO_SIZE"
    using pub(2) by (simp_all add: peer_info_def)
  have dev: "length (device_info guid) = PEER_INFO_SIZE"
    using peer(6) by (simp add: device_info_def guid_ok_def PEER_INFO_SIZE_def)
  from sealed_ok [OF laws seal info(2)] have sealed: "payload_ok sealed" "aes_decrypt C a (nonce 0) sealed = Some ?info"
    by blast+
  from sealed_ok [OF laws peer(5) dev] have answer: "payload_ok answer" "aes_decrypt C a (nonce 0) answer = Some (device_info guid)"
    by blast+
  define s1 where "s1 = s\<lparr>tls_out := tls_out s\<lparr>sk_out := packet 0 message\<rparr>\<rparr>"
  have w1: "write_packet 0 message s = (Ok (), s1)"
    using write_packet_accepted [OF ok(2) s(3), of 0] s(4) by (simp add: s1_def)
  have in1: "tls_in s1 = tls_in s" "sk_script (tls_out s1) = []" "sk_out (tls_out s1) = packet 0 message"
    using s(3) by (simp_all add: s1_def)
  from read_packet_content [OF ok(1), of s1 0 "packet 1 answer @ rest"] s(1,2) in1(1)
  obtain i where r1: "read_packet 0 s1 = (Ok own, s1\<lparr>tls_in := i\<rparr>)"
    and i: "source_bytes i = packet 1 answer @ rest" "flowing i" by auto
  define s2 where "s2 = s1\<lparr>tls_in := i\<rparr>"
  define s3 where "s3 = s2\<lparr>tls_out := tls_out s2\<lparr>sk_out := packet 0 message @ packet 1 sealed\<rparr>\<rparr>"
  have w2: "write_packet 1 sealed s2 = (Ok (), s3)"
    using write_packet_accepted [OF sealed(1), of s2 1] in1(2,3) by (simp add: s2_def s3_def)
  have in3: "tls_in s3 = i" "sk_out (tls_out s3) = packet 0 message @ packet 1 sealed" by (simp_all add: s2_def s3_def)
  from read_packet_content [OF answer(1), of s3 1 rest] i in3(1)
  obtain i' where r2: "read_packet 1 s3 = (Ok answer, s3\<lparr>tls_in := i'\<rparr>)" by auto
  let ?c = "\<lparr>cipher_key = a, encrypt_sequence = 0, decrypt_sequence = 0\<rparr>"
  have next0: "checked_next 0 = Some 1" by (simp add: checked_next_def)
  have c: "cipher_new C material = Ok ?c" using peer(4) by (simp add: cipher_new_def)
  have e: "cipher_encrypt C ?info ?c = (Ok sealed, ?c\<lparr>encrypt_sequence := 1\<rparr>)"
    using seal by (simp add: cipher_encrypt_def next0)
  have d: "fst (cipher_decrypt C answer (?c\<lparr>encrypt_sequence := 1\<rparr>)) = Ok (device_info guid)"
    using answer(2) by (simp add: cipher_decrypt_def next0)
  have "exchange_over C random code exported (Ok pub) s = (Ok guid, s3\<lparr>tls_in := i'\<rparr>)"
    using w1 r1 w2 r2 finish c e d info(1) peer(1) parse_device_info [OF peer(6)]
    by (simp add: exchange_over_def seq_io_def bind_io_def s2_def)
  then show ?thesis using code pub(1) sealed(2) in3(2) by (simp add: pair_def pair_with_secret_def)
qed

theorem pairing_completes_witness:
  "\<exists>s s' own. source_bytes (tls_in s) = packet 0 own @ packet 1 (device_info (ascii ''adb-1'') @ replicate 16 0) \<and>
    pair word_lib small_bignum id tiny_rsa [1] (Ok 3233) (\<lambda>_. Ok (s, [2])) (ascii ''123456'') = (Ok (ascii ''adb-1''), Some s')"
proof -
  let ?M = "word_of_nat (nat_le SPAKE_M) :: 256 word" and ?N = "word_of_nat (nat_le SPAKE_N) :: 256 word"
  let ?secret = "ascii ''123456'' @ [2]" and ?guid = "ascii ''adb-1''"
  have MN: "pt_decompress word_lib SPAKE_M = Some ?M" "pt_decompress word_lib SPAKE_N = Some ?N"
    by (simp_all add: word_lib_def)
  define own where "own = peer_message word_lib 5 ?secret ?N"
  from spake_same_key [OF word_lib_laws MN, of "[1]" ?secret 5] obtain st message material
    where k: "spake_start word_lib [1] ?secret = Ok (st, message)" "peer_key word_lib 5 ?secret ?M own message = Ok material"
    unfolding own_def by blast
  have key: "key_n tiny_rsa 3233 = 3233" "key_e tiny_rsa 3233 = 65537" by (simp_all add: tiny_rsa_def)
  have facts: "odd (3233 :: nat)" "(65537 :: nat) < 2 ^ 32" by simp_all
  have "(3233 :: nat) < 2 ^ 2048" by (rule less_trans [of _ "2 ^ 12"]) simp_all
  with facts pubkey_encode_fields [OF small_bignum_laws, of tiny_rsa 3233 id]
  obtain raw where raw: "android_pubkey_encode small_bignum id tiny_rsa 3233 = Ok (id raw @ ascii '' adb_client@3.2.3'')"
    "length raw = 524" unfolding key by blast
  have len: "length (id raw @ ascii '' adb_client@3.2.3'') < PEER_INFO_SIZE" by (simp add: raw(2) PEER_INFO_SIZE_def)
  let ?answer = "device_info ?guid @ replicate 16 0"
  let ?s = "\<lparr>tls_in = [Chunk (packet 0 own @ packet 1 ?answer)], tls_out = silent\<rparr>"
  have hkdf: "hkdf_expand word_lib AES_INFO material = Some (take 16 material)"
    and aes: "aes_encrypt word_lib a n p = Some (p @ replicate 16 0)" for a n p
    by (simp_all add: word_lib_def)
  have guid: "guid_ok ?guid"
  proof -
    have "utf8_valid ?guid" by (rule utf8_valid_ascii) simp
    then show ?thesis by (simp add: guid_ok_def)
  qed
  have s: "flowing (tls_in ?s)" "source_bytes (tls_in ?s) = packet 0 own @ packet 1 ?answer @ []"
    "sk_script (tls_out ?s) = []" "sk_out (tls_out ?s) = []"
    by (simp_all add: flowing_def silent_def packet_def)
  have code: "length (ascii ''123456'') = 6" "list_all ascii_digit (ascii ''123456'')"
    by (simp_all add: ascii_digit_def)
  from pairing_completes [OF word_lib_laws MN code raw(1) len k(1) own_def k(2) hkdf aes guid aes s]
  obtain s' where "pair word_lib small_bignum id tiny_rsa [1] (Ok 3233) (\<lambda>_. Ok (?s, [2])) (ascii ''123456'')
      = (Ok ?guid, Some s')" by blast
  with s(2) show ?thesis unfolding append_Nil2 by blast
qed

end
