(* ===== verification/Emulator.thy ===== *)
theory Emulator
  imports Message_Transport
begin

text \<open>
  The console of an emulator, \<^verbatim>\<open>adb_client/src/emulator\<close>: a TCP connection on which commands are lines and an answer
  ends with a line \<open>OK\<close> or fails with one that begins with \<open>KO:\<close>. The regular expression that takes the port out
  of an identifier and the token in the home directory are parameters.
\<close>

section \<open>Reading lines\<close>

text \<open>\<open>BufReader::read_line\<close>: what is buffered is given out before the next read; the end gives an empty line.\<close>

record line_reader =
  lr_buffer :: bytes
  lr_source :: source

definition line_result :: "bytes \<Rightarrow> bytes result" where
  "line_result line =
     (if utf8_valid line then Ok line
      else Err (IOError InvalidData (Message (ascii ''stream did not contain valid UTF-8''))))"

partial_function (option) buffered_line :: "bytes \<Rightarrow> line_reader \<Rightarrow> (bytes result \<times> line_reader) option" where
  "buffered_line acc r =
     (if 10 \<in> set (lr_buffer r) then
        let head = takeWhile (\<lambda>b. b \<noteq> 10) (lr_buffer r) @ [10]
        in Some (line_result (acc @ head), r\<lparr>lr_buffer := drop (length head) (lr_buffer r)\<rparr>)
      else case read_source 8192 (lr_source r) of
        (Ok bs, src) \<Rightarrow>
          if bs = [] then Some (line_result (acc @ lr_buffer r), \<lparr>lr_buffer = [], lr_source = src\<rparr>)
          else buffered_line (acc @ lr_buffer r) \<lparr>lr_buffer = bs, lr_source = src\<rparr>
      | (Err e, src) \<Rightarrow>
          if (case e of IOError Interrupted _ \<Rightarrow> True | _ \<Rightarrow> False)
          then buffered_line (acc @ lr_buffer r) \<lparr>lr_buffer = [], lr_source = src\<rparr>
          else Some (Err e, \<lparr>lr_buffer = [], lr_source = src\<rparr>)
      | (Panic, src) \<Rightarrow> Some (Panic, r))"

definition read_line :: "line_reader \<Rightarrow> (bytes result \<times> line_reader) option" where
  "read_line r = buffered_line [] r"

section \<open>Commands and answers\<close>

datatype emulator_command =
    Authenticate bytes
  | Avd_Discovery_Path
  | Avd_Grpc_Port
  | Sms bytes bytes
  | Rotate
  | Raw bytes

fun emulator_text :: "emulator_command \<Rightarrow> bytes" where
  "emulator_text (Authenticate token) = ascii ''auth '' @ token @ [10]"
| "emulator_text Avd_Discovery_Path = ascii ''avd discoverypath'' @ [10]"
| "emulator_text Avd_Grpc_Port = ascii ''avd grpc'' @ [10]"
| "emulator_text (Sms phone_number message) = ascii ''sms send '' @ phone_number @ ascii '' '' @ message @ [10]"
| "emulator_text Rotate = ascii ''rotate'' @ [10]"
| "emulator_text (Raw command) = command @ [10]"

partial_function (option) response_loop :: "bytes \<Rightarrow> line_reader \<Rightarrow> (bytes result \<times> line_reader) option" where
  "response_loop response r =
     (case read_line r of
        None \<Rightarrow> None
      | Some (Ok line, r') \<Rightarrow>
          if starts_with (ascii ''KO:'') line then Some (Err (ADBRequestFailed line), r')
          else if trim line = ascii ''OK'' then Some (Ok response, r')
          else response_loop (response @ line) r'
      | Some (Err e, r') \<Rightarrow> Some (Err e, r')
      | Some (Panic, r') \<Rightarrow> Some (Panic, r'))"

text \<open>The reader of an answer is made for it and dropped after it, with what it has buffered.\<close>

definition read_response :: "source \<Rightarrow> (bytes result \<times> source) option" where
  "read_response src =
     map_option (\<lambda>(r, reader). (r, lr_source reader)) (response_loop [] \<lparr>lr_buffer = [], lr_source = src\<rparr>)"

section \<open>The connection\<close>

record emulator_socket =
  es_source :: source
  es_sink :: sink

record emulator =
  em_identifier :: bytes
  em_address :: u32
  em_port :: u16
  em_stream :: "emulator_socket option"

definition LOCALHOST :: u32 where "LOCALHOST = 0x7F000001"

definition emulator_new :: "(bytes \<Rightarrow> bytes option) \<Rightarrow> bytes \<Rightarrow> u32 option \<Rightarrow> emulator result" where
  "emulator_new port_group identifier ip_address =
     bind_outcome (ok_or (DeviceNotFound (ascii ''Device '' @ identifier @ ascii '' is likely not an emulator'')) (port_group identifier)) (\<lambda>group.
     bind_outcome (ok_or ParseIntError (parse_uint 10 16 group)) (\<lambda>port.
       Ok \<lparr>em_identifier = identifier, em_address = (case ip_address of Some a \<Rightarrow> a | None \<Rightarrow> LOCALHOST),
         em_port = word_of_nat port, em_stream = None\<rparr>))"

definition emulator_from_server :: "(bytes \<Rightarrow> bytes option) \<Rightarrow> bytes option \<Rightarrow> u32 \<Rightarrow> emulator result" where
  "emulator_from_server port_group identifier server_ip = (case identifier of
       None \<Rightarrow> Err (DeviceNotFound (ascii ''cannot connect to an emulator device without knowing its identifier''))
     | Some i \<Rightarrow> emulator_new port_group i (Some server_ip))"

text \<open>The outcome of an operation that may not return comes with the emulator it leaves.\<close>

definition send_command :: "emulator_command \<Rightarrow> emulator \<Rightarrow> (bytes result \<times> emulator) option" where
  "send_command command e = (case em_stream e of
       None \<Rightarrow> Some (Err (IOError NotConnected (Message (ascii ''not connected''))), e)
     | Some s \<Rightarrow> (case write_all (emulator_text command) (es_sink s) of
           (Ok _, k) \<Rightarrow> map_option (\<lambda>(r, src). (r, e\<lparr>em_stream := Some \<lparr>es_source = src, es_sink = k\<rparr>\<rparr>))
               (read_response (es_source s))
         | (Err x, k) \<Rightarrow> Some (Err x, e\<lparr>em_stream := Some (s\<lparr>es_sink := k\<rparr>)\<rparr>)
         | (Panic, k) \<Rightarrow> Some (Panic, e\<lparr>em_stream := Some (s\<lparr>es_sink := k\<rparr>)\<rparr>)))"

definition authenticate :: "bytes result \<Rightarrow> emulator \<Rightarrow> (unit result \<times> emulator) option" where
  "authenticate token e = (case token of
       Ok t \<Rightarrow> map_option (\<lambda>(r, e'). (bind_outcome r (\<lambda>_. Ok ()), e')) (send_command (Authenticate t) e)
     | Err x \<Rightarrow> Some (Err x, e)
     | Panic \<Rightarrow> Some (Panic, e))"

text \<open>The lines of the banner, through one reader, which is then dropped.\<close>

fun skip_lines :: "nat \<Rightarrow> line_reader \<Rightarrow> (unit result \<times> line_reader) option" where
  "skip_lines 0 r = Some (Ok (), r)"
| "skip_lines (Suc n) r = (case read_line r of
       None \<Rightarrow> None
     | Some (Ok _, r') \<Rightarrow> skip_lines n r'
     | Some (Err e, r') \<Rightarrow> Some (Err e, r')
     | Some (Panic, r') \<Rightarrow> Some (Panic, r'))"

definition emulator_connect ::
    "bytes result \<Rightarrow> emulator_socket result \<Rightarrow> emulator \<Rightarrow> (unit result \<times> emulator) option" where
  "emulator_connect token dialled e = (case em_stream e of
       Some _ \<Rightarrow> Some (Ok (), e)
     | None \<Rightarrow> (case dialled of
           Err x \<Rightarrow> Some (Err x, e)
         | Panic \<Rightarrow> Some (Panic, e)
         | Ok s \<Rightarrow> (case skip_lines 5 \<lparr>lr_buffer = [], lr_source = es_source s\<rparr> of
               None \<Rightarrow> None
             | Some (r, reader) \<Rightarrow>
                 (let e' = e\<lparr>em_stream := Some (s\<lparr>es_source := lr_source reader\<rparr>)\<rparr> in
                  case r of
                    Ok _ \<Rightarrow> authenticate token e'
                  | Err x \<Rightarrow> Some (Err x, e')
                  | Panic \<Rightarrow> Some (Panic, e')))))"

section \<open>What an emulator can be asked\<close>

definition ask :: "bytes result \<Rightarrow> emulator_socket result \<Rightarrow> emulator_command \<Rightarrow> emulator \<Rightarrow> (bytes result \<times> emulator) option" where
  "ask token dialled command e = (case emulator_connect token dialled e of
       None \<Rightarrow> None
     | Some (Ok _, e') \<Rightarrow> send_command command e'
     | Some (Err x, e') \<Rightarrow> Some (Err x, e')
     | Some (Panic, e') \<Rightarrow> Some (Panic, e'))"

definition answered :: "(bytes \<Rightarrow> 'a result) \<Rightarrow> (bytes result \<times> emulator) option \<Rightarrow> ('a result \<times> emulator) option" where
  "answered f = map_option (\<lambda>(r, e). (bind_outcome r f, e))"

definition avd_discovery_path :: "bytes result \<Rightarrow> emulator_socket result \<Rightarrow> emulator \<Rightarrow> (bytes result \<times> emulator) option" where
  "avd_discovery_path token dialled e = answered (\<lambda>p. Ok (trim p)) (ask token dialled Avd_Discovery_Path e)"

definition avd_grpc_port :: "bytes result \<Rightarrow> emulator_socket result \<Rightarrow> emulator \<Rightarrow> (u16 result \<times> emulator) option" where
  "avd_grpc_port token dialled e =
     answered (\<lambda>p. bind_outcome (ok_or ParseIntError (parse_uint 10 16 (trim p))) (\<lambda>n. Ok (word_of_nat n)))
       (ask token dialled Avd_Grpc_Port e)"

definition send_raw_command :: "bytes \<Rightarrow> bytes result \<Rightarrow> emulator_socket result \<Rightarrow> emulator \<Rightarrow> (bytes result \<times> emulator) option" where
  "send_raw_command command token dialled e = ask token dialled (Raw command) e"

definition rotate_screen :: "bytes result \<Rightarrow> emulator_socket result \<Rightarrow> emulator \<Rightarrow> (unit result \<times> emulator) option" where
  "rotate_screen token dialled e = answered (\<lambda>_. Ok ()) (ask token dialled Rotate e)"

definition send_sms :: "bytes \<Rightarrow> bytes \<Rightarrow> bytes result \<Rightarrow> emulator_socket result \<Rightarrow> emulator \<Rightarrow> (unit result \<times> emulator) option" where
  "send_sms phone_number message token dialled e = answered (\<lambda>_. Ok ()) (ask token dialled (Sms phone_number message) e)"

section \<open>Lines come out as they were sent\<close>

lemma read_line_content:
  assumes "flowing (lr_source r)" and "lr_buffer r @ source_bytes (lr_source r) = line @ [10] @ rest" and "10 \<notin> set line"
  shows "\<exists>r'. buffered_line acc r = Some (line_result (acc @ line @ [10]), r') \<and> flowing (lr_source r') \<and>
    lr_buffer r' @ source_bytes (lr_source r') = rest"
  using assms
proof (induction "length (source_bytes (lr_source r))" arbitrary: r line acc rule: less_induct)
  case less
  show ?case
  proof (cases "10 \<in> set (lr_buffer r)")
    case True
    then obtain xs ys where b: "lr_buffer r = xs @ 10 # ys" "10 \<notin> set xs" by (metis split_list_first)
    with less.prems(2) have "xs @ 10 # (ys @ source_bytes (lr_source r)) = line @ 10 # rest" by simp
    with b(2) less.prems(3) have x: "xs = line" "ys @ source_bytes (lr_source r) = rest"
      by (auto simp: append_eq_append_conv2 append_eq_Cons_conv Cons_eq_append_conv)
    have "takeWhile (\<lambda>c. c \<noteq> 10) (lr_buffer r) = line"
      using b x by (auto simp: takeWhile_append)
    with b x True less.prems(1) show ?thesis by (subst buffered_line.simps) (auto simp: Let_def)
  next
    case False
    have "source_bytes (lr_source r) \<noteq> []"
    proof
      assume "source_bytes (lr_source r) = []"
      with less.prems(2) have "10 \<in> set (lr_buffer r)" by simp
      with False show False ..
    qed
    with read_source_flowing [OF less.prems(1), of 8192] obtain bs src where
      rd: "read_source 8192 (lr_source r) = (Ok bs, src)" "bs \<noteq> []" "source_bytes (lr_source r) = bs @ source_bytes src" "flowing src"
      by auto
    from less.prems(2) False have "\<exists>more. line = lr_buffer r @ more \<and> source_bytes (lr_source r) = more @ [10] @ rest"
      by (auto simp: append_eq_append_conv2 append_eq_Cons_conv Cons_eq_append_conv)
    then obtain more where m: "line = lr_buffer r @ more" "source_bytes (lr_source r) = more @ [10] @ rest" by blast
    have "length (source_bytes src) < length (source_bytes (lr_source r))" using rd(2,3) by simp
    from less.hyps [of "\<lparr>lr_buffer = bs, lr_source = src\<rparr>" more "acc @ lr_buffer r"] this rd m less.prems(3)
    show ?thesis using False by (subst buffered_line.simps) auto
  qed
qed

text \<open>A line of an answer: it ends in a newline and is neither the end nor a failure.\<close>

definition answer_line :: "bytes \<Rightarrow> bool" where
  "answer_line line \<longleftrightarrow> 10 \<notin> set line \<and> utf8_valid (line @ [10]) \<and> \<not> starts_with (ascii ''KO:'') (line @ [10])
     \<and> trim (line @ [10]) \<noteq> ascii ''OK''"

definition written :: "bytes list \<Rightarrow> bytes" where
  "written ls = concat (map (\<lambda>l. l @ [10]) ls)"

lemma response_lines:
  assumes "\<forall>l \<in> set ls. answer_line l" and "flowing (lr_source r)"
    and "lr_buffer r @ source_bytes (lr_source r) = written ls @ last_line @ [10] @ rest"
    and "10 \<notin> set last_line" and "utf8_valid (last_line @ [10])"
  shows "\<exists>r'. flowing (lr_source r') \<and> lr_buffer r' @ source_bytes (lr_source r') = rest \<and> response_loop acc r =
    (if starts_with (ascii ''KO:'') (last_line @ [10]) then Some (Err (ADBRequestFailed (last_line @ [10])), r')
     else if trim (last_line @ [10]) = ascii ''OK'' then Some (Ok (acc @ written ls), r')
     else response_loop (acc @ written ls @ last_line @ [10]) r')"
  using assms(1-3)
proof (induction ls arbitrary: acc r)
  case Nil
  then have "lr_buffer r @ source_bytes (lr_source r) = last_line @ [10] @ rest" by (simp add: written_def)
  from read_line_content [OF Nil(2) this assms(4), of "[]"] obtain r' where
    "buffered_line [] r = Some (line_result (last_line @ [10]), r')" "flowing (lr_source r')"
    "lr_buffer r' @ source_bytes (lr_source r') = rest" by auto
  then show ?case using assms(5)
    by (intro exI [of _ r']) (subst response_loop.simps, simp add: read_line_def line_result_def written_def del: ascii_Cons)
next
  case (Cons l ls)
  then have l: "answer_line l" by simp
  from Cons(4) have "lr_buffer r @ source_bytes (lr_source r) = l @ [10] @ written ls @ last_line @ [10] @ rest"
    by (simp add: written_def)
  from read_line_content [OF Cons(3) this, of "[]"] l obtain r1 where r1:
    "buffered_line [] r = Some (line_result (l @ [10]), r1)" "flowing (lr_source r1)"
    "lr_buffer r1 @ source_bytes (lr_source r1) = written ls @ last_line @ [10] @ rest" by (auto simp: answer_line_def)
  have "response_loop acc r = response_loop (acc @ l @ [10]) r1"
    using r1(1) l by (subst response_loop.simps) (simp add: read_line_def line_result_def answer_line_def del: ascii_Cons)
  moreover have "\<forall>l \<in> set ls. answer_line l" using Cons(2) by simp
  moreover have "written (l # ls) = l @ [10] @ written ls" by (simp add: written_def)
  moreover note Cons.IH [OF calculation(2) r1(2,3), of "acc @ l @ [10]"]
  ultimately show ?case by (simp only: append_assoc)
qed

section \<open>Properties\<close>

text \<open>
  The answer to a command is exactly the lines the emulator sent before the line \<open>OK\<close>, or its failure
  is the line that begins with \<open>KO:\<close>, however the connection cuts them; the command was written as one line.
\<close>

theorem emulator_answer_exact:
  assumes "em_stream e = Some s" and "sk_script (es_sink s) = []" and "flowing (es_source s)"
    and "source_bytes (es_source s) = written ls @ final @ [10] @ rest" and "\<forall>l \<in> set ls. answer_line l"
    and "10 \<notin> set final" and "utf8_valid (final @ [10])"
    and "starts_with (ascii ''KO:'') (final @ [10]) \<or> trim (final @ [10]) = ascii ''OK''"
  shows "\<exists>r e' s'. send_command command e = Some (r, e') \<and> em_stream e' = Some s' \<and>
    r = (if starts_with (ascii ''KO:'') (final @ [10]) then Err (ADBRequestFailed (final @ [10])) else Ok (written ls)) \<and>
    sk_out (es_sink s') = sk_out (es_sink s) @ emulator_text command"
proof -
  let ?r = "\<lparr>lr_buffer = [], lr_source = es_source s\<rparr>"
  have "flowing (lr_source ?r)" "lr_buffer ?r @ source_bytes (lr_source ?r) = written ls @ final @ [10] @ rest"
    using assms(3,4) by simp_all
  from response_lines [OF assms(5) this assms(6,7), of "[]"] assms(8) obtain r' where
    "response_loop [] ?r = Some (if starts_with (ascii ''KO:'') (final @ [10]) then Err (ADBRequestFailed (final @ [10]))
      else Ok (written ls), r')" by (auto split: if_splits)
  then show ?thesis using assms(1,2)
    by (simp add: send_command_def write_all_def read_response_def del: ascii_Cons split: if_splits)
qed

definition console :: "source \<Rightarrow> emulator" where
  "console src = \<lparr>em_identifier = ascii ''emulator-5554'', em_address = LOCALHOST, em_port = 5554,
     em_stream = Some \<lparr>es_source = src, es_sink = \<lparr>sk_script = [], sk_out = []\<rparr>\<rparr>\<rparr>"

theorem emulator_answer_exact_witness:
  "\<exists>e'. send_command Avd_Grpc_Port (console [Chunk (ascii ''85''), Chunk (ascii ''54'' @ [10]), Chunk (ascii ''OK'' @ [10])])
    = Some (Ok (ascii ''8554'' @ [10]), e')"
proof -
  let ?src = "[Chunk (ascii ''85''), Chunk (ascii ''54'' @ [10]), Chunk (ascii ''OK'' @ [10])]"
  have ascii: "utf8_valid (ascii ''8554'' @ [10])" "utf8_valid (ascii ''OK'' @ [10])"
    by (rule utf8_valid_ascii, simp)+
  have port: "trim (ascii ''8554'' @ [10]) = ascii ''8554''" and ok: "trim (ascii ''OK'' @ [10]) = ascii ''OK''"
    by code_simp+
  have line: "\<forall>l \<in> set [ascii ''8554'']. answer_line l"
    using ascii(1) by (simp only: list.set ball_simps answer_line_def port) (simp add: starts_with_def)
  have s: "em_stream (console ?src) = Some \<lparr>es_source = ?src, es_sink = \<lparr>sk_script = [], sk_out = []\<rparr>\<rparr>"
    by (simp add: console_def)
  have b: "source_bytes ?src = written [ascii ''8554''] @ ascii ''OK'' @ [10] @ []" by (simp add: written_def)
  have "flowing ?src" by (simp add: flowing_def)
  from emulator_answer_exact [OF s _ _ _ line, of "ascii ''OK''" "[]" Avd_Grpc_Port] this b ascii(2) ok
  show ?thesis by (auto simp: written_def starts_with_def)
qed

section \<open>What goes wrong\<close>

text \<open>At the end of the connection a line is empty, which is neither the end nor a failure: the answer is waited for ever.\<close>

lemma ended_line: "read_line \<lparr>lr_buffer = [], lr_source = []\<rparr> = Some (Ok [], \<lparr>lr_buffer = [], lr_source = []\<rparr>)"
  by (simp add: read_line_def buffered_line.simps line_result_def)

lemma ended_response:
  assumes "response_loop acc r = Some y"
  shows "r \<noteq> \<lparr>lr_buffer = [], lr_source = []\<rparr>"
proof (rule response_loop.raw_induct [OF _ assms])
  fix rec :: "bytes \<Rightarrow> line_reader \<Rightarrow> (bytes result \<times> line_reader) option" and acc r y
  assume IH: "\<And>acc r y. rec acc r = Some y \<Longrightarrow> r \<noteq> \<lparr>lr_buffer = [], lr_source = []\<rparr>"
    and body: "(case read_line r of
        None \<Rightarrow> None
      | Some (Ok line, r') \<Rightarrow>
          if starts_with (ascii ''KO:'') line then Some (Err (ADBRequestFailed line), r')
          else if trim line = ascii ''OK'' then Some (Ok acc, r')
          else rec (acc @ line) r'
      | Some (Err e, r') \<Rightarrow> Some (Err e, r')
      | Some (Panic, r') \<Rightarrow> Some (Panic, r')) = Some y"
  show "r \<noteq> \<lparr>lr_buffer = [], lr_source = []\<rparr>"
  proof
    assume r: "r = \<lparr>lr_buffer = [], lr_source = []\<rparr>"
    have "trim [] = []" by code_simp
    with body have "rec acc r = Some y" by (simp add: r ended_line starts_with_def)
    with IH r show False by blast
  qed
qed

lemma closed_console_hangs: "send_command command (console []) = None"
proof -
  have "response_loop [] \<lparr>lr_buffer = [], lr_source = []\<rparr> = None"
    using ended_response [of "[]" "\<lparr>lr_buffer = [], lr_source = []\<rparr>"] by (cases "response_loop [] \<lparr>lr_buffer = [], lr_source = []\<rparr>") auto
  then show ?thesis by (simp add: send_command_def console_def write_all_def read_response_def)
qed

text \<open>A connection that failed to authenticate stays, and the next command goes out on it unauthenticated.\<close>

lemma failed_authentication_is_forgotten:
  assumes "emulator_connect token dialled e = Some (Err x, e')" and "em_stream e' = Some s"
  shows "emulator_connect token' dialled' e' = Some (Ok (), e')"
  using assms(2) by (simp add: emulator_connect_def)

text \<open>The text of a message is not looked at: after a newline in it the emulator reads another command.\<close>

lemma message_carries_commands:
  "emulator_text (Sms p (m @ [10] @ command)) = emulator_text (Sms p m) @ emulator_text (Raw command)"
  by simp

end
