(* ===== verification/Usb_Devices.thy ===== *)
theory Usb_Devices
  imports Message_Transport Cli_Devices
begin

text \<open>
  Finding and opening the device behind a USB cable: \<^verbatim>\<open>usb/utils.rs\<close>, the transport of \<^verbatim>\<open>usb/usb_transport.rs\<close> apart
  from its reads (\<open>Message_Transport\<close>), and the constructors of \<^verbatim>\<open>usb/adb_usb_device.rs\<close> and \<^verbatim>\<open>tcp/adb_tcp_device.rs\<close>.
  The bus (\<^verbatim>\<open>nusb\<close>) and the bridge to IOKit are parameters: what they list, which interface an open gives and
  with which status each transfer ends. \<open>ADBMessageDevice::new\<close> over an opened transport is a parameter of the
  constructors (\<open>device_connect\<close> of \<open>Message_Device\<close> is its body). Poisoned mutexes are left out.
\<close>

section \<open>What is attached\<close>

record described_device = usb_device +
  ud_description :: bytes

record bus_interface =
  bi_class :: u8
  bi_subclass :: u8
  bi_protocol :: u8

record bus_device =
  bd_vendor :: u16
  bd_product :: u16
  bd_serial :: "bytes option"
  bd_manufacturer :: "bytes option"
  bd_product_string :: "bytes option"
  bd_interfaces :: "bus_interface list"

definition is_adb_device :: "bus_device \<Rightarrow> bool" where
  "is_adb_device d =
     list_ex (\<lambda>i. bi_class i = 0xff \<and> bi_subclass i = 0x42 \<and> bi_protocol i = 0x01) (bd_interfaces d)"

record mac_device_info =
  md_vendor :: u16
  md_product :: u16
  md_location :: u64
  md_registry :: u64

definition nonzero :: "u64 \<Rightarrow> u64 option" where
  "nonzero x = (if x \<noteq> 0 then Some x else None)"

definition mac_device :: "mac_device_info \<Rightarrow> described_device" where
  "mac_device d = \<lparr>ud_vendor = md_vendor d, ud_serial = None, ud_product = md_product d,
     ud_location = nonzero (md_location d), ud_registry = nonzero (md_registry d), ud_description = []\<rparr>"

fun flatten :: "'a option list \<Rightarrow> 'a list" where
  "flatten [] = []"
| "flatten (None # xs) = flatten xs"
| "flatten (Some x # xs) = x # flatten xs"

definition nusb_device :: "bus_device \<Rightarrow> described_device" where
  "nusb_device d = \<lparr>ud_vendor = bd_vendor d, ud_serial = bd_serial d, ud_product = bd_product d,
     ud_location = None, ud_registry = None,
     ud_description = join (ascii '' '') (flatten [bd_manufacturer d, bd_product_string d])\<rparr>"

text \<open>The two builds: on macOS the bridge gives a status and, unless its pointer is null, an array.\<close>

datatype platform =
    MacOS u32 "mac_device_info list option"
  | Nusb "bus_device list result"

definition find_all_connected_adb_devices :: "platform \<Rightarrow> described_device list result" where
  "find_all_connected_adb_devices p = (case p of
       MacOS status found \<Rightarrow>
         if status \<noteq> 0 then Err (ADBRequestFailed (ascii ''macOS IOKit USB discovery failed ('' @ show_hex8 status @ ascii '')''))
         else Ok (case found of None \<Rightarrow> [] | Some entries \<Rightarrow> map mac_device entries)
     | Nusb found \<Rightarrow> bind_outcome found (\<lambda>ds. Ok (map nusb_device (filter is_adb_device ds))))"

definition get_single_connected_adb_device :: "platform \<Rightarrow> described_device option result" where
  "get_single_connected_adb_device p = bind_outcome (find_all_connected_adb_devices p) (\<lambda>found. case found of
       [] \<Rightarrow> Ok None
     | [d] \<Rightarrow> Ok (Some d)
     | first # second # _ \<Rightarrow> Err (DeviceNotFound (ascii ''Found two Android devices '' @ hex4 (ud_vendor first) @ ascii '':''
         @ hex4 (ud_product first) @ ascii '' and '' @ hex4 (ud_vendor second) @ ascii '':'' @ hex4 (ud_product second))))"

section \<open>The transport\<close>

text \<open>An open interface: what its reads give, the statuses of its next writes (then 0) and the transfers it took.\<close>

record usb_pipe =
  up_reads :: "usb_read list"
  up_writes :: "u32 list"
  up_taken :: "bytes list"

record usb_transport =
  ut_vendor :: u16
  ut_product :: u16
  ut_location :: u64
  ut_registry :: u64
  ut_pipe :: "usb_pipe option"

definition new_from_device :: "bus_device \<Rightarrow> usb_transport result" where
  "new_from_device d =
     (if \<not> is_adb_device d then Err USBNoDescriptorFound
      else Ok \<lparr>ut_vendor = bd_vendor d, ut_product = bd_product d, ut_location = 0, ut_registry = 0, ut_pipe = None\<rparr>)"

definition new_at_attachment :: "platform \<Rightarrow> u16 \<Rightarrow> u16 \<Rightarrow> u64 \<Rightarrow> u64 \<Rightarrow> usb_transport result" where
  "new_at_attachment p vendor_id product_id location_id registry_id = (case p of
       MacOS _ _ \<Rightarrow> Ok \<lparr>ut_vendor = vendor_id, ut_product = product_id, ut_location = location_id,
         ut_registry = registry_id, ut_pipe = None\<rparr>
     | Nusb found \<Rightarrow> bind_outcome found (\<lambda>ds.
         bind_outcome (ok_or (USBDeviceNotFound vendor_id product_id)
           (find (\<lambda>d. bd_vendor d = vendor_id \<and> bd_product d = product_id \<and> is_adb_device d) ds)) new_from_device))"

definition new_at_location :: "platform \<Rightarrow> u16 \<Rightarrow> u16 \<Rightarrow> u64 \<Rightarrow> usb_transport result" where
  "new_at_location p vendor_id product_id location_id = new_at_attachment p vendor_id product_id location_id 0"

definition usb_transport_new :: "platform \<Rightarrow> u16 \<Rightarrow> u16 \<Rightarrow> usb_transport result" where
  "usb_transport_new p vendor_id product_id = new_at_location p vendor_id product_id 0"

text \<open>A \<open>Duration\<close> in nanoseconds.\<close>

definition DURATION_MAX :: nat where "DURATION_MAX = (2 ^ 64 - 1) * 10 ^ 9 + 999999999"

definition timeout_ms :: "nat \<Rightarrow> u32" where
  "timeout_ms timeout = (if timeout = DURATION_MAX then 0 else word_of_nat (min (timeout div 10 ^ 6) (2 ^ 32 - 1)))"

definition DEFAULT_READ_TIMEOUT :: nat where "DEFAULT_READ_TIMEOUT = (2 ^ 64 - 1) * 10 ^ 9"
definition DEFAULT_WRITE_TIMEOUT :: nat where "DEFAULT_WRITE_TIMEOUT = 2 * 10 ^ 9"

definition usb_not_open :: rust_error where
  "usb_not_open = IOError NotConnected (Message (ascii ''ADB USB interface is not open''))"

definition write_bulk_data :: "bytes \<Rightarrow> (usb_transport, unit) io" where
  "write_bulk_data data t = (case ut_pipe t of
       None \<Rightarrow> (Err usb_not_open, t)
     | Some p \<Rightarrow> (case u32_try_from (length data) of
           Ok _ \<Rightarrow> (case up_writes p of
               [] \<Rightarrow> (Ok (), t\<lparr>ut_pipe := Some (p\<lparr>up_taken := up_taken p @ [data]\<rparr>)\<rparr>)
             | status # later \<Rightarrow>
                 if status = 0 then (Ok (), t\<lparr>ut_pipe := Some (p\<lparr>up_writes := later, up_taken := up_taken p @ [data]\<rparr>)\<rparr>)
                 else (Err (iokit_error ''write'' status), t\<lparr>ut_pipe := Some (p\<lparr>up_writes := later\<rparr>)\<rparr>))
         | Err e \<Rightarrow> (Err e, t)
         | Panic \<Rightarrow> (Panic, t)))"

definition usb_write_message :: "transport_message \<Rightarrow> (usb_transport, unit) io" where
  "usb_write_message m = seq_io (write_bulk_data (header_encode (tm_header m)))
     (if tm_payload m \<noteq> [] then write_bulk_data (tm_payload m) else lift (Ok ()))"

definition usb_transport_read :: "usb_transport \<Rightarrow> (transport_message result \<times> usb_transport) option" where
  "usb_transport_read t = (case ut_pipe t of
       None \<Rightarrow> Some (Err usb_not_open, t)
     | Some p \<Rightarrow> map_option (\<lambda>(r, reads). (r, t\<lparr>ut_pipe := Some (p\<lparr>up_reads := reads\<rparr>)\<rparr>)) (usb_read_message (up_reads p)))"

text \<open>\<open>open_interface\<close> is what \<open>macadb_open\<close> does: a status and, unless the pointer stays null, an interface.\<close>

definition usb_connect :: "bool \<Rightarrow> (u16 \<Rightarrow> u16 \<Rightarrow> u64 \<Rightarrow> u64 \<Rightarrow> u32 \<times> usb_pipe option) \<Rightarrow> (usb_transport, unit) io" where
  "usb_connect macos open_interface t =
     (if \<not> macos then (Err (request_failed ''direct USB transport currently requires macOS''), t)
      else if ut_pipe t \<noteq> None then (Ok (), t)
      else case open_interface (ut_vendor t) (ut_product t) (ut_location t) (ut_registry t) of
          (status, Some p) \<Rightarrow>
            if status \<noteq> 0 then (Err (iokit_error ''open'' status), t) else (Ok (), t\<lparr>ut_pipe := Some p\<rparr>)
        | (status, None) \<Rightarrow> (Err (iokit_error ''open'' status), t))"

definition usb_disconnect :: "(usb_transport, unit) io" where
  "usb_disconnect t =
     (let t' = (if ut_pipe t \<noteq> None
                then (case message_try_new MC_Clse 0 0 [] of Ok m \<Rightarrow> snd (usb_write_message m t) | _ \<Rightarrow> t)
                else t)
      in (Ok (), t'\<lparr>ut_pipe := None\<rparr>))"

section \<open>The devices\<close>

definition get_default_adb_key_path :: "bytes option \<Rightarrow> bytes option \<Rightarrow> (bytes \<Rightarrow> bytes \<Rightarrow> bytes) \<Rightarrow> bytes result" where
  "get_default_adb_key_path android_user_home home path_join =
     bind_outcome (ok_or NoHomeDirectory (case android_user_home of
            Some h \<Rightarrow> Some (path_join h (ascii ''android''))
          | None \<Rightarrow> map_option (\<lambda>h. path_join h (ascii ''.android'')) home))
       (\<lambda>d. Ok (path_join d (ascii ''adbkey'')))"

record 'd adb_usb_device =
  au_inner :: 'd
  au_vendor :: u16
  au_product :: u16

text \<open>\<open>new_device\<close> is \<open>ADBMessageDevice::new\<close>: it opens, connects and authenticates.\<close>

definition new_from_transport_inner ::
    "(usb_transport \<Rightarrow> bytes \<Rightarrow> 'd result) \<Rightarrow> usb_transport \<Rightarrow> bytes \<Rightarrow> 'd adb_usb_device result" where
  "new_from_transport_inner new_device t key_path =
     bind_outcome (new_device t key_path) (\<lambda>d. Ok \<lparr>au_inner = d, au_vendor = ut_vendor t, au_product = ut_product t\<rparr>)"

definition new_from_transport ::
    "bytes result \<Rightarrow> (usb_transport \<Rightarrow> bytes \<Rightarrow> 'd result) \<Rightarrow> usb_transport \<Rightarrow> bytes option \<Rightarrow> 'd adb_usb_device result" where
  "new_from_transport default_path new_device t key_path =
     bind_outcome (case key_path of Some k \<Rightarrow> Ok k | None \<Rightarrow> default_path) (new_from_transport_inner new_device t)"

definition usb_with_key ::
    "platform \<Rightarrow> (usb_transport \<Rightarrow> bytes \<Rightarrow> 'd result) \<Rightarrow> u16 \<Rightarrow> u16 \<Rightarrow> bytes \<Rightarrow> 'd adb_usb_device result" where
  "usb_with_key p new_device vendor_id product_id key_path =
     bind_outcome (usb_transport_new p vendor_id product_id) (\<lambda>t. new_from_transport_inner new_device t key_path)"

definition usb_with_key_at_location ::
    "platform \<Rightarrow> (usb_transport \<Rightarrow> bytes \<Rightarrow> 'd result) \<Rightarrow> u16 \<Rightarrow> u16 \<Rightarrow> u64 \<Rightarrow> bytes \<Rightarrow> 'd adb_usb_device result" where
  "usb_with_key_at_location p new_device vendor_id product_id location_id key_path =
     bind_outcome (new_at_location p vendor_id product_id location_id) (\<lambda>t. new_from_transport_inner new_device t key_path)"

definition usb_with_key_at_attachment ::
    "platform \<Rightarrow> (usb_transport \<Rightarrow> bytes \<Rightarrow> 'd result) \<Rightarrow> u16 \<Rightarrow> u16 \<Rightarrow> u64 \<Rightarrow> u64 \<Rightarrow> bytes \<Rightarrow> 'd adb_usb_device result" where
  "usb_with_key_at_attachment p new_device vendor_id product_id location_id registry_id key_path =
     bind_outcome (new_at_attachment p vendor_id product_id location_id registry_id)
       (\<lambda>t. new_from_transport_inner new_device t key_path)"

definition usb_device_new ::
    "platform \<Rightarrow> (usb_transport \<Rightarrow> bytes \<Rightarrow> 'd result) \<Rightarrow> bytes result \<Rightarrow> u16 \<Rightarrow> u16 \<Rightarrow> 'd adb_usb_device result" where
  "usb_device_new p new_device default_path vendor_id product_id =
     bind_outcome default_path (usb_with_key p new_device vendor_id product_id)"

definition autodetect_with_key ::
    "platform \<Rightarrow> (usb_transport \<Rightarrow> bytes \<Rightarrow> 'd result) \<Rightarrow> bytes \<Rightarrow> 'd adb_usb_device result" where
  "autodetect_with_key p new_device key_path = bind_outcome (get_single_connected_adb_device p) (\<lambda>found. case found of
       Some d \<Rightarrow> usb_with_key_at_attachment p new_device (ud_vendor d) (ud_product d)
         (or_zero (ud_location d)) (or_zero (ud_registry d)) key_path
     | None \<Rightarrow> Err (DeviceNotFound (ascii ''cannot find USB devices matching the signature of an ADB device'')))"

definition usb_autodetect ::
    "platform \<Rightarrow> (usb_transport \<Rightarrow> bytes \<Rightarrow> 'd result) \<Rightarrow> bytes result \<Rightarrow> 'd adb_usb_device result" where
  "usb_autodetect p new_device default_path = bind_outcome default_path (autodetect_with_key p new_device)"

text \<open>\<open>new_tcp\<close> is \<open>ADBMessageDevice::new\<close> over the transport to an address.\<close>

definition tcp_with_key :: "('a \<Rightarrow> bytes \<Rightarrow> 'd result) \<Rightarrow> 'a \<Rightarrow> bytes \<Rightarrow> 'd result" where
  "tcp_with_key new_tcp address key_path = bind_outcome (new_tcp address key_path) Ok"

definition tcp_device_new :: "('a \<Rightarrow> bytes \<Rightarrow> 'd result) \<Rightarrow> bytes result \<Rightarrow> 'a \<Rightarrow> 'd result" where
  "tcp_device_new new_tcp default_path address = bind_outcome default_path (tcp_with_key new_tcp address)"

text \<open>
  \<open>serve_forward\<close> with what it has told whoever waits for it to be ready: when it ends with an error, it tells that too.
\<close>

definition serve_forward_ready :: "unit result \<times> (unit, bytes) outcome list \<Rightarrow> unit result \<times> (unit, bytes) outcome list" where
  "serve_forward_ready served = (case served of (r, told) \<Rightarrow>
     (r, told @ (case r of Err e \<Rightarrow> [Err (error_text e)] | _ \<Rightarrow> [])))"

section \<open>The only device is opened, or none\<close>

lemma get_single_Some:
  "get_single_connected_adb_device p = Ok (Some d) \<longleftrightarrow> find_all_connected_adb_devices p = Ok [d]"
  unfolding get_single_connected_adb_device_def
  by (cases "find_all_connected_adb_devices p") (auto split: list.splits)

lemma new_at_attachment_Ok:
  assumes "new_at_attachment p v i l r = Ok t" and "\<And>ds. p = Nusb ds \<Longrightarrow> l = 0 \<and> r = 0"
  shows "(ut_vendor t, ut_product t, ut_location t, ut_registry t) = (v, i, l, r) \<and> ut_pipe t = None"
proof (cases p)
  case (Nusb found)
  with assms show ?thesis
    by (auto simp: new_at_attachment_def new_from_device_def bind_outcome_eq_Ok ok_or_eq_Ok find_Some_iff split: if_splits)
qed (use assms in \<open>auto simp: new_at_attachment_def\<close>)

lemma nusb_has_no_location:
  assumes "find_all_connected_adb_devices (Nusb found) = Ok ds" and "d \<in> set ds"
  shows "or_zero (ud_location d) = 0 \<and> or_zero (ud_registry d) = 0"
  using assms by (auto simp: find_all_connected_adb_devices_def bind_outcome_eq_Ok nusb_device_def or_zero_def)

text \<open>
  A device that is detected is the only one attached with an interface of ADB, and it is opened where it was
  found: at its location and its attachment, so that another device plugged in since is not taken for it.
\<close>

theorem autodetect_opens_the_only_device:
  assumes "autodetect_with_key p new_device key_path = Ok d"
  shows "\<exists>x t. find_all_connected_adb_devices p = Ok [x] \<and> new_device t key_path = Ok (au_inner d) \<and>
    (au_vendor d, au_product d) = (ud_vendor x, ud_product x) \<and>
    (ut_vendor t, ut_product t, ut_location t, ut_registry t)
      = (ud_vendor x, ud_product x, or_zero (ud_location x), or_zero (ud_registry x)) \<and> ut_pipe t = None"
proof -
  from assms obtain x where x: "find_all_connected_adb_devices p = Ok [x]"
    and "usb_with_key_at_attachment p new_device (ud_vendor x) (ud_product x)
      (or_zero (ud_location x)) (or_zero (ud_registry x)) key_path = Ok d"
    by (auto simp: autodetect_with_key_def bind_outcome_eq_Ok get_single_Some split: option.splits)
  then obtain t where t: "new_at_attachment p (ud_vendor x) (ud_product x) (or_zero (ud_location x)) (or_zero (ud_registry x)) = Ok t"
    and d: "new_device t key_path = Ok (au_inner d)" "au_vendor d = ut_vendor t" "au_product d = ut_product t"
    by (auto simp: usb_with_key_at_attachment_def new_from_transport_inner_def bind_outcome_eq_Ok)
  have "or_zero (ud_location x) = 0 \<and> or_zero (ud_registry x) = 0" if "p = Nusb found" for found
    using nusb_has_no_location [of found "[x]" x] x that by simp
  from new_at_attachment_Ok [OF t this] x d show ?thesis by auto
qed

definition phone :: bus_device where
  "phone = \<lparr>bd_vendor = 0x18d1, bd_product = 0x4ee7, bd_serial = None, bd_manufacturer = Some (ascii ''Google''),
     bd_product_string = Some (ascii ''Pixel''), bd_interfaces = [\<lparr>bi_class = 0xff, bi_subclass = 0x42, bi_protocol = 1\<rparr>]\<rparr>"

definition keyboard :: bus_device where
  "keyboard = phone\<lparr>bd_product := 1, bd_interfaces := [\<lparr>bi_class = 3, bi_subclass = 1, bi_protocol = 1\<rparr>]\<rparr>"

theorem autodetect_opens_the_only_device_witness:
  "\<exists>d x. autodetect_with_key (Nusb (Ok [keyboard, phone])) (\<lambda>t k. Ok (ut_product t, k)) (ascii ''adbkey'') = Ok d \<and>
    find_all_connected_adb_devices (Nusb (Ok [keyboard, phone])) = Ok [x] \<and> ud_description x = ascii ''Google Pixel'' \<and>
    au_inner d = (0x4ee7, ascii ''adbkey'')"
proof -
  let ?p = "Nusb (Ok [keyboard, phone])" and ?d = "\<lparr>au_inner = (0x4ee7, ascii ''adbkey''), au_vendor = 0x18d1, au_product = 0x4ee7\<rparr>"
  have k: "is_adb_device phone" "\<not> is_adb_device keyboard" by (simp_all add: is_adb_device_def keyboard_def phone_def)
  then have all: "find_all_connected_adb_devices ?p = Ok [nusb_device phone]"
    by (simp add: find_all_connected_adb_devices_def)
  then have auto: "autodetect_with_key ?p (\<lambda>t k. Ok (ut_product t, k)) (ascii ''adbkey'') = Ok ?d" using k
    by (simp add: autodetect_with_key_def get_single_connected_adb_device_def usb_with_key_at_attachment_def
        new_at_attachment_def new_from_device_def new_from_transport_inner_def nusb_device_def phone_def keyboard_def)
  from autodetect_opens_the_only_device [OF auto] auto all show ?thesis
    by (auto simp: nusb_device_def phone_def)
qed

section \<open>Messages over the cable\<close>

fun usb_send :: "transport_message list \<Rightarrow> (usb_transport, unit) io" where
  "usb_send [] = lift (Ok ())"
| "usb_send (m # ms) = seq_io (usb_write_message m) (usb_send ms)"

fun usb_receive :: "nat \<Rightarrow> usb_transport \<Rightarrow> (transport_message list result \<times> usb_transport) option" where
  "usb_receive 0 t = Some (Ok [], t)"
| "usb_receive (Suc n) t = (case usb_transport_read t of
       Some (Ok m, t') \<Rightarrow> map_option (\<lambda>(r, t''). (bind_outcome r (\<lambda>ms. Ok (m # ms)), t'')) (usb_receive n t')
     | Some (Err e, t') \<Rightarrow> Some (Err e, t')
     | Some (Panic, t') \<Rightarrow> Some (Panic, t')
     | None \<Rightarrow> None)"

lemma write_bulk_data_cases:
  assumes "ut_pipe t = Some p" and "length data < 2 ^ 32"
  shows "\<exists>r t' p'. write_bulk_data data t = (r, t') \<and> ut_pipe t' = Some p' \<and>
    (case r of Ok _ \<Rightarrow> up_taken p' = up_taken p @ [data] | Err _ \<Rightarrow> up_taken p' = up_taken p | Panic \<Rightarrow> False)"
  using assms by (auto simp: write_bulk_data_def split: list.splits)

lemma usb_write_message_cases:
  assumes "ut_pipe t = Some p" and "length (tm_payload m) < 2 ^ 32"
  shows "\<exists>r t' p'. usb_write_message m t = (r, t') \<and> ut_pipe t' = Some p' \<and>
    (case r of Ok _ \<Rightarrow> concat (up_taken p') = concat (up_taken p) @ message_bytes m
     | Err _ \<Rightarrow> up_taken p' = up_taken p \<or> up_taken p' = up_taken p @ [header_encode (tm_header m)] | Panic \<Rightarrow> False)"
proof -
  have "length (header_encode (tm_header m)) < 2 ^ 32" by simp
  from write_bulk_data_cases [OF assms(1) this] obtain r t1 p1 where
    w: "write_bulk_data (header_encode (tm_header m)) t = (r, t1)" "ut_pipe t1 = Some p1"
    "case r of Ok _ \<Rightarrow> up_taken p1 = up_taken p @ [header_encode (tm_header m)] | Err _ \<Rightarrow> up_taken p1 = up_taken p | Panic \<Rightarrow> False"
    by blast
  from write_bulk_data_cases [OF w(2) assms(2)] w show ?thesis
    by (cases r) (auto simp: usb_write_message_def seq_io_def bind_io_def lift_def message_bytes_def split: outcome.splits)
qed

lemma usb_send_Ok:
  assumes "ut_pipe t = Some p" and "\<forall>m \<in> set ms. sound_message m" and "usb_send ms t = (Ok u, t')"
  shows "\<exists>p'. ut_pipe t' = Some p' \<and> concat (up_taken p') = concat (up_taken p) @ concat (map message_bytes ms)"
  using assms
proof (induction ms arbitrary: t p)
  case (Cons m ms)
  from Cons.prems(2) have "length (tm_payload m) < 2 ^ 32"
    using unat_less_u32 [of "mh_data_length (tm_header m)"] by (simp add: sound_message_def)
  from usb_write_message_cases [OF Cons.prems(1) this] obtain r t1 p1 where
    w: "usb_write_message m t = (r, t1)" "ut_pipe t1 = Some p1"
    "case r of Ok _ \<Rightarrow> concat (up_taken p1) = concat (up_taken p) @ message_bytes m
     | Err _ \<Rightarrow> up_taken p1 = up_taken p \<or> up_taken p1 = up_taken p @ [header_encode (tm_header m)] | Panic \<Rightarrow> False" by blast
  then obtain u1 where r: "r = Ok u1" using Cons.prems(3) by (cases r) (auto simp: seq_io_def bind_io_def)
  with w Cons.prems(3) have "usb_send ms t1 = (Ok u, t')" by (simp add: seq_io_def bind_io_def)
  from Cons.IH [OF w(2) _ this] Cons.prems(2) w(3) r show ?case by auto
qed (auto simp: lift_def)

lemma usb_receive_all:
  assumes "ut_pipe t = Some p" and "\<forall>m \<in> set ms. sound_message m" and "usb_flowing (up_reads p)"
    and "usb_bytes (up_reads p) = concat (map message_bytes ms) @ rest"
  shows "\<exists>t' p'. usb_receive (length ms) t = Some (Ok ms, t') \<and> ut_pipe t' = Some p' \<and> usb_bytes (up_reads p') = rest"
  using assms
proof (induction ms arbitrary: t p)
  case (Cons m ms)
  from Cons.prems(2) have m: "sound_message m" by simp
  have "usb_bytes (up_reads p) = message_bytes m @ (concat (map message_bytes ms) @ rest)" using Cons.prems(4) by simp
  with usb_read_back [OF m Cons.prems(3)] obtain reads where
    r: "usb_read_message (up_reads p) = Some (Ok m, reads)" "usb_bytes reads = concat (map message_bytes ms) @ rest" "usb_flowing reads"
    by blast
  let ?t = "t\<lparr>ut_pipe := Some (p\<lparr>up_reads := reads\<rparr>)\<rparr>"
  have "usb_transport_read t = Some (Ok m, ?t)" using Cons.prems(1) r(1) by (simp add: usb_transport_read_def)
  with Cons.IH [of ?t "p\<lparr>up_reads := reads\<rparr>"] Cons.prems(2) r(2,3) show ?case by auto
qed auto

text \<open>
  The messages one side wrote are those the other side reads, in whatever transfers the bus cuts the bytes;
  a write that fails has sent nothing of its message or only its header.
\<close>

theorem usb_messages_cross:
  assumes "ut_pipe t = Some p" and "up_taken p = []" and "\<forall>m \<in> set ms. sound_message m" and "usb_send ms t = (Ok u, t')"
    and "ut_pipe t' = Some p'" and "ut_pipe other = Some q" and "usb_flowing (up_reads q)"
    and "usb_bytes (up_reads q) = concat (up_taken p')"
  shows "\<exists>other'. usb_receive (length ms) other = Some (Ok ms, other')"
proof -
  from usb_send_Ok [OF assms(1,3,4)] assms(2,5,8) have "usb_bytes (up_reads q) = concat (map message_bytes ms) @ []" by auto
  from usb_receive_all [OF assms(6,3,7) this] show ?thesis by blast
qed

section \<open>What the timeouts become\<close>

text \<open>
  Only \<open>Duration::MAX\<close> is sent as no timeout, and the default of a read is one second less: it ends after 49 days.
  A timeout below a millisecond is sent as 0, which to the bridge is no timeout at all.
\<close>

lemma default_read_times_out: "timeout_ms DEFAULT_READ_TIMEOUT = 2 ^ 32 - 1"
  by (simp add: timeout_ms_def DEFAULT_READ_TIMEOUT_def DURATION_MAX_def)

lemma short_timeout_is_none: "t < 10 ^ 6 \<Longrightarrow> timeout_ms t = 0"
  by (simp add: timeout_ms_def)

end
