(* ===== verification/Saved_Addresses.thy ===== *)
theory Saved_Addresses
  imports Key_Store Cli_Wireless
begin

text \<open>
  The saved addresses of wireless devices, \<^verbatim>\<open>update_wireless_endpoints\<close> and \<^verbatim>\<open>publish_wireless_endpoints\<close> of
  \<^verbatim>\<open>adb_cli/src/compat.rs\<close>, system call by system call: any number of processes change the file at the same time,
  any call may fail, and a process may die between any two.
\<close>

section \<open>The file and its replacement\<close>

definition ENDPOINTS :: bytes where
  "ENDPOINTS = ascii ''wireless-endpoints''"

definition endpoints_temporary :: "nat \<Rightarrow> u64 \<Rightarrow> bytes" where
  "endpoints_temporary pid sequence =
     ascii ''.wireless-endpoints.'' @ show_nat pid @ ascii ''.'' @ show_nat (unat sequence) @ ascii ''.tmp''"

definition rename_to :: "fault \<Rightarrow> bytes \<Rightarrow> bytes \<Rightarrow> directory \<Rightarrow> unit result \<times> directory" where
  "rename_to x old new d = (case (x, entries d old) of
      (Fails k _, _) \<Rightarrow> (Err (IOError k Os_Error), d)
    | (Fine, None) \<Rightarrow> (Err (IOError NotFound Os_Error), d)
    | (Fine, Some i) \<Rightarrow> (Ok (), d\<lparr>entries := (entries d)(old := None, new := Some i)\<rparr>))"

definition saved_endpoints :: "(bytes \<Rightarrow> 'a option) \<Rightarrow> fault \<Rightarrow> directory \<Rightarrow> 'a set result" where
  "saved_endpoints parse x d = (case read_string x ENDPOINTS d of
      Err (IOError NotFound _) \<Rightarrow> Ok {}
    | Err e \<Rightarrow> Err e
    | Panic \<Rightarrow> Panic
    | Ok saved \<Rightarrow> Ok (wireless_endpoints parse saved))"

section \<open>One update\<close>

text \<open>
  Where an update is: before it has the lock, before it reads, with the set it will write before it opens a
  temporary file, with the lines it still has to write, before it syncs that file, before it renames it, before it
  syncs the directory, with a temporary file to remove after a failure, back, or dead.
\<close>

datatype 'a update_call =
    Asking
  | Loading
  | Creating "'a set"
  | Filling "'a set" bytes nat "'a list"
  | Flushing "'a set" bytes
  | Replacing "'a set" bytes
  | Settling bytes
  | Undoing rust_error bytes
  | Ended "unit result"
  | Dead

fun has_lock :: "'a update_call \<Rightarrow> bool" where
  "has_lock Asking \<longleftrightarrow> False"
| "has_lock (Ended r) \<longleftrightarrow> False"
| "has_lock Dead \<longleftrightarrow> False"
| "has_lock c \<longleftrightarrow> True"

definition unless_failed :: "unit result \<Rightarrow> bytes \<Rightarrow> 'a update_call \<Rightarrow> 'a update_call" where
  "unless_failed r temporary c = (case r of Ok u \<Rightarrow> c | Err e \<Rightarrow> Undoing e temporary | Panic \<Rightarrow> Ended Panic)"

text \<open>The steps under the lock; the counter of the process names the temporary files.\<close>

fun update_step :: "('a :: linorder \<Rightarrow> bytes) \<Rightarrow> (bytes \<Rightarrow> 'a option) \<Rightarrow> ('a set \<Rightarrow> 'a set) \<Rightarrow> nat \<Rightarrow> fault \<Rightarrow>
    'a update_call \<Rightarrow> directory \<times> u64 \<Rightarrow> 'a update_call \<times> directory \<times> u64" where
  "update_step name_of parse change pid x Loading (d, q) =
     ((case saved_endpoints parse x d of Ok as \<Rightarrow> Creating (change as) | Err e \<Rightarrow> Ended (Err e) | Panic \<Rightarrow> Ended Panic), d, q)"
| "update_step name_of parse change pid x (Creating as) (d, q) =
     (let temporary = endpoints_temporary pid q in
      case open_new x temporary d of
        (Ok i, d') \<Rightarrow> (Filling as temporary i (sorted_list_of_set as), d', q + 1)
      | (Err e, d') \<Rightarrow> (Undoing e temporary, d', q + 1)
      | (Panic, d') \<Rightarrow> (Ended Panic, d', q + 1))"
| "update_step name_of parse change pid x (Filling as temporary i []) (d, q) = (Flushing as temporary, d, q)"
| "update_step name_of parse change pid x (Filling as temporary i (a # rest)) (d, q) =
     (let (r, d') = append_to x i (name_of a @ [10]) d
      in (unless_failed r temporary (Filling as temporary i rest), d', q))"
| "update_step name_of parse change pid x (Flushing as temporary) (d, q) =
     ((case x of Fine \<Rightarrow> Replacing as temporary | Fails k _ \<Rightarrow> Undoing (IOError k Os_Error) temporary), d, q)"
| "update_step name_of parse change pid x (Replacing as temporary) (d, q) =
     (let (r, d') = rename_to x temporary ENDPOINTS d in (unless_failed r temporary (Settling temporary), d', q))"
| "update_step name_of parse change pid x (Settling temporary) (d, q) =
     ((case x of Fine \<Rightarrow> Ended (Ok ()) | Fails k _ \<Rightarrow> Undoing (IOError k Os_Error) temporary), d, q)"
| "update_step name_of parse change pid x (Undoing e temporary) (d, q) = (Ended (Err e), snd (unlink x temporary d), q)"
| "update_step name_of parse change pid x c (d, q) = (c, d, q)"

section \<open>All updates together\<close>

text \<open>\<open>sb_done\<close> is no state of the program: it notes whose new file took the place of the old one, in order.\<close>

record 'a saved_book =
  sb_dir :: directory
  sb_lock :: "nat option"
  sb_counters :: "nat \<Rightarrow> u64"
  sb_calls :: "nat \<Rightarrow> 'a update_call"
  sb_done :: "nat list"

definition settles :: "'a update_call \<Rightarrow> 'a update_call \<Rightarrow> bool" where
  "settles c c' \<longleftrightarrow> (case (c, c') of (Replacing _ _, Settling _) \<Rightarrow> True | _ \<Rightarrow> False)"

definition update_turn :: "('a :: linorder \<Rightarrow> bytes) \<Rightarrow> (bytes \<Rightarrow> 'a option) \<Rightarrow> (nat \<Rightarrow> 'a set \<Rightarrow> 'a set) \<Rightarrow> (nat \<Rightarrow> nat) \<Rightarrow>
    nat \<Rightarrow> fault \<Rightarrow> 'a saved_book \<Rightarrow> 'a saved_book" where
  "update_turn name_of parse change process_of t x s =
     (if sb_calls s t = Asking then
        (case x of
           Fails k _ \<Rightarrow> s\<lparr>sb_calls := (sb_calls s)(t := Ended (Err (IOError k Os_Error)))\<rparr>
         | Fine \<Rightarrow> if sb_lock s = None then s\<lparr>sb_lock := Some t, sb_calls := (sb_calls s)(t := Loading)\<rparr> else s)
      else if \<not> has_lock (sb_calls s t) then s
      else
        (let (c, d, q) = update_step name_of parse (change t) (process_of t) x (sb_calls s t) (sb_dir s, sb_counters s (process_of t))
         in s\<lparr>sb_dir := d, sb_lock := (if has_lock c then sb_lock s else None),
              sb_counters := (sb_counters s)(process_of t := q), sb_calls := (sb_calls s)(t := c),
              sb_done := sb_done s @ (if settles (sb_calls s t) c then [t] else [])\<rparr>))"

text \<open>A process that dies gives its lock back and leaves everything else as it is.\<close>

definition update_dies :: "nat \<Rightarrow> 'a saved_book \<Rightarrow> 'a saved_book" where
  "update_dies t s = s\<lparr>sb_lock := (if has_lock (sb_calls s t) then None else sb_lock s), sb_calls := (sb_calls s)(t := Dead)\<rparr>"

definition book_start :: "directory \<Rightarrow> 'a saved_book" where
  "book_start d = \<lparr>sb_dir = d, sb_lock = None, sb_counters = (\<lambda>_. 0), sb_calls = (\<lambda>_. Asking), sb_done = []\<rparr>"

text \<open>A file is reported as not found only when it is not there: no other failure looks like it.\<close>

definition honest :: "fault \<Rightarrow> bool" where
  "honest x \<longleftrightarrow> (case x of Fine \<Rightarrow> True | Fails k _ \<Rightarrow> k \<noteq> NotFound)"

inductive book_reachable :: "('a :: linorder \<Rightarrow> bytes) \<Rightarrow> (bytes \<Rightarrow> 'a option) \<Rightarrow> (nat \<Rightarrow> 'a set \<Rightarrow> 'a set) \<Rightarrow> (nat \<Rightarrow> nat) \<Rightarrow>
    directory \<Rightarrow> 'a saved_book \<Rightarrow> bool"
  for name_of parse change process_of d where
  start: "book_reachable name_of parse change process_of d (book_start d)"
| turn: "book_reachable name_of parse change process_of d s \<Longrightarrow> honest x \<Longrightarrow>
    book_reachable name_of parse change process_of d (update_turn name_of parse change process_of t x s)"
| dies: "book_reachable name_of parse change process_of d s \<Longrightarrow> book_reachable name_of parse change process_of d (update_dies t s)"

section \<open>No address is lost\<close>

text \<open>What is saved in a directory.\<close>

definition recorded_in :: "(bytes \<Rightarrow> 'a option) \<Rightarrow> directory \<Rightarrow> 'a set" where
  "recorded_in parse d = (case contents d ENDPOINTS of None \<Rightarrow> {} | Some saved \<Rightarrow> wireless_endpoints parse saved)"

fun update_ok :: "('a :: linorder \<Rightarrow> bytes) \<Rightarrow> (bytes \<Rightarrow> 'a option) \<Rightarrow> ('a set \<Rightarrow> 'a set) \<Rightarrow> bool \<Rightarrow> directory \<Rightarrow> 'a update_call \<Rightarrow> bool" where
  "update_ok name_of parse change over d Asking \<longleftrightarrow> \<not> over"
| "update_ok name_of parse change over d Loading \<longleftrightarrow> \<not> over"
| "update_ok name_of parse change over d (Creating as) \<longleftrightarrow> \<not> over \<and> as = change (recorded_in parse d)"
| "update_ok name_of parse change over d (Filling as n i rest) \<longleftrightarrow> \<not> over \<and> as = change (recorded_in parse d) \<and> n \<noteq> ENDPOINTS \<and>
    entries d n = Some i \<and> entries d ENDPOINTS \<noteq> Some i \<and>
    content d i @ concat (map (\<lambda>a. name_of a @ [10]) rest) = endpoints_text name_of as"
| "update_ok name_of parse change over d (Flushing as n) \<longleftrightarrow> \<not> over \<and> as = change (recorded_in parse d) \<and> n \<noteq> ENDPOINTS \<and>
    contents d n = Some (endpoints_text name_of as)"
| "update_ok name_of parse change over d (Replacing as n) \<longleftrightarrow> \<not> over \<and> as = change (recorded_in parse d) \<and> n \<noteq> ENDPOINTS \<and>
    contents d n = Some (endpoints_text name_of as)"
| "update_ok name_of parse change over d (Settling n) \<longleftrightarrow> over \<and> n \<noteq> ENDPOINTS"
| "update_ok name_of parse change over d (Undoing e n) \<longleftrightarrow> n \<noteq> ENDPOINTS"
| "update_ok name_of parse change over d (Ended (Ok u)) \<longleftrightarrow> over"
| "update_ok name_of parse change over d _ \<longleftrightarrow> True"

lemma endpoints_temporary_differs: "endpoints_temporary pid q \<noteq> ENDPOINTS"
  by (simp add: endpoints_temporary_def ENDPOINTS_def)

lemma finite_wireless_endpoints: "finite (wireless_endpoints parse saved)"
  by (simp add: wireless_endpoints_def)

lemma finite_recorded_in: "finite (recorded_in parse d)"
  by (simp add: recorded_in_def finite_wireless_endpoints split: option.split)

lemma saved_endpoints_recorded: "saved_endpoints parse x d = Ok as \<Longrightarrow> honest x \<Longrightarrow> as = recorded_in parse d"
  by (auto simp: saved_endpoints_def read_string_def recorded_in_def honest_def
      split: fault.splits option.splits if_splits io_kind.splits)

lemma recorded_in_cong: "contents d' ENDPOINTS = contents d ENDPOINTS \<Longrightarrow> recorded_in parse d' = recorded_in parse d"
  by (simp add: recorded_in_def)

text \<open>One step under the lock: the call stays in order, and the file changes only when the step settles the update.\<close>

definition good_update :: "('a :: linorder \<Rightarrow> bytes) \<Rightarrow> (bytes \<Rightarrow> 'a option) \<Rightarrow> ('a set \<Rightarrow> 'a set) \<Rightarrow> bool \<Rightarrow>
    'a update_call \<Rightarrow> directory \<Rightarrow> 'a update_call \<Rightarrow> directory \<Rightarrow> bool" where
  "good_update name_of parse change over c d c' d' \<longleftrightarrow> directory_wf d' \<and> c' \<noteq> Asking \<and>
     update_ok name_of parse change (over \<or> settles c c') d' c' \<and>
     recorded_in parse d' = (if settles c c' then change (recorded_in parse d) else recorded_in parse d) \<and>
     (settles c c' \<longrightarrow> \<not> over)"

lemma good_update_quiet:
  assumes "directory_wf d" and "c' \<noteq> Asking" and "update_ok name_of parse change over d c'" and "\<not> settles c c'"
  shows "good_update name_of parse change over c d c' d"
  using assms by (simp add: good_update_def)

lemma good_undo:
  assumes "directory_wf d'" and "contents d' ENDPOINTS = contents d ENDPOINTS" and "n \<noteq> ENDPOINTS"
  shows "good_update name_of parse change over c d (Undoing e n) d'"
  using assms recorded_in_cong [OF assms(2)] by (cases c) (simp_all add: good_update_def settles_def)

lemma read_good:
  assumes "directory_wf d" and "\<not> over" and "honest x"
  shows "good_update name_of parse change over Loading d (fst (update_step name_of parse change pid x Loading (d, q))) d"
  using assms saved_endpoints_recorded [of parse x d]
  by (intro good_update_quiet) (auto simp: settles_def split: outcome.split)

lemma create_good:
  assumes "directory_wf d" and "\<not> over" and as: "as = change (recorded_in parse d)"
    and step: "update_step name_of parse change pid x (Creating as) (d, q) = (c', d', q')"
  shows "good_update name_of parse change over (Creating as) d c' d'"
proof -
  let ?n = "endpoints_temporary pid q"
  obtain r d1 where o: "open_new x ?n d = (r, d1)" by fastforce
  then show ?thesis
  proof (cases rule: open_new_cases)
    case (new i)
    have free: "entries d m \<noteq> Some i" for m using assms(1) new(2) by (auto simp: directory_wf_def)
    have same: "contents d1 ENDPOINTS = contents d ENDPOINTS"
      using new endpoints_temporary_differs [of pid q] free [of ENDPOINTS]
      by (cases "entries d ENDPOINTS") (auto simp: contents_def)
    have wf: "directory_wf d1" using assms(1) new by (auto simp: directory_wf_def less_SucI)
    from step o new(1) have c: "c' = Filling as ?n i (sorted_list_of_set as)" "d' = d1" by (simp_all add: Let_def)
    show ?thesis unfolding c
      using wf new free endpoints_temporary_differs [of pid q] as assms(2) recorded_in_cong [OF same, of parse]
      by (simp add: good_update_def settles_def endpoints_text_def)
  next
    case (failed e)
    with step o have c: "c' = Undoing e ?n" "d' = d" by (simp_all add: Let_def)
    show ?thesis unfolding c by (intro good_undo assms(1) refl endpoints_temporary_differs)
  qed
qed

lemma fill_good:
  assumes "directory_wf d" and ok: "update_ok name_of parse change over d (Filling as n i (a # rest))"
    and step: "update_step name_of parse change pid x (Filling as n i (a # rest)) (d, q) = (c', d', q')"
  shows "good_update name_of parse change over (Filling as n i (a # rest)) d c' d'"
proof -
  obtain r d1 where o: "append_to x i (name_of a @ [10]) d = (r, d1)" by fastforce
  from ok have e: "entries d ENDPOINTS \<noteq> Some i" "n \<noteq> ENDPOINTS" by simp_all
  with o have d1: "entries d1 = entries d" "contents d1 ENDPOINTS = contents d ENDPOINTS" "directory_wf d1" using assms(1)
    by (cases "entries d ENDPOINTS"; auto simp: append_to_def contents_def directory_wf_def split: fault.splits)+
  show ?thesis
  proof (cases x)
    case Fine
    with o have r: "r = Ok ()" "content d1 i = content d i @ name_of a @ [10]" by (auto simp: append_to_def)
    with step o have c: "c' = Filling as n i rest" "d' = d1" by (simp_all add: unless_failed_def)
    show ?thesis unfolding c using ok d1 r(2) recorded_in_cong [OF d1(2), of parse]
      by (simp add: good_update_def settles_def)
  next
    case (Fails k m)
    with step o have c: "c' = Undoing (IOError k Os_Error) n" "d' = d1" by (auto simp: append_to_def unless_failed_def)
    show ?thesis unfolding c by (rule good_undo [OF d1(3,2) e(2)])
  qed
qed

lemma replace_good:
  assumes "address_text name_of parse" and "finite as" and "directory_wf d" and ok: "update_ok name_of parse change over d (Replacing as n)"
    and step: "update_step name_of parse change pid x (Replacing as n) (d, q) = (c', d', q')"
  shows "good_update name_of parse change over (Replacing as n) d c' d'"
proof (cases x)
  case Fine
  from ok obtain i where i: "entries d n = Some i" "content d i = endpoints_text name_of as" by (auto simp: contents_def)
  with step Fine have c: "c' = Settling n" "d' = d\<lparr>entries := (entries d)(n := None, ENDPOINTS := Some i)\<rparr>"
    by (simp_all add: rename_to_def unless_failed_def)
  then have "contents d' ENDPOINTS = Some (endpoints_text name_of as)" using i by (simp add: contents_def)
  then have "recorded_in parse d' = as" using endpoints_roundtrip [OF assms(1,2)] by (simp add: recorded_in_def)
  moreover have "directory_wf d'" using assms(3) i c(2) by (auto simp: directory_wf_def)
  ultimately show ?thesis using ok c by (simp add: good_update_def settles_def)
next
  case (Fails k m)
  with step have c: "c' = Undoing (IOError k Os_Error) n" "d' = d" by (auto simp: rename_to_def unless_failed_def)
  from ok have "n \<noteq> ENDPOINTS" by simp
  then show ?thesis unfolding c by (intro good_undo assms(3) refl)
qed

lemma unlink_keeps:
  assumes "directory_wf d" and "n \<noteq> ENDPOINTS"
  shows "directory_wf (snd (unlink x n d)) \<and> contents (snd (unlink x n d)) ENDPOINTS = contents d ENDPOINTS"
  using assms by (auto simp: unlink_def directory_wf_def contents_def split: fault.split option.split)

lemma update_step_good:
  assumes "address_text name_of parse" and change: "\<And>as. finite as \<Longrightarrow> finite (change as)" and "directory_wf d"
    and ok: "update_ok name_of parse change over d c" and "has_lock c" and "honest x"
    and step: "update_step name_of parse change pid x c (d, q) = (c', d', q')"
  shows "good_update name_of parse change over c d c' d'"
proof (cases c)
  case Loading
  with step have "c' = fst (update_step name_of parse change pid x Loading (d, q))" "d' = d" by auto
  with read_good [OF assms(3) _ assms(6), of over] ok Loading show ?thesis by simp
next
  case (Creating as)
  from ok Creating have "\<not> over" "as = change (recorded_in parse d)" by simp_all
  with create_good [OF assms(3), of over as change parse] step Creating show ?thesis by blast
next
  case (Filling as n i rest)
  show ?thesis
  proof (cases rest)
    case Nil
    with step Filling have c: "c' = Flushing as n" "d' = d" by simp_all
    show ?thesis unfolding c using ok Filling Nil assms(3)
      by (intro good_update_quiet) (simp_all add: settles_def contents_def)
  next
    case (Cons a more)
    with fill_good [OF assms(3)] ok step Filling show ?thesis by blast
  qed
next
  case (Flushing as n)
  from ok Flushing have facts: "\<not> over" "as = change (recorded_in parse d)" "n \<noteq> ENDPOINTS" "contents d n = Some (endpoints_text name_of as)"
    by simp_all
  show ?thesis
  proof (cases x)
    case Fine
    with step Flushing have c: "c' = Replacing as n" "d' = d" by simp_all
    show ?thesis unfolding c Flushing using facts assms(3) by (intro good_update_quiet) (simp_all add: settles_def)
  next
    case (Fails k m)
    with step Flushing have c: "c' = Undoing (IOError k Os_Error) n" "d' = d" by simp_all
    show ?thesis unfolding c by (rule good_undo [OF assms(3) refl facts(3)])
  qed
next
  case (Replacing as n)
  with ok have "as = change (recorded_in parse d)" by simp
  with change [OF finite_recorded_in [of parse d]] have "finite as" by (simp only:)
  with replace_good [OF assms(1) _ assms(3)] ok step Replacing show ?thesis by blast
next
  case (Settling n)
  from ok Settling have facts: "over" "n \<noteq> ENDPOINTS" by simp_all
  show ?thesis
  proof (cases x)
    case Fine
    with step Settling have c: "c' = Ended (Ok ())" "d' = d" by simp_all
    show ?thesis unfolding c Settling using facts assms(3) by (intro good_update_quiet) (simp_all add: settles_def)
  next
    case (Fails k m)
    with step Settling have c: "c' = Undoing (IOError k Os_Error) n" "d' = d" by simp_all
    show ?thesis unfolding c by (rule good_undo [OF assms(3) refl facts(2)])
  qed
next
  case (Undoing e n)
  with step have c: "c' = Ended (Err e)" "d' = snd (unlink x n d)" by simp_all
  from ok Undoing have "n \<noteq> ENDPOINTS" by simp
  from unlink_keeps [OF assms(3) this, of x] have k: "directory_wf d'" "contents d' ENDPOINTS = contents d ENDPOINTS"
    unfolding c by simp_all
  show ?thesis unfolding c(1) Undoing
    using k(1) recorded_in_cong [OF k(2), of parse] by (simp add: good_update_def settles_def)
qed (use assms(5) in simp_all)

text \<open>The invariant of all updates together.\<close>

definition book_ok :: "('a :: linorder \<Rightarrow> bytes) \<Rightarrow> (bytes \<Rightarrow> 'a option) \<Rightarrow> (nat \<Rightarrow> 'a set \<Rightarrow> 'a set) \<Rightarrow> directory \<Rightarrow> 'a saved_book \<Rightarrow> bool" where
  "book_ok name_of parse change d s \<longleftrightarrow> directory_wf (sb_dir s) \<and>
     recorded_in parse (sb_dir s) = fold change (sb_done s) (recorded_in parse d) \<and> distinct (sb_done s) \<and>
     (\<forall>t. has_lock (sb_calls s t) \<longleftrightarrow> sb_lock s = Some t) \<and>
     (\<forall>t. update_ok name_of parse (change t) (t \<in> set (sb_done s)) (sb_dir s) (sb_calls s t))"

lemma update_ok_resting: "\<not> has_lock c \<Longrightarrow> update_ok name_of parse change over d c \<Longrightarrow> update_ok name_of parse change' over d' c"
  by (cases "(name_of, parse, change, over, d, c)" rule: update_ok.cases) auto

lemma book_ok_turn:
  assumes "address_text name_of parse" and change: "\<And>t as. finite as \<Longrightarrow> finite (change t as)" and ok: "book_ok name_of parse change d s" and "honest x"
  shows "book_ok name_of parse change d (update_turn name_of parse change process_of t x s)"
proof (cases "has_lock (sb_calls s t)")
  case True
  obtain c d' q where step: "update_step name_of parse (change t) (process_of t) x (sb_calls s t) (sb_dir s, sb_counters s (process_of t)) = (c, d', q)"
    by (metis prod_cases3)
  let ?over = "t \<in> set (sb_done s)" and ?settled = "settles (sb_calls s t) c"
  from ok have inv: "directory_wf (sb_dir s)" "recorded_in parse (sb_dir s) = fold change (sb_done s) (recorded_in parse d)"
      "distinct (sb_done s)" "\<And>u. has_lock (sb_calls s u) \<longleftrightarrow> sb_lock s = Some u"
      "\<And>u. update_ok name_of parse (change u) (u \<in> set (sb_done s)) (sb_dir s) (sb_calls s u)"
    by (simp_all add: book_ok_def)
  from update_step_good [OF assms(1) change inv(1,5) True assms(4) step]
  have good: "directory_wf d'" "c \<noteq> Asking" "update_ok name_of parse (change t) (?over \<or> ?settled) d' c"
      "recorded_in parse d' = (if ?settled then change t (recorded_in parse (sb_dir s)) else recorded_in parse (sb_dir s))"
      "?settled \<Longrightarrow> \<not> ?over"
    by (auto simp: good_update_def)
  have t: "sb_lock s = Some t" using inv(4) True by blast
  then have rest: "\<not> has_lock (sb_calls s u)" if "u \<noteq> t" for u using inv(4) that by simp
  have turn: "update_turn name_of parse change process_of t x s = s\<lparr>sb_dir := d', sb_lock := (if has_lock c then sb_lock s else None),
      sb_counters := (sb_counters s)(process_of t := q), sb_calls := (sb_calls s)(t := c),
      sb_done := sb_done s @ (if ?settled then [t] else [])\<rparr>"
    using True by (auto simp: update_turn_def step)
  show ?thesis unfolding turn book_ok_def
    using good inv(2,3) t rest update_ok_resting [OF rest inv(5)] by auto
next
  case False
  have "t \<notin> set (sb_done s)" if "sb_calls s t = Asking"
    using ok that unfolding book_ok_def by (metis update_ok.simps(1))
  with False show ?thesis using ok by (cases x) (auto simp: update_turn_def book_ok_def)
qed

lemma book_ok_dies:
  assumes "book_ok name_of parse change d s"
  shows "book_ok name_of parse change d (update_dies t s)"
proof -
  have "\<not> has_lock (sb_calls s u)" if "u \<noteq> t" "has_lock (sb_calls s t)" for u
    using assms that by (auto simp: book_ok_def)
  with assms show ?thesis by (auto simp: update_dies_def book_ok_def)
qed

lemma book_ok_reachable:
  assumes "book_reachable name_of parse change process_of d s" and "address_text name_of parse"
    and "\<And>t as. finite as \<Longrightarrow> finite (change t as)" and "directory_wf d"
  shows "book_ok name_of parse change d s"
  using assms(1)
proof induction
  case start
  then show ?case using assms(4) by (simp add: book_ok_def book_start_def)
next
  case (turn s x t)
  with book_ok_turn [OF assms(2,3)] show ?case by simp
qed (rule book_ok_dies)

text \<open>
  C15: however the updates of the saved addresses interleave, fail or die, what is saved is what some order of the
  published updates makes of the first file: none is lost, an update that succeeded is among them, one that
  has not started is not, and the lock, when it is taken, is held by an update that can go on.
\<close>

theorem saved_addresses_are_never_lost:
  assumes "book_reachable name_of parse change process_of d s" and "address_text name_of parse"
    and "\<And>t as. finite as \<Longrightarrow> finite (change t as)" and "directory_wf d"
  shows "recorded_in parse (sb_dir s) = fold change (sb_done s) (recorded_in parse d) \<and> distinct (sb_done s) \<and>
    {t. \<exists>u. sb_calls s t = Ended (Ok u)} \<subseteq> set (sb_done s) \<and> {t. sb_calls s t = Asking} \<inter> set (sb_done s) = {} \<and>
    (sb_lock s = None \<or> (\<exists>t. sb_lock s = Some t \<and> has_lock (sb_calls s t)))"
proof -
  have ok: "book_ok name_of parse change d s" using book_ok_reachable [OF assms] .
  have each: "update_ok name_of parse (change t) (t \<in> set (sb_done s)) (sb_dir s) (sb_calls s t)" for t
    using ok by (simp add: book_ok_def)
  have "t \<in> set (sb_done s)" if "sb_calls s t = Ended (Ok u)" for t u using each [of t] that by simp
  moreover have "t \<notin> set (sb_done s)" if "sb_calls s t = Asking" for t using each [of t] that by simp
  ultimately show ?thesis using ok by (auto simp: book_ok_def)
qed

text \<open>The first update runs to its end while the second waits for the lock; the second then reads and dies.\<close>

definition two_updates :: "u16 saved_book" where
  "two_updates = update_dies 1 (fold (\<lambda>t. update_turn port_text port_parse (\<lambda>t. insert (5555 + of_nat t)) id t Fine)
     [0, 1, 0, 0, 0, 0, 0, 0, 0, 1, 1] (book_start empty_directory))"

lemma fold_book_reachable:
  "book_reachable name_of parse change p d s \<Longrightarrow>
    book_reachable name_of parse change p d (fold (\<lambda>t. update_turn name_of parse change p t Fine) ts s)"
proof (induction ts arbitrary: s)
  case (Cons t ts)
  have "honest Fine" by (simp add: honest_def)
  from Cons.IH [OF book_reachable.turn [OF Cons.prems this]] show ?case by simp
qed simp

lemma two_updates_done: "sb_done two_updates = [0]"
  by (simp add: two_updates_def update_turn_def book_start_def saved_endpoints_def read_string_def contents_def
      empty_directory_def open_new_def append_to_def rename_to_def unless_failed_def settles_def update_dies_def Let_def)

theorem saved_addresses_are_never_lost_witness:
  "recorded_in port_parse (sb_dir two_updates) = {5555} \<and> sb_lock two_updates = None"
proof -
  have reach: "book_reachable port_text port_parse (\<lambda>t. insert (5555 + of_nat t)) id empty_directory two_updates"
    unfolding two_updates_def by (intro book_reachable.dies fold_book_reachable book_reachable.start)
  have "directory_wf empty_directory" by (simp add: directory_wf_def empty_directory_def)
  from saved_addresses_are_never_lost [OF reach port_address_text _ this]
  have "recorded_in port_parse (sb_dir two_updates) = {5555}"
    by (simp add: two_updates_done recorded_in_def contents_def empty_directory_def)
  moreover have "sb_lock two_updates = None"
    by (simp add: two_updates_def update_turn_def book_start_def saved_endpoints_def read_string_def contents_def
        empty_directory_def open_new_def append_to_def rename_to_def unless_failed_def settles_def update_dies_def Let_def)
  ultimately show ?thesis ..
qed

text \<open>
  The rename is followed by a sync of the directory: when that fails the update is reported as failed, but what it
  wrote stays.
\<close>

lemma failed_update_is_kept:
  assumes "sb_calls s t = Settling n" and "t \<in> set (sb_done s)"
  shows "\<exists>e. sb_calls (update_turn name_of parse change process_of t y (update_turn name_of parse change process_of t (Fails k m) s)) t
      = Ended (Err e) \<and>
    t \<in> set (sb_done (update_turn name_of parse change process_of t y (update_turn name_of parse change process_of t (Fails k m) s)))"
  using assms by (simp add: update_turn_def)

end
