(* ===== verification/Stat_Extended.thy ===== *)
theory Stat_Extended
  imports Client_Models Cli_Wireless
begin

text \<open>
  The answer of the shell command \<^verbatim>\<open>stat\<close>, \<^verbatim>\<open>adb_client/src/models/adb_stat_extended_response.rs\<close>, and how it and the
  other entries of a device are displayed. The regular expressions of three of its lines and the parser and the
  display of dates are parameters.
\<close>

section \<open>Displaying entries\<close>

definition show_octal :: "u32 \<Rightarrow> bytes" where
  "show_octal w = ascii ''0o'' @ show_radix 8 (unat w)"

definition list_item_text :: "list_item \<Rightarrow> bytes" where
  "list_item_text i = ascii ''name: '' @ li_name i @ ascii '', time: '' @ show_nat (unat (li_time i)) @ ascii '', size: ''
     @ show_nat (unat (li_size i)) @ ascii '', permissions: '' @ show_octal (li_permissions i)"

fun list_item_type_text :: "list_item_type \<Rightarrow> bytes" where
  "list_item_type_text (Fifo i) = ascii ''fifo: '' @ list_item_text i"
| "list_item_type_text (CharacterDevice i) = ascii ''character device: '' @ list_item_text i"
| "list_item_type_text (Directory i) = ascii ''directory: '' @ list_item_text i"
| "list_item_type_text (BlockDevice i) = ascii ''block device: '' @ list_item_text i"
| "list_item_type_text (File i) = ascii ''file: '' @ list_item_text i"
| "list_item_type_text (Symlink i) = ascii ''symlink: '' @ list_item_text i"
| "list_item_type_text (Socket i) = ascii ''socket: '' @ list_item_text i"
| "list_item_type_text (Other i) = ascii ''other: '' @ list_item_text i"

definition stat_response_text :: "(u32 \<Rightarrow> bytes) \<Rightarrow> stat_response \<Rightarrow> bytes" where
  "stat_response_text show_date s = ascii ''File permissions: '' @ show_nat (unat (sr_file_perm s)) @ [10] @ ascii ''File size: ''
     @ show_nat (unat (sr_file_size s)) @ ascii '' bytes'' @ [10] @ ascii ''Modification time: '' @ show_date (sr_mod_time s)"

section \<open>The answer of \<open>stat\<close>\<close>

record stat_mapping =
  sm_id :: u32
  sm_name :: bytes

record stat_extended =
  se_path :: bytes
  se_size :: u64
  se_blocks :: u64
  se_io_blocks :: u64
  se_inode :: u64
  se_links :: u64
  se_perms :: u64
  se_user :: stat_mapping
  se_group :: stat_mapping
  se_atime :: u32
  se_mtime :: u32
  se_ctime :: u32

definition stat_extended_text :: "(u32 \<Rightarrow> bytes) \<Rightarrow> stat_extended \<Rightarrow> bytes" where
  "stat_extended_text show_date s =
     ascii ''File: '' @ se_path s @ [10]
     @ ascii ''Size: '' @ show_nat (unat (se_size s)) @ [9] @ ascii ''Blocks: '' @ show_nat (unat (se_blocks s)) @ [9]
     @ ascii '' IO blocks: '' @ show_nat (unat (se_io_blocks s)) @ [10]
     @ ascii ''Inode: '' @ show_nat (unat (se_inode s)) @ [9] @ ascii ''Links: '' @ show_nat (unat (se_links s)) @ [10]
     @ ascii ''Access: ('' @ show_nat (unat (se_perms s)) @ ascii '')'' @ [9]
     @ ascii ''Uid: ('' @ show_nat (unat (sm_id (se_user s))) @ ascii ''/'' @ sm_name (se_user s) @ ascii '')'' @ [9]
     @ ascii ''Gid: ('' @ show_nat (unat (sm_id (se_group s))) @ ascii ''/'' @ sm_name (se_group s) @ ascii '')'' @ [10]
     @ ascii ''Access: '' @ show_date (se_atime s) @ [10] @ ascii ''Modify: '' @ show_date (se_mtime s) @ [10]
     @ ascii ''Change: '' @ show_date (se_ctime s) @ [10]"

text \<open>The groups of the three regular expressions, and the seconds since 1970 of a date.\<close>

record stat_syntax =
  sx_second :: "bytes \<Rightarrow> (bytes \<times> bytes \<times> bytes) option"
  sx_third :: "bytes \<Rightarrow> (bytes \<times> bytes) option"
  sx_fourth :: "bytes \<Rightarrow> (bytes \<times> bytes \<times> bytes \<times> bytes \<times> bytes) option"
  sx_date :: "bytes \<Rightarrow> int option"

definition stat_error :: "string \<Rightarrow> rust_error" where
  "stat_error m = StatResponseError (ascii m)"

definition stat_missing :: "string \<Rightarrow> rust_error" where
  "stat_missing m = UnknownResponseType (ascii ''stat response: '' @ ascii m)"

text \<open>\<open>iter_lines.next().ok_or_else(..)??\<close>: a line is only looked at when it is asked for.\<close>

definition stat_line :: "rust_error \<Rightarrow> nat \<Rightarrow> bytes \<Rightarrow> bytes result" where
  "stat_line absent n answer =
     (let ls = str_lines answer in
      if n < length ls then
        (if utf8_valid (ls ! n) then Ok (ls ! n)
         else Err (IOError InvalidData (Message (ascii ''stream did not contain valid UTF-8''))))
      else Err absent)"

definition group_number :: "nat \<Rightarrow> bytes \<Rightarrow> ('a :: len) word result" where
  "group_number bits g = bind_outcome (ok_or (stat_error ''cannot parse value'') (parse_uint 10 bits g)) (\<lambda>n. Ok (word_of_nat n))"

definition parse_date :: "stat_syntax \<Rightarrow> bytes \<Rightarrow> u32 result" where
  "parse_date X d = bind_outcome (ok_or ParseDateError (sx_date X (trim d))) (\<lambda>seconds.
     if 0 \<le> seconds \<and> seconds < 2 ^ 32 then Ok (word_of_int seconds) else Err IntegerConversionError)"

definition date_line :: "stat_syntax \<Rightarrow> string \<Rightarrow> string \<Rightarrow> string \<Rightarrow> nat \<Rightarrow> bytes \<Rightarrow> u32 result" where
  "date_line X absent invalid prefix n answer =
     bind_outcome (stat_line (stat_missing absent) n answer) (\<lambda>l.
     bind_outcome (ok_or (stat_missing invalid) (strip_prefix (ascii prefix) l)) (parse_date X))"

definition stat_extended_try_from :: "stat_syntax \<Rightarrow> bytes \<Rightarrow> stat_extended option result" where
  "stat_extended_try_from X answer =
     bind_outcome (stat_line (stat_error ''no first line'') 0 answer) (\<lambda>l1.
     case strip_prefix (ascii ''  File: '') l1 of
       None \<Rightarrow> if ends_with (ascii ''No such file or directory'') l1 then Ok None else Err (stat_error ''invalid path line'')
     | Some path \<Rightarrow>
         bind_outcome (stat_line (stat_error ''no second line'') 1 answer) (\<lambda>l2.
         bind_outcome (ok_or (stat_error ''cannot get capture groups for second line'') (sx_second X l2)) (\<lambda>(g_size, g_blocks, g_io).
         bind_outcome (group_number 64 g_size) (\<lambda>n_size.
         bind_outcome (group_number 64 g_blocks) (\<lambda>n_blocks.
         bind_outcome (group_number 64 g_io) (\<lambda>n_io.
         bind_outcome (stat_line (stat_missing ''no third line'') 2 answer) (\<lambda>l3.
         bind_outcome (ok_or (stat_error ''cannot get capture groups for third line'') (sx_third X l3)) (\<lambda>(g_inode, g_links).
         bind_outcome (group_number 64 g_inode) (\<lambda>n_inode.
         bind_outcome (group_number 64 g_links) (\<lambda>n_links.
         bind_outcome (stat_line (stat_missing ''no fourth line'') 3 answer) (\<lambda>l4.
         bind_outcome (ok_or (stat_error ''cannot get capture groups for fourth line'') (sx_fourth X l4))
           (\<lambda>(g_perms, g_uid, uid_name, g_gid, gid_name).
         bind_outcome (group_number 64 g_perms) (\<lambda>n_perms.
         bind_outcome (group_number 32 g_uid) (\<lambda>uid.
         bind_outcome (group_number 32 g_gid) (\<lambda>gid.
         bind_outcome (date_line X ''no fifth line'' ''invalid atime line'' ''Access: '' 4 answer) (\<lambda>atime.
         bind_outcome (date_line X ''no sixth line'' ''invalid mtime line'' ''Modify: '' 5 answer) (\<lambda>mtime.
         bind_outcome (date_line X ''no seventh line'' ''invalid ctime line'' ''Change: '' 6 answer) (\<lambda>ctime.
           Ok (Some \<lparr>se_path = trim path, se_size = n_size, se_blocks = n_blocks, se_io_blocks = n_io,
             se_inode = n_inode, se_links = n_links, se_perms = n_perms,
             se_user = \<lparr>sm_id = uid, sm_name = uid_name\<rparr>, se_group = \<lparr>sm_id = gid, sm_name = gid_name\<rparr>,
             se_atime = atime, se_mtime = mtime, se_ctime = ctime\<rparr>)))))))))))))))))))"

section \<open>The answer is read as it was written\<close>

text \<open>The lines \<^verbatim>\<open>stat\<close> prints: the last three are dates behind what they are dates of.\<close>

record stat_print =
  sp_second :: bytes
  sp_third :: bytes
  sp_fourth :: bytes
  sp_access :: bytes
  sp_modify :: bytes
  sp_change :: bytes

definition stat_lines :: "bytes \<Rightarrow> stat_print \<Rightarrow> bytes list" where
  "stat_lines path p = [ascii ''  File: '' @ path, sp_second p, sp_third p, sp_fourth p,
     ascii ''Access: '' @ sp_access p, ascii ''Modify: '' @ sp_modify p, ascii ''Change: '' @ sp_change p]"

definition stat_answer :: "bytes \<Rightarrow> stat_print \<Rightarrow> bytes" where
  "stat_answer path p = concat (map (\<lambda>l. l @ [10]) (stat_lines path p))"

text \<open>
  What the regular expressions and the parser of dates make of those lines: the numbers, in decimal, the names, the
  dates, and the text of the permissions, which \<^verbatim>\<open>stat\<close> prints in octal.
\<close>

definition reads_back :: "stat_syntax \<Rightarrow> stat_print \<Rightarrow> bytes \<Rightarrow> stat_extended \<Rightarrow> bool" where
  "reads_back X p perms s \<longleftrightarrow>
     sx_second X (sp_second p) = Some (show_nat (unat (se_size s)), show_nat (unat (se_blocks s)), show_nat (unat (se_io_blocks s))) \<and>
     sx_third X (sp_third p) = Some (show_nat (unat (se_inode s)), show_nat (unat (se_links s))) \<and>
     sx_fourth X (sp_fourth p) = Some (perms, show_nat (unat (sm_id (se_user s))), sm_name (se_user s),
       show_nat (unat (sm_id (se_group s))), sm_name (se_group s)) \<and>
     sx_date X (trim (sp_access p)) = Some (uint (se_atime s)) \<and>
     sx_date X (trim (sp_modify p)) = Some (uint (se_mtime s)) \<and>
     sx_date X (trim (sp_change p)) = Some (uint (se_ctime s))"

definition plain_line :: "bytes \<Rightarrow> bool" where
  "plain_line l \<longleftrightarrow> utf8_valid l \<and> 10 \<notin> set l \<and> 13 \<notin> set l"

lemma group_number_64: "group_number 64 (show_nat (unat (x :: u64))) = Ok x"
  using unat_less_u64 [of x] by (simp add: group_number_def parse_uint_show)

lemma group_number_32: "group_number 32 (show_nat (unat (x :: u32))) = Ok x"
  using unat_less_u32 [of x] by (simp add: group_number_def parse_uint_show)

lemma parse_date_back: "sx_date X (trim d) = Some (uint t) \<Longrightarrow> parse_date X d = Ok t"
  using uint_bounded [of t] by (simp add: parse_date_def)

lemma stat_line_nth:
  assumes "\<forall>l \<in> set (stat_lines path p). plain_line l" and "n < 7"
  shows "stat_line e n (stat_answer path p) = Ok (stat_lines path p ! n)"
proof -
  have "str_lines (stat_answer path p) = stat_lines path p"
    unfolding stat_answer_def by (rule str_lines_written) (use assms(1) in \<open>simp add: plain_line_def\<close>)
  moreover have len: "length (stat_lines path p) = 7" by (simp add: stat_lines_def)
  moreover have "plain_line (stat_lines path p ! n)" using assms len by simp
  ultimately show ?thesis using assms(2) by (simp add: stat_line_def plain_line_def)
qed

text \<open>
  The answer of \<open>stat\<close> is read as it was printed, every field in its place; only the permissions are
  whatever their octal digits are as a decimal number.
\<close>

theorem stat_extended_exact:
  assumes "reads_back X p perms s" and "\<forall>l \<in> set (stat_lines (se_path s) p). plain_line l"
    and "trim (se_path s) = se_path s" and "parse_uint 10 64 perms = Some n"
  shows "stat_extended_try_from X (stat_answer (se_path s) p) = Ok (Some (s\<lparr>se_perms := word_of_nat n\<rparr>))"
proof -
  let ?answer = "stat_answer (se_path s) p"
  note at = stat_line_nth [OF assms(2)]
  have date: "date_line X a i prefix m ?answer = Ok t"
    if "m < 7" "stat_lines (se_path s) p ! m = ascii prefix @ d" "parse_date X d = Ok t" for a i prefix m d t
    using at [OF that(1)] that(2,3) by (simp add: date_line_def)
  have dates: "date_line X a i ''Access: '' 4 ?answer = Ok (se_atime s)" "date_line X a i ''Modify: '' 5 ?answer = Ok (se_mtime s)"
    "date_line X a i ''Change: '' 6 ?answer = Ok (se_ctime s)" for a i
    by (rule date [of _ _ "sp_access p"] date [of _ _ "sp_modify p"] date [of _ _ "sp_change p"];
        use assms(1) in \<open>simp add: stat_lines_def reads_back_def parse_date_back del: ascii_Cons\<close>)+
  have lines: "stat_line e 0 ?answer = Ok (ascii ''  File: '' @ se_path s)" "stat_line e 1 ?answer = Ok (sp_second p)"
    "stat_line e 2 ?answer = Ok (sp_third p)" "stat_line e 3 ?answer = Ok (sp_fourth p)" for e
    using at [of 0 e] at [of 1 e] at [of 2 e] at [of 3 e] by (simp_all add: stat_lines_def del: ascii_Cons)
  have perm: "group_number 64 perms = Ok (word_of_nat n :: u64)" using assms(4) by (simp add: group_number_def)
  show ?thesis
    unfolding stat_extended_try_from_def
    by (simp only: lines dates perm assms(1) [unfolded reads_back_def] bind_outcome.simps ok_or.simps prod.case option.case
        strip_prefix_append group_number_64 group_number_32 assms(3)) simp
qed

text \<open>The answer for a file of 1048576 bytes, with a syntax that knows just its lines.\<close>

definition big_print :: stat_print where
  "big_print = \<lparr>sp_second = ascii ''  Size: 1048576'', sp_third = ascii ''Inode: 45880'', sp_fourth = ascii ''Access: (0777)'',
     sp_access = ascii ''1970'', sp_modify = ascii ''1970'', sp_change = ascii ''2024''\<rparr>"

definition big_file :: stat_extended where
  "big_file = \<lparr>se_path = ascii ''/bigfile'', se_size = 1048576, se_blocks = 2048, se_io_blocks = 512, se_inode = 45880, se_links = 1,
     se_perms = 511, se_user = \<lparr>sm_id = 2000, sm_name = ascii ''shell''\<rparr>, se_group = \<lparr>sm_id = 2000, sm_name = ascii ''shell''\<rparr>,
     se_atime = 0, se_mtime = 0, se_ctime = 1732807643\<rparr>"

definition big_syntax :: stat_syntax where
  "big_syntax = \<lparr>sx_second = (\<lambda>l. if l = sp_second big_print then Some (show_nat 1048576, show_nat 2048, show_nat 512) else None),
     sx_third = (\<lambda>l. if l = sp_third big_print then Some (show_nat 45880, show_nat 1) else None),
     sx_fourth = (\<lambda>l. if l = sp_fourth big_print then Some (ascii ''0777'', show_nat 2000, ascii ''shell'', show_nat 2000, ascii ''shell'') else None),
     sx_date = (\<lambda>d. if d = ascii ''1970'' then Some 0 else if d = ascii ''2024'' then Some 1732807643 else None)\<rparr>"

theorem stat_extended_exact_witness:
  "stat_extended_try_from big_syntax (stat_answer (ascii ''/bigfile'') big_print) = Ok (Some (big_file\<lparr>se_perms := 777\<rparr>))"
proof -
  have trims: "trim (ascii ''1970'') = ascii ''1970''" "trim (ascii ''2024'') = ascii ''2024''" "trim (ascii ''/bigfile'') = ascii ''/bigfile''"
    by code_simp+
  have "reads_back big_syntax big_print (ascii ''0777'') big_file" using trims
    by (simp add: reads_back_def big_syntax_def big_print_def big_file_def del: show_radix.simps)
  moreover have "\<forall>l \<in> set (stat_lines (se_path big_file) big_print). plain_line l"
    by (auto simp: stat_lines_def plain_line_def big_print_def big_file_def simp del: utf8_valid.simps intro!: utf8_valid_ascii)
  moreover have "trim (se_path big_file) = se_path big_file" using trims by (simp add: big_file_def)
  moreover have "parse_uint 10 64 (ascii ''0777'') = Some 777" by (simp add: parse_uint_def digit_value_def)
  ultimately have "stat_extended_try_from big_syntax (stat_answer (se_path big_file) big_print)
      = Ok (Some (big_file\<lparr>se_perms := word_of_nat 777\<rparr>))" by (rule stat_extended_exact)
  then show ?thesis by (simp add: big_file_def)
qed

text \<open>\<open>0777\<close> is taken for seven hundred and seventy-seven, and that is what is displayed and handed out.\<close>

lemma octal_permissions_read_as_decimal: "group_number 64 (ascii ''0777'') = Ok (777 :: u64)"
  by (simp add: group_number_def parse_uint_def digit_value_def)

text \<open>A date before 1970 makes the whole answer unreadable.\<close>

lemma old_date_is_refused: "sx_date X (trim d) = Some (- 1) \<Longrightarrow> parse_date X d = Err IntegerConversionError"
  by (simp add: parse_date_def)

end
