(* ===== verification/Device_Ext.thy ===== *)
theory Device_Ext
  imports Server_Commands Stat_Extended Usb_Devices Reverse_Relay
begin

text \<open>
  The trait \<open>ADBDeviceExt\<close> (\<^verbatim>\<open>adb_client/src/adb_device_ext.rs\<close>) as the record of what a device of any kind can do, its default
  methods, and the devices that implement it: over TCP (\<^verbatim>\<open>message_devices/tcp/adb_tcp_device.rs\<close>), over USB
  (\<^verbatim>\<open>message_devices/usb/adb_usb_device.rs\<close>), the message device both hold
  (\<^verbatim>\<open>message_devices/adb_message_device_commands.rs\<close>), and behind a server
  (\<^verbatim>\<open>server_device/adb_server_device_commands.rs\<close>).
\<close>

section \<open>The trait\<close>

text \<open>An operation on a device of state \<open>'d\<close>; \<open>None\<close> is one that never returns.\<close>

type_synonym ('d, 'a) op = "'d \<Rightarrow> ('a result \<times> 'd) option"

definition returns :: "('d, 'a) io \<Rightarrow> ('d, 'a) op" where
  "returns m d = Some (m d)"

text \<open>The outcome without what was read from or written to beside the device.\<close>

definition dropping :: "('d \<Rightarrow> ('a result \<times> 'x \<times> 'd) option) \<Rightarrow> ('d, 'a) op" where
  "dropping m d = map_option (\<lambda>(r, x, d'). (r, d')) (m d)"

text \<open>Width, height and pixels.\<close>

type_synonym image = "u32 \<times> u32 \<times> bytes"

text \<open>
  Output goes to sinks, which are given back with what was written, also on failure. The reader and the writer of the interactive
  operations belong to the device here.
\<close>

record 'd device_ext =
  dx_reverse_forward :: "bytes \<Rightarrow> bytes \<Rightarrow> ('d, unit) op"
  dx_run_reverse_relay :: "bytes \<Rightarrow> bytes \<Rightarrow> ('d, unit) op"
  dx_remove_reverse_forward :: "bytes \<Rightarrow> ('d, unit) op"
  dx_shell_command :: "bytes \<Rightarrow> outputs \<Rightarrow> 'd \<Rightarrow> (u8 option result \<times> outputs \<times> 'd) option"
  dx_shell :: "('d, unit) op"
  dx_exec :: "bytes \<Rightarrow> ('d, unit) op"
  dx_stat :: "bytes \<Rightarrow> ('d, stat_response) op"
  dx_pull :: "bytes \<Rightarrow> sink \<Rightarrow> 'd \<Rightarrow> (unit result \<times> sink \<times> 'd) option"
  dx_push :: "source \<Rightarrow> bytes \<Rightarrow> ('d, unit) op"
  dx_list :: "bytes \<Rightarrow> ('d, list_item_type list) op"
  dx_reboot :: "reboot_type \<Rightarrow> ('d, unit) op"
  dx_remount :: "('d, remount_info list) op"
  dx_root :: "('d, unit) op"
  dx_install :: "bytes \<Rightarrow> bytes option \<Rightarrow> ('d, unit) op"
  dx_uninstall :: "bytes \<Rightarrow> bytes option \<Rightarrow> ('d, unit) op"
  dx_enable_verity :: "('d, unit) op"
  dx_disable_verity :: "('d, unit) op"
  dx_framebuffer_inner :: "('d, image) op"

text \<open>What a kind of device that does not say otherwise answers.\<close>

definition no_reverse_forward :: "('d, 'a) op" where
  "no_reverse_forward = returns (lift (Err (request_failed ''reverse forwarding is unavailable for this transport'')))"

definition no_reverse_relay :: "('d, 'a) op" where
  "no_reverse_relay = returns (lift (Err (request_failed ''reverse relay is unavailable for this transport'')))"

text \<open>A command whose output is collected in memory.\<close>

definition collect_output :: "'d device_ext \<Rightarrow> bytes \<Rightarrow> ('d, bytes) op" where
  "collect_output D command d = map_option (\<lambda>(r, outs, d').
       (bind_outcome r (\<lambda>_. Ok (case fst outs of Some k \<Rightarrow> sk_out k | None \<Rightarrow> [])), d'))
     (dx_shell_command D command (Some \<lparr>sk_script = [], sk_out = []\<rparr>, None) d)"

definition stat_extended_command :: "bytes \<Rightarrow> bytes" where
  "stat_extended_command remote_path = ascii ''stat '' @ remote_path"

definition device_stat_extended :: "'d device_ext \<Rightarrow> stat_syntax \<Rightarrow> bytes \<Rightarrow> ('d, stat_extended option) op" where
  "device_stat_extended D X remote_path d = map_option (\<lambda>(r, d'). (bind_outcome r (stat_extended_try_from X), d'))
     (collect_output D (stat_extended_command remote_path) d)"

definition run_activity_command :: "bytes \<Rightarrow> bytes \<Rightarrow> bytes" where
  "run_activity_command package activity = ascii ''am start '' @ package @ ascii ''/'' @ package @ ascii ''.'' @ activity"

definition device_run_activity :: "'d device_ext \<Rightarrow> bytes \<Rightarrow> bytes \<Rightarrow> ('d, bytes) op" where
  "device_run_activity D package activity = collect_output D (run_activity_command package activity)"

text \<open>The image in a file format: \<open>save\<close> and \<open>write_to\<close> of the library.\<close>

definition device_framebuffer_bytes :: "'d device_ext \<Rightarrow> (image \<Rightarrow> bytes option) \<Rightarrow> ('d, bytes) op" where
  "device_framebuffer_bytes D png d = map_option (\<lambda>(r, d').
       (bind_outcome r (\<lambda>i. ok_or FramebufferImageError (png i)), d'))
     (dx_framebuffer_inner D d)"

section \<open>The message device\<close>

text \<open>The connection, and the random ids the sessions of the device will have.\<close>

record message_device =
  mv_link :: link
  mv_random :: "nat \<Rightarrow> u32"
  mv_opened :: nat

definition with_id :: "(u32 \<Rightarrow> link \<Rightarrow> ('x \<times> link) option) \<Rightarrow> message_device \<Rightarrow> ('x \<times> message_device) option" where
  "with_id m d = map_option (\<lambda>(x, l). (x, d\<lparr>mv_link := l, mv_opened := Suc (mv_opened d)\<rparr>))
     (m (mv_random d (mv_opened d)) (mv_link d))"

text \<open>
  A package is a file of the host: whether it opens, its extension, its size and its content. What the libraries and
  the outside add: the terminal's name, the expression of remounting, images, the connections and events of a relay, and
  the two threads of an interactive session.
\<close>

record package_file =
  pf_extension :: "bytes option"
  pf_size :: "u64 result"
  pf_content :: source

record 'd setting =
  se_term :: "bytes option"
  se_package :: "bytes \<Rightarrow> package_file result"
  se_captures :: "bytes \<Rightarrow> (bytes \<times> bytes) option"
  se_from_vec :: "u32 \<Rightarrow> u32 \<Rightarrow> bytes \<Rightarrow> image option"
  se_now :: "u64 option"
  se_interactive :: "local_command \<Rightarrow> ('d, unit) op"

record relay_setting =
  re_dial :: "nat \<Rightarrow> sink result"
  re_random :: "nat \<Rightarrow> u32"
  re_turns :: "local_event list list"

definition device_shell_command ::
    "bytes option \<Rightarrow> bytes \<Rightarrow> outputs \<Rightarrow> message_device \<Rightarrow> (u8 option result \<times> outputs \<times> message_device) option" where
  "device_shell_command term command outs d = map_option (\<lambda>((r, out), d').
       (bind_outcome r (\<lambda>_. Ok None), (out, snd outs), d'))
     (with_id (\<lambda>i l. case shell_command i term command (fst outs) l of (r, out, l') \<Rightarrow> Some ((r, out), l')) d)"

definition open_package :: "'d setting \<Rightarrow> bytes \<Rightarrow> (package_file \<Rightarrow> ('d, unit) op) \<Rightarrow> ('d, unit) op" where
  "open_package S path f d = (case se_package S path of
       Ok p \<Rightarrow> f p d
     | Err e \<Rightarrow> Some (Err e, d)
     | Panic \<Rightarrow> Some (Panic, d))"

definition message_device_ext :: "message_device setting \<Rightarrow> message_device device_ext" where
  "message_device_ext S =
     (let term = se_term S;
          simple = (\<lambda>m. with_id (\<lambda>i l. Some (m i l)))
      in \<lparr>dx_reverse_forward = (\<lambda>_ _. no_reverse_forward),
          dx_run_reverse_relay = (\<lambda>_ _. no_reverse_relay),
          dx_remove_reverse_forward = (\<lambda>_. no_reverse_forward),
          dx_shell_command = device_shell_command term,
          dx_shell = se_interactive S Shell,
          dx_exec = (\<lambda>command. se_interactive S (Exec command)),
          dx_stat = (\<lambda>path. with_id (\<lambda>i l. Some (device_stat i term path l))),
          dx_pull = (\<lambda>path k d. map_option (\<lambda>((r, k'), d'). (r, k', d'))
            (with_id (\<lambda>i l. map_option (\<lambda>(r, l', k'). ((r, k'), l')) (device_pull i term path l k)) d)),
          dx_push = (\<lambda>file path. with_id (\<lambda>i l.
            map_option (\<lambda>(r, _, l'). (r, l')) (device_push i term read_source file path l))),
          dx_list = (\<lambda>path. with_id (\<lambda>i. device_list i term path)),
          dx_reboot = (\<lambda>t. simple (\<lambda>i. device_reboot i term t)),
          dx_remount = with_id (\<lambda>i l. Some (device_remount i term (se_captures S) l)),
          dx_root = simple (\<lambda>i. device_root i term),
          dx_install = (\<lambda>path user. open_package S path (\<lambda>p.
            with_id (\<lambda>i. device_install i term (pf_extension p) (pf_size p) user read_source (pf_content p)))),
          dx_uninstall = (\<lambda>package user. simple (\<lambda>i. device_uninstall i term package user)),
          dx_enable_verity = simple (\<lambda>i. device_enable_verity i term),
          dx_disable_verity = simple (\<lambda>i. device_disable_verity i term),
          dx_framebuffer_inner = with_id (\<lambda>i l. Some (device_framebuffer (se_from_vec S) i term l))\<rparr>)"

text \<open>
  Registering a rule and serving it on the same connection. The relay runs for the turns it is given; \<open>None\<close> is one that is still
  running after them.
\<close>

definition device_run_reverse_relay ::
    "relay_setting \<Rightarrow> bytes option \<Rightarrow> bytes \<Rightarrow> bytes \<Rightarrow> u32 \<Rightarrow> link \<Rightarrow> (unit result \<times> link) option" where
  "device_run_reverse_relay R term remote near i l = (case reverse_forward i term remote near l of
       (Ok _, l1) \<Rightarrow> (case reverse_relay_new l1 near (re_dial R) (re_random R) of
           Ok r \<Rightarrow> (case relay_turns (re_turns R) r of
               (Some q, r') \<Rightarrow> Some (q, rr_link r')
             | (None, _) \<Rightarrow> None)
         | Err e \<Rightarrow> Some (Err e, l1)
         | Panic \<Rightarrow> Some (Panic, l1))
     | (Err e, l1) \<Rightarrow> Some (Err e, l1)
     | (Panic, l1) \<Rightarrow> Some (Panic, l1))"

section \<open>The devices over TCP and USB\<close>

text \<open>Both call the message device they hold, and have its reverse rules.\<close>

definition tcp_device_ext :: "message_device setting \<Rightarrow> relay_setting \<Rightarrow> message_device device_ext" where
  "tcp_device_ext S R = (message_device_ext S)\<lparr>
     dx_reverse_forward := (\<lambda>remote near. with_id (\<lambda>i l. Some (reverse_forward i (se_term S) remote near l))),
     dx_run_reverse_relay := (\<lambda>remote near. with_id (device_run_reverse_relay R (se_term S) remote near)),
     dx_remove_reverse_forward := (\<lambda>remote. with_id (\<lambda>i l. Some (remove_reverse_forward i (se_term S) remote l)))\<rparr>"

definition on_au_inner :: "('d \<Rightarrow> ('x \<times> 'd) option) \<Rightarrow> 'd adb_usb_device \<Rightarrow> ('x \<times> 'd adb_usb_device) option" where
  "on_au_inner m d = map_option (\<lambda>(x, i). (x, d\<lparr>au_inner := i\<rparr>)) (m (au_inner d))"

definition on_au_inner_with :: "('d \<Rightarrow> ('r \<times> 'x \<times> 'd) option) \<Rightarrow> 'd adb_usb_device \<Rightarrow> ('r \<times> 'x \<times> 'd adb_usb_device) option" where
  "on_au_inner_with m d = map_option (\<lambda>(r, x, i). (r, x, d\<lparr>au_inner := i\<rparr>)) (m (au_inner d))"

definition usb_device_ext :: "'d device_ext \<Rightarrow> 'd adb_usb_device device_ext" where
  "usb_device_ext D =
     \<lparr>dx_reverse_forward = (\<lambda>remote near. on_au_inner (dx_reverse_forward D remote near)),
      dx_run_reverse_relay = (\<lambda>remote near. on_au_inner (dx_run_reverse_relay D remote near)),
      dx_remove_reverse_forward = (\<lambda>remote. on_au_inner (dx_remove_reverse_forward D remote)),
      dx_shell_command = (\<lambda>command outs. on_au_inner_with (dx_shell_command D command outs)),
      dx_shell = on_au_inner (dx_shell D),
      dx_exec = (\<lambda>command. on_au_inner (dx_exec D command)),
      dx_stat = (\<lambda>path. on_au_inner (dx_stat D path)),
      dx_pull = (\<lambda>path k. on_au_inner_with (dx_pull D path k)),
      dx_push = (\<lambda>file path. on_au_inner (dx_push D file path)),
      dx_list = (\<lambda>path. on_au_inner (dx_list D path)),
      dx_reboot = (\<lambda>t. on_au_inner (dx_reboot D t)),
      dx_remount = on_au_inner (dx_remount D),
      dx_root = on_au_inner (dx_root D),
      dx_install = (\<lambda>path user. on_au_inner (dx_install D path user)),
      dx_uninstall = (\<lambda>package user. on_au_inner (dx_uninstall D package user)),
      dx_enable_verity = on_au_inner (dx_enable_verity D),
      dx_disable_verity = on_au_inner (dx_disable_verity D),
      dx_framebuffer_inner = on_au_inner (dx_framebuffer_inner D)\<rparr>"

section \<open>The device behind a server\<close>

text \<open>It has no reverse rules by this trait.\<close>

definition server_device_ext :: "server_device setting \<Rightarrow> server_device device_ext" where
  "server_device_ext S =
     (let term = se_term S
      in \<lparr>dx_reverse_forward = (\<lambda>_ _. no_reverse_forward),
          dx_run_reverse_relay = (\<lambda>_ _. no_reverse_relay),
          dx_remove_reverse_forward = (\<lambda>_. no_reverse_forward),
          dx_shell_command = server_shell_command term,
          dx_shell = se_interactive S Shell,
          dx_exec = (\<lambda>command. se_interactive S (Exec command)),
          dx_stat = (\<lambda>path. returns (server_stat term path)),
          dx_pull = server_pull term,
          dx_push = (\<lambda>file path. dropping (server_push term path (se_now S) file)),
          dx_list = (\<lambda>path. dropping (server_list term path)),
          dx_reboot = (\<lambda>t. returns (server_reboot term t)),
          dx_remount = returns (server_remount (se_captures S) term),
          dx_root = returns (server_root term),
          dx_install = (\<lambda>path user. open_package S path (\<lambda>p.
            dropping (install_with_options term (pf_extension p) (pf_size p) (pf_content p) user []))),
          dx_uninstall = (\<lambda>package user. returns (server_uninstall term package user)),
          dx_enable_verity = returns (server_enable_verity term),
          dx_disable_verity = returns (server_disable_verity term),
          dx_framebuffer_inner = returns (server_framebuffer (se_from_vec S) term)\<rparr>)"

end
