(* ===== verification/Native_Cli.thy ===== *)
theory Native_Cli
  imports Device_Ext Emulator
begin

text \<open>
  The command line of \<^verbatim>\<open>adb_cli\<close> proper, \<^verbatim>\<open>src/adb_cli/src/main.rs\<close> with its \<^verbatim>\<open>models\<close> and \<^verbatim>\<open>handlers\<close>, which runs
  when the program is not asked to stand in for \<^verbatim>\<open>adb\<close>: the commands of a device of any kind, those of a device of the server,
  those of an emulator, and which device is opened. Parsing the arguments is the library's (\<^verbatim>\<open>clap\<close>); the log is a list of lines,
  of which only those that carry an answer are kept.
\<close>

section \<open>Errors\<close>

datatype cause = Of_Client rust_error | Of_Io io_kind io_text | Of_Text bytes

datatype cli_error = Standard cause | May_Need_An_Issue cause

text \<open>The errors that may well happen; every other one is reported as perhaps a bug.\<close>

fun client_error :: "rust_error \<Rightarrow> cli_error" where
  "client_error ADBDeviceNotPaired = Standard (Of_Client ADBDeviceNotPaired)"
| "client_error (UnknownResponseType m) = Standard (Of_Client (UnknownResponseType m))"
| "client_error (DeviceNotFound m) = Standard (Of_Client (DeviceNotFound m))"
| "client_error USBNoDescriptorFound = Standard (Of_Client USBNoDescriptorFound)"
| "client_error ADBShellNotSupported = Standard (Of_Client ADBShellNotSupported)"
| "client_error (USBDeviceNotFound v p) = Standard (Of_Client (USBDeviceNotFound v p))"
| "client_error (WrongFileExtension m) = Standard (Of_Client (WrongFileExtension m))"
| "client_error AddrParseError = Standard (Of_Client AddrParseError)"
| "client_error DeviceBusy = Standard (Of_Client DeviceBusy)"
| "client_error e = May_Need_An_Issue (Of_Client e)"

definition io_error :: "io_kind \<Rightarrow> io_text \<Rightarrow> cli_error" where
  "io_error k t = Standard (Of_Io k t)"

text \<open>An error of \<^verbatim>\<open>std::io\<close> that was not wrapped by the library.\<close>

fun io_cause :: "rust_error \<Rightarrow> cli_error" where
  "io_cause (IOError k t) = io_error k t"
| "io_cause e = client_error e"

fun cause_text :: "cause \<Rightarrow> bytes" where
  "cause_text (Of_Client e) = error_text e"
| "cause_text (Of_Io k t) = io_text_display t"
| "cause_text (Of_Text m) = m"

fun cli_error_text :: "cli_error \<Rightarrow> bytes" where
  "cli_error_text (Standard c) = cause_text c"
| "cli_error_text (May_Need_An_Issue c) = ascii ''Error: '' @ cause_text c @ [10]
     @ replicate 20 32 @ ascii ''An unexpected error occurred and may indicate a bug.'' @ [10]
     @ replicate 20 32 @ ascii ''Please report this issue on the project repository (including steps to reproduce if possible): https://github.com/cocool97/adb_client/issues.''"

section \<open>The commands of a device\<close>

datatype reboot_type_command =
  To_System | To_Bootloader | To_Recovery | To_Sideload | To_Sideload_Auto_Reboot | To_Fastboot

fun reboot_type_of :: "reboot_type_command \<Rightarrow> reboot_type" where
  "reboot_type_of To_System = System"
| "reboot_type_of To_Bootloader = Bootloader"
| "reboot_type_of To_Recovery = Recovery"
| "reboot_type_of To_Sideload = Sideload"
| "reboot_type_of To_Sideload_Auto_Reboot = SideloadAutoReboot"
| "reboot_type_of To_Fastboot = Fastboot"

datatype device_command =
    Do_Shell "bytes list"
  | Do_Pull bytes bytes
  | Do_Push bytes bytes
  | Do_Reverse bytes bytes
  | Do_Reverse_Relay bytes bytes
  | Do_Reverse_Remove bytes
  | Do_Stat bytes
  | Do_Stat_Extended bytes
  | Do_Run bytes bytes
  | Do_Reboot reboot_type_command
  | Do_Install "bytes option" bytes
  | Do_Uninstall "bytes option" bytes
  | Do_Framebuffer bytes
  | Do_List bytes
  | Do_Root

text \<open>
  What a command runs in: the device, the files of the host, what has been printed and what has been logged.
  \<open>su_creates\<close> is what \<open>File::create\<close> meets at a path and \<open>su_writes\<close> what the writes to the file do, \<open>su_reads\<close> how the reads
  of a file cut its content, \<open>su_terminal\<close> what setting up the terminal does, \<open>su_image\<close> the encoding of an image for a path.
\<close>

record 'd native =
  nw_device :: 'd
  nw_files :: "bytes \<rightharpoonup> bytes"
  nw_stdout :: sink
  nw_log :: "bytes list"

record surroundings =
  su_creates :: "bytes \<Rightarrow> (unit, io_kind) outcome"
  su_writes :: "bytes \<Rightarrow> write_result list"
  su_reads :: "bytes \<Rightarrow> bytes \<Rightarrow> source"
  su_stdout :: sink
  su_terminal :: "(unit, io_kind) outcome"
  su_image :: "bytes \<Rightarrow> image \<Rightarrow> bytes option"
  su_date :: "u32 \<Rightarrow> bytes"
  su_stat :: stat_syntax

type_synonym ('w, 'a) cli = "'w \<Rightarrow> (('a, cli_error) outcome \<times> 'w) option"

definition bind_cli :: "('w, 'a) cli \<Rightarrow> ('a \<Rightarrow> ('w, 'b) cli) \<Rightarrow> ('w, 'b) cli" where
  "bind_cli m f w = Option.bind (m w) (\<lambda>(r, w'). case r of Ok a \<Rightarrow> f a w' | Err e \<Rightarrow> Some (Err e, w') | Panic \<Rightarrow> Some (Panic, w'))"

definition on_nw_device :: "('d, 'a) op \<Rightarrow> ('d native, 'a) cli" where
  "on_nw_device m w = map_option (\<lambda>(r, d). (map_err client_error r, w\<lparr>nw_device := d\<rparr>)) (m (nw_device w))"

text \<open>\<open>println!\<close> panics when the output is refused; \<open>write_all\<close> reports it.\<close>

definition printing :: "bytes \<Rightarrow> ('d native, unit) cli" where
  "printing out w = (case write_all out (nw_stdout w) of (r, k) \<Rightarrow>
     Some ((case r of Ok _ \<Rightarrow> Ok () | _ \<Rightarrow> Panic), w\<lparr>nw_stdout := k\<rparr>))"

definition writing_out :: "bytes \<Rightarrow> ('d native, unit) cli" where
  "writing_out out w = (case write_all out (nw_stdout w) of (r, k) \<Rightarrow> Some (map_err io_cause r, w\<lparr>nw_stdout := k\<rparr>))"

definition logging :: "bytes list \<Rightarrow> ('d native, unit) cli" where
  "logging ls w = Some (Ok (), w\<lparr>nw_log := nw_log w @ ls\<rparr>)"

definition shell_to_stdout :: "'d device_ext \<Rightarrow> bytes \<Rightarrow> ('d native, unit) cli" where
  "shell_to_stdout D command w = map_option (\<lambda>(r, outs, d).
       (bind_outcome (map_err client_error r) (\<lambda>_. Ok ()),
        w\<lparr>nw_device := d, nw_stdout := (case fst outs of Some k \<Rightarrow> k | None \<Rightarrow> nw_stdout w)\<rparr>))
     (dx_shell_command D command (Some (nw_stdout w), None) (nw_device w))"

definition create_file :: "surroundings \<Rightarrow> bytes \<Rightarrow> ('d native, sink) cli" where
  "create_file S path w = Some (case su_creates S path of
       Ok _ \<Rightarrow> (Ok \<lparr>sk_script = su_writes S path, sk_out = []\<rparr>, w\<lparr>nw_files := (nw_files w)(path \<mapsto> [])\<rparr>)
     | Err k \<Rightarrow> (Err (io_error k Os_Error), w)
     | Panic \<Rightarrow> (Panic, w))"

definition pull_into :: "'d device_ext \<Rightarrow> bytes \<Rightarrow> bytes \<Rightarrow> sink \<Rightarrow> ('d native, unit) cli" where
  "pull_into D source path out w = map_option (\<lambda>(r, k, d).
       (map_err client_error r, w\<lparr>nw_device := d, nw_files := (nw_files w)(path \<mapsto> sk_out k)\<rparr>))
     (dx_pull D source out (nw_device w))"

definition open_input :: "surroundings \<Rightarrow> bytes \<Rightarrow> ('d native, source) cli" where
  "open_input S path w = Some (case nw_files w path of
       Some bs \<Rightarrow> (Ok (su_reads S path bs), w)
     | None \<Rightarrow> (Err (io_error NotFound Os_Error), w))"

definition save_framebuffer :: "surroundings \<Rightarrow> bytes \<Rightarrow> image \<Rightarrow> ('d native, unit) cli" where
  "save_framebuffer S path picture w = Some (case su_image S path picture of
       Some bs \<Rightarrow> (Ok (), w\<lparr>nw_files := (nw_files w)(path \<mapsto> bs)\<rparr>)
     | None \<Rightarrow> (Err (client_error FramebufferImageError), w))"

fun run_command :: "surroundings \<Rightarrow> 'd device_ext \<Rightarrow> device_command \<Rightarrow> ('d native, unit) cli" where
  "run_command S D (Do_Shell words) =
     (if words = [] then
        (case su_terminal S of
           Ok _ \<Rightarrow> on_nw_device (dx_shell D)
         | Err k \<Rightarrow> (\<lambda>w. Some (Err (io_error k Os_Error), w))
         | Panic \<Rightarrow> (\<lambda>w. Some (Panic, w)))
      else shell_to_stdout D (join (ascii '' '') words))"
| "run_command S D (Do_Pull source target) = bind_cli (create_file S target) (pull_into D source target)"
| "run_command S D (Do_Push filename path) = bind_cli (open_input S filename) (\<lambda>input. on_nw_device (dx_push D input path))"
| "run_command S D (Do_Reverse remote near) = on_nw_device (dx_reverse_forward D remote near)"
| "run_command S D (Do_Reverse_Relay remote near) = on_nw_device (dx_run_reverse_relay D remote near)"
| "run_command S D (Do_Reverse_Remove remote) = on_nw_device (dx_remove_reverse_forward D remote)"
| "run_command S D (Do_Stat path) =
     bind_cli (on_nw_device (dx_stat D path)) (\<lambda>s. printing (stat_response_text (su_date S) s @ [10]))"
| "run_command S D (Do_Stat_Extended path) =
     bind_cli (on_nw_device (device_stat_extended D (su_stat S) path)) (\<lambda>s. printing (case s of
         Some s \<Rightarrow> stat_extended_text (su_date S) s @ [10]
       | None \<Rightarrow> ascii ''No such file or directory'' @ [10]))"
| "run_command S D (Do_Run package activity) = bind_cli (on_nw_device (device_run_activity D package activity)) writing_out"
| "run_command S D (Do_Reboot kind) = on_nw_device (dx_reboot D (reboot_type_of kind))"
| "run_command S D (Do_Install user path) = on_nw_device (dx_install D path user)"
| "run_command S D (Do_Uninstall user package) = on_nw_device (dx_uninstall D package user)"
| "run_command S D (Do_Framebuffer path) = bind_cli (on_nw_device (dx_framebuffer_inner D)) (save_framebuffer S path)"
| "run_command S D (Do_List path) = bind_cli (on_nw_device (dx_list D path)) (\<lambda>ds. logging (map list_item_type_text ds))"
| "run_command S D Do_Root = on_nw_device (dx_root D)"

section \<open>The commands of a device of the server\<close>

datatype forward_command = Forward_Remove_All | Forward_Remove bytes | Forward_Add bytes bytes
datatype reverse_command = Reverse_Remove_All | Reverse_Remove bytes | Reverse_Add bytes bytes

datatype local_device_command =
    Local_Host_Features
  | Local_Logcat "bytes option"
  | Local_Forward forward_command
  | Local_Reverse reverse_command

fun host_feature_text :: "host_feature \<Rightarrow> bytes" where
  "host_feature_text ShellV2 = ascii ''ShellV2''"
| "host_feature_text Cmd = ascii ''Cmd''"

text \<open>\<open>get_logs\<close> copies the log of the device to a sink, which it gives back.\<close>

type_synonym 'd log_copy = "sink \<Rightarrow> 'd \<Rightarrow> (unit result \<times> sink \<times> 'd) option"

definition copy_logs :: "'d log_copy \<Rightarrow> surroundings \<Rightarrow> bytes option \<Rightarrow> ('d native, unit) cli" where
  "copy_logs get_logs S path = (case path of
       Some p \<Rightarrow> bind_cli (create_file S p) (\<lambda>out w. map_option (\<lambda>(r, k, d).
           (map_err client_error r, w\<lparr>nw_device := d, nw_files := (nw_files w)(p \<mapsto> sk_out k)\<rparr>)) (get_logs out (nw_device w)))
     | None \<Rightarrow> (\<lambda>w. map_option (\<lambda>(r, k, d). (map_err client_error r, w\<lparr>nw_device := d, nw_stdout := k\<rparr>))
         (get_logs (nw_stdout w) (nw_device w))))"

fun forward_call :: "bytes option \<Rightarrow> forward_command \<Rightarrow> (server_device, unit) io" where
  "forward_call term Forward_Remove_All = server_forward_remove_all term"
| "forward_call term (Forward_Remove near) = server_forward_remove term near"
| "forward_call term (Forward_Add near remote) = server_forward term near remote"

fun reverse_call :: "bytes option \<Rightarrow> reverse_command \<Rightarrow> (server_device, unit) io" where
  "reverse_call term Reverse_Remove_All = server_reverse_remove_all term"
| "reverse_call term (Reverse_Remove near) = server_reverse_remove term near"
| "reverse_call term (Reverse_Add remote near) = server_reverse term remote near"

fun handle_local_command ::
    "server_device log_copy \<Rightarrow> surroundings \<Rightarrow> bytes option \<Rightarrow>
      local_device_command \<Rightarrow> (server_device native, unit) cli" where
  "handle_local_command get_logs S term Local_Host_Features =
     bind_cli (on_nw_device (returns (host_features term))) (\<lambda>fs.
       logging [ascii ''Available host features: '' @ join (ascii '','') (map host_feature_text fs)])"
| "handle_local_command get_logs S term (Local_Logcat path) = copy_logs get_logs S path"
| "handle_local_command get_logs S term (Local_Forward c) = on_nw_device (returns (forward_call term c))"
| "handle_local_command get_logs S term (Local_Reverse c) = on_nw_device (returns (reverse_call term c))"

section \<open>The commands of an emulator\<close>

datatype emu_command =
  Emu_Sms bytes bytes | Emu_Rotate | Emu_Discovery_Path | Emu_Grpc_Port | Emu_Raw bytes

text \<open>The outcome with what is printed; \<open>None\<close> when the console never answers.\<close>

definition emu_printed :: "('a \<Rightarrow> bytes) \<Rightarrow> ('a result \<times> emulator) option \<Rightarrow> ((unit, cli_error) outcome \<times> bytes) option" where
  "emu_printed f = map_option (\<lambda>(r, e). case r of Ok a \<Rightarrow> (Ok (), f a) | Err x \<Rightarrow> (Err (client_error x), []) | Panic \<Rightarrow> (Panic, []))"

definition emu_run :: "bytes result \<Rightarrow> emulator_socket result \<Rightarrow> emu_command \<Rightarrow> emulator \<Rightarrow> ((unit, cli_error) outcome \<times> bytes) option" where
  "emu_run token dialled c e = (case c of
       Emu_Sms phone_number message \<Rightarrow> emu_printed (\<lambda>_. []) (send_sms phone_number message token dialled e)
     | Emu_Rotate \<Rightarrow> emu_printed (\<lambda>_. []) (rotate_screen token dialled e)
     | Emu_Discovery_Path \<Rightarrow> emu_printed (\<lambda>p. p @ [10]) (avd_discovery_path token dialled e)
     | Emu_Grpc_Port \<Rightarrow> emu_printed (\<lambda>p. show_nat (unat p) @ [10]) (avd_grpc_port token dialled e)
     | Emu_Raw command \<Rightarrow> emu_printed (\<lambda>r. r @ [10]) (send_raw_command command token dialled e))"

definition handle_emulator_command ::
    "(bytes \<Rightarrow> bytes option) \<Rightarrow> bytes result \<Rightarrow> emulator_socket result \<Rightarrow> bytes \<Rightarrow> emu_command \<Rightarrow> ((unit, cli_error) outcome \<times> bytes) option" where
  "handle_emulator_command port_group token dialled serial c = (case emulator_new port_group serial None of
       Ok e \<Rightarrow> emu_run token dialled c e
     | Err x \<Rightarrow> Some (Err (client_error x), [])
     | Panic \<Rightarrow> Some (Panic, []))"

section \<open>Which device\<close>

definition parse_hex_id :: "bytes \<Rightarrow> u16 option" where
  "parse_hex_id s = map_option word_of_nat (parse_uint 16 16 s)"

datatype server_selector = Any_Device | Serial_Device bytes | Transport_Device u32

definition local_selector :: "u32 option \<Rightarrow> bytes option \<Rightarrow> server_selector" where
  "local_selector transport_id serial = (case transport_id of
       Some n \<Rightarrow> Transport_Device n
     | None \<Rightarrow> (case serial of Some s \<Rightarrow> Serial_Device s | None \<Rightarrow> Any_Device))"

record usb_args =
  ua_vendor :: "u16 option"
  ua_product :: "u16 option"
  ua_key :: "bytes option"
  ua_list :: bool
  ua_command :: "device_command option"

definition no_command :: cli_error where
  "no_command = Standard (Of_Text (ascii ''no command specified''))"

definition half_an_id :: cli_error where
  "half_an_id = Standard (Of_Text (ascii ''cannot specify flags --vendor-id without --product-id or vice versa''))"

definition open_usb ::
    "platform \<Rightarrow> (usb_transport \<Rightarrow> bytes \<Rightarrow> 'd result) \<Rightarrow> bytes result \<Rightarrow> usb_args \<Rightarrow> ('d adb_usb_device, cli_error) outcome" where
  "open_usb p new_device default_path a = (case (ua_vendor a, ua_product a) of
       (Some v, Some i) \<Rightarrow> map_err client_error (case ua_key a of
           Some k \<Rightarrow> usb_with_key p new_device v i k
         | None \<Rightarrow> usb_device_new p new_device default_path v i)
     | (None, None) \<Rightarrow> map_err client_error (case ua_key a of
           Some k \<Rightarrow> autodetect_with_key p new_device k
         | None \<Rightarrow> usb_autodetect p new_device default_path)
     | _ \<Rightarrow> Err half_an_id)"

text \<open>The table of devices before its columns are aligned.\<close>

definition usb_row :: "nat \<Rightarrow> described_device \<Rightarrow> bytes" where
  "usb_row n d = ascii ''#'' @ show_nat n @ [9] @ hex4 (ud_vendor d) @ [9] @ hex4 (ud_product d) @ [9] @ ud_description d @ [10]"

definition usb_table :: "described_device list \<Rightarrow> bytes" where
  "usb_table ds = ascii ''Index'' @ [9] @ ascii ''Vendor ID'' @ [9] @ ascii ''Product ID'' @ [9] @ ascii ''Device Description'' @ [10]
     @ ascii ''-----'' @ [9] @ ascii ''---------'' @ [9] @ ascii ''----------'' @ [9] @ ascii ''----------------'' @ [10]
     @ concat (map (\<lambda>(n, d). usb_row n d) (enumerate 0 ds))"

text \<open>A command runs in a fresh place of its own: the device it was given, the files of the host and nothing printed yet.\<close>

definition native_start :: "surroundings \<Rightarrow> (bytes \<rightharpoonup> bytes) \<Rightarrow> 'd \<Rightarrow> 'd native" where
  "native_start S files d = \<lparr>nw_device = d, nw_files = files, nw_stdout = su_stdout S, nw_log = []\<rparr>"

type_synonym 'd native_end = "(unit, cli_error) outcome \<times> bytes \<times> 'd native option"

definition finish :: "((unit, cli_error) outcome \<times> 'd native) option \<Rightarrow> 'd native_end option" where
  "finish = map_option (\<lambda>(r, w). (r, sk_out (nw_stdout w), Some w))"

definition fails :: "cli_error \<Rightarrow> 'd native_end option" where
  "fails e = Some (Err e, [], None)"

text \<open>The outcome, what is printed, and what is left, when a device was opened.\<close>

definition run_usb ::
    "surroundings \<Rightarrow> (bytes \<Rightarrow> bytes) \<Rightarrow> 'd adb_usb_device device_ext \<Rightarrow> platform \<Rightarrow> (usb_transport \<Rightarrow> bytes \<Rightarrow> 'd result) \<Rightarrow> bytes result \<Rightarrow>
      (bytes \<rightharpoonup> bytes) \<Rightarrow> usb_args \<Rightarrow> 'd adb_usb_device native_end option" where
  "run_usb S align D p new_device default_path files a =
     (if ua_list a then (case find_all_connected_adb_devices p of
          Ok ds \<Rightarrow> Some (Ok (), align (usb_table ds), None)
        | Err e \<Rightarrow> fails (client_error e)
        | Panic \<Rightarrow> Some (Panic, [], None))
      else case open_usb p new_device default_path a of
          Ok d \<Rightarrow> (case ua_command a of
              Some c \<Rightarrow> finish (run_command S D c (native_start S files d))
            | None \<Rightarrow> Some (Err no_command, [], Some (native_start S files d)))
        | Err e \<Rightarrow> fails e
        | Panic \<Rightarrow> Some (Panic, [], None))"

definition run_tcp ::
    "surroundings \<Rightarrow> 'd device_ext \<Rightarrow> ('a \<Rightarrow> bytes \<Rightarrow> 'd result) \<Rightarrow> bytes result \<Rightarrow> (bytes \<rightharpoonup> bytes) \<Rightarrow> 'a \<Rightarrow> bytes option \<Rightarrow> device_command \<Rightarrow>
      'd native_end option" where
  "run_tcp S D new_tcp default_path files address key_path c =
     (case (case key_path of Some k \<Rightarrow> tcp_with_key new_tcp address k | None \<Rightarrow> tcp_device_new new_tcp default_path address) of
        Ok d \<Rightarrow> finish (run_command S D c (native_start S files d))
      | Err e \<Rightarrow> fails (client_error e)
      | Panic \<Rightarrow> Some (Panic, [], None))"

datatype local_args = Local_Device device_command | Local_Special local_device_command

text \<open>The server is started first when it would run on this host; what comes first is whether it was.\<close>

definition local_starts_server :: "socket_addr \<Rightarrow> bool" where
  "local_starts_server address = (case sa_octets address of (o1, o2, o3, o4) \<Rightarrow>
     o1 = 127 \<or> (o1 = 0 \<and> o2 = 0 \<and> o3 = 0 \<and> o4 = 0))"

text \<open>\<open>server\<close> is the device of the server that a selector stands for; making it cannot fail.\<close>

definition run_local ::
    "surroundings \<Rightarrow> server_device device_ext \<Rightarrow> (server_selector \<Rightarrow> socket_addr \<Rightarrow> server_device) \<Rightarrow>
      server_device log_copy \<Rightarrow> bytes option \<Rightarrow> (bytes \<rightharpoonup> bytes) \<Rightarrow> socket_addr \<Rightarrow> u32 option \<Rightarrow> bytes option \<Rightarrow> local_args \<Rightarrow>
      bool \<times> server_device native_end option" where
  "run_local S D server get_logs term files address transport_id serial c =
     (let w = native_start S files (server (local_selector transport_id serial) address) in
      (local_starts_server address,
       finish (case c of
         Local_Device c \<Rightarrow> run_command S D c w
       | Local_Special c \<Rightarrow> handle_local_command get_logs S term c w)))"

text \<open>What the program is started as; the arguments are the name it was called by and the first behind it.\<close>

datatype main_mode = Forward_Daemon | Usb_Daemon | Stand_In | Native

definition main_mode_of :: "bool \<Rightarrow> bool \<Rightarrow> bool \<Rightarrow> bytes option \<Rightarrow> bytes option \<Rightarrow> main_mode" where
  "main_mode_of forward_daemon usb_daemon key_set called first =
     (if forward_daemon then Forward_Daemon
      else if usb_daemon then Usb_Daemon
      else if (key_set \<or> called = Some (ascii ''adb'')) \<and> first \<noteq> Some (ascii ''tcp'') then Stand_In
      else Native)"

section \<open>What a command touches\<close>

fun written_file :: "device_command \<Rightarrow> bytes set" where
  "written_file (Do_Pull source target) = {target}"
| "written_file (Do_Framebuffer path) = {path}"
| "written_file _ = {}"

definition touches :: "bytes set \<Rightarrow> ('d native, 'a) cli \<Rightarrow> bool" where
  "touches A m \<longleftrightarrow> (\<forall>w r w' f. m w = Some (r, w') \<longrightarrow> f \<notin> A \<longrightarrow> nw_files w' f = nw_files w f)"

lemma touchesD: "touches A m \<Longrightarrow> m w = Some (r, w') \<Longrightarrow> f \<notin> A \<Longrightarrow> nw_files w' f = nw_files w f"
  by (simp add: touches_def)

lemma touches_bind:
  assumes "touches A m" and "\<And>a. touches A (f a)"
  shows "touches A (bind_cli m f)"
  unfolding touches_def
proof (intro allI impI)
  fix w r w' g assume run: "bind_cli m f w = Some (r, w')" and g: "g \<notin> A"
  then obtain q w1 where m: "m w = Some (q, w1)" by (auto simp: bind_cli_def bind_eq_Some_conv)
  with assms(1) g have "nw_files w1 g = nw_files w g" by (blast dest: touchesD)
  moreover have "nw_files w' g = nw_files w1 g"
    using run m g touchesD [OF assms(2), of _ w1 r w' g] by (cases q) (simp_all add: bind_cli_def)
  ultimately show "nw_files w' g = nw_files w g" by simp
qed

lemma touches_nothing:
  "touches A (on_nw_device m)" "touches A (printing out)" "touches A (writing_out out)" "touches A (logging ls)"
  "touches A (shell_to_stdout D command)" "touches A (open_input S path)"
  by (auto simp: touches_def on_nw_device_def printing_def writing_out_def logging_def shell_to_stdout_def open_input_def
      split: prod.splits option.splits)

lemma touches_path:
  "touches {path} (create_file S path)" "touches {path} (pull_into D source path out)"
  "touches {path} (save_framebuffer S path picture)"
  by (auto simp: touches_def create_file_def pull_into_def save_framebuffer_def split: prod.splits outcome.splits option.splits)

lemma touches_run_command: "touches (written_file c) (run_command S D c)"
proof (cases c)
  case (Do_Shell words)
  then show ?thesis
    by (cases "su_terminal S") (auto simp: touches_nothing, simp_all add: touches_def)
qed (auto intro!: touches_bind touches_nothing touches_path)

text \<open>
  A command changes no file of the host but the one it was told to write, and a pull that succeeds has written
  there exactly what the device sent, whatever was there before.
\<close>

theorem commands_write_only_their_file:
  assumes "run_command S D c w = Some (r, w')"
  shows "\<And>f. f \<notin> written_file c \<Longrightarrow> nw_files w' f = nw_files w f"
    and "\<And>source target. c = Do_Pull source target \<Longrightarrow> r = Ok () \<Longrightarrow>
      \<exists>k d. dx_pull D source \<lparr>sk_script = su_writes S target, sk_out = []\<rparr> (nw_device w) = Some (Ok (), k, d) \<and>
        nw_files w' = (nw_files w)(target \<mapsto> sk_out k)"
proof -
  fix f assume "f \<notin> written_file c"
  with touches_run_command [of c S D] assms show "nw_files w' f = nw_files w f" by (rule touchesD)
next
  fix source target assume "c = Do_Pull source target" and "r = Ok ()"
  with assms show "\<exists>k d. dx_pull D source \<lparr>sk_script = su_writes S target, sk_out = []\<rparr> (nw_device w) = Some (Ok (), k, d) \<and>
        nw_files w' = (nw_files w)(target \<mapsto> sk_out k)"
    by (cases "su_creates S target") (auto simp: bind_cli_def create_file_def pull_into_def split: outcome.splits)
qed

section \<open>What goes wrong\<close>

text \<open>
  \<open>forward add LOCAL REMOTE\<close> hands its arguments over in the order in which the device does not take them: the server is
  told to listen where the device should, and to connect to where it should listen.
\<close>

lemma forward_add_is_swapped:
  "forward_call term (Forward_Add near remote) = device_proxy term (Forward near remote) \<and>
   local_command_text None (Forward near remote) = ascii ''host:forward:'' @ remote @ ascii '';'' @ near"
  by (simp add: server_forward_def)

text \<open>The exit status of a command is dropped: one that fails on the device succeeds here.\<close>

lemma exit_status_is_lost:
  assumes "words \<noteq> []" and "dx_shell_command D (join (ascii '' '') words) (Some (nw_stdout w), None) (nw_device w) = Some (Ok (Some 1), outs, d)"
  shows "map_option fst (run_command S D (Do_Shell words) w) = Some (Ok ())"
  using assms by (simp add: shell_to_stdout_def)

text \<open>The file is emptied before the device is asked: a pull of a file that is not there destroys the one that was.\<close>

lemma failed_pull_empties_its_file:
  assumes "su_creates S target = Ok ()"
    and "\<And>k. dx_pull D source k (nw_device w) = Some (Err e, k, d)"
  shows "map_option (\<lambda>(r, w'). nw_files w' target) (run_command S D (Do_Pull source target) w) = Some (Some [])"
  using assms by (simp add: bind_cli_def create_file_def pull_into_def)

text \<open>\<open>reverse\<close> is offered for the devices of a server, whose kind never overrides it: it cannot succeed.\<close>

lemma reverse_is_unavailable_over_the_server:
  "run_command S (server_device_ext X) (Do_Reverse remote near) w
     = Some (Err (client_error (request_failed ''reverse forwarding is unavailable for this transport'')), w)"
  by (simp add: on_nw_device_def server_device_ext_def Let_def no_reverse_forward_def returns_def)

text \<open>A device is opened, and asks its user to be trusted, before it turns out that there is nothing to do.\<close>

lemma opened_for_nothing:
  assumes "\<not> ua_list a" and "ua_command a = None" and "open_usb p new_device default_path a = Ok d"
  shows "run_usb S align D p new_device default_path files a = Some (Err no_command, [], Some (native_start S files d))"
  using assms by (simp add: run_usb_def)

text \<open>The path of \<open>stat-extended\<close> is not quoted: what follows a semicolon in it is run on the device.\<close>

lemma stat_path_is_not_quoted:
  "stat_extended_command (path @ ascii ''; '' @ command) = stat_extended_command path @ ascii ''; '' @ command"
  by (simp add: stat_extended_command_def)

end
