(* ===== verification/Native_Runs.thy ===== *)
theory Native_Runs
  imports Native_Cli
begin

text \<open>
  The native command line on the devices of this library, from its arguments to the bytes on the wire: a pull from a device
  behind a server, and a shell command on a device over USB. The devices are the instances of \<open>Device_Ext\<close>.
\<close>

section \<open>A pull from a device of the server\<close>

lemma run_pull:
  assumes "su_creates S target = Ok ()" and "su_writes S target = []"
    and "dx_pull D source \<lparr>sk_script = [], sk_out = []\<rparr> d = Some (Ok (), k, d')"
  shows "run_command S D (Do_Pull source target) (native_start S files d)
    = Some (Ok (), (native_start S files d')\<lparr>nw_files := files(target \<mapsto> sk_out k)\<rparr>)"
  using assms by (simp add: bind_cli_def create_file_def pull_into_def native_start_def)


text \<open>The surroundings of a host where every file can be created and every write is taken.\<close>

definition easy_host :: surroundings where
  "easy_host = \<lparr>su_creates = (\<lambda>_. Ok ()), su_writes = (\<lambda>_. []), su_reads = (\<lambda>_ bs. [Chunk bs]),
     su_stdout = \<lparr>sk_script = [], sk_out = []\<rparr>, su_terminal = Ok (), su_image = (\<lambda>_ _. None), su_date = (\<lambda>_. []),
     su_stat = \<lparr>sx_second = (\<lambda>_. None), sx_third = (\<lambda>_. None), sx_fourth = (\<lambda>_. None), sx_date = (\<lambda>_. None)\<rparr>\<rparr>"

definition plain_setting :: "'d setting" where
  "plain_setting = \<lparr>se_term = None, se_package = (\<lambda>_. Err NoHomeDirectory), se_captures = (\<lambda>_. None),
     se_from_vec = (\<lambda>_ _ _. None), se_now = None, se_interactive = (\<lambda>_ d. Some (Err NoHomeDirectory, d))\<rparr>"

definition loopback :: socket_addr where
  "loopback = \<lparr>sa_octets = (127, 0, 0, 1), sa_port = 5037\<rparr>"


section \<open>A shell command on a device over USB\<close>

lemma shell_over_tcp:
  assumes "shell_command (mv_random d (mv_opened d)) (se_term X) command (fst outs) (mv_link d) = (Ok (), out, l)"
  shows "dx_shell_command (tcp_device_ext X R) command outs d
    = Some (Ok None, (out, snd outs), d\<lparr>mv_link := l, mv_opened := Suc (mv_opened d)\<rparr>)"
  using assms by (simp add: tcp_device_ext_def message_device_ext_def Let_def device_shell_command_def with_id_def)

text \<open>
  C39: \<open>usb shell WORDS\<close> opens the selected device, runs the words as one command and prints exactly what the device sends
  until it closes the stream; it acknowledges every message, touches no file and succeeds.
\<close>

theorem native_shell_exact:
  assumes "open_usb p new_device default_path a = Ok d" and "\<not> ua_list a" and "ua_command a = Some (Do_Shell words)" and "words \<noteq> []"
    and "ln_outcomes (mv_link (au_inner d)) = []" and "sk_script (su_stdout S) = []"
    and "ln_incoming (mv_link (au_inner d)) = Ok okay # map Ok ms @ Ok close # rest"
    and "msg_command okay = MC_Okay" and "msg_arg1 okay = mv_random (au_inner d) (mv_opened (au_inner d))"
    and "\<forall>m \<in> set ms. msg_command m \<noteq> MC_Clse" and "msg_command close = MC_Clse"
    and "length (destination (se_term X) (ShellCommand (join (ascii '' '') words) [])) < 2 ^ 32"
  shows "\<exists>w. run_usb S align (usb_device_ext (tcp_device_ext X R)) p new_device default_path files a
      = Some (Ok (), sk_out (su_stdout S) @ concat (map tm_payload ms), Some w) \<and> nw_files w = files \<and>
    ln_sent (mv_link (au_inner (nw_device w))) = ln_sent (mv_link (au_inner d))
      @ message_new MC_Open (msg_arg1 okay) 0 (destination (se_term X) (ShellCommand (join (ascii '' '') words) []))
      # replicate (length ms + 1) (message_new MC_Okay (msg_arg1 okay) (msg_arg0 okay) [])"
proof -
  note run = shell_output_complete [OF assms(5,6,7,8,9,10,11,12)]
  from shell_over_tcp [where X = X and R = R and outs = "(Some (su_stdout S), None)" and d = "au_inner d", simplified, OF run] assms(1-4,9)
  show ?thesis
    by (auto simp: run_usb_def shell_to_stdout_def native_start_def usb_device_ext_def on_au_inner_with_def finish_def)
qed

definition no_relay :: relay_setting where
  "no_relay = \<lparr>re_dial = (\<lambda>_. Err SendError), re_random = (\<lambda>_. 0), re_turns = []\<rparr>"

text \<open>A device that answers the command with two pieces of output, connected to a Mac.\<close>

definition answering :: message_device where
  "answering = \<lparr>mv_link = \<lparr>ln_incoming = [Ok (message_new MC_Okay 9 5 []), Ok (message_new MC_Write 9 5 [104]),
       Ok (message_new MC_Write 9 5 [105]), Ok (message_new MC_Clse 9 5 [])], ln_outcomes = [], ln_closed = TLSError, ln_sent = []\<rparr>,
     mv_random = (\<lambda>_. 5), mv_opened = 0\<rparr>"

definition shell_args :: usb_args where
  "shell_args = \<lparr>ua_vendor = Some 1, ua_product = Some 2, ua_key = Some [107], ua_list = False,
     ua_command = Some (Do_Shell [ascii ''echo'', ascii ''hi''])\<rparr>"

theorem native_shell_exact_witness:
  "\<exists>w. run_usb easy_host id (usb_device_ext (tcp_device_ext plain_setting no_relay)) (MacOS 0 None) (\<lambda>_ _. Ok answering) (Ok [107])
      (\<lambda>_. None) shell_args = Some (Ok (), [104, 105], Some w)"
proof -
  let ?d = "\<lparr>au_inner = answering, au_vendor = 1, au_product = 2\<rparr>"
  have opened: "open_usb (MacOS 0 None) (\<lambda>_ _. Ok answering) (Ok [107]) shell_args = Ok ?d"
    by (simp add: open_usb_def shell_args_def usb_with_key_def usb_transport_new_def new_at_location_def new_at_attachment_def
        new_from_transport_inner_def)
  have len: "length (destination (se_term plain_setting) (ShellCommand (join (ascii '' '') [ascii ''echo'', ascii ''hi'']) [])) < 2 ^ 32"
    by (simp add: destination_def plain_setting_def Let_def)
  from native_shell_exact [OF opened _ _ _ _ _ _ _ _ _ _ len, where S = easy_host and R = no_relay and align = id and files = "\<lambda>_. None"
      and okay = "message_new MC_Okay 9 5 []" and ms = "[message_new MC_Write 9 5 [104], message_new MC_Write 9 5 [105]]"
      and close = "message_new MC_Clse 9 5 []" and rest = "[]"]
  show ?thesis by (auto simp: shell_args_def answering_def easy_host_def)
qed

end
