(* ===== verification/Host_Status.thy ===== *)
theory Host_Status
  imports Server_Host
begin

text \<open>
  What the ADB server says of itself, \<^verbatim>\<open>server/models/server_status.rs\<close> and \<^verbatim>\<open>mdns_services.rs\<close>, and the commands of the host,
  \<^verbatim>\<open>adb_cli/src/handlers/host_commands.rs\<close>, which log it. The reader of the wire format (\<^verbatim>\<open>quick_protobuf\<close>), the
  regular expressions and the parser of addresses are parameters.
\<close>

section \<open>Status\<close>

datatype usb_backend = Usb_Unknown | Usb_Native | Usb_Lib

fun usb_backend_text :: "usb_backend \<Rightarrow> bytes" where
  "usb_backend_text Usb_Unknown = ascii ''UNKNOWN_USB''"
| "usb_backend_text Usb_Native = ascii ''NATIVE''"
| "usb_backend_text Usb_Lib = ascii ''LIBUSB''"

definition usb_backend_of_number :: "int \<Rightarrow> usb_backend" where
  "usb_backend_of_number i = (if i = 1 then Usb_Native else if i = 2 then Usb_Lib else Usb_Unknown)"

definition usb_backend_of_text :: "bytes \<Rightarrow> usb_backend" where
  "usb_backend_of_text s = (if s = ascii ''NATIVE'' then Usb_Native else if s = ascii ''LIBUSB'' then Usb_Lib else Usb_Unknown)"

fun mdns_backend_text :: "mdns_backend \<Rightarrow> bytes" where
  "mdns_backend_text Backend_Unknown = ascii ''UNKNOWN_MDNS''"
| "mdns_backend_text Bonjour = ascii ''BONJOUR''"
| "mdns_backend_text OpenScreen = ascii ''OPENSCREEN''"

definition mdns_backend_of_number :: "int \<Rightarrow> mdns_backend" where
  "mdns_backend_of_number i = (if i = 1 then Bonjour else if i = 2 then OpenScreen else Backend_Unknown)"

definition mdns_backend_of_text :: "bytes \<Rightarrow> mdns_backend" where
  "mdns_backend_of_text s = (if s = ascii ''BONJOUR'' then Bonjour else if s = ascii ''OPENSCREEN'' then OpenScreen else Backend_Unknown)"

record status_info =
  st_usb :: usb_backend
  st_usb_forced :: bool
  st_mdns :: mdns_backend
  st_mdns_forced :: bool
  st_version :: bytes
  st_build :: bytes
  st_executable :: bytes
  st_log :: bytes
  st_os :: bytes

definition status_default :: status_info where
  "status_default = \<lparr>st_usb = Usb_Unknown, st_usb_forced = False, st_mdns = Backend_Unknown, st_mdns_forced = False,
     st_version = [], st_build = [], st_executable = [], st_log = [], st_os = []\<rparr>"

text \<open>What the reader gives out one after the other: a tag with the value that is read for it, or a failure.\<close>

datatype status_field = Number_Field u32 int | Bool_Field u32 bool | Text_Field u32 bytes | Unknown_Field u32 | Bad_Field

fun set_field :: "status_field \<Rightarrow> status_info \<Rightarrow> status_info" where
  "set_field (Number_Field t i) s =
     (if t = 8 then s\<lparr>st_usb := usb_backend_of_number i\<rparr> else if t = 24 then s\<lparr>st_mdns := mdns_backend_of_number i\<rparr> else s)"
| "set_field (Bool_Field t b) s =
     (if t = 16 then s\<lparr>st_usb_forced := b\<rparr> else if t = 32 then s\<lparr>st_mdns_forced := b\<rparr> else s)"
| "set_field (Text_Field t x) s =
     (if t = 42 then s\<lparr>st_version := x\<rparr> else if t = 50 then s\<lparr>st_build := x\<rparr>
      else if t = 58 then s\<lparr>st_executable := x\<rparr> else if t = 66 then s\<lparr>st_log := x\<rparr>
      else if t = 74 then s\<lparr>st_os := x\<rparr> else s)"
| "set_field (Unknown_Field t) s = s"
| "set_field Bad_Field s = s"

fun status_from_reader :: "status_field list \<Rightarrow> status_info \<Rightarrow> status_info result" where
  "status_from_reader [] s = Ok s"
| "status_from_reader (Bad_Field # fs) s = Err ConversionError"
| "status_from_reader (f # fs) s = status_from_reader fs (set_field f s)"

definition status_try_from :: "(bytes \<Rightarrow> status_field list) \<Rightarrow> bytes \<Rightarrow> status_info result" where
  "status_try_from reader bs = status_from_reader (reader bs) status_default"

definition quoted_line :: "string \<Rightarrow> bytes \<Rightarrow> bytes" where
  "quoted_line name x = ascii name @ ascii '': '' @ [34] @ x @ [34, 10]"

definition status_text :: "status_info \<Rightarrow> bytes" where
  "status_text s =
     ascii ''usb_backend: '' @ usb_backend_text (st_usb s) @ [10]
     @ (if st_usb_forced s then ascii ''usb_backend_forced: true'' @ [10] else [])
     @ ascii ''mdns_backend: '' @ mdns_backend_text (st_mdns s) @ [10]
     @ (if st_mdns_forced s then ascii ''mdns_backend_forced: true'' @ [10] else [])
     @ quoted_line ''version'' (st_version s) @ quoted_line ''build'' (st_build s)
     @ quoted_line ''executable_absolute_path'' (st_executable s) @ quoted_line ''log_absolute_path'' (st_log s)
     @ quoted_line ''os'' (st_os s)"

section \<open>Services\<close>

record mdns_service =
  ms_name :: bytes
  ms_type :: bytes
  ms_address :: socket_addr

definition mdns_service_text :: "mdns_service \<Rightarrow> bytes" where
  "mdns_service_text m = ms_name m @ [9] @ ms_type m @ [9] @ socket_addr_text (ms_address m)"

text \<open>Each group of the expression is decoded, and the third is an address.\<close>

definition mdns_service_try_from ::
    "(bytes \<Rightarrow> (bytes \<times> bytes \<times> bytes) option) \<Rightarrow> (bytes \<Rightarrow> socket_addr option) \<Rightarrow> bytes \<Rightarrow> mdns_service result" where
  "mdns_service_try_from captures parse_address row =
     bind_outcome (ok_or RegexParsingError (captures row)) (\<lambda>(name, kind, address).
     bind_outcome (body_text name) (\<lambda>n.
     bind_outcome (body_text kind) (\<lambda>k.
     bind_outcome (body_text address) (\<lambda>a.
     bind_outcome (ok_or AddrParseError (parse_address a)) (\<lambda>p.
       Ok \<lparr>ms_name = n, ms_type = k, ms_address = p\<rparr>)))))"

section \<open>The commands of the host\<close>

datatype host_args =
    Host_Version
  | Host_Kill
  | Host_Devices bool
  | Host_Pair socket_addr bytes
  | Host_Connect socket_addr
  | Host_Disconnect socket_addr
  | Host_Mdns_Check
  | Host_Mdns_Services
  | Host_Server_Status
  | Host_Wait "wait_transport option"

text \<open>What the libraries make of the rows of the server.\<close>

record host_syntax =
  hx_short :: "bytes \<Rightarrow> (bytes \<times> bytes) option"
  hx_long :: "bytes \<Rightarrow> long_groups option"
  hx_service :: "bytes \<Rightarrow> (bytes \<times> bytes \<times> bytes) option"
  hx_address :: "bytes \<Rightarrow> socket_addr option"
  hx_status :: "bytes \<Rightarrow> status_field list"

text \<open>The server with the lines logged so far.\<close>

definition ask_server :: "(adb_server, 'a) io \<Rightarrow> (adb_server \<times> bytes list, 'a) io" where
  "ask_server m x = (case x of (v, ls) \<Rightarrow> case m v of (r, v') \<Rightarrow> (r, v', ls))"

definition tell :: "bytes list \<Rightarrow> (adb_server \<times> bytes list, unit) io" where
  "tell new x = (case x of (v, ls) \<Rightarrow> (Ok (), v, ls @ new))"

definition mdns_check_line :: "bool \<Rightarrow> mdns_backend \<Rightarrow> bytes" where
  "mdns_check_line check b = (case b of
       Backend_Unknown \<Rightarrow> ascii ''unknown mdns backend...''
     | Bonjour \<Rightarrow> if check then ascii ''mdns daemon version [Bonjour]'' else ascii ''ERROR: mdns daemon unavailable''
     | OpenScreen \<Rightarrow> ascii ''mdns daemon version [Openscreen discovery 0.0.0]'')"

fun handle_host_command :: "host_syntax \<Rightarrow> host_args \<Rightarrow> (adb_server \<times> bytes list, unit) io" where
  "handle_host_command X Host_Version = bind_io (ask_server server_version) (\<lambda>v.
     tell [ascii ''Android Debug Bridge version '' @ show_nat (unat (av_major v)) @ ascii ''.'' @ show_nat (unat (av_minor v))
             @ ascii ''.'' @ show_nat (unat (av_revision v)),
           ascii ''Package version 3.2.3-rust''])"
| "handle_host_command X Host_Kill = ask_server kill_server"
| "handle_host_command X (Host_Devices long) =
     (if long then seq_io (tell [ascii ''List of devices attached (extended)''])
        (bind_io (ask_server (devices_long (hx_long X))) (\<lambda>ds. tell (map device_long_text ds)))
      else seq_io (tell [ascii ''List of devices attached''])
        (bind_io (ask_server (devices (hx_short X))) (\<lambda>ds. tell (map device_short_text ds))))"
| "handle_host_command X (Host_Pair a code) =
     seq_io (ask_server (pair_device a code)) (tell [ascii ''Paired device '' @ socket_addr_text a])"
| "handle_host_command X (Host_Connect a) =
     seq_io (ask_server (connect_device a)) (tell [ascii ''Connected to '' @ socket_addr_text a])"
| "handle_host_command X (Host_Disconnect a) =
     seq_io (ask_server (disconnect_device a)) (tell [ascii ''Disconnected '' @ socket_addr_text a])"
| "handle_host_command X Host_Mdns_Check = bind_io (ask_server mdns_check) (\<lambda>check.
     bind_io (ask_server (server_status (status_try_from (hx_status X)))) (\<lambda>s. tell [mdns_check_line check (st_mdns s)]))"
| "handle_host_command X Host_Mdns_Services = seq_io (tell [ascii ''List of discovered mdns services''])
     (bind_io (ask_server (mdns_services (mdns_service_try_from (hx_service X) (hx_address X)))) (\<lambda>ms. tell (map mdns_service_text ms)))"
| "handle_host_command X Host_Server_Status =
     bind_io (ask_server (server_status (status_try_from (hx_status X)))) (\<lambda>s. tell [status_text s])"
| "handle_host_command X (Host_Wait tr) = seq_io (tell [ascii ''waiting for device to be connected...'']) (ask_server (wait_for_device Wait_Device tr))"

text \<open>\<open>track-devices\<close> logs every row and returns only when the connection fails.\<close>

definition log_device :: "device_short \<Rightarrow> bytes list \<Rightarrow> unit result \<times> bytes list" where
  "log_device d ls = (Ok (), ls @ [device_short_text d])"

definition track_devices :: "host_syntax \<Rightarrow> adb_server \<times> bytes list \<Rightarrow> (unit result \<times> adb_server \<times> bytes list) option" where
  "track_devices X x = (case x of (v, ls) \<Rightarrow> case host_send TrackDevices v of
       (Ok _, v') \<Rightarrow> (case sv_transport v' of
           None \<Rightarrow> Some (Err uninitialized, v', ls)
         | Some t \<Rightarrow> map_option (\<lambda>(r, ls', t'). (r, v'\<lparr>sv_transport := Some t'\<rparr>, ls'))
             (track_loop (device_short_try_from (hx_short X)) log_device ls t))
     | (Err e, v') \<Rightarrow> Some (Err e, v', ls)
     | (Panic, v') \<Rightarrow> Some (Panic, v', ls))"

definition handle_host_track :: "host_syntax \<Rightarrow> adb_server \<times> bytes list \<Rightarrow> (unit result \<times> adb_server \<times> bytes list) option" where
  "handle_host_track X x = track_devices X (snd (tell [ascii ''Live list of devices attached''] x))"

section \<open>What is read\<close>

text \<open>The names of the backends are read back as they are written.\<close>

lemma backend_names: "usb_backend_of_text (usb_backend_text u) = u" "mdns_backend_of_text (mdns_backend_text m) = m"
  by (cases u, simp_all add: usb_backend_of_text_def) (cases m, simp_all add: mdns_backend_of_text_def)

text \<open>The fields of a status, in the order of their tags.\<close>

definition status_fields :: "int \<Rightarrow> int \<Rightarrow> status_info \<Rightarrow> status_field list" where
  "status_fields u m s = [Number_Field 8 u, Bool_Field 16 (st_usb_forced s), Number_Field 24 m, Bool_Field 32 (st_mdns_forced s),
     Text_Field 42 (st_version s), Text_Field 50 (st_build s), Text_Field 58 (st_executable s), Text_Field 66 (st_log s),
     Text_Field 74 (st_os s)]"

lemma status_from_reader_fold:
  "Bad_Field \<notin> set fs \<Longrightarrow> status_from_reader fs s = Ok (fold set_field fs s)"
  by (induction fs s rule: status_from_reader.induct) auto

text \<open>
  A status is what its fields say in whatever order they come: fields of different tags commute, of two with one
  tag the later counts, unknown ones change nothing, and a field that cannot be read fails the whole.
\<close>

theorem status_is_read_exactly:
  "status_from_reader (status_fields u m s) status_default
     = Ok (s\<lparr>st_usb := usb_backend_of_number u, st_mdns := mdns_backend_of_number m\<rparr>) \<and>
   set_field (Unknown_Field t) s = s \<and>
   set_field (Text_Field t x) (set_field (Text_Field t y) s) = set_field (Text_Field t x) s \<and>
   set_field (Text_Field t x) (set_field (Bool_Field t' b) s) = set_field (Bool_Field t' b) (set_field (Text_Field t x) s) \<and>
   set_field (Number_Field t n) (set_field (Text_Field t' x) s) = set_field (Text_Field t' x) (set_field (Number_Field t n) s) \<and>
   status_from_reader (fs @ Bad_Field # gs) s = Err ConversionError"
proof -
  have "status_from_reader (fs @ Bad_Field # gs) s = Err ConversionError"
    by (induction fs s rule: status_from_reader.induct) auto
  then show ?thesis by (simp add: status_fields_def status_default_def)
qed

end
