(* ===== verification/Mdns_Discovery.thy ===== *)
theory Mdns_Discovery
  imports Rust_IO
begin

text \<open>
  Finding devices on the network, \<^verbatim>\<open>adb_client/src/mdns\<close>: what a resolved service says of a device, and the threads
  that hand devices to a channel. The mDNS daemon is a script: which events a receiver gives until it is closed,
  and what a shutdown answers.
\<close>

section \<open>A device\<close>

datatype ip_address = V4 u32 | V6 "128 word"

record mdns_device =
  mn_fullname :: bytes
  mn_addresses :: "ip_address set"
  mn_port :: u16

record resolved_service =
  rv_fullname :: bytes
  rv_addresses :: "ip_address set"
  rv_port :: u16

definition mdns_device_try_from :: "resolved_service \<Rightarrow> mdns_device result" where
  "mdns_device_try_from s =
     (if rv_port s = 0
      then Err (UnknownDeviceState (ascii ''device '' @ rv_fullname s @ ascii '' has a non-u16 port: '' @ show_nat (unat (rv_port s))))
      else Ok \<lparr>mn_fullname = rv_fullname s, mn_addresses = rv_addresses s, mn_port = rv_port s\<rparr>)"

definition ipv4_addresses :: "mdns_device \<Rightarrow> u32 set" where
  "ipv4_addresses d = {a. V4 a \<in> mn_addresses d}"

definition ipv6_addresses :: "mdns_device \<Rightarrow> (128 word) set" where
  "ipv6_addresses d = {a. V6 a \<in> mn_addresses d}"

lemma addresses_split: "mn_addresses d = V4 ` ipv4_addresses d \<union> V6 ` ipv6_addresses d"
proof (rule set_eqI)
  fix x
  show "x \<in> mn_addresses d \<longleftrightarrow> x \<in> V4 ` ipv4_addresses d \<union> V6 ` ipv6_addresses d"
    by (cases x) (auto simp: ipv4_addresses_def ipv6_addresses_def)
qed

section \<open>The threads\<close>

datatype service_event = Resolved resolved_service | Other_Event

definition ADB_CONNECT_SERVICE_NAME :: bytes where "ADB_CONNECT_SERVICE_NAME = ascii ''_adb-tls-connect._tcp.local.''"
definition ADB_PAIRING_SERVICE_NAME :: bytes where "ADB_PAIRING_SERVICE_NAME = ascii ''_adb-tls-pairing._tcp.local.''"

text \<open>
  The channel devices are sent to: those sent, and how many more its receiver takes before it is dropped (\<open>None\<close>: it
  never is). At the end of its events the receiver of the daemon is closed, and every further \<open>recv\<close> fails: the inner
  loop of the thread ends, and the outer one starts it again.
\<close>

record device_channel =
  dc_sent :: "mdns_device list"
  dc_room :: "nat option"

definition send_device :: "mdns_device \<Rightarrow> (device_channel, unit) io" where
  "send_device d c = (case dc_room c of
       Some 0 \<Rightarrow> (Err SendError, c)
     | Some (Suc n) \<Rightarrow> (Ok (), c\<lparr>dc_sent := dc_sent c @ [d], dc_room := Some n\<rparr>)
     | None \<Rightarrow> (Ok (), c\<lparr>dc_sent := dc_sent c @ [d]\<rparr>))"

partial_function (option) discovery_thread :: "service_event list \<Rightarrow> device_channel \<Rightarrow> (unit result \<times> device_channel) option" where
  "discovery_thread events c = (case events of
       [] \<Rightarrow> discovery_thread [] c
     | Other_Event # later \<Rightarrow> discovery_thread later c
     | Resolved s # later \<Rightarrow> (case mdns_device_try_from s of
           Ok d \<Rightarrow> (case send_device d c of
               (Ok _, c') \<Rightarrow> discovery_thread later c'
             | (Err e, c') \<Rightarrow> Some (Err e, c')
             | (Panic, c') \<Rightarrow> Some (Panic, c'))
         | _ \<Rightarrow> discovery_thread later c))"

text \<open>One thread for each of the two services that the daemon agrees to browse; the first refusal ends the start.\<close>

definition discovery_start :: "(bytes \<Rightarrow> 'r result) \<Rightarrow> 'r list \<Rightarrow> unit result \<times> 'r list" where
  "discovery_start browse threads = (case browse ADB_CONNECT_SERVICE_NAME of
       Ok r1 \<Rightarrow> (case browse ADB_PAIRING_SERVICE_NAME of
           Ok r2 \<Rightarrow> (Ok (), threads @ [r1, r2])
         | Err e \<Rightarrow> (Err e, threads @ [r1])
         | Panic \<Rightarrow> (Panic, threads @ [r1]))
     | Err e \<Rightarrow> (Err e, threads)
     | Panic \<Rightarrow> (Panic, threads))"

datatype shutdown_answer = Shut | Again | Shutdown_Failed

definition discovery_shutdown :: "shutdown_answer \<Rightarrow> shutdown_answer \<Rightarrow> unit result" where
  "discovery_shutdown first second = (case first of
       Shut \<Rightarrow> Ok ()
     | Again \<Rightarrow> (case second of Shut \<Rightarrow> Ok () | _ \<Rightarrow> Err MDNSError)
     | Shutdown_Failed \<Rightarrow> Err MDNSError)"

section \<open>What a thread does\<close>

fun devices_of :: "service_event list \<Rightarrow> mdns_device list" where
  "devices_of [] = []"
| "devices_of (Other_Event # es) = devices_of es"
| "devices_of (Resolved s # es) = (case mdns_device_try_from s of Ok d \<Rightarrow> d # devices_of es | _ \<Rightarrow> devices_of es)"

lemma closed_thread_spins: "discovery_thread [] c = None"
proof -
  have "events \<noteq> []" if "discovery_thread events c = Some y" for events c y
  proof (rule discovery_thread.raw_induct [OF _ that])
    fix rec :: "service_event list \<Rightarrow> device_channel \<Rightarrow> (unit result \<times> device_channel) option" and events c y
    assume IH: "\<And>events c y. rec events c = Some y \<Longrightarrow> events \<noteq> []"
      and body: "(case events of
           [] \<Rightarrow> rec [] c
         | Other_Event # later \<Rightarrow> rec later c
         | Resolved s # later \<Rightarrow> (case mdns_device_try_from s of
               Ok d \<Rightarrow> (case send_device d c of
                   (Ok _, c') \<Rightarrow> rec later c'
                 | (Err e, c') \<Rightarrow> Some (Err e, c')
                 | (Panic, c') \<Rightarrow> Some (Panic, c'))
             | _ \<Rightarrow> rec later c)) = Some y"
    show "events \<noteq> []"
    proof
      assume "events = []"
      with body have "rec [] c = Some y" by simp
      with IH show False by blast
    qed
  qed
  then show ?thesis by (cases "discovery_thread [] c") auto
qed

lemma mdns_device_try_from_not_Panic: "mdns_device_try_from s \<noteq> Panic"
  by (simp add: mdns_device_try_from_def)

text \<open>
  Every service that is resolved with a port is handed on, in order, and the thread ends only when the receiver of
  the devices is dropped while one is left to hand on; otherwise, also when the daemon is shut down, it never does.
\<close>

theorem discovery_ends_only_with_its_receiver:
  "discovery_thread events c =
     (case dc_room c of
        None \<Rightarrow> None
      | Some n \<Rightarrow>
          if n < length (devices_of events)
          then Some (Err SendError, \<lparr>dc_sent = dc_sent c @ take n (devices_of events), dc_room = Some 0\<rparr>)
          else None)"
proof (induction events arbitrary: c)
  case Nil
  show ?case by (simp add: closed_thread_spins split: option.split)
next
  case (Cons e events)
  show ?case
  proof (cases e)
    case Other_Event
    show ?thesis unfolding Other_Event by (subst discovery_thread.simps) (simp add: Cons.IH split: option.split)
  next
    case (Resolved s)
    show ?thesis
    proof (cases "mdns_device_try_from s")
      case (Ok d)
      show ?thesis
      proof (cases "dc_room c")
        case None
        with Ok show ?thesis
          unfolding Resolved by (subst discovery_thread.simps) (simp add: send_device_def Cons.IH split: option.split)
      next
        case (Some n)
        show ?thesis
        proof (cases n)
          case 0
          with Some Ok show ?thesis unfolding Resolved by (subst discovery_thread.simps) (simp add: send_device_def)
        next
          case (Suc m)
          with Some Ok show ?thesis
            unfolding Resolved by (subst discovery_thread.simps) (simp add: send_device_def Cons.IH split: option.split)
        qed
      qed
    next
      case (Err x)
      then show ?thesis unfolding Resolved by (subst discovery_thread.simps) (simp add: Cons.IH split: option.split)
    qed (simp add: mdns_device_try_from_not_Panic)
  qed
qed

end
