(* ===== verification/Spec2Isabelle.thy ===== *)
theory Spec2Isabelle
  imports Session_Runs Proto_Sync Device_Commands Reverse_Relay Forwarding Server_Commands Server_Host Cli_Stream
    Cli_Routing Cli_Wireless_Daemon Pull_Safety Push_Script Cli_Listing Wireless_Pairing Emulator Usb_Devices Saved_Addresses
    Native_Runs Host_Status Mdns_Discovery
begin

text \<open>
  A verification library for \<^verbatim>\<open>adb_client\<close>, a Rust implementation of the Android Debug Bridge (ADB): the
  protocol crate \<^verbatim>\<open>adb_proto\<close>, the client library \<^verbatim>\<open>adb_client\<close> and the command line \<^verbatim>\<open>adb_cli\<close>. Each definition
  is a translation of the code it names; everything else (operating system, TLS, USB, RSA, curves, regular
  expressions) is a script of outcomes or a parameter with its documented laws.

  \<^bold>\<open>The program.\<close>

  A host talks to \<^verbatim>\<open>adbd\<close> on a device in packets of a 24-byte header and a payload, over TCP, TLS or USB. Streams with an
  id on each side are multiplexed over the connection; a side may send one WRTE and then waits for an OKAY. Files travel
  in a stream of their own protocol (sync: DATA frames, DONE, statuses). The program has four ways to a device:

  \<^item> the sans-I/O session of \<^verbatim>\<open>adb_proto/src/session.rs\<close>, which is handed bytes and gives out packets and events;
  \<^item> a device that owns its transport and runs one service at a time (\<^verbatim>\<open>message_devices/adb_message_device.rs\<close>);
  \<^item> a dispatcher thread that owns the transport and serves many streams (\<^verbatim>\<open>message_devices/transport_dispatcher.rs\<close>),
    on which \<^verbatim>\<open>dispatched_device.rs\<close> builds services, forwards and reverse rules;
  \<^item> an ADB server on the host, asked over TCP (\<^verbatim>\<open>adb_client/src/server\<close>, \<^verbatim>\<open>server_device\<close>).

  The command line chooses a device of one of these kinds (\<^verbatim>\<open>adb_cli/src/compat.rs\<close> when it stands in for \<^verbatim>\<open>adb\<close>,
  \<^verbatim>\<open>adb_cli/src/main.rs\<close> with the arguments of its own). A USB device is held by a daemon
  (\<^verbatim>\<open>direct_daemon.rs\<close>), asked over a local socket in requests of tab-separated fields; the forwards of a wireless
  device by another (\<^verbatim>\<open>wireless_forward_daemon.rs\<close>).

  \<^bold>\<open>How the code is modelled.\<close>

  \<^item> Machine integers keep their width (\<^verbatim>\<open>u8 .. u64\<close> are words); a \<^verbatim>\<open>usize\<close> counts bytes in memory and is a number.
    A \<^verbatim>\<open>String\<close> is its UTF-8 bytes.
  \<^item> A fallible call gives \<open>Ok\<close>, \<open>Err\<close> or \<open>Panic\<close>; a call with state is a function from a state to an outcome and
    the state it leaves, also when it fails (\<open>io\<close>, \<open>bind_io\<close>).
  \<^item> What the outside will do is a script in the state: the results of reads (\<open>source\<close>), of writes (\<open>sink\<close>), of
    messages (\<open>Link\<close>), the turns of a scheduler. A theorem about every script is one about every peer, every way of
    cutting the bytes and every failure.
  \<^item> A loop is structural recursion on its script, a function with a measure, or, where it may run for ever, a partial
    function whose value is then \<open>None\<close>; properties of those say that they do return. The only fuel is the budget
    of symbolic links of path resolution (\<open>LINKS\<close>, forty, as in Linux), the attempts the code itself
    counts (\<open>PROBES\<close>, the eight messages of the handshake), and schedules, for which it is
    proved how long is enough (\<open>parallel_map_is_map\<close>).
  \<^item> Threads are step relations or turns of a scheduler: the dispatcher, the accept loops of the daemons, the pool of
    workers, the calls that race to create the key of the host or change the saved addresses.

  \<^bold>\<open>The theories\<close>, from the bottom; every path is below \<^verbatim>\<open>src/\<close>.

  \<^item> \<open>Prelude\<close>, \<open>Rust_Text\<close>: words, bytes, little-endian codecs, outcomes; the parts of \<^verbatim>\<open>core::str\<close> the code uses, with
    UTF-8. \<open>Rust_IO\<close>: the errors of \<^verbatim>\<open>adb_client/src/error.rs\<close>, readers (locales \<open>byte_reader\<close>, \<open>ending_reader\<close>).
    \<open>Stream_Parser\<close>: the interface of an incremental parser (locale) and that its result does not depend on how its
    input is cut, which the packet decoder and the sync reader instantiate.
  \<^item> \<^verbatim>\<open>adb_proto\<close>: \<open>Proto_Message\<close> (packets, decoder), \<open>Proto_Sync\<close> (sync frames and replies), \<open>Proto_Session\<close> (the session
    machine), \<open>Session_Runs\<close> (its reachable states: delivery, flow control, fresh ids, authentication).
  \<^item> \<^verbatim>\<open>adb_client\<close>, one service at a time: \<open>Transport_Message\<close>, \<open>Message_Transport\<close> (the messages and their framing over TCP
    and USB), \<open>Link\<close>, \<open>Message_Session\<close> (downloads and uploads), \<open>Client_Models\<close>, \<open>Message_Device\<close> (connecting,
    services), \<open>Device_Commands\<close> (shell, list, stat, install, framebuffer, ...), \<open>Usb_Devices\<close> (what
    is attached, opening it, and the constructors of the USB and TCP devices).
  \<^item> \<^verbatim>\<open>adb_client\<close>, many streams: \<open>Dispatcher\<close>, \<open>Dispatcher_Runs\<close> (its invariants and its refinement of a table of
    mailboxes), \<open>Copying\<close>, \<open>Relay\<close>, \<open>Reverse_Relay\<close> (reverse streams), \<open>Dispatched_Service\<close>, \<open>Dispatched_Transfers\<close>,
    \<open>Dispatched_Device\<close>, \<open>Forwarding\<close>.
  \<^item> \<^verbatim>\<open>adb_client\<close>, over the server: \<open>Server_Transport\<close>, \<open>Buffered_Copy\<close> (\<^verbatim>\<open>io::copy\<close> through the buffers of \<^verbatim>\<open>std\<close>), \<open>Server_Device\<close>,
    \<open>Server_Commands\<close>, \<open>Server_Host\<close>. \<open>Emulator\<close>: the console of an emulator (\<^verbatim>\<open>adb_client/src/emulator\<close>).
    \<open>Mdns_Discovery\<close>: devices found on the network (\<^verbatim>\<open>mdns/\<close>). \<open>Stat_Extended\<close>: the answer of \<^verbatim>\<open>stat\<close> and what is displayed
    of files (\<^verbatim>\<open>models/\<close>). \<open>Device_Ext\<close>: the trait \<open>ADBDeviceExt\<close> as a record of operations, and its instances for the devices
    over TCP, over USB and behind a server.
  \<^item> \<^verbatim>\<open>adb_client\<close>, the identity of the host: \<open>Host_Key\<close> (\<^verbatim>\<open>adb_rsa_key.rs\<close> and \<^verbatim>\<open>adb_proto/src/auth.rs\<close>), \<open>Key_Store\<close> (who
    wins when several processes create it), \<open>Pairing_Math\<close> and \<open>Wireless_Pairing\<close> (\<^verbatim>\<open>wireless.rs\<close>).
  \<^item> \<^verbatim>\<open>adb_cli\<close>, the daemons: \<open>Cli_Stream\<close> (frames over the control socket), \<open>Cli_Uploads\<close>, \<open>Cli_Daemon\<close> (every request),
    \<open>Cli_Requests\<close> (that a request does what was asked), \<open>Cli_Control\<close> (starting, probing, the accept loop),
    \<open>Cli_Wireless_Daemon\<close>.
  \<^item> \<^verbatim>\<open>adb_cli\<close>, commands: \<open>Cli_Args\<close>, \<open>Cli_Devices\<close>, \<open>Cli_Routing\<close> (which device), \<open>Cli_Wireless\<close>, \<open>Saved_Addresses\<close> (processes that change
    the saved addresses at the same time), \<open>Cli_Listing\<close> (what is listed), \<open>Cli_Parallel\<close> (the pool of workers), \<open>Cli_Commands\<close>, \<open>Cli_Actions\<close>, \<open>Cli_Main\<close> (from the arguments to the action),
    \<open>Local_Files\<close> and \<open>Confined_Files\<close> (paths and the file system of the host), \<open>Cli_Transfers\<close>, \<open>Pull_Entries\<close>, \<open>Pull_Safety\<close>
    (trees pulled from a device), \<open>Cli_Push\<close>, \<open>Push_Script\<close> (trees pushed to it).
  \<^item> \<^verbatim>\<open>adb_cli\<close>, its own command line: \<open>Native_Cli\<close> (\<^verbatim>\<open>main.rs\<close>, \<^verbatim>\<open>models/\<close>, \<^verbatim>\<open>handlers/\<close>), \<open>Native_Runs\<close> (its commands on
    the instances of the trait, down to the bytes on the wire), \<open>Host_Status\<close> (the status of a server and the commands of the host).

  \<^bold>\<open>What is shown.\<close>

  Codecs and parsers are exact inverses of their encoders under every way of cutting the input, consume what they
  should, refuse what the format forbids and do not panic. Sessions, dispatchers and relays deliver exactly what was
  sent, in order, to whom it was sent, with one write in flight, and clean up when the transport fails. Transfers
  are complete or reported as failed. The command line runs a command on the device that was selected or on none, the
  daemon does what the command asked, a package name is inert in a shell, a pull changes nothing outside its destination
  and leaves no partial file, a push performs a fixed script. Loops of the accept threads, pools and deadlines
  end when they should. The key of the host is encoded as Android reads it, in both crates alike, one identity wins, and
  pairing ends with both sides sharing a key. Lemmas whose name is given in the findings of the project show where
  the code does something else than it means to.

  \<^bold>\<open>Not modelled\<close>, and why.

  \<^item> Libraries and the system: TLS and certificates, RSA, the curve and the ciphers, base64, regular expressions and
    dates, protocol buffers, images, the parser of the native arguments (\<^verbatim>\<open>clap\<close>), USB transfers and hot-plug events,
    the mDNS daemon, spawning processes, signals, terminals, sockets but for their bytes.
    They are parameters or scripts.
  \<^item> Code that only calls them: \<^verbatim>\<open>message_devices/usb/native_bridge\<close>, \<^verbatim>\<open>adb_termios.rs\<close>, \<^verbatim>\<open>benches/\<close>, \<^verbatim>\<open>examples/\<close>, \<^verbatim>\<open>build.rs\<close>,
    logging and what is printed on the way of a command.
  \<^item> Methods that only hand a call on to a model that is here: those of the dispatched USB and
    TCP devices, and the Python bindings \<^verbatim>\<open>pyadb_client/\<close>.
  \<^item> Timeouts, as far as they only make a read or a write fail: a script may fail anywhere.
  \<^item> The two threads of an interactive shell, which copy bytes between a terminal and a stream; each of them
    is modelled, their interleaving is not.
\<close>

end
